(* ===== verification/Prelude.thy ===== *)
theory Prelude
  imports Main "HOL-Library.AList" "HOL-Library.Sublist" "HOL-Library.Multiset"
    "HOL-Library.List_Lexorder" "HOL-Library.Char_ord"
begin

text \<open>
  Shared vocabulary of the development.

  \<^item> Results: a Go function that returns \<open>(T, error)\<close> is a function into
    \<open>'e + 'a\<close>; \<open>Inl\<close> is the error return, \<open>Inr\<close> the value.  \<open>rbind\<close> is the
    \<open>if err != nil { return err }\<close> idiom, \<open>each_ok\<close> the checking loop and \<open>collect\<close>
    the building loop that stop at the first error.
  \<^item> Maps: a Go map is an association list.  The order of the list is the (unspecified)
    iteration order of the map, so statements that hold for every list hold for
    every iteration order.
  \<^item> Loops with a \<open>seen\<close> set: \<open>dedup\<close> keeps the first occurrence of every value.
\<close>

named_theorems result_simps "rewriting the error plumbing"
named_theorems map_simps "lookup and update laws of Go maps"

section \<open>Results\<close>

type_synonym ('e, 'a) result = "'e + 'a"

definition rbind :: "('e, 'a) result \<Rightarrow> ('a \<Rightarrow> ('e, 'b) result) \<Rightarrow> ('e, 'b) result" where
  "rbind r f = (case r of Inl e \<Rightarrow> Inl e | Inr v \<Rightarrow> f v)"

definition ok :: "('e, 'a) result \<Rightarrow> bool" where
  "ok r = (case r of Inl _ \<Rightarrow> False | Inr _ \<Rightarrow> True)"

fun each_ok :: "('a \<Rightarrow> ('e, unit) result) \<Rightarrow> 'a list \<Rightarrow> ('e, unit) result" where
  "each_ok f [] = Inr ()"
| "each_ok f (x # xs) = rbind (f x) (\<lambda>_. each_ok f xs)"

fun collect :: "('a \<Rightarrow> ('e, 'b) result) \<Rightarrow> 'a list \<Rightarrow> ('e, 'b list) result" where
  "collect f [] = Inr []"
| "collect f (x # xs) = rbind (f x) (\<lambda>y. rbind (collect f xs) (\<lambda>ys. Inr (y # ys)))"

lemma rbind_simps [simp, result_simps]:
  "rbind (Inl e) f = Inl e"
  "rbind (Inr v) f = f v"
  by (simp_all add: rbind_def)

lemma rbind_Inr_iff [result_simps]: "rbind r f = Inr y \<longleftrightarrow> (\<exists>v. r = Inr v \<and> f v = Inr y)"
  by (cases r) simp_all

lemma rbind_Inl_iff: "rbind r f = Inl e \<longleftrightarrow> r = Inl e \<or> (\<exists>v. r = Inr v \<and> f v = Inl e)"
  by (cases r) simp_all

lemma rbind_InrE [elim]:
  assumes "rbind r f = Inr y"
  obtains v where "r = Inr v" "f v = Inr y"
  using assms by (auto simp: rbind_Inr_iff)

lemma ok_simps [simp]: "ok (Inl e) \<longleftrightarrow> False" "ok (Inr v) \<longleftrightarrow> True"
  by (simp_all add: ok_def)

lemma ok_iff: "ok r \<longleftrightarrow> (\<exists>v. r = Inr v)"
  by (cases r) simp_all

lemma not_ok_iff: "\<not> ok r \<longleftrightarrow> (\<exists>e. r = Inl e)"
  by (cases r) simp_all

lemma ok_rbind: "ok (rbind r f) \<longleftrightarrow> (\<exists>v. r = Inr v \<and> ok (f v))"
  by (cases r) simp_all

lemma each_ok_iff: "each_ok f xs = Inr u \<longleftrightarrow> (\<forall>x \<in> set xs. f x = Inr ())"
  by (induction xs) (auto simp: rbind_Inr_iff)

lemma each_ok_append:
  "each_ok f (xs @ ys) = rbind (each_ok f xs) (\<lambda>_. each_ok f ys)"
  by (induction xs) (simp_all add: rbind_def split: sum.splits)

lemma each_ok_first_error:
  assumes "each_ok f xs = Inl e"
  shows "\<exists>x \<in> set xs. f x = Inl e"
  using assms by (induction xs) (auto simp: rbind_Inl_iff)

lemma collect_Inr_iff:
  "collect f xs = Inr ys \<longleftrightarrow> list_all2 (\<lambda>x y. f x = Inr y) xs ys"
  by (induction xs arbitrary: ys) (auto simp: rbind_Inr_iff list_all2_Cons1)

lemma collect_length: "collect f xs = Inr ys \<Longrightarrow> length ys = length xs"
  by (simp add: collect_Inr_iff list_all2_lengthD)

lemma collect_nth:
  assumes "collect f xs = Inr ys" and "i < length xs"
  shows "f (xs ! i) = Inr (ys ! i)"
  using assms by (simp add: collect_Inr_iff list_all2_conv_all_nth)

lemma collect_set:
  assumes "collect f xs = Inr ys" and "y \<in> set ys"
  shows "\<exists>x \<in> set xs. f x = Inr y"
proof -
  obtain i where i: "i < length ys" "y = ys ! i"
    using assms(2) by (auto simp: in_set_conv_nth)
  then have "i < length xs" using assms(1) by (simp add: collect_length)
  then show ?thesis
    using collect_nth [OF assms(1)] i by (metis nth_mem)
qed

lemma collect_total:
  assumes "\<And>x. x \<in> set xs \<Longrightarrow> f x = Inr (g x)"
  shows "collect f xs = Inr (map g xs)"
  using assms by (induction xs) auto

section \<open>Go maps\<close>

type_synonym ('k, 'v) gomap = "('k \<times> 'v) list"

lemma map_of_update [map_simps]:
  "map_of (AList.update k v m) = (map_of m)(k \<mapsto> v)"
  by (simp add: update_conv')

lemma map_of_delete [map_simps]:
  "map_of (AList.delete k m) = (map_of m)(k := None)"
  by (simp add: delete_conv')

lemma distinct_update [intro]:
  "distinct (map fst m) \<Longrightarrow> distinct (map fst (AList.update k v m))"
  by (rule distinct_update)

lemma distinct_delete [intro]:
  "distinct (map fst m) \<Longrightarrow> distinct (map fst (AList.delete k m))"
  by (rule distinct_delete)

lemma map_of_filter_None:
  "map_of m k = None \<Longrightarrow> map_of (filter P m) k = None"
  by (induction m) auto

lemma map_of_filter_distinct:
  assumes "distinct (map fst m)"
  shows "map_of (filter P m) k =
    (case map_of m k of None \<Rightarrow> None | Some v \<Rightarrow> if P (k, v) then Some v else None)"
  using assms
proof (induction m)
  case (Cons a m)
  obtain k' v' where a: "a = (k', v')" by (cases a)
  show ?case
  proof (cases "k' = k")
    case True
    then have "map_of m k = None"
      using Cons.prems a by (auto simp: map_of_eq_None_iff)
    then show ?thesis
      using a True by (simp add: map_of_filter_None)
  next
    case False
    then show ?thesis using Cons a by simp
  qed
qed simp

section \<open>First occurrences\<close>

fun dedup_from :: "'a list \<Rightarrow> 'a list \<Rightarrow> 'a list" where
  "dedup_from seen [] = []"
| "dedup_from seen (x # xs) =
    (if x \<in> set seen then dedup_from seen xs else x # dedup_from (x # seen) xs)"

definition dedup :: "'a list \<Rightarrow> 'a list" where
  "dedup xs = dedup_from [] xs"

lemma set_dedup_from: "set (dedup_from seen xs) = set xs - set seen"
  by (induction xs arbitrary: seen) auto

lemma distinct_dedup_from: "distinct (dedup_from seen xs)"
  by (induction xs arbitrary: seen) (auto simp: set_dedup_from)

lemma set_dedup [simp]: "set (dedup xs) = set xs"
  by (simp add: dedup_def set_dedup_from)

lemma distinct_dedup [simp]: "distinct (dedup xs)"
  by (simp add: dedup_def distinct_dedup_from)

lemma dedup_from_id:
  "distinct xs \<Longrightarrow> set xs \<inter> set seen = {} \<Longrightarrow> dedup_from seen xs = xs"
  by (induction xs arbitrary: seen) auto

lemma dedup_id: "distinct xs \<Longrightarrow> dedup xs = xs"
  by (simp add: dedup_def dedup_from_id)

section \<open>Lists\<close>

lemma list_all2_right: "list_all2 P xs ys \<Longrightarrow> y \<in> set ys \<Longrightarrow> \<exists>x \<in> set xs. P x y"
  by (induction rule: list_all2_induct) auto

lemma list_all2_left: "list_all2 P xs ys \<Longrightarrow> x \<in> set xs \<Longrightarrow> \<exists>y \<in> set ys. P x y"
  by (induction rule: list_all2_induct) auto

lemma subseq_set: "subseq xs ys \<Longrightarrow> set xs \<subseteq> set ys"
  by (induction rule: list_emb.induct) auto

lemma subseq_distinct: "subseq xs ys \<Longrightarrow> distinct ys \<Longrightarrow> distinct xs"
  by (induction rule: list_emb.induct) (auto dest: subseq_set)

lemma find_Some_mem:
  assumes "find P xs = Some x"
  shows "x \<in> set xs" and "P x"
  using assms by (auto simp: find_Some_iff)

lemma find_Some_mem2: "find P xs = Some x \<Longrightarrow> x \<in> set xs \<and> P x"
  by (auto simp: find_Some_iff)

lemma find_None_all: "find P xs = None \<longleftrightarrow> (\<forall>x \<in> set xs. \<not> P x)"
  by (auto simp: find_None_iff)

end
