(* ===== verification/Go_Strings.thy ===== *)
theory Go_Strings
  imports Prelude
begin

text \<open>
  The part of Go's \<open>strings\<close> package the catalog uses.  A Go string is a byte sequence; an
  Isabelle \<open>string\<close> is a list of 8-bit characters, so the two coincide and all definitions
  here are exact at the byte level.  White space is the Unicode white space of
  \<open>unicode.IsSpace\<close>, given by the UTF-8 encodings of its code points.
\<close>

section \<open>Prefixes, suffixes and affixes\<close>

abbreviation HasPrefix :: "string \<Rightarrow> string \<Rightarrow> bool" where
  "HasPrefix s p \<equiv> prefix p s"

abbreviation HasSuffix :: "string \<Rightarrow> string \<Rightarrow> bool" where
  "HasSuffix s p \<equiv> suffix p s"

definition TrimPrefix :: "string \<Rightarrow> string \<Rightarrow> string" where
  "TrimPrefix s p = (if HasPrefix s p then drop (length p) s else s)"

definition TrimSuffix :: "string \<Rightarrow> string \<Rightarrow> string" where
  "TrimSuffix s p = (if HasSuffix s p then take (length s - length p) s else s)"

lemma TrimPrefix_append [simp]: "TrimPrefix (p @ s) p = s"
  by (simp add: TrimPrefix_def)

lemma TrimPrefix_split: "HasPrefix s p \<Longrightarrow> p @ TrimPrefix s p = s"
  by (auto simp: TrimPrefix_def prefix_def)

section \<open>White space\<close>

definition space_encodings :: "string list" where
  "space_encodings =
    [[CHR 0x09], [CHR 0x0A], [CHR 0x0B], [CHR 0x0C], [CHR 0x0D], [CHR 0x20],
     [CHR 0xC2, CHR 0x85], [CHR 0xC2, CHR 0xA0], [CHR 0xE1, CHR 0x9A, CHR 0x80],
     [CHR 0xE2, CHR 0x80, CHR 0x80], [CHR 0xE2, CHR 0x80, CHR 0x81],
     [CHR 0xE2, CHR 0x80, CHR 0x82], [CHR 0xE2, CHR 0x80, CHR 0x83],
     [CHR 0xE2, CHR 0x80, CHR 0x84], [CHR 0xE2, CHR 0x80, CHR 0x85],
     [CHR 0xE2, CHR 0x80, CHR 0x86], [CHR 0xE2, CHR 0x80, CHR 0x87],
     [CHR 0xE2, CHR 0x80, CHR 0x88], [CHR 0xE2, CHR 0x80, CHR 0x89],
     [CHR 0xE2, CHR 0x80, CHR 0x8A], [CHR 0xE2, CHR 0x80, CHR 0xA8],
     [CHR 0xE2, CHR 0x80, CHR 0xA9], [CHR 0xE2, CHR 0x80, CHR 0xAF],
     [CHR 0xE2, CHR 0x81, CHR 0x9F], [CHR 0xE3, CHR 0x80, CHR 0x80]]"

definition leading :: "string list \<Rightarrow> string \<Rightarrow> string option" where
  "leading encs s = find (\<lambda>e. e \<noteq> [] \<and> prefix e s) encs"

lemma leading_SomeD:
  "leading encs s = Some e \<Longrightarrow> e \<in> set encs \<and> e \<noteq> [] \<and> prefix e s"
  unfolding leading_def by (drule find_Some_mem2) auto

function strip :: "string list \<Rightarrow> string \<Rightarrow> string" where
  "strip encs s = (case leading encs s of None \<Rightarrow> s | Some e \<Rightarrow> strip encs (drop (length e) s))"
  by pat_completeness auto
termination
  by (relation "measure (\<lambda>(_, s). length s)") (auto dest!: leading_SomeD simp: prefix_def)

declare strip.simps [simp del]

definition TrimLeftSpace :: "string \<Rightarrow> string" where
  "TrimLeftSpace s = strip space_encodings s"

definition TrimRightSpace :: "string \<Rightarrow> string" where
  "TrimRightSpace s = rev (strip (map rev space_encodings) (rev s))"

definition TrimSpace :: "string \<Rightarrow> string" where
  "TrimSpace s = TrimRightSpace (TrimLeftSpace s)"

lemma leading_strip: "leading encs (strip encs s) = None"
  by (induction encs s rule: strip.induct) (subst strip.simps, auto split: option.splits)

lemma strip_id: "leading encs s = None \<Longrightarrow> strip encs s = s"
  by (subst strip.simps) simp

lemma strip_suffix: "suffix (strip encs s) s"
proof (induction encs s rule: strip.induct)
  case (1 encs s)
  then show ?case
    by (subst strip.simps) (auto split: option.splits intro: suffix_order.trans suffix_drop)
qed

lemma strip_Nil [simp]: "strip encs [] = []"
  using strip_suffix [of encs "[]"] by simp

lemma leading_prefix_None:
  assumes "prefix t s" and "leading encs s = None"
  shows "leading encs t = None"
  using assms by (auto simp: leading_def find_None_iff intro: prefix_order.trans)

lemma TrimRightSpace_prefix: "prefix (TrimRightSpace s) s"
  unfolding TrimRightSpace_def
  using strip_suffix [of "map rev space_encodings" "rev s"] by (simp add: suffix_to_prefix)

lemma TrimSpace_idem [simp]: "TrimSpace (TrimSpace s) = TrimSpace s"
proof -
  let ?l = "TrimLeftSpace s"
  have "leading space_encodings ?l = None"
    unfolding TrimLeftSpace_def by (rule leading_strip)
  then have "leading space_encodings (TrimSpace s) = None"
    unfolding TrimSpace_def by (rule leading_prefix_None [OF TrimRightSpace_prefix])
  then have "TrimLeftSpace (TrimSpace s) = TrimSpace s"
    unfolding TrimLeftSpace_def by (rule strip_id)
  moreover have "TrimRightSpace (TrimRightSpace t) = TrimRightSpace t" for t
    by (simp add: TrimRightSpace_def strip_id [OF leading_strip])
  ultimately show ?thesis
    by (metis TrimSpace_def)
qed

lemma TrimSpace_Nil [simp]: "TrimSpace [] = []"
  by (simp add: TrimSpace_def TrimLeftSpace_def TrimRightSpace_def)

lemma TrimSpace_length: "length (TrimSpace s) \<le> length s"
proof -
  have "length (TrimSpace s) \<le> length (TrimLeftSpace s)"
    unfolding TrimSpace_def by (rule prefix_length_le [OF TrimRightSpace_prefix])
  also have "\<dots> \<le> length s"
    unfolding TrimLeftSpace_def by (rule suffix_length_le [OF strip_suffix])
  finally show ?thesis .
qed

lemma set_TrimSpace: "set (TrimSpace s) \<subseteq> set s"
  using set_mono_prefix [OF TrimRightSpace_prefix [of "TrimLeftSpace s"]]
    set_mono_suffix [OF strip_suffix [of space_encodings s]]
  by (auto simp: TrimSpace_def TrimLeftSpace_def)

section \<open>Splitting and joining\<close>

fun Split :: "char \<Rightarrow> string \<Rightarrow> string list" where
  "Split c [] = [[]]"
| "Split c (x # xs) =
    (if x = c then [] # Split c xs
     else case Split c xs of [] \<Rightarrow> [[x]] | y # ys \<Rightarrow> (x # y) # ys)"

fun Join :: "string \<Rightarrow> string list \<Rightarrow> string" where
  "Join sep [] = []"
| "Join sep [x] = x"
| "Join sep (x # y # ys) = x @ sep @ Join sep (y # ys)"

lemma Split_nonempty [simp]: "Split c s \<noteq> []"
  by (cases s) (auto split: list.splits)

lemma Join_Cons: "ys \<noteq> [] \<Longrightarrow> Join sep (x # ys) = x @ sep @ Join sep ys"
  by (cases ys) auto

lemma Join_Split [simp]: "Join [c] (Split c s) = s"
proof (induction s)
  case (Cons x xs)
  obtain y ys where s: "Split c xs = y # ys"
    by (meson Split_nonempty neq_Nil_conv)
  show ?case
    using Cons.IH s by (cases ys) auto
qed simp

lemma Split_no_sep: "p \<in> set (Split c s) \<Longrightarrow> c \<notin> set p"
proof (induction s arbitrary: p)
  case (Cons x xs)
  then show ?case
    by (cases "Split c xs") (auto split: if_splits)
qed simp

lemma Split_id: "c \<notin> set s \<Longrightarrow> Split c s = [s]"
  by (induction s) auto

lemma Split_append:
  "c \<notin> set p \<Longrightarrow> Split c (p @ c # s) = p # Split c s"
  by (induction p) auto

lemma Split_Join:
  assumes "ps \<noteq> []" and "\<forall>p \<in> set ps. c \<notin> set p"
  shows "Split c (Join [c] ps) = ps"
  using assms
proof (induction ps)
  case (Cons p ps)
  then show ?case
    by (cases ps) (auto simp: Split_id Split_append)
qed simp

section \<open>Searching\<close>

definition Contains :: "string \<Rightarrow> string \<Rightarrow> bool" where
  "Contains s t = sublist t s"

definition ContainsChar :: "string \<Rightarrow> char \<Rightarrow> bool" where
  "ContainsChar s c = (c \<in> set s)"

text \<open>A byte string read as UTF-8 contains a control character (\<open>unicode.IsControl\<close>) when it
  has a C0 byte, DEL, or the two-byte encoding of a C1 code point: the lead byte C2 occurs in
  valid UTF-8 only at the start of such an encoding and never inside another one.\<close>

fun HasControl :: "string \<Rightarrow> bool" where
  "HasControl [] = False"
| "HasControl (c # s) =
    (of_char c < (0x20::nat) \<or> of_char c = (0x7F::nat) \<or>
     (of_char c = (0xC2::nat) \<and>
      (case s of [] \<Rightarrow> False | d # _ \<Rightarrow> (0x80::nat) \<le> of_char d \<and> of_char d \<le> (0x9F::nat))) \<or>
     HasControl s)"

section \<open>Decimal numerals\<close>

fun digits_rev :: "nat \<Rightarrow> string" where
  "digits_rev n = (if n < 10 then [char_of (48 + n)]
                   else char_of (48 + n mod 10) # digits_rev (n div 10))"

declare digits_rev.simps [simp del]

definition itoa :: "nat \<Rightarrow> string" where
  "itoa n = rev (digits_rev n)"

end
