(* ===== verification/Kernel.thy ===== *)
theory Kernel
  imports Go_Strings
begin

text \<open>
  \<open>src/kernel\<close>: the stable error codes and the protocol error (\<open>errors.go\<close>), the canonical
  decimal form of JSON numbers that digests are computed over (\<open>json.go\<close>), and the principal
  shape of \<open>identity_context.go\<close>.

  Callers branch on the code of an error and never on its message, so an error value is its
  code: \<open>Ingress c\<close> for an \<open>*IngressError\<close>, \<open>Bare\<close> for any other error, \<open>Wrapped e\<close> for
  an error that wraps \<open>e\<close> (\<open>fmt.Errorf\<close> with \<open>%w\<close>).  \<open>Panic\<close> marks a call that does not return but
  panics, such as a method call on a nil pointer.
\<close>

section \<open>Errors\<close>

datatype error_code =
    ErrUsageInvalid | ErrPreconditionFailed | ErrNonFastForward | ErrObjectIDConflict
  | ErrIdempotencyConflict | ErrEventIDConflict | ErrPositionRegression
  | ErrWriteTargetRequired | ErrSurfaceMismatch | ErrScopeDenied | ErrSchemaUnsupported
  | ErrSchemaRevisionUnresolved | ErrSchemaInstanceInvalid | ErrSchemaIncompatible
  | ErrTargetRepositoryDenied | ErrKnowledgeRefUnresolved | ErrVersionUnresolved
  | ErrCapabilityUnsatisfied | ErrTemporaryUnavailable | ErrCandidateMoved
  | ErrValidationBasisMismatch | ErrKnowledgeSetInvalid | ErrForbidden | ErrUnauthenticated
  | ErrCatalogArchived | ErrRepositoryArchived | ErrGateUnsatisfied | ErrHookDenied

datatype go_error = Ingress error_code | Bare | Wrapped go_error | Panic

type_synonym 'a go = "(go_error, 'a) result"

definition Fail :: "error_code \<Rightarrow> go_error" where
  "Fail c = Ingress c"

fun AsIngress :: "go_error option \<Rightarrow> error_code option" where
  "AsIngress None = None"
| "AsIngress (Some (Ingress c)) = Some c"
| "AsIngress (Some Bare) = None"
| "AsIngress (Some (Wrapped e)) = AsIngress (Some e)"
| "AsIngress (Some Panic) = None"

definition CodeOf :: "go_error option \<Rightarrow> error_code option" where
  "CodeOf e = AsIngress e"

definition Normalize :: "go_error option \<Rightarrow> error_code option" where
  "Normalize e = (case e of None \<Rightarrow> None
     | Some _ \<Rightarrow> (case AsIngress e of Some c \<Rightarrow> Some c | None \<Rightarrow> Some ErrUsageInvalid))"

abbreviation fails :: "error_code \<Rightarrow> 'a go" where
  "fails c \<equiv> Inl (Fail c)"

text \<open>The code a failed call reports: \<open>CodeOf(err)\<close> of its error return.\<close>

definition code_of :: "'a go \<Rightarrow> error_code option" where
  "code_of r = (case r of Inl e \<Rightarrow> CodeOf (Some e) | Inr _ \<Rightarrow> None)"

lemma code_of_simps [simp]:
  "code_of (Inr v) = None" "code_of (Inl e) = CodeOf (Some e)"
  by (simp_all add: code_of_def)

lemma CodeOf_Fail [simp]: "CodeOf (Some (Fail c)) = Some c"
  by (simp add: CodeOf_def Fail_def)

lemma CodeOf_Bare [simp]: "CodeOf (Some Bare) = None"
  by (simp add: CodeOf_def)

lemma CodeOf_Wrapped [simp]: "CodeOf (Some (Wrapped e)) = CodeOf (Some e)"
  by (simp add: CodeOf_def)

lemma Normalize_code:
  "Normalize (Some e) = (case CodeOf (Some e) of None \<Rightarrow> Some ErrUsageInvalid | Some c \<Rightarrow> Some c)"
  by (simp add: Normalize_def CodeOf_def split: option.splits)

lemma Fail_eq [simp]: "Fail c = Fail d \<longleftrightarrow> c = d"
  by (simp add: Fail_def)

lemma Fail_not_Bare [simp]: "Fail c \<noteq> Bare" "Bare \<noteq> Fail c"
  by (simp_all add: Fail_def)

section \<open>Identity context\<close>

record IdentityContext =
  Principal :: string
  OnBehalfOf :: string

definition validateIdentity :: "string \<Rightarrow> bool \<Rightarrow> unit go" where
  "validateIdentity value required =
    (if value = [] then (if required then Inl Bare else Inr ())
     else if TrimSpace value \<noteq> value \<or> 256 < length value then Inl Bare
     else if HasControl value then Inl Bare
     else Inr ())"

definition IdentityContext_Validate :: "IdentityContext \<Rightarrow> unit go" where
  "IdentityContext_Validate c =
    rbind (validateIdentity (Principal c) True) (\<lambda>_. validateIdentity (OnBehalfOf c) False)"

lemma IdentityContext_Validate_ok:
  "IdentityContext_Validate c = Inr () \<Longrightarrow>
   Principal c \<noteq> [] \<and> length (Principal c) \<le> 256 \<and> TrimSpace (Principal c) = Principal c"
  by (auto simp: IdentityContext_Validate_def validateIdentity_def split: if_splits)

section \<open>Canonical JSON numbers\<close>

definition is_digit :: "char \<Rightarrow> bool" where
  "is_digit c = (c \<in> set ''0123456789'')"

definition all_digits :: "string \<Rightarrow> bool" where
  "all_digits s = (s \<noteq> [] \<and> list_all is_digit s)"

definition json_space :: "char \<Rightarrow> bool" where
  "json_space c = (c \<in> {CHR 0x20, CHR 0x09, CHR 0x0A, CHR 0x0D})"

text \<open>\<open>json.Valid\<close> on a text that starts with a minus sign or a digit: the JSON number grammar,
  with optional white space after it.\<close>

definition valid_exponent :: "string \<Rightarrow> bool" where
  "valid_exponent s = (case s of [] \<Rightarrow> False
     | c # t \<Rightarrow> if c = CHR ''+'' \<or> c = CHR ''-'' then all_digits t else all_digits s)"

definition valid_number_tail :: "string \<Rightarrow> bool" where
  "valid_number_tail s = (case s of [] \<Rightarrow> True
     | c # t \<Rightarrow> (c = CHR ''e'' \<or> c = CHR ''E'') \<and> valid_exponent t)"

definition valid_unsigned_number :: "string \<Rightarrow> bool" where
  "valid_unsigned_number s =
    (let int_part = takeWhile is_digit s; rest = dropWhile is_digit s in
     int_part \<noteq> [] \<and> (hd int_part = CHR ''0'' \<longrightarrow> length int_part = 1) \<and>
     (case rest of [] \<Rightarrow> True
      | c # t \<Rightarrow> if c = CHR ''.''
                 then takeWhile is_digit t \<noteq> [] \<and> valid_number_tail (dropWhile is_digit t)
                 else valid_number_tail rest))"

definition strip_json_space :: "string \<Rightarrow> string" where
  "strip_json_space s = rev (dropWhile json_space (rev s))"

definition json_Valid_number :: "string \<Rightarrow> bool" where
  "json_Valid_number raw =
    (let s = strip_json_space raw in
     case s of [] \<Rightarrow> False
     | c # t \<Rightarrow> if c = CHR ''-'' then valid_unsigned_number t else valid_unsigned_number s)"

text \<open>\<open>big.Int.SetString\<close> in base 10.\<close>

definition digit_val :: "char \<Rightarrow> nat" where
  "digit_val c = of_char c - 48"

definition nat_of_digits :: "string \<Rightarrow> nat" where
  "nat_of_digits s = foldl (\<lambda>a c. 10 * a + digit_val c) 0 s"

definition SetString :: "string \<Rightarrow> int option" where
  "SetString s = (case s of [] \<Rightarrow> None
     | c # t \<Rightarrow> if c = CHR ''-'' then (if all_digits t then Some (- int (nat_of_digits t)) else None)
                else if c = CHR ''+'' then (if all_digits t then Some (int (nat_of_digits t)) else None)
                else if all_digits s then Some (int (nat_of_digits s)) else None)"

definition big_String :: "int \<Rightarrow> string" where
  "big_String i = (if i < 0 then CHR ''-'' # itoa (nat (- i)) else itoa (nat i))"

definition is_exp_mark :: "char \<Rightarrow> bool" where
  "is_exp_mark c = (c = CHR ''e'' \<or> c = CHR ''E'')"

text \<open>The rendering half: sign, significant digits without outer zeros, and the exponent of the
  last digit.\<close>

definition render_number :: "string \<Rightarrow> string \<Rightarrow> int \<Rightarrow> string" where
  "render_number sign digits exponent =
    (let scientific = exponent + int (length digits) - 1 in
     if - 6 \<le> scientific \<and> scientific < 21
     then (let point = int (length digits) + exponent in
           if point \<le> 0 then sign @ ''0.'' @ replicate (nat (- point)) CHR ''0'' @ digits
           else if int (length digits) \<le> point
           then sign @ digits @ replicate (nat (point - int (length digits))) CHR ''0''
           else sign @ take (nat point) digits @ ''.'' @ drop (nat point) digits)
     else sign @ take 1 digits @ (if 1 < length digits then ''.'' @ drop 1 digits else []) @
          ''e'' @ (if 0 \<le> scientific then ''+'' else []) @ big_String scientific)"

definition canonicalJSONNumber :: "string \<Rightarrow> string option" where
  "canonicalJSONNumber raw0 =
    (if raw0 = [] \<or> (hd raw0 \<noteq> CHR ''-'' \<and> \<not> is_digit (hd raw0)) \<or> \<not> json_Valid_number raw0
     then None
     else
       (let (sign, raw) = (if hd raw0 = CHR ''-'' then (''-'', tl raw0) else ([], raw0));
            before = takeWhile (\<lambda>c. \<not> is_exp_mark c) raw;
            exp_text = dropWhile (\<lambda>c. \<not> is_exp_mark c) raw in
        case (if exp_text = [] then Some 0 else SetString (tl exp_text)) of
          None \<Rightarrow> None
        | Some exponent0 \<Rightarrow>
            (let whole = takeWhile (\<lambda>c. c \<noteq> CHR ''.'') before;
                 frac = tl (dropWhile (\<lambda>c. c \<noteq> CHR ''.'') before);
                 mantissa = whole @ frac;
                 digits = dropWhile (\<lambda>c. c = CHR ''0'') mantissa in
             if digits = [] then Some ''0''
             else (let trimmed = rev (dropWhile (\<lambda>c. c = CHR ''0'') (rev digits));
                       exponent = exponent0 + int (length digits) - int (length trimmed)
                                  - int (length frac) in
                   Some (render_number sign trimmed exponent)))))"

end
