(* ===== verification/Gate.thy ===== *)
theory Gate
  imports Kernel
begin

text \<open>
  \<open>src/gate\<close>: the merge gate.  A gate file lists rules; \<open>Required\<close> collects the checks that
  apply to one merge, \<open>ParseRequire\<close> and \<open>ValidateRequire\<close> admit new rules, \<open>OnBasis\<close> keeps the
  evidence bound to one preview and \<open>Check\<close> decides whether that evidence satisfies the gate.
\<close>

record Evidence =
  evName :: string
  evBasisID :: string
  evOutcome :: string

record GateRule =
  ruleID :: string
  ruleOn :: string
  ruleRepo :: string
  ruleCatalog :: string
  ruleRequire :: "string list"

record GateFile =
  Rules :: "GateRule list"

definition OnMerge :: string where "OnMerge = ''merge''"
definition RequireValidate :: string where "RequireValidate = ''validate''"
definition SuitePrefix :: string where "SuitePrefix = ''suite:''"
definition StructureSuite :: string where "StructureSuite = ''structure''"

lemmas gate_names = OnMerge_def RequireValidate_def SuitePrefix_def StructureSuite_def

fun OnBasis :: "Evidence list \<Rightarrow> string \<Rightarrow> Evidence list" where
  "OnBasis [] basisID = []"
| "OnBasis (item # rest) basisID =
    (if evBasisID item = basisID then item # OnBasis rest basisID else OnBasis rest basisID)"

definition nameMatch :: "string \<Rightarrow> string \<Rightarrow> bool" where
  "nameMatch required0 evidence0 =
    (let required = TrimSpace required0; evidence = TrimSpace evidence0 in
     if required = RequireValidate
     then evidence = RequireValidate \<or> evidence = StructureSuite
     else if HasPrefix required SuitePrefix
     then (let want = TrimPrefix required SuitePrefix in evidence = want \<or> evidence = required)
     else required = evidence)"

fun passed :: "string \<Rightarrow> Evidence list \<Rightarrow> bool" where
  "passed required [] = False"
| "passed required (item # rest) =
    (if evOutcome item \<noteq> ''PASSED'' then passed required rest
     else if nameMatch required (evName item) then True
     else passed required rest)"

fun check_loop :: "string list \<Rightarrow> Evidence list \<Rightarrow> unit go" where
  "check_loop [] got = Inr ()"
| "check_loop (name0 # rest) got =
    (let name = TrimSpace name0 in
     if name = [] then check_loop rest got
     else if \<not> passed name got then fails ErrGateUnsatisfied
     else check_loop rest got)"

definition Check :: "string list \<Rightarrow> Evidence list \<Rightarrow> unit go" where
  "Check required got = (if required = [] then Inr () else check_loop required got)"

fun parse_require_loop :: "string list \<Rightarrow> string list \<Rightarrow> string list" where
  "parse_require_loop seen [] = []"
| "parse_require_loop seen (part0 # rest) =
    (let part = TrimSpace part0 in
     if part = [] \<or> part \<in> set seen then parse_require_loop seen rest
     else part # parse_require_loop (part # seen) rest)"

definition ParseRequire :: "string \<Rightarrow> string list" where
  "ParseRequire raw = parse_require_loop [] (Split CHR '','' raw)"

definition known_check :: "string \<Rightarrow> bool" where
  "known_check name =
    (name = RequireValidate \<or>
     (HasPrefix name SuitePrefix \<and> TrimPrefix name SuitePrefix \<noteq> []))"

definition ValidateRequire :: "string list \<Rightarrow> unit go" where
  "ValidateRequire names =
    (if names = [] then fails ErrUsageInvalid
     else each_ok (\<lambda>name. if known_check name then Inr () else fails ErrUsageInvalid) names)"

definition NextID :: "GateRule list \<Rightarrow> string" where
  "NextID rules = ''gt_'' @ itoa (length rules + 1)"

definition rule_applies :: "string \<Rightarrow> string \<Rightarrow> GateRule \<Rightarrow> bool" where
  "rule_applies on repo rule =
    (if ruleOn rule \<noteq> on then False
     else if on = OnMerge \<and> ruleRepo rule \<noteq> [] \<and> ruleRepo rule \<noteq> repo then False
     else True)"

fun required_loop :: "string list \<Rightarrow> string \<Rightarrow> string \<Rightarrow> GateRule list \<Rightarrow> string list" where
  "required_loop seen on repo [] = []"
| "required_loop seen on repo (rule # rest) =
    (if \<not> rule_applies on repo rule then required_loop seen on repo rest
     else (let names = dedup_from seen (ruleRequire rule) in
           names @ required_loop (rev names @ seen) on repo rest))"

definition Required :: "GateFile \<Rightarrow> string \<Rightarrow> string \<Rightarrow> string \<Rightarrow> string list" where
  "Required f on repo catalog = required_loop [] on repo (Rules f)"

definition ValidateOn :: "string \<Rightarrow> unit go" where
  "ValidateOn on = (if on \<noteq> OnMerge then fails ErrUsageInvalid else Inr ())"

section \<open>What the gate promises\<close>

lemma set_OnBasis: "set (OnBasis got b) = {e \<in> set got. evBasisID e = b}"
  by (induction got) auto

lemma passed_iff:
  "passed r got \<longleftrightarrow> (\<exists>e \<in> set got. evOutcome e = ''PASSED'' \<and> nameMatch r (evName e))"
  by (induction got) auto

lemma check_loop_iff:
  "check_loop required got = Inr u \<longleftrightarrow>
   (\<forall>name \<in> set required. TrimSpace name = [] \<or> passed (TrimSpace name) got)"
  by (induction required) (auto simp: Let_def)

lemma check_loop_error:
  "check_loop required got = Inl e \<Longrightarrow> e = Fail ErrGateUnsatisfied"
  by (induction required) (auto simp: Let_def split: if_splits)

lemma nameMatch_trim [simp]:
  "nameMatch (TrimSpace r) e = nameMatch r e" "nameMatch r (TrimSpace e) = nameMatch r e"
  by (simp_all add: nameMatch_def)

lemma Check_iff:
  "Check required got = Inr u \<longleftrightarrow>
   (\<forall>name \<in> set required. TrimSpace name = [] \<or>
      (\<exists>e \<in> set got. evOutcome e = ''PASSED'' \<and> nameMatch name (evName e)))"
  by (auto simp: Check_def check_loop_iff passed_iff)

lemma Check_error: "Check required got = Inl e \<Longrightarrow> e = Fail ErrGateUnsatisfied"
  by (auto simp: Check_def dest: check_loop_error split: if_splits)

lemma Check_mono:
  "set got \<subseteq> set got' \<Longrightarrow> Check required got = Inr u \<Longrightarrow> Check required got' = Inr u"
  by (auto simp: Check_iff)

lemma set_required_loop:
  "set (required_loop seen on repo rules) =
   (\<Union>rule \<in> {r \<in> set rules. rule_applies on repo r}. set (ruleRequire rule)) - set seen"
  by (induction seen on repo rules rule: required_loop.induct)
    (auto simp: Let_def set_dedup_from)

lemma distinct_required_loop: "distinct (required_loop seen on repo rules)"
  by (induction seen on repo rules rule: required_loop.induct)
    (auto simp: Let_def distinct_dedup_from set_required_loop set_dedup_from)

lemma set_Required:
  "set (Required f on repo catalog) =
   (\<Union>rule \<in> {r \<in> set (Rules f). rule_applies on repo r}. set (ruleRequire rule))"
  by (simp add: Required_def set_required_loop)

lemma distinct_Required: "distinct (Required f on repo catalog)"
  by (simp add: Required_def distinct_required_loop)

lemma set_parse_require_loop:
  "set (parse_require_loop seen parts) = TrimSpace ` set parts - {[]} - set seen"
  by (induction seen parts rule: parse_require_loop.induct) (auto simp: Let_def)

lemma distinct_parse_require_loop: "distinct (parse_require_loop seen parts)"
  by (induction seen parts rule: parse_require_loop.induct)
    (auto simp: Let_def set_parse_require_loop)

lemma set_ParseRequire: "set (ParseRequire raw) = TrimSpace ` set (Split CHR '','' raw) - {[]}"
  by (simp add: ParseRequire_def set_parse_require_loop)

lemma distinct_ParseRequire: "distinct (ParseRequire raw)"
  by (simp add: ParseRequire_def distinct_parse_require_loop)

lemma parse_require_loop_id:
  assumes "distinct ps" "set ps \<inter> set seen = {}" "\<forall>p \<in> set ps. p \<noteq> [] \<and> TrimSpace p = p"
  shows "parse_require_loop seen ps = ps"
  using assms by (induction ps arbitrary: seen) auto

lemma ParseRequire_Join:
  assumes "ps \<noteq> []" "distinct ps" "\<forall>p \<in> set ps. p \<noteq> [] \<and> TrimSpace p = p \<and> CHR '','' \<notin> set p"
  shows "ParseRequire (Join '','' ps) = ps"
  using assms by (simp add: ParseRequire_def Split_Join parse_require_loop_id)

section \<open>Properties\<close>

text \<open>C4. The gate opens exactly when every named check has a PASSED record that matches it:
  \<open>Check\<close> returns no error iff for each required name that is not blank some evidence has outcome
  PASSED and a matching name; otherwise it fails with \<open>GATE_UNSATISFIED\<close>, and evidence that is not
  bound to the basis never counts, because \<open>OnBasis\<close> keeps exactly the records of the basis.\<close>

theorem gate_opens_iff_passed:
  "Check required (OnBasis got basis) =
    (if \<forall>name \<in> set required. TrimSpace name = [] \<or>
          (\<exists>e \<in> set got. evBasisID e = basis \<and> evOutcome e = ''PASSED'' \<and> nameMatch name (evName e))
     then Inr () else fails ErrGateUnsatisfied)"
proof (cases "Check required (OnBasis got basis)")
  case (Inl e)
  then have "e = Fail ErrGateUnsatisfied" by (rule Check_error)
  moreover have "\<not> (\<forall>name \<in> set required. TrimSpace name = [] \<or>
      (\<exists>e \<in> set (OnBasis got basis). evOutcome e = ''PASSED'' \<and> nameMatch name (evName e)))"
    using Inl Check_iff [of required "OnBasis got basis"] by auto
  ultimately show ?thesis using Inl by (auto simp: set_OnBasis)
next
  case (Inr u)
  then show ?thesis
    using Check_iff [of required "OnBasis got basis" u] by (auto simp: set_OnBasis)
qed

theorem gate_opens_iff_passed_witness:
  "Check [''validate'', ''suite:perf'']
      (OnBasis [\<lparr>evName = ''structure'', evBasisID = ''b1'', evOutcome = ''PASSED''\<rparr>,
                \<lparr>evName = ''perf'', evBasisID = ''b1'', evOutcome = ''PASSED''\<rparr>] ''b1'') = Inr () \<and>
   Check [''validate'', ''suite:perf'']
      (OnBasis [\<lparr>evName = ''structure'', evBasisID = ''b1'', evOutcome = ''PASSED''\<rparr>,
                \<lparr>evName = ''perf'', evBasisID = ''b2'', evOutcome = ''PASSED''\<rparr>] ''b1'')
     = fails ErrGateUnsatisfied"
  unfolding gate_opens_iff_passed by code_simp

text \<open>The checks demanded of a merge are those of the rules that apply to its repository, each
  once: a rule without a repository applies to every merge, a rule with one only to merges of
  that repository.\<close>

theorem required_checks_exact:
  "distinct (Required f OnMerge repo catalog) \<and>
   set (Required f OnMerge repo catalog) =
     (\<Union>rule \<in> {r \<in> set (Rules f). ruleOn r = OnMerge \<and> (ruleRepo r = [] \<or> ruleRepo r = repo)}.
        set (ruleRequire rule))"
  by (auto simp: distinct_Required set_Required rule_applies_def split: if_splits)

end
