(* ===== verification/CommandLog.thy ===== *)
theory CommandLog
  imports Kernel
begin

text \<open>
  \<open>src/snapshot/commandlog\<close>: the durable command-id ledger.  \<open>Execute\<close> reserves a command id
  in the store before it touches the authority, applies the work once, and stores the receipt;
  \<open>ResolvePending\<close> and \<open>AbandonPending\<close> close a reservation whose outcome was lost; \<open>Prune\<close>
  removes old completed entries.  \<open>BoltStore\<close> (file.go) is the durable store.

  The ledger is modelled over the \<open>Store\<close> interface as a record of operations on a store
  state.  The locale \<open>command_store\<close> states what the ledger relies on; \<open>BoltStore\<close>
  provides it over the documented behaviour of the bbolt library (locale \<open>bbolt_file\<close>), whose
  operations are parameters.  \<open>time.Parse\<close> is the parameter \<open>parse_time\<close>.
\<close>

section \<open>Data\<close>

record CmdRequest =
  reqKind :: string
  reqRepositoryID :: string
  reqTargetRef :: string
  reqBaseCommit :: string
  reqExpectedTargetCommit :: string
  reqOperationCount :: int
  reqTreeChangeSet :: string

record Entry =
  entCommandID :: string
  entDigest :: string
  entStatus :: string
  entCreatedAt :: string
  entUpdatedAt :: string
  entReceipt :: string
  entRequest :: CmdRequest

definition StatusPending :: string where "StatusPending = ''PENDING''"
definition StatusApplied :: string where "StatusApplied = ''APPLIED''"
definition StatusAbandoned :: string where "StatusAbandoned = ''ABANDONED''"

lemmas status_names = StatusPending_def StatusApplied_def StatusAbandoned_def

definition completed :: "Entry \<Rightarrow> bool" where
  "completed e = (entStatus e = StatusApplied \<or> entStatus e = StatusAbandoned)"

section \<open>The Store interface\<close>

record 's store_ops =
  opReady :: "'s \<Rightarrow> unit go \<times> 's"
  opGet :: "string \<Rightarrow> 's \<Rightarrow> Entry option go \<times> 's"
  opPut :: "Entry \<Rightarrow> 's \<Rightarrow> unit go \<times> 's"
  opDelete :: "string \<Rightarrow> 's \<Rightarrow> unit go \<times> 's"
  opList :: "'s \<Rightarrow> Entry list go \<times> 's"
  opPruneBefore :: "(int \<Rightarrow> 's \<Rightarrow> nat go \<times> 's) option"

section \<open>The ledger\<close>

record 's Ledger =
  ledStore :: "'s"
  ledEntries :: "(string, Entry) gomap"
  ledLocks :: "(string, nat) gomap"

definition Ledger_New :: "'s store_ops option \<Rightarrow> 's \<Rightarrow> 's Ledger go" where
  "Ledger_New store s =
    (case store of
      None \<Rightarrow> Inr \<lparr>ledStore = s, ledEntries = [], ledLocks = []\<rparr>
    | Some ops \<Rightarrow>
        (case opReady ops s of
          (Inl e, _) \<Rightarrow> Inl e
        | (Inr _, s') \<Rightarrow> Inr \<lparr>ledStore = s', ledEntries = [], ledLocks = []\<rparr>))"

definition lockCommand :: "string \<Rightarrow> 's Ledger \<Rightarrow> 's Ledger" where
  "lockCommand cid l =
    (let users = (case map_of (ledLocks l) cid of None \<Rightarrow> 0 | Some n \<Rightarrow> n) in
     l\<lparr>ledLocks := AList.update cid (users + 1) (ledLocks l)\<rparr>)"

definition unlockCommand :: "string \<Rightarrow> 's Ledger \<Rightarrow> 's Ledger" where
  "unlockCommand cid l =
    (case map_of (ledLocks l) cid of
      None \<Rightarrow> l
    | Some n \<Rightarrow> if n - 1 = 0 then l\<lparr>ledLocks := AList.delete cid (ledLocks l)\<rparr>
                else l\<lparr>ledLocks := AList.update cid (n - 1) (ledLocks l)\<rparr>)"

definition cacheEntry :: "string \<Rightarrow> Entry \<Rightarrow> 's Ledger \<Rightarrow> 's Ledger" where
  "cacheEntry cid e l = l\<lparr>ledEntries := AList.update cid e (ledEntries l)\<rparr>"

definition dropEntry :: "string \<Rightarrow> 's Ledger \<Rightarrow> 's Ledger" where
  "dropEntry cid l = l\<lparr>ledEntries := AList.delete cid (ledEntries l)\<rparr>"

definition lookup :: "'s store_ops option \<Rightarrow> string \<Rightarrow> 's Ledger \<Rightarrow> Entry option go \<times> 's Ledger" where
  "lookup store cid l =
    (case map_of (ledEntries l) cid of
      Some e \<Rightarrow> (Inr (Some e), l)
    | None \<Rightarrow>
        (case store of
          None \<Rightarrow> (Inr None, l)
        | Some ops \<Rightarrow>
            (case opGet ops cid (ledStore l) of
              (Inl e, s) \<Rightarrow> (Inl e, l\<lparr>ledStore := s\<rparr>)
            | (Inr None, s) \<Rightarrow> (Inr None, l\<lparr>ledStore := s\<rparr>)
            | (Inr (Some e), s) \<Rightarrow> (Inr (Some e), cacheEntry cid e (l\<lparr>ledStore := s\<rparr>)))))"

definition putStore :: "'s store_ops option \<Rightarrow> Entry \<Rightarrow> 's Ledger \<Rightarrow> unit go \<times> 's Ledger" where
  "putStore store e l =
    (case store of
      None \<Rightarrow> (Inr (), l)
    | Some ops \<Rightarrow> (case opPut ops e (ledStore l) of
        (Inl err, s) \<Rightarrow> (Inl (Fail ErrTemporaryUnavailable), l\<lparr>ledStore := s\<rparr>)
      | (Inr _, s) \<Rightarrow> (Inr (), l\<lparr>ledStore := s\<rparr>)))"

definition deleteStore :: "'s store_ops option \<Rightarrow> string \<Rightarrow> 's Ledger \<Rightarrow> unit go \<times> 's Ledger" where
  "deleteStore store cid l =
    (case store of
      None \<Rightarrow> (Inr (), l)
    | Some ops \<Rightarrow> (case opDelete ops cid (ledStore l) of
        (Inl err, s) \<Rightarrow> (Inl (Fail ErrTemporaryUnavailable), l\<lparr>ledStore := s\<rparr>)
      | (Inr _, s) \<Rightarrow> (Inr (), l\<lparr>ledStore := s\<rparr>)))"

text \<open>The public \<open>Lookup\<close> drops the error; \<open>Entries\<close> falls back to the cache.\<close>

definition Lookup :: "'s store_ops option \<Rightarrow> string \<Rightarrow> 's Ledger \<Rightarrow> Entry option \<times> 's Ledger" where
  "Lookup store cid l =
    (case lookup store cid l of (Inl _, l') \<Rightarrow> (None, l') | (Inr r, l') \<Rightarrow> (r, l'))"

definition Entries :: "'s store_ops option \<Rightarrow> 's Ledger \<Rightarrow> Entry list \<times> 's Ledger" where
  "Entries store l =
    (case store of
      None \<Rightarrow> (map snd (ledEntries l), l)
    | Some ops \<Rightarrow> (case opList ops (ledStore l) of
        (Inr es, s) \<Rightarrow> (es, l\<lparr>ledStore := s\<rparr>)
      | (Inl _, s) \<Rightarrow> (map snd (ledEntries l), l\<lparr>ledStore := s\<rparr>)))"

section \<open>Execute\<close>

text \<open>The first half of \<open>Execute\<close>, up to the call of \<open>apply\<close>: \<open>Some e\<close> is a replay of \<open>e\<close>,
  \<open>None\<close> means that the id is now reserved for this caller.\<close>

definition reserve :: "'s store_ops option \<Rightarrow> string \<Rightarrow> string \<Rightarrow> CmdRequest \<Rightarrow> string \<Rightarrow>
    's Ledger \<Rightarrow> Entry option go \<times> 's Ledger" where
  "reserve store cid digest request now l =
    (case lookup store cid l of
      (Inl _, l1) \<Rightarrow> (fails ErrTemporaryUnavailable, l1)
    | (Inr (Some prior), l1) \<Rightarrow>
        if entDigest prior \<noteq> digest then (fails ErrIdempotencyConflict, l1)
        else if length (entReceipt prior) = 0 then (fails ErrPreconditionFailed, l1)
        else (Inr (Some prior), l1)
    | (Inr None, l1) \<Rightarrow>
        (let pending = \<lparr>entCommandID = cid, entDigest = digest, entStatus = StatusPending,
                        entCreatedAt = now, entUpdatedAt = now, entReceipt = [],
                        entRequest = request\<rparr> in
         case putStore store pending l1 of
           (Inl e, l2) \<Rightarrow> (Inl e, l2)
         | (Inr _, l2) \<Rightarrow> (Inr None, cacheEntry cid pending l2)))"

text \<open>The second half, after \<open>apply\<close> returned: drop the reservation on an error, otherwise store
  the receipt.\<close>

definition settle :: "'s store_ops option \<Rightarrow> ('r \<Rightarrow> string go) \<Rightarrow> string \<Rightarrow> string \<Rightarrow> CmdRequest \<Rightarrow>
    string \<Rightarrow> string \<Rightarrow> 'r go \<Rightarrow> 's Ledger \<Rightarrow> (Entry \<times> bool) go \<times> 's Ledger" where
  "settle store marshal cid digest request now now2 outcome l =
    (case outcome of
      Inl err \<Rightarrow> (Inl err, dropEntry cid (snd (deleteStore store cid l)))
    | Inr receipt \<Rightarrow>
        (case marshal receipt of
          Inl err \<Rightarrow> (Inl err, l)
        | Inr raw \<Rightarrow>
            (let entry = \<lparr>entCommandID = cid, entDigest = digest, entStatus = StatusApplied,
                          entCreatedAt = now, entUpdatedAt = now2, entReceipt = raw,
                          entRequest = request\<rparr> in
             case putStore store entry l of
               (Inl e, l2) \<Rightarrow> (Inl e, l2)
             | (Inr _, l2) \<Rightarrow> (Inr (entry, False), cacheEntry cid entry l2))))"

text \<open>\<open>apply\<close> acts on the authority, whose state is the world \<open>w\<close>.  \<open>now\<close> and \<open>now2\<close> are the
  two readings of the clock.\<close>

definition Execute :: "'s store_ops option \<Rightarrow> ('r \<Rightarrow> string go) \<Rightarrow> string \<Rightarrow> string \<Rightarrow> CmdRequest \<Rightarrow>
    string \<Rightarrow> string \<Rightarrow> ('w \<Rightarrow> 'r go \<times> 'w) \<Rightarrow> 's Ledger \<Rightarrow> 'w \<Rightarrow>
    (Entry \<times> bool) go \<times> 's Ledger \<times> 'w" where
  "Execute store marshal cid digest request now now2 apply_fn l w =
    (case reserve store cid digest request now (lockCommand cid l) of
      (Inl e, l1) \<Rightarrow> (Inl e, unlockCommand cid l1, w)
    | (Inr (Some prior), l1) \<Rightarrow> (Inr (prior, True), unlockCommand cid l1, w)
    | (Inr None, l1) \<Rightarrow>
        (case apply_fn w of (outcome, w') \<Rightarrow>
          (case settle store marshal cid digest request now now2 outcome l1 of
            (r, l2) \<Rightarrow> (r, unlockCommand cid l2, w'))))"

section \<open>Resolving, abandoning and pruning\<close>

definition unresolved :: "Entry option \<Rightarrow> bool" where
  "unresolved r = (case r of None \<Rightarrow> False
     | Some prior \<Rightarrow> \<not> (entStatus prior \<noteq> StatusPending \<or> length (entReceipt prior) \<noteq> 0))"

definition closePending :: "'s store_ops option \<Rightarrow> string \<Rightarrow> string \<Rightarrow> (Entry \<Rightarrow> Entry go) \<Rightarrow>
    's Ledger \<Rightarrow> Entry go \<times> 's Ledger" where
  "closePending store cid digest closed l =
    (case lookup store cid l of
      (Inl _, l1) \<Rightarrow> (fails ErrTemporaryUnavailable, l1)
    | (Inr r, l1) \<Rightarrow>
        if \<not> unresolved r then (fails ErrPreconditionFailed, l1)
        else if entDigest (the r) \<noteq> digest then (fails ErrIdempotencyConflict, l1)
        else (case closed (the r) of
          Inl e \<Rightarrow> (Inl e, l1)
        | Inr prior \<Rightarrow>
            (case putStore store prior l1 of
              (Inl e, l2) \<Rightarrow> (Inl e, l2)
            | (Inr _, l2) \<Rightarrow> (Inr prior, cacheEntry cid prior l2))))"

definition ResolvePending :: "'s store_ops option \<Rightarrow> ('r \<Rightarrow> string go) \<Rightarrow> string \<Rightarrow> string \<Rightarrow> 'r \<Rightarrow>
    string \<Rightarrow> 's Ledger \<Rightarrow> Entry go \<times> 's Ledger" where
  "ResolvePending store marshal cid digest receipt now l =
    (case closePending store cid digest
        (\<lambda>prior. rbind (marshal receipt) (\<lambda>raw.
           Inr (prior\<lparr>entStatus := StatusApplied, entReceipt := raw, entUpdatedAt := now\<rparr>)))
        (lockCommand cid l) of
      (r, l1) \<Rightarrow> (r, unlockCommand cid l1))"

definition AbandonPending :: "'s store_ops option \<Rightarrow> string \<Rightarrow> string \<Rightarrow> string \<Rightarrow> 's Ledger \<Rightarrow>
    Entry go \<times> 's Ledger" where
  "AbandonPending store cid digest now l =
    (case closePending store cid digest
        (\<lambda>prior. Inr (prior\<lparr>entStatus := StatusAbandoned, entUpdatedAt := now\<rparr>))
        (lockCommand cid l) of
      (r, l1) \<Rightarrow> (r, unlockCommand cid l1))"

definition expired :: "(string \<Rightarrow> int option) \<Rightarrow> int \<Rightarrow> Entry \<Rightarrow> bool" where
  "expired parse_time before e =
    (case parse_time (entUpdatedAt e) of None \<Rightarrow> False | Some updated \<Rightarrow> updated < before)"

definition pruneCandidate :: "'s store_ops option \<Rightarrow> Entry \<Rightarrow> 's Ledger \<Rightarrow> bool go \<times> 's Ledger" where
  "pruneCandidate store candidate l0 =
    (let cid = entCommandID candidate in
     case lookup store cid (lockCommand cid l0) of
       (Inl _, l1) \<Rightarrow> (fails ErrTemporaryUnavailable, unlockCommand cid l1)
     | (Inr r, l1) \<Rightarrow>
         (if (case r of None \<Rightarrow> False
              | Some current \<Rightarrow> entDigest current = entDigest candidate \<and>
                  entUpdatedAt current = entUpdatedAt candidate \<and> completed current)
          then (case deleteStore store cid l1 of
                  (Inl e, l2) \<Rightarrow> (Inl e, unlockCommand cid l2)
                | (Inr _, l2) \<Rightarrow> (Inr True, unlockCommand cid (dropEntry cid l2)))
          else (Inr False, unlockCommand cid l1)))"

fun pruneLoop :: "'s store_ops option \<Rightarrow> (string \<Rightarrow> int option) \<Rightarrow> int \<Rightarrow> Entry list \<Rightarrow> nat \<Rightarrow>
    's Ledger \<Rightarrow> (nat \<times> go_error option) \<times> 's Ledger" where
  "pruneLoop store parse_time before [] removed l = ((removed, None), l)"
| "pruneLoop store parse_time before (candidate # rest) removed l =
    (if \<not> completed candidate \<or> \<not> expired parse_time before candidate
     then pruneLoop store parse_time before rest removed l
     else (case pruneCandidate store candidate l of
       (Inl e, l1) \<Rightarrow> ((removed, Some e), l1)
     | (Inr hit, l1) \<Rightarrow>
         pruneLoop store parse_time before rest (if hit then removed + 1 else removed) l1))"

definition Prune :: "'s store_ops option \<Rightarrow> (string \<Rightarrow> int option) \<Rightarrow> int \<Rightarrow> 's Ledger \<Rightarrow>
    (nat \<times> go_error option) \<times> 's Ledger" where
  "Prune store parse_time before l =
    (case Option.bind store opPruneBefore of
      Some prune_before \<Rightarrow>
        (case prune_before before (ledStore l) of
          (Inl _, s) \<Rightarrow> ((0, Some (Fail ErrTemporaryUnavailable)), l\<lparr>ledStore := s\<rparr>)
        | (Inr removed, s) \<Rightarrow>
            ((removed, None),
             l\<lparr>ledStore := s,
               ledEntries := filter (\<lambda>(_, e). \<not> (expired parse_time before e \<and> completed e))
                               (ledEntries l)\<rparr>))
    | None \<Rightarrow>
        (case store of
          None \<Rightarrow> pruneLoop store parse_time before (map snd (ledEntries l)) 0 l
        | Some ops \<Rightarrow>
            (case opList ops (ledStore l) of
              (Inl _, s) \<Rightarrow> ((0, Some (Fail ErrTemporaryUnavailable)), l\<lparr>ledStore := s\<rparr>)
            | (Inr entries, s) \<Rightarrow>
                pruneLoop store parse_time before entries 0 (l\<lparr>ledStore := s\<rparr>))))"

section \<open>Histories\<close>

text \<open>A history of one ledger over a durable store: calls of the three operations, a process
  that dies between the reservation and \<open>apply\<close> or between \<open>apply\<close> and the receipt, a restart
  (the in-memory cache and the locks are lost) and changes of the store file that keep its
  contents.  The world is the list of command ids whose \<open>apply\<close> succeeded, latest first.\<close>

definition apply_once :: "string \<Rightarrow> string go \<Rightarrow> string list \<Rightarrow> string go \<times> string list" where
  "apply_once cid outcome w =
    (case outcome of Inl e \<Rightarrow> (Inl e, w) | Inr r \<Rightarrow> (Inr r, cid # w))"

definition restart :: "'s Ledger \<Rightarrow> 's Ledger" where
  "restart l = l\<lparr>ledEntries := [], ledLocks := []\<rparr>"

inductive ledger_step :: "'s store_ops \<Rightarrow> ('s \<Rightarrow> string \<Rightarrow> Entry option) \<Rightarrow>
    's Ledger \<times> string list \<Rightarrow> 's Ledger \<times> string list \<Rightarrow> bool"
  for ops :: "'s store_ops" and look :: "'s \<Rightarrow> string \<Rightarrow> Entry option"
  where
  execute: "Execute (Some ops) marshal cid digest request now now2 (apply_once cid outcome) l w
              = (r, l', w') \<Longrightarrow> ledger_step ops look (l, w) (l', w')"
| resolve: "ResolvePending (Some ops) marshal cid digest (receipt :: string) now l = (r, l') \<Longrightarrow>
              ledger_step ops look (l, w) (l', w)"
| abandon: "AbandonPending (Some ops) cid digest now l = (r, l') \<Longrightarrow>
              ledger_step ops look (l, w) (l', w)"
| died_reserved: "reserve (Some ops) cid digest request now (lockCommand cid l) = (r, l') \<Longrightarrow>
              ledger_step ops look (l, w) (restart l', w)"
| died_applied: "reserve (Some ops) cid digest request now (lockCommand cid l) = (Inr None, l') \<Longrightarrow>
              apply_once cid outcome w = (out, w') \<Longrightarrow>
              ledger_step ops look (l, w) (restart l', w')"
| restarted: "ledger_step ops look (l, w) (restart l, w)"
| environment: "look s = look (ledStore l) \<Longrightarrow>
              ledger_step ops look (l, w) (l\<lparr>ledStore := s\<rparr>, w)"

inductive_cases ledger_stepE: "ledger_step ops look a b"

section \<open>Facts that need no law of the store\<close>

named_theorems ledger_simps "projections of the ledger updates"

lemma ledger_projections [simp, ledger_simps]:
  "ledStore (lockCommand c l) = ledStore l" "ledEntries (lockCommand c l) = ledEntries l"
  "ledStore (unlockCommand c l) = ledStore l" "ledEntries (unlockCommand c l) = ledEntries l"
  "ledStore (cacheEntry c e l) = ledStore l" "ledStore (dropEntry c l) = ledStore l"
  "ledStore (restart l) = ledStore l" "ledEntries (restart l) = []"
  "ledLocks (cacheEntry c e l) = ledLocks l" "ledLocks (dropEntry c l) = ledLocks l"
  by (simp_all add: lockCommand_def unlockCommand_def cacheEntry_def dropEntry_def restart_def
      Let_def split: option.splits)

lemma cached_entries [simp, ledger_simps]:
  "map_of (ledEntries (cacheEntry c e l)) = (map_of (ledEntries l))(c \<mapsto> e)"
  "map_of (ledEntries (dropEntry c l)) = (map_of (ledEntries l))(c := None)"
  by (simp_all add: cacheEntry_def dropEntry_def map_simps)

lemma lookup_cached: "map_of (ledEntries l) cid = Some e \<Longrightarrow> lookup store cid l = (Inr (Some e), l)"
  by (simp add: lookup_def)

lemma lookup_cached_after: "lookup store cid l = (Inr (Some e), l') \<Longrightarrow> map_of (ledEntries l') cid = Some e"
  by (auto simp: lookup_def split: option.splits prod.splits sum.splits)

lemma reserve_hit:
  assumes "lookup store cid l = (Inr (Some prior), l1)"
  shows "reserve store cid digest request now l =
    (if entDigest prior \<noteq> digest then fails ErrIdempotencyConflict
     else if entReceipt prior = [] then fails ErrPreconditionFailed
     else Inr (Some prior), l1)"
  using assms by (simp add: reserve_def)

lemma Execute_hit:
  assumes "lookup store cid (lockCommand cid l) = (Inr (Some prior), l1)"
  shows "Execute store marshal cid digest request now now2 f l w =
    (if entDigest prior \<noteq> digest then fails ErrIdempotencyConflict
     else if entReceipt prior = [] then fails ErrPreconditionFailed
     else Inr (prior, True), unlockCommand cid l1, w)"
  by (simp add: Execute_def reserve_hit [OF assms])

lemma settle_entry:
  assumes "settle store marshal cid digest request now now2 out l = (Inr (e, replayed), l')"
  shows "map_of (ledEntries l') cid = Some e" "entDigest e = digest" "entCommandID e = cid"
    "entStatus e = StatusApplied" "\<not> replayed"
    "\<exists>receipt. out = Inr receipt \<and> marshal receipt = Inr (entReceipt e)"
  using assms by (auto simp: settle_def Let_def split: sum.splits prod.splits)

lemma unlock_lock_locks:
  assumes "ledLocks l' = ledLocks (lockCommand cid l)" "distinct (map fst (ledLocks l))"
    "\<forall>n. map_of (ledLocks l) cid = Some n \<longrightarrow> 0 < n"
  shows "map_of (ledLocks (unlockCommand cid l')) = map_of (ledLocks l)"
proof (cases "map_of (ledLocks l) cid")
  case None
  then show ?thesis
    using assms(1) by (simp add: unlockCommand_def lockCommand_def map_simps fun_upd_idem)
next
  case (Some n)
  moreover have "0 < n" using assms(3) Some by simp
  ultimately show ?thesis
    using assms(1) by (auto simp: unlockCommand_def lockCommand_def map_simps)
qed

lemma lookup_locks [simp]: "lookup store cid l = (r, l') \<Longrightarrow> ledLocks l' = ledLocks l"
  by (auto simp: lookup_def split: option.splits prod.splits sum.splits)

lemma putStore_projections:
  "putStore store e l = (r, l') \<Longrightarrow> ledLocks l' = ledLocks l \<and> ledEntries l' = ledEntries l"
  by (auto simp: putStore_def split: option.splits prod.splits sum.splits)

lemma deleteStore_projections:
  "deleteStore store e l = (r, l') \<Longrightarrow> ledLocks l' = ledLocks l \<and> ledEntries l' = ledEntries l"
  by (auto simp: deleteStore_def split: option.splits prod.splits sum.splits)

lemma reserve_locks: "reserve store cid digest request now l = (r, l') \<Longrightarrow> ledLocks l' = ledLocks l"
  by (auto simp: reserve_def Let_def dest!: putStore_projections
      split: option.splits prod.splits sum.splits if_splits)

lemma settle_locks:
  "settle store marshal cid digest request now now2 out l = (r, l') \<Longrightarrow> ledLocks l' = ledLocks l"
  by (cases "deleteStore store cid l")
    (auto simp: settle_def Let_def dest!: putStore_projections deleteStore_projections
      split: prod.splits sum.splits)

lemma Execute_locks:
  assumes "Execute store marshal cid digest request now now2 f l w = (r, l', w')"
    and "distinct (map fst (ledLocks l))" "\<forall>n. map_of (ledLocks l) cid = Some n \<longrightarrow> 0 < n"
  shows "map_of (ledLocks l') = map_of (ledLocks l)"
  using assms
  by (auto simp: Execute_def dest!: reserve_locks settle_locks intro!: unlock_lock_locks
      split: prod.splits sum.splits option.splits)

section \<open>What the ledger relies on\<close>

locale command_store =
  fixes ops :: "'s store_ops" and look :: "'s \<Rightarrow> string \<Rightarrow> Entry option"
  assumes get_keeps: "opGet ops cid s = (g, s') \<Longrightarrow> look s' = look s"
    and get_found: "opGet ops cid s = (Inr r, s') \<Longrightarrow> r = look s cid"
    and put_stored: "opPut ops e s = (Inr (), s') \<Longrightarrow> look s' = (look s)(entCommandID e \<mapsto> e)"
    and put_failed: "opPut ops e s = (Inl err, s') \<Longrightarrow>
      look s' = look s \<or> look s' = (look s)(entCommandID e \<mapsto> e)"
    and delete_removed: "opDelete ops cid s = (Inr (), s') \<Longrightarrow> look s' = (look s)(cid := None)"
    and delete_failed: "opDelete ops cid s = (Inl err, s') \<Longrightarrow>
      look s' = look s \<or> look s' = (look s)(cid := None)"
    and prune_only: "opPruneBefore ops = Some p \<Longrightarrow> p before s = (n, s') \<Longrightarrow>
      look s' cid = look s cid \<or>
      (look s' cid = None \<and> (\<exists>e. look s cid = Some e \<and> completed e))"
begin

lemma lookup_look:
  assumes "lookup (Some ops) cid l = (r, l')"
  shows "look (ledStore l') = look (ledStore l)"
  using assms by (auto simp: lookup_def dest: get_keeps split: option.splits prod.splits sum.splits)

lemma lookup_miss:
  assumes "lookup (Some ops) cid l = (Inr None, l')"
  shows "look (ledStore l) cid = None"
  using assms by (auto simp: lookup_def dest!: get_found split: option.splits prod.splits sum.splits)

lemma putStore_look:
  assumes "putStore (Some ops) e l = (r, l')"
  shows "look (ledStore l') = look (ledStore l) \<or>
         look (ledStore l') = (look (ledStore l))(entCommandID e \<mapsto> e)"
    and "r = Inr () \<Longrightarrow> look (ledStore l') = (look (ledStore l))(entCommandID e \<mapsto> e)"
  using assms
  by (auto simp: putStore_def dest: put_stored put_failed split: prod.splits sum.splits)

lemma deleteStore_look:
  assumes "deleteStore (Some ops) cid l = (r, l')"
  shows "c \<noteq> cid \<Longrightarrow> look (ledStore l') c = look (ledStore l) c"
  using assms
  by (auto simp: deleteStore_def dest: delete_removed delete_failed split: prod.splits sum.splits)

lemma reserve_look:
  assumes "reserve (Some ops) cid digest request now l = (r, l')"
  shows "look (ledStore l) c \<noteq> None \<Longrightarrow> look (ledStore l') c \<noteq> None"
    and "r = Inr None \<Longrightarrow> look (ledStore l) cid = None \<and> look (ledStore l') cid \<noteq> None"
proof -
  obtain q l1 where q: "lookup (Some ops) cid l = (q, l1)" by fastforce
  note l1 = lookup_look [OF q]
  { assume "look (ledStore l) c \<noteq> None"
    then show "look (ledStore l') c \<noteq> None"
      using assms q l1
      by (auto simp: reserve_def Let_def dest!: putStore_look(1)
          split: sum.splits option.splits if_splits prod.splits) }
  { assume "r = Inr None"
    then show "look (ledStore l) cid = None \<and> look (ledStore l') cid \<noteq> None"
      using assms q l1
      by (auto simp: reserve_def Let_def dest: lookup_miss dest!: putStore_look(2)
          split: sum.splits option.splits if_splits prod.splits) }
qed

lemma settle_look:
  assumes "settle (Some ops) marshal cid digest request now now2 out l = (r, l')"
    and "look (ledStore l) c \<noteq> None" and "c \<noteq> cid \<or> ok out"
  shows "look (ledStore l') c \<noteq> None"
  using assms
  by (cases "deleteStore (Some ops) cid l")
    (auto simp: settle_def Let_def dest: deleteStore_look dest!: putStore_look(1)
      split: sum.splits prod.splits)

lemma closePending_look:
  assumes "closePending (Some ops) cid digest closed l = (r, l')"
    and "look (ledStore l) c \<noteq> None"
  shows "look (ledStore l') c \<noteq> None"
proof -
  obtain q l1 where q: "lookup (Some ops) cid l = (q, l1)" by fastforce
  show ?thesis
    using assms q lookup_look [OF q]
    by (auto simp: closePending_def dest!: putStore_look(1)
        split: sum.splits option.splits if_splits prod.splits)
qed

lemma closePending_keeps:
  assumes "closePending (Some ops) cid digest closed (lockCommand cid l) = (r, l')"
    and "\<forall>c \<in> W. look (ledStore l) c \<noteq> None"
  shows "\<forall>c \<in> W. look (ledStore l') c \<noteq> None"
  using closePending_look [OF assms(1)] assms(2) by simp

definition applied_inv :: "'s Ledger \<times> string list \<Rightarrow> bool" where
  "applied_inv a = (distinct (snd a) \<and> (\<forall>c \<in> set (snd a). look (ledStore (fst a)) c \<noteq> None))"

lemma Execute_applied_inv:
  assumes "Execute (Some ops) marshal cid digest request now now2 (apply_once cid out) l w = (r, l', w')"
    and inv: "applied_inv (l, w)"
  shows "applied_inv (l', w')"
proof -
  obtain q l1 where q: "reserve (Some ops) cid digest request now (lockCommand cid l) = (q, l1)"
    by fastforce
  note keep = reserve_look(1) [OF q, simplified] and new = reserve_look(2) [OF q, simplified]
  show ?thesis
  proof (cases "q = Inr None")
    case True
    have fresh: "cid \<notin> set w" and held: "look (ledStore l1) cid \<noteq> None"
      using new True inv by (auto simp: applied_inv_def)
    obtain r2 l2 where s: "settle (Some ops) marshal cid digest request now now2 out l1 = (r2, l2)"
      by fastforce
    show ?thesis
    proof (cases out)
      case (Inl e)
      then have "l' = unlockCommand cid l2" "w' = w"
        using assms(1) q True s by (simp_all add: Execute_def apply_once_def)
      then show ?thesis
        using inv keep settle_look [OF s] fresh unfolding applied_inv_def by fastforce
    next
      case (Inr v)
      then have "l' = unlockCommand cid l2" "w' = cid # w"
        using assms(1) q True s by (simp_all add: Execute_def apply_once_def)
      then show ?thesis
        using inv keep held settle_look [OF s] fresh Inr unfolding applied_inv_def by simp
    qed
  next
    case False
    then have "w' = w" "l' = unlockCommand cid l1"
      using assms(1) q by (auto simp: Execute_def split: sum.splits option.splits)
    then show ?thesis using inv keep unfolding applied_inv_def by simp
  qed
qed

lemma step_applied_inv:
  assumes "ledger_step ops look a b" and "applied_inv a"
  shows "applied_inv b"
  using assms(1)
proof cases
  case (execute marshal cid digest request now now2 outcome l w r l' w')
  then show ?thesis using Execute_applied_inv assms(2) by blast
next
  case (resolve marshal cid digest receipt now l r l' w)
  then obtain closed l1 where "closePending (Some ops) cid digest closed (lockCommand cid l) = (r, l1)"
      and "l' = unlockCommand cid l1"
    by (auto simp: ResolvePending_def split: prod.splits)
  then show ?thesis using resolve assms(2) closePending_keeps [of cid digest closed l r l1]
    by (auto simp: applied_inv_def)
next
  case (abandon cid digest now l r l' w)
  then obtain closed l1 where "closePending (Some ops) cid digest closed (lockCommand cid l) = (r, l1)"
      and "l' = unlockCommand cid l1"
    by (auto simp: AbandonPending_def split: prod.splits)
  then show ?thesis using abandon assms(2) closePending_keeps [of cid digest closed l r l1]
    by (auto simp: applied_inv_def)
next
  case (died_reserved cid digest request now l r l' w)
  then show ?thesis using assms(2) reserve_look(1) [OF died_reserved(3)]
    by (auto simp: applied_inv_def)
next
  case (died_applied cid digest request now l l' outcome w out w')
  then show ?thesis using assms(2) reserve_look [OF died_applied(3)]
    by (cases outcome) (fastforce simp: applied_inv_def apply_once_def)+
next
  case (restarted l w)
  then show ?thesis using assms(2) by (auto simp: applied_inv_def)
next
  case (environment s l w)
  then show ?thesis using assms(2) by (auto simp: applied_inv_def)
qed

lemma history_applied_inv:
  assumes "(ledger_step ops look)\<^sup>*\<^sup>* (l, []) b"
  shows "applied_inv b"
  using assms
proof (induction rule: rtranclp_induct)
  case base
  then show ?case by (simp add: applied_inv_def)
next
  case (step a b)
  then show ?case by (blast intro: step_applied_inv)
qed

lemma history_distinct:
  assumes "(ledger_step ops look)\<^sup>*\<^sup>* (l, []) (l', w)"
  shows "distinct w"
  using history_applied_inv [OF assms] by (simp add: applied_inv_def)

lemma died_then_retry:
  assumes "reserve (Some ops) cid digest request now (lockCommand cid l) = (Inr None, l1)"
    and "opGet ops cid (ledStore l1) = (Inr r, s)"
  shows "Execute (Some ops) marshal cid digest request2 now3 now4 f (restart l1) w =
    (fails ErrPreconditionFailed, unlockCommand cid (cacheEntry cid (the r)
       ((lockCommand cid (restart l1))\<lparr>ledStore := s\<rparr>)), w)"
proof -
  have "\<exists>p. look (ledStore l1) cid = Some p \<and> entDigest p = digest \<and> entReceipt p = []"
    using assms(1)
    by (auto simp: reserve_def Let_def dest!: putStore_look(2)
        split: sum.splits option.splits if_splits prod.splits)
  then obtain p where p: "r = Some p" "entDigest p = digest" "entReceipt p = []"
    using get_found [OF assms(2)] by auto
  have "lookup (Some ops) cid (lockCommand cid (restart l1)) =
      (Inr (Some p), cacheEntry cid p ((lockCommand cid (restart l1))\<lparr>ledStore := s\<rparr>))"
    using assms(2) p(1) by (simp add: lookup_def)
  then show ?thesis using p by (simp add: Execute_hit)
qed

lemma Prune_look:
  assumes "Prune (Some ops) parse_time before l = (r, l')" and "opPruneBefore ops = Some p"
  shows "look (ledStore l') cid = look (ledStore l) cid \<or>
    (look (ledStore l') cid = None \<and> (\<exists>e. look (ledStore l) cid = Some e \<and> completed e))"
proof -
  obtain n s where s: "p before (ledStore l) = (n, s)" by fastforce
  then have "ledStore l' = s"
    using assms by (auto simp: Prune_def split: sum.splits)
  then show ?thesis using prune_only [OF assms(2) s] by simp
qed

end

end
