(* ===== verification/BoltStore.thy ===== *)
theory BoltStore
  imports CommandLog
begin

text \<open>
  \<open>BoltStore\<close> (\<open>src/snapshot/commandlog/file.go\<close>), the durable store of the ledger: one command per
  key, the database opened per operation, every change one transaction.

  bbolt is a library the source only calls: its operations are the parameters of \<open>bbolt_ops\<close>
  and the locale \<open>bbolt_file\<close> states their documented behaviour.  A stored value is the encoding
  of an entry, or bytes that do not decode.  The last section instantiates the parameters by a
  sorted list of keys, to show that the hypotheses can hold.
\<close>

datatype stored = Encoded Entry | Garbled

record 'db bbolt_ops =
  bbOpenRead :: "'db \<Rightarrow> unit go"
  bbOpenWrite :: "'db \<Rightarrow> unit go"
  bbBucket :: "'db \<Rightarrow> bool"
  bbCreateBucket :: "'db \<Rightarrow> 'db go"
  bbGet :: "'db \<Rightarrow> string \<Rightarrow> stored option"
  bbPut :: "string \<Rightarrow> stored \<Rightarrow> 'db \<Rightarrow> 'db go"
  bbDelete :: "string \<Rightarrow> 'db \<Rightarrow> 'db go"
  bbForEach :: "'db \<Rightarrow> (string \<times> stored) list"
  bbCommit :: "'db \<Rightarrow> unit go"

definition decode_entry :: "stored \<Rightarrow> Entry go" where
  "decode_entry v = (case v of Encoded e \<Rightarrow> Inr e | Garbled \<Rightarrow> Inl Bare)"

text \<open>\<open>view\<close> runs a read transaction, \<open>update\<close> a write transaction that is rolled back when its
  function or the commit fails.\<close>

definition bolt_view :: "'db bbolt_ops \<Rightarrow> ('db \<Rightarrow> 'a go) \<Rightarrow> 'db \<Rightarrow> 'a go \<times> 'db" where
  "bolt_view bb fn db = (rbind (bbOpenRead bb db) (\<lambda>_. fn db), db)"

definition bolt_update :: "'db bbolt_ops \<Rightarrow> ('db \<Rightarrow> ('a \<times> 'db) go) \<Rightarrow> 'db \<Rightarrow> 'a go \<times> 'db" where
  "bolt_update bb fn db =
    (case rbind (bbOpenWrite bb db) (\<lambda>_. rbind (fn db) (\<lambda>(a, db').
        rbind (bbCommit bb db') (\<lambda>_. Inr (a, db')))) of
      Inl e \<Rightarrow> (Inl e, db)
    | Inr (a, db') \<Rightarrow> (Inr a, db'))"

definition bucket_if_missing :: "'db bbolt_ops \<Rightarrow> 'db \<Rightarrow> 'db go" where
  "bucket_if_missing bb db = (if bbBucket bb db then Inr db else bbCreateBucket bb db)"

definition checkExisting :: "'db bbolt_ops \<Rightarrow> 'db \<Rightarrow> unit go \<times> 'db" where
  "checkExisting bb = bolt_view bb (\<lambda>db. if bbBucket bb db then Inr () else Inl Bare)"

definition BoltStore_Ready :: "bool \<Rightarrow> 'db bbolt_ops \<Rightarrow> 'db \<Rightarrow> unit go \<times> 'db" where
  "BoltStore_Ready existing bb db =
    (if existing then checkExisting bb db
     else bolt_update bb (\<lambda>db. rbind (bucket_if_missing bb db) (\<lambda>db'. Inr ((), db'))) db)"

definition BoltStore_Get :: "'db bbolt_ops \<Rightarrow> string \<Rightarrow> 'db \<Rightarrow> Entry option go \<times> 'db" where
  "BoltStore_Get bb cid = bolt_view bb (\<lambda>db.
     if \<not> bbBucket bb db then Inr None
     else (case bbGet bb db cid of
       None \<Rightarrow> Inr None
     | Some raw \<Rightarrow> rbind (decode_entry raw) (\<lambda>e. Inr (Some e))))"

definition BoltStore_Put :: "'db bbolt_ops \<Rightarrow> Entry \<Rightarrow> 'db \<Rightarrow> unit go \<times> 'db" where
  "BoltStore_Put bb e db =
    (if entCommandID e = [] then (Inl Bare, db)
     else bolt_update bb (\<lambda>db. rbind (bucket_if_missing bb db) (\<lambda>db'.
            rbind (bbPut bb (entCommandID e) (Encoded e) db') (\<lambda>db''. Inr ((), db'')))) db)"

definition BoltStore_Delete :: "'db bbolt_ops \<Rightarrow> string \<Rightarrow> 'db \<Rightarrow> unit go \<times> 'db" where
  "BoltStore_Delete bb cid = bolt_update bb (\<lambda>db.
     if \<not> bbBucket bb db then Inr ((), db)
     else rbind (bbDelete bb cid db) (\<lambda>db'. Inr ((), db')))"

definition BoltStore_List :: "'db bbolt_ops \<Rightarrow> 'db \<Rightarrow> Entry list go \<times> 'db" where
  "BoltStore_List bb = bolt_view bb (\<lambda>db.
     if \<not> bbBucket bb db then Inr []
     else rbind (collect (\<lambda>(_, raw). decode_entry raw) (bbForEach bb db)) (\<lambda>es.
            Inr (sort_key entCommandID es)))"

fun prune_items :: "'db bbolt_ops \<Rightarrow> (string \<Rightarrow> int option) \<Rightarrow> int \<Rightarrow> (string \<times> stored) list \<Rightarrow>
    nat \<Rightarrow> 'db \<Rightarrow> (nat \<times> 'db) go" where
  "prune_items bb parse_time before [] removed db = Inr (removed, db)"
| "prune_items bb parse_time before ((key, raw) # rest) removed db =
    rbind (decode_entry raw) (\<lambda>e.
      if \<not> completed e \<or> \<not> expired parse_time before e
      then prune_items bb parse_time before rest removed db
      else rbind (bbDelete bb key db) (\<lambda>db'.
             prune_items bb parse_time before rest (removed + 1) db'))"

definition BoltStore_PruneBefore :: "'db bbolt_ops \<Rightarrow> (string \<Rightarrow> int option) \<Rightarrow> int \<Rightarrow> 'db \<Rightarrow>
    nat go \<times> 'db" where
  "BoltStore_PruneBefore bb parse_time before = bolt_update bb (\<lambda>db.
     if \<not> bbBucket bb db then Inr (0, db)
     else prune_items bb parse_time before (bbForEach bb db) 0 db)"

definition OpenBoltStore :: "'db bbolt_ops \<Rightarrow> 'db \<Rightarrow> unit go" where
  "OpenBoltStore bb db = fst (checkExisting bb db)"

definition BoltStore :: "bool \<Rightarrow> 'db bbolt_ops \<Rightarrow> (string \<Rightarrow> int option) \<Rightarrow> 'db store_ops" where
  "BoltStore existing bb parse_time =
    \<lparr>opReady = BoltStore_Ready existing bb, opGet = BoltStore_Get bb, opPut = BoltStore_Put bb,
     opDelete = BoltStore_Delete bb, opList = BoltStore_List bb,
     opPruneBefore = Some (BoltStore_PruneBefore bb parse_time)\<rparr>"

text \<open>The entries a database holds.\<close>

definition bolt_look :: "'db bbolt_ops \<Rightarrow> 'db \<Rightarrow> string \<Rightarrow> Entry option" where
  "bolt_look bb db cid =
    (if bbBucket bb db
     then (case bbGet bb db cid of Some (Encoded e) \<Rightarrow> Some e | _ \<Rightarrow> None) else None)"

section \<open>The documented behaviour of bbolt\<close>

locale bbolt_file =
  fixes bb :: "'db bbolt_ops"
  assumes create: "\<not> bbBucket bb db \<Longrightarrow> bbCreateBucket bb db = Inr db' \<Longrightarrow>
      bbBucket bb db' \<and> bbGet bb db' = (\<lambda>_. None)"
    and put: "bbBucket bb db \<Longrightarrow> bbPut bb k v db = Inr db' \<Longrightarrow>
      bbBucket bb db' \<and> bbGet bb db' = (bbGet bb db)(k \<mapsto> v)"
    and delete: "bbBucket bb db \<Longrightarrow> bbDelete bb k db = Inr db' \<Longrightarrow>
      bbBucket bb db' \<and> bbGet bb db' = (bbGet bb db)(k := None)"
    and for_each: "bbBucket bb db \<Longrightarrow> (k, v) \<in> set (bbForEach bb db) \<Longrightarrow> bbGet bb db k = Some v"
begin

lemma bucket_ok:
  "bucket_if_missing bb db = Inr db' \<Longrightarrow> bbBucket bb db' \<and> bolt_look bb db' = bolt_look bb db"
  by (auto simp: bucket_if_missing_def bolt_look_def fun_eq_iff dest: create split: if_splits)

lemma prune_items_only:
  assumes "prune_items bb parse_time before items n db = Inr (m, db')"
    and "bbBucket bb db"
    and "\<forall>(k, v) \<in> set items. bbGet bb db k = Some v \<or> bbGet bb db k = None"
  shows "bbBucket bb db' \<and> (bbGet bb db' cid = bbGet bb db cid \<or>
     (bbGet bb db' cid = None \<and> (\<exists>e. bbGet bb db cid = Some (Encoded e) \<and> completed e) \<or>
      bbGet bb db cid = None \<and> bbGet bb db' cid = None))"
  using assms
proof (induction items arbitrary: n db)
  case (Cons item rest)
  obtain k v where item: "item = (k, v)" by fastforce
  from Cons.prems(1) item obtain e where v: "v = Encoded e"
    by (cases v) (auto simp: decode_entry_def)
  show ?case
  proof (cases "\<not> completed e \<or> \<not> expired parse_time before e")
    case True
    then show ?thesis
      using Cons.IH [of n db] Cons.prems item v by (auto simp: decode_entry_def)
  next
    case False
    then obtain db1 where d: "bbDelete bb k db = Inr db1"
        and r: "prune_items bb parse_time before rest (n + 1) db1 = Inr (m, db')"
      using Cons.prems(1) item v by (auto simp: decode_entry_def)
    have b1: "bbBucket bb db1" and g1: "bbGet bb db1 = (bbGet bb db)(k := None)"
      using delete [OF Cons.prems(2) d] by auto
    have "\<forall>(k, v) \<in> set rest. bbGet bb db1 k = Some v \<or> bbGet bb db1 k = None"
      using Cons.prems(3) g1 by (fastforce split: if_splits)
    note ih = Cons.IH [OF r b1 this]
    show ?thesis
    proof (cases "cid = k")
      case True
      then show ?thesis
        using ih g1 False Cons.prems(3) item v by auto
    next
      case False
      then show ?thesis using ih g1 by simp
    qed
  qed
qed simp

lemma update_cases:
  assumes "bolt_update bb fn db = (r, db')"
  obtains (rolled_back) e where "r = Inl e" "db' = db"
  | (committed) a where "r = Inr a" "fn db = Inr (a, db')"
  using assms by (auto simp: bolt_update_def rbind_def split: sum.splits prod.splits)

lemma view_keeps: "bolt_view bb fn db = (r, db') \<Longrightarrow> db' = db"
  by (simp add: bolt_view_def)

end

sublocale bbolt_file \<subseteq> bolt: command_store "BoltStore existing bb parse_time" "bolt_look bb"
proof (unfold_locales, goal_cases)
  case (1 cid s g s')
  then show ?case by (auto simp: BoltStore_def BoltStore_Get_def dest: view_keeps)
next
  case (2 cid s r s')
  then show ?case
    by (auto simp: BoltStore_def BoltStore_Get_def bolt_view_def bolt_look_def decode_entry_def
        rbind_Inr_iff split: if_splits option.splits stored.splits)
next
  case (3 e s s')
  then have "BoltStore_Put bb e s = (Inr (), s')" by (simp add: BoltStore_def)
  then obtain db' where b: "bucket_if_missing bb s = Inr db'"
      and p: "bbPut bb (entCommandID e) (Encoded e) db' = Inr s'"
    by (auto simp: BoltStore_Put_def rbind_Inr_iff split: if_splits elim!: update_cases)
  note b' = bucket_ok [OF b]
  have "bolt_look bb s' = (bolt_look bb db')(entCommandID e \<mapsto> e)"
    using put [OF _ p] b' by (auto simp: bolt_look_def fun_eq_iff)
  then show ?case using b' by simp
next
  case (4 e s err s')
  then show ?case
    by (auto simp: BoltStore_def BoltStore_Put_def split: if_splits elim!: update_cases)
next
  case (5 cid s s')
  then have "BoltStore_Delete bb cid s = (Inr (), s')" by (simp add: BoltStore_def)
  then consider "\<not> bbBucket bb s" "s' = s" | "bbBucket bb s" "bbDelete bb cid s = Inr s'"
    by (auto simp: BoltStore_Delete_def rbind_Inr_iff split: if_splits elim!: update_cases)
  then show ?case
  proof cases
    case 2
    then show ?thesis using delete [OF 2] by (auto simp: bolt_look_def fun_eq_iff)
  qed (simp add: bolt_look_def fun_eq_iff)
next
  case (6 cid s err s')
  then show ?case
    by (auto simp: BoltStore_def BoltStore_Delete_def elim!: update_cases)
next
  case (7 p before s n s' cid)
  then have p: "p = BoltStore_PruneBefore bb parse_time" by (simp add: BoltStore_def)
  show ?case using 7(2) unfolding p BoltStore_PruneBefore_def
  proof (cases rule: update_cases)
    case (committed a)
    show ?thesis
    proof (cases "bbBucket bb s")
      case True
      then have r: "prune_items bb parse_time before (bbForEach bb s) 0 s = Inr (a, s')"
        using committed by simp
      have "\<forall>(k, v) \<in> set (bbForEach bb s). bbGet bb s k = Some v \<or> bbGet bb s k = None"
        using for_each [OF True] by auto
      from prune_items_only [OF r True this, of cid] show ?thesis
        using True by (auto simp: bolt_look_def)
    next
      case False
      then show ?thesis using committed by simp
    qed
  qed simp
qed

section \<open>The hypotheses can hold\<close>

text \<open>A bucket as an association list; no operation fails.\<close>

definition list_bolt :: "(string, stored) gomap option bbolt_ops" where
  "list_bolt = \<lparr>
     bbOpenRead = (\<lambda>db. Inr ()), bbOpenWrite = (\<lambda>db. Inr ()),
     bbBucket = (\<lambda>db. db \<noteq> None),
     bbCreateBucket = (\<lambda>db. Inr (Some (case db of None \<Rightarrow> [] | Some m \<Rightarrow> m))),
     bbGet = (\<lambda>db k. map_of (case db of None \<Rightarrow> [] | Some m \<Rightarrow> m) k),
     bbPut = (\<lambda>k v db. Inr (Some (AList.update k v (case db of None \<Rightarrow> [] | Some m \<Rightarrow> m)))),
     bbDelete = (\<lambda>k db. Inr (Some (AList.delete k (case db of None \<Rightarrow> [] | Some m \<Rightarrow> m)))),
     bbForEach = (\<lambda>db. AList.clearjunk (case db of None \<Rightarrow> [] | Some m \<Rightarrow> m)),
     bbCommit = (\<lambda>db. Inr ())\<rparr>"

interpretation list_bolt: bbolt_file list_bolt
proof (unfold_locales, goal_cases)
  case (4 db k v)
  then show ?case
    by (auto simp: list_bolt_def split: option.splits)
      (metis distinct_clearjunk map_of_clearjunk map_of_is_SomeI)
qed (auto simp: list_bolt_def map_simps split: option.splits)

section \<open>The ledger over the durable store\<close>

context bbolt_file begin

lemma bolt_history_distinct:
  "(ledger_step (BoltStore existing bb parse_time) (bolt_look bb))\<^sup>*\<^sup>* (l, []) (l', w) \<Longrightarrow> distinct w"
  by (rule bolt.history_distinct)

lemma bolt_get_hit:
  assumes "bolt_look bb db cid = Some e" and "bbOpenRead bb db = Inr ()"
  shows "opGet (BoltStore existing bb parse_time) cid db = (Inr (Some e), db)"
  using assms
  by (auto simp: BoltStore_def BoltStore_Get_def bolt_view_def bolt_look_def decode_entry_def
      split: if_splits option.splits stored.splits)

lemma bolt_lookup_hit:
  assumes "bolt_look bb (ledStore l) cid = Some e" and "bbOpenRead bb (ledStore l) = Inr ()"
    and "ledEntries l = []"
  shows "\<exists>l'. lookup (Some (BoltStore existing bb parse_time)) cid (lockCommand cid l)
    = (Inr (Some e), l')"
  using assms bolt_get_hit [OF assms(1,2)] by (simp add: lookup_def)

lemma bolt_executed:
  assumes "Execute (Some (BoltStore existing bb parse_time)) marshal cid digest request now now2
             f l w = (Inr (e, False), l', w')"
  shows "bolt_look bb (ledStore l') cid = Some e" and "entDigest e = digest"
    and "\<exists>r. marshal r = Inr (entReceipt e)"
proof -
  let ?store = "Some (BoltStore existing bb parse_time)"
  obtain l1 out l2 where s: "settle ?store marshal cid digest request now now2 out l1
      = (Inr (e, False), l2)" and l': "l' = unlockCommand cid l2"
    using assms by (auto simp: Execute_def split: prod.splits sum.splits option.splits)
  from settle_entry [OF s] show "entDigest e = digest" "\<exists>r. marshal r = Inr (entReceipt e)" by auto
  from s have "bolt_look bb (ledStore l2) (entCommandID e) = Some e"
    by (auto simp: settle_def Let_def dest!: bolt.putStore_look(2) split: sum.splits prod.splits)
  then show "bolt_look bb (ledStore l') cid = Some e"
    using settle_entry(3) [OF s] l' by simp
qed

lemma bolt_retry_replays:
  assumes "Execute (Some (BoltStore existing bb parse_time)) marshal cid digest request now now2
             f l w = (Inr (e, False), l', w')"
    and "\<And>r raw. marshal r = Inr raw \<Longrightarrow> raw \<noteq> []" and "bbOpenRead bb (ledStore l') = Inr ()"
  shows "\<exists>l''. Execute (Some (BoltStore existing bb parse_time)) marshal2 cid digest2 request2
      now3 now4 g (restart l') v =
    (if digest2 = digest then Inr (e, True) else fails ErrIdempotencyConflict, l'', v)"
proof -
  note d = bolt_executed [OF assms(1)]
  have receipt: "entReceipt e \<noteq> []" using d(3) assms(2) by blast
  obtain l1 where "lookup (Some (BoltStore existing bb parse_time)) cid (lockCommand cid (restart l'))
      = (Inr (Some e), l1)"
    using bolt_lookup_hit [of "restart l'"] d(1) assms(3) by fastforce
  then show ?thesis using d(2) receipt by (auto simp: Execute_hit)
qed

lemma bolt_died_then_retry:
  assumes "reserve (Some (BoltStore existing bb parse_time)) cid digest request now (lockCommand cid l)
      = (Inr None, l1)"
    and "bbOpenRead bb (ledStore l1) = Inr ()"
  shows "\<exists>l'. Execute (Some (BoltStore existing bb parse_time)) marshal cid digest request2 now3 now4 f
      (restart l1) w = (fails ErrPreconditionFailed, l', w)"
proof -
  have "bolt_look bb (ledStore l1) cid \<noteq> None"
    using bolt.reserve_look(2) [OF assms(1)] by simp
  then obtain e where "bolt_look bb (ledStore l1) cid = Some e" by blast
  then show ?thesis
    by (simp add: bolt.died_then_retry [OF assms(1) bolt_get_hit [OF _ assms(2)]])
qed

lemma bolt_prune_pending:
  assumes "Prune (Some (BoltStore existing bb parse_time)) pt before l = (r, l')"
    and "bolt_look bb (ledStore l) cid = Some e" and "\<not> completed e"
  shows "bolt_look bb (ledStore l') cid = Some e"
proof -
  have "opPruneBefore (BoltStore existing bb parse_time) = Some (BoltStore_PruneBefore bb parse_time)"
    by (simp add: BoltStore_def)
  from bolt.Prune_look [OF assms(1) this, of cid] show ?thesis using assms(2,3) by auto
qed

end

lemma prune_cache_pending:
  assumes "Prune (Some (BoltStore existing bb parse_time)) pt before l = (r, l')"
    and "distinct (map fst (ledEntries l))"
    and "map_of (ledEntries l) cid = Some e" and "\<not> completed e"
  shows "map_of (ledEntries l') cid = Some e"
  using assms
  by (auto simp: Prune_def BoltStore_def map_of_filter_distinct split: prod.splits sum.splits)

section \<open>Properties\<close>

text \<open>A concrete run for the witnesses: one command on an empty database.\<close>

definition demo_store :: "(string, stored) gomap option store_ops" where
  "demo_store = BoltStore False list_bolt (\<lambda>t. if t = ''t0'' then Some 0 else None)"

definition demo_request :: CmdRequest where
  "demo_request = \<lparr>reqKind = ''knowledge'', reqRepositoryID = ''kr://a/b'', reqTargetRef = ''main'',
     reqBaseCommit = [], reqExpectedTargetCommit = [], reqOperationCount = 1, reqTreeChangeSet = []\<rparr>"

definition demo_empty :: "(string, stored) gomap option Ledger" where
  "demo_empty = \<lparr>ledStore = None, ledEntries = [], ledLocks = []\<rparr>"

definition demo_marshal :: "string \<Rightarrow> string go" where
  "demo_marshal r = Inr (CHR 0x22 # r @ [CHR 0x22])"

definition demo_run :: "(Entry \<times> bool) go \<times> (string, stored) gomap option Ledger \<times> string list" where
  "demo_run = Execute (Some demo_store) demo_marshal ''c1'' ''d1'' demo_request ''t0'' ''t0''
     (apply_once ''c1'' (Inr ''commit1'')) demo_empty []"

definition demo_reserved :: "Entry option go \<times> (string, stored) gomap option Ledger" where
  "demo_reserved = reserve (Some demo_store) ''c1'' ''d1'' demo_request ''t0''
     (lockCommand ''c1'' demo_empty)"

text \<open>C1. At most once: in every history of one command ledger over its durable store
  (executions, operator resolutions, crashes before or after the authority was changed, restarts,
  changes of the store file that keep its contents) every command id is applied successfully at
  most once.  Entries removed by \<open>Prune\<close> after the retention window are outside the history.\<close>

theorem ledger_applies_at_most_once:
  assumes "bbolt_file bb"
    and "(ledger_step (BoltStore existing bb parse_time) (bolt_look bb))\<^sup>*\<^sup>* (l, []) (l', w)"
  shows "count_list w cid \<le> 1"
proof -
  have "distinct w" using bbolt_file.bolt_history_distinct [OF assms] .
  then show ?thesis by (simp add: distinct_count_atmost_1 count_mset [symmetric])
qed

theorem ledger_applies_at_most_once_witness:
  "\<exists>l'. (ledger_step demo_store (bolt_look list_bolt))\<^sup>*\<^sup>* (demo_empty, []) (l', [''c1'']) \<and>
     count_list [''c1''] ''c1'' \<le> (1::nat)"
proof -
  have "snd (snd demo_run) = [''c1'']" by code_simp
  then have "Execute (Some demo_store) demo_marshal ''c1'' ''d1'' demo_request ''t0'' ''t0''
      (apply_once ''c1'' (Inr ''commit1'')) demo_empty []
      = (fst demo_run, fst (snd demo_run), [''c1''])"
    unfolding demo_run_def by (metis prod.collapse)
  then have "(ledger_step demo_store (bolt_look list_bolt))\<^sup>*\<^sup>* (demo_empty, [])
      (fst (snd demo_run), [''c1''])"
    by (intro r_into_rtranclp ledger_step.execute)
  with ledger_applies_at_most_once [OF list_bolt.bbolt_file_axioms this [unfolded demo_store_def]]
  show ?thesis by blast
qed



text \<open>C3. Fail closed: if the process dies after it reserved a command, whether or not the work
  was applied, a retry after the restart is refused with \<open>PRECONDITION_FAILED\<close> and does not
  touch the authority.\<close>

theorem crashed_command_fails_closed:
  assumes "bbolt_file bb"
    and "reserve (Some (BoltStore existing bb parse_time)) cid digest request now (lockCommand cid l)
      = (Inr None, l1)"
    and "bbOpenRead bb (ledStore l1) = Inr ()"
  shows "\<exists>l'. Execute (Some (BoltStore existing bb parse_time)) marshal cid digest request2 now3 now4 f
      (restart l1) w = (fails ErrPreconditionFailed, l', w)"
  using assms by (rule bbolt_file.bolt_died_then_retry)

theorem crashed_command_fails_closed_witness:
  "\<exists>l'. Execute (Some demo_store) demo_marshal ''c1'' ''d1'' demo_request ''t1'' ''t1''
     (apply_once ''c1'' (Inr ''commit1'')) (restart (snd demo_reserved)) [''c1'']
     = (fails ErrPreconditionFailed, l', [''c1''])"
proof -
  have r: "reserve (Some demo_store) ''c1'' ''d1'' demo_request ''t0'' (lockCommand ''c1'' demo_empty)
      = (Inr None, snd demo_reserved)"
    by code_simp
  show ?thesis
    using crashed_command_fails_closed [OF list_bolt.bbolt_file_axioms r [unfolded demo_store_def]]
    by (simp add: demo_store_def list_bolt_def)
qed

text \<open>Retention: \<open>Prune\<close> deletes nothing that is not completed, neither from the store nor
  from the cache, whatever the clock and the age of the entry.\<close>

theorem prune_keeps_pending:
  assumes "bbolt_file bb" and "distinct (map fst (ledEntries l))"
    and "Prune (Some (BoltStore existing bb parse_time)) pt before l = (r, l')" and "\<not> completed e"
  shows "(bolt_look bb (ledStore l) cid = Some e \<longrightarrow> bolt_look bb (ledStore l') cid = Some e) \<and>
    (map_of (ledEntries l) cid = Some e \<longrightarrow> map_of (ledEntries l') cid = Some e)"
  using bbolt_file.bolt_prune_pending [OF assms(1,3) _ assms(4)]
    prune_cache_pending [OF assms(3,2) _ assms(4)] by blast

theorem prune_keeps_pending_witness:
  "bolt_look list_bolt (ledStore (snd (Prune (Some demo_store) (\<lambda>_. Some 0) 5 (snd demo_reserved)))) ''c1''
     = bolt_look list_bolt (ledStore (snd demo_reserved)) ''c1'' \<and>
   bolt_look list_bolt (ledStore (snd demo_reserved)) ''c1'' \<noteq> None"
proof -
  obtain e where e: "bolt_look list_bolt (ledStore (snd demo_reserved)) ''c1'' = Some e"
      and p: "\<not> completed e"
  proof
    show "bolt_look list_bolt (ledStore (snd demo_reserved)) ''c1'' = Some
      \<lparr>entCommandID = ''c1'', entDigest = ''d1'', entStatus = StatusPending, entCreatedAt = ''t0'',
       entUpdatedAt = ''t0'', entReceipt = [], entRequest = demo_request\<rparr>" by code_simp
  qed (simp add: completed_def status_names)
  have d: "distinct (map fst (ledEntries (snd demo_reserved)))" by code_simp
  from prune_keeps_pending [OF list_bolt.bbolt_file_axioms d _ p, of False
      "\<lambda>t. if t = ''t0'' then Some 0 else None", folded demo_store_def, OF surjective_pairing] e
  show ?thesis by simp
qed

end
