(* ===== verification/Go_Paths.thy ===== *)
theory Go_Paths
  imports Kernel
begin

text \<open>
  Lexical paths: \<open>path.Clean\<close> and \<open>path.IsAbs\<close> of the Go library, component by component, and
  \<open>src/internal/treepath\<close>, which admits the opaque tree paths of a snapshot.
\<close>

definition slash :: char where "slash = CHR ''/''"

definition IsAbs :: "string \<Rightarrow> bool" where
  "IsAbs p = HasPrefix p ''/''"

definition components :: "string \<Rightarrow> string list" where
  "components p = filter (\<lambda>c. c \<noteq> [] \<and> c \<noteq> ''.'') (Split slash p)"

text \<open>The stack of kept components, innermost first; a \<open>..\<close> removes the last kept name and is
  kept itself only at the front of a relative path.\<close>

fun clean_stack :: "bool \<Rightarrow> string list \<Rightarrow> string list \<Rightarrow> string list" where
  "clean_stack rooted stack [] = stack"
| "clean_stack rooted stack (c # cs) =
    (if c \<noteq> ''..'' then clean_stack rooted (c # stack) cs
     else (case stack of
        [] \<Rightarrow> if rooted then clean_stack rooted [] cs else clean_stack rooted [''..''] cs
      | kept # rest \<Rightarrow> if kept = ''..'' then clean_stack rooted (''..'' # stack) cs
                      else clean_stack rooted rest cs))"

definition Clean :: "string \<Rightarrow> string" where
  "Clean p =
    (let rooted = IsAbs p;
         body = Join ''/'' (rev (clean_stack rooted [] (components p)));
         out = (if rooted then ''/'' else []) @ body in
     if out = [] then ''.'' else out)"

definition treepath_Clean :: "string \<Rightarrow> string go" where
  "treepath_Clean value =
    (if value = [] \<or> IsAbs value then fails ErrUsageInvalid
     else (let normalized = Clean value in
       if normalized = ''..'' \<or> HasPrefix normalized ''../'' then fails ErrUsageInvalid
       else Inr normalized))"

text \<open>\<open>strings.Trim(s, "/")\<close>.\<close>

definition trim_slashes :: "string \<Rightarrow> string" where
  "trim_slashes s = rev (dropWhile (\<lambda>c. c = slash) (rev (dropWhile (\<lambda>c. c = slash) s)))"

section \<open>Shape of clean paths\<close>

text \<open>A clean stack is a list of proper names over a block of \<open>..\<close>, which is empty on a rooted
  path.\<close>

definition proper :: "string \<Rightarrow> bool" where
  "proper c = (c \<noteq> [] \<and> c \<noteq> ''.'' \<and> c \<noteq> ''..'' \<and> slash \<notin> set c)"

definition stack_ok :: "bool \<Rightarrow> string list \<Rightarrow> bool" where
  "stack_ok rooted stack =
    (\<exists>names n. stack = names @ replicate n ''..'' \<and> (\<forall>c \<in> set names. proper c) \<and>
      (rooted \<longrightarrow> n = 0))"

lemma stack_ok_Nil [simp]: "stack_ok rooted []"
  by (simp add: stack_ok_def)

lemma stack_ok_push: "proper c \<Longrightarrow> stack_ok rooted s \<Longrightarrow> stack_ok rooted (c # s)"
  unfolding stack_ok_def by (metis append_Cons set_ConsD)

lemma dots_not_proper [simp]: "\<not> proper ''..''"
  by (simp add: proper_def)

lemma stack_ok_dots:
  assumes "stack_ok rooted (''..'' # s)"
  shows "\<not> rooted \<and> (\<exists>n. s = replicate n ''..'')"
proof -
  obtain names n where s: "''..'' # s = names @ replicate n ''..''"
      "\<forall>c \<in> set names. proper c" "rooted \<longrightarrow> n = 0"
    using assms by (auto simp: stack_ok_def)
  then have "names = []" by (cases names) auto
  with s show ?thesis by (cases n) auto
qed

lemma stack_ok_pop: "stack_ok rooted (c # s) \<Longrightarrow> c \<noteq> ''..'' \<Longrightarrow> stack_ok rooted s"
proof -
  assume "stack_ok rooted (c # s)" and c: "c \<noteq> ''..''"
  then obtain names n where s: "c # s = names @ replicate n ''..''"
      "\<forall>c \<in> set names. proper c" "rooted \<longrightarrow> n = 0"
    by (auto simp: stack_ok_def)
  then show ?thesis
    using c by (cases names) (auto simp: stack_ok_def Cons_replicate_eq)
qed

lemma components_proper:
  "c \<in> set (components p) \<Longrightarrow> c \<noteq> ''..'' \<Longrightarrow> proper c"
  by (auto simp: components_def proper_def dest: Split_no_sep)

lemma clean_stack_ok:
  assumes "stack_ok rooted stack" and "\<forall>c \<in> set cs. c = ''..'' \<or> proper c"
  shows "stack_ok rooted (clean_stack rooted stack cs)"
  using assms
proof (induction rooted stack cs rule: clean_stack.induct)
  case (2 rooted stack c cs)
  show ?case
  proof (cases "c = ''..''")
    case False
    then show ?thesis using 2 by (simp add: stack_ok_push)
  next
    case dots: True
    have one: "\<not> rooted \<Longrightarrow> stack_ok rooted [''..'']"
      unfolding stack_ok_def by (intro exI [of _ "[]"] exI [of _ "1::nat"]) auto
    show ?thesis
    proof (cases stack)
      case Nil
      then show ?thesis using 2 dots one by auto
    next
      case (Cons kept rest)
      show ?thesis
      proof (cases "kept = ''..''")
        case True
        then obtain n where "rest = replicate n ''..''" "\<not> rooted"
          using "2.prems"(1) Cons True stack_ok_dots by blast
        then have "stack_ok rooted (''..'' # stack)"
          unfolding stack_ok_def Cons True
          by (intro exI [of _ "[]"] exI [of _ "Suc (Suc n)"]) auto
        then show ?thesis using 2 dots Cons True by auto
      next
        case False
        then show ?thesis using 2 dots Cons stack_ok_pop by auto
      qed
    qed
  qed
qed simp

lemma stack_ok_tail: "stack_ok rooted (c # s) \<Longrightarrow> stack_ok rooted s"
proof (cases "c = ''..''")
  case True
  assume "stack_ok rooted (c # s)"
  then obtain n where "\<not> rooted" "s = replicate n ''..''"
    using True stack_ok_dots by blast
  then show ?thesis
    unfolding stack_ok_def by (intro exI [of _ "[]"] exI [of _ n]) simp
qed (rule stack_ok_pop)

lemma stack_ok_suffix: "stack_ok rooted (xs @ s) \<Longrightarrow> stack_ok rooted s"
  by (induction xs) (auto dest: stack_ok_tail)

lemma clean_stack_id:
  assumes "stack_ok rooted (rev cs @ stack)"
  shows "clean_stack rooted stack cs = rev cs @ stack"
  using assms
proof (induction cs arbitrary: stack)
  case (Cons c cs)
  show ?case
  proof (cases "c = ''..''")
    case False
    then show ?thesis using Cons by simp
  next
    case True
    have "stack_ok rooted (''..'' # stack)"
      using Cons.prems True stack_ok_suffix [of rooted "rev cs"] by simp
    then have "\<not> rooted" "\<exists>n. stack = replicate n ''..''"
      using stack_ok_dots by auto
    then show ?thesis
      using Cons True by (cases stack) (auto simp: Cons_replicate_eq)
  qed
qed simp

text \<open>The components of a clean path are its stack, so cleaning twice changes nothing.\<close>

lemma stack_ok_members:
  "stack_ok rooted s \<Longrightarrow> c \<in> set s \<Longrightarrow> c \<noteq> [] \<and> c \<noteq> ''.'' \<and> slash \<notin> set c"
  by (fastforce simp: stack_ok_def proper_def slash_def)

lemma components_Join:
  assumes "cs \<noteq> []" "\<forall>c \<in> set cs. c \<noteq> [] \<and> c \<noteq> ''.'' \<and> slash \<notin> set c"
  shows "components (Join ''/'' cs) = cs"
proof -
  have "Split slash (Join [slash] cs) = cs" using assms by (simp add: Split_Join)
  then show ?thesis using assms by (simp add: components_def slash_def)
qed

lemma components_rooted: "components (''/'' @ p) = components p"
  by (simp add: components_def slash_def)

lemma Join_not_abs:
  assumes "cs \<noteq> []" "\<forall>c \<in> set cs. c \<noteq> [] \<and> slash \<notin> set c"
  shows "\<not> IsAbs (Join ''/'' cs)" "Join ''/'' cs \<noteq> []"
proof -
  obtain c rest where c: "cs = c # rest" using assms(1) by (cases cs) auto
  then obtain x y where "c = x # y" "x \<noteq> slash" using assms(2) by (cases c) auto
  then show "\<not> IsAbs (Join ''/'' cs)" "Join ''/'' cs \<noteq> []"
    using c by (cases rest; simp add: IsAbs_def slash_def)+
qed

definition clean_list :: "string \<Rightarrow> string list" where
  "clean_list p = rev (clean_stack (IsAbs p) [] (components p))"

lemma clean_list_ok: "stack_ok (IsAbs p) (rev (clean_list p))"
  unfolding clean_list_def using components_proper by (auto intro!: clean_stack_ok)

lemma Clean_clean_list:
  "Clean p = (let out = (if IsAbs p then ''/'' else []) @ Join ''/'' (clean_list p) in
     if out = [] then ''.'' else out)"
  by (simp add: Clean_def clean_list_def Let_def)

lemma Clean_components:
  "components (Clean p) = clean_list p" "IsAbs (Clean p) = IsAbs p"
proof -
  have m: "\<forall>c \<in> set (clean_list p). c \<noteq> [] \<and> c \<noteq> ''.'' \<and> slash \<notin> set c"
    using stack_ok_members [OF clean_list_ok] by auto
  have c0: "components [] = []" "components ''.'' = []" by code_simp+
  show "components (Clean p) = clean_list p"
  proof (cases "clean_list p = []")
    case True
    then show ?thesis
      using components_rooted [of "[]"] by (simp add: Clean_clean_list c0)
  next
    case False
    then show ?thesis
      using components_Join [OF False m] Join_not_abs(2) [OF False] m
        components_rooted [of "Join ''/'' (clean_list p)"]
      by (simp add: Clean_clean_list Let_def)
  qed
  show "IsAbs (Clean p) = IsAbs p"
  proof (cases "clean_list p = []")
    case True
    then show ?thesis by (simp add: Clean_clean_list IsAbs_def)
  next
    case False
    then show ?thesis
      using Join_not_abs [OF False] m by (auto simp: Clean_clean_list Let_def IsAbs_def)
  qed
qed

lemma Clean_idem [simp]: "Clean (Clean p) = Clean p"
proof -
  have "clean_list (Clean p) = clean_list p"
    using clean_stack_id [of "IsAbs p" "clean_list p" "[]"] clean_list_ok [of p]
    by (simp add: clean_list_def [of "Clean p"] Clean_components)
  then have "Clean (Clean p) = (let out = (if IsAbs p then ''/'' else []) @ Join ''/'' (clean_list p) in
     if out = [] then ''.'' else out)"
    by (subst Clean_clean_list) (simp only: Clean_components)
  then show ?thesis by (simp only: Clean_clean_list [symmetric])
qed

text \<open>An admitted tree path stays below the root: none of its components is \<open>..\<close>.\<close>

lemma clean_dots_first:
  assumes "stack_ok False (rev cs)" and "''..'' \<in> set cs"
  shows "\<exists>rest. cs = ''..'' # rest"
proof -
  obtain names n where s: "rev cs = names @ replicate n ''..''" "\<forall>c \<in> set names. proper c"
    using assms(1) by (auto simp: stack_ok_def)
  have "''..'' \<in> set (rev cs)" using assms(2) by simp
  then have "n \<noteq> 0" using s by (auto simp: proper_def)
  then obtain m where "n = Suc m" by (cases n) auto
  then have "cs = ''..'' # (replicate m ''..'' @ rev names)"
    using s(1) by (metis append_Cons replicate_Suc rev_append rev_replicate rev_rev_ident)
  then show ?thesis by blast
qed

lemma treepath_Clean_ok:
  assumes "treepath_Clean v = Inr p"
  shows "Clean p = p" "\<not> IsAbs p" "''..'' \<notin> set (components p)"
proof -
  have v: "\<not> IsAbs v" "p = Clean v" "p \<noteq> ''..''" "\<not> prefix ''../'' p"
    using assms by (auto simp: treepath_Clean_def Let_def split: if_splits)
  then show "Clean p = p" "\<not> IsAbs p" by (simp_all add: Clean_components)
  show "''..'' \<notin> set (components p)"
  proof
    assume d: "''..'' \<in> set (components p)"
    then obtain rest where r: "clean_list v = ''..'' # rest"
      using clean_dots_first [of "clean_list v"] clean_list_ok [of v] v(1,2)
      by (auto simp: Clean_components)
    moreover have "Join ''/'' (''..'' # rest) \<noteq> []" by (cases rest) auto
    ultimately have "p = Join ''/'' (''..'' # rest)"
      using v(1,2) by (simp add: Clean_clean_list)
    then show False using v(3,4) by (cases rest) auto
  qed
qed

end
