(* ===== verification/Mounts.thy ===== *)
theory Mounts
  imports Go_Paths
begin

text \<open>
  \<open>src/snapshot/dataset/mount.go\<close>: the mounts of a knowledge set.  A source with a path mounts a
  repository subtree into the composed workspace; \<open>validateMountPaths\<close> admits a list of sources,
  \<open>RouteMount\<close> finds the one repository that owns a workspace path and \<open>RouteMounts\<close> splits an
  edit by repository.
\<close>

record KnowledgeSetSource =
  srcRepository :: string
  srcSelector :: string
  srcPath :: "string option"
  srcSubPath :: string
  srcCommit :: string
  srcBaseRev :: string
  srcFile :: string
  srcTarget :: string

definition IsFileEntry :: "KnowledgeSetSource \<Rightarrow> bool" where
  "IsFileEntry s = (srcFile s \<noteq> [])"

definition NormalizeMountPath :: "string \<Rightarrow> string" where
  "NormalizeMountPath p =
    (let trimmed = trim_slashes (TrimSpace p) in
     if trimmed = [] \<or> trimmed = ''.'' then [] else Clean trimmed)"

definition validateRelativeTreePath :: "string \<Rightarrow> bool \<Rightarrow> unit go" where
  "validateRelativeTreePath value allowRoot =
    (if CHR 0x00 \<in> set value \<or> CHR 0x5C \<in> set value then fails ErrKnowledgeSetInvalid
     else (let clean = NormalizeMountPath value in
       if clean = [] \<and> allowRoot then Inr ()
       else if clean = [] \<or> clean = ''..'' \<or> HasPrefix clean ''../'' then fails ErrKnowledgeSetInvalid
       else Inr ()))"

section \<open>Admission of mounts\<close>

text \<open>The first loop checks every entry and collects the mounts and the number of declared paths.\<close>

fun collect_mounts :: "KnowledgeSetSource list \<Rightarrow> nat \<Rightarrow> KnowledgeSetSource list \<Rightarrow>
    (nat \<times> KnowledgeSetSource list) go" where
  "collect_mounts [] declared mounts = Inr (declared, rev mounts)"
| "collect_mounts (src # rest) declared mounts =
    (if IsFileEntry src
     then (if srcPath src \<noteq> None \<or> TrimSpace (srcSubPath src) \<noteq> [] then fails ErrKnowledgeSetInvalid
           else collect_mounts rest declared mounts)
     else if TrimSpace (srcTarget src) \<noteq> [] then fails ErrKnowledgeSetInvalid
     else (case srcPath src of
       Some p \<Rightarrow>
         rbind (validateRelativeTreePath p True) (\<lambda>_.
         rbind (validateRelativeTreePath (srcSubPath src) True) (\<lambda>_.
           collect_mounts rest (declared + 1) (src # mounts)))
     | None \<Rightarrow>
         if TrimSpace (srcSubPath src) \<noteq> [] then fails ErrKnowledgeSetInvalid
         else collect_mounts rest declared (src # mounts)))"

definition mount_norm :: "KnowledgeSetSource \<Rightarrow> string" where
  "mount_norm src = (case srcPath src of None \<Rightarrow> [] | Some p \<Rightarrow> NormalizeMountPath p)"

fun claim_paths :: "string list \<Rightarrow> KnowledgeSetSource list \<Rightarrow> unit go" where
  "claim_paths owners [] = Inr ()"
| "claim_paths owners (src # rest) =
    (let norm = mount_norm src in
     if norm \<in> set owners then fails ErrKnowledgeSetInvalid
     else claim_paths (norm # owners) rest)"

definition nests :: "string list \<Rightarrow> nat \<Rightarrow> nat \<Rightarrow> bool" where
  "nests norms i j =
    (let a = norms ! i; b = norms ! j in
     a \<noteq> [] \<and> i \<noteq> j \<and> b \<noteq> [] \<and> HasPrefix b (a @ ''/''))"

definition check_nesting :: "string list \<Rightarrow> unit go" where
  "check_nesting norms =
    each_ok (\<lambda>i. each_ok (\<lambda>j. if nests norms i j then fails ErrKnowledgeSetInvalid else Inr ())
      [0..<length norms]) [0..<length norms]"

definition validateMountPaths :: "KnowledgeSetSource list \<Rightarrow> unit go" where
  "validateMountPaths sources =
    rbind (collect_mounts sources 0 []) (\<lambda>(declared, mounts).
      if declared = 0 then Inr ()
      else if declared \<noteq> length mounts then fails ErrKnowledgeSetInvalid
      else rbind (claim_paths [] mounts) (\<lambda>_. check_nesting (map mount_norm mounts)))"

definition RequireAllMountsDeclared :: "KnowledgeSetSource list \<Rightarrow> unit go" where
  "RequireAllMountsDeclared sources =
    each_ok (\<lambda>src. if srcPath src = None then fails ErrCapabilityUnsatisfied else Inr ()) sources"

text \<open>\<open>RootFirst\<close> swaps the first root mount, unless it is already in front, with the first source.
  A root mount at index 0 does not stop the loop.\<close>

fun root_index :: "nat \<Rightarrow> KnowledgeSetSource list \<Rightarrow> nat option" where
  "root_index i [] = None"
| "root_index i (src # rest) =
    (if srcPath src \<noteq> None \<and> mount_norm src = [] \<and> i \<noteq> 0 then Some i else root_index (i + 1) rest)"

definition RootFirst :: "KnowledgeSetSource list \<Rightarrow> KnowledgeSetSource list" where
  "RootFirst sources =
    (case root_index 0 sources of
      None \<Rightarrow> sources
    | Some i \<Rightarrow> sources[0 := sources ! i, i := sources ! 0])"

section \<open>Routing\<close>

record MountRoute =
  mrRepository :: string
  mrPath :: string

definition joinSubPath :: "string \<Rightarrow> string \<Rightarrow> string" where
  "joinSubPath subPath0 inRepo0 =
    (let subPath = trim_slashes subPath0; inRepo = trim_slashes inRepo0 in
     if subPath = [] then inRepo else if inRepo = [] then subPath else subPath @ ''/'' @ inRepo)"

text \<open>The loop of \<open>RouteMount\<close>: the best mount so far, the root mount and whether a path was
  declared at all.\<close>

fun route_loop :: "string \<Rightarrow> KnowledgeSetSource list \<Rightarrow>
    KnowledgeSetSource option \<times> KnowledgeSetSource option \<times> bool \<Rightarrow>
    KnowledgeSetSource option \<times> KnowledgeSetSource option \<times> bool" where
  "route_loop clean [] st = st"
| "route_loop clean (src # rest) (best, root, declared) =
    (if srcPath src = None then route_loop clean rest (best, root, declared)
     else (let norm = mount_norm src in
       if norm = [] then route_loop clean rest (best, Some src, True)
       else if norm \<noteq> clean \<and> \<not> HasPrefix clean (norm @ ''/'')
       then route_loop clean rest (best, root, True)
       else if (case best of None \<Rightarrow> True | Some b \<Rightarrow> length (mount_norm b) < length norm)
       then route_loop clean rest (Some src, root, True)
       else route_loop clean rest (best, root, True)))"

definition RouteMount :: "KnowledgeSetSource list \<Rightarrow> string \<Rightarrow> MountRoute go" where
  "RouteMount sources workspacePath =
    (let clean = NormalizeMountPath workspacePath in
     if clean = [] then fails ErrUsageInvalid
     else (case route_loop clean sources (None, None, False) of
       (best, root, declared) \<Rightarrow>
         if \<not> declared then fails ErrUsageInvalid
         else (case best of
           Some b \<Rightarrow>
             (let inRepo = (if clean \<noteq> mount_norm b then TrimPrefix clean (mount_norm b @ ''/'') else [])
              in Inr \<lparr>mrRepository = srcRepository b, mrPath = joinSubPath (srcSubPath b) inRepo\<rparr>)
         | None \<Rightarrow>
             (case root of
               Some r \<Rightarrow> Inr \<lparr>mrRepository = srcRepository r, mrPath = joinSubPath (srcSubPath r) clean\<rparr>
             | None \<Rightarrow> fails ErrUsageInvalid))))"

fun route_mounts_loop :: "KnowledgeSetSource list \<Rightarrow> string list \<Rightarrow> (string, MountRoute list) gomap \<Rightarrow>
    (string, MountRoute list) gomap go" where
  "route_mounts_loop sources [] out = Inr out"
| "route_mounts_loop sources (p # rest) out =
    rbind (RouteMount sources p) (\<lambda>route.
      route_mounts_loop sources rest
        (AList.update (mrRepository route)
           ((case map_of out (mrRepository route) of None \<Rightarrow> [] | Some rs \<Rightarrow> rs) @ [route]) out))"

definition RouteMounts :: "KnowledgeSetSource list \<Rightarrow> string list \<Rightarrow>
    (string, MountRoute list) gomap go" where
  "RouteMounts sources workspacePaths = route_mounts_loop sources workspacePaths []"

section \<open>What admission guarantees\<close>

definition mounts_of :: "KnowledgeSetSource list \<Rightarrow> KnowledgeSetSource list" where
  "mounts_of sources = filter (\<lambda>s. \<not> IsFileEntry s) sources"

definition declared_of :: "KnowledgeSetSource list \<Rightarrow> KnowledgeSetSource list" where
  "declared_of sources = filter (\<lambda>s. srcPath s \<noteq> None) sources"

lemma collect_mounts_ok:
  assumes "collect_mounts sources n ms = Inr (declared, mounts)"
  shows "mounts = rev ms @ mounts_of sources"
    and "declared = n + length (declared_of sources)"
    and "declared_of (mounts_of sources) = declared_of sources"
  using assms
  by (induction sources n ms rule: collect_mounts.induct)
    (auto simp: mounts_of_def declared_of_def split: if_splits option.splits)

lemma claim_paths_ok:
  "claim_paths owners srcs = Inr u \<Longrightarrow>
   distinct (map mount_norm srcs) \<and> set owners \<inter> mount_norm ` set srcs = {}"
  by (induction owners srcs rule: claim_paths.induct) (auto simp: Let_def split: if_splits)

lemma check_nesting_ok:
  "check_nesting norms = Inr u \<Longrightarrow> i < length norms \<Longrightarrow> j < length norms \<Longrightarrow> \<not> nests norms i j"
  by (auto simp: check_nesting_def each_ok_iff split: if_splits)

text \<open>The paths of the declared mounts are pairwise different and none lies below another.\<close>

definition disjoint_mounts :: "KnowledgeSetSource list \<Rightarrow> bool" where
  "disjoint_mounts sources =
    (distinct (map mount_norm (declared_of sources)) \<and>
     (\<forall>a \<in> set (declared_of sources). \<forall>b \<in> set (declared_of sources).
        mount_norm a \<noteq> [] \<longrightarrow> \<not> HasPrefix (mount_norm b) (mount_norm a @ ''/'')))"

lemma prefix_slash_longer: "prefix (a @ ''/'') b \<Longrightarrow> b \<noteq> a \<and> b \<noteq> []"
  by (auto simp: prefix_def)

lemma filter_length_eq: "length (filter P xs) = length xs \<Longrightarrow> filter P xs = xs"
  by (metis filter_id_conv length_filter_less less_irrefl)

lemma validateMountPaths_disjoint:
  assumes "validateMountPaths sources = Inr u"
  shows "disjoint_mounts sources"
proof -
  obtain declared mounts where c: "collect_mounts sources 0 [] = Inr (declared, mounts)"
    using assms by (auto simp: validateMountPaths_def rbind_Inr_iff)
  note cm = collect_mounts_ok [OF c]
  show ?thesis
  proof (cases "declared = 0")
    case True
    then show ?thesis using cm(2) by (simp add: disjoint_mounts_def)
  next
    case False
    then have v: "declared = length mounts" "claim_paths [] mounts = Inr ()"
        "check_nesting (map mount_norm mounts) = Inr u"
      using assms c by (auto simp: validateMountPaths_def rbind_Inr_iff split: if_splits)
    have m: "declared_of sources = mounts"
      using cm v(1) filter_length_eq [of "\<lambda>s. srcPath s \<noteq> None" "mounts_of sources"]
      by (simp add: declared_of_def)
    have d: "distinct (map mount_norm mounts)" using claim_paths_ok [OF v(2)] by simp
    have "\<not> HasPrefix (mount_norm b) (mount_norm a @ ''/'')"
      if ab: "a \<in> set mounts" "b \<in> set mounts" "mount_norm a \<noteq> []" for a b
    proof
      assume p: "HasPrefix (mount_norm b) (mount_norm a @ ''/'')"
      obtain i j where ij: "i < length mounts" "mounts ! i = a" "j < length mounts" "mounts ! j = b"
        using ab by (meson in_set_conv_nth)
      have "nests (map mount_norm mounts) i j"
        using p ab(3) ij prefix_slash_longer [OF p] by (auto simp: nests_def Let_def)
      then show False using check_nesting_ok [OF v(3)] ij by simp
    qed
    then show ?thesis using d m by (simp add: disjoint_mounts_def)
  qed
qed

section \<open>The owner of a path\<close>

definition owns :: "string \<Rightarrow> KnowledgeSetSource \<Rightarrow> bool" where
  "owns clean src = (srcPath src \<noteq> None \<and> mount_norm src \<noteq> [] \<and>
     (mount_norm src = clean \<or> HasPrefix clean (mount_norm src @ ''/'')))"

definition is_root :: "KnowledgeSetSource \<Rightarrow> bool" where
  "is_root src = (srcPath src \<noteq> None \<and> mount_norm src = [])"

lemma owners_comparable:
  assumes "owns c a" and "owns c b"
  shows "mount_norm a = mount_norm b \<or> HasPrefix (mount_norm b) (mount_norm a @ ''/'') \<or>
    HasPrefix (mount_norm a) (mount_norm b @ ''/'')"
proof -
  consider "mount_norm a = c" | "mount_norm b = c"
    | "prefix (mount_norm a @ ''/'') c" "prefix (mount_norm b @ ''/'') c"
    using assms by (auto simp: owns_def)
  then show ?thesis
  proof cases
    case 3
    then consider "prefix (mount_norm a @ ''/'') (mount_norm b @ ''/'')"
      | "prefix (mount_norm b @ ''/'') (mount_norm a @ ''/'')"
      using prefix_same_cases by blast
    then show ?thesis by cases (auto simp: prefix_snoc)
  qed (use assms in \<open>auto simp: owns_def\<close>)
qed

definition at_most_one :: "('a \<Rightarrow> bool) \<Rightarrow> 'a set \<Rightarrow> bool" where
  "at_most_one P A = (\<forall>a \<in> A. \<forall>b \<in> A. P a \<longrightarrow> P b \<longrightarrow> a = b)"

lemma at_most_one_subset: "at_most_one P B \<Longrightarrow> A \<subseteq> B \<Longrightarrow> at_most_one P A"
  by (auto simp: at_most_one_def)

lemma at_most_oneD: "at_most_one P A \<Longrightarrow> a \<in> A \<Longrightarrow> b \<in> A \<Longrightarrow> P a \<Longrightarrow> P b \<Longrightarrow> a = b"
  by (auto simp: at_most_one_def)

lemma unique_owner:
  assumes "disjoint_mounts sources"
  shows "at_most_one (owns clean) (set sources)"
  unfolding at_most_one_def
proof (intro ballI impI)
  fix a b
  assume ab: "a \<in> set sources" "b \<in> set sources" "owns clean a" "owns clean b"
  then have m: "a \<in> set (declared_of sources)" "b \<in> set (declared_of sources)"
    by (auto simp: declared_of_def owns_def)
  then have "mount_norm a = mount_norm b"
    using owners_comparable [OF ab(3,4)] assms ab(3,4) by (auto simp: disjoint_mounts_def owns_def)
  then show "a = b" using m assms by (auto simp: disjoint_mounts_def distinct_map inj_on_def)
qed

lemma unique_root:
  assumes "disjoint_mounts sources"
  shows "at_most_one is_root (set sources)"
  using assms
  by (auto simp: at_most_one_def disjoint_mounts_def declared_of_def is_root_def distinct_map inj_on_def)

lemma route_loop_steps:
  assumes "at_most_one (owns clean) (set srcs \<union> set_option best)"
    and "at_most_one is_root (set srcs \<union> set_option root)"
    and "\<And>b. best = Some b \<Longrightarrow> owns clean b" and "\<And>b. root = Some b \<Longrightarrow> is_root b"
  shows "route_loop clean srcs (best, root, declared) =
    ((case best of Some b \<Rightarrow> Some b | None \<Rightarrow> find (owns clean) srcs),
     (case root of Some r \<Rightarrow> Some r | None \<Rightarrow> find is_root srcs),
     declared \<or> (\<exists>s \<in> set srcs. srcPath s \<noteq> None))"
  using assms
proof (induction srcs arbitrary: best root declared)
  case Nil
  then show ?case by (auto split: option.splits)
next
  case (Cons s srcs)
  have sub: "at_most_one (owns clean) (set srcs \<union> set_option best)"
    "at_most_one is_root (set srcs \<union> set_option root)"
    using Cons.prems(1,2) by (auto elim!: at_most_one_subset)
  consider (undeclared) "srcPath s = None" | (root) "is_root s" | (owner) "owns clean s"
    | (other) "srcPath s \<noteq> None" "mount_norm s \<noteq> []" "\<not> owns clean s"
    by (auto simp: owns_def is_root_def)
  then show ?case
  proof cases
    case undeclared
    then have "\<not> owns clean s" "\<not> is_root s" by (auto simp: owns_def is_root_def)
    then show ?thesis using Cons.IH [OF sub Cons.prems(3,4), of declared] undeclared
      by (auto split: option.splits)
  next
    case root
    have r: "root = None \<or> root = Some s"
    proof (cases root)
      case (Some x)
      then have "x = s"
        using root Cons.prems(4) [OF Some] by (intro at_most_oneD [OF Cons.prems(2)]) simp_all
      then show ?thesis using Some by simp
    qed simp
    have n: "\<not> owns clean s" "srcPath s \<noteq> None" using root by (auto simp: owns_def is_root_def)
    have "at_most_one is_root (set srcs \<union> set_option (Some s))"
      using Cons.prems(2) by (rule at_most_one_subset) auto
    from Cons.IH [OF sub(1) this Cons.prems(3), of True] root
    have "route_loop clean srcs (best, Some s, True) =
      ((case best of Some b \<Rightarrow> Some b | None \<Rightarrow> find (owns clean) srcs), Some s, True)" by simp
    moreover have "route_loop clean (s # srcs) (best, root, declared) =
        route_loop clean srcs (best, Some s, True)"
      using root by (auto simp: is_root_def Let_def)
    ultimately show ?thesis using root r n by (auto split: option.splits)
  next
    case owner
    have b: "best = None \<or> best = Some s"
    proof (cases best)
      case (Some x)
      then have "x = s"
        using owner Cons.prems(3) [OF Some] by (intro at_most_oneD [OF Cons.prems(1)]) simp_all
      then show ?thesis using Some by simp
    qed simp
    have n: "\<not> is_root s" "srcPath s \<noteq> None" using owner by (auto simp: owns_def is_root_def)
    have "at_most_one (owns clean) (set srcs \<union> set_option (Some s))"
      using Cons.prems(1) by (rule at_most_one_subset) auto
    from Cons.IH [OF this sub(2) _ Cons.prems(4), of True] owner
    have "route_loop clean srcs (Some s, root, True) =
      (Some s, (case root of Some r \<Rightarrow> Some r | None \<Rightarrow> find is_root srcs), True)" by simp
    moreover have "route_loop clean (s # srcs) (best, root, declared) =
        route_loop clean srcs (Some s, root, True)"
      using owner b by (auto simp: owns_def Let_def)
    ultimately show ?thesis using owner b n by (auto split: option.splits)
  next
    case other
    then have n: "\<not> is_root s" by (simp add: is_root_def)
    have "route_loop clean (s # srcs) (best, root, declared) =
        route_loop clean srcs (best, root, True)"
      using other by (auto simp: owns_def Let_def)
    with Cons.IH [OF sub Cons.prems(3,4), of True] other n show ?thesis by (auto split: option.splits)
  qed
qed

definition route_to :: "string \<Rightarrow> KnowledgeSetSource \<Rightarrow> MountRoute" where
  "route_to clean s = \<lparr>mrRepository = srcRepository s, mrPath = joinSubPath (srcSubPath s)
     (if mount_norm s = [] then clean
      else if clean \<noteq> mount_norm s then TrimPrefix clean (mount_norm s @ ''/'') else [])\<rparr>"

lemma RouteMount_find:
  assumes "disjoint_mounts sources"
  shows "RouteMount sources p =
    (let clean = NormalizeMountPath p in
     if clean = [] then fails ErrUsageInvalid
     else (case find (owns clean) sources of
        Some s \<Rightarrow> Inr (route_to clean s)
      | None \<Rightarrow> (case find is_root sources of
          Some s \<Rightarrow> Inr (route_to clean s) | None \<Rightarrow> fails ErrUsageInvalid)))"
proof -
  let ?c = "NormalizeMountPath p"
  have l: "route_loop ?c sources (None, None, False) =
      (find (owns ?c) sources, find is_root sources, (\<exists>s \<in> set sources. srcPath s \<noteq> None))"
    using route_loop_steps [of ?c sources None None False] unique_owner [OF assms]
      unique_root [OF assms] by simp
  have o: "find (owns ?c) sources = Some s \<Longrightarrow> owns ?c s \<and> s \<in> set sources" for s
    by (drule find_Some_mem2) simp
  have r: "find is_root sources = Some s \<Longrightarrow> is_root s \<and> s \<in> set sources" for s
    by (drule find_Some_mem2) simp
  show ?thesis
    using l o r
    by (auto simp: RouteMount_def Let_def route_to_def owns_def is_root_def split: option.splits)
qed

lemma find_unique_mset:
  assumes "mset xs = mset ys" and "at_most_one P (set xs)"
  shows "find P xs = find P ys"
proof -
  have s: "set xs = set ys" using assms(1) by (rule mset_eq_setD)
  show ?thesis
  proof (cases "find P xs")
    case None
    then have "find P ys = None" using s by (simp add: find_None_all)
    then show ?thesis using None by simp
  next
    case (Some a)
    then have a: "a \<in> set xs" "P a" by (auto dest: find_Some_mem2)
    then obtain b where b: "find P ys = Some b"
      using s find_None_all [of P ys] by (cases "find P ys") auto
    then have "b \<in> set xs" "P b" using s by (auto dest: find_Some_mem2)
    then show ?thesis using at_most_oneD [OF assms(2) a(1) _ a(2)] Some b by simp
  qed
qed

lemma disjoint_mounts_mset:
  assumes "mset xs = mset ys" and "disjoint_mounts xs"
  shows "disjoint_mounts ys"
proof -
  have m: "mset (map mount_norm (declared_of xs)) = mset (map mount_norm (declared_of ys))"
    using assms(1) by (simp add: declared_of_def)
  moreover have "set (declared_of xs) = set (declared_of ys)"
    using mset_eq_setD [OF assms(1)] by (simp add: declared_of_def)
  ultimately show ?thesis
    using assms(2) mset_eq_imp_distinct_iff [OF m] by (simp add: disjoint_mounts_def)
qed

lemma RouteMount_order:
  assumes "disjoint_mounts xs" and "mset xs = mset ys"
  shows "RouteMount ys p = RouteMount xs p"
proof -
  note d = disjoint_mounts_mset [OF assms(2,1)]
  have "find (owns c) ys = find (owns c) xs" "find is_root ys = find is_root xs" for c
    using find_unique_mset [OF assms(2)] unique_owner [OF assms(1)] unique_root [OF assms(1)]
    by metis+
  then show ?thesis by (simp add: RouteMount_find [OF d] RouteMount_find [OF assms(1)] Let_def split: option.splits)
qed

lemma RouteMount_owner:
  assumes "disjoint_mounts sources" and "s \<in> set sources"
    and "NormalizeMountPath p \<noteq> []" and "owns (NormalizeMountPath p) s"
  shows "RouteMount sources p = Inr (route_to (NormalizeMountPath p) s)"
proof -
  obtain x where x: "find (owns (NormalizeMountPath p)) sources = Some x"
    using assms(2,4) find_None_all [of "owns (NormalizeMountPath p)" sources]
    by (cases "find (owns (NormalizeMountPath p)) sources") auto
  then have "x \<in> set sources" "owns (NormalizeMountPath p) x" by (auto dest: find_Some_mem2)
  then have "x = s"
    using at_most_oneD [OF unique_owner [OF assms(1)]] assms(2,4) by blast
  then show ?thesis using RouteMount_find [OF assms(1)] assms(3) x by (simp add: Let_def)
qed

section \<open>Splitting an edit\<close>

lemma route_mounts_loop_ok:
  assumes "route_mounts_loop sources ps out = Inr out'"
  shows "\<exists>routes. collect (RouteMount sources) ps = Inr routes \<and>
    (\<forall>r. (case map_of out' r of None \<Rightarrow> [] | Some rs \<Rightarrow> rs) =
      (case map_of out r of None \<Rightarrow> [] | Some rs \<Rightarrow> rs) @ filter (\<lambda>x. mrRepository x = r) routes)"
  using assms
proof (induction sources ps out rule: route_mounts_loop.induct)
  case (1 sources out)
  then show ?case by simp
next
  case (2 sources p rest out)
  from "2.prems" obtain route where r: "RouteMount sources p = Inr route"
    by (auto simp: rbind_Inr_iff)
  let ?out = "AList.update (mrRepository route)
      ((case map_of out (mrRepository route) of None \<Rightarrow> [] | Some rs \<Rightarrow> rs) @ [route]) out"
  from "2.prems" r have "route_mounts_loop sources rest ?out = Inr out'" by simp
  from "2.IH" [OF this] obtain routes where c: "collect (RouteMount sources) rest = Inr routes"
    and f: "\<And>r. (case map_of out' r of None \<Rightarrow> [] | Some rs \<Rightarrow> rs) =
      (case map_of ?out r of None \<Rightarrow> [] | Some rs \<Rightarrow> rs) @ filter (\<lambda>x. mrRepository x = r) routes"
    by blast
  have "collect (RouteMount sources) (p # rest) = Inr (route # routes)" using r c by simp
  moreover have "(case map_of out' q of None \<Rightarrow> [] | Some rs \<Rightarrow> rs) =
      (case map_of out q of None \<Rightarrow> [] | Some rs \<Rightarrow> rs) @
      filter (\<lambda>x. mrRepository x = q) (route # routes)" for q
    by (subst f) (simp add: map_simps)
  ultimately show ?case by blast
qed

section \<open>Properties\<close>

text \<open>C12. One path, one owner: in a list of sources that passed admission every workspace path that
  some mount claims is routed to that mount, whatever the order in which the sources are listed;
  no other mount claims it, and the root mount only receives what no other mount claims.\<close>

theorem mount_owner_is_unique:
  assumes "validateMountPaths sources = Inr ()" and "mset listed = mset sources"
    and "s \<in> set sources" and "NormalizeMountPath p \<noteq> []" and "owns (NormalizeMountPath p) s"
  shows "RouteMount listed p = Inr (route_to (NormalizeMountPath p) s) \<and>
    filter (owns (NormalizeMountPath p)) sources = [s]"
proof -
  note d = validateMountPaths_disjoint [OF assms(1)]
  have "RouteMount listed p = RouteMount sources p"
    using RouteMount_order [OF d] assms(2) by metis
  moreover have "RouteMount sources p = Inr (route_to (NormalizeMountPath p) s)"
    by (rule RouteMount_owner [OF d assms(3-5)])
  moreover have "filter (owns (NormalizeMountPath p)) sources = [s]"
  proof -
    let ?f = "filter (owns (NormalizeMountPath p)) sources"
    have "distinct (map mount_norm ?f)"
    proof -
      have "?f = filter (owns (NormalizeMountPath p)) (declared_of sources)"
        unfolding declared_of_def filter_filter by (rule filter_cong) (auto simp: owns_def)
      then show ?thesis using d by (simp add: disjoint_mounts_def distinct_map_filter)
    qed
    then have "distinct ?f" by (simp add: distinct_map)
    moreover have "set ?f = {s}"
      using assms(3,5) at_most_oneD [OF unique_owner [OF d]] by auto
    ultimately show ?thesis
      by (metis distinct_card card.empty card_insert_disjoint empty_iff finite.emptyI length_0_conv
          length_Suc_conv list.set(1) list.set_intros(1) set_empty singletonD)
  qed
  ultimately show ?thesis by simp
qed

theorem mount_owner_is_unique_witness:
  "\<exists>a b. RouteMount [a, b] ''refs/semantic/x.md'' =
    Inr \<lparr>mrRepository = ''kr://a/sem'', mrPath = ''docs/x.md''\<rparr> \<and> a \<noteq> b"
proof -
  let ?a = "\<lparr>srcRepository = ''kr://a/main'', srcSelector = ''main'', srcPath = Some [], srcSubPath = [],
     srcCommit = [], srcBaseRev = [], srcFile = [], srcTarget = []\<rparr>"
  let ?b = "\<lparr>srcRepository = ''kr://a/sem'', srcSelector = ''main'', srcPath = Some ''refs/semantic/'',
     srcSubPath = ''docs'', srcCommit = [], srcBaseRev = [], srcFile = [], srcTarget = []\<rparr>"
  have "validateMountPaths [?b, ?a] = Inr ()" by code_simp
  moreover have "NormalizeMountPath ''refs/semantic/x.md'' \<noteq> []" "owns (NormalizeMountPath ''refs/semantic/x.md'') ?b"
    by code_simp+
  moreover have "mset [?a, ?b] = mset [?b, ?a]" "?b \<in> set [?b, ?a]" by simp_all
  moreover have "route_to (NormalizeMountPath ''refs/semantic/x.md'') ?b =
      \<lparr>mrRepository = ''kr://a/sem'', mrPath = ''docs/x.md''\<rparr>" by code_simp
  ultimately have "RouteMount [?a, ?b] ''refs/semantic/x.md'' =
      Inr \<lparr>mrRepository = ''kr://a/sem'', mrPath = ''docs/x.md''\<rparr>"
    using mount_owner_is_unique [of "[?b, ?a]" "[?a, ?b]" ?b "''refs/semantic/x.md''"] by simp
  then show ?thesis by (intro exI [of _ ?a] exI [of _ ?b]) simp
qed

text \<open>Splitting an edit loses nothing: when \<open>RouteMounts\<close> succeeds every path was routed, and the
  batch of a repository is exactly the routes into that repository, in the order of the edit; when
  it fails, it does so with the error of a path that has no route.\<close>

theorem edit_split_is_partition:
  "(case RouteMounts sources paths of
      Inl e \<Rightarrow> collect (RouteMount sources) paths = Inl e \<and>
        list_ex (\<lambda>p. RouteMount sources p = Inl e) paths
    | Inr batches \<Rightarrow> \<exists>routes. collect (RouteMount sources) paths = Inr routes \<and>
        (\<forall>r. (case map_of batches r of None \<Rightarrow> [] | Some rs \<Rightarrow> rs) =
              filter (\<lambda>x. mrRepository x = r) routes))"
proof -
  have err: "route_mounts_loop sources ps out = Inl e \<longleftrightarrow> collect (RouteMount sources) ps = Inl e" for ps out e
    by (induction sources ps out rule: route_mounts_loop.induct)
      (auto simp: rbind_Inl_iff rbind_Inr_iff)
  have ex: "collect (RouteMount sources) ps = Inl e \<Longrightarrow> list_ex (\<lambda>p. RouteMount sources p = Inl e) ps" for ps e
    by (induction ps) (auto simp: rbind_Inl_iff)
  show ?thesis
  proof (cases "RouteMounts sources paths")
    case (Inl e)
    then have "collect (RouteMount sources) paths = Inl e" by (simp add: RouteMounts_def err)
    then show ?thesis using Inl ex by simp
  next
    case (Inr batches)
    from route_mounts_loop_ok [OF Inr [unfolded RouteMounts_def]] obtain routes where
      "collect (RouteMount sources) paths = Inr routes"
      "\<forall>r. (case map_of batches r of None \<Rightarrow> [] | Some rs \<Rightarrow> rs) = filter (\<lambda>x. mrRepository x = r) routes"
      by auto
    then show ?thesis using Inr by auto
  qed
qed

text \<open>A path that normalises lexically to the root, written with a parent step, is not the root mount
  for the code: it becomes the mount named by a dot, which owns nothing.\<close>

lemma root_alias_is_not_root:
  "NormalizeMountPath ''a/..'' = ''.'' \<and> NormalizeMountPath ''.'' = []"
  by code_simp

end
