(* ===== verification/SnapshotStore.thy ===== *)
theory SnapshotStore
  imports Kernel
begin

text \<open>
  Layer 0, \<open>src/snapshot/store.go\<close> and \<open>event.go\<close>: the \<open>Store\<close> contract of a snapshot authority
  (refs, commits, fast-forward merge, archive) and the registry of opened stores.  The locale
  \<open>snapshot_store\<close> states what upper layers rely on and derives the facts they use: refs never
  dangle, a stale writer loses, an archived store is closed.
\<close>

section \<open>The Store interface\<close>

record 's snapshot_ops =
  stID :: "'s \<Rightarrow> string"
  stHead :: "string \<Rightarrow> 's \<Rightarrow> string go"
  stGetRef :: "string \<Rightarrow> 's \<Rightarrow> string option"
  stHasCommit :: "string \<Rightarrow> 's \<Rightarrow> bool"
  stCreateRef :: "string \<Rightarrow> string \<Rightarrow> 's \<Rightarrow> unit go \<times> 's"
  stMerge :: "string \<Rightarrow> string \<Rightarrow> string \<Rightarrow> 's \<Rightarrow> string go \<times> 's"
  stArchived :: "'s \<Rightarrow> bool"
  stArchive :: "'s \<Rightarrow> unit go \<times> 's"

record TreeChange =
  tcPath :: string
  tcContent :: string
  tcRemove :: bool

record TreeChangeSet =
  tcsTargetRepository :: string
  tcsTargetRef :: string
  tcsBaseCommit :: string
  tcsExpectedTargetCommit :: string
  tcsChanges :: "TreeChange list"
  tcsMessage :: string
  tcsAuthor :: string
  tcsRequestID :: string
  tcsRuleID :: string

record DirectoryRequest =
  drCommit :: string
  drDirectory :: string
  drLimit :: int
  drContinuation :: string

record DirectoryEntry =
  deName :: string
  deKind :: string

record DirectoryPage =
  dpEntries :: "DirectoryEntry list"
  dpContinuation :: string
  dpExhausted :: bool
  dpGeneration :: string

definition DefaultRef :: string where "DefaultRef = ''refs/heads/main''"

definition RefOrDefault :: "string \<Rightarrow> string" where
  "RefOrDefault ref = (if ref = [] then DefaultRef else ref)"

record SnapshotReceiptResult =
  rrRepositoryID :: string
  rrCommitID :: string
  rrTargetRef :: string
  rrOldCommit :: string
  rrNewCommit :: string

record SnapshotReceipt =
  rcReceiptRef :: string
  rcCommandID :: string
  rcSurface :: string
  rcDisposition :: string
  rcResult :: SnapshotReceiptResult

definition ReceiptApplied :: string where "ReceiptApplied = ''APPLIED''"
definition ReceiptReplayed :: string where "ReceiptReplayed = ''REPLAYED''"

section \<open>What upper layers rely on\<close>

text \<open>\<open>tips\<close> is the ref table of a store state, \<open>descends a c\<close> holds when \<open>a\<close> is reached from \<open>c\<close>
  by first parents.\<close>

locale snapshot_store =
  fixes ops :: "'s snapshot_ops"
    and inv :: "'s \<Rightarrow> bool"
    and norm :: "string \<Rightarrow> string"
    and tips :: "'s \<Rightarrow> string \<Rightarrow> string option"
    and descends :: "'s \<Rightarrow> string \<Rightarrow> string \<Rightarrow> bool"
  assumes get_ref: "stGetRef ops ref s = tips s (norm ref)"
    and head: "stHead ops ref s = (case tips s (norm ref) of None \<Rightarrow> fails ErrVersionUnresolved | Some c \<Rightarrow> Inr c)"
    and tips_exist: "inv s \<Longrightarrow> tips s r = Some c \<Longrightarrow> stHasCommit ops c s"
    and create_error: "stCreateRef ops ref c s = (Inl e, s') \<Longrightarrow> s' = s"
    and create_ok: "stCreateRef ops ref c s = (Inr u, s') \<Longrightarrow>
      \<not> stArchived ops s \<and> tips s (norm ref) = None \<and> stHasCommit ops c s \<and>
      tips s' = (tips s)(norm ref \<mapsto> c)"
    and merge_error: "stMerge ops ref cand expected s = (Inl e, s') \<Longrightarrow> s' = s"
    and merge_ok: "inv s \<Longrightarrow> stMerge ops ref cand expected s = (Inr c, s') \<Longrightarrow>
      c = cand \<and> \<not> stArchived ops s \<and> tips s (norm ref) = Some expected \<and>
      stHasCommit ops cand s \<and> descends s expected cand \<and> tips s' = (tips s)(norm ref \<mapsto> cand)"
    and create_inv: "inv s \<Longrightarrow> inv (snd (stCreateRef ops ref c s))"
    and merge_inv: "inv s \<Longrightarrow> inv (snd (stMerge ops ref cand expected s))"
    and archive: "stArchive ops s = (Inr u, s') \<Longrightarrow> stArchived ops s' \<and> tips s' = tips s"
begin

lemma merge_moves_only_target:
  assumes "inv s" and "stMerge ops ref cand expected s = (r, s')" and "q \<noteq> norm ref"
  shows "tips s' q = tips s q"
  using assms merge_ok [OF assms(1)] merge_error by (cases r) fastforce+

lemma stale_merge_fails:
  assumes "inv s" and "tips s (norm ref) \<noteq> Some expected"
  shows "\<exists>e. stMerge ops ref cand expected s = (Inl e, s)"
proof (cases "stMerge ops ref cand expected s")
  case (Pair r s')
  then show ?thesis
    using assms merge_ok [OF assms(1)] merge_error by (cases r) fastforce+
qed

text \<open>Two writers that read the same tip: once the first one moved the ref, the second one is
  refused and the store keeps the first result.\<close>

lemma no_lost_update:
  assumes "inv s" and "stMerge ops ref c1 expected s = (Inr t, s1)" and "c1 \<noteq> expected"
  shows "\<exists>e. stMerge ops ref c2 expected s1 = (Inl e, s1)"
proof -
  have "tips s1 (norm ref) = Some c1" using merge_ok [OF assms(1,2)] by simp
  moreover have "inv s1" using merge_inv [OF assms(1), of ref c1 expected] assms(2) by simp
  ultimately show ?thesis using assms(3) stale_merge_fails by simp
qed

lemma archived_closed:
  assumes "inv s" and "stArchived ops s"
  shows "(\<exists>e. stMerge ops ref cand expected s = (Inl e, s)) \<and>
    (\<exists>e. stCreateRef ops ref c s = (Inl e, s))"
proof
  obtain r s' where m: "stMerge ops ref cand expected s = (r, s')" by fastforce
  then show "\<exists>e. stMerge ops ref cand expected s = (Inl e, s)"
    using assms merge_ok [OF assms(1)] merge_error by (cases r) fastforce+
next
  obtain r s' where m: "stCreateRef ops ref c s = (r, s')" by fastforce
  then show "\<exists>e. stCreateRef ops ref c s = (Inl e, s)"
    using assms create_ok create_error by (cases r) fastforce+
qed

end

section \<open>The registry of opened stores\<close>

text \<open>A registry over any type of store values; \<open>sid\<close> reads the id of a store.\<close>

record 'st Advanced =
  adStore :: "'st option"
  adFrom :: string
  adTo :: string

record ('st, 'w) Registry =
  rgStores :: "(string, 'st) gomap"
  rgOnAdvanced :: "('st Advanced \<Rightarrow> 'w \<Rightarrow> 'w) list"
  rgWrap :: "('st \<Rightarrow> 'st) option"

definition NewRegistry :: "('st, 'w) Registry" where
  "NewRegistry = \<lparr>rgStores = [], rgOnAdvanced = [], rgWrap = None\<rparr>"

definition Registry_SetWrap :: "('st \<Rightarrow> 'st) option \<Rightarrow> ('st, 'w) Registry \<Rightarrow> ('st, 'w) Registry" where
  "Registry_SetWrap fn r =
    (case fn of
      None \<Rightarrow> r\<lparr>rgWrap := None\<rparr>
    | Some f \<Rightarrow> r\<lparr>rgWrap := Some f, rgStores := map (\<lambda>(k, st). (k, f st)) (rgStores r)\<rparr>)"

definition Registry_Add :: "('st \<Rightarrow> string) \<Rightarrow> 'st \<Rightarrow> ('st, 'w) Registry \<Rightarrow>
    unit go \<times> ('st, 'w) Registry" where
  "Registry_Add sid st r =
    (if map_of (rgStores r) (sid st) \<noteq> None then (fails ErrPreconditionFailed, r)
     else (let st' = (case rgWrap r of None \<Rightarrow> st | Some f \<Rightarrow> f st) in
           (Inr (), r\<lparr>rgStores := AList.update (sid st') st' (rgStores r)\<rparr>)))"

definition Registry_Get :: "string \<Rightarrow> ('st, 'w) Registry \<Rightarrow> 'st option" where
  "Registry_Get k r = map_of (rgStores r) k"

definition Registry_Delete :: "string \<Rightarrow> ('st, 'w) Registry \<Rightarrow> ('st, 'w) Registry" where
  "Registry_Delete k r = r\<lparr>rgStores := AList.delete k (rgStores r)\<rparr>"

definition Registry_Require :: "string \<Rightarrow> error_code \<Rightarrow> ('st, 'w) Registry \<Rightarrow> 'st go" where
  "Registry_Require k code r =
    (case Registry_Get k r of Some st \<Rightarrow> Inr st | None \<Rightarrow> fails code)"

definition Registry_IDs :: "('st, 'w) Registry \<Rightarrow> string list" where
  "Registry_IDs r = map fst (rgStores r)"

definition Registry_Close :: "('st \<Rightarrow> go_error option) \<Rightarrow> ('st, 'w) Registry \<Rightarrow>
    go_error option \<times> ('st, 'w) Registry" where
  "Registry_Close close r =
    (foldl (\<lambda>first (_, st). case first of Some e \<Rightarrow> Some e | None \<Rightarrow> close st) None (rgStores r),
     r\<lparr>rgStores := []\<rparr>)"

definition OnAdvanced :: "('st Advanced \<Rightarrow> 'w \<Rightarrow> 'w) option \<Rightarrow> ('st, 'w) Registry \<Rightarrow> ('st, 'w) Registry" where
  "OnAdvanced fn r =
    (case fn of None \<Rightarrow> r | Some f \<Rightarrow> r\<lparr>rgOnAdvanced := rgOnAdvanced r @ [f]\<rparr>)"

text \<open>A callback acts on the state \<open>w\<close> of its subscriber; the callbacks run in the order of
  subscription.\<close>

definition NotifyAdvanced :: "('st, 'w) Registry \<Rightarrow> 'st Advanced \<Rightarrow> 'w \<Rightarrow> 'w" where
  "NotifyAdvanced r event w =
    (if adStore event = None then w else foldl (\<lambda>w fn. fn event w) w (rgOnAdvanced r))"

lemma Registry_Add_Get:
  fixes r :: "('st, 'w) Registry"
  assumes "Registry_Add sid st r = (Inr u, r')"
    and "\<And>f. rgWrap r = Some f \<Longrightarrow> sid (f st) = sid st"
  shows "Registry_Get (sid st) r' = Some (case rgWrap r of None \<Rightarrow> st | Some f \<Rightarrow> f st)"
    and "k \<noteq> sid st \<Longrightarrow> Registry_Get k r' = Registry_Get k r"
  using assms
  by (auto simp: Registry_Add_def Registry_Get_def Let_def map_simps split: if_splits option.splits)

end
