(* ===== verification/MemoryStore.thy ===== *)
theory MemoryStore
  imports SnapshotStore Go_Paths
begin

text \<open>
  The in-repository snapshot authority, \<open>src/internal/testkit/memory_store.go\<close>: refs, commits with a
  parent and a file table, compare-and-swap tree commits, fast-forward merges, directory pages,
  history and changed paths.  The digest that names a commit is the parameter \<open>commit_id\<close> (SHA-256
  of the canonical JSON of repository, parent, sequence and changes).  The theory ends with the
  interpretation of \<open>snapshot_store\<close> on this model.
\<close>

section \<open>State\<close>

record memoryCommit =
  mcParent :: string
  mcFiles :: "(string, string) gomap"

record memoryStore =
  msID :: string
  msRefs :: "(string, string) gomap"
  msCommits :: "(string, memoryCommit) gomap"
  msArchived :: bool
  msSequence :: nat

definition newMemoryStore :: "(string \<Rightarrow> string) \<Rightarrow> string \<Rightarrow> memoryStore" where
  "newMemoryStore root_id rid =
    (let root = root_id rid in
     \<lparr>msID = rid, msRefs = [(DefaultRef, root)],
      msCommits = [(root, \<lparr>mcParent = [], mcFiles = []\<rparr>)], msArchived = False, msSequence = 0\<rparr>)"

definition memoryRef :: "string \<Rightarrow> string" where
  "memoryRef ref = (if ref = ''HEAD'' then DefaultRef else RefOrDefault ref)"

section \<open>Refs\<close>

definition ms_Head :: "string \<Rightarrow> memoryStore \<Rightarrow> string go" where
  "ms_Head ref s =
    (case map_of (msRefs s) (memoryRef ref) of
      None \<Rightarrow> fails ErrVersionUnresolved | Some commit \<Rightarrow> Inr commit)"

definition ms_GetRef :: "string \<Rightarrow> memoryStore \<Rightarrow> string option" where
  "ms_GetRef ref s = map_of (msRefs s) (memoryRef ref)"

definition ms_HasCommit :: "string \<Rightarrow> memoryStore \<Rightarrow> bool" where
  "ms_HasCommit commit s = (map_of (msCommits s) commit \<noteq> None)"

definition ms_CreateRef :: "string \<Rightarrow> string \<Rightarrow> memoryStore \<Rightarrow> unit go \<times> memoryStore" where
  "ms_CreateRef ref0 commit s =
    (if msArchived s then (fails ErrRepositoryArchived, s)
     else if map_of (msCommits s) commit = None then (fails ErrVersionUnresolved, s)
     else (let ref = memoryRef ref0 in
       if map_of (msRefs s) ref \<noteq> None then (fails ErrPreconditionFailed, s)
       else (Inr (), s\<lparr>msRefs := AList.update ref commit (msRefs s)\<rparr>)))"

text \<open>A map read of an absent key gives the zero value.\<close>

definition parent_of :: "(string, memoryCommit) gomap \<Rightarrow> string \<Rightarrow> string" where
  "parent_of commits c = (case map_of commits c of None \<Rightarrow> [] | Some m \<Rightarrow> mcParent m)"

definition ref_or_empty :: "memoryStore \<Rightarrow> string \<Rightarrow> string" where
  "ref_or_empty s ref = (case map_of (msRefs s) ref of None \<Rightarrow> [] | Some c \<Rightarrow> c)"

text \<open>The loop of \<open>ancestorLocked\<close> with fuel; on the stores the operations build, one step more
  than there are commits is enough (\<open>ancestor_walk_enough\<close>).\<close>

fun ancestor_walk :: "nat \<Rightarrow> (string, memoryCommit) gomap \<Rightarrow> string \<Rightarrow> string \<Rightarrow> bool option" where
  "ancestor_walk 0 commits ancestor current = None"
| "ancestor_walk (Suc n) commits ancestor current =
    (if current = [] then Some False
     else if current = ancestor then Some True
     else ancestor_walk n commits ancestor (parent_of commits current))"

definition ancestorLocked :: "memoryStore \<Rightarrow> string \<Rightarrow> string \<Rightarrow> bool" where
  "ancestorLocked s ancestor commit =
    (ancestor_walk (length (msCommits s) + 2) (msCommits s) ancestor commit = Some True)"

definition ms_Merge :: "string \<Rightarrow> string \<Rightarrow> string \<Rightarrow> memoryStore \<Rightarrow> string go \<times> memoryStore" where
  "ms_Merge ref0 candidate expected s =
    (if msArchived s then (fails ErrRepositoryArchived, s)
     else (let ref = memoryRef ref0 in
       if ref_or_empty s ref \<noteq> expected then (fails ErrNonFastForward, s)
       else if map_of (msCommits s) candidate = None then (fails ErrVersionUnresolved, s)
       else if \<not> ancestorLocked s expected candidate then (fails ErrNonFastForward, s)
       else (Inr candidate, s\<lparr>msRefs := AList.update ref candidate (msRefs s)\<rparr>)))"

definition ms_Archive :: "memoryStore \<Rightarrow> unit go \<times> memoryStore" where
  "ms_Archive s = (Inr (), s\<lparr>msArchived := True\<rparr>)"

section \<open>Trees\<close>

definition ms_ReadFile :: "string \<Rightarrow> string \<Rightarrow> memoryStore \<Rightarrow> string go" where
  "ms_ReadFile name commit s =
    (case map_of (msCommits s) commit of
      None \<Rightarrow> fails ErrVersionUnresolved
    | Some state \<Rightarrow>
        (case map_of (mcFiles state) name of
          None \<Rightarrow> fails ErrKnowledgeRefUnresolved | Some raw \<Rightarrow> Inr raw))"

definition ms_ListFiles :: "string \<Rightarrow> memoryStore \<Rightarrow> string list go" where
  "ms_ListFiles commit s =
    (case map_of (msCommits s) commit of
      None \<Rightarrow> fails ErrVersionUnresolved
    | Some state \<Rightarrow> Inr (sort (map fst (mcFiles state))))"

definition tree_path_denied :: "string \<Rightarrow> bool" where
  "tree_path_denied p = (p = [] \<or> IsAbs p \<or> HasPrefix (Clean p) ''../'')"

fun apply_changes :: "TreeChange list \<Rightarrow> (string, string) gomap \<Rightarrow> (string, string) gomap go" where
  "apply_changes [] files = Inr files"
| "apply_changes (item # rest) files =
    (if tree_path_denied (tcPath item) then fails ErrUsageInvalid
     else if tcRemove item then apply_changes rest (AList.delete (tcPath item) files)
     else apply_changes rest (AList.update (tcPath item) (tcContent item) files))"

definition ms_ApplyTreeCommit ::
    "(string \<Rightarrow> string \<Rightarrow> nat \<Rightarrow> TreeChange list \<Rightarrow> string) \<Rightarrow> TreeChangeSet \<Rightarrow> memoryStore \<Rightarrow>
     string go \<times> memoryStore" where
  "ms_ApplyTreeCommit commit_id change s =
    (if msArchived s then (fails ErrRepositoryArchived, s)
     else if tcsTargetRepository change \<noteq> msID s then (fails ErrTargetRepositoryDenied, s)
     else (let ref = memoryRef (tcsTargetRef change) in
       case map_of (msRefs s) ref of
         None \<Rightarrow> (fails ErrNonFastForward, s)
       | Some current \<Rightarrow>
           if current \<noteq> tcsExpectedTargetCommit change \<or>
              tcsBaseCommit change \<noteq> tcsExpectedTargetCommit change
           then (fails ErrNonFastForward, s)
           else (case map_of (msCommits s) (tcsBaseCommit change) of
             None \<Rightarrow> (fails ErrVersionUnresolved, s)
           | Some base \<Rightarrow>
               (case apply_changes (tcsChanges change) (mcFiles base) of
                 Inl e \<Rightarrow> (Inl e, s)
               | Inr files \<Rightarrow>
                   (let sequence = msSequence s + 1;
                        commit = commit_id (msID s) current sequence (tcsChanges change) in
                    (Inr commit,
                     s\<lparr>msSequence := sequence,
                       msCommits := AList.update commit \<lparr>mcParent = current, mcFiles = files\<rparr>
                                      (msCommits s),
                       msRefs := AList.update ref commit (msRefs s)\<rparr>))))))"

definition ms_ApplyTreeCommitBulk ::
    "(string \<Rightarrow> string \<Rightarrow> nat \<Rightarrow> TreeChange list \<Rightarrow> string) \<Rightarrow> TreeChangeSet \<Rightarrow> memoryStore \<Rightarrow>
     string go \<times> memoryStore" where
  "ms_ApplyTreeCommitBulk commit_id change s = ms_ApplyTreeCommit commit_id change s"

section \<open>Directory pages\<close>

fun directory_kinds :: "string \<Rightarrow> string list \<Rightarrow> (string, string) gomap \<Rightarrow> (string, string) gomap" where
  "directory_kinds pre [] kinds = kinds"
| "directory_kinds pre (name # rest) kinds =
    (if \<not> HasPrefix name pre then directory_kinds pre rest kinds
     else (let parts = Split slash (TrimPrefix name pre) in
       if length parts = 1 then directory_kinds pre rest (AList.update (hd parts) ''file'' kinds)
       else directory_kinds pre rest (AList.update (hd parts) ''directory'' kinds)))"

definition page_start :: "string list \<Rightarrow> string \<Rightarrow> nat" where
  "page_start names continuation =
    (let start = length (takeWhile (\<lambda>n. n < continuation) names) in
     if start < length names \<and> names ! start = continuation then start + 1 else start)"

definition page_limit :: "int \<Rightarrow> nat" where
  "page_limit limit = (if limit \<le> 0 \<or> 1000 < limit then 100 else nat limit)"

definition directory_page :: "string \<Rightarrow> string list \<Rightarrow> (string, string) gomap \<Rightarrow> int \<Rightarrow> string \<Rightarrow>
    DirectoryPage" where
  "directory_page commit names kinds limit continuation =
    (let start = page_start names continuation;
         stop = min (start + page_limit limit) (length names) in
     \<lparr>dpEntries = map (\<lambda>name. \<lparr>deName = name,
        deKind = (case map_of kinds name of None \<Rightarrow> [] | Some k \<Rightarrow> k)\<rparr>) (drop start (take stop names)),
      dpContinuation = (if stop = length names then [] else names ! (stop - 1)),
      dpExhausted = (stop = length names), dpGeneration = commit\<rparr>)"

definition ms_ReadDirectory :: "DirectoryRequest \<Rightarrow> memoryStore \<Rightarrow> DirectoryPage go" where
  "ms_ReadDirectory request s =
    rbind (ms_ListFiles (drCommit request) s) (\<lambda>files.
      let directory = trim_slashes (TrimSpace (drDirectory request));
          pre = (if directory \<noteq> [] then directory @ ''/'' else []);
          kinds = directory_kinds pre files [];
          names = sort (map fst kinds) in
      Inr (directory_page (drCommit request) names kinds (drLimit request) (drContinuation request)))"

section \<open>History\<close>

fun history_walk :: "nat \<Rightarrow> (string, memoryCommit) gomap \<Rightarrow> string \<Rightarrow> string list" where
  "history_walk 0 commits current = []"
| "history_walk (Suc n) commits current =
    (if current = [] then [] else current # history_walk n commits (parent_of commits current))"

definition ms_CommitHistory :: "string \<Rightarrow> int \<Rightarrow> memoryStore \<Rightarrow> string list go" where
  "ms_CommitHistory commit limit s =
    (if map_of (msCommits s) commit = None then fails ErrVersionUnresolved
     else Inr (history_walk (if limit \<le> 0 then 50 else nat limit) (msCommits s) commit))"

definition ms_ChangedPaths :: "string \<Rightarrow> string \<Rightarrow> memoryStore \<Rightarrow> string list go" where
  "ms_ChangedPaths from_c to_c s =
    (case (map_of (msCommits s) from_c, map_of (msCommits s) to_c) of
      (Some left, Some right) \<Rightarrow>
        (let changed = filter (\<lambda>(name, content). map_of (mcFiles right) name \<noteq> Some content) (mcFiles left);
             added = filter (\<lambda>(name, _). map_of (mcFiles left) name = None) (mcFiles right) in
         Inr (sort (dedup (map fst changed @ map fst added))))
    | _ \<Rightarrow> fails ErrVersionUnresolved)"

definition memory_ops :: "memoryStore snapshot_ops" where
  "memory_ops = \<lparr>stID = msID, stHead = ms_Head, stGetRef = ms_GetRef, stHasCommit = ms_HasCommit,
     stCreateRef = ms_CreateRef, stMerge = ms_Merge, stArchived = msArchived, stArchive = ms_Archive\<rparr>"

section \<open>Well-formed stores\<close>

text \<open>Commits are listed in the order of creation: every parent is an earlier commit, so the
  parent chain of every commit ends.\<close>

definition wf_commits :: "(string, memoryCommit) gomap \<Rightarrow> bool" where
  "wf_commits xs =
    (distinct (map fst xs) \<and>
     (\<forall>i < length xs. fst (xs ! i) \<noteq> [] \<and>
        (mcParent (snd (xs ! i)) = [] \<or> (\<exists>j < i. fst (xs ! j) = mcParent (snd (xs ! i))))))"

definition ms_ok :: "memoryStore \<Rightarrow> bool" where
  "ms_ok s =
    (wf_commits (msCommits s) \<and>
     (\<forall>r c. map_of (msRefs s) r = Some c \<longrightarrow> map_of (msCommits s) c \<noteq> None))"

inductive descends :: "(string, memoryCommit) gomap \<Rightarrow> string \<Rightarrow> string \<Rightarrow> bool"
  for commits :: "(string, memoryCommit) gomap" where
  self: "c \<noteq> [] \<Longrightarrow> descends commits c c"
| parent: "c \<noteq> [] \<Longrightarrow> descends commits a (parent_of commits c) \<Longrightarrow> descends commits a c"

lemma AList_update_new: "map_of m k = None \<Longrightarrow> AList.update k v m = m @ [(k, v)]"
  by (induction m) (auto split: if_splits)

lemma ancestor_walk_mono:
  "ancestor_walk n commits a c = Some b \<Longrightarrow> n \<le> m \<Longrightarrow> ancestor_walk m commits a c = Some b"
proof (induction n arbitrary: c m)
  case (Suc n)
  then obtain k where "m = Suc k" "n \<le> k" by (cases m) auto
  then show ?case using Suc by (auto split: if_splits)
qed simp

lemma ancestor_walk_descends:
  "ancestor_walk n commits a c = Some b \<Longrightarrow> b = descends commits a c"
proof (induction n arbitrary: c)
  case (Suc n)
  show ?case
  proof (cases "c = [] \<or> c = a")
    case True
    then show ?thesis using Suc.prems
      by (auto intro: descends.self elim: descends.cases split: if_splits)
  next
    case False
    then have "b = descends commits a (parent_of commits c)" using Suc by simp
    then show ?thesis using False by (auto intro: descends.parent elim: descends.cases)
  qed
qed simp

declare ancestor_walk.simps [simp del]

lemma wf_parent:
  assumes "wf_commits xs" and "i < length xs"
  shows "parent_of xs (fst (xs ! i)) = [] \<or> (\<exists>j < i. fst (xs ! j) = parent_of xs (fst (xs ! i)))"
proof -
  have "map_of xs (fst (xs ! i)) = Some (snd (xs ! i))"
    using assms by (intro map_of_is_SomeI) (auto simp: wf_commits_def)
  then have "parent_of xs (fst (xs ! i)) = mcParent (snd (xs ! i))" by (simp add: parent_of_def)
  then show ?thesis using assms by (simp add: wf_commits_def)
qed

lemma ancestor_walk_index:
  assumes "wf_commits xs" and "i < length xs"
  shows "ancestor_walk (i + 2) xs a (fst (xs ! i)) \<noteq> None"
  using assms(2)
proof (induction i rule: less_induct)
  case (less i)
  consider "parent_of xs (fst (xs ! i)) = []"
    | j where "j < i" "fst (xs ! j) = parent_of xs (fst (xs ! i))"
    using wf_parent [OF assms(1) less.prems] by blast
  then show ?case
  proof cases
    case 2
    then have "ancestor_walk (j + 2) xs a (fst (xs ! j)) \<noteq> None"
      using less.IH [of j] less.prems by simp
    then obtain b where "ancestor_walk (j + 2) xs a (fst (xs ! j)) = Some b" by blast
    then have "ancestor_walk (i + 1) xs a (parent_of xs (fst (xs ! i))) = Some b"
      using 2 ancestor_walk_mono [of "j + 2" xs a "fst (xs ! j)" b "i + 1"] by simp
    then show ?thesis unfolding add_2_eq_Suc' ancestor_walk.simps(2) [of "Suc i"] by auto
  next
    case 1
    then show ?thesis by (auto simp: numeral_2_eq_2 ancestor_walk.simps)
  qed
qed

lemma ancestor_walk_enough:
  assumes "wf_commits xs" and "map_of xs c \<noteq> None"
  shows "ancestor_walk (length xs + 2) xs a c \<noteq> None"
proof -
  obtain i where i: "i < length xs" "fst (xs ! i) = c"
    using assms(2) by (metis in_set_conv_nth map_of_eq_None_iff image_iff)
  then obtain b where "ancestor_walk (i + 2) xs a c = Some b"
    using ancestor_walk_index [OF assms(1) i(1), of a] by auto
  then show ?thesis using ancestor_walk_mono [of "i + 2" xs a c b "length xs + 2"] i(1) by simp
qed

lemma ancestorLocked_iff:
  assumes "wf_commits (msCommits s)" and "map_of (msCommits s) c \<noteq> None"
  shows "ancestorLocked s a c \<longleftrightarrow> descends (msCommits s) a c"
proof -
  obtain b where "ancestor_walk (length (msCommits s) + 2) (msCommits s) a c = Some b"
    using ancestor_walk_enough [OF assms] by blast
  moreover from ancestor_walk_descends [OF this] have "b = descends (msCommits s) a c" .
  ultimately show ?thesis by (simp add: ancestorLocked_def)
qed

lemma descends_nonempty: "descends commits a c \<Longrightarrow> a \<noteq> []"
  by (induction rule: descends.induct)

lemma wf_commits_append:
  assumes "wf_commits xs" and "map_of xs k = None" and "k \<noteq> []"
    and "mcParent m = [] \<or> map_of xs (mcParent m) \<noteq> None"
  shows "wf_commits (xs @ [(k, m)])"
proof -
  have "mcParent m = [] \<or> (\<exists>j < length xs. fst (xs ! j) = mcParent m)"
    using assms(4) by (metis in_set_conv_nth map_of_eq_None_iff image_iff)
  moreover have "k \<notin> fst ` set xs" using assms(2) by (simp add: map_of_eq_None_iff)
  ultimately show ?thesis
    using assms(1,3) by (fastforce simp: wf_commits_def nth_append less_Suc_eq)
qed

section \<open>The operations keep the store well formed\<close>

lemma ms_ok_new: "root_id rid \<noteq> [] \<Longrightarrow> ms_ok (newMemoryStore root_id rid)"
  by (auto simp: ms_ok_def newMemoryStore_def wf_commits_def Let_def split: if_splits)

lemma ms_ok_create: "ms_ok s \<Longrightarrow> ms_ok (snd (ms_CreateRef ref c s))"
  by (auto simp: ms_CreateRef_def ms_ok_def Let_def map_simps)

lemma ms_ok_merge: "ms_ok s \<Longrightarrow> ms_ok (snd (ms_Merge ref cand expected s))"
  by (auto simp: ms_Merge_def ms_ok_def Let_def map_simps)

lemma ms_ok_archive: "ms_ok s \<Longrightarrow> ms_ok (snd (ms_Archive s))"
  by (simp add: ms_Archive_def ms_ok_def)

lemma ms_Apply_cases:
  assumes "ms_ApplyTreeCommit commit_id change s = (Inr c, s')"
  obtains current base files where
    "\<not> msArchived s" "tcsTargetRepository change = msID s"
    "map_of (msRefs s) (memoryRef (tcsTargetRef change)) = Some current"
    "current = tcsExpectedTargetCommit change" "tcsBaseCommit change = current"
    "map_of (msCommits s) current = Some base"
    "apply_changes (tcsChanges change) (mcFiles base) = Inr files"
    "c = commit_id (msID s) current (msSequence s + 1) (tcsChanges change)"
    "s' = s\<lparr>msSequence := msSequence s + 1,
       msCommits := AList.update c \<lparr>mcParent = current, mcFiles = files\<rparr> (msCommits s),
       msRefs := AList.update (memoryRef (tcsTargetRef change)) c (msRefs s)\<rparr>"
  using assms
  by (auto simp: ms_ApplyTreeCommit_def Let_def split: if_splits option.splits sum.splits)

lemma ms_Apply_error: "ms_ApplyTreeCommit commit_id change s = (Inl e, s') \<Longrightarrow> s' = s"
  by (auto simp: ms_ApplyTreeCommit_def Let_def split: if_splits option.splits sum.splits)

lemma ms_ok_apply:
  assumes "ms_ok s" and "ms_ApplyTreeCommit commit_id change s = (Inr c, s')"
    and "map_of (msCommits s) c = None" and "c \<noteq> []"
  shows "ms_ok s'"
  using assms(2)
proof (rule ms_Apply_cases)
  fix current base files
  assume *: "map_of (msCommits s) current = Some base"
    "s' = s\<lparr>msSequence := msSequence s + 1,
       msCommits := AList.update c \<lparr>mcParent = current, mcFiles = files\<rparr> (msCommits s),
       msRefs := AList.update (memoryRef (tcsTargetRef change)) c (msRefs s)\<rparr>"
  have "wf_commits (msCommits s @ [(c, \<lparr>mcParent = current, mcFiles = files\<rparr>)])"
    using assms(1,3,4) * by (intro wf_commits_append) (auto simp: ms_ok_def)
  then show "ms_ok s'"
    using assms(1,3) * by (auto simp: ms_ok_def AList_update_new map_simps)
qed

interpretation memory: snapshot_store memory_ops ms_ok memoryRef "\<lambda>s. map_of (msRefs s)"
  "\<lambda>s. descends (msCommits s)"
proof (unfold_locales, goal_cases)
  case (3 s r c)
  then show ?case by (auto simp: memory_ops_def ms_ok_def ms_HasCommit_def)
next
  case (7 s ref cand expected c s')
  then have "ms_Merge ref cand expected s = (Inr c, s')" by (simp add: memory_ops_def)
  then have m: "\<not> msArchived s" "ref_or_empty s (memoryRef ref) = expected" "c = cand"
      "map_of (msCommits s) cand \<noteq> None" "ancestorLocked s expected cand"
      "s' = s\<lparr>msRefs := AList.update (memoryRef ref) cand (msRefs s)\<rparr>"
    by (auto simp: ms_Merge_def Let_def split: if_splits)
  have d: "descends (msCommits s) expected cand"
    using 7(1) m ancestorLocked_iff by (simp add: ms_ok_def)
  then have "map_of (msRefs s) (memoryRef ref) = Some expected"
    using m(2) descends_nonempty by (auto simp: ref_or_empty_def split: option.splits)
  then show ?case using m d by (simp add: memory_ops_def ms_HasCommit_def map_simps)
next
  case (8 s ref c)
  then show ?case by (simp add: memory_ops_def ms_ok_create)
next
  case (9 s ref cand expected)
  then show ?case by (simp add: memory_ops_def ms_ok_merge)
qed (auto simp: memory_ops_def ms_GetRef_def ms_Head_def ms_CreateRef_def ms_HasCommit_def
      ms_Merge_def ms_Archive_def Let_def map_simps split: if_splits option.splits)

section \<open>Histories of a store\<close>

definition collision_free ::
    "(string \<Rightarrow> string) \<Rightarrow> (string \<Rightarrow> string \<Rightarrow> nat \<Rightarrow> TreeChange list \<Rightarrow> string) \<Rightarrow> bool" where
  "collision_free root_id commit_id =
    (\<forall>r p n ch. root_id r \<noteq> [] \<and> commit_id r p n ch \<noteq> [] \<and> commit_id r p n ch \<noteq> root_id r \<and>
      (\<forall>p' n' ch'. commit_id r p n ch = commit_id r p' n' ch' \<longrightarrow> n = n'))"

inductive ms_step :: "(string \<Rightarrow> string \<Rightarrow> nat \<Rightarrow> TreeChange list \<Rightarrow> string) \<Rightarrow>
    memoryStore \<Rightarrow> memoryStore \<Rightarrow> bool"
  for commit_id :: "string \<Rightarrow> string \<Rightarrow> nat \<Rightarrow> TreeChange list \<Rightarrow> string" where
  create_ref: "ms_CreateRef ref c s = (r, s') \<Longrightarrow> ms_step commit_id s s'"
| merge: "ms_Merge ref cand expected s = (r, s') \<Longrightarrow> ms_step commit_id s s'"
| archive: "ms_Archive s = (r, s') \<Longrightarrow> ms_step commit_id s s'"
| commit_tree: "ms_ApplyTreeCommit commit_id change s = (r, s') \<Longrightarrow> ms_step commit_id s s'"

inductive_cases ms_stepE: "ms_step commit_id s s'"

definition ms_reachable :: "(string \<Rightarrow> string) \<Rightarrow> (string \<Rightarrow> string \<Rightarrow> nat \<Rightarrow> TreeChange list \<Rightarrow> string) \<Rightarrow>
    memoryStore \<Rightarrow> bool" where
  "ms_reachable root_id commit_id s = (\<exists>rid. (ms_step commit_id)\<^sup>*\<^sup>* (newMemoryStore root_id rid) s)"

definition numbered :: "(string \<Rightarrow> string) \<Rightarrow> (string \<Rightarrow> string \<Rightarrow> nat \<Rightarrow> TreeChange list \<Rightarrow> string) \<Rightarrow>
    memoryStore \<Rightarrow> bool" where
  "numbered root_id commit_id s =
    (\<forall>c. map_of (msCommits s) c \<noteq> None \<longrightarrow>
      c = root_id (msID s) \<or> (\<exists>p n ch. n \<le> msSequence s \<and> c = commit_id (msID s) p n ch))"

lemma ms_simple_steps:
  "ms_CreateRef ref c s = (r, s') \<Longrightarrow> msCommits s' = msCommits s \<and> msID s' = msID s \<and> msSequence s' = msSequence s"
  "ms_Merge ref cand expected s = (r2, s') \<Longrightarrow> msCommits s' = msCommits s \<and> msID s' = msID s \<and> msSequence s' = msSequence s"
  "ms_Archive s = (r, s') \<Longrightarrow> msCommits s' = msCommits s \<and> msID s' = msID s \<and> msSequence s' = msSequence s"
  by (auto simp: ms_CreateRef_def ms_Merge_def ms_Archive_def Let_def split: if_splits)

lemma fresh_commit:
  assumes "collision_free root_id commit_id" and "numbered root_id commit_id s"
  shows "map_of (msCommits s) (commit_id (msID s) p (msSequence s + 1) ch) = None"
proof (rule ccontr)
  let ?c = "commit_id (msID s) p (msSequence s + 1) ch"
  assume "map_of (msCommits s) ?c \<noteq> None"
  then consider "?c = root_id (msID s)"
    | p' n ch' where "n \<le> msSequence s" "?c = commit_id (msID s) p' n ch'"
    using assms(2) unfolding numbered_def by blast
  then show False
  proof cases
    case 2
    then have "msSequence s + 1 = n" using assms(1) unfolding collision_free_def by blast
    with 2 show False by simp
  qed (use assms(1) in \<open>auto simp: collision_free_def\<close>)
qed

lemma ms_apply_step:
  assumes free: "collision_free root_id commit_id" and num: "numbered root_id commit_id s"
    and ok: "ms_ok s" and a: "ms_ApplyTreeCommit commit_id change s = (r, s')"
  shows "ms_ok s' \<and> numbered root_id commit_id s' \<and>
    (\<forall>c m. map_of (msCommits s) c = Some m \<longrightarrow> map_of (msCommits s') c = Some m)"
proof (cases r)
  case (Inl e)
  then show ?thesis using ms_Apply_error a ok num by blast
next
  case (Inr c)
  from a [unfolded Inr] show ?thesis
  proof (rule ms_Apply_cases)
    fix current base files
    assume *: "c = commit_id (msID s) current (msSequence s + 1) (tcsChanges change)"
      "s' = s\<lparr>msSequence := msSequence s + 1,
       msCommits := AList.update c \<lparr>mcParent = current, mcFiles = files\<rparr> (msCommits s),
       msRefs := AList.update (memoryRef (tcsTargetRef change)) c (msRefs s)\<rparr>"
    have new: "map_of (msCommits s) c = None" using fresh_commit [OF free num] * by simp
    have "c \<noteq> []" using free * by (simp add: collision_free_def)
    then have "ms_ok s'" using ms_ok_apply [OF ok a [unfolded Inr] new] by simp
    moreover have "numbered root_id commit_id s'"
      using num * unfolding numbered_def by (auto simp: map_simps) (metis le_Suc_eq)+
    ultimately show ?thesis using new * by (auto simp: map_simps)
  qed
qed

lemma ms_step_keeps:
  assumes "collision_free root_id commit_id" and "ms_step commit_id s s'"
    and "ms_ok s" and "numbered root_id commit_id s"
  shows "ms_ok s' \<and> numbered root_id commit_id s' \<and>
    (\<forall>c m. map_of (msCommits s) c = Some m \<longrightarrow> map_of (msCommits s') c = Some m)"
  using assms(2)
proof cases
  case (create_ref ref c r)
  then show ?thesis using assms ms_ok_create [OF assms(3), of ref c] ms_simple_steps(1)
    by (auto simp: numbered_def)
next
  case (merge ref cand expected r)
  then show ?thesis using assms ms_ok_merge [OF assms(3), of ref cand expected] ms_simple_steps(2)
    by (auto simp: numbered_def)
next
  case (archive r)
  then show ?thesis using assms ms_ok_archive [OF assms(3)] ms_simple_steps(3)
    by (auto simp: numbered_def)
next
  case (commit_tree change r)
  then show ?thesis using ms_apply_step assms by blast
qed

lemma ms_steps_keep:
  assumes "(ms_step commit_id)\<^sup>*\<^sup>* s s'" and "collision_free root_id commit_id"
    and "ms_ok s" and "numbered root_id commit_id s"
  shows "ms_ok s' \<and> numbered root_id commit_id s' \<and>
    (\<forall>c m. map_of (msCommits s) c = Some m \<longrightarrow> map_of (msCommits s') c = Some m)"
  using assms(1)
proof (induction rule: rtranclp_induct)
  case base
  then show ?case using assms by simp
next
  case (step t u)
  then show ?case using ms_step_keeps [OF assms(2) step.hyps(2)] by blast
qed

lemma reachable_ok:
  assumes "collision_free root_id commit_id" and "ms_reachable root_id commit_id s"
  shows "ms_ok s" "numbered root_id commit_id s"
proof -
  obtain rid where r: "(ms_step commit_id)\<^sup>*\<^sup>* (newMemoryStore root_id rid) s"
    using assms(2) by (auto simp: ms_reachable_def)
  have "root_id rid \<noteq> []" using assms(1) by (simp add: collision_free_def)
  then have "ms_ok (newMemoryStore root_id rid)" by (rule ms_ok_new)
  moreover have "numbered root_id commit_id (newMemoryStore root_id rid)"
    by (simp add: numbered_def newMemoryStore_def Let_def)
  ultimately show "ms_ok s" "numbered root_id commit_id s"
    using ms_steps_keep [OF r assms(1)] by auto
qed

section \<open>Directory pages\<close>

lemma drop_while_less:
  assumes "sorted_wrt (<) (names :: string list)"
  shows "drop (page_start names c) names = filter (\<lambda>n. c < n) names"
  using assms
proof (induction names)
  case (Cons n names)
  consider "n < c" | "n = c" | "c < n" by fastforce
  then show ?case
  proof cases
    case 1
    have "page_start (n # names) c = Suc (page_start names c)"
      using 1 by (simp add: page_start_def Let_def)
    then show ?thesis using Cons 1 by simp
  next
    case 2
    then have "filter (\<lambda>m. c < m) names = names"
      using Cons.prems by (auto intro: filter_True)
    then show ?thesis using 2 by (simp add: page_start_def Let_def)
  next
    case 3
    then have "filter (\<lambda>m. c < m) names = names"
      using Cons.prems by (auto intro: filter_True less_trans)
    moreover have "\<not> n < c" "n \<noteq> c" using 3 by auto
    ultimately show ?thesis using 3 by (simp add: page_start_def Let_def)
  qed
qed (simp add: page_start_def)

lemma page_limit_pos: "0 < page_limit limit"
  by (simp add: page_limit_def)

lemma page_start_le: "page_start names c \<le> length names"
  using length_takeWhile_le [of "\<lambda>n. n < c" names] by (auto simp: page_start_def Let_def)

lemma page_names:
  assumes "sorted_wrt (<) names"
  shows "map deName (dpEntries (directory_page commit names kinds limit c)) =
    take (page_limit limit) (filter (\<lambda>n. c < n) names)"
proof -
  have "drop s (take (min (s + l) (length names)) names) = take l (drop s names)" for s l
    by (simp add: drop_take min_def)
  then show ?thesis
    using drop_while_less [OF assms] by (simp add: directory_page_def Let_def comp_def)
qed

lemma page_exhausted:
  assumes "sorted_wrt (<) names"
  shows "dpExhausted (directory_page commit names kinds limit c) \<longleftrightarrow>
    length (filter (\<lambda>n. c < n) names) \<le> page_limit limit"
  using page_start_le [of names c] drop_while_less [OF assms, of c, symmetric]
  by (auto simp: directory_page_def Let_def min_def)

lemma page_continuation:
  assumes "sorted_wrt (<) names"
    and "\<not> dpExhausted (directory_page commit names kinds limit c)"
  shows "filter (\<lambda>n. dpContinuation (directory_page commit names kinds limit c) < n) names =
    drop (page_limit limit) (filter (\<lambda>n. c < n) names)"
proof -
  let ?l = "page_limit limit" and ?s = "page_start names c"
  let ?k = "?s + ?l"
  have short: "?k < length names"
    using assms(2) page_start_le [of names c]
    by (auto simp: directory_page_def Let_def min_def split: if_splits)
  then have cont: "dpContinuation (directory_page commit names kinds limit c) = names ! (?k - 1)"
    by (simp add: directory_page_def Let_def min_def)
  have k: "?k - 1 < length names" "Suc (?k - 1) = ?k" using short page_limit_pos [of limit] by auto
  have "takeWhile (\<lambda>n. n < names ! (?k - 1)) names = take (?k - 1) names"
    using assms(1) k by (intro takeWhile_eq_take_P_nth) (auto simp: sorted_wrt_iff_nth_less)
  then have "page_start names (names ! (?k - 1)) = ?k"
    using k by (simp add: page_start_def Let_def min_def)
  then have "drop ?k names = filter (\<lambda>n. names ! (?k - 1) < n) names"
    using drop_while_less [OF assms(1), of "names ! (?k - 1)"] by simp
  then show ?thesis
    using drop_while_less [OF assms(1), of c, symmetric] by (simp add: cont add.commute)
qed

text \<open>A client that follows the continuation of every page until the listing is exhausted; \<open>None\<close>
  when the fuel runs out.\<close>

fun all_pages :: "nat \<Rightarrow> DirectoryRequest \<Rightarrow> memoryStore \<Rightarrow> DirectoryEntry list option" where
  "all_pages 0 request s = None"
| "all_pages (Suc n) request s =
    (case ms_ReadDirectory request s of
      Inl _ \<Rightarrow> None
    | Inr page \<Rightarrow>
        if dpExhausted page then Some (dpEntries page)
        else map_option (\<lambda>rest. dpEntries page @ rest)
               (all_pages n (request\<lparr>drContinuation := dpContinuation page\<rparr>) s))"

definition dir_prefix :: "string \<Rightarrow> string" where
  "dir_prefix d = (let directory = trim_slashes (TrimSpace d) in
     if directory \<noteq> [] then directory @ ''/'' else [])"

definition dir_children :: "string \<Rightarrow> string list \<Rightarrow> string set" where
  "dir_children d files =
    {hd (Split slash (TrimPrefix name (dir_prefix d))) | name. name \<in> set files \<and> HasPrefix name (dir_prefix d)}"

lemma directory_kinds_keys:
  "fst ` set (directory_kinds pre files kinds) =
    fst ` set kinds \<union> {hd (Split slash (TrimPrefix name pre)) | name. name \<in> set files \<and> HasPrefix name pre}"
  by (induction pre files kinds rule: directory_kinds.induct)
    (auto simp: Let_def dom_map_of_conv_image_fst [symmetric] map_simps)

lemma directory_kinds_distinct:
  "distinct (map fst kinds) \<Longrightarrow> distinct (map fst (directory_kinds pre files kinds))"
  by (induction pre files kinds rule: directory_kinds.induct) (auto simp: Let_def distinct_update)

definition dir_names :: "string \<Rightarrow> string list \<Rightarrow> string list" where
  "dir_names d files = sort (map fst (directory_kinds (dir_prefix d) files []))"

lemma dir_names_sorted: "sorted_wrt (<) (dir_names d files)"
  unfolding dir_names_def strict_sorted_iff using directory_kinds_distinct [of "[]"] by simp

lemma Nil_less: "[] < n \<longleftrightarrow> n \<noteq> ([] :: string)"
  by (cases n) auto

lemma dir_names_children:
  "filter (\<lambda>n. [] < n) (dir_names d files) = sorted_list_of_set (dir_children d files - {[]})"
proof -
  have "set (dir_names d files) = dir_children d files"
    unfolding dir_names_def dir_children_def using directory_kinds_keys [of "dir_prefix d" files "[]"]
    by simp
  moreover have "filter (\<lambda>n. [] < n) (dir_names d files) = filter (\<lambda>n. n \<noteq> []) (dir_names d files)"
    by (rule filter_cong) (simp_all add: Nil_less)
  moreover have "sorted_list_of_set (set (filter (\<lambda>n. n \<noteq> []) (dir_names d files))) =
      filter (\<lambda>n. n \<noteq> []) (dir_names d files)"
    using dir_names_sorted [of d files]
    by (intro sorted_list_of_set.idem_if_sorted_distinct) (auto simp: strict_sorted_iff sorted_wrt_filter sorted_filter [of id, simplified])
  ultimately show ?thesis by (simp add: set_diff_eq)
qed

lemma ReadDirectory_page:
  assumes "ms_ListFiles (drCommit request) s = Inr files"
  shows "ms_ReadDirectory request s = Inr (directory_page (drCommit request)
    (dir_names (drDirectory request) files) (directory_kinds (dir_prefix (drDirectory request)) files [])
    (drLimit request) (drContinuation request))"
  using assms by (simp add: ms_ReadDirectory_def dir_names_def dir_prefix_def Let_def)

lemma all_pages_names:
  assumes "ms_ListFiles (drCommit request) s = Inr files"
    and "length (filter (\<lambda>n. drContinuation request < n) (dir_names (drDirectory request) files)) < fuel"
  shows "map_option (map deName) (all_pages fuel request s) =
    Some (filter (\<lambda>n. drContinuation request < n) (dir_names (drDirectory request) files))"
  using assms
proof (induction fuel arbitrary: request)
  case (Suc n)
  let ?names = "dir_names (drDirectory request) files"
  let ?kinds = "directory_kinds (dir_prefix (drDirectory request)) files []"
  let ?page = "directory_page (drCommit request) ?names ?kinds (drLimit request) (drContinuation request)"
  let ?rest = "filter (\<lambda>n. drContinuation request < n) ?names" and ?l = "page_limit (drLimit request)"
  note sorted = dir_names_sorted [of "drDirectory request" files]
  note read = ReadDirectory_page [OF Suc.prems(1)]
  note names = page_names [OF sorted, of "drCommit request" ?kinds "drLimit request" "drContinuation request"]
  show ?case
  proof (cases "dpExhausted ?page")
    case True
    then show ?thesis using names page_exhausted [OF sorted] by (simp add: read)
  next
    case False
    let ?next = "request\<lparr>drContinuation := dpContinuation ?page\<rparr>"
    note cont = page_continuation [OF sorted False]
    have "length (drop ?l ?rest) < n"
      using Suc.prems(2) page_limit_pos [of "drLimit request"] False page_exhausted [OF sorted]
      by auto
    then have "map_option (map deName) (all_pages n ?next s) = Some (drop ?l ?rest)"
      using Suc.IH [of ?next] Suc.prems(1) cont by simp
    then show ?thesis
      using names False by (auto simp: read map_option_case split: option.splits)
  qed
qed simp

text \<open>A concrete store for the witnesses: one tree commit on a new store.\<close>

definition demo_root :: "string \<Rightarrow> string" where "demo_root r = ''root''"

definition demo_id :: "string \<Rightarrow> string \<Rightarrow> nat \<Rightarrow> TreeChange list \<Rightarrow> string" where
  "demo_id r p n ch = ''c'' @ replicate n CHR ''x''"

definition demo_change :: TreeChangeSet where
  "demo_change = \<lparr>tcsTargetRepository = ''kr://a/b'', tcsTargetRef = [], tcsBaseCommit = ''root'',
     tcsExpectedTargetCommit = ''root'',
     tcsChanges = [\<lparr>tcPath = ''docs/a.md'', tcContent = ''A'', tcRemove = False\<rparr>,
                   \<lparr>tcPath = ''docs/sub/b.md'', tcContent = ''B'', tcRemove = False\<rparr>],
     tcsMessage = [], tcsAuthor = [], tcsRequestID = [], tcsRuleID = []\<rparr>"

definition demo_one :: memoryStore where
  "demo_one = snd (ms_ApplyTreeCommit demo_id demo_change (newMemoryStore demo_root ''kr://a/b''))"

definition demo_dev :: memoryStore where
  "demo_dev = snd (ms_CreateRef ''dev'' ''root'' demo_one)"

lemma demo_free: "collision_free demo_root demo_id"
  by (simp add: collision_free_def demo_root_def demo_id_def)

lemma demo_one_reachable: "ms_reachable demo_root demo_id demo_one"
  unfolding ms_reachable_def demo_one_def
  by (rule exI [of _ "''kr://a/b''"], rule r_into_rtranclp, rule ms_step.commit_tree, rule surjective_pairing)

lemma demo_dev_step: "ms_step demo_id demo_one demo_dev"
  unfolding demo_dev_def by (rule ms_step.create_ref, rule surjective_pairing)

lemma demo_dev_reachable: "ms_reachable demo_root demo_id demo_dev"
  using demo_one_reachable demo_dev_step unfolding ms_reachable_def by (meson rtranclp.rtrancl_into_rtrancl)

lemma demo_dev_merges:
  "ms_Merge ''dev'' ''cx'' ''root'' demo_dev = (Inr ''cx'', demo_dev\<lparr>msRefs := [(DefaultRef, ''cx''), (''dev'', ''cx'')]\<rparr>)"
  "\<not> ok (fst (ms_Merge ''HEAD'' ''cx'' ''root'' demo_dev))"
  by code_simp+

section \<open>Properties\<close>



text \<open>C10. A merge is a fast-forward: on every store built by the operations it succeeds exactly when
  the store is open, the ref still points to the expected commit, the candidate exists and the
  expected commit is among its first-parent ancestors; it then moves this ref alone.  In
  particular the loop over the parents always ends.\<close>

theorem merge_is_fast_forward:
  assumes "collision_free root_id commit_id" and "ms_reachable root_id commit_id s"
  shows "(ok (fst (ms_Merge ref cand expected s)) \<longleftrightarrow>
      \<not> msArchived s \<and> ms_GetRef ref s = Some expected \<and> ms_HasCommit cand s \<and>
      descends (msCommits s) expected cand) \<and>
    (ok (fst (ms_Merge ref cand expected s)) \<longrightarrow>
      map_of (msRefs (snd (ms_Merge ref cand expected s))) = (map_of (msRefs s))(memoryRef ref \<mapsto> cand))"
proof -
  have wf: "wf_commits (msCommits s)" using reachable_ok(1) [OF assms] by (simp add: ms_ok_def)
  have anc: "map_of (msCommits s) cand \<noteq> None \<Longrightarrow>
      ancestorLocked s expected cand = descends (msCommits s) expected cand"
    by (rule ancestorLocked_iff [OF wf])
  have tip: "descends (msCommits s) expected cand \<Longrightarrow>
      (ref_or_empty s (memoryRef ref) = expected) = (ms_GetRef ref s = Some expected)"
    using descends_nonempty by (auto simp: ref_or_empty_def ms_GetRef_def split: option.splits)
  show ?thesis
    using anc tip by (auto simp: ms_Merge_def Let_def ms_HasCommit_def map_simps)
qed

theorem merge_is_fast_forward_witness:
  "ok (fst (ms_Merge ''HEAD'' ''cx'' ''root'' demo_dev)) = False \<and>
   ok (fst (ms_Merge ''dev'' ''cx'' ''root'' demo_dev)) \<and>
   descends (msCommits demo_dev) ''root'' ''cx''"
  using merge_is_fast_forward [OF demo_free demo_dev_reachable, of "''dev''" "''cx''" "''root''"]
    merge_is_fast_forward [OF demo_free demo_dev_reachable, of "''HEAD''" "''cx''" "''root''"]
    demo_dev_merges by simp



text \<open>Directory pages lose and repeat nothing: a client that follows the continuations reads the
  non-empty child names of the directory, in order and each once, whatever the page limit; as many
  pages as there are children, and one more, are enough.\<close>

theorem directory_pages_complete:
  assumes "ms_ListFiles (drCommit request) s = Inr files" and "drContinuation request = []"
    and "card (dir_children (drDirectory request) files) < fuel"
  shows "map_option (map deName) (all_pages fuel request s) =
    Some (sorted_list_of_set (dir_children (drDirectory request) files - {[]}))"
proof -
  have "finite (dir_children (drDirectory request) files)"
    unfolding dir_children_def by simp
  then have "length (filter (\<lambda>n. [] < n) (dir_names (drDirectory request) files)) < fuel"
    unfolding dir_names_children using assms(3)
    using card_mono [of "dir_children (drDirectory request) files"
        "dir_children (drDirectory request) files - {[]}"] by auto
  with all_pages_names [OF assms(1)] assms(2) show ?thesis by (simp add: dir_names_children)
qed

theorem directory_pages_complete_witness:
  "map_option (map deName) (all_pages 3 \<lparr>drCommit = ''cx'', drDirectory = ''docs'', drLimit = 1,
      drContinuation = []\<rparr> demo_one) = Some [''a.md'', ''sub'']"
proof -
  have l: "ms_ListFiles ''cx'' demo_one = Inr [''docs/a.md'', ''docs/sub/b.md'']" by code_simp
  have d: "dir_children ''docs'' [''docs/a.md'', ''docs/sub/b.md''] = {''a.md'', ''sub''}"
  proof -
    have "set (map fst (directory_kinds (dir_prefix ''docs'') [''docs/a.md'', ''docs/sub/b.md''] []))
      = {''a.md'', ''sub''}" by code_simp
    then show ?thesis
      using directory_kinds_keys [of "dir_prefix ''docs''" "[''docs/a.md'', ''docs/sub/b.md'']" "[]"]
      by (simp add: dir_children_def)
  qed
  have "sorted_list_of_set {''a.md'', ''sub''} = [''a.md'', ''sub'']" by code_simp
  with directory_pages_complete [of "\<lparr>drCommit = ''cx'', drDirectory = ''docs'', drLimit = 1,
      drContinuation = []\<rparr>" demo_one, simplified, OF l, of 3] d
  show ?thesis by simp
qed

end
