(* ===== verification/DatasetDef.thy ===== *)
theory DatasetDef
  imports Mounts MemoryStore
begin

text \<open>
  Dataset definitions (\<open>src/snapshot/dataset/definition.go\<close>, \<open>definition_validation.go\<close> and
  \<open>dataset.go\<close>): the coordinates of the sources of a knowledge set, freezing them to commits, the
  delivered file list and the paths it grants.  The opened repositories are a registry of store
  values (\<open>SnapshotStore.Registry\<close>) with the operations of the \<open>Store\<close> interface.
\<close>

section \<open>Data\<close>

definition DatasetItemPrefix :: string where "DatasetItemPrefix = ''prefix''"
definition DatasetItemFile :: string where "DatasetItemFile = ''file''"

record DatasetItem =
  itTarget :: string
  itRepository :: string
  itCommit :: string
  itKind :: string
  itPrefix :: string
  itFile :: string

record KnowledgeSet =
  setID :: string
  setRevision :: int
  setSources :: "KnowledgeSetSource list"
  setItems :: "DatasetItem list"
  setRetired :: bool

definition normalizeMemberSubPath :: "string \<Rightarrow> string" where
  "normalizeMemberSubPath value = NormalizeMountPath value"

section \<open>Source coordinates\<close>

definition subpaths_overlap :: "string \<Rightarrow> string \<Rightarrow> bool" where
  "subpaths_overlap a b =
    (a = b \<or> a = [] \<or> b = [] \<or> HasPrefix a (b @ ''/'') \<or> HasPrefix b (a @ ''/''))"

definition check_prior :: "KnowledgeSetSource \<Rightarrow> KnowledgeSetSource \<Rightarrow> unit go" where
  "check_prior src prior =
    (if srcSelector src \<noteq> srcSelector prior \<or> srcBaseRev src \<noteq> srcBaseRev prior \<or>
        srcCommit src \<noteq> srcCommit prior then fails ErrKnowledgeSetInvalid
     else if IsFileEntry src \<or> IsFileEntry prior then Inr ()
     else if srcPath src = None \<or> srcPath prior = None then fails ErrKnowledgeSetInvalid
     else if subpaths_overlap (normalizeMemberSubPath (srcSubPath src))
               (normalizeMemberSubPath (srcSubPath prior)) then fails ErrKnowledgeSetInvalid
     else Inr ())"

text \<open>\<open>before\<close> holds the sources already accepted, in order; the priors of a source are those of
  its repository.\<close>

fun coordinates_loop :: "KnowledgeSetSource list \<Rightarrow> KnowledgeSetSource list \<Rightarrow> unit go" where
  "coordinates_loop before [] = Inr ()"
| "coordinates_loop before (src # rest) =
    rbind (each_ok (check_prior src) (filter (\<lambda>p. srcRepository p = srcRepository src) before)) (\<lambda>_.
      coordinates_loop (before @ [src]) rest)"

definition validateSourceCoordinates :: "KnowledgeSetSource list \<Rightarrow> unit go" where
  "validateSourceCoordinates sources = coordinates_loop [] sources"

definition ValidateKnowledgeSet :: "KnowledgeSet \<Rightarrow> unit go" where
  "ValidateKnowledgeSet def =
    (if setRetired def then fails ErrKnowledgeSetInvalid
     else if length (setSources def) = 0 then fails ErrKnowledgeSetInvalid
     else rbind (each_ok (\<lambda>source.
         if TrimSpace (srcRepository source) = [] \<or> TrimSpace (srcSelector source) = []
         then fails ErrKnowledgeSetInvalid else Inr ()) (setSources def)) (\<lambda>_.
       rbind (validateMountPaths (setSources def)) (\<lambda>_.
         validateSourceCoordinates (setSources def))))"

section \<open>Freezing selectors\<close>

fun freeze_loop :: "'st snapshot_ops \<Rightarrow> ('st, 'w) Registry option \<Rightarrow> (string, string) gomap \<Rightarrow>
    KnowledgeSetSource list \<Rightarrow> KnowledgeSetSource list go" where
  "freeze_loop ops store commits [] = Inr []"
| "freeze_loop ops store commits (src # rest) =
    (case map_of commits (srcRepository src) of
      Some existing \<Rightarrow>
        rbind (freeze_loop ops store commits rest) (\<lambda>more. Inr (src\<lparr>srcCommit := existing\<rparr> # more))
    | None \<Rightarrow>
        (case store of
          None \<Rightarrow> fails ErrKnowledgeSetInvalid
        | Some reg \<Rightarrow>
            (case Registry_Get (srcRepository src) reg of
              None \<Rightarrow> fails ErrKnowledgeSetInvalid
            | Some repo \<Rightarrow>
                if srcCommit src \<noteq> []
                then (if \<not> stHasCommit ops (srcCommit src) repo then fails ErrVersionUnresolved
                      else rbind (freeze_loop ops store
                                    (AList.update (srcRepository src) (srcCommit src) commits) rest)
                             (\<lambda>more. Inr (src # more)))
                else (case stGetRef ops (srcSelector src) repo of
                  None \<Rightarrow> fails ErrKnowledgeSetInvalid
                | Some commit \<Rightarrow>
                    if srcBaseRev src \<noteq> [] \<and> commit \<noteq> srcBaseRev src then fails ErrNonFastForward
                    else rbind (freeze_loop ops store
                                  (AList.update (srcRepository src) commit commits) rest)
                           (\<lambda>more. Inr (src\<lparr>srcCommit := commit\<rparr> # more))))))"

definition freezeSources :: "'st snapshot_ops \<Rightarrow> ('st, 'w) Registry option \<Rightarrow>
    KnowledgeSetSource list \<Rightarrow> KnowledgeSetSource list go" where
  "freezeSources ops store sources = freeze_loop ops store [] sources"

section \<open>The delivered file list\<close>

definition datasetItemFromSource :: "KnowledgeSetSource \<Rightarrow> (string, string) gomap \<Rightarrow> DatasetItem go" where
  "datasetItemFromSource src commits =
    (let commit = (case map_of commits (srcRepository src) of Some c \<Rightarrow> c | None \<Rightarrow> srcCommit src) in
     if commit = [] then fails ErrKnowledgeSetInvalid
     else if IsFileEntry src
     then rbind (validateRelativeTreePath (srcFile src) False) (\<lambda>_.
          rbind (validateRelativeTreePath (srcTarget src) False) (\<lambda>_.
            let file = normalizeMemberSubPath (srcFile src);
                target = NormalizeMountPath (srcTarget src) in
            if file = [] \<or> target = [] then fails ErrKnowledgeSetInvalid
            else Inr \<lparr>itTarget = target, itRepository = srcRepository src, itCommit = commit,
                      itKind = DatasetItemFile, itPrefix = [], itFile = file\<rparr>))
     else (let pre = normalizeMemberSubPath (srcSubPath src);
               target = (case srcPath src of
                 Some p \<Rightarrow> NormalizeMountPath p
               | None \<Rightarrow> if pre \<noteq> [] then srcRepository src @ ''/'' @ pre else srcRepository src) in
           Inr \<lparr>itTarget = target, itRepository = srcRepository src, itCommit = commit,
                itKind = DatasetItemPrefix, itPrefix = pre, itFile = []\<rparr>))"

definition targets_conflict :: "DatasetItem \<Rightarrow> DatasetItem \<Rightarrow> bool" where
  "targets_conflict file other =
    (if itKind other = DatasetItemFile
     then (if itTarget other = itTarget file then False
           else HasPrefix (itTarget other) (itTarget file @ ''/'') \<or>
                HasPrefix (itTarget file) (itTarget other @ ''/''))
     else if itKind other \<noteq> DatasetItemPrefix then False
     else itTarget file = itTarget other \<or> HasPrefix (itTarget other) (itTarget file @ ''/''))"

definition validateDeliveredTargets :: "DatasetItem list \<Rightarrow> unit go" where
  "validateDeliveredTargets items =
    each_ok (\<lambda>file.
      if itKind file \<noteq> DatasetItemFile then Inr ()
      else each_ok (\<lambda>other.
        if targets_conflict file other then fails ErrKnowledgeSetInvalid else Inr ()) items) items"

fun items_loop :: "string list \<Rightarrow> (string, string) gomap \<Rightarrow> KnowledgeSetSource list \<Rightarrow>
    DatasetItem list go" where
  "items_loop seen commits [] = Inr []"
| "items_loop seen commits (src # rest) =
    rbind (datasetItemFromSource src commits) (\<lambda>item.
      if itTarget item \<in> set seen then fails ErrKnowledgeSetInvalid
      else rbind (items_loop (itTarget item # seen) commits rest) (\<lambda>more. Inr (item # more)))"

definition datasetItemsFromSources :: "KnowledgeSetSource list \<Rightarrow> (string, string) gomap \<Rightarrow>
    DatasetItem list go" where
  "datasetItemsFromSources sources commits =
    rbind (items_loop [] commits sources) (\<lambda>items.
    rbind (validateDeliveredTargets items) (\<lambda>_. Inr items))"

section \<open>The paths a file list grants\<close>

definition datasetItemCovers :: "DatasetItem \<Rightarrow> string \<Rightarrow> bool" where
  "datasetItemCovers item path0 =
    (let path = trim_slashes path0 in
     if itKind item = DatasetItemFile then path = trim_slashes (itFile item)
     else if itKind item = DatasetItemPrefix
     then (let pre = trim_slashes (itPrefix item) in
           if pre = [] then True else path = pre \<or> HasPrefix path (pre @ ''/''))
     else False)"

fun DatasetPathAllowed :: "DatasetItem list \<Rightarrow> string \<Rightarrow> string \<Rightarrow> bool" where
  "DatasetPathAllowed [] repository path = False"
| "DatasetPathAllowed (item # rest) repository path =
    (if itRepository item \<noteq> repository then DatasetPathAllowed rest repository path
     else if datasetItemCovers item path then True
     else DatasetPathAllowed rest repository path)"

lemma DatasetPathAllowed_iff:
  "DatasetPathAllowed items r p \<longleftrightarrow> (\<exists>i \<in> set items. itRepository i = r \<and> datasetItemCovers i p)"
  by (induction items) auto

section \<open>Facts about coordinates\<close>

definition one_coordinate :: "KnowledgeSetSource list \<Rightarrow> bool" where
  "one_coordinate sources =
    (\<forall>a \<in> set sources. \<forall>b \<in> set sources. srcRepository a = srcRepository b \<longrightarrow>
      srcSelector a = srcSelector b \<and> srcBaseRev a = srcBaseRev b \<and> srcCommit a = srcCommit b)"

lemma check_prior_ok: "check_prior s p = Inr u \<Longrightarrow>
  srcSelector s = srcSelector p \<and> srcBaseRev s = srcBaseRev p \<and> srcCommit s = srcCommit p \<and>
  (IsFileEntry s \<or> IsFileEntry p \<or> srcPath s \<noteq> None \<and> srcPath p \<noteq> None \<and>
    \<not> subpaths_overlap (normalizeMemberSubPath (srcSubPath s)) (normalizeMemberSubPath (srcSubPath p)))"
  by (auto simp: check_prior_def split: if_splits)

lemma coordinates_loop_nth:
  assumes "coordinates_loop before sources = Inr u"
    and "i < j" "j < length (before @ sources)" "length before \<le> j"
    and "srcRepository ((before @ sources) ! i) = srcRepository ((before @ sources) ! j)"
  shows "check_prior ((before @ sources) ! j) ((before @ sources) ! i) = Inr ()"
  using assms
proof (induction before sources rule: coordinates_loop.induct)
  case (2 before src rest)
  show ?case
  proof (cases "j = length before")
    case True
    then have "(before @ src # rest) ! j = src" "(before @ src # rest) ! i = before ! i" "i < length before"
      using 2(3) by (auto simp: nth_append)
    then show ?thesis using 2(2,6) by (auto simp: rbind_Inr_iff each_ok_iff)
  next
    case False
    then have "check_prior (((before @ [src]) @ rest) ! j) (((before @ [src]) @ rest) ! i) = Inr ()"
      using 2(2-6) by (intro 2(1)) (auto simp: rbind_Inr_iff)
    then show ?thesis by simp
  qed
qed simp

lemma coordinates_nth:
  assumes "validateSourceCoordinates sources = Inr u" and "i < j" "j < length sources"
    and "srcRepository (sources ! i) = srcRepository (sources ! j)"
  shows "check_prior (sources ! j) (sources ! i) = Inr ()"
  using coordinates_loop_nth [of "[]" sources u i j] assms by (simp add: validateSourceCoordinates_def)

lemma coordinates_one:
  assumes "validateSourceCoordinates sources = Inr u"
  shows "one_coordinate sources"
  unfolding one_coordinate_def
proof (intro ballI impI)
  fix a b
  assume ab: "a \<in> set sources" "b \<in> set sources" "srcRepository a = srcRepository b"
  then obtain i j where ij: "i < length sources" "sources ! i = a" "j < length sources" "sources ! j = b"
    by (meson in_set_conv_nth)
  consider "i < j" | "i = j" | "j < i" by linarith
  then show "srcSelector a = srcSelector b \<and> srcBaseRev a = srcBaseRev b \<and> srcCommit a = srcCommit b"
    by cases (use coordinates_nth [OF assms] ab(3) ij check_prior_ok in \<open>metis+\<close>)
qed

section \<open>Facts about freezing\<close>

lemma freeze_loop_ok:
  assumes "freeze_loop ops store commits sources = Inr frozen"
  shows "length frozen = length sources"
    and "i < length sources \<Longrightarrow> frozen ! i = (sources ! i)\<lparr>srcCommit := srcCommit (frozen ! i)\<rparr>"
  using assms
  by (induction ops store commits sources arbitrary: frozen i rule: freeze_loop.induct)
    (auto simp: rbind_Inr_iff nth_Cons split: option.splits if_splits nat.splits)

text \<open>\<open>freezes s c\<close>: \<open>c\<close> is what freezing the source \<open>s\<close> must give, the commit it names, which
  exists, or the tip of its selector, which is its \<open>baseRev\<close> if it has one.\<close>

definition freezes :: "'st snapshot_ops \<Rightarrow> ('st, 'w) Registry \<Rightarrow> KnowledgeSetSource \<Rightarrow> string \<Rightarrow> bool" where
  "freezes ops reg s c =
    (case Registry_Get (srcRepository s) reg of
      None \<Rightarrow> False
    | Some repo \<Rightarrow>
        if srcCommit s \<noteq> [] then c = srcCommit s \<and> stHasCommit ops c repo
        else stGetRef ops (srcSelector s) repo = Some c \<and> (srcBaseRev s = [] \<or> c = srcBaseRev s))"

lemma freezes_cong:
  "srcRepository a = srcRepository b \<Longrightarrow> srcSelector a = srcSelector b \<Longrightarrow>
   srcBaseRev a = srcBaseRev b \<Longrightarrow> srcCommit a = srcCommit b \<Longrightarrow>
   freezes ops reg a c = freezes ops reg b c"
  by (simp add: freezes_def split: option.splits)

lemma one_coordinate_freezes:
  "one_coordinate S \<Longrightarrow> a \<in> set S \<Longrightarrow> b \<in> set S \<Longrightarrow> srcRepository a = srcRepository b \<Longrightarrow>
   freezes ops reg a c \<Longrightarrow> freezes ops reg b c"
  unfolding one_coordinate_def using freezes_cong by metis

lemma freeze_loop_cases:
  assumes "freeze_loop ops (Some reg) commits (src # rest) = Inr frozen"
  obtains (known) c more where "map_of commits (srcRepository src) = Some c"
      "freeze_loop ops (Some reg) commits rest = Inr more" "frozen = src\<lparr>srcCommit := c\<rparr> # more"
  | (fresh) c more where "map_of commits (srcRepository src) = None" "freezes ops reg src c"
      "freeze_loop ops (Some reg) (AList.update (srcRepository src) c commits) rest = Inr more"
      "frozen = src\<lparr>srcCommit := c\<rparr> # more"
  using assms
  by (cases src) (auto simp: freezes_def rbind_Inr_iff split: option.splits if_splits)

lemma freeze_loop_freezes:
  assumes "freeze_loop ops (Some reg) commits sources = Inr frozen"
    and "one_coordinate S" "set sources \<subseteq> set S"
    and "\<And>r c s. map_of commits r = Some c \<Longrightarrow> s \<in> set S \<Longrightarrow> srcRepository s = r \<Longrightarrow> freezes ops reg s c"
  shows "list_all2 (\<lambda>s f. f = s\<lparr>srcCommit := srcCommit f\<rparr> \<and> freezes ops reg s (srcCommit f)) sources frozen"
  using assms
proof (induction sources arbitrary: commits frozen)
  case (Cons src rest)
  from Cons.prems(1) show ?case
  proof (cases rule: freeze_loop_cases)
    case (known c more)
    then have "freezes ops reg src c" using Cons.prems(3,4) by simp
    moreover have "list_all2 (\<lambda>s f. f = s\<lparr>srcCommit := srcCommit f\<rparr> \<and> freezes ops reg s (srcCommit f)) rest more"
      using Cons.IH [OF known(2) Cons.prems(2)] Cons.prems(3,4) by simp
    ultimately show ?thesis using known by simp
  next
    case (fresh c more)
    have "freezes ops reg s d"
      if "map_of (AList.update (srcRepository src) c commits) r = Some d" "s \<in> set S" "srcRepository s = r"
      for r d s
    proof (cases "r = srcRepository src")
      case True
      then have "d = c" using that(1) by (simp add: map_simps)
      then show ?thesis
        using one_coordinate_freezes [OF Cons.prems(2) _ that(2) _ fresh(2)] Cons.prems(3) True that(3)
        by simp
    next
      case False
      then show ?thesis using that Cons.prems(4) by (simp add: map_simps)
    qed
    then have "list_all2 (\<lambda>s f. f = s\<lparr>srcCommit := srcCommit f\<rparr> \<and> freezes ops reg s (srcCommit f)) rest more"
      using Cons.IH [OF fresh(3) Cons.prems(2)] Cons.prems(3) by simp
    then show ?thesis using fresh by simp
  qed
qed simp

lemma freeze_loop_shared:
  assumes "freeze_loop ops (Some reg) commits sources = Inr frozen"
  shows "\<exists>m. (\<forall>r c. map_of commits r = Some c \<longrightarrow> m r = Some c) \<and>
    (\<forall>f \<in> set frozen. m (srcRepository f) = Some (srcCommit f))"
  using assms
proof (induction sources arbitrary: commits frozen)
  case Nil
  then show ?case by auto
next
  case (Cons src rest)
  from Cons.prems show ?case
  proof (cases rule: freeze_loop_cases)
    case (known c more)
    then show ?thesis using Cons.IH [OF known(2)] by auto
  next
    case (fresh c more)
    from Cons.IH [OF fresh(3)] obtain m where
      "\<forall>r d. map_of (AList.update (srcRepository src) c commits) r = Some d \<longrightarrow> m r = Some d"
      "\<forall>f \<in> set more. m (srcRepository f) = Some (srcCommit f)" by blast
    then show ?thesis using fresh
      by (intro exI [of _ m]) (auto simp: map_simps split: if_splits, metis option.distinct(1))
  qed
qed

lemma freezeSources_Some: "freezeSources ops store sources = Inr frozen \<Longrightarrow> sources \<noteq> [] \<Longrightarrow> \<exists>reg. store = Some reg"
  by (cases sources; cases store) (auto simp: freezeSources_def)

lemma freezing_source_list:
  assumes "validateSourceCoordinates sources = Inr ()" and "freezeSources ops (Some reg) sources = Inr frozen"
  shows "list_all2 (\<lambda>s f. f = s\<lparr>srcCommit := srcCommit f\<rparr> \<and> freezes ops reg s (srcCommit f)) sources frozen"
  using freeze_loop_freezes [of ops reg "[]" sources frozen sources] assms coordinates_one
  by (simp add: freezeSources_def)

section \<open>Facts about the file list\<close>

lemma items_loop_ok:
  assumes "items_loop seen commits sources = Inr items"
  shows "distinct (map itTarget items) \<and> set (map itTarget items) \<inter> set seen = {} \<and>
    list_all2 (\<lambda>s i. datasetItemFromSource s commits = Inr i) sources items"
  using assms
proof (induction sources arbitrary: seen items)
  case (Cons s rest)
  then obtain i more where i: "datasetItemFromSource s commits = Inr i" "itTarget i \<notin> set seen"
      and m: "items_loop (itTarget i # seen) commits rest = Inr more" "items = i # more"
    by (auto simp: rbind_Inr_iff split: if_splits)
  from Cons.IH [OF m(1)] i m(2) show ?case by auto
qed simp

lemma datasetItems_ok:
  assumes "datasetItemsFromSources sources commits = Inr items"
  shows "distinct (map itTarget items)"
    and "list_all2 (\<lambda>s i. datasetItemFromSource s commits = Inr i) sources items"
    and "\<And>f g. f \<in> set items \<Longrightarrow> g \<in> set items \<Longrightarrow> itKind f = DatasetItemFile \<Longrightarrow> \<not> targets_conflict f g"
  using assms items_loop_ok [of "[]" commits sources items]
  by (auto simp: datasetItemsFromSources_def validateDeliveredTargets_def rbind_Inr_iff each_ok_iff
      split: if_splits)

lemma item_fields:
  assumes "datasetItemFromSource s commits = Inr i"
  shows "itRepository i = srcRepository s" "itCommit i \<noteq> []"
    "itCommit i = (case map_of commits (srcRepository s) of Some c \<Rightarrow> c | None \<Rightarrow> srcCommit s)"
    "itKind i = (if IsFileEntry s then DatasetItemFile else DatasetItemPrefix)"
  using assms by (auto simp: datasetItemFromSource_def Let_def rbind_Inr_iff split: if_splits)

text \<open>A concrete definition for the witnesses: one mount and one delivered file of one repository.\<close>

definition demo_mount :: KnowledgeSetSource where
  "demo_mount = \<lparr>srcRepository = ''kr://a/b'', srcSelector = ''HEAD'', srcPath = Some ''lib'',
     srcSubPath = ''docs/sub'', srcCommit = [], srcBaseRev = ''cx'', srcFile = [], srcTarget = []\<rparr>"

definition demo_mount2 :: KnowledgeSetSource where
  "demo_mount2 = demo_mount\<lparr>srcPath := Some ''ref'', srcSubPath := ''docs/ref''\<rparr>"

definition demo_file :: KnowledgeSetSource where
  "demo_file = \<lparr>srcRepository = ''kr://a/b'', srcSelector = ''HEAD'', srcPath = None, srcSubPath = [],
     srcCommit = [], srcBaseRev = ''cx'', srcFile = ''docs/a.md'', srcTarget = ''lib/a.md''\<rparr>"

definition demo_registry :: "(memoryStore, unit) SnapshotStore.Registry" where
  "demo_registry = \<lparr>rgStores = [(''kr://a/b'', demo_one)], rgOnAdvanced = [], rgWrap = None\<rparr>"

definition demo_frozen :: "KnowledgeSetSource list" where
  "demo_frozen = [demo_mount\<lparr>srcCommit := ''cx''\<rparr>, demo_file\<lparr>srcCommit := ''cx''\<rparr>]"

definition demo_items :: "DatasetItem list" where
  "demo_items = [\<lparr>itTarget = ''lib'', itRepository = ''kr://a/b'', itCommit = ''cx'', itKind = DatasetItemPrefix,
     itPrefix = ''docs/sub'', itFile = []\<rparr>, \<lparr>itTarget = ''lib/a.md'', itRepository = ''kr://a/b'',
     itCommit = ''cx'', itKind = DatasetItemFile, itPrefix = [], itFile = ''docs/a.md''\<rparr>]"

section \<open>Properties\<close>

text \<open>C13. Publication pins every source: after coordinates were validated, freezing keeps every field
  of every source but its commit, gives each source the commit it must have (its own commit, which
  exists, or the tip of its selector at this moment, which is its \<open>baseRev\<close> if it names one), and
  all sources of one repository get the same commit.\<close>

theorem freezing_pins_sources:
  assumes "validateSourceCoordinates sources = Inr ()" and "freezeSources ops (Some reg) sources = Inr frozen"
  shows "list_all2 (\<lambda>s f. f = s\<lparr>srcCommit := srcCommit f\<rparr> \<and> freezes ops reg s (srcCommit f)) sources frozen \<and>
    (\<forall>f \<in> set frozen. \<forall>g \<in> set frozen. srcRepository f = srcRepository g \<longrightarrow> srcCommit f = srcCommit g)"
proof
  show "list_all2 (\<lambda>s f. f = s\<lparr>srcCommit := srcCommit f\<rparr> \<and> freezes ops reg s (srcCommit f)) sources frozen"
    by (rule freezing_source_list [OF assms])
  obtain m where "\<forall>f \<in> set frozen. m (srcRepository f) = Some (srcCommit f)"
    using freeze_loop_shared assms(2) unfolding freezeSources_def by blast
  then show "\<forall>f \<in> set frozen. \<forall>g \<in> set frozen. srcRepository f = srcRepository g \<longrightarrow> srcCommit f = srcCommit g"
    by (metis option.inject)
qed

theorem freezing_pins_sources_witness:
  "freezeSources memory_ops (Some demo_registry) [demo_mount, demo_file] = Inr demo_frozen \<and>
   freezes memory_ops demo_registry demo_mount ''cx''"
proof -
  have v: "validateSourceCoordinates [demo_mount, demo_file] = Inr ()" by code_simp
  have f: "freezeSources memory_ops (Some demo_registry) [demo_mount, demo_file] = Inr demo_frozen"
    by code_simp
  show ?thesis using freezing_pins_sources [OF v f] f by (simp add: demo_frozen_def)
qed



text \<open>One repository is mounted without overlap: in accepted coordinates two mounts of the same
  repository have different paths and cover no common repository path, so a repository path lies in
  at most one of them.\<close>

theorem mounted_subtrees_disjoint:
  assumes "validateSourceCoordinates sources = Inr ()" and "i < j" "j < length sources"
    and "srcRepository (sources ! i) = srcRepository (sources ! j)"
    and "\<not> IsFileEntry (sources ! i)" "\<not> IsFileEntry (sources ! j)"
  shows "\<not> (\<exists>p. (p = normalizeMemberSubPath (srcSubPath (sources ! i)) \<or>
           HasPrefix p (normalizeMemberSubPath (srcSubPath (sources ! i)) @ ''/'')) \<and>
        (p = normalizeMemberSubPath (srcSubPath (sources ! j)) \<or>
           HasPrefix p (normalizeMemberSubPath (srcSubPath (sources ! j)) @ ''/'')))"
proof -
  let ?a = "normalizeMemberSubPath (srcSubPath (sources ! j))"
    and ?b = "normalizeMemberSubPath (srcSubPath (sources ! i))"
  have n: "\<not> subpaths_overlap ?a ?b"
    using check_prior_ok [OF coordinates_nth [OF assms(1-4)]] assms(5,6) by simp
  show ?thesis
  proof
    assume "\<exists>p. (p = ?b \<or> HasPrefix p (?b @ ''/'')) \<and> (p = ?a \<or> HasPrefix p (?a @ ''/''))"
    then obtain p where p: "p = ?b \<or> HasPrefix p (?b @ ''/'')" "p = ?a \<or> HasPrefix p (?a @ ''/'')" by blast
    then consider "?a = ?b" | "HasPrefix ?a (?b @ ''/'')" | "HasPrefix ?b (?a @ ''/'')"
      | "HasPrefix p (?b @ ''/'')" "HasPrefix p (?a @ ''/'')" by auto
    then show False
    proof cases
      case 4
      then consider "prefix (?b @ ''/'') (?a @ ''/'')" | "prefix (?a @ ''/'') (?b @ ''/'')"
        using prefix_same_cases by blast
      then show False using n by cases (auto simp: prefix_snoc subpaths_overlap_def)
    qed (use n in \<open>auto simp: subpaths_overlap_def\<close>)
  qed
qed

theorem mounted_subtrees_disjoint_witness:
  "\<not> (\<exists>p. (p = ''docs/sub'' \<or> HasPrefix p ''docs/sub/'') \<and> (p = ''docs/ref'' \<or> HasPrefix p ''docs/ref/''))"
proof -
  have v: "validateSourceCoordinates [demo_mount, demo_mount2] = Inr ()" by code_simp
  have "normalizeMemberSubPath (srcSubPath demo_mount) = ''docs/sub''"
    "normalizeMemberSubPath (srcSubPath demo_mount2) = ''docs/ref''" by code_simp+
  with mounted_subtrees_disjoint [OF v, of 0 1] show ?thesis
    by (simp add: demo_mount_def demo_mount2_def IsFileEntry_def)
qed

end
