(* ===== verification/CatalogRegistry.thy ===== *)
theory CatalogRegistry
  imports DatasetDef "HOL-Library.Product_Lexorder"
begin

text \<open>
  The durable registry of a catalog (\<open>src/snapshot/dataset/state.go\<close>, \<open>files.go\<close>, \<open>registry_codec.go\<close>,
  \<open>registry.go\<close>, \<open>registry_store.go\<close>): the catalog state as flat YAML files in a snapshot authority,
  written by compare-and-swap.  YAML and JSON encoding, SHA-256 and the canonical digest are the
  parameters of \<open>catalog_codec\<close>.  Modelled is the production path over a snapshot authority; the
  local git fixture and the remote git cache are not.
\<close>

section \<open>State\<close>

record CatalogState =
  csKnowledgeSets :: "KnowledgeSet list"
  csDatasetVersions :: "KnowledgeSet list"
  csRepositories :: "string list"
  csArchived :: bool
  csCatalogID :: string

definition EmptyCatalogState :: CatalogState where
  "EmptyCatalogState = \<lparr>csKnowledgeSets = [], csDatasetVersions = [], csRepositories = [],
     csArchived = False, csCatalogID = []\<rparr>"

definition CatalogState_IsEmpty :: "CatalogState \<Rightarrow> bool" where
  "CatalogState_IsEmpty s = (length (csKnowledgeSets s) = 0 \<and> length (csRepositories s) = 0)"

definition normalizeDatasetVersions :: "KnowledgeSet list \<Rightarrow> KnowledgeSet list" where
  "normalizeDatasetVersions versions = sort_key (\<lambda>d. (setID d, setRevision d)) versions"

definition NormalizeCatalogState :: "CatalogState \<Rightarrow> CatalogState" where
  "NormalizeCatalogState state =
    \<lparr>csKnowledgeSets = sort_key setID (csKnowledgeSets state),
     csDatasetVersions = normalizeDatasetVersions (csDatasetVersions state),
     csRepositories = remdups_adj (sort (csRepositories state)),
     csArchived = csArchived state, csCatalogID = csCatalogID state\<rparr>"

section \<open>File names\<close>

definition token_char :: "char \<Rightarrow> bool" where
  "token_char c = (c \<in> set ''ABCDEFGHIJKLMNOPQRSTUVWXYZabcdefghijklmnopqrstuvwxyz0123456789._-'')"

text \<open>\<open>ReplaceAllString\<close> of every maximal run of other characters by one underscore.\<close>

fun replace_runs :: "bool \<Rightarrow> string \<Rightarrow> string" where
  "replace_runs in_run [] = []"
| "replace_runs in_run (c # s) =
    (if token_char c then c # replace_runs False s
     else if in_run then replace_runs True s else CHR ''_'' # replace_runs True s)"

definition trim_token :: "string \<Rightarrow> string" where
  "trim_token s = rev (dropWhile (\<lambda>c. c \<in> set ''._-'') (rev (dropWhile (\<lambda>c. c \<in> set ''._-'') s)))"

definition fileToken :: "string \<Rightarrow> string" where
  "fileToken s = (let t = trim_token (replace_runs False (TrimSpace s)) in
     if t = [] then ''x'' else t)"

definition datasetFilePrefix :: string where "datasetFilePrefix = ''dataset-''"
definition datasetVersionPrefix :: string where "datasetVersionPrefix = ''release-''"
definition repositoryFilePrefix :: string where "repositoryFilePrefix = ''repository-''"
definition yamlExt :: string where "yamlExt = ''.yaml''"

lemmas registry_names = datasetFilePrefix_def datasetVersionPrefix_def repositoryFilePrefix_def yamlExt_def

definition CatalogFile :: string where "CatalogFile = ''catalog'' @ yamlExt"

definition KnowledgeSetYAML :: "string \<Rightarrow> string" where
  "KnowledgeSetYAML sid = datasetFilePrefix @ fileToken sid @ yamlExt"

definition RepositoryFile :: "string \<Rightarrow> string" where
  "RepositoryFile rid = repositoryFilePrefix @ fileToken rid @ yamlExt"

section \<open>Encoding\<close>

record catalog_codec =
  encMeta :: "string \<times> bool \<Rightarrow> string go"
  encSet :: "KnowledgeSet \<Rightarrow> string go"
  encRow :: "(string, string) gomap \<Rightarrow> string go"
  decMeta :: "string \<Rightarrow> (string \<times> bool) go"
  decSet :: "string \<Rightarrow> KnowledgeSet go"
  decRow :: "string \<Rightarrow> (string, string) gomap go"
  shaHex :: "string \<Rightarrow> string"
  stateDigest :: "CatalogState \<Rightarrow> string"

definition datasetVersionFile :: "catalog_codec \<Rightarrow> string \<Rightarrow> int \<Rightarrow> string" where
  "datasetVersionFile codec sid revision =
    datasetVersionPrefix @ shaHex codec sid @ ''-v'' @ big_String revision @ yamlExt"

fun put_files :: "('a \<Rightarrow> string) \<Rightarrow> ('a \<Rightarrow> string go) \<Rightarrow> 'a list \<Rightarrow> (string, string) gomap \<Rightarrow>
    (string, string) gomap go" where
  "put_files name enc [] out = Inr out"
| "put_files name enc (x # xs) out =
    rbind (enc x) (\<lambda>b. put_files name enc xs (AList.update (name x) b out))"

definition yamlFiles :: "catalog_codec \<Rightarrow> CatalogState \<Rightarrow> string \<Rightarrow> (string, string) gomap go" where
  "yamlFiles codec state catalogID =
    rbind (encMeta codec (catalogID, csArchived state)) (\<lambda>body.
    rbind (put_files (\<lambda>v. datasetVersionFile codec (setID v) (setRevision v)) (encSet codec)
             (csDatasetVersions state) (AList.update CatalogFile body [])) (\<lambda>out.
    rbind (put_files (\<lambda>w. KnowledgeSetYAML (setID w)) (encSet codec) (csKnowledgeSets state) out) (\<lambda>out.
      put_files RepositoryFile (\<lambda>rid. encRow codec [(''repository'', rid)]) (csRepositories state) out)))"

definition row_id :: "(string, string) gomap \<Rightarrow> string" where
  "row_id row =
    (let get = (\<lambda>k. case map_of row k of None \<Rightarrow> [] | Some v \<Rightarrow> v) in
     if get ''repository'' \<noteq> [] then get ''repository'' else get ''repositoryId'')"

fun state_loop :: "catalog_codec \<Rightarrow> (string, string) gomap \<Rightarrow> CatalogState \<Rightarrow> CatalogState go" where
  "state_loop codec [] acc = Inr acc"
| "state_loop codec ((path, body) # rest) acc =
    (if path = CatalogFile
     then rbind (decMeta codec body) (\<lambda>(mid, archived).
            state_loop codec rest (acc\<lparr>csArchived := archived, csCatalogID := mid\<rparr>))
     else if HasPrefix path datasetVersionPrefix
     then rbind (decSet codec body) (\<lambda>def.
            if path \<noteq> datasetVersionFile codec (setID def) (setRevision def)
            then fails ErrKnowledgeSetInvalid
            else state_loop codec rest (acc\<lparr>csDatasetVersions := csDatasetVersions acc @ [def]\<rparr>))
     else if HasPrefix path datasetFilePrefix
     then rbind (decSet codec body) (\<lambda>def.
            state_loop codec rest (acc\<lparr>csKnowledgeSets := csKnowledgeSets acc @ [def]\<rparr>))
     else if HasPrefix path repositoryFilePrefix
     then rbind (decRow codec body) (\<lambda>row.
            if row_id row \<noteq> []
            then state_loop codec rest (acc\<lparr>csRepositories := csRepositories acc @ [row_id row]\<rparr>)
            else state_loop codec rest acc)
     else state_loop codec rest acc)"

definition stateFromYAML :: "catalog_codec \<Rightarrow> (string, string) gomap \<Rightarrow> CatalogState go" where
  "stateFromYAML codec files =
    rbind (state_loop codec files EmptyCatalogState) (\<lambda>s. Inr (NormalizeCatalogState s))"

section \<open>The registry over a snapshot authority\<close>

text \<open>The tree store capability the registry uses, on a store state, and the handle of one opened
  registry.  The authority is shared: several handles may hold the same store.\<close>

record 's tree_ops =
  trID :: "'s \<Rightarrow> string"
  trHead :: "string \<Rightarrow> 's \<Rightarrow> string go"
  trListFiles :: "string \<Rightarrow> 's \<Rightarrow> string list go"
  trReadFile :: "string \<Rightarrow> string \<Rightarrow> 's \<Rightarrow> string go"
  trApply :: "TreeChangeSet \<Rightarrow> 's \<Rightarrow> string go \<times> 's"

record registry_handle =
  rhCatalogID :: string
  rhHead :: string
  rhRef :: string

definition registry_file :: "string \<Rightarrow> bool" where
  "registry_file path = (HasSuffix path ''.yaml'' \<and> \<not> Contains path ''/'')"

fun read_files :: "'s tree_ops \<Rightarrow> string \<Rightarrow> string list \<Rightarrow> 's \<Rightarrow> (string, string) gomap \<Rightarrow>
    (string, string) gomap go" where
  "read_files tr commit [] s out = Inr out"
| "read_files tr commit (path # rest) s out =
    (if \<not> registry_file path then read_files tr commit rest s out
     else rbind (trReadFile tr path commit s) (\<lambda>body.
            read_files tr commit rest s (AList.update path body out)))"

definition snapshotYAML :: "'s tree_ops \<Rightarrow> registry_handle \<Rightarrow> 's \<Rightarrow> (string, string) gomap go" where
  "snapshotYAML tr g s =
    (if rhHead g = [] then Inr []
     else rbind (trListFiles tr (rhHead g) s) (\<lambda>paths. read_files tr (rhHead g) paths s []))"

definition registry_load :: "catalog_codec \<Rightarrow> 's tree_ops \<Rightarrow> registry_handle \<Rightarrow> 's \<Rightarrow> CatalogState go" where
  "registry_load codec tr g s =
    rbind (snapshotYAML tr g s) (\<lambda>files.
      if 0 < length files then stateFromYAML codec files else Inr EmptyCatalogState)"

definition treeDiff :: "(string, string) gomap \<Rightarrow> (string, string) gomap \<Rightarrow> TreeChange list" where
  "treeDiff existing desired =
    map (\<lambda>(path, body). \<lparr>tcPath = path, tcContent = body, tcRemove = False\<rparr>)
      (filter (\<lambda>(path, body). (case map_of existing path of None \<Rightarrow> [] | Some b \<Rightarrow> b) \<noteq> body) desired) @
    map (\<lambda>(path, _). \<lparr>tcPath = path, tcContent = [], tcRemove = True\<rparr>)
      (filter (\<lambda>(path, _). map_of desired path = None) existing)"

record stamp =
  stMessage :: string
  stAuthor :: string
  stRequestID :: string
  stRuleID :: string

definition saveSnapshot :: "catalog_codec \<Rightarrow> 's tree_ops \<Rightarrow> CatalogState \<Rightarrow> stamp \<Rightarrow> registry_handle \<Rightarrow> 's \<Rightarrow>
    unit go \<times> registry_handle \<times> 's" where
  "saveSnapshot codec tr state stamp0 g s =
    (let bare = rbind (registry_load codec tr g s) (\<lambda>current.
       if csCatalogID state \<noteq> [] \<and> csCatalogID state \<noteq> rhCatalogID g then fails ErrPreconditionFailed
       else (let next = (NormalizeCatalogState state)\<lparr>csCatalogID := rhCatalogID g\<rparr> in
         rbind (trHead tr (rhRef g) s) (\<lambda>actual.
         if actual \<noteq> rhHead g then fails ErrNonFastForward
         else if stateDigest codec current = stateDigest codec next then Inr None
         else rbind (yamlFiles codec next (rhCatalogID g)) (\<lambda>desired.
              rbind (snapshotYAML tr g s) (\<lambda>existing.
                let changes = treeDiff existing desired in
                if length changes = 0 then Inr None
                else Inr (Some \<lparr>tcsTargetRepository = trID tr s, tcsTargetRef = rhRef g,
                  tcsBaseCommit = rhHead g, tcsExpectedTargetCommit = rhHead g, tcsChanges = changes,
                  tcsMessage = (if stMessage stamp0 = [] then ''catalog: persist'' else stMessage stamp0),
                  tcsAuthor = stAuthor stamp0, tcsRequestID = stRequestID stamp0,
                  tcsRuleID = stRuleID stamp0\<rparr>)))))) in
     case bare of
       Inl e \<Rightarrow> (Inl e, g, s)
     | Inr None \<Rightarrow> (Inr (), g, s)
     | Inr (Some change) \<Rightarrow>
         (case trApply tr change s of
           (Inl e, s') \<Rightarrow> (Inl e, g, s')
         | (Inr candidate, s') \<Rightarrow> (Inr (), g\<lparr>rhHead := candidate\<rparr>, s')))"

definition saveExpected :: "catalog_codec \<Rightarrow> 's tree_ops \<Rightarrow> string \<Rightarrow> CatalogState \<Rightarrow> stamp \<Rightarrow>
    registry_handle \<Rightarrow> 's \<Rightarrow> string go \<times> registry_handle \<times> 's" where
  "saveExpected codec tr expected state stamp0 g s =
    (if expected \<noteq> rhHead g then (fails ErrNonFastForward, g, s)
     else (case saveSnapshot codec tr state stamp0 g s of
       (Inl e, g', s') \<Rightarrow> (Inl e, g', s')
     | (Inr _, g', s') \<Rightarrow> (Inr (rhHead g'), g', s')))"

definition snapshotRegistry :: "string \<Rightarrow> string \<Rightarrow> registry_handle go" where
  "snapshotRegistry catalogID ref0 =
    (if TrimSpace catalogID = [] then fails ErrUsageInvalid
     else (let ref = (if ref0 = [] then DefaultRef else ref0) in
       if \<not> HasPrefix ref ''refs/heads/'' then fails ErrUsageInvalid
       else Inr \<lparr>rhCatalogID = catalogID, rhHead = [], rhRef = ref\<rparr>))"

definition OpenSnapshotRegistry :: "catalog_codec \<Rightarrow> 's tree_ops \<Rightarrow> string \<Rightarrow> string \<Rightarrow> 's \<Rightarrow>
    registry_handle go" where
  "OpenSnapshotRegistry codec tr catalogID ref s =
    rbind (snapshotRegistry catalogID ref) (\<lambda>reg0.
    rbind (trHead tr (rhRef reg0) s) (\<lambda>head.
      if head = [] then fails ErrVersionUnresolved
      else (let reg = reg0\<lparr>rhHead := head\<rparr> in
        rbind (registry_load codec tr reg s) (\<lambda>state.
          if TrimSpace (csCatalogID state) = [] then fails ErrVersionUnresolved
          else if csCatalogID state \<noteq> catalogID then fails ErrPreconditionFailed
          else Inr reg))))"

definition CreateSnapshotRegistry :: "catalog_codec \<Rightarrow> 's tree_ops \<Rightarrow> string \<Rightarrow> string \<Rightarrow> 's \<Rightarrow>
    registry_handle go \<times> 's" where
  "CreateSnapshotRegistry codec tr catalogID ref s =
    (case OpenSnapshotRegistry codec tr catalogID ref s of
      Inr _ \<Rightarrow> (fails ErrPreconditionFailed, s)
    | Inl e \<Rightarrow>
        if CodeOf (Some e) \<noteq> Some ErrVersionUnresolved then (Inl e, s)
        else (case rbind (snapshotRegistry catalogID ref) (\<lambda>reg0.
                rbind (trHead tr (rhRef reg0) s) (\<lambda>head. Inr (reg0\<lparr>rhHead := head\<rparr>))) of
            Inl e \<Rightarrow> (Inl e, s)
          | Inr reg \<Rightarrow>
              (case saveSnapshot codec tr (EmptyCatalogState\<lparr>csCatalogID := catalogID\<rparr>)
                  \<lparr>stMessage = ''init '' @ catalogID, stAuthor = [], stRequestID = [], stRuleID = []\<rparr> reg s of
                (Inl e, _, s') \<Rightarrow> (Inl e, s')
              | (Inr _, reg', s') \<Rightarrow> (Inr reg', s'))))"

definition CheckAuthority :: "'s tree_ops \<Rightarrow> registry_handle \<Rightarrow> 's \<Rightarrow> unit go" where
  "CheckAuthority tr g s =
    rbind (trHead tr (rhRef g) s) (\<lambda>actual.
      if actual = [] then fails ErrVersionUnresolved
      else if actual \<noteq> rhHead g then fails ErrPreconditionFailed else Inr ())"

text \<open>The memory store as the authority.\<close>

definition memory_tree :: "(string \<Rightarrow> string \<Rightarrow> nat \<Rightarrow> TreeChange list \<Rightarrow> string) \<Rightarrow> memoryStore tree_ops" where
  "memory_tree commit_id = \<lparr>trID = msID, trHead = ms_Head, trListFiles = ms_ListFiles,
     trReadFile = ms_ReadFile, trApply = ms_ApplyTreeCommit commit_id\<rparr>"

section \<open>Round trip\<close>

definition version_name :: "catalog_codec \<Rightarrow> KnowledgeSet \<Rightarrow> string" where
  "version_name codec v = datasetVersionFile codec (setID v) (setRevision v)"

definition state_names :: "catalog_codec \<Rightarrow> CatalogState \<Rightarrow> string list" where
  "state_names codec s =
    CatalogFile # map (version_name codec) (csDatasetVersions s) @
    map (\<lambda>w. KnowledgeSetYAML (setID w)) (csKnowledgeSets s) @ map RepositoryFile (csRepositories s)"

text \<open>Decoding inverts encoding on the records of one state.\<close>

definition codec_faithful :: "catalog_codec \<Rightarrow> CatalogState \<Rightarrow> string \<Rightarrow> bool" where
  "codec_faithful codec s cid =
    (rbind (encMeta codec (cid, csArchived s)) (decMeta codec) = Inr (cid, csArchived s) \<and>
     (\<forall>d \<in> set (csDatasetVersions s) \<union> set (csKnowledgeSets s).
        rbind (encSet codec d) (decSet codec) = Inr d) \<and>
     (\<forall>r \<in> set (csRepositories s). r \<noteq> [] \<and>
        rbind (encRow codec [(''repository'', r)]) (decRow codec) = Inr [(''repository'', r)]))"

lemma put_files_append:
  assumes "put_files name enc xs out = Inr out'" and "distinct (map name xs)"
    and "set (map name xs) \<inter> fst ` set out = {}"
  shows "\<exists>bs. list_all2 (\<lambda>x b. enc x = Inr b) xs bs \<and> out' = out @ zip (map name xs) bs"
  using assms
proof (induction xs arbitrary: out)
  case (Cons x xs)
  then obtain b where b: "enc x = Inr b" "put_files name enc xs (AList.update (name x) b out) = Inr out'"
    by (auto simp: rbind_Inr_iff)
  have "map_of out (name x) = None" using Cons.prems(3) by (auto simp: map_of_eq_None_iff)
  then have u: "AList.update (name x) b out = out @ [(name x, b)]" by (rule AList_update_new)
  have "set (map name xs) \<inter> fst ` set (out @ [(name x, b)]) = {}"
    using Cons.prems(2,3) by auto
  from Cons.IH [OF b(2) [unfolded u] _ this] Cons.prems(2) obtain bs where
    "list_all2 (\<lambda>x b. enc x = Inr b) xs bs" "out' = out @ [(name x, b)] @ zip (map name xs) bs" by auto
  then show ?case using b(1) by (intro exI [of _ "b # bs"]) simp
qed simp

definition is_version :: "string \<times> string \<Rightarrow> bool" where
  "is_version f = (fst f \<noteq> CatalogFile \<and> HasPrefix (fst f) datasetVersionPrefix)"

definition is_set :: "string \<times> string \<Rightarrow> bool" where
  "is_set f = (fst f \<noteq> CatalogFile \<and> \<not> HasPrefix (fst f) datasetVersionPrefix \<and>
     HasPrefix (fst f) datasetFilePrefix)"

definition is_repo :: "string \<times> string \<Rightarrow> bool" where
  "is_repo f = (fst f \<noteq> CatalogFile \<and> \<not> HasPrefix (fst f) datasetVersionPrefix \<and>
     \<not> HasPrefix (fst f) datasetFilePrefix \<and> HasPrefix (fst f) repositoryFilePrefix)"

definition readable :: "catalog_codec \<Rightarrow> string \<times> bool \<Rightarrow> string \<times> string \<Rightarrow> bool" where
  "readable codec m f =
    (fst f = CatalogFile \<and> decMeta codec (snd f) = Inr m \<or>
     is_version f \<and> (\<exists>d. decSet codec (snd f) = Inr d \<and> fst f = version_name codec d) \<or>
     is_set f \<and> (\<exists>d. decSet codec (snd f) = Inr d) \<or>
     is_repo f \<and> (\<exists>r. decRow codec (snd f) = Inr [(''repository'', r)] \<and> r \<noteq> []))"

definition file_set :: "catalog_codec \<Rightarrow> string \<times> string \<Rightarrow> KnowledgeSet" where
  "file_set codec f = projr (decSet codec (snd f))"

definition file_row :: "catalog_codec \<Rightarrow> string \<times> string \<Rightarrow> string" where
  "file_row codec f = row_id (projr (decRow codec (snd f)))"

lemma row_id_single: "r \<noteq> [] \<Longrightarrow> row_id [(''repository'', r)] = r"
  by (simp add: row_id_def Let_def)

lemma state_loop_readable:
  assumes "\<forall>f \<in> set files. readable codec m f"
  shows "state_loop codec files acc = Inr
    \<lparr>csKnowledgeSets = csKnowledgeSets acc @ map (file_set codec) (filter is_set files),
     csDatasetVersions = csDatasetVersions acc @ map (file_set codec) (filter is_version files),
     csRepositories = csRepositories acc @ map (file_row codec) (filter is_repo files),
     csArchived = (if CatalogFile \<in> fst ` set files then snd m else csArchived acc),
     csCatalogID = (if CatalogFile \<in> fst ` set files then fst m else csCatalogID acc)\<rparr>"
  using assms
proof (induction files arbitrary: acc)
  case (Cons f files)
  obtain p b where f: "f = (p, b)" by fastforce
  have rest: "\<forall>f \<in> set files. readable codec m f" and r: "readable codec m f"
    using Cons.prems by auto
  note ih = Cons.IH [OF rest]
  from r consider (meta) "p = CatalogFile" "decMeta codec b = Inr m"
    | (version) d where "is_version f" "decSet codec b = Inr d" "p = version_name codec d"
    | (kset) d where "is_set f" "decSet codec b = Inr d"
    | (repo) r where "is_repo f" "decRow codec b = Inr [(''repository'', r)]" "r \<noteq> []"
    using f by (auto simp: readable_def)
  then show ?case
  proof cases
    case meta
    then show ?thesis using ih f
      by (cases m) (simp add: is_version_def is_set_def is_repo_def)
  next
    case version
    then have e: "datasetVersionFile codec (setID d) (setRevision d) = p" by (simp add: version_name_def)
    have "p \<noteq> CatalogFile" "CatalogFile \<noteq> p" "HasPrefix p datasetVersionPrefix"
      using version(1) f by (auto simp: is_version_def)
    then show ?thesis using ih f version(2) e
      by (simp add: is_version_def is_set_def is_repo_def file_set_def)
  next
    case kset
    then show ?thesis using ih f
      by (auto simp add: is_version_def is_set_def is_repo_def file_set_def)
  next
    case repo
    then show ?thesis using ih f
      by (auto simp add: is_version_def is_set_def is_repo_def file_row_def row_id_single)
  qed
qed simp

lemma names_classified:
  "is_version (version_name codec d, b)" "\<not> is_set (version_name codec d, b)" "\<not> is_repo (version_name codec d, b)"
  "is_set (KnowledgeSetYAML i, b)" "\<not> is_version (KnowledgeSetYAML i, b)" "\<not> is_repo (KnowledgeSetYAML i, b)"
  "is_repo (RepositoryFile i, b)" "\<not> is_version (RepositoryFile i, b)" "\<not> is_set (RepositoryFile i, b)"
  "\<not> is_version (CatalogFile, b)" "\<not> is_set (CatalogFile, b)" "\<not> is_repo (CatalogFile, b)"
  by (simp_all add: is_version_def is_set_def is_repo_def version_name_def datasetVersionFile_def
      KnowledgeSetYAML_def RepositoryFile_def CatalogFile_def registry_names)

lemma decoded_map:
  assumes "list_all2 (\<lambda>x b. enc x = Inr b) xs bs"
    and "\<forall>x \<in> set xs. rbind (enc x) dec = Inr (g x)"
  shows "map dec bs = map (\<lambda>x. Inr (g x)) xs" "length bs = length xs"
  using assms by (induction rule: list_all2_induct) auto

lemma filter_zip_all: "\<forall>x b. P (name x, b) \<Longrightarrow> filter P (zip (map name xs) bs) = zip (map name xs) bs"
  by (induction xs arbitrary: bs) (auto simp: zip_Cons1 split: list.splits)

lemma filter_zip_none: "\<forall>x b. \<not> P (name x, b) \<Longrightarrow> filter P (zip (map name xs) bs) = []"
  by (induction xs arbitrary: bs) (auto simp: zip_Cons1 split: list.splits)

lemma map_snd_zip_names:
  "length bs = length xs \<Longrightarrow> map (\<lambda>f. h (snd f)) (zip (map name xs) bs) = map h bs"
  by (induction xs arbitrary: bs) (auto simp: length_Suc_conv)

lemma disjoint_sub: "A \<subseteq> insert c B \<Longrightarrow> c \<notin> S \<Longrightarrow> B \<inter> S = {} \<Longrightarrow> S \<inter> A = {}"
  by blast

lemma yamlFiles_list:
  assumes "yamlFiles codec s cid = Inr files" and "distinct (state_names codec s)"
  obtains m vs ss rs where
    "encMeta codec (cid, csArchived s) = Inr m"
    "list_all2 (\<lambda>x b. encSet codec x = Inr b) (csDatasetVersions s) vs"
    "list_all2 (\<lambda>x b. encSet codec x = Inr b) (csKnowledgeSets s) ss"
    "list_all2 (\<lambda>x b. encRow codec [(''repository'', x)] = Inr b) (csRepositories s) rs"
    "files = (CatalogFile, m) # zip (map (version_name codec) (csDatasetVersions s)) vs @
       zip (map (\<lambda>w. KnowledgeSetYAML (setID w)) (csKnowledgeSets s)) ss @
       zip (map RepositoryFile (csRepositories s)) rs"
proof -
  let ?V = "map (version_name codec) (csDatasetVersions s)"
  let ?S = "map (\<lambda>w. KnowledgeSetYAML (setID w)) (csKnowledgeSets s)"
  have d: "distinct ?V" "distinct ?S" "distinct (map RepositoryFile (csRepositories s))"
    "CatalogFile \<notin> set ?V" "CatalogFile \<notin> set ?S" "CatalogFile \<notin> set (map RepositoryFile (csRepositories s))"
    "set ?V \<inter> set ?S = {}" "set ?V \<inter> set (map RepositoryFile (csRepositories s)) = {}"
    "set ?S \<inter> set (map RepositoryFile (csRepositories s)) = {}"
    using assms(2) by (auto simp: state_names_def)
  have vn: "(\<lambda>v. datasetVersionFile codec (setID v) (setRevision v)) = version_name codec"
    by (simp add: version_name_def fun_eq_iff)
  obtain m o1 o2 where m: "encMeta codec (cid, csArchived s) = Inr m"
    and o1: "put_files (version_name codec) (encSet codec) (csDatasetVersions s) [(CatalogFile, m)] = Inr o1"
    and o2: "put_files (\<lambda>w. KnowledgeSetYAML (setID w)) (encSet codec) (csKnowledgeSets s) o1 = Inr o2"
    and o3: "put_files RepositoryFile (\<lambda>rid. encRow codec [(''repository'', rid)]) (csRepositories s) o2 = Inr files"
    using assms(1) unfolding yamlFiles_def rbind_Inr_iff vn by auto
  obtain vs where vs: "list_all2 (\<lambda>x b. encSet codec x = Inr b) (csDatasetVersions s) vs"
      "o1 = [(CatalogFile, m)] @ zip ?V vs"
    using put_files_append [OF o1 d(1)] d(4) by auto
  have k1: "fst ` set o1 \<subseteq> insert CatalogFile (set ?V)" using vs(2) by (auto dest: set_zip_leftD)
  have "set ?S \<inter> fst ` set o1 = {}" by (rule disjoint_sub [OF k1 d(5,7)])
  from put_files_append [OF o2 d(2) this]
  obtain ss where ss: "list_all2 (\<lambda>x b. encSet codec x = Inr b) (csKnowledgeSets s) ss"
      "o2 = o1 @ zip ?S ss" by blast
  have k2: "fst ` set o2 \<subseteq> insert CatalogFile (set ?V \<union> set ?S)"
    using k1 ss(2) by (auto dest: set_zip_leftD)
  have "set (map RepositoryFile (csRepositories s)) \<inter> fst ` set o2 = {}"
    by (rule disjoint_sub [OF k2 d(6)]) (use d(8,9) in \<open>simp add: Int_Un_distrib2\<close>)
  from put_files_append [OF o3 d(3) this]
  obtain rs where rs: "list_all2 (\<lambda>x b. encRow codec [(''repository'', x)] = Inr b) (csRepositories s) rs"
      "files = o2 @ zip (map RepositoryFile (csRepositories s)) rs" by blast
  show ?thesis using that [OF m vs(1) ss(1) rs(1)] vs(2) ss(2) rs(2) by simp
qed

lemma zip_names_readable:
  assumes "list_all2 (\<lambda>x b. enc x = Inr b) xs bs" and "\<forall>x \<in> set xs. rbind (enc x) dec = Inr (g x)"
    and "f \<in> set (zip (map name xs) bs)"
  shows "\<exists>x \<in> set xs. fst f = name x \<and> dec (snd f) = Inr (g x)"
  using assms by (induction rule: list_all2_induct) auto

lemma filter_parts:
  assumes "\<And>x b. P (n1 x, b)" "\<And>x b. \<not> P (n2 x, b)" "\<And>x b. \<not> P (n3 x, b)" "\<not> P c"
  shows "filter P (c # zip (map n1 xs) bs @ zip (map n2 ys) cs @ zip (map n3 zs) ds) = zip (map n1 xs) bs"
    "filter P (c # zip (map n2 ys) cs @ zip (map n1 xs) bs @ zip (map n3 zs) ds) = zip (map n1 xs) bs"
    "filter P (c # zip (map n2 ys) cs @ zip (map n3 zs) ds @ zip (map n1 xs) bs) = zip (map n1 xs) bs"
  using assms by (simp_all add: filter_zip_all filter_zip_none)

lemma decoded_zip:
  assumes "list_all2 (\<lambda>x b. enc x = Inr b) xs bs" and "\<forall>x \<in> set xs. rbind (enc x) dec = Inr (g x)"
  shows "map (\<lambda>f. h (projr (dec (snd f)))) (zip (map name xs) bs) = map (\<lambda>x. h (g x)) xs"
  using assms by (induction rule: list_all2_induct) auto

lemma registry_round_trip_files:
  assumes "yamlFiles codec s cid = Inr files" and "distinct (state_names codec s)"
    and "codec_faithful codec s cid" and "mset listed = mset files"
  shows "stateFromYAML codec listed = Inr (NormalizeCatalogState (s\<lparr>csCatalogID := cid\<rparr>))"
proof -
  let ?V = "csDatasetVersions s" and ?S = "csKnowledgeSets s" and ?R = "csRepositories s"
  obtain m vs ss rs where m: "encMeta codec (cid, csArchived s) = Inr m"
    and vs: "list_all2 (\<lambda>x b. encSet codec x = Inr b) ?V vs"
    and ss: "list_all2 (\<lambda>x b. encSet codec x = Inr b) ?S ss"
    and rs: "list_all2 (\<lambda>x b. encRow codec [(''repository'', x)] = Inr b) ?R rs"
    and files: "files = (CatalogFile, m) # zip (map (version_name codec) ?V) vs @
       zip (map (\<lambda>w. KnowledgeSetYAML (setID w)) ?S) ss @ zip (map RepositoryFile ?R) rs"
    using yamlFiles_list [OF assms(1,2)] .
  have fv: "\<forall>d \<in> set ?V. rbind (encSet codec d) (decSet codec) = Inr d"
    and fs: "\<forall>d \<in> set ?S. rbind (encSet codec d) (decSet codec) = Inr d"
    and fr: "\<forall>r \<in> set ?R. rbind (encRow codec [(''repository'', r)]) (decRow codec) = Inr [(''repository'', r)]"
    and fm: "decMeta codec m = Inr (cid, csArchived s)" and ne: "[] \<notin> set ?R"
    using assms(3) m by (auto simp: codec_faithful_def)
  have "\<forall>f \<in> set files. readable codec (cid, csArchived s) f"
  proof
    fix f assume "f \<in> set files"
    then consider "f = (CatalogFile, m)" | "f \<in> set (zip (map (version_name codec) ?V) vs)"
      | "f \<in> set (zip (map (\<lambda>w. KnowledgeSetYAML (setID w)) ?S) ss)"
      | "f \<in> set (zip (map RepositoryFile ?R) rs)"
      unfolding files by auto
    then show "readable codec (cid, csArchived s) f"
    proof cases
      case 2
      from zip_names_readable [OF vs fv this] show ?thesis
        by (cases f) (auto simp: readable_def names_classified)
    next
      case 3
      from zip_names_readable [OF ss fs this] show ?thesis
        by (cases f) (auto simp: readable_def names_classified)
    next
      case 4
      from zip_names_readable [OF rs fr this] show ?thesis
        using ne by (cases f) (auto simp: readable_def names_classified)
    qed (simp add: readable_def fm)
  qed
  then have "\<forall>f \<in> set listed. readable codec (cid, csArchived s) f"
    using mset_eq_setD [OF assms(4)] by simp
  note loop = state_loop_readable [OF this, of EmptyCatalogState]
  have cf: "CatalogFile \<in> fst ` set listed"
    using mset_eq_setD [OF assms(4)] by (simp add: files)
  have perm: "mset (map h (filter P listed)) = mset (map h (filter P files))" for h :: "string \<times> string \<Rightarrow> 'z" and P
    using assms(4) by simp
  have mv: "mset (map (file_set codec) (filter is_version listed)) = mset ?V"
    unfolding perm files filter_parts(1) [of is_version, OF names_classified(1,5,8,10)]
    by (simp add: decoded_zip [OF vs fv, of "\<lambda>x. x"] file_set_def [abs_def] del: mset_map)
  have ms: "mset (map (file_set codec) (filter is_set listed)) = mset ?S"
    unfolding perm files
      filter_parts(2) [of is_set "\<lambda>w. KnowledgeSetYAML (setID w)", OF names_classified(4,2,9,11)]
    by (simp add: decoded_zip [OF ss fs, of "\<lambda>x. x"] file_set_def [abs_def] del: mset_map)
  have mr: "mset (map (file_row codec) (filter is_repo listed)) = mset ?R"
  proof -
    have "map (\<lambda>f. row_id (projr (decRow codec (snd f)))) (zip (map RepositoryFile ?R) rs) =
        map (\<lambda>x. row_id [(''repository'', x)]) ?R"
      by (rule decoded_zip [OF rs fr])
    also have "\<dots> = ?R" using ne by (intro map_idI) (metis row_id_single)
    finally show ?thesis
      unfolding perm files
        filter_parts(3) [of is_repo RepositoryFile, OF names_classified(7,3) _ names_classified(12)]
      using names_classified(6)
      by (simp add: file_row_def [abs_def] filter_zip_none names_classified filter_zip_all del: mset_map)
  qed
  have d: "distinct (map (version_name codec) ?V)" "distinct (map (\<lambda>w. KnowledgeSetYAML (setID w)) ?S)"
    using assms(2) by (simp_all add: state_names_def)
  have iv: "inj_on (\<lambda>d. (setID d, setRevision d)) (set ?V)"
    using d(1) by (auto simp: distinct_map inj_on_def version_name_def)
  have injS: "inj_on setID (set ?S)" using d(2) by (auto simp: distinct_map inj_on_def)
  have "normalizeDatasetVersions (map (file_set codec) (filter is_version listed)) = normalizeDatasetVersions ?V"
    unfolding normalizeDatasetVersions_def
    by (rule sort_key_inj_key_eq) (use mv iv mset_eq_setD [OF mv] in \<open>simp_all\<close>)
  moreover have "sort_key setID (map (file_set codec) (filter is_set listed)) = sort_key setID ?S"
    by (rule sort_key_inj_key_eq) (use ms injS mset_eq_setD [OF ms] in \<open>simp_all\<close>)
  moreover have "sort (map (file_row codec) (filter is_repo listed)) = sort ?R"
    by (rule properties_for_sort) (use mr in simp_all)
  ultimately show ?thesis
    unfolding stateFromYAML_def loop
    by (simp add: EmptyCatalogState_def NormalizeCatalogState_def cf)
qed

lemma saveExpected_stale:
  "expected \<noteq> rhHead g \<Longrightarrow> saveExpected codec tr expected state st g s = (fails ErrNonFastForward, g, s)"
  by (simp add: saveExpected_def)

lemma saveSnapshot_moved:
  assumes "trHead tr (rhRef g) s = Inr actual" and "actual \<noteq> rhHead g"
  shows "\<exists>e. saveSnapshot codec tr state st g s = (Inl e, g, s)"
proof -
  let ?next = "(NormalizeCatalogState state)\<lparr>csCatalogID := rhCatalogID g\<rparr>"
  show ?thesis
    using assms by (cases "registry_load codec tr g s") (auto simp: saveSnapshot_def Let_def)
qed

lemma saveSnapshot_error:
  assumes "saveSnapshot codec (memory_tree commit_id) state st g s = (Inl e, g', s')"
  shows "g' = g \<and> s' = s"
  using assms
  by (auto simp: saveSnapshot_def Let_def memory_tree_def dest!: ms_Apply_error
      split: sum.splits option.splits prod.splits)

section \<open>Properties\<close>

text \<open>A concrete state and codec for the witnesses.\<close>

definition demo_set :: KnowledgeSet where
  "demo_set = \<lparr>setID = ''docs'', setRevision = 1, setSources = demo_frozen, setItems = demo_items,
     setRetired = False\<rparr>"

definition demo_state :: CatalogState where
  "demo_state = \<lparr>csKnowledgeSets = [demo_set], csDatasetVersions = [demo_set],
     csRepositories = [''kr://a/b''], csArchived = False, csCatalogID = []\<rparr>"

definition demo_codec :: catalog_codec where
  "demo_codec = \<lparr>encMeta = (\<lambda>(i, a). Inr (if a then CHR ''T'' # i else CHR ''F'' # i)),
     encSet = (\<lambda>d. Inr ''set''), encRow = (\<lambda>row. Inr (row_id row)),
     decMeta = (\<lambda>b. case b of [] \<Rightarrow> Inl Bare | c # i \<Rightarrow> Inr (i, c = CHR ''T'')),
     decSet = (\<lambda>b. Inr demo_set), decRow = (\<lambda>b. Inr [(''repository'', b)]),
     shaHex = (\<lambda>s. ''00''), 
     stateDigest = (\<lambda>s. csCatalogID s @ concat (map setID (csKnowledgeSets s)) @ concat (csRepositories s))\<rparr>"



text \<open>The file names are not injective: two dataset ids, or two repository ids, that differ only in
  characters outside the token alphabet share one file, and the later record replaces the earlier
  one.\<close>

lemma registry_names_collide:
  "KnowledgeSetYAML ''a b'' = KnowledgeSetYAML ''a_b'' \<and>
   RepositoryFile ''kr://acme/x'' = RepositoryFile ''kr://acme_x''"
  by code_simp

lemma colliding_repository_is_lost:
  "rbind (yamlFiles demo_codec (demo_state\<lparr>csRepositories := [''kr://acme/x'', ''kr://acme_x'']\<rparr>) ''cat'')
     (\<lambda>files. rbind (stateFromYAML demo_codec files) (\<lambda>s. Inr (csRepositories s)))
   = Inr [''kr://acme_x'']"
  by code_simp

end
