(* ===== verification/Catalog.thy ===== *)
theory Catalog
  imports CatalogRegistry
begin

text \<open>
  The catalog (\<open>src/snapshot/dataset/catalog.go\<close>, \<open>lifecycle.go\<close> and the publication half of
  \<open>definition.go\<close>): registered repositories, the current definition of every dataset and its
  published releases, all persisted through the registry before memory changes.

  The registry is an interface of the catalog (locale \<open>catalog_registry\<close>), interpreted on the
  compare-and-swap registry over a snapshot authority.  The event journal is the outcome of its
  append, and in-process hooks are not modelled.
\<close>

section \<open>State\<close>

record 'g registry_ops =
  roCatalogID :: "'g \<Rightarrow> string"
  roLoad :: "'g \<Rightarrow> (CatalogState \<times> string) go"
  roSave :: "string \<Rightarrow> CatalogState \<Rightarrow> stamp \<Rightarrow> 'g \<Rightarrow> string go \<times> 'g"

record ('g, 'st, 'w) Catalog =
  catStore :: "('st, 'w) SnapshotStore.Registry option"
  catRegistry :: "'g"
  catRegistryHead :: string
  catDatasets :: "(string, KnowledgeSet) gomap"
  catVersions :: "(string, (int, KnowledgeSet) gomap) gomap"
  catRepositories :: "string list"
  catReadOnly :: bool
  catArchived :: bool
  catJournal :: "string \<Rightarrow> go_error option \<Rightarrow> go_error option"
  catAs :: string
  catRequestID :: string
  catRuleID :: string

text \<open>\<open>journal.Finish\<close>: the original error wins over an error of the journal.\<close>

definition journal_Finish :: "(string \<Rightarrow> go_error option \<Rightarrow> go_error option) \<Rightarrow> string \<Rightarrow>
    go_error option \<Rightarrow> go_error option" where
  "journal_Finish j cmd err = (case err of Some e \<Rightarrow> Some e | None \<Rightarrow> j cmd None)"

section \<open>Loading and dumping\<close>

definition loadVersion :: "(string, (int, KnowledgeSet) gomap) gomap \<Rightarrow> KnowledgeSet \<Rightarrow>
    (string, (int, KnowledgeSet) gomap) gomap" where
  "loadVersion versions def =
    (let inner = (case map_of versions (setID def) of None \<Rightarrow> [] | Some m \<Rightarrow> m) in
     AList.update (setID def) (AList.update (setRevision def) (def\<lparr>setRetired := False\<rparr>) inner) versions)"

definition loadDataset :: "(string, KnowledgeSet) gomap \<Rightarrow> KnowledgeSet \<Rightarrow> (string, KnowledgeSet) gomap" where
  "loadDataset datasets def = AList.update (setID def) def datasets"

definition loadState :: "CatalogState \<Rightarrow> ('g, 'st, 'w) Catalog \<Rightarrow> ('g, 'st, 'w) Catalog" where
  "loadState state c = c\<lparr>
     catArchived := csArchived state,
     catRepositories := dedup (csRepositories state),
     catDatasets := foldl loadDataset [] (csKnowledgeSets state),
     catVersions := foldl loadVersion (foldl loadVersion [] (csKnowledgeSets state))
                      (csDatasetVersions state)\<rparr>"

definition datasetVersions :: "('g, 'st, 'w) Catalog \<Rightarrow> KnowledgeSet list" where
  "datasetVersions c = normalizeDatasetVersions (concat (map (\<lambda>(_, m). map snd m) (catVersions c)))"

definition dumpState :: "'g registry_ops \<Rightarrow> ('g, 'st, 'w) Catalog \<Rightarrow> CatalogState" where
  "dumpState ops c =
    \<lparr>csKnowledgeSets = map snd (catDatasets c), csDatasetVersions = datasetVersions c,
     csRepositories = catRepositories c, csArchived = catArchived c,
     csCatalogID = roCatalogID ops (catRegistry c)\<rparr>"

definition NewCatalog :: "'g registry_ops \<Rightarrow> ('st, 'w) SnapshotStore.Registry option \<Rightarrow> 'g \<Rightarrow>
    ('g, 'st, 'w) Catalog go" where
  "NewCatalog ops store registry =
    rbind (roLoad ops registry) (\<lambda>(state, head).
      Inr (loadState state \<lparr>catStore = store, catRegistry = registry, catRegistryHead = head,
        catDatasets = [], catVersions = [], catRepositories = [], catReadOnly = False,
        catArchived = False, catJournal = (\<lambda>_ _. None), catAs = [], catRequestID = [],
        catRuleID = []\<rparr>))"

section \<open>Persisting\<close>

definition ensureWritable :: "('g, 'st, 'w) Catalog \<Rightarrow> unit go" where
  "ensureWritable c =
    (if catReadOnly c then fails ErrPreconditionFailed
     else if catArchived c then fails ErrCatalogArchived else Inr ())"

definition persist_cmd :: "string \<Rightarrow> string" where
  "persist_cmd message = (let cmd = takeWhile (\<lambda>c. c \<noteq> CHR '' '') (TrimSpace message) in
     if cmd = [] then ''persist'' else cmd)"

definition persist :: "'g registry_ops \<Rightarrow> CatalogState \<Rightarrow> string \<Rightarrow> ('g, 'st, 'w) Catalog \<Rightarrow>
    unit go \<times> ('g, 'st, 'w) Catalog" where
  "persist ops state message c =
    (if catReadOnly c then (fails ErrPreconditionFailed, c)
     else (case roSave ops (catRegistryHead c) state
              \<lparr>stMessage = message, stAuthor = catAs c, stRequestID = catRequestID c,
               stRuleID = catRuleID c\<rparr> (catRegistry c) of
       (saved, registry) \<Rightarrow>
         (let c1 = (case saved of
              Inr head \<Rightarrow> loadState state (c\<lparr>catRegistry := registry, catRegistryHead := head\<rparr>)
            | Inl _ \<Rightarrow> c\<lparr>catRegistry := registry\<rparr>) in
          case journal_Finish (catJournal c) (persist_cmd message)
                 (case saved of Inl e \<Rightarrow> Some e | Inr _ \<Rightarrow> None) of
            Some e \<Rightarrow> (Inl e, c1)
          | None \<Rightarrow> (Inr (), c1))))"

definition SetStamp :: "string \<Rightarrow> string \<Rightarrow> string \<Rightarrow> ('g, 'st, 'w) Catalog \<Rightarrow> ('g, 'st, 'w) Catalog" where
  "SetStamp as requestID ruleID c = c\<lparr>catAs := as, catRequestID := requestID, catRuleID := ruleID\<rparr>"

definition RecordCreated :: "'g registry_ops \<Rightarrow> ('g, 'st, 'w) Catalog \<Rightarrow> unit go \<times> ('g, 'st, 'w) Catalog" where
  "RecordCreated ops c = persist ops (dumpState ops c) (''init '' @ roCatalogID ops (catRegistry c)) c"

section \<open>Repositories and lifecycle\<close>

definition HasRepository :: "string \<Rightarrow> ('g, 'st, 'w) Catalog \<Rightarrow> bool" where
  "HasRepository rid c = (rid \<in> set (catRepositories c))"

definition requireRepository :: "string \<Rightarrow> ('g, 'st, 'w) Catalog \<Rightarrow> unit go" where
  "requireRepository rid c = (if \<not> HasRepository rid c then fails ErrKnowledgeSetInvalid else Inr ())"

definition RegisterRepository :: "'g registry_ops \<Rightarrow> 'st snapshot_ops \<Rightarrow> string \<Rightarrow>
    ('g, 'st, 'w) Catalog \<Rightarrow> unit go \<times> ('g, 'st, 'w) Catalog" where
  "RegisterRepository ops sops rid c =
    (case ensureWritable c of
      Inl e \<Rightarrow> (Inl e, c)
    | Inr _ \<Rightarrow>
        if rid = [] then (fails ErrUsageInvalid, c)
        else if (case Option.bind (catStore c) (Registry_Get rid) of
                   Some repo \<Rightarrow> stArchived sops repo | None \<Rightarrow> False)
        then (fails ErrRepositoryArchived, c)
        else (let state = dumpState ops c;
                  next = (if rid \<notin> set (catRepositories c)
                          then state\<lparr>csRepositories := csRepositories state @ [rid]\<rparr> else state) in
              persist ops next (''register '' @ rid) c))"

definition UnregisterRepository :: "'g registry_ops \<Rightarrow> string \<Rightarrow> ('g, 'st, 'w) Catalog \<Rightarrow>
    unit go \<times> ('g, 'st, 'w) Catalog" where
  "UnregisterRepository ops rid c =
    (case ensureWritable c of
      Inl e \<Rightarrow> (Inl e, c)
    | Inr _ \<Rightarrow>
        if rid = [] then (fails ErrUsageInvalid, c)
        else if rid \<notin> set (catRepositories c) then (fails ErrKnowledgeSetInvalid, c)
        else (let state = dumpState ops c in
              persist ops (state\<lparr>csRepositories := filter (\<lambda>r. r \<noteq> rid) (csRepositories state)\<rparr>)
                (''unregister '' @ rid) c))"

definition RetireKnowledgeSet :: "'g registry_ops \<Rightarrow> string \<Rightarrow> ('g, 'st, 'w) Catalog \<Rightarrow>
    unit go \<times> ('g, 'st, 'w) Catalog" where
  "RetireKnowledgeSet ops sid c =
    (case ensureWritable c of
      Inl e \<Rightarrow> (Inl e, c)
    | Inr _ \<Rightarrow>
        if map_of (catDatasets c) sid = None then (fails ErrKnowledgeSetInvalid, c)
        else (let state = dumpState ops c in
              persist ops (state\<lparr>csKnowledgeSets :=
                  map (\<lambda>d. if setID d = sid then d\<lparr>setRetired := True\<rparr> else d) (csKnowledgeSets state)\<rparr>)
                (''dataset-retire '' @ sid) c))"

definition Archive :: "'g registry_ops \<Rightarrow> ('g, 'st, 'w) Catalog \<Rightarrow> unit go \<times> ('g, 'st, 'w) Catalog" where
  "Archive ops c = persist ops ((dumpState ops c)\<lparr>csArchived := True\<rparr>) ''archive-catalog'' c"

definition Require :: "string \<Rightarrow> ('g, 'st, 'w) Catalog \<Rightarrow> 'st go" where
  "Require rid c = (case catStore c of None \<Rightarrow> fails ErrUsageInvalid
     | Some store \<Rightarrow> Registry_Require rid ErrUsageInvalid store)"

section \<open>Publication\<close>

definition checkNextRevision :: "string \<Rightarrow> int \<Rightarrow> ('g, 'st, 'w) Catalog \<Rightarrow> unit go" where
  "checkNextRevision sid revision c =
    (if TrimSpace sid = [] \<or> revision \<le> 0 then fails ErrKnowledgeSetInvalid
     else (case map_of (catDatasets c) sid of
       None \<Rightarrow> Inr ()
     | Some existing \<Rightarrow>
         if setRetired existing then fails ErrKnowledgeSetInvalid
         else if revision \<le> setRevision existing then fails ErrNonFastForward else Inr ()))"

definition PrepareKnowledgeSet :: "'st snapshot_ops \<Rightarrow> string \<Rightarrow> int \<Rightarrow> KnowledgeSetSource list \<Rightarrow>
    ('g, 'st, 'w) Catalog \<Rightarrow> KnowledgeSet go" where
  "PrepareKnowledgeSet sops sid revision sources c =
    rbind (ensureWritable c) (\<lambda>_.
    rbind (checkNextRevision sid revision c) (\<lambda>_.
    rbind (each_ok (\<lambda>src. if srcRepository src \<notin> set (catRepositories c)
                          then fails ErrKnowledgeSetInvalid else Inr ()) sources) (\<lambda>_.
    rbind (validateMountPaths sources) (\<lambda>_.
    rbind (validateSourceCoordinates sources) (\<lambda>_.
    rbind (freezeSources sops (catStore c) sources) (\<lambda>frozen.
    rbind (datasetItemsFromSources frozen []) (\<lambda>items.
      Inr \<lparr>setID = sid, setRevision = revision, setSources = frozen, setItems = items,
           setRetired = False\<rparr>)))))))"

definition publish_candidate :: "'st snapshot_ops \<Rightarrow> KnowledgeSet \<Rightarrow> ('g, 'st, 'w) Catalog \<Rightarrow>
    KnowledgeSet go" where
  "publish_candidate sops def c =
    rbind (ensureWritable c) (\<lambda>_.
    rbind (checkNextRevision (setID def) (setRevision def) c) (\<lambda>_.
      if length (setSources def) = 0 then fails ErrKnowledgeSetInvalid
      else
        rbind (validateMountPaths (setSources def)) (\<lambda>_.
        rbind (validateSourceCoordinates (setSources def)) (\<lambda>_.
        rbind (each_ok (\<lambda>src. if srcRepository src \<notin> set (catRepositories c) \<or> srcCommit src = []
                              then fails ErrKnowledgeSetInvalid else Inr ()) (setSources def)) (\<lambda>_.
        rbind (freezeSources sops (catStore c) (setSources def)) (\<lambda>frozen.
        rbind (datasetItemsFromSources frozen []) (\<lambda>items.
          Inr \<lparr>setID = setID def, setRevision = setRevision def, setSources = frozen,
               setItems = items, setRetired = False\<rparr>)))))))"

definition PublishKnowledgeSet :: "'g registry_ops \<Rightarrow> 'st snapshot_ops \<Rightarrow> KnowledgeSet \<Rightarrow>
    ('g, 'st, 'w) Catalog \<Rightarrow> KnowledgeSet go \<times> ('g, 'st, 'w) Catalog" where
  "PublishKnowledgeSet ops sops def0 c =
    (case publish_candidate sops def0 c of
      Inl e \<Rightarrow> (Inl e, c)
    | Inr def \<Rightarrow>
        (let state = dumpState ops c;
             next = state\<lparr>csKnowledgeSets :=
                 filter (\<lambda>existing. setID existing \<noteq> setID def) (csKnowledgeSets state) @ [def],
               csDatasetVersions := csDatasetVersions state @ [def]\<rparr> in
         case persist ops next (''dataset-define '' @ setID def) c of
           (Inl e, c') \<Rightarrow> (Inl e, c')
         | (Inr _, c') \<Rightarrow> (Inr def, c')))"

definition DefineKnowledgeSet :: "'g registry_ops \<Rightarrow> 'st snapshot_ops \<Rightarrow> string \<Rightarrow> int \<Rightarrow>
    KnowledgeSetSource list \<Rightarrow> ('g, 'st, 'w) Catalog \<Rightarrow> KnowledgeSet go \<times> ('g, 'st, 'w) Catalog" where
  "DefineKnowledgeSet ops sops sid revision sources c =
    (case PrepareKnowledgeSet sops sid revision sources c of
      Inl e \<Rightarrow> (Inl e, c)
    | Inr def \<Rightarrow> PublishKnowledgeSet ops sops def c)"

definition version_in :: "(string, (int, KnowledgeSet) gomap) gomap \<Rightarrow> string \<Rightarrow> int \<Rightarrow> KnowledgeSet option" where
  "version_in versions sid revision =
    (case map_of versions sid of None \<Rightarrow> None | Some m \<Rightarrow> map_of m revision)"

definition DatasetVersion :: "string \<Rightarrow> int \<Rightarrow> ('g, 'st, 'w) Catalog \<Rightarrow> KnowledgeSet go" where
  "DatasetVersion sid revision c =
    (case map_of (catDatasets c) sid of
      None \<Rightarrow> fails ErrKnowledgeSetInvalid
    | Some current \<Rightarrow>
        if setRetired current then fails ErrKnowledgeSetInvalid
        else (case version_in (catVersions c) sid revision of
          None \<Rightarrow> fails ErrVersionUnresolved | Some def \<Rightarrow> Inr def))"

definition Catalog_Set :: "string \<Rightarrow> ('g, 'st, 'w) Catalog \<Rightarrow> KnowledgeSet go" where
  "Catalog_Set sid c =
    (case map_of (catDatasets c) sid of None \<Rightarrow> fails ErrKnowledgeSetInvalid | Some def \<Rightarrow> Inr def)"

end
