(* ===== verification/RawWriter.thy ===== *)
theory RawWriter
  imports BoltStore Catalog
begin

text \<open>
  The write service for literal path bytes (\<open>src/snapshot/treewriter\<close>): one tree commit per command id,
  guarded by the command ledger.  The digest of a change set and the JSON encodings are parameters
  (\<open>raw_codec\<close>); \<open>tree_of\<close> is the optional tree capability of a store.
\<close>

section \<open>Receipts\<close>

definition DispositionApplied :: string where "DispositionApplied = ''APPLIED''"
definition DispositionReplayed :: string where "DispositionReplayed = ''REPLAYED''"

record WriteResult =
  wsRepositoryID :: string
  wsCommitID :: string
  wsTargetRef :: string
  wsOldCommit :: string
  wsNewCommit :: string

record WriteReceipt =
  wrReceiptRef :: string
  wrCommandID :: string
  wrSurface :: string
  wrDisposition :: string
  wrResult :: WriteResult

definition Receipt_Protocol :: "WriteReceipt \<Rightarrow> SnapshotReceipt" where
  "Receipt_Protocol r = \<lparr>rcReceiptRef = wrReceiptRef r, rcCommandID = wrCommandID r,
     rcSurface = wrSurface r, rcDisposition = wrDisposition r,
     rcResult = \<lparr>rrRepositoryID = wsRepositoryID (wrResult r), rrCommitID = wsCommitID (wrResult r),
       rrTargetRef = wsTargetRef (wrResult r), rrOldCommit = wsOldCommit (wrResult r),
       rrNewCommit = wsNewCommit (wrResult r)\<rparr>\<rparr>"

section \<open>The writer\<close>

definition RawSurface :: string where "RawSurface = ''RAW_WRITE''"

record raw_codec =
  rwDigest :: "TreeChangeSet \<Rightarrow> string"
  rwMarshalRequest :: "TreeChangeSet \<Rightarrow> string go"
  rwUnmarshalRequest :: "string \<Rightarrow> TreeChangeSet go"
  rwMarshalReceipt :: "WriteReceipt \<Rightarrow> string go"
  rwUnmarshalReceipt :: "string \<Rightarrow> WriteReceipt go"

record raw_writer =
  rwAuthor :: string
  rwRequestID :: string
  rwRuleID :: string
  rwJournal :: "string \<Rightarrow> go_error option \<Rightarrow> go_error option"

definition RawWriter_New :: "'s Ledger option \<Rightarrow> 's \<Rightarrow> 's Ledger go" where
  "RawWriter_New commands s = (case commands of None \<Rightarrow> Ledger_New None s | Some l \<Rightarrow> Inr l)"

definition RawWriter_SetStamp :: "string \<Rightarrow> string \<Rightarrow> string \<Rightarrow> raw_writer \<Rightarrow> raw_writer" where
  "RawWriter_SetStamp as requestID ruleID w = w\<lparr>rwAuthor := as, rwRequestID := requestID, rwRuleID := ruleID\<rparr>"

definition RawLookup :: "raw_codec \<Rightarrow> 's store_ops option \<Rightarrow> string \<Rightarrow> 's Ledger \<Rightarrow>
    (TreeChangeSet \<times> WriteReceipt) option \<times> 's Ledger" where
  "RawLookup codec store cid l =
    (case Lookup store cid l of
      (None, l') \<Rightarrow> (None, l')
    | (Some e, l') \<Rightarrow>
        if reqKind (entRequest e) \<noteq> RawSurface \<or> length (reqTreeChangeSet (entRequest e)) = 0 then (None, l')
        else (case (rwUnmarshalRequest codec (reqTreeChangeSet (entRequest e)),
                    rwUnmarshalReceipt codec (entReceipt e)) of
          (Inr cs, Inr receipt) \<Rightarrow> (Some (cs, receipt), l')
        | _ \<Rightarrow> (None, l')))"

text \<open>A store is a pointer: what the adapter does to it is seen through the registry.\<close>

definition Registry_Mutate :: "string \<Rightarrow> 'st \<Rightarrow> ('st, 'w) Registry \<Rightarrow> ('st, 'w) Registry" where
  "Registry_Mutate k st r = r\<lparr>rgStores := AList.update k st (rgStores r)\<rparr>"

definition stamp_changes :: "raw_writer \<Rightarrow> TreeChangeSet \<Rightarrow> TreeChangeSet" where
  "stamp_changes w cs = cs\<lparr>
     tcsAuthor := (if tcsAuthor cs = [] then rwAuthor w else tcsAuthor cs),
     tcsRequestID := (if tcsRequestID cs = [] then rwRequestID w else tcsRequestID cs),
     tcsRuleID := (if tcsRuleID cs = [] then rwRuleID w else tcsRuleID cs)\<rparr>"

type_synonym 'st tree_capability = "'st \<Rightarrow> (TreeChangeSet \<Rightarrow> 'st \<Rightarrow> string go \<times> 'st) option"

definition raw_apply :: "'st snapshot_ops \<Rightarrow> 'st tree_capability \<Rightarrow> 'st \<Rightarrow> string \<Rightarrow> TreeChangeSet \<Rightarrow>
    ('st, 'w) Registry \<times> 'w \<Rightarrow> WriteReceipt go \<times> ('st, 'w) Registry \<times> 'w" where
  "raw_apply sops tree_of target cid cs world =
    (case tree_of target of
      None \<Rightarrow> (fails ErrCapabilityUnsatisfied, world)
    | Some apply_tree \<Rightarrow>
        (case stHead sops (tcsTargetRef cs) target of
          Inl e \<Rightarrow> (Inl e, world)
        | Inr oldCommit \<Rightarrow>
            (case apply_tree cs target of
              (Inl e, target') \<Rightarrow>
                (Inl e, Registry_Mutate (tcsTargetRepository cs) target' (fst world), snd world)
            | (Inr newCommit, target') \<Rightarrow>
                (let applied = \<lparr>wrReceiptRef = ''receipt:raw_write:'' @ newCommit, wrCommandID = cid,
                       wrSurface = RawSurface, wrDisposition = DispositionApplied,
                       wrResult = \<lparr>wsRepositoryID = tcsTargetRepository cs, wsCommitID = newCommit,
                         wsTargetRef = tcsTargetRef cs, wsOldCommit = oldCommit, wsNewCommit = newCommit\<rparr>\<rparr>;
                     reg = Registry_Mutate (tcsTargetRepository cs) target' (fst world) in
                 (Inr applied, reg,
                  NotifyAdvanced reg \<lparr>adStore = Some target', adFrom = oldCommit, adTo = newCommit\<rparr>
                    (snd world))))))"

definition raw_request :: "TreeChangeSet \<Rightarrow> string \<Rightarrow> CmdRequest" where
  "raw_request cs raw = \<lparr>reqKind = RawSurface, reqRepositoryID = tcsTargetRepository cs,
     reqTargetRef = tcsTargetRef cs, reqBaseCommit = tcsBaseCommit cs,
     reqExpectedTargetCommit = tcsExpectedTargetCommit cs,
     reqOperationCount = int (length (tcsChanges cs)), reqTreeChangeSet = raw\<rparr>"

definition raw_commit_body :: "raw_codec \<Rightarrow> 'st snapshot_ops \<Rightarrow> 'st tree_capability \<Rightarrow> 's store_ops option \<Rightarrow>
    raw_writer \<Rightarrow> string \<Rightarrow> TreeChangeSet \<Rightarrow> string \<Rightarrow> string \<Rightarrow> 's Ledger \<Rightarrow> ('st, 'w) Registry \<times> 'w \<Rightarrow>
    WriteReceipt go \<times> 's Ledger \<times> ('st, 'w) Registry \<times> 'w" where
  "raw_commit_body codec sops tree_of store wr cid cs0 now now2 l world =
    (if tcsTargetRepository cs0 = [] then (fails ErrWriteTargetRequired, l, world)
     else if tcsTargetRef cs0 = [] then (fails ErrWriteTargetRequired, l, world)
     else if length (tcsChanges cs0) = 0 then (fails ErrUsageInvalid, l, world)
     else (case Registry_Require (tcsTargetRepository cs0) ErrTargetRepositoryDenied (fst world) of
       Inl e \<Rightarrow> (Inl e, l, world)
     | Inr target \<Rightarrow>
         if stArchived sops target then (fails ErrRepositoryArchived, l, world)
         else (let digest = rwDigest codec cs0; cs = stamp_changes wr cs0 in
           case rwMarshalRequest codec cs of
             Inl e \<Rightarrow> (Inl e, l, world)
           | Inr raw \<Rightarrow>
               (case Execute store (rwMarshalReceipt codec) cid digest (raw_request cs raw) now now2
                       (raw_apply sops tree_of target cid cs) l world of
                 (Inl e, l', world') \<Rightarrow> (Inl e, l', world')
               | (Inr (entry, replayed), l', world') \<Rightarrow>
                   (case rwUnmarshalReceipt codec (entReceipt entry) of
                     Inl e \<Rightarrow> (Inl e, l', world')
                   | Inr receipt \<Rightarrow>
                       (Inr (if replayed then receipt\<lparr>wrDisposition := DispositionReplayed\<rparr> else receipt),
                        l', world'))))))"

definition RawCommit :: "raw_codec \<Rightarrow> 'st snapshot_ops \<Rightarrow> 'st tree_capability \<Rightarrow> 's store_ops option \<Rightarrow>
    raw_writer \<Rightarrow> string \<Rightarrow> TreeChangeSet \<Rightarrow> string \<Rightarrow> string \<Rightarrow> 's Ledger \<Rightarrow> ('st, 'w) Registry \<times> 'w \<Rightarrow>
    WriteReceipt go \<times> 's Ledger \<times> ('st, 'w) Registry \<times> 'w" where
  "RawCommit codec sops tree_of store wr cid cs now now2 l world =
    (case raw_commit_body codec sops tree_of store wr cid cs now now2 l world of
      (r, l', world') \<Rightarrow>
        (case journal_Finish (rwJournal wr) RawSurface (case r of Inl e \<Rightarrow> Some e | Inr _ \<Rightarrow> None) of
          Some e \<Rightarrow> (Inl e, l', world')
        | None \<Rightarrow> (r, l', world')))"

section \<open>Facts\<close>

text \<open>JSON of a receipt is not empty and decodes to the receipt; every change set has a JSON text.\<close>

definition raw_codec_ok :: "raw_codec \<Rightarrow> bool" where
  "raw_codec_ok codec =
    ((\<forall>r raw. rwMarshalReceipt codec r = Inr raw \<longrightarrow> raw \<noteq> [] \<and> rwUnmarshalReceipt codec raw = Inr r) \<and>
     (\<forall>cs. ok (rwMarshalRequest codec cs)))"

lemma raw_codec_receipt:
  assumes "raw_codec_ok codec" "rwMarshalReceipt codec r = Inr raw"
  shows "raw \<noteq> []" "rwUnmarshalReceipt codec raw = Inr r"
  using assms unfolding raw_codec_ok_def by blast+

lemma raw_codec_request: "raw_codec_ok codec \<Longrightarrow> \<exists>raw. rwMarshalRequest codec cs = Inr raw"
  unfolding raw_codec_ok_def ok_iff by blast

lemma stamped_fields [simp]:
  "tcsTargetRepository (stamp_changes w cs) = tcsTargetRepository cs"
  "tcsTargetRef (stamp_changes w cs) = tcsTargetRef cs"
  "tcsExpectedTargetCommit (stamp_changes w cs) = tcsExpectedTargetCommit cs"
  "tcsChanges (stamp_changes w cs) = tcsChanges cs"
  by (simp_all add: stamp_changes_def)

lemma journal_Finish_None: "journal_Finish j cmd err = None \<longleftrightarrow> err = None \<and> j cmd None = None"
  by (auto simp: journal_Finish_def split: option.splits)

lemma Execute_fresh:
  assumes "Execute store marshal cid digest request now now2 f l w = (Inr (e, False), l', w')"
  shows "\<exists>r. f w = (Inr r, w') \<and> marshal r = Inr (entReceipt e)"
  using assms
  by (auto simp: Execute_def dest!: settle_entry(6) split: prod.splits sum.splits option.splits)

lemma Execute_replayed:
  assumes "Execute store marshal cid digest request now now2 f l w = (Inr (e, True), l', w')"
  shows "w' = w"
  using assms
  by (auto simp: Execute_def dest: settle_entry(5) split: prod.splits sum.splits option.splits)

lemma RawCommit_Inr:
  assumes "RawCommit codec sops tree_of store wr cid cs now now2 l world = (Inr receipt, l', world')"
  obtains target raw e replayed r where
    "tcsTargetRepository cs \<noteq> []" "tcsTargetRef cs \<noteq> []" "tcsChanges cs \<noteq> []"
    "Registry_Get (tcsTargetRepository cs) (fst world) = Some target" "\<not> stArchived sops target"
    "Execute store (rwMarshalReceipt codec) cid (rwDigest codec cs) (raw_request (stamp_changes wr cs) raw)
       now now2 (raw_apply sops tree_of target cid (stamp_changes wr cs)) l world = (Inr (e, replayed), l', world')"
    "rwUnmarshalReceipt codec (entReceipt e) = Inr r"
    "receipt = (if replayed then r\<lparr>wrDisposition := DispositionReplayed\<rparr> else r)"
proof -
  have "raw_commit_body codec sops tree_of store wr cid cs now now2 l world = (Inr receipt, l', world')"
    using assms by (auto simp: RawCommit_def split: prod.splits option.splits)
  then show ?thesis
    by (auto simp: raw_commit_body_def Registry_Require_def Let_def
        split: if_splits option.splits sum.splits prod.splits intro!: that)
qed

lemma RawCommit_open:
  assumes "tcsTargetRepository cs \<noteq> []" "tcsTargetRef cs \<noteq> []" "tcsChanges cs \<noteq> []"
    and "Registry_Get (tcsTargetRepository cs) (fst world) = Some target" "\<not> stArchived sops target"
    and "rwMarshalRequest codec (stamp_changes wr cs) = Inr raw" "rwJournal wr RawSurface None = None"
  shows "RawCommit codec sops tree_of store wr cid cs now now2 l world =
    (case Execute store (rwMarshalReceipt codec) cid (rwDigest codec cs) (raw_request (stamp_changes wr cs) raw)
       now now2 (raw_apply sops tree_of target cid (stamp_changes wr cs)) l world of
      (Inl e, l', world') \<Rightarrow> (Inl e, l', world')
    | (Inr (entry, replayed), l', world') \<Rightarrow>
        (case rwUnmarshalReceipt codec (entReceipt entry) of
          Inl e \<Rightarrow> (Inl e, l', world')
        | Inr receipt \<Rightarrow>
            (Inr (if replayed then receipt\<lparr>wrDisposition := DispositionReplayed\<rparr> else receipt), l', world')))"
  using assms
  by (auto simp: RawCommit_def raw_commit_body_def Registry_Require_def Let_def journal_Finish_def
      split: prod.splits sum.splits)

lemma raw_applied:
  assumes "raw_codec_ok codec"
    and "Execute store (rwMarshalReceipt codec) cid digest request now now2
       (raw_apply sops tree_of target cid cs) l world = (Inr (e, replayed), l', world')"
    and "rwUnmarshalReceipt codec (entReceipt e) = Inr r"
    and "wrDisposition (if replayed then r\<lparr>wrDisposition := DispositionReplayed\<rparr> else r) = DispositionApplied"
  shows "\<not> replayed" "raw_apply sops tree_of target cid cs world = (Inr r, world')"
proof -
  show n: "\<not> replayed" using assms(4) by (auto simp: DispositionApplied_def DispositionReplayed_def)
  then obtain r' where r': "raw_apply sops tree_of target cid cs world = (Inr r', world')"
    "rwMarshalReceipt codec r' = Inr (entReceipt e)" using assms(2) Execute_fresh by fastforce
  then show "raw_apply sops tree_of target cid cs world = (Inr r, world')"
    using raw_codec_receipt(2) [OF assms(1) r'(2)] assms(3) by simp
qed

section \<open>Properties\<close>

text \<open>A concrete codec and write for the witnesses: the fields of a receipt, one per line.\<close>

definition encode_receipt :: "WriteReceipt \<Rightarrow> string" where
  "encode_receipt r = Join [CHR 0x0A] [wrReceiptRef r, wrCommandID r, wrSurface r, wrDisposition r,
     wsRepositoryID (wrResult r), wsCommitID (wrResult r), wsTargetRef (wrResult r),
     wsOldCommit (wrResult r), wsNewCommit (wrResult r)]"

definition decode_receipt :: "string \<Rightarrow> WriteReceipt go" where
  "decode_receipt raw = (case Split (CHR 0x0A) raw of
     [a, b, c, d, e, f, g, h, i] \<Rightarrow> Inr \<lparr>wrReceiptRef = a, wrCommandID = b, wrSurface = c, wrDisposition = d,
       wrResult = \<lparr>wsRepositoryID = e, wsCommitID = f, wsTargetRef = g, wsOldCommit = h, wsNewCommit = i\<rparr>\<rparr>
   | _ \<Rightarrow> Inl Bare)"

definition demo_raw_codec :: raw_codec where
  "demo_raw_codec = \<lparr>rwDigest = (\<lambda>cs. tcsMessage cs @ concat (map tcContent (tcsChanges cs))),
     rwMarshalRequest = (\<lambda>cs. Inr (tcsMessage cs @ ''!'')), rwUnmarshalRequest = (\<lambda>_. Inl Bare),
     rwMarshalReceipt = (\<lambda>r. if encode_receipt r \<noteq> [] \<and> decode_receipt (encode_receipt r) = Inr r
       then Inr (encode_receipt r) else Inl Bare),
     rwUnmarshalReceipt = decode_receipt\<rparr>"

definition demo_writer :: raw_writer where
  "demo_writer = \<lparr>rwAuthor = ''ann'', rwRequestID = ''r1'', rwRuleID = [], rwJournal = (\<lambda>_ _. None)\<rparr>"

definition demo_raw_change :: TreeChangeSet where
  "demo_raw_change = demo_change\<lparr>tcsTargetRef := DefaultRef\<rparr>"

definition demo_raw_registry :: "(memoryStore, (string \<times> string) list) SnapshotStore.Registry" where
  "demo_raw_registry = \<lparr>rgStores = [(''kr://a/b'', newMemoryStore demo_root ''kr://a/b'')],
     rgOnAdvanced = [\<lambda>ev seen. seen @ [(adFrom ev, adTo ev)]], rgWrap = None\<rparr>"

definition demo_trees :: "memoryStore tree_capability" where
  "demo_trees = (\<lambda>_. Some (ms_ApplyTreeCommit demo_id))"

definition demo_write :: "WriteReceipt go \<times> (string, stored) gomap option Ledger \<times>
    (memoryStore, (string \<times> string) list) SnapshotStore.Registry \<times> (string \<times> string) list" where
  "demo_write = RawCommit demo_raw_codec memory_ops demo_trees (Some demo_store) demo_writer ''c1'' demo_raw_change
     ''t0'' ''t0'' demo_empty (demo_raw_registry, [])"

lemma demo_raw_codec_ok: "raw_codec_ok demo_raw_codec"
  by (auto simp: raw_codec_ok_def demo_raw_codec_def split: if_splits)

text \<open>C19. A raw write is idempotent across restarts: once a command id was applied and its receipt stored,
  a later commit under this id (same or another writer, after the process lost its memory) returns the
  stored receipt marked as replayed if it carries the same change set, a conflict otherwise, and in
  both cases neither a repository nor a subscriber sees anything.\<close>

theorem raw_write_replays:
  assumes "bbolt_file bb" and "raw_codec_ok codec"
    and "RawCommit codec sops tree_of (Some (BoltStore existing bb pt)) wr cid cs now now2 l world
      = (Inr receipt, l', world')" and "wrDisposition receipt = DispositionApplied"
    and "bbOpenRead bb (ledStore l') = Inr ()" and "rwJournal wr2 RawSurface None = None"
    and "tcsTargetRepository cs2 \<noteq> []" "tcsTargetRef cs2 \<noteq> []" "tcsChanges cs2 \<noteq> []"
    and "Registry_Get (tcsTargetRepository cs2) (fst world2) = Some target" "\<not> stArchived sops target"
  shows "\<exists>l''. RawCommit codec sops tree_of (Some (BoltStore existing bb pt)) wr2 cid cs2 now3 now4 (restart l') world2 =
    (if rwDigest codec cs2 = rwDigest codec cs then Inr (receipt\<lparr>wrDisposition := DispositionReplayed\<rparr>)
     else fails ErrIdempotencyConflict, l'', world2)"
proof -
  let ?store = "Some (BoltStore existing bb pt)"
  from assms(3) obtain target1 raw e replayed r where x:
    "Execute ?store (rwMarshalReceipt codec) cid (rwDigest codec cs) (raw_request (stamp_changes wr cs) raw)
       now now2 (raw_apply sops tree_of target1 cid (stamp_changes wr cs)) l world = (Inr (e, replayed), l', world')"
    "rwUnmarshalReceipt codec (entReceipt e) = Inr r"
    "receipt = (if replayed then r\<lparr>wrDisposition := DispositionReplayed\<rparr> else r)"
    by (rule RawCommit_Inr)
  have fresh: "\<not> replayed" using raw_applied(1) [OF assms(2) x(1,2)] assms(4) x(3) by simp
  obtain raw2 where raw2: "rwMarshalRequest codec (stamp_changes wr2 cs2) = Inr raw2"
    using raw_codec_request [OF assms(2)] by blast
  have ex: "Execute ?store (rwMarshalReceipt codec) cid (rwDigest codec cs) (raw_request (stamp_changes wr cs) raw)
       now now2 (raw_apply sops tree_of target1 cid (stamp_changes wr cs)) l world = (Inr (e, False), l', world')"
    using x(1) fresh by simp
  have "\<exists>l''. Execute ?store (rwMarshalReceipt codec) cid (rwDigest codec cs2) (raw_request (stamp_changes wr2 cs2) raw2)
      now3 now4 (raw_apply sops tree_of target cid (stamp_changes wr2 cs2)) (restart l') world2 =
    (if rwDigest codec cs2 = rwDigest codec cs then Inr (e, True) else fails ErrIdempotencyConflict, l'', world2)"
    by (rule bbolt_file.bolt_retry_replays [OF assms(1) ex _ assms(5)]) (rule raw_codec_receipt(1) [OF assms(2)])
  then show ?thesis
    using RawCommit_open [OF assms(7-11) raw2 assms(6), of tree_of ?store cid now3 now4 "restart l'"] x(2,3) fresh
    by auto
qed

theorem raw_write_replays_witness:
  "\<exists>l'' receipt. fst demo_write = Inr receipt \<and>
     RawCommit demo_raw_codec memory_ops demo_trees (Some demo_store) demo_writer ''c1'' demo_raw_change ''t1'' ''t1''
       (restart (fst (snd demo_write))) (snd (snd demo_write))
     = (Inr (receipt\<lparr>wrDisposition := DispositionReplayed\<rparr>), l'', snd (snd demo_write))"
proof -
  have "case fst demo_write of Inl _ \<Rightarrow> False | Inr r \<Rightarrow> wrDisposition r = DispositionApplied" by code_simp
  then obtain receipt where r: "fst demo_write = Inr receipt" "wrDisposition receipt = DispositionApplied"
    by (auto split: sum.splits)
  then have run: "RawCommit demo_raw_codec memory_ops demo_trees (Some demo_store) demo_writer ''c1'' demo_raw_change
      ''t0'' ''t0'' demo_empty (demo_raw_registry, []) = (Inr receipt, fst (snd demo_write), snd (snd demo_write))"
    unfolding demo_write_def by (metis prod.collapse)
  have "case Registry_Get ''kr://a/b'' (fst (snd (snd demo_write))) of None \<Rightarrow> False
      | Some t \<Rightarrow> \<not> stArchived memory_ops t" by code_simp
  then obtain t where t: "Registry_Get ''kr://a/b'' (fst (snd (snd demo_write))) = Some t"
    "\<not> stArchived memory_ops t" by (auto split: option.splits)
  have c: "tcsTargetRepository demo_raw_change = ''kr://a/b''" "tcsTargetRef demo_raw_change = DefaultRef"
    "tcsChanges demo_raw_change \<noteq> []" by (simp_all add: demo_raw_change_def demo_change_def)
  have "bbOpenRead list_bolt (ledStore (fst (snd demo_write))) = Inr ()" by (simp add: list_bolt_def)
  from raw_write_replays [OF list_bolt.bbolt_file_axioms demo_raw_codec_ok run [unfolded demo_store_def] r(2) this,
      where ?wr2.0 = demo_writer and ?cs2.0 = demo_raw_change and ?world2.0 = "snd (snd demo_write)" and target = t
        and ?now3.0 = "''t1''" and ?now4.0 = "''t1''"]
  show ?thesis using r(1) t c by (simp add: demo_writer_def DefaultRef_def demo_store_def)
qed

text \<open>What a raw write does to a repository: an applied receipt means that the target ref was at the
  commit the change set expects, that the tree commit of the stamped change set was made on it and is
  now the tip, and that every subscriber saw exactly this movement; any other success changed nothing.\<close>

theorem raw_write_effect:
  assumes "raw_codec_ok codec"
    and "RawCommit codec memory_ops (\<lambda>_. Some (ms_ApplyTreeCommit commit_id)) store wr cid cs now now2 l (reg, w)
      = (Inr receipt, l', reg', w')"
  shows "if wrDisposition receipt = DispositionApplied
    then (\<exists>t t' commit. Registry_Get (tcsTargetRepository cs) reg = Some t \<and>
      ms_ApplyTreeCommit commit_id (stamp_changes wr cs) t = (Inr commit, t') \<and>
      map_of (msRefs t) (memoryRef (tcsTargetRef cs)) = Some (tcsExpectedTargetCommit cs) \<and>
      map_of (msRefs t') (memoryRef (tcsTargetRef cs)) = Some commit \<and>
      wsOldCommit (wrResult receipt) = tcsExpectedTargetCommit cs \<and> wsNewCommit (wrResult receipt) = commit \<and>
      reg' = Registry_Mutate (tcsTargetRepository cs) t' reg \<and>
      w' = NotifyAdvanced reg' \<lparr>adStore = Some t', adFrom = tcsExpectedTargetCommit cs, adTo = commit\<rparr> w)
    else reg' = reg \<and> w' = w"
proof -
  from assms(2) obtain t raw e replayed r where x: "Registry_Get (tcsTargetRepository cs) reg = Some t"
    "Execute store (rwMarshalReceipt codec) cid (rwDigest codec cs) (raw_request (stamp_changes wr cs) raw)
       now now2 (raw_apply memory_ops (\<lambda>_. Some (ms_ApplyTreeCommit commit_id)) t cid (stamp_changes wr cs)) l (reg, w)
       = (Inr (e, replayed), l', reg', w')"
    "rwUnmarshalReceipt codec (entReceipt e) = Inr r"
    "receipt = (if replayed then r\<lparr>wrDisposition := DispositionReplayed\<rparr> else r)"
    by (rule RawCommit_Inr) auto
  show ?thesis
  proof (cases "wrDisposition receipt = DispositionApplied")
    case True
    then have f: "\<not> replayed" "raw_apply memory_ops (\<lambda>_. Some (ms_ApplyTreeCommit commit_id)) t cid
        (stamp_changes wr cs) (reg, w) = (Inr r, reg', w')"
      using raw_applied [OF assms(1) x(2,3)] x(4) by simp_all
    obtain old commit t' where h: "ms_Head (tcsTargetRef cs) t = Inr old"
      "ms_ApplyTreeCommit commit_id (stamp_changes wr cs) t = (Inr commit, t')"
      using f(2) by (auto simp: raw_apply_def memory_ops_def Let_def split: sum.splits prod.splits)
    from h(2) have tip: "map_of (msRefs t) (memoryRef (tcsTargetRef cs)) = Some (tcsExpectedTargetCommit cs)"
      "map_of (msRefs t') (memoryRef (tcsTargetRef cs)) = Some commit"
      by (auto elim!: ms_Apply_cases simp: map_simps)
    then have "old = tcsExpectedTargetCommit cs" using h(1) by (simp add: ms_Head_def)
    then show ?thesis using True x(1,4) f h tip
      by (auto simp: raw_apply_def memory_ops_def Let_def)
  next
    case False
    have "replayed"
    proof (rule ccontr)
      assume n: "\<not> replayed"
      then obtain r' where "raw_apply memory_ops (\<lambda>_. Some (ms_ApplyTreeCommit commit_id)) t cid
          (stamp_changes wr cs) (reg, w) = (Inr r', reg', w')" "rwMarshalReceipt codec r' = Inr (entReceipt e)"
        using x(2) Execute_fresh by fastforce
      then have "wrDisposition r' = DispositionApplied" "r = r'"
        using raw_codec_receipt(2) [OF assms(1)] x(3)
        by (auto simp: raw_apply_def Let_def split: sum.splits prod.splits)
      then show False using False n x(4) by simp
    qed
    then show ?thesis using Execute_replayed x(2) False by fastforce
  qed
qed

theorem raw_write_effect_witness:
  "snd (snd (snd demo_write)) = [(''root'', ''cx'')] \<and>
   (\<exists>t'. fst (snd (snd demo_write)) = Registry_Mutate ''kr://a/b'' t' demo_raw_registry)"
proof -
  have "case fst demo_write of Inl _ \<Rightarrow> False | Inr r \<Rightarrow> wrDisposition r = DispositionApplied" by code_simp
  then obtain receipt where r: "fst demo_write = Inr receipt" "wrDisposition receipt = DispositionApplied"
    by (auto split: sum.splits)
  then have run: "RawCommit demo_raw_codec memory_ops demo_trees (Some demo_store) demo_writer ''c1'' demo_raw_change
      ''t0'' ''t0'' demo_empty (demo_raw_registry, []) =
      (Inr receipt, fst (snd demo_write), fst (snd (snd demo_write)), snd (snd (snd demo_write)))"
    unfolding demo_write_def by (metis prod.collapse)
  have w: "snd (snd (snd demo_write)) = [(''root'', ''cx'')]" by code_simp
  show ?thesis
    using raw_write_effect [OF demo_raw_codec_ok run [unfolded demo_trees_def]] r(2) w
    by (auto simp: demo_raw_change_def demo_change_def)
qed

end
