(* ===== verification/CatalogHistory.thy ===== *)
theory CatalogHistory
  imports Catalog
begin

text \<open>
  What the catalog promises over time: the registry interface it relies on, the histories of a
  catalog as a step relation, and the invariant behind the immutability of published releases.
\<close>

section \<open>The registry interface\<close>

locale catalog_registry =
  fixes ops :: "'g registry_ops" and tip :: "'g \<Rightarrow> string"
  assumes save_stale: "expected \<noteq> tip g \<Longrightarrow> roSave ops expected st sp g = (fails ErrNonFastForward, g)"
    and save_tip: "roSave ops expected st sp g = (Inr head, g') \<Longrightarrow> tip g' = head"
    and save_error: "roSave ops expected st sp g = (Inl e, g') \<Longrightarrow> tip g' = tip g"
begin

lemma persist_stale:
  assumes "catRegistryHead c \<noteq> tip (catRegistry c)"
  shows "\<exists>e. persist ops state m c = (Inl e, c)"
  using assms save_stale by (auto simp: persist_def Let_def journal_Finish_def)

lemma persist_fresh:
  assumes "persist ops state m c = (r, c')" and "catRegistryHead c = tip (catRegistry c)"
  shows "catRegistryHead c' = tip (catRegistry c')"
  using assms save_tip save_error
  by (auto simp: persist_def Let_def loadState_def split: if_splits prod.splits sum.splits option.splits)

end

definition snapshot_registry :: "catalog_codec \<Rightarrow> 's tree_ops \<Rightarrow> (registry_handle \<times> 's) registry_ops" where
  "snapshot_registry codec tr =
    \<lparr>roCatalogID = (\<lambda>g. rhCatalogID (fst g)),
     roLoad = (\<lambda>g. rbind (registry_load codec tr (fst g) (snd g)) (\<lambda>st. Inr (st, rhHead (fst g)))),
     roSave = (\<lambda>expected st sp g. case saveExpected codec tr expected st sp (fst g) (snd g) of
        (r, h, s) \<Rightarrow> (r, (h, s)))\<rparr>"

lemma saveSnapshot_tip_error:
  "saveSnapshot codec tr state st g s = (Inl e, g', s') \<Longrightarrow> g' = g"
  by (auto simp: saveSnapshot_def Let_def split: sum.splits option.splits prod.splits)

interpretation snapshot_registry: catalog_registry "snapshot_registry codec tr" "\<lambda>g. rhHead (fst g)"
proof (unfold_locales, goal_cases)
  case (1 expected g st sp)
  then show ?case by (simp add: snapshot_registry_def saveExpected_stale)
next
  case (2 expected st sp g head g')
  then show ?case
    by (auto simp: snapshot_registry_def saveExpected_def split: if_splits prod.splits sum.splits)
next
  case (3 expected st sp g e g')
  then show ?case
    by (auto simp: snapshot_registry_def saveExpected_def dest: saveSnapshot_tip_error
        split: if_splits prod.splits sum.splits)
qed

section \<open>Releases in memory\<close>

lemma map_of_foldl_loadDataset:
  "distinct (map setID ds) \<Longrightarrow>
   map_of (foldl loadDataset m ds) i =
     (case find (\<lambda>d. setID d = i) ds of Some d \<Rightarrow> Some d | None \<Rightarrow> map_of m i)"
  by (induction ds arbitrary: m)
    (auto simp: loadDataset_def map_simps find_None_all dest!: find_Some_mem2 split: option.splits)

lemma distinct_foldl_loadDataset:
  "distinct (map fst m) \<Longrightarrow> distinct (map fst (foldl loadDataset m ds))"
  by (induction ds arbitrary: m) (auto simp: loadDataset_def distinct_update)

lemma version_in_Some:
  "version_in m i r = Some d \<longleftrightarrow> (\<exists>inner. map_of m i = Some inner \<and> map_of inner r = Some d)"
  by (simp add: version_in_def split: option.splits)

lemma version_in_Nil [simp]: "version_in [] i r = None"
  by (simp add: version_in_def)

lemma version_in_loadVersion:
  "version_in (loadVersion m d) i r =
    (if i = setID d \<and> r = setRevision d then Some (d\<lparr>setRetired := False\<rparr>) else version_in m i r)"
  by (auto simp: version_in_def loadVersion_def Let_def map_simps split: option.splits)

lemma version_in_foldl:
  assumes "\<forall>d \<in> set ds. T (setID d) (setRevision d) = Some (d\<lparr>setRetired := False\<rparr>)"
  shows "version_in (foldl loadVersion m ds) i r =
    (if \<exists>d \<in> set ds. setID d = i \<and> setRevision d = r then T i r else version_in m i r)"
  using assms by (induction ds arbitrary: m) (auto simp: version_in_loadVersion)

lemma loadState_versions:
  assumes "\<forall>d \<in> set (csKnowledgeSets st) \<union> set (csDatasetVersions st).
      T (setID d) (setRevision d) = Some (d\<lparr>setRetired := False\<rparr>)"
    and "\<And>i r v. T i r = Some v \<Longrightarrow> \<exists>d \<in> set (csDatasetVersions st). setID d = i \<and> setRevision d = r"
  shows "version_in (catVersions (loadState st c)) i r = T i r"
proof -
  have "version_in (catVersions (loadState st c)) i r =
      (if \<exists>d \<in> set (csDatasetVersions st). setID d = i \<and> setRevision d = r then T i r
       else if \<exists>d \<in> set (csKnowledgeSets st). setID d = i \<and> setRevision d = r then T i r else None)"
    using assms(1) version_in_foldl [of "csDatasetVersions st" T] version_in_foldl [of "csKnowledgeSets st" T]
    by (auto simp: loadState_def)
  then show ?thesis using assms(2) by (cases "T i r") (auto split: if_splits)
qed

text \<open>The association lists have no shadowed entries, so dumping them loses nothing.\<close>

definition wf_versions :: "(string, (int, KnowledgeSet) gomap) gomap \<Rightarrow> bool" where
  "wf_versions m = (distinct (map fst m) \<and>
     (\<forall>i inner. map_of m i = Some inner \<longrightarrow> distinct (map fst inner)))"

lemma wf_loadVersion: "wf_versions m \<Longrightarrow> wf_versions (loadVersion m d)"
  by (auto simp: wf_versions_def loadVersion_def Let_def map_simps intro!: distinct_update
      split: option.splits if_splits)

lemma wf_foldl_loadVersion: "wf_versions m \<Longrightarrow> wf_versions (foldl loadVersion m ds)"
  by (induction ds arbitrary: m) (auto simp: wf_loadVersion)

lemma wf_loadState: "wf_versions (catVersions (loadState st c))"
proof -
  have "wf_versions []" by (simp add: wf_versions_def)
  then show ?thesis by (simp add: loadState_def wf_foldl_loadVersion)
qed

lemma set_datasetVersions:
  assumes "wf_versions (catVersions c)"
  shows "d \<in> set (datasetVersions c) \<longleftrightarrow> (\<exists>i r. version_in (catVersions c) i r = Some d)"
proof -
  have "d \<in> set (datasetVersions c) \<longleftrightarrow> (\<exists>i inner r. (i, inner) \<in> set (catVersions c) \<and> (r, d) \<in> set inner)"
    by (force simp: datasetVersions_def normalizeDatasetVersions_def)
  also have "\<dots> \<longleftrightarrow> (\<exists>i inner r. map_of (catVersions c) i = Some inner \<and> map_of inner r = Some d)"
    using assms map_of_eq_Some_iff unfolding wf_versions_def by metis
  also have "\<dots> \<longleftrightarrow> (\<exists>i r. version_in (catVersions c) i r = Some d)"
    unfolding version_in_Some by blast
  finally show ?thesis .
qed

section \<open>The invariant\<close>

definition catalog_ok :: "('g, 'st, 'w) Catalog \<Rightarrow> bool" where
  "catalog_ok c =
    (wf_versions (catVersions c) \<and> distinct (map fst (catDatasets c)) \<and>
     (\<forall>i d. map_of (catDatasets c) i = Some d \<longrightarrow> setID d = i \<and>
        version_in (catVersions c) i (setRevision d) = Some (d\<lparr>setRetired := False\<rparr>)) \<and>
     (\<forall>i r v. version_in (catVersions c) i r = Some v \<longrightarrow>
        setID v = i \<and> setRevision v = r \<and> \<not> setRetired v \<and>
        (\<exists>cur. map_of (catDatasets c) i = Some cur \<and> r \<le> setRevision cur)))"

lemma catalog_ok_current:
  assumes "catalog_ok c" "map_of (catDatasets c) i = Some d"
  shows "setID d = i" "version_in (catVersions c) i (setRevision d) = Some (d\<lparr>setRetired := False\<rparr>)"
  using assms unfolding catalog_ok_def by blast+

lemma catalog_ok_release:
  assumes "catalog_ok c" "version_in (catVersions c) i r = Some v"
  shows "setID v = i" "setRevision v = r" "\<not> setRetired v"
    "\<exists>cur. map_of (catDatasets c) i = Some cur \<and> r \<le> setRevision cur"
  using assms unfolding catalog_ok_def by blast+

lemma loadState_datasets:
  assumes "distinct (map setID (csKnowledgeSets st))"
  shows "map_of (catDatasets (loadState st c)) i = Some d \<longleftrightarrow> d \<in> set (csKnowledgeSets st) \<and> setID d = i"
proof -
  have m: "map_of (catDatasets (loadState st c)) i = find (\<lambda>d. setID d = i) (csKnowledgeSets st)"
    using map_of_foldl_loadDataset [OF assms, of "[]" i] by (simp add: loadState_def split: option.splits)
  have "find (\<lambda>d. setID d = i) (csKnowledgeSets st) = Some d"
    if d: "d \<in> set (csKnowledgeSets st)" "setID d = i"
  proof -
    obtain e where e: "find (\<lambda>d. setID d = i) (csKnowledgeSets st) = Some e"
      using d find_None_all [of "\<lambda>d. setID d = i" "csKnowledgeSets st"]
      by (cases "find (\<lambda>d. setID d = i) (csKnowledgeSets st)") auto
    then have "e \<in> set (csKnowledgeSets st)" "setID e = i" by (auto dest: find_Some_mem2)
    then have "e = d" using d assms by (auto simp: distinct_map inj_on_def)
    then show ?thesis using e by simp
  qed
  then show ?thesis unfolding m by (auto dest: find_Some_mem2)
qed

lemma loadState_ok:
  assumes sets: "distinct (map setID (csKnowledgeSets st))"
    and consistent: "\<forall>d \<in> set (csKnowledgeSets st) \<union> set (csDatasetVersions st).
      T (setID d) (setRevision d) = Some (d\<lparr>setRetired := False\<rparr>)"
    and listed: "\<And>i r v. T i r = Some v \<Longrightarrow> \<exists>d \<in> set (csDatasetVersions st). setID d = i \<and> setRevision d = r"
    and bounded: "\<And>i r v. T i r = Some v \<Longrightarrow> setID v = i \<and> setRevision v = r \<and> \<not> setRetired v \<and>
      (\<exists>cur \<in> set (csKnowledgeSets st). setID cur = i \<and> r \<le> setRevision cur)"
  shows "catalog_ok (loadState st c) \<and> (\<forall>i r. version_in (catVersions (loadState st c)) i r = T i r)"
proof -
  have T: "version_in (catVersions (loadState st c)) i r = T i r" for i r
    by (rule loadState_versions [OF consistent listed])
  note found = loadState_datasets [OF sets]
  have "distinct (map fst (catDatasets (loadState st c)))"
    by (simp add: loadState_def distinct_foldl_loadDataset)
  then show ?thesis
    unfolding catalog_ok_def T found using wf_loadState consistent bounded by blast
qed

section \<open>Histories\<close>

inductive catalog_step :: "'g registry_ops \<Rightarrow> 'st snapshot_ops \<Rightarrow> ('g, 'st, 'w) Catalog \<Rightarrow>
    ('g, 'st, 'w) Catalog \<Rightarrow> bool"
  for ops :: "'g registry_ops" and sops :: "'st snapshot_ops" where
  publish: "PublishKnowledgeSet ops sops def c = (r, c') \<Longrightarrow> catalog_step ops sops c c'"
| define_set: "DefineKnowledgeSet ops sops sid revision sources c = (r, c') \<Longrightarrow> catalog_step ops sops c c'"
| register: "RegisterRepository ops sops rid c = (u, c') \<Longrightarrow> catalog_step ops sops c c'"
| unregister: "UnregisterRepository ops rid c = (u, c') \<Longrightarrow> catalog_step ops sops c c'"
| retire: "RetireKnowledgeSet ops sid c = (u, c') \<Longrightarrow> catalog_step ops sops c c'"
| archive: "Archive ops c = (u, c') \<Longrightarrow> catalog_step ops sops c c'"
| record_created: "RecordCreated ops c = (u, c') \<Longrightarrow> catalog_step ops sops c c'"
| stamped: "catalog_step ops sops c (SetStamp as q rule c)"
| environment: "catalog_step ops sops c (c\<lparr>catStore := store, catRegistry := g, catJournal := j\<rparr>)"

inductive_cases catalog_stepE: "catalog_step ops sops c c'"

lemma persist_cases:
  assumes "persist ops state m c = (r, c')"
  obtains (kept) g where "c' = c\<lparr>catRegistry := g\<rparr>" "r \<noteq> Inr ()"
  | (stored) g h where "c' = loadState state (c\<lparr>catRegistry := g, catRegistryHead := h\<rparr>)" "\<not> catReadOnly c"
proof (cases "catReadOnly c")
  case True
  then show ?thesis using assms kept [of "catRegistry c"] by (auto simp: persist_def)
next
  case False
  obtain saved g where s: "roSave ops (catRegistryHead c) state \<lparr>stMessage = m, stAuthor = catAs c,
      stRequestID = catRequestID c, stRuleID = catRuleID c\<rparr> (catRegistry c) = (saved, g)" by fastforce
  show ?thesis
  proof (cases saved)
    case (Inl e)
    then show ?thesis using assms s False kept [of g] by (auto simp: persist_def journal_Finish_def)
  next
    case (Inr h)
    then show ?thesis using assms s False stored [of h g]
      by (auto simp: persist_def Let_def split: option.splits)
  qed
qed

lemma dump_sets:
  assumes "catalog_ok c"
  shows "map setID (csKnowledgeSets (dumpState ops c)) = map fst (catDatasets c)"
    and "d \<in> set (csKnowledgeSets (dumpState ops c)) \<longleftrightarrow> map_of (catDatasets c) (setID d) = Some d"
proof -
  have d: "distinct (map fst (catDatasets c))"
    and k: "\<forall>(i, e) \<in> set (catDatasets c). setID e = i"
    using assms by (auto simp: catalog_ok_def)
  show "map setID (csKnowledgeSets (dumpState ops c)) = map fst (catDatasets c)"
    using k by (auto simp: dumpState_def)
  show "d \<in> set (csKnowledgeSets (dumpState ops c)) \<longleftrightarrow> map_of (catDatasets c) (setID d) = Some d"
    using d k by (force simp: dumpState_def)
qed

lemma catalog_ok_cong:
  "catDatasets c' = catDatasets c \<Longrightarrow> catVersions c' = catVersions c \<Longrightarrow> catalog_ok c' = catalog_ok c"
  by (simp add: catalog_ok_def)

text \<open>A state that keeps the releases of the dump and only changes repositories, retirement or the
  archive flag loads back with the same releases.\<close>

lemma reload_ok:
  assumes ok: "catalog_ok c"
    and sets: "csKnowledgeSets st = map f (csKnowledgeSets (dumpState ops c))"
    and f: "\<And>d. setID (f d) = setID d \<and> setRevision (f d) = setRevision d \<and>
      (f d)\<lparr>setRetired := False\<rparr> = d\<lparr>setRetired := False\<rparr>"
    and versions: "csDatasetVersions st = csDatasetVersions (dumpState ops c)"
  shows "catalog_ok (loadState st c0) \<and>
    (\<forall>i r. version_in (catVersions (loadState st c0)) i r = version_in (catVersions c) i r)"
proof (rule loadState_ok)
  have "map setID (csKnowledgeSets st) = map setID (csKnowledgeSets (dumpState ops c))"
    using f by (simp add: sets)
  then show "distinct (map setID (csKnowledgeSets st))"
    using dump_sets(1) [OF ok, of ops] ok by (simp add: catalog_ok_def)
  have wf: "wf_versions (catVersions c)" using ok by (simp add: catalog_ok_def)
  have vs: "d \<in> set (csDatasetVersions st) \<longleftrightarrow> (\<exists>i r. version_in (catVersions c) i r = Some d)" for d
    using set_datasetVersions [OF wf] by (simp add: versions dumpState_def)
  show "\<forall>d \<in> set (csKnowledgeSets st) \<union> set (csDatasetVersions st).
      version_in (catVersions c) (setID d) (setRevision d) = Some (d\<lparr>setRetired := False\<rparr>)"
  proof
    fix d assume "d \<in> set (csKnowledgeSets st) \<union> set (csDatasetVersions st)"
    then consider e where "e \<in> set (csKnowledgeSets (dumpState ops c))" "d = f e"
      | i r where "version_in (catVersions c) i r = Some d"
      using vs by (auto simp: sets)
    then show "version_in (catVersions c) (setID d) (setRevision d) = Some (d\<lparr>setRetired := False\<rparr>)"
    proof cases
      case 1
      then have "map_of (catDatasets c) (setID e) = Some e" using dump_sets(2) [OF ok] by blast
      then have "version_in (catVersions c) (setID e) (setRevision e) = Some (e\<lparr>setRetired := False\<rparr>)"
        by (rule catalog_ok_current(2) [OF ok])
      moreover have "setID d = setID e" "setRevision d = setRevision e"
          "d\<lparr>setRetired := False\<rparr> = e\<lparr>setRetired := False\<rparr>"
        using f [of e] unfolding 1(2) by blast+
      ultimately show ?thesis by (simp only:)
    next
      case 2
      then have "setID d = i" "setRevision d = r" "\<not> setRetired d"
        using catalog_ok_release [OF ok] by auto
      then show ?thesis using 2 by (cases d) simp
    qed
  qed
  show "\<exists>d \<in> set (csDatasetVersions st). setID d = i \<and> setRevision d = r"
    if "version_in (catVersions c) i r = Some v" for i r v
    using that vs catalog_ok_release [OF ok that] by blast
  show "setID v = i \<and> setRevision v = r \<and> \<not> setRetired v \<and>
      (\<exists>cur \<in> set (csKnowledgeSets st). setID cur = i \<and> r \<le> setRevision cur)"
    if v: "version_in (catVersions c) i r = Some v" for i r v
  proof -
    obtain cur where cur: "map_of (catDatasets c) i = Some cur" "r \<le> setRevision cur"
      and e: "setID v = i" "setRevision v = r" "\<not> setRetired v"
      using catalog_ok_release [OF ok v] by blast
    have i: "setID cur = i" by (rule catalog_ok_current(1) [OF ok cur(1)])
    then have "cur \<in> set (csKnowledgeSets (dumpState ops c))" using dump_sets(2) [OF ok] cur by simp
    then have "f cur \<in> set (csKnowledgeSets st)" by (simp add: sets)
    then show ?thesis using e cur f [of cur] i by (metis (no_types))
  qed
qed

text \<open>\<open>keeps c c'\<close>: the invariant holds after the step, no release disappeared or changed, and no
  dataset lost its retirement or went back to an older revision.\<close>

definition keeps :: "('g, 'st, 'w) Catalog \<Rightarrow> ('g, 'st, 'w) Catalog \<Rightarrow> bool" where
  "keeps c c' = (catalog_ok c' \<and>
     (\<forall>i d. map_of (catDatasets c) i = Some d \<longrightarrow> (\<exists>d'. map_of (catDatasets c') i = Some d' \<and>
        setRevision d \<le> setRevision d' \<and> (setRetired d \<longrightarrow> setRetired d'))) \<and>
     (\<forall>i r v. version_in (catVersions c) i r = Some v \<longrightarrow> version_in (catVersions c') i r = Some v))"

lemma keeps_same:
  "catalog_ok c \<Longrightarrow> catDatasets c' = catDatasets c \<Longrightarrow> catVersions c' = catVersions c \<Longrightarrow> keeps c c'"
  unfolding keeps_def using catalog_ok_cong [of c' c] by simp

lemma keeps_trans: "keeps c d \<Longrightarrow> keeps d e \<Longrightarrow> keeps c e"
proof -
  assume cd: "keeps c d" and de: "keeps d e"
  have "\<exists>z. map_of (catDatasets e) i = Some z \<and> setRevision x \<le> setRevision z \<and>
      (setRetired x \<longrightarrow> setRetired z)" if x: "map_of (catDatasets c) i = Some x" for i x
  proof -
    obtain y where y: "map_of (catDatasets d) i = Some y" "setRevision x \<le> setRevision y"
        "setRetired x \<longrightarrow> setRetired y"
      using cd x unfolding keeps_def by blast
    obtain z where "map_of (catDatasets e) i = Some z" "setRevision y \<le> setRevision z"
        "setRetired y \<longrightarrow> setRetired z"
      using de y(1) unfolding keeps_def by blast
    then show ?thesis using y by auto
  qed
  then show ?thesis using cd de unfolding keeps_def by blast
qed

lemma persist_keeps:
  assumes "catalog_ok c" and "persist ops st m c = (r, c')"
    and "\<And>c0 :: ('g, 'st, 'w) Catalog. keeps c (loadState st c0)"
  shows "keeps (c :: ('g, 'st, 'w) Catalog) c'"
  using assms(2)
proof (cases rule: persist_cases)
  case (kept g)
  then show ?thesis using assms(1) by (simp add: keeps_same)
next
  case (stored g h)
  then show ?thesis using assms(3) by simp
qed

lemma reload_keeps:
  assumes "catalog_ok c" and "csKnowledgeSets st = map f (csKnowledgeSets (dumpState ops c))"
    and "\<And>d. setID (f d) = setID d \<and> setRevision (f d) = setRevision d \<and>
      (f d)\<lparr>setRetired := False\<rparr> = d\<lparr>setRetired := False\<rparr>"
    and "csDatasetVersions st = csDatasetVersions (dumpState ops c)"
    and retired: "\<And>d. setRetired d \<Longrightarrow> setRetired (f d)"
  shows "keeps c (loadState st c0)"
proof -
  have "map setID (csKnowledgeSets st) = map setID (csKnowledgeSets (dumpState ops c))"
    using assms(3) by (simp add: assms(2))
  then have dist: "distinct (map setID (csKnowledgeSets st))"
    using dump_sets(1) [OF assms(1), of ops] assms(1) by (simp add: catalog_ok_def)
  have "\<exists>d'. map_of (catDatasets (loadState st c0)) i = Some d' \<and> setRevision d \<le> setRevision d' \<and>
      (setRetired d \<longrightarrow> setRetired d')" if d: "map_of (catDatasets c) i = Some d" for i d
  proof -
    have i: "setID d = i" by (rule catalog_ok_current(1) [OF assms(1) d])
    then have "d \<in> set (csKnowledgeSets (dumpState ops c))" using d dump_sets(2) [OF assms(1)] by simp
    then have "f d \<in> set (csKnowledgeSets st)" by (simp add: assms(2))
    moreover have "setID (f d) = i" "setRevision (f d) = setRevision d" using assms(3) [of d] i by blast+
    ultimately have "map_of (catDatasets (loadState st c0)) i = Some (f d)"
      using loadState_datasets [OF dist, of c0] by blast
    then show ?thesis using retired [of d] \<open>setRevision (f d) = setRevision d\<close> by auto
  qed
  then show ?thesis using reload_ok [OF assms(1-4), of c0] by (auto simp: keeps_def)
qed

text \<open>Publication: the next revision is new, so one release is added and none is changed.\<close>

lemma publish_candidate_ok:
  assumes "publish_candidate sops def0 c = Inr def"
  shows "setID def = setID def0" "setRevision def = setRevision def0" "\<not> setRetired def"
    "checkNextRevision (setID def) (setRevision def) c = Inr ()" "ensureWritable c = Inr ()"
    "setSources def0 \<noteq> []" "validateMountPaths (setSources def0) = Inr ()"
    "validateSourceCoordinates (setSources def0) = Inr ()"
    "freezeSources sops (catStore c) (setSources def0) = Inr (setSources def)"
    "datasetItemsFromSources (setSources def) [] = Inr (setItems def)"
    "\<forall>s \<in> set (setSources def0). srcRepository s \<in> set (catRepositories c) \<and> srcCommit s \<noteq> []"
  using assms by (auto simp: publish_candidate_def rbind_Inr_iff each_ok_iff split: if_splits)

lemma checkNextRevision_ok:
  assumes "checkNextRevision sid revision c = Inr u"
  shows "0 < revision" "map_of (catDatasets c) sid = Some cur \<Longrightarrow> \<not> setRetired cur \<and> setRevision cur < revision"
  using assms by (auto simp: checkNextRevision_def split: if_splits option.splits)

definition publish_state :: "'g registry_ops \<Rightarrow> KnowledgeSet \<Rightarrow> ('g, 'st, 'w) Catalog \<Rightarrow> CatalogState" where
  "publish_state ops def c = (dumpState ops c)\<lparr>csKnowledgeSets :=
      filter (\<lambda>existing. setID existing \<noteq> setID def) (csKnowledgeSets (dumpState ops c)) @ [def],
    csDatasetVersions := csDatasetVersions (dumpState ops c) @ [def]\<rparr>"

lemma publish_loads:
  fixes c :: "('g, 'st, 'w) Catalog"
  assumes ok: "catalog_ok c" and new: "checkNextRevision (setID def) (setRevision def) c = Inr ()"
    and live: "\<not> setRetired def"
  shows "catalog_ok (loadState (publish_state ops def c) c0) \<and>
    (\<forall>i r. version_in (catVersions (loadState (publish_state ops def c) c0)) i r =
      (if i = setID def \<and> r = setRevision def then Some def else version_in (catVersions c) i r))"
proof (rule loadState_ok)
  let ?st = "publish_state ops def c"
  let ?T = "\<lambda>i r. if i = setID def \<and> r = setRevision def then Some def else version_in (catVersions c) i r"
  have older: "r < setRevision def" if "version_in (catVersions c) (setID def) r = Some v" for r v
    using catalog_ok_release(4) [OF ok that] checkNextRevision_ok(2) [OF new] by fastforce
  have wf: "wf_versions (catVersions c)" using ok by (simp add: catalog_ok_def)
  have vs: "d \<in> set (csDatasetVersions ?st) \<longleftrightarrow> d = def \<or> (\<exists>i r. version_in (catVersions c) i r = Some d)" for d
    using set_datasetVersions [OF wf] by (auto simp: publish_state_def dumpState_def)
  have sets: "d \<in> set (csKnowledgeSets ?st) \<longleftrightarrow>
      d = def \<or> setID d \<noteq> setID def \<and> map_of (catDatasets c) (setID d) = Some d" for d
    using dump_sets(2) [OF ok] by (auto simp: publish_state_def)
  have "distinct (map setID (csKnowledgeSets (dumpState ops c)))"
    using dump_sets(1) [OF ok, of ops] ok by (simp add: catalog_ok_def)
  then show "distinct (map setID (csKnowledgeSets ?st))"
    by (auto simp: publish_state_def distinct_map_filter)
  have self: "def\<lparr>setRetired := False\<rparr> = def" using live by (cases "def") simp
  show "\<forall>d \<in> set (csKnowledgeSets ?st) \<union> set (csDatasetVersions ?st).
      ?T (setID d) (setRevision d) = Some (d\<lparr>setRetired := False\<rparr>)"
  proof
    fix d assume "d \<in> set (csKnowledgeSets ?st) \<union> set (csDatasetVersions ?st)"
    then consider "d = def" | "setID d \<noteq> setID def" "map_of (catDatasets c) (setID d) = Some d"
      | i r where "version_in (catVersions c) i r = Some d"
      using vs sets by blast
    then show "?T (setID d) (setRevision d) = Some (d\<lparr>setRetired := False\<rparr>)"
    proof cases
      case 1
      then show ?thesis using self by simp
    next
      case 2
      then show ?thesis using catalog_ok_current(2) [OF ok 2(2)] by simp
    next
      case 3
      then have e: "setID d = i" "setRevision d = r" "\<not> setRetired d"
        using catalog_ok_release [OF ok] by auto
      then have "\<not> (i = setID def \<and> r = setRevision def)" using older [of "setRevision def" d] 3 by auto
      moreover have "d\<lparr>setRetired := False\<rparr> = d" using e(3) by (cases d) simp
      ultimately show ?thesis using 3 e(1,2) by auto
    qed
  qed
  show "\<exists>d \<in> set (csDatasetVersions ?st). setID d = i \<and> setRevision d = r" if "?T i r = Some v" for i r v
  proof (cases "i = setID def \<and> r = setRevision def")
    case True
    then show ?thesis using vs [of "def"] by blast
  next
    case False
    then have "version_in (catVersions c) i r = Some v" using that by (auto split: if_splits)
    then show ?thesis using vs [of v] catalog_ok_release(1,2) [OF ok] by blast
  qed
  show "setID v = i \<and> setRevision v = r \<and> \<not> setRetired v \<and>
      (\<exists>cur \<in> set (csKnowledgeSets ?st). setID cur = i \<and> r \<le> setRevision cur)"
    if v: "?T i r = Some v" for i r v
  proof (cases "i = setID def")
    case True
    have in_sets: "def \<in> set (csKnowledgeSets ?st)" using sets by blast
    show ?thesis
    proof (cases "r = setRevision def")
      case rev: True
      then have "v = def" using v True by simp
      then show ?thesis using True rev live in_sets by auto
    next
      case False
      then have v': "version_in (catVersions c) (setID def) r = Some v" using v True by simp
      then have "r < setRevision def" by (rule older)
      then show ?thesis using True in_sets catalog_ok_release(1-3) [OF ok v'] by auto
    qed
  next
    case False
    then have v': "version_in (catVersions c) i r = Some v" using v by simp
    then obtain cur where cur: "map_of (catDatasets c) i = Some cur" "r \<le> setRevision cur"
      using catalog_ok_release(4) [OF ok] by blast
    moreover have "setID cur = i" by (rule catalog_ok_current(1) [OF ok cur(1)])
    ultimately show ?thesis using catalog_ok_release(1-3) [OF ok v'] sets [of cur] False by auto
  qed
qed

lemma publish_datasets:
  assumes ok: "catalog_ok c"
  shows "map_of (catDatasets (loadState (publish_state ops def c) c0)) i =
    (if i = setID def then Some def else map_of (catDatasets c) i)"
proof -
  have sets: "d \<in> set (csKnowledgeSets (publish_state ops def c)) \<longleftrightarrow>
      d = def \<or> setID d \<noteq> setID def \<and> map_of (catDatasets c) (setID d) = Some d" for d
    using dump_sets(2) [OF ok] by (auto simp: publish_state_def)
  have "distinct (map setID (csKnowledgeSets (dumpState ops c)))"
    using dump_sets(1) [OF ok, of ops] ok by (simp add: catalog_ok_def)
  then have dist: "distinct (map setID (csKnowledgeSets (publish_state ops def c)))"
    by (auto simp: publish_state_def distinct_map_filter)
  have "map_of (catDatasets (loadState (publish_state ops def c) c0)) i = Some d \<longleftrightarrow>
      (if i = setID def then Some def else map_of (catDatasets c) i) = Some d" for d
    unfolding loadState_datasets [OF dist] sets using catalog_ok_current(1) [OF ok] by auto
  then show ?thesis by (metis option.exhaust)
qed

lemma publish_keeps:
  fixes c :: "('g, 'st, 'w) Catalog"
  assumes ok: "catalog_ok c" and p: "PublishKnowledgeSet ops sops def0 c = (r, c')"
  shows "keeps c c'"
proof (cases "publish_candidate sops def0 c")
  case (Inl e)
  then show ?thesis using ok p by (simp add: PublishKnowledgeSet_def keeps_same)
next
  case (Inr def)
  note d = publish_candidate_ok [OF Inr]
  obtain u c1 where per: "persist ops (publish_state ops def c) (''dataset-define '' @ setID def) c = (u, c1)"
    by fastforce
  then have "c' = c1"
    using p Inr by (auto simp: PublishKnowledgeSet_def Let_def publish_state_def split: sum.splits)
  moreover have "keeps c (loadState (publish_state ops def c) c0)" for c0 :: "('g, 'st, 'w) Catalog"
  proof -
    have "\<not> (i = setID def \<and> r = setRevision def)" if "version_in (catVersions c) i r = Some v" for i r v
      using catalog_ok_release(4) [OF ok that] checkNextRevision_ok(2) [OF d(4)] by fastforce
    moreover have "\<exists>e. map_of (catDatasets (loadState (publish_state ops def c) c0)) i = Some e \<and>
        setRevision x \<le> setRevision e \<and> (setRetired x \<longrightarrow> setRetired e)"
      if x: "map_of (catDatasets c) i = Some x" for i x
    proof (cases "i = setID def")
      case True
      then show ?thesis
        using publish_datasets [OF ok, of ops "def" c0 i] checkNextRevision_ok(2) [OF d(4)] x by auto
    next
      case False
      then show ?thesis using publish_datasets [OF ok, of ops "def" c0 i] x by auto
    qed
    ultimately show ?thesis using publish_loads [OF ok d(4,3), of ops c0] by (auto simp: keeps_def)
  qed
  ultimately show ?thesis using persist_keeps [OF ok per] by blast
qed

lemma update_keeps:
  assumes "catalog_ok c" and "persist ops st m c = (u, c')"
    and "csKnowledgeSets st = csKnowledgeSets (dumpState ops c)"
    and "csDatasetVersions st = csDatasetVersions (dumpState ops c)"
  shows "keeps c c'"
  using assms(1,2)
proof (rule persist_keeps)
  show "keeps c (loadState st c0)" for c0
    by (rule reload_keeps [OF assms(1), of st "\<lambda>d. d" ops]) (use assms(3,4) in simp_all)
qed

lemma register_keeps:
  assumes "catalog_ok c" and "RegisterRepository ops sops rid c = (u, c')"
  shows "keeps c c'"
proof -
  let ?d = "dumpState ops c"
  let ?st = "if rid \<notin> set (catRepositories c) then ?d\<lparr>csRepositories := csRepositories ?d @ [rid]\<rparr> else ?d"
  have "c' = c \<or> persist ops ?st (''register '' @ rid) c = (u, c')"
    using assms(2) unfolding RegisterRepository_def Let_def by (auto split: sum.splits if_splits)
  then show ?thesis
  proof
    assume "persist ops ?st (''register '' @ rid) c = (u, c')"
    then show ?thesis by (rule update_keeps [OF assms(1)]) simp_all
  qed (simp add: keeps_same assms(1))
qed

lemma unregister_keeps:
  assumes "catalog_ok c" and "UnregisterRepository ops rid c = (u, c')"
  shows "keeps c c'"
proof -
  let ?d = "dumpState ops c"
  let ?st = "?d\<lparr>csRepositories := filter (\<lambda>r. r \<noteq> rid) (csRepositories ?d)\<rparr>"
  have "c' = c \<or> persist ops ?st (''unregister '' @ rid) c = (u, c')"
    using assms(2) unfolding UnregisterRepository_def Let_def by (auto split: sum.splits if_splits)
  then show ?thesis
  proof
    assume "persist ops ?st (''unregister '' @ rid) c = (u, c')"
    then show ?thesis by (rule update_keeps [OF assms(1)]) simp_all
  qed (simp add: keeps_same assms(1))
qed

lemma retire_keeps:
  fixes c :: "('g, 'st, 'w) Catalog"
  assumes "catalog_ok c" and "RetireKnowledgeSet ops sid c = (u, c')"
  shows "keeps c c'"
proof -
  let ?f = "\<lambda>d. if setID d = sid then d\<lparr>setRetired := True\<rparr> else d"
  let ?st = "(dumpState ops c)\<lparr>csKnowledgeSets := map ?f (csKnowledgeSets (dumpState ops c))\<rparr>"
  have "c' = c \<or> persist ops ?st (''dataset-retire '' @ sid) c = (u, c')"
    using assms(2) unfolding RetireKnowledgeSet_def Let_def by (auto split: sum.splits if_splits)
  then show ?thesis
  proof
    assume p: "persist ops ?st (''dataset-retire '' @ sid) c = (u, c')"
    have "keeps c (loadState ?st c0)" for c0 :: "('g, 'st, 'w) Catalog"
      by (rule reload_keeps [OF assms(1), of _ ?f]) simp_all
    then show ?thesis by (rule persist_keeps [OF assms(1) p])
  qed (simp add: keeps_same assms(1))
qed

lemma step_keeps:
  assumes "catalog_step ops sops c c'" and ok: "catalog_ok c"
  shows "keeps c c'"
  using assms(1)
proof cases
  case (publish def0 r)
  then show ?thesis using publish_keeps [OF ok] by blast
next
  case (define_set sid revision sources r)
  then consider "c' = c" | def r' where "PublishKnowledgeSet ops sops def c = (r', c')"
    unfolding DefineKnowledgeSet_def by (auto split: sum.splits)
  then show ?thesis using publish_keeps [OF ok] keeps_same [OF ok] by cases blast+
next
  case (register rid u)
  then show ?thesis by (rule register_keeps [OF ok])
next
  case (unregister rid u)
  then show ?thesis by (rule unregister_keeps [OF ok])
next
  case (retire sid u)
  then show ?thesis by (rule retire_keeps [OF ok])
next
  case (archive u)
  show ?thesis by (rule update_keeps [OF ok archive [unfolded Archive_def]]) simp_all
next
  case (record_created u)
  show ?thesis by (rule update_keeps [OF ok record_created [unfolded RecordCreated_def]]) simp_all
next
  case (stamped as q rule)
  then show ?thesis using ok by (simp add: keeps_same SetStamp_def)
next
  case (environment store g j)
  then show ?thesis using ok by (simp add: keeps_same)
qed

lemma steps_keep:
  assumes "(catalog_step ops sops)\<^sup>*\<^sup>* c c'" and "catalog_ok c"
  shows "keeps c c'"
  using assms(1)
proof (induction rule: rtranclp_induct)
  case base
  then show ?case using assms(2) by (simp add: keeps_same)
next
  case (step d e)
  then have "keeps d e" using step_keeps by (auto simp: keeps_def)
  then show ?case using keeps_trans step.IH by blast
qed

section \<open>Writers that lost the race\<close>

lemma saveExpected_moved:
  assumes "trHead tr (rhRef g) s = Inr actual" and "actual \<noteq> rhHead g"
  shows "\<exists>e. saveExpected codec tr expected st sp g s = (Inl e, g, s)"
  using saveSnapshot_moved [OF assms, of codec st sp] by (auto simp: saveExpected_def)

lemma persist_moved:
  assumes "trHead tr (rhRef g) s = Inr actual" and "actual \<noteq> rhHead g" and "catRegistry c = (g, s)"
  shows "\<exists>e. persist (snapshot_registry codec tr) st m c = (Inl e, c)"
proof -
  let ?sp = "\<lparr>stMessage = m, stAuthor = catAs c, stRequestID = catRequestID c, stRuleID = catRuleID c\<rparr>"
  obtain e where "saveExpected codec tr (catRegistryHead c) st ?sp g s = (Inl e, g, s)"
    using saveExpected_moved [OF assms(1,2)] by blast
  moreover have "c\<lparr>catRegistry := (g, s)\<rparr> = c" using assms(3) by (cases c) simp
  ultimately show ?thesis
    using assms(3) by (auto simp: persist_def snapshot_registry_def Let_def journal_Finish_def)
qed

section \<open>Properties\<close>

text \<open>A catalog for the witnesses: one registered repository, over a fresh authority.\<close>

definition demo_ops :: "(registry_handle \<times> memoryStore) registry_ops" where
  "demo_ops = snapshot_registry demo_codec (memory_tree demo_id)"

definition demo_catalog :: "(registry_handle \<times> memoryStore, memoryStore, unit) Catalog" where
  "demo_catalog = \<lparr>catStore = Some demo_registry,
     catRegistry = (\<lparr>rhCatalogID = ''cat'', rhHead = ''root'', rhRef = DefaultRef\<rparr>,
                    newMemoryStore demo_root ''kr://cat''),
     catRegistryHead = ''root'', catDatasets = [], catVersions = [],
     catRepositories = [''kr://a/b''], catReadOnly = False, catArchived = False,
     catJournal = (\<lambda>_ _. None), catAs = [], catRequestID = [], catRuleID = []\<rparr>"

definition demo_published :: "(registry_handle \<times> memoryStore, memoryStore, unit) Catalog" where
  "demo_published = snd (PublishKnowledgeSet demo_ops memory_ops demo_set demo_catalog)"

definition demo_retired :: "(registry_handle \<times> memoryStore, memoryStore, unit) Catalog" where
  "demo_retired = snd (RetireKnowledgeSet demo_ops ''docs'' demo_published)"

lemma demo_catalog_ok: "catalog_ok demo_catalog"
  by (simp add: catalog_ok_def demo_catalog_def wf_versions_def)

lemma demo_publish: "PublishKnowledgeSet demo_ops memory_ops demo_set demo_catalog = (Inr demo_set, demo_published)"
proof -
  have "fst (PublishKnowledgeSet demo_ops memory_ops demo_set demo_catalog) = Inr demo_set" by code_simp
  then show ?thesis unfolding demo_published_def by (metis prod.collapse)
qed

lemma demo_published_ok: "catalog_ok demo_published"
  using publish_keeps [OF demo_catalog_ok demo_publish] by (simp add: keeps_def)

lemma demo_retire_step: "catalog_step demo_ops memory_ops demo_published demo_retired"
  unfolding demo_retired_def by (rule catalog_step.retire, rule surjective_pairing)

text \<open>C6. Published releases are immutable: whatever the catalog does afterwards (further releases,
  registrations, retirement, archiving, failing saves, a moved authority), a release that could be
  read reads the same, until the dataset is retired; then it is refused, never changed.\<close>

theorem published_release_is_immutable:
  assumes "catalog_ok c" and "(catalog_step ops sops)\<^sup>*\<^sup>* c c'" and "DatasetVersion sid revision c = Inr v"
  shows "DatasetVersion sid revision c' = Inr v \<or>
    (DatasetVersion sid revision c' = fails ErrKnowledgeSetInvalid \<and>
     (\<exists>d. map_of (catDatasets c') sid = Some d \<and> setRetired d))"
proof -
  have k: "keeps c c'" by (rule steps_keep [OF assms(2,1)])
  obtain d where d: "map_of (catDatasets c) sid = Some d" "version_in (catVersions c) sid revision = Some v"
    using assms(3) by (auto simp: DatasetVersion_def split: option.splits if_splits)
  then obtain d' where d': "map_of (catDatasets c') sid = Some d'"
    using k unfolding keeps_def by blast
  have "version_in (catVersions c') sid revision = Some v" using k d(2) unfolding keeps_def by blast
  then show ?thesis using d' by (auto simp: DatasetVersion_def)
qed

theorem published_release_is_immutable_witness:
  "DatasetVersion ''docs'' 1 demo_published = Inr demo_set \<and>
   DatasetVersion ''docs'' 1 demo_retired = fails ErrKnowledgeSetInvalid"
proof -
  have v: "DatasetVersion ''docs'' 1 demo_published = Inr demo_set" by code_simp
  have "\<not> ok (DatasetVersion ''docs'' 1 demo_retired)" by code_simp
  with published_release_is_immutable [OF demo_published_ok r_into_rtranclp [of "catalog_step demo_ops memory_ops",
      OF demo_retire_step] v] v
  show ?thesis by auto
qed

text \<open>C7. What publication does: on success the revision is newer than every release of the dataset, all
  sources are registered repositories, each pinned to the commit it must have, the file list is
  built from those pins, and the catalog now serves exactly this release as current and as its
  version.\<close>

theorem publication_serves_release:
  assumes "catalog_ok c" and "PublishKnowledgeSet ops sops candidate c = (Inr def, c')"
  shows "setID def = setID candidate \<and> setRevision def = setRevision candidate \<and>
    (\<forall>r v. version_in (catVersions c) (setID def) r = Some v \<longrightarrow> r < setRevision def) \<and>
    list_all2 (\<lambda>s f. srcRepository s \<in> set (catRepositories c) \<and> f = s\<lparr>srcCommit := srcCommit f\<rparr> \<and>
        freezes sops (the (catStore c)) s (srcCommit f)) (setSources candidate) (setSources def) \<and>
    datasetItemsFromSources (setSources def) [] = Inr (setItems def) \<and>
    Catalog_Set (setID def) c' = Inr def \<and> DatasetVersion (setID def) (setRevision def) c' = Inr def"
proof -
  obtain d where d: "publish_candidate sops candidate c = Inr d"
    using assms(2) by (cases "publish_candidate sops candidate c") (auto simp: PublishKnowledgeSet_def)
  obtain u c1 where per: "persist ops (publish_state ops d c) (''dataset-define '' @ setID d) c = (u, c1)"
    by fastforce
  have r: "def = d" "c' = c1" "u = Inr ()"
    using assms(2) d per by (auto simp: PublishKnowledgeSet_def Let_def publish_state_def split: sum.splits)
  note p = publish_candidate_ok [OF d [folded r(1)]]
  obtain reg where reg: "catStore c = Some reg" using freezeSources_Some [OF p(9,6)] by blast
  have "list_all2 (\<lambda>s f. f = s\<lparr>srcCommit := srcCommit f\<rparr> \<and> freezes sops reg s (srcCommit f))
      (setSources candidate) (setSources def)"
    using freezing_source_list [OF p(8) p(9) [unfolded reg]] .
  then have pins: "list_all2 (\<lambda>s f. srcRepository s \<in> set (catRepositories c) \<and> f = s\<lparr>srcCommit := srcCommit f\<rparr> \<and>
        freezes sops (the (catStore c)) s (srcCommit f)) (setSources candidate) (setSources def)"
    using p(11) reg by (auto simp: list_all2_conv_all_nth)
  have newer: "r < setRevision def" if "version_in (catVersions c) (setID def) r = Some v" for r v
    using catalog_ok_release(4) [OF assms(1) that] checkNextRevision_ok(2) [OF p(4)] by fastforce
  from per [folded r(1,2)] have "\<exists>c0. c' = loadState (publish_state ops def c) c0"
    by (cases rule: persist_cases) (use r(3) in auto)
  then obtain c0 where c0: "c' = loadState (publish_state ops def c) c0" by blast
  have v: "version_in (catVersions c') (setID def) (setRevision def) = Some def"
    using publish_loads [OF assms(1) p(4,3), of ops c0] c0 by simp
  have cur: "map_of (catDatasets c') (setID def) = Some def"
    using publish_datasets [OF assms(1), of ops "def" c0] c0 by simp
  show ?thesis
    using p(1-3) newer pins p(10) v cur by (simp add: Catalog_Set_def DatasetVersion_def)
qed

theorem publication_serves_release_witness:
  "DatasetVersion (setID demo_set) (setRevision demo_set) demo_published = Inr demo_set"
  using publication_serves_release [OF demo_catalog_ok demo_publish] by simp

text \<open>C8. Retirement is final: once a dataset is retired, no later history of the catalog publishes
  another release of it.\<close>

theorem retirement_is_final:
  assumes "catalog_ok c" and "(catalog_step ops sops)\<^sup>*\<^sup>* c c'"
    and "map_of (catDatasets c) sid = Some d" and "setRetired d" and "setID def = sid"
  shows "\<exists>e. PublishKnowledgeSet ops sops def c' = (Inl e, c')"
proof -
  have "keeps c c'" by (rule steps_keep [OF assms(2,1)])
  then obtain d' where "map_of (catDatasets c') sid = Some d'" "setRetired d'"
    using assms(3,4) unfolding keeps_def by blast
  then have "\<exists>e. checkNextRevision (setID def) (setRevision def) c' = Inl e"
    using assms(5) by (auto simp: checkNextRevision_def)
  then have "\<exists>e. publish_candidate sops def c' = Inl e"
    by (cases "ensureWritable c'") (auto simp: publish_candidate_def)
  then show ?thesis by (auto simp: PublishKnowledgeSet_def)
qed

theorem retirement_is_final_witness:
  "\<exists>e. PublishKnowledgeSet demo_ops memory_ops (demo_set\<lparr>setRevision := 2\<rparr>) demo_retired = (Inl e, demo_retired)"
proof -
  have k: "catalog_ok demo_retired"
    using step_keeps [OF demo_retire_step demo_published_ok] by (simp add: keeps_def)
  have "(\<exists>d. map_of (catDatasets demo_retired) ''docs'' = Some d \<and> setRetired d)"
  proof -
    have "map_of (catDatasets demo_retired) ''docs'' = Some (demo_set\<lparr>setRetired := True\<rparr>)" by code_simp
    then show ?thesis by simp
  qed
  then obtain d where d: "map_of (catDatasets demo_retired) ''docs'' = Some d" "setRetired d" by blast
  show ?thesis
    by (rule retirement_is_final [OF k rtranclp.rtrancl_refl d]) (simp add: demo_set_def)
qed

text \<open>A writer that lost the race changes nothing: when the catalog branch of the authority is no
  longer at the commit this handle read, publishing, registering, unregistering and retiring fail and
  leave the authority and the catalog as they were.\<close>

theorem stale_catalog_changes_nothing:
  assumes "catRegistry c = (g, s)" and "trHead tr (rhRef g) s = Inr actual" and "actual \<noteq> rhHead g"
  shows "(\<exists>e. PublishKnowledgeSet (snapshot_registry codec tr) sops def c = (Inl e, c)) \<and>
    (\<exists>e. RegisterRepository (snapshot_registry codec tr) sops rid c = (Inl e, c)) \<and>
    (\<exists>e. UnregisterRepository (snapshot_registry codec tr) rid c = (Inl e, c)) \<and>
    (\<exists>e. RetireKnowledgeSet (snapshot_registry codec tr) sid c = (Inl e, c)) \<and>
    (\<exists>e. Archive (snapshot_registry codec tr) c = (Inl e, c))"
proof -
  have per: "\<exists>e. persist (snapshot_registry codec tr) st m c = (Inl e, c)" for st m
    by (rule persist_moved [OF assms(2,3,1)])
  have "\<exists>e. PublishKnowledgeSet (snapshot_registry codec tr) sops def c = (Inl e, c)"
  proof (cases "publish_candidate sops def c")
    case (Inr d)
    obtain e where "persist (snapshot_registry codec tr) (publish_state (snapshot_registry codec tr) d c)
        (''dataset-define '' @ setID d) c = (Inl e, c)" using per by blast
    then show ?thesis using Inr by (simp add: PublishKnowledgeSet_def publish_state_def Let_def)
  qed (simp add: PublishKnowledgeSet_def)
  moreover have "\<exists>e. RegisterRepository (snapshot_registry codec tr) sops rid c = (Inl e, c)"
    using per by (cases "ensureWritable c") (simp_all add: RegisterRepository_def Let_def)
  moreover have "\<exists>e. UnregisterRepository (snapshot_registry codec tr) rid c = (Inl e, c)"
    using per by (cases "ensureWritable c") (simp_all add: UnregisterRepository_def Let_def)
  moreover have "\<exists>e. RetireKnowledgeSet (snapshot_registry codec tr) sid c = (Inl e, c)"
    using per by (cases "ensureWritable c") (simp_all add: RetireKnowledgeSet_def Let_def)
  ultimately show ?thesis using per by (simp add: Archive_def)
qed

theorem stale_catalog_changes_nothing_witness:
  "\<exists>e. Archive demo_ops (demo_catalog\<lparr>catRegistry := (fst (catRegistry demo_catalog), snd (catRegistry demo_published))\<rparr>)
     = (Inl e, demo_catalog\<lparr>catRegistry := (fst (catRegistry demo_catalog), snd (catRegistry demo_published))\<rparr>)"
proof -
  let ?g = "fst (catRegistry demo_catalog)" and ?s = "snd (catRegistry demo_published)"
  have "trHead (memory_tree demo_id) (rhRef ?g) ?s = Inr ''cx'' \<and> ''cx'' \<noteq> rhHead ?g" by code_simp
  then show ?thesis
    using stale_catalog_changes_nothing [of "demo_catalog\<lparr>catRegistry := (?g, ?s)\<rparr>" ?g ?s
        "memory_tree demo_id" "''cx''" demo_codec memory_ops demo_set "''kr://a/b''" "''docs''"]
    by (simp add: demo_ops_def)
qed

end
