(* ===== verification/Resolve.thy ===== *)
theory Resolve
  imports CatalogHistory
begin

text \<open>
  Resolving a dataset to one pin and replaying a pin (\<open>src/snapshot/dataset/resolve.go\<close>, \<open>replay.go\<close>):
  the commit of every member repository, the delivered file list, the content address of the pin,
  and the checks a consumer runs against the repositories that are open now.  SHA-256 in hexadecimal
  is the parameter \<open>sha\<close>.
\<close>

section \<open>Pins\<close>

record ResolvedKnowledgeSet =
  rsSetID :: string
  rsRevision :: int
  rsRef :: string
  rsRepositories :: "(string, string) gomap"
  rsItems :: "DatasetItem list"
  rsPinID :: string

record KnowledgeSetIssue =
  isRepository :: string
  isCode :: error_code

record KnowledgeSetCheck =
  ckSetID :: string
  ckOutcome :: string
  ckIssues :: "KnowledgeSetIssue list"

definition mountHashToken :: "string option \<Rightarrow> string" where
  "mountHashToken path = (case path of None \<Rightarrow> ''-'' | Some p \<Rightarrow> NormalizeMountPath p)"

definition hash_token :: "KnowledgeSetSource \<Rightarrow> string" where
  "hash_token src =
    (if IsFileEntry src
     then ''=f:'' @ trim_slashes (srcFile src) @ ''#'' @ NormalizeMountPath (srcTarget src)
     else ''@'' @ mountHashToken (srcPath src) @
       (if srcSubPath src \<noteq> [] then ''#'' @ trim_slashes (srcSubPath src) else []))"

definition NUL :: string where "NUL = [CHR 0x00]"

fun hash_loop :: "KnowledgeSetSource list \<Rightarrow> (string, string) gomap \<Rightarrow> string list \<Rightarrow> string \<Rightarrow> string" where
  "hash_loop sources repos [] s = s"
| "hash_loop sources repos (k # ks) s =
    (let s1 = s @ '','' @ k @ ''='' @ (case map_of repos k of None \<Rightarrow> [] | Some c \<Rightarrow> c);
         entries = filter (\<lambda>src. srcRepository src = k) sources in
     if entries = [] then hash_loop sources repos ks s1
     else (let tokens = sort (map hash_token entries) in
       if length tokens = 1 \<and> \<not> HasPrefix (hd tokens) ''=f:''
       then hash_loop sources repos ks (s1 @ hd tokens)
       else hash_loop sources repos ks (s1 @ NUL @ Join NUL tokens)))"

definition hash_input :: "string \<Rightarrow> KnowledgeSetSource list \<Rightarrow> (string, string) gomap \<Rightarrow> string" where
  "hash_input sid sources repos = hash_loop sources repos (sort (map fst repos)) sid"

definition HashResolved :: "(string \<Rightarrow> string) \<Rightarrow> string \<Rightarrow> KnowledgeSetSource list \<Rightarrow>
    (string, string) gomap \<Rightarrow> string" where
  "HashResolved sha sid sources repos = sha (hash_input sid sources repos)"

definition DatasetVersionRef :: "int \<Rightarrow> string" where
  "DatasetVersionRef revision = (if revision \<le> 0 then [] else ''v'' @ big_String revision)"

section \<open>Resolving\<close>

definition source_commit :: "'st snapshot_ops \<Rightarrow> 'st \<Rightarrow> (string, string) gomap \<Rightarrow> KnowledgeSetSource \<Rightarrow>
    string go" where
  "source_commit sops repo overlay src =
    (case map_of overlay (srcRepository src) of
      Some overlayCommit \<Rightarrow>
        if \<not> stHasCommit sops overlayCommit repo then fails ErrVersionUnresolved else Inr overlayCommit
    | None \<Rightarrow>
        if srcCommit src \<noteq> []
        then (if \<not> stHasCommit sops (srcCommit src) repo then fails ErrVersionUnresolved
              else Inr (srcCommit src))
        else (case stGetRef sops (srcSelector src) repo of
          None \<Rightarrow> fails ErrKnowledgeSetInvalid
        | Some resolved \<Rightarrow>
            if srcBaseRev src \<noteq> []
            then (if \<not> stHasCommit sops (srcBaseRev src) repo then fails ErrVersionUnresolved
                  else if resolved \<noteq> srcBaseRev src then fails ErrNonFastForward
                  else Inr resolved)
            else Inr resolved))"

fun resolve_loop :: "'st snapshot_ops \<Rightarrow> ('g, 'st, 'w) Catalog \<Rightarrow> (string, string) gomap \<Rightarrow>
    KnowledgeSetSource list \<Rightarrow> (string, string) gomap \<Rightarrow> (string, string) gomap go" where
  "resolve_loop sops c overlay [] repos = Inr repos"
| "resolve_loop sops c overlay (src # rest) repos =
    (if map_of repos (srcRepository src) \<noteq> None then resolve_loop sops c overlay rest repos
     else rbind (requireRepository (srcRepository src) c) (\<lambda>_.
       case catStore c of
         None \<Rightarrow> Inl Panic
       | Some store \<Rightarrow>
           (case Registry_Get (srcRepository src) store of
             None \<Rightarrow> fails ErrKnowledgeSetInvalid
           | Some repo \<Rightarrow>
               if stArchived sops repo then fails ErrRepositoryArchived
               else rbind (source_commit sops repo overlay src) (\<lambda>commit.
                 resolve_loop sops c overlay rest (AList.update (srcRepository src) commit repos)))))"

definition ResolveDefinitionOverlay :: "(string \<Rightarrow> string) \<Rightarrow> 'st snapshot_ops \<Rightarrow> KnowledgeSet \<Rightarrow>
    (string, string) gomap \<Rightarrow> ('g, 'st, 'w) Catalog \<Rightarrow> ResolvedKnowledgeSet go" where
  "ResolveDefinitionOverlay sha sops def overlay c =
    (if setRetired def then fails ErrKnowledgeSetInvalid
     else if length (setSources def) = 0 then fails ErrKnowledgeSetInvalid
     else
       rbind (validateMountPaths (setSources def)) (\<lambda>_.
       rbind (validateSourceCoordinates (setSources def)) (\<lambda>_.
       rbind (resolve_loop sops c overlay (setSources def) []) (\<lambda>repositories.
         if list_ex (\<lambda>(r, _). map_of repositories r = None) overlay then fails ErrKnowledgeSetInvalid
         else rbind (datasetItemsFromSources (setSources def) repositories) (\<lambda>items.
           Inr \<lparr>rsSetID = setID def, rsRevision = setRevision def,
                rsRef = DatasetVersionRef (setRevision def), rsRepositories = repositories,
                rsItems = items,
                rsPinID = HashResolved sha (setID def) (setSources def) repositories\<rparr>)))))"

definition ResolveDefinition :: "(string \<Rightarrow> string) \<Rightarrow> 'st snapshot_ops \<Rightarrow> KnowledgeSet \<Rightarrow>
    ('g, 'st, 'w) Catalog \<Rightarrow> ResolvedKnowledgeSet go" where
  "ResolveDefinition sha sops def c = ResolveDefinitionOverlay sha sops def [] c"

definition ResolveKnowledgeSetOverlay :: "(string \<Rightarrow> string) \<Rightarrow> 'st snapshot_ops \<Rightarrow> string \<Rightarrow>
    (string, string) gomap \<Rightarrow> ('g, 'st, 'w) Catalog \<Rightarrow> ResolvedKnowledgeSet go" where
  "ResolveKnowledgeSetOverlay sha sops sid overlay c =
    rbind (Catalog_Set sid c) (\<lambda>def. ResolveDefinitionOverlay sha sops def overlay c)"

definition ResolveKnowledgeSet :: "(string \<Rightarrow> string) \<Rightarrow> 'st snapshot_ops \<Rightarrow> string \<Rightarrow>
    ('g, 'st, 'w) Catalog \<Rightarrow> ResolvedKnowledgeSet go" where
  "ResolveKnowledgeSet sha sops sid c = ResolveKnowledgeSetOverlay sha sops sid [] c"

section \<open>Checking a pin\<close>

definition checkResolvedRepository :: "'st snapshot_ops \<Rightarrow> ('g, 'st, 'w) Catalog \<Rightarrow> string \<Rightarrow> string \<Rightarrow>
    KnowledgeSetIssue list" where
  "checkResolvedRepository sops c rid commit =
    (if \<not> HasRepository rid c then [\<lparr>isRepository = rid, isCode = ErrKnowledgeSetInvalid\<rparr>]
     else (case catStore c of
       None \<Rightarrow> [\<lparr>isRepository = rid, isCode = ErrCapabilityUnsatisfied\<rparr>]
     | Some store \<Rightarrow>
         (case Registry_Get rid store of
           None \<Rightarrow> [\<lparr>isRepository = rid, isCode = ErrUsageInvalid\<rparr>]
         | Some repo \<Rightarrow>
             if stArchived sops repo then [\<lparr>isRepository = rid, isCode = ErrRepositoryArchived\<rparr>]
             else if \<not> stHasCommit sops commit repo
             then [\<lparr>isRepository = rid, isCode = ErrVersionUnresolved\<rparr>] else [])))"

definition knowledgeSetCheck :: "string \<Rightarrow> KnowledgeSetIssue list \<Rightarrow> KnowledgeSetCheck" where
  "knowledgeSetCheck sid issues = \<lparr>ckSetID = sid,
     ckOutcome = (if 0 < length issues then ''FAILED'' else ''PASSED''), ckIssues = issues\<rparr>"

definition CheckResolved :: "'st snapshot_ops \<Rightarrow> ResolvedKnowledgeSet \<Rightarrow> ('g, 'st, 'w) Catalog \<Rightarrow>
    KnowledgeSetCheck" where
  "CheckResolved sops resolved c = knowledgeSetCheck (rsSetID resolved)
     (concat (map (\<lambda>(rid, commit). checkResolvedRepository sops c rid commit) (rsRepositories resolved)))"

definition CheckResolvedRepository :: "'st snapshot_ops \<Rightarrow> ResolvedKnowledgeSet \<Rightarrow> string \<Rightarrow>
    ('g, 'st, 'w) Catalog \<Rightarrow> KnowledgeSetCheck" where
  "CheckResolvedRepository sops resolved rid c =
    (case map_of (rsRepositories resolved) rid of
      None \<Rightarrow> knowledgeSetCheck (rsSetID resolved) [\<lparr>isRepository = rid, isCode = ErrKnowledgeSetInvalid\<rparr>]
    | Some commit \<Rightarrow>
        knowledgeSetCheck (rsSetID resolved) (checkResolvedRepository sops c rid commit))"

section \<open>Replaying a pin\<close>

definition maps_equal :: "(string, string) gomap \<Rightarrow> (string, string) gomap \<Rightarrow> bool" where
  "maps_equal a b = (length a = length b \<and> list_all (\<lambda>(k, v). map_of b k = Some v) a)"

fun replay_loop :: "(string, string) gomap \<Rightarrow> KnowledgeSetSource list \<Rightarrow> (string, string) gomap \<Rightarrow>
    (string, string) gomap go" where
  "replay_loop pinned [] want = Inr want"
| "replay_loop pinned (src # rest) want =
    (case map_of pinned (srcRepository src) of
      None \<Rightarrow> fails ErrUsageInvalid
    | Some commit \<Rightarrow>
        if commit = [] \<or> (srcCommit src \<noteq> [] \<and> srcCommit src \<noteq> commit) then fails ErrKnowledgeSetInvalid
        else replay_loop pinned rest (AList.update (srcRepository src) commit want))"

definition ReplayDefinition :: "(string \<Rightarrow> string) \<Rightarrow> KnowledgeSet \<Rightarrow> ResolvedKnowledgeSet \<Rightarrow>
    ResolvedKnowledgeSet go" where
  "ReplayDefinition sha def pin =
    (if setRetired def then fails ErrKnowledgeSetInvalid
     else if rsSetID pin \<noteq> [] \<and> rsSetID pin \<noteq> setID def then fails ErrUsageInvalid
     else
       rbind (validateMountPaths (setSources def)) (\<lambda>_.
       rbind (validateSourceCoordinates (setSources def)) (\<lambda>_.
       rbind (replay_loop (rsRepositories pin) (setSources def) []) (\<lambda>want.
         if \<not> maps_equal want (rsRepositories pin) \<or> length want = 0 then fails ErrUsageInvalid
         else rbind (datasetItemsFromSources (setSources def) want) (\<lambda>items.
           let pin_id = HashResolved sha (setID def) (setSources def) want in
           if (rsPinID pin \<noteq> [] \<and> rsPinID pin \<noteq> pin_id) \<or>
              (0 < length (rsItems pin) \<and> rsItems pin \<noteq> items) then fails ErrKnowledgeSetInvalid
           else if rsRef pin \<noteq> [] \<and> rsRef pin \<noteq> DatasetVersionRef (setRevision def)
           then fails ErrKnowledgeSetInvalid
           else Inr \<lparr>rsSetID = setID def, rsRevision = setRevision def,
                     rsRef = DatasetVersionRef (setRevision def), rsRepositories = want,
                     rsItems = items, rsPinID = pin_id\<rparr>)))))"

definition ReplayPublished :: "(string \<Rightarrow> string) \<Rightarrow> 'st snapshot_ops \<Rightarrow> ResolvedKnowledgeSet \<Rightarrow>
    ('g, 'st, 'w) Catalog \<Rightarrow> ResolvedKnowledgeSet go" where
  "ReplayPublished sha sops pin c =
    rbind (DatasetVersion (rsSetID pin) (rsRevision pin) c) (\<lambda>def.
    rbind (ReplayDefinition sha def pin) (\<lambda>resolved.
      if ckOutcome (CheckResolved sops resolved c) \<noteq> ''PASSED'' then fails ErrKnowledgeSetInvalid
      else Inr resolved))"

section \<open>Facts about resolving\<close>

text \<open>The coordinate map of frozen sources: every repository with the commit its sources carry.\<close>

definition frozen_commits :: "KnowledgeSetSource list \<Rightarrow> (string, string) gomap \<Rightarrow> (string, string) gomap" where
  "frozen_commits sources m = foldl (\<lambda>m s. AList.update (srcRepository s) (srcCommit s) m) m sources"

lemma frozen_commits_simps [simp]:
  "frozen_commits [] m = m"
  "frozen_commits (s # ss) m = frozen_commits ss (AList.update (srcRepository s) (srcCommit s) m)"
  by (simp_all add: frozen_commits_def)

lemma update_same: "map_of m k = Some v \<Longrightarrow> AList.update k v m = m"
  by (induction m) (auto split: if_splits)

lemma set_update_sub: "set (AList.update k v m) \<subseteq> insert (k, v) (set m)"
  by (induction m) auto

text \<open>\<open>serves\<close>: the repository of a source is registered, open, not archived, and has the commit.\<close>

definition serves :: "'st snapshot_ops \<Rightarrow> ('g, 'st, 'w) Catalog \<Rightarrow> string \<Rightarrow> string \<Rightarrow> bool" where
  "serves sops c rid commit =
    (HasRepository rid c \<and>
     (case catStore c of None \<Rightarrow> False
      | Some store \<Rightarrow> (case Registry_Get rid store of None \<Rightarrow> False
        | Some repo \<Rightarrow> \<not> stArchived sops repo \<and> stHasCommit sops commit repo)))"

lemma checkResolvedRepository_iff:
  "checkResolvedRepository sops c rid commit = [] \<longleftrightarrow> serves sops c rid commit"
  by (auto simp: checkResolvedRepository_def serves_def split: option.splits)

lemma CheckResolved_PASSED:
  "ckOutcome (CheckResolved sops resolved c) = ''PASSED'' \<longleftrightarrow>
    (\<forall>(rid, commit) \<in> set (rsRepositories resolved). serves sops c rid commit)"
  by (auto simp: CheckResolved_def knowledgeSetCheck_def checkResolvedRepository_iff split_beta)

definition agrees :: "KnowledgeSetSource list \<Rightarrow> (string, string) gomap \<Rightarrow> bool" where
  "agrees S m = (\<forall>s \<in> set S. \<forall>c. map_of m (srcRepository s) = Some c \<longrightarrow> srcCommit s = c)"

lemma agrees_update:
  assumes "one_coordinate S" "s \<in> set S" "agrees S m"
  shows "agrees S (AList.update (srcRepository s) (srcCommit s) m)"
  unfolding agrees_def
proof (intro ballI allI impI)
  fix t d
  assume t: "t \<in> set S" "map_of (AList.update (srcRepository s) (srcCommit s) m) (srcRepository t) = Some d"
  show "srcCommit t = d"
  proof (cases "srcRepository t = srcRepository s")
    case True
    then have "srcCommit t = srcCommit s" using assms(1,2) t(1) unfolding one_coordinate_def by blast
    then show ?thesis using t(2) True by (simp add: map_simps)
  next
    case False
    then have "map_of m (srcRepository t) = Some d" using t(2) by (simp add: map_simps)
    then show ?thesis using assms(3) t(1) unfolding agrees_def by blast
  qed
qed

lemma agreesD: "agrees S m \<Longrightarrow> s \<in> set S \<Longrightarrow> map_of m (srcRepository s) = Some d \<Longrightarrow> srcCommit s = d"
  unfolding agrees_def by blast

lemma resolve_loop_step:
  assumes "map_of repos (srcRepository s) = None" "srcCommit s \<noteq> []"
  shows "resolve_loop sops c [] (s # rest) repos =
    (if serves sops c (srcRepository s) (srcCommit s)
     then resolve_loop sops c [] rest (AList.update (srcRepository s) (srcCommit s) repos)
     else resolve_loop sops c [] [s] repos)"
  using assms
  by (auto simp: serves_def source_commit_def requireRepository_def rbind_def split: option.splits sum.splits)

lemma resolve_loop_not_served:
  assumes "map_of repos (srcRepository s) = None" "srcCommit s \<noteq> []"
    "\<not> serves sops c (srcRepository s) (srcCommit s)"
  shows "\<not> ok (resolve_loop sops c [] (s # rest) repos)"
  using assms
  by (auto simp: serves_def source_commit_def requireRepository_def rbind_def ok_def split: option.splits sum.splits)

text \<open>Resolving frozen sources succeeds exactly when every repository serves its commit, and the
  result is the coordinate map of the sources.\<close>

lemma resolve_loop_frozen:
  assumes "one_coordinate S" "set sources \<subseteq> set S" "\<forall>s \<in> set S. srcCommit s \<noteq> []" "agrees S repos"
    and "\<forall>(r, d) \<in> set repos. serves sops c r d"
  shows "(\<exists>w. resolve_loop sops c [] sources repos = Inr w) \<longleftrightarrow>
      (\<forall>s \<in> set sources. serves sops c (srcRepository s) (srcCommit s))"
    and "resolve_loop sops c [] sources repos = Inr w \<Longrightarrow> w = frozen_commits sources repos"
proof -
  have "((\<exists>w. resolve_loop sops c [] sources repos = Inr w) \<longleftrightarrow>
      (\<forall>s \<in> set sources. serves sops c (srcRepository s) (srcCommit s))) \<and>
    (\<forall>w. resolve_loop sops c [] sources repos = Inr w \<longrightarrow> w = frozen_commits sources repos)"
    using assms(2,4,5)
  proof (induction sources arbitrary: repos)
    case (Cons s rest)
    have s: "s \<in> set S" "set rest \<subseteq> set S" "srcCommit s \<noteq> []" using Cons.prems assms(3) by auto
    show ?case
    proof (cases "map_of repos (srcRepository s)")
      case (Some d)
      then have d: "srcCommit s = d" using agreesD [OF Cons.prems(2) s(1)] by blast
      moreover have "serves sops c (srcRepository s) d"
        using Cons.prems(3) map_of_SomeD [OF Some] by auto
      moreover have "AList.update (srcRepository s) (srcCommit s) repos = repos"
        using Some d by (simp add: update_same)
      ultimately show ?thesis using Cons.IH [OF s(2) Cons.prems(2,3)] Some by simp
    next
      case None
      show ?thesis
      proof (cases "serves sops c (srcRepository s) (srcCommit s)")
        case True
        have "\<forall>(r, d) \<in> set (AList.update (srcRepository s) (srcCommit s) repos). serves sops c r d"
          using Cons.prems(3) True set_update_sub [of "srcRepository s" "srcCommit s" repos] by auto
        then show ?thesis
          using Cons.IH [OF s(2) agrees_update [OF assms(1) s(1) Cons.prems(2)]] True
            resolve_loop_step [OF None s(3), of sops c rest] by (simp del: resolve_loop.simps(2))
      next
        case False
        then have "\<not> ok (resolve_loop sops c [] (s # rest) repos)"
          by (rule resolve_loop_not_served [OF None s(3)])
        then show ?thesis using False by (auto simp: not_ok_iff)
      qed
    qed
  qed simp
  then show "(\<exists>w. resolve_loop sops c [] sources repos = Inr w) \<longleftrightarrow>
      (\<forall>s \<in> set sources. serves sops c (srcRepository s) (srcCommit s))"
    and "resolve_loop sops c [] sources repos = Inr w \<Longrightarrow> w = frozen_commits sources repos" by auto
qed

lemma frozen_commits_lookup:
  assumes "one_coordinate S" "set sources \<subseteq> set S" "agrees S m" "s \<in> set S"
    and "s \<in> set sources \<or> map_of m (srcRepository s) \<noteq> None"
  shows "map_of (frozen_commits sources m) (srcRepository s) = Some (srcCommit s)"
  using assms(2,3,5)
proof (induction sources arbitrary: m)
  case Nil
  then show ?case using agreesD [OF Nil.prems(2) assms(4)] by auto
next
  case (Cons t rest)
  have t: "t \<in> set S" "set rest \<subseteq> set S" using Cons.prems(1) by auto
  have "s \<in> set rest \<or> map_of (AList.update (srcRepository t) (srcCommit t) m) (srcRepository s) \<noteq> None"
    using Cons.prems(3) by (auto simp: map_simps)
  then show ?case
    using Cons.IH [OF t(2) agrees_update [OF assms(1) t(1) Cons.prems(2)]] by simp
qed

lemma frozen_commits_origin:
  "(r, d) \<in> set (frozen_commits sources m) \<Longrightarrow>
   (r, d) \<in> set m \<or> (\<exists>s \<in> set sources. r = srcRepository s \<and> d = srcCommit s)"
proof (induction sources arbitrary: m)
  case (Cons s rest)
  then have "(r, d) \<in> set (AList.update (srcRepository s) (srcCommit s) m) \<or>
      (\<exists>s \<in> set rest. r = srcRepository s \<and> d = srcCommit s)" by simp
  then show ?case using set_update_sub [of "srcRepository s" "srcCommit s" m] by auto
qed simp

lemma distinct_frozen_commits: "distinct (map fst m) \<Longrightarrow> distinct (map fst (frozen_commits sources m))"
  by (induction sources arbitrary: m) (auto intro: distinct_update)

lemma frozen_items:
  assumes "one_coordinate sources"
  shows "datasetItemsFromSources sources (frozen_commits sources []) = datasetItemsFromSources sources []"
proof -
  have "datasetItemFromSource s (frozen_commits sources []) = datasetItemFromSource s []" if "s \<in> set sources" for s
    using frozen_commits_lookup [OF assms, of sources "[]" s] that
    by (simp add: datasetItemFromSource_def agrees_def)
  then have "items_loop seen (frozen_commits sources []) ss = items_loop seen [] ss"
    if "set ss \<subseteq> set sources" for seen ss
    using that by (induction ss arbitrary: seen) (auto simp: rbind_def split: sum.splits)
  then show ?thesis by (simp add: datasetItemsFromSources_def)
qed

section \<open>Facts about replaying\<close>

lemma replay_loop_frozen:
  assumes "\<forall>s \<in> set sources. srcCommit s \<noteq> []" and "replay_loop pinned sources want = Inr w"
  shows "w = frozen_commits sources want"
  using assms by (induction sources arbitrary: want) (auto split: option.splits if_splits)

lemma replay_loop_ok:
  assumes "\<forall>s \<in> set sources. srcCommit s \<noteq> [] \<and> map_of pinned (srcRepository s) = Some (srcCommit s)"
  shows "replay_loop pinned sources want = Inr (frozen_commits sources want)"
  using assms by (induction sources arbitrary: want) auto

lemma maps_equal_refl: "distinct (map fst m) \<Longrightarrow> maps_equal m m"
  by (auto simp: maps_equal_def list_all_iff)

text \<open>The pin that a frozen definition determines.\<close>

definition release_pin :: "(string \<Rightarrow> string) \<Rightarrow> KnowledgeSet \<Rightarrow> DatasetItem list \<Rightarrow> ResolvedKnowledgeSet" where
  "release_pin sha def items = \<lparr>rsSetID = setID def, rsRevision = setRevision def,
     rsRef = DatasetVersionRef (setRevision def), rsRepositories = frozen_commits (setSources def) [],
     rsItems = items,
     rsPinID = HashResolved sha (setID def) (setSources def) (frozen_commits (setSources def) [])\<rparr>"

definition pinnable :: "KnowledgeSet \<Rightarrow> DatasetItem list \<Rightarrow> bool" where
  "pinnable def items =
    (\<not> setRetired def \<and> setSources def \<noteq> [] \<and> validateMountPaths (setSources def) = Inr () \<and>
     validateSourceCoordinates (setSources def) = Inr () \<and>
     datasetItemsFromSources (setSources def) [] = Inr items)"

definition all_frozen :: "KnowledgeSet \<Rightarrow> bool" where
  "all_frozen def = (\<forall>s \<in> set (setSources def). srcCommit s \<noteq> [])"

definition all_served :: "'st snapshot_ops \<Rightarrow> ('g, 'st, 'w) Catalog \<Rightarrow> KnowledgeSet \<Rightarrow> bool" where
  "all_served sops c def = (\<forall>s \<in> set (setSources def). serves sops c (srcRepository s) (srcCommit s))"

text \<open>Resolving a frozen definition: it succeeds exactly when the definition is valid and all its
  commits are served, and then gives the pin of the definition.\<close>

lemma resolve_frozen:
  assumes "all_frozen def"
  shows "ResolveDefinition sha sops def c = Inr pin \<longleftrightarrow>
    (\<exists>items. pinnable def items \<and> all_served sops c def \<and> pin = release_pin sha def items)"
proof (cases "setRetired def \<or> setSources def = [] \<or> validateMountPaths (setSources def) \<noteq> Inr () \<or>
    validateSourceCoordinates (setSources def) \<noteq> Inr ()")
  case True
  then show ?thesis
    by (auto simp: ResolveDefinition_def ResolveDefinitionOverlay_def pinnable_def rbind_Inr_iff)
next
  case False
  then have v: "\<not> setRetired def" "setSources def \<noteq> []" "validateMountPaths (setSources def) = Inr ()"
    "validateSourceCoordinates (setSources def) = Inr ()" by auto
  note one = coordinates_one [OF v(4)]
  note loop = resolve_loop_frozen [OF one order_refl, of "[]" sops c]
  have fr: "\<forall>s \<in> set (setSources def). srcCommit s \<noteq> []" "agrees (setSources def) []"
    "\<forall>(r, d) \<in> set []. serves sops c r d"
    using assms by (auto simp: all_frozen_def agrees_def)
  show ?thesis
  proof (cases "all_served sops c def")
    case True
    then obtain w where w: "resolve_loop sops c [] (setSources def) [] = Inr w"
      using loop(1) [OF fr] unfolding all_served_def by blast
    moreover have "w = frozen_commits (setSources def) []" by (rule loop(2) [OF fr w])
    ultimately show ?thesis using v True
      by (auto simp: ResolveDefinition_def ResolveDefinitionOverlay_def rbind_Inr_iff pinnable_def
          release_pin_def frozen_items [OF one])
  next
    case False
    then have "\<not> (\<exists>w. resolve_loop sops c [] (setSources def) [] = Inr w)"
      using loop(1) [OF fr] unfolding all_served_def by blast
    then show ?thesis using v False
      by (auto simp: ResolveDefinition_def ResolveDefinitionOverlay_def rbind_Inr_iff)
  qed
qed

lemma release_pin_check:
  assumes "all_served sops c def"
  shows "ckOutcome (CheckResolved sops (release_pin sha def items) c) = ''PASSED''"
  using assms frozen_commits_origin [of _ _ "setSources def" "[]"]
  by (auto simp: CheckResolved_PASSED release_pin_def all_served_def)

lemma replay_frozen:
  assumes "all_frozen def" and "ReplayDefinition sha def pin = Inr r"
  shows "\<exists>items. pinnable def items \<and> r = release_pin sha def items"
proof -
  have v: "\<not> setRetired def" "validateMountPaths (setSources def) = Inr ()"
    "validateSourceCoordinates (setSources def) = Inr ()"
    using assms(2) by (auto simp: ReplayDefinition_def rbind_Inr_iff split: if_splits)
  obtain w where w: "replay_loop (rsRepositories pin) (setSources def) [] = Inr w" "w \<noteq> []"
    using assms(2) v by (auto simp: ReplayDefinition_def rbind_Inr_iff split: if_splits)
  then have wf: "w = frozen_commits (setSources def) []"
    using replay_loop_frozen assms(1) unfolding all_frozen_def by blast
  obtain items where i: "datasetItemsFromSources (setSources def) w = Inr items"
    and r: "r = release_pin sha def items"
    using assms(2) v w wf
    by (auto simp: ReplayDefinition_def rbind_Inr_iff release_pin_def Let_def split: if_splits)
  have "pinnable def items"
    using v w i wf frozen_items [OF coordinates_one [OF v(3)]] by (auto simp: pinnable_def)
  then show ?thesis using r by blast
qed

lemma replay_release_pin:
  assumes "all_frozen def" and "pinnable def items"
  shows "ReplayDefinition sha def (release_pin sha def items) = Inr (release_pin sha def items)"
proof -
  let ?w = "frozen_commits (setSources def) []"
  have v: "validateSourceCoordinates (setSources def) = Inr ()" "setSources def \<noteq> []"
    using assms(2) by (auto simp: pinnable_def)
  note one = coordinates_one [OF v(1)]
  have l: "\<forall>s \<in> set (setSources def). srcCommit s \<noteq> [] \<and> map_of ?w (srcRepository s) = Some (srcCommit s)"
    using frozen_commits_lookup [OF one order_refl] assms(1) by (auto simp: all_frozen_def agrees_def)
  then have "?w \<noteq> []" using v(2) by (cases "setSources def") auto
  moreover have "maps_equal ?w ?w" by (intro maps_equal_refl distinct_frozen_commits) simp
  ultimately show ?thesis
    using assms(2) replay_loop_ok [OF l, of "[]"]
    by (simp add: ReplayDefinition_def release_pin_def pinnable_def frozen_items [OF one])
qed

section \<open>Facts about publishing and then resolving\<close>

lemma publish_result:
  assumes "PublishKnowledgeSet ops sops candidate c = (Inr def, c')"
  shows "publish_candidate sops candidate c = Inr def"
    and "\<exists>g h. c' = loadState (publish_state ops def c) (c\<lparr>catRegistry := g, catRegistryHead := h\<rparr>)"
proof -
  obtain d where d: "publish_candidate sops candidate c = Inr d"
    using assms by (cases "publish_candidate sops candidate c") (auto simp: PublishKnowledgeSet_def)
  obtain u c1 where per: "persist ops (publish_state ops d c) (''dataset-define '' @ setID d) c = (u, c1)"
    by fastforce
  have r: "def = d" "c' = c1" "u = Inr ()"
    using assms d per by (auto simp: PublishKnowledgeSet_def Let_def publish_state_def split: sum.splits)
  show "publish_candidate sops candidate c = Inr def" using d r(1) by simp
  from per [folded r(1,2)]
  show "\<exists>g h. c' = loadState (publish_state ops def c) (c\<lparr>catRegistry := g, catRegistryHead := h\<rparr>)"
    by (cases rule: persist_cases) (use r(3) in auto)
qed

lemma list_all2_same: "list_all2 P xs ys \<Longrightarrow> (\<And>x y. x \<in> set xs \<Longrightarrow> P x y \<Longrightarrow> y = x) \<Longrightarrow> ys = xs"
  by (induction rule: list_all2_induct) auto

lemma published_sources:
  assumes "publish_candidate sops candidate c = Inr def"
  shows "setSources def = setSources candidate" and "pinnable def (setItems def)" and "all_frozen def"
    and "\<exists>reg. catStore c = Some reg \<and> (\<forall>s \<in> set (setSources def). srcRepository s \<in> set (catRepositories c) \<and>
      (\<exists>repo. Registry_Get (srcRepository s) reg = Some repo \<and> stHasCommit sops (srcCommit s) repo))"
proof -
  note p = publish_candidate_ok [OF assms]
  obtain reg where reg: "catStore c = Some reg" using freezeSources_Some [OF p(9,6)] by blast
  have l: "list_all2 (\<lambda>s f. f = s\<lparr>srcCommit := srcCommit f\<rparr> \<and> freezes sops reg s (srcCommit f))
      (setSources candidate) (setSources def)"
    using freezing_source_list [OF p(8) p(9) [unfolded reg]] .
  show same: "setSources def = setSources candidate"
    by (rule list_all2_same [OF l]) (use p(11) in \<open>auto simp: freezes_def split: option.splits\<close>)
  show "pinnable def (setItems def)" "all_frozen def"
    using p same by (auto simp: pinnable_def all_frozen_def)
  have "list_all2 (\<lambda>s f. freezes sops reg s (srcCommit f)) (setSources def) (setSources def)"
    using l same by (auto elim: list_all2_mono)
  then have fz: "\<forall>s \<in> set (setSources def). freezes sops reg s (srcCommit s)"
    by (simp add: list.rel_refl_strong list_all2_same list_all2_conv_all_nth all_set_conv_all_nth)
  have "srcRepository s \<in> set (catRepositories c) \<and>
      (\<exists>repo. Registry_Get (srcRepository s) reg = Some repo \<and> stHasCommit sops (srcCommit s) repo)"
    if "s \<in> set (setSources def)" for s
    using p(11) fz same that by (fastforce simp: freezes_def split: option.splits)
  then show "\<exists>reg. catStore c = Some reg \<and> (\<forall>s \<in> set (setSources def). srcRepository s \<in> set (catRepositories c) \<and>
      (\<exists>repo. Registry_Get (srcRepository s) reg = Some repo \<and> stHasCommit sops (srcCommit s) repo))"
    using reg by blast
qed

section \<open>Properties\<close>

text \<open>C15. From publication to a pin: after a successful publication, if none of the member repositories
  is archived, the dataset resolves; the pin names the published release, holds for every source the
  commit of the published source, delivers exactly the published file list, and passes the check.\<close>

theorem published_dataset_resolves:
  assumes "catalog_ok c" and "PublishKnowledgeSet ops sops candidate c = (Inr def, c')"
    and "\<forall>s \<in> set (setSources candidate). \<forall>repo.
      Registry_Get (srcRepository s) (the (catStore c)) = Some repo \<longrightarrow> \<not> stArchived sops repo"
  shows "\<exists>pin. ResolveKnowledgeSet sha sops (setID candidate) c' = Inr pin \<and>
    rsSetID pin = setID candidate \<and> rsRevision pin = setRevision candidate \<and> rsItems pin = setItems def \<and>
    (\<forall>s \<in> set (setSources candidate). map_of (rsRepositories pin) (srcRepository s) = Some (srcCommit s)) \<and>
    ckOutcome (CheckResolved sops pin c') = ''PASSED''"
proof -
  note r = publish_result [OF assms(2)] and s = published_sources [OF publish_result(1) [OF assms(2)]]
  note p = publish_candidate_ok [OF r(1)]
  obtain g h where c': "c' = loadState (publish_state ops def c) (c\<lparr>catRegistry := g, catRegistryHead := h\<rparr>)"
    using r(2) by blast
  have env: "catStore c' = catStore c" "set (catRepositories c') = set (catRepositories c)"
    by (simp_all add: c' loadState_def publish_state_def dumpState_def)
  have served: "all_served sops c' def"
    using s(4) assms(3) env s(1) by (fastforce simp: all_served_def serves_def HasRepository_def)
  have one: "one_coordinate (setSources def)" using coordinates_one p(8) s(1) by metis
  have res: "ResolveDefinition sha sops def c' = Inr (release_pin sha def (setItems def))"
    using resolve_frozen [OF s(3)] s(2) served by blast
  have "Catalog_Set (setID def) c' = Inr def"
    by (simp add: c' Catalog_Set_def publish_datasets [OF assms(1)])
  then have "ResolveKnowledgeSet sha sops (setID candidate) c' = Inr (release_pin sha def (setItems def))"
    using res p(1) by (simp add: ResolveKnowledgeSet_def ResolveKnowledgeSetOverlay_def ResolveDefinition_def)
  moreover have "\<forall>s \<in> set (setSources candidate).
      map_of (frozen_commits (setSources def) []) (srcRepository s) = Some (srcCommit s)"
    using frozen_commits_lookup [OF one order_refl] s(1) by (auto simp: agrees_def)
  ultimately show ?thesis
    using release_pin_check [OF served, of sha "setItems def"] p(1,2) by (simp add: release_pin_def)
qed

theorem published_dataset_resolves_witness:
  "\<exists>pin. ResolveKnowledgeSet (\<lambda>s. s) memory_ops ''docs'' demo_published = Inr pin \<and>
     rsItems pin = demo_items \<and> ckOutcome (CheckResolved memory_ops pin demo_published) = ''PASSED''"
proof -
  have "\<forall>s \<in> set (setSources demo_set). srcRepository s = ''kr://a/b''"
    by (simp add: demo_set_def demo_frozen_def demo_mount_def demo_file_def)
  moreover have "Registry_Get ''kr://a/b'' (the (catStore demo_catalog)) = Some demo_one"
    by (simp add: demo_catalog_def demo_registry_def Registry_Get_def)
  moreover have "\<not> stArchived memory_ops demo_one" by code_simp
  ultimately have "\<forall>s \<in> set (setSources demo_set). \<forall>repo.
      Registry_Get (srcRepository s) (the (catStore demo_catalog)) = Some repo \<longrightarrow> \<not> stArchived memory_ops repo"
    by simp
  from published_dataset_resolves [OF demo_catalog_ok demo_publish this, of "\<lambda>s. s"]
  show ?thesis by (auto simp: demo_set_def)
qed

text \<open>C16. A frozen dataset does not follow branches: resolving it gives the same result whatever the
  refs of its repositories point to.\<close>

theorem frozen_resolution_ignores_refs:
  assumes "\<forall>s \<in> set (setSources def). srcCommit s \<noteq> []"
  shows "ResolveDefinition sha (sops\<lparr>stGetRef := refs\<rparr>) def c = Inr pin \<longleftrightarrow> ResolveDefinition sha sops def c = Inr pin"
proof -
  have "all_served (sops\<lparr>stGetRef := refs\<rparr>) c def = all_served sops c def"
    by (simp add: all_served_def serves_def cong: option.case_cong)
  then show ?thesis using assms by (simp add: resolve_frozen all_frozen_def)
qed

theorem frozen_resolution_ignores_refs_witness:
  "ResolveDefinition (\<lambda>s. s) (memory_ops\<lparr>stGetRef := \<lambda>_ _. None\<rparr>) demo_set demo_published
     = Inr (release_pin (\<lambda>s. s) demo_set demo_items)"
proof -
  have "ResolveDefinition (\<lambda>s. s) memory_ops demo_set demo_published
      = Inr (release_pin (\<lambda>s. s) demo_set demo_items)" by code_simp
  moreover have "\<forall>s \<in> set (setSources demo_set). srcCommit s \<noteq> []"
    by (simp add: demo_set_def demo_frozen_def)
  ultimately show ?thesis using frozen_resolution_ignores_refs by blast
qed

text \<open>C17. A pin grants no scope of its own: whatever commits, files or hashes two pins of one frozen
  release claim, if both are replayed, then both give the same result, the file list of the release
  with the commits of the release, also when the second one is replayed much later.\<close>

theorem replay_grants_published_scope:
  assumes "catalog_ok c" and "(catalog_step ops sops)\<^sup>*\<^sup>* c c'"
    and "DatasetVersion sid revision c = Inr def" and "\<forall>s \<in> set (setSources def). srcCommit s \<noteq> []"
    and "rsSetID p = sid" "rsRevision p = revision" and "ReplayPublished sha sops p c = Inr r"
    and "rsSetID q = sid" "rsRevision q = revision" and "ReplayPublished sha sops q c' = Inr r'"
  shows "r' = r \<and> datasetItemsFromSources (setSources def) [] = Inr (rsItems r) \<and>
    (\<forall>s \<in> set (setSources def). map_of (rsRepositories r) (srcRepository s) = Some (srcCommit s))"
proof -
  have k: "keeps c c'" by (rule steps_keep [OF assms(2,1)])
  have v: "version_in (catVersions c) sid revision = Some def"
    using assms(3) by (auto simp: DatasetVersion_def split: option.splits if_splits)
  then have "version_in (catVersions c') sid revision = Some def" using k unfolding keeps_def by blast
  then have later: "DatasetVersion sid revision c' = Inr def"
    using assms(8-10) by (auto simp: ReplayPublished_def rbind_Inr_iff DatasetVersion_def split: option.splits if_splits)
  have fr: "all_frozen def" using assms(4) by (simp add: all_frozen_def)
  have p: "ReplayDefinition sha def p = Inr r"
    using assms(3,5-7) by (auto simp: ReplayPublished_def rbind_Inr_iff split: if_splits)
  have q: "ReplayDefinition sha def q = Inr r'"
    using later assms(8-10) by (auto simp: ReplayPublished_def rbind_Inr_iff split: if_splits)
  obtain items where i: "pinnable def items" "r = release_pin sha def items"
    using replay_frozen [OF fr p] by blast
  obtain items' where i': "pinnable def items'" "r' = release_pin sha def items'"
    using replay_frozen [OF fr q] by blast
  have one: "one_coordinate (setSources def)" using i(1) coordinates_one by (auto simp: pinnable_def)
  have "\<forall>s \<in> set (setSources def). map_of (frozen_commits (setSources def) []) (srcRepository s) = Some (srcCommit s)"
    using frozen_commits_lookup [OF one order_refl] by (auto simp: agrees_def)
  then show ?thesis using i i' by (auto simp: pinnable_def release_pin_def)
qed

text \<open>Two pins of the demo release: one as resolved, one that names only the commits.\<close>

definition demo_pin :: ResolvedKnowledgeSet where
  "demo_pin = release_pin (\<lambda>s. s) demo_set demo_items"

definition demo_bare_pin :: ResolvedKnowledgeSet where
  "demo_bare_pin = demo_pin\<lparr>rsRef := [], rsItems := [], rsPinID := []\<rparr>"

theorem replay_grants_published_scope_witness:
  "\<exists>r. ReplayPublished (\<lambda>s. s) memory_ops demo_pin demo_published = Inr r \<and>
     ReplayPublished (\<lambda>s. s) memory_ops demo_bare_pin demo_published = Inr r \<and>
     datasetItemsFromSources (setSources demo_set) [] = Inr (rsItems r)"
proof -
  have "ok (ReplayPublished (\<lambda>s. s) memory_ops demo_pin demo_published)"
    "ok (ReplayPublished (\<lambda>s. s) memory_ops demo_bare_pin demo_published)" by code_simp+
  then obtain r r' where r: "ReplayPublished (\<lambda>s. s) memory_ops demo_pin demo_published = Inr r"
    "ReplayPublished (\<lambda>s. s) memory_ops demo_bare_pin demo_published = Inr r'" by (auto simp: ok_iff)
  have v: "DatasetVersion ''docs'' 1 demo_published = Inr demo_set" by code_simp
  have f: "\<forall>s \<in> set (setSources demo_set). srcCommit s \<noteq> []"
    by (simp add: demo_set_def demo_frozen_def)
  have n: "rsSetID demo_pin = ''docs''" "rsRevision demo_pin = 1"
    "rsSetID demo_bare_pin = ''docs''" "rsRevision demo_bare_pin = 1"
    by (simp_all add: demo_pin_def demo_bare_pin_def release_pin_def demo_set_def)
  show ?thesis
    using replay_grants_published_scope [OF demo_published_ok rtranclp.rtrancl_refl v f n(1,2) r(1) n(3,4) r(2)] r
    by blast
qed

text \<open>Resolve then replay: the pin of a frozen dataset replays to itself.\<close>

theorem resolved_pin_replays:
  assumes "catalog_ok c" and "ResolveKnowledgeSet sha sops sid c = Inr pin"
    and "\<forall>d. Catalog_Set sid c = Inr d \<longrightarrow> (\<forall>s \<in> set (setSources d). srcCommit s \<noteq> [])"
  shows "ReplayPublished sha sops pin c = Inr pin"
proof -
  obtain def where d: "Catalog_Set sid c = Inr def" and res: "ResolveDefinition sha sops def c = Inr pin"
    using assms(2)
    by (auto simp: ResolveKnowledgeSet_def ResolveKnowledgeSetOverlay_def ResolveDefinition_def rbind_Inr_iff)
  have fr: "all_frozen def" using assms(3) d by (auto simp: all_frozen_def)
  obtain items where i: "pinnable def items" "all_served sops c def" "pin = release_pin sha def items"
    using resolve_frozen [OF fr] res by blast
  have cur: "map_of (catDatasets c) sid = Some def" using d by (auto simp: Catalog_Set_def split: option.splits)
  have "def\<lparr>setRetired := False\<rparr> = def" using i(1) by (cases "def") (simp add: pinnable_def)
  then have "DatasetVersion (rsSetID pin) (rsRevision pin) c = Inr def"
    using catalog_ok_current [OF assms(1) cur] cur i(1,3)
    by (simp add: DatasetVersion_def release_pin_def pinnable_def)
  then show ?thesis
    using replay_release_pin [OF fr i(1), of sha] release_pin_check [OF i(2), of sha items] i(3)
    by (simp add: ReplayPublished_def)
qed

theorem resolved_pin_replays_witness:
  "ReplayPublished (\<lambda>s. s) memory_ops demo_pin demo_published = Inr demo_pin"
proof -
  have r: "ResolveKnowledgeSet (\<lambda>s. s) memory_ops ''docs'' demo_published = Inr demo_pin"
    unfolding demo_pin_def by code_simp
  have "Catalog_Set ''docs'' demo_published = Inr demo_set" by code_simp
  then have "\<forall>d. Catalog_Set ''docs'' demo_published = Inr d \<longrightarrow> (\<forall>s \<in> set (setSources d). srcCommit s \<noteq> [])"
    by (simp add: demo_set_def demo_frozen_def)
  then show ?thesis by (rule resolved_pin_replays [OF demo_published_ok r])
qed

text \<open>What the address of a pin does not separate: a mount at the path \<open>a#b\<close> and a mount of the subtree
  \<open>b\<close> at the path \<open>a\<close> are hashed from the same text.\<close>

lemma pin_input_ambiguous:
  "hash_input ''d'' [demo_mount\<lparr>srcPath := Some ''a#b'', srcSubPath := []\<rparr>] m =
   hash_input ''d'' [demo_mount\<lparr>srcPath := Some ''a'', srcSubPath := ''b''\<rparr>] m"
proof -
  have t: "hash_token (demo_mount\<lparr>srcPath := Some ''a#b'', srcSubPath := []\<rparr>) =
      hash_token (demo_mount\<lparr>srcPath := Some ''a'', srcSubPath := ''b''\<rparr>)" by code_simp
  have "hash_loop [demo_mount\<lparr>srcPath := Some ''a#b'', srcSubPath := []\<rparr>] m ks s =
      hash_loop [demo_mount\<lparr>srcPath := Some ''a'', srcSubPath := ''b''\<rparr>] m ks s" for ks s
    using t by (induction ks arbitrary: s) (simp_all add: Let_def)
  then show ?thesis by (simp add: hash_input_def)
qed

end
