(* ===== verification/Overlay.thy ===== *)
theory Overlay
  imports Resolve
begin

text \<open>
  The portable recipe of a dataset and the local overlay on it (\<open>src/snapshot/dataset/recipe.go\<close>,
  \<open>overlay.go\<close>): reading and writing recipes, and the merge of an overlay into a definition.  YAML text
  is a parameter: \<open>decode\<close> gives the decoded value, or None when the text is not YAML of that shape.
\<close>

section \<open>Recipes\<close>

record KnowledgeSetMount =
  kmRepository :: string
  kmSelector :: string
  kmPath :: string
  kmSubPath :: string
  kmBaseRev :: string

record KnowledgeSetFileMount =
  kfRepository :: string
  kfSelector :: string
  kfFile :: string
  kfTarget :: string
  kfBaseRev :: string

record KnowledgeSetRecipe =
  rcName :: string
  rcMounts :: "KnowledgeSetMount list"
  rcFiles :: "KnowledgeSetFileMount list"

definition blank :: "string \<Rightarrow> bool" where
  "blank s = (TrimSpace s = [])"

definition check_mount_line :: "KnowledgeSetMount \<Rightarrow> unit go" where
  "check_mount_line m =
    (if blank (kmRepository m) \<or> blank (kmSelector m) then fails ErrUsageInvalid else Inr ())"

definition check_file_line :: "KnowledgeSetFileMount \<Rightarrow> unit go" where
  "check_file_line f =
    (if blank (kfRepository f) \<or> blank (kfSelector f) \<or> blank (kfFile f) \<or> blank (kfTarget f)
     then fails ErrUsageInvalid else Inr ())"

definition ParseKnowledgeSetRecipe :: "(string \<Rightarrow> KnowledgeSetRecipe option) \<Rightarrow> string \<Rightarrow> KnowledgeSetRecipe go" where
  "ParseKnowledgeSetRecipe decode raw =
    (case decode raw of
      None \<Rightarrow> fails ErrUsageInvalid
    | Some rec \<Rightarrow>
        if blank (rcName rec) then fails ErrUsageInvalid
        else if length (rcMounts rec) = 0 \<and> length (rcFiles rec) = 0 then fails ErrUsageInvalid
        else rbind (each_ok check_mount_line (rcMounts rec)) (\<lambda>_.
             rbind (each_ok check_file_line (rcFiles rec)) (\<lambda>_. Inr rec)))"

definition source_of_mount :: "KnowledgeSetMount \<Rightarrow> KnowledgeSetSource" where
  "source_of_mount m = \<lparr>srcRepository = kmRepository m, srcSelector = kmSelector m,
     srcPath = Some (kmPath m), srcSubPath = kmSubPath m, srcCommit = [], srcBaseRev = kmBaseRev m,
     srcFile = [], srcTarget = []\<rparr>"

definition source_of_file :: "KnowledgeSetFileMount \<Rightarrow> KnowledgeSetSource" where
  "source_of_file f = \<lparr>srcRepository = kfRepository f, srcSelector = kfSelector f, srcPath = None,
     srcSubPath = [], srcCommit = [], srcBaseRev = kfBaseRev f, srcFile = kfFile f,
     srcTarget = kfTarget f\<rparr>"

definition Recipe_Sources :: "KnowledgeSetRecipe \<Rightarrow> KnowledgeSetSource list" where
  "Recipe_Sources r = map source_of_mount (rcMounts r) @ map source_of_file (rcFiles r)"

fun recipe_loop :: "KnowledgeSetSource list \<Rightarrow> KnowledgeSetRecipe \<Rightarrow> KnowledgeSetRecipe option" where
  "recipe_loop [] rec = Some rec"
| "recipe_loop (src # rest) rec =
    (if IsFileEntry src
     then recipe_loop rest (rec\<lparr>rcFiles := rcFiles rec @ [\<lparr>kfRepository = srcRepository src,
            kfSelector = srcSelector src, kfFile = srcFile src, kfTarget = srcTarget src,
            kfBaseRev = srcBaseRev src\<rparr>]\<rparr>)
     else (case srcPath src of
       None \<Rightarrow> None
     | Some p \<Rightarrow> recipe_loop rest (rec\<lparr>rcMounts := rcMounts rec @ [\<lparr>kmRepository = srcRepository src,
            kmSelector = srcSelector src, kmPath = p, kmSubPath = srcSubPath src,
            kmBaseRev = srcBaseRev src\<rparr>]\<rparr>)))"

definition RecipeFromKnowledgeSet :: "KnowledgeSet \<Rightarrow> KnowledgeSetRecipe option" where
  "RecipeFromKnowledgeSet def =
    (if length (setSources def) = 0 then None
     else (case recipe_loop (setSources def) \<lparr>rcName = setID def, rcMounts = [], rcFiles = []\<rparr> of
       None \<Rightarrow> None
     | Some rec \<Rightarrow> if length (rcMounts rec) > 0 \<or> length (rcFiles rec) > 0 then Some rec else None))"

definition RootMount :: "KnowledgeSetSource list \<Rightarrow> KnowledgeSetSource option" where
  "RootMount sources =
    find (\<lambda>src. case srcPath src of None \<Rightarrow> False | Some p \<Rightarrow> NormalizeMountPath p = []) sources"

definition HasMountPaths :: "KnowledgeSetSource list \<Rightarrow> bool" where
  "HasMountPaths sources =
    (if length sources = 0 then False else list_all (\<lambda>src. srcPath src \<noteq> None) sources)"

section \<open>Overlays\<close>

record KnowledgeSetOverlay =
  ovName :: string
  ovRemove :: "string list"
  ovMounts :: "KnowledgeSetMount list"
  ovFiles :: "KnowledgeSetFileMount list"

definition OverlayFile :: "(string list \<Rightarrow> string) \<Rightarrow> string \<Rightarrow> string \<Rightarrow> string \<Rightarrow> string" where
  "OverlayFile path_join home who sid =
    (let owner = (if blank who then ''owner'' else who) in
     path_join [home, ''overlays'', fileToken owner, fileToken sid @ yamlExt])"

definition ParseKnowledgeSetOverlay :: "(string \<Rightarrow> KnowledgeSetOverlay option) \<Rightarrow> string \<Rightarrow> KnowledgeSetOverlay go" where
  "ParseKnowledgeSetOverlay decode raw =
    (case decode raw of
      None \<Rightarrow> fails ErrUsageInvalid
    | Some over \<Rightarrow>
        rbind (each_ok check_mount_line (ovMounts over)) (\<lambda>_.
        rbind (each_ok check_file_line (ovFiles over)) (\<lambda>_.
        rbind (each_ok (\<lambda>rid. if blank rid then fails ErrUsageInvalid else Inr ()) (ovRemove over)) (\<lambda>_.
          Inr over))))"

definition overlay_empty :: "KnowledgeSetOverlay \<Rightarrow> bool" where
  "overlay_empty ov = (length (ovRemove ov) = 0 \<and> length (ovMounts ov) = 0 \<and> length (ovFiles ov) = 0)"

text \<open>The surviving base sources with the index of mount paths and the index of delivered targets.\<close>

type_synonym overlay_table = "(string, nat) gomap \<times> (string, nat) gomap \<times> KnowledgeSetSource list"

fun overlay_base :: "string list \<Rightarrow> KnowledgeSetSource list \<Rightarrow> overlay_table \<Rightarrow> overlay_table go" where
  "overlay_base dropped [] t = Inr t"
| "overlay_base dropped (src # rest) (index, fileIndex, sources) =
    (if srcRepository src \<in> set dropped then overlay_base dropped rest (index, fileIndex, sources)
     else if \<not> IsFileEntry src
     then (case srcPath src of
       None \<Rightarrow> fails ErrKnowledgeSetInvalid
     | Some p \<Rightarrow> overlay_base dropped rest
         (AList.update (NormalizeMountPath p) (length sources) index, fileIndex, sources @ [src]))
     else overlay_base dropped rest
       (index, AList.update (NormalizeMountPath (srcTarget src)) (length sources) fileIndex,
        sources @ [src]))"

definition note_frozen :: "(string, KnowledgeSetSource) gomap \<Rightarrow> KnowledgeSetSource \<Rightarrow>
    (string, KnowledgeSetSource) gomap" where
  "note_frozen frozen src =
    (if srcCommit src = [] \<and> srcBaseRev src = [] then frozen
     else (case map_of frozen (srcRepository src) of
       None \<Rightarrow> AList.update (srcRepository src) src frozen
     | Some rep \<Rightarrow>
         if srcCommit rep \<noteq> srcCommit src \<or> srcBaseRev rep \<noteq> srcBaseRev src \<or> srcSelector rep \<noteq> srcSelector src
         then AList.delete (srcRepository src) frozen else frozen))"

definition inherit :: "(string, KnowledgeSetSource) gomap \<Rightarrow> KnowledgeSetSource \<Rightarrow> KnowledgeSetSource" where
  "inherit frozen src =
    (if srcCommit src \<noteq> [] \<or> srcBaseRev src \<noteq> [] then src
     else (case map_of frozen (srcRepository src) of
       None \<Rightarrow> src
     | Some rep \<Rightarrow> if srcSelector rep = srcSelector src
         then src\<lparr>srcCommit := srcCommit rep, srcBaseRev := srcBaseRev rep\<rparr> else src))"

text \<open>The slot rule: the entry that holds a path is replaced in place, a new path is appended.\<close>

definition put_slot :: "string \<Rightarrow> KnowledgeSetSource \<Rightarrow> (string, nat) gomap \<Rightarrow> KnowledgeSetSource list \<Rightarrow>
    (string, nat) gomap \<times> KnowledgeSetSource list" where
  "put_slot path src index sources =
    (case map_of index path of
      Some i \<Rightarrow> (index, sources[i := src])
    | None \<Rightarrow> (AList.update path (length sources) index, sources @ [src]))"

fun overlay_mounts :: "(string, KnowledgeSetSource) gomap \<Rightarrow> string list \<Rightarrow> KnowledgeSetMount list \<Rightarrow>
    (string, nat) gomap \<Rightarrow> KnowledgeSetSource list \<Rightarrow> KnowledgeSetSource list go" where
  "overlay_mounts frozen seen [] index sources = Inr sources"
| "overlay_mounts frozen seen (m # rest) index sources =
    (let mountPath = NormalizeMountPath (kmPath m) in
     if mountPath \<in> set seen then fails ErrKnowledgeSetInvalid
     else (case put_slot mountPath (inherit frozen (source_of_mount m)) index sources of
       (index', sources') \<Rightarrow> overlay_mounts frozen (mountPath # seen) rest index' sources'))"

fun overlay_files :: "string list \<Rightarrow> (string, KnowledgeSetSource) gomap \<Rightarrow> string list \<Rightarrow>
    KnowledgeSetFileMount list \<Rightarrow> (string, nat) gomap \<Rightarrow> KnowledgeSetSource list \<Rightarrow> KnowledgeSetSource list go" where
  "overlay_files dropped frozen seen [] index sources = Inr sources"
| "overlay_files dropped frozen seen (f # rest) index sources =
    (if kfRepository f \<in> set dropped then overlay_files dropped frozen seen rest index sources
     else (let target = NormalizeMountPath (kfTarget f) in
       if target \<in> set seen then fails ErrKnowledgeSetInvalid
       else (case put_slot target (inherit frozen (source_of_file f)) index sources of
         (index', sources') \<Rightarrow> overlay_files dropped frozen (target # seen) rest index' sources')))"

definition MergeOverlay :: "KnowledgeSet \<Rightarrow> KnowledgeSetOverlay \<Rightarrow> KnowledgeSet go" where
  "MergeOverlay base ov =
    (if overlay_empty ov then Inr base
     else if ovName ov \<noteq> [] \<and> ovName ov \<noteq> setID base then fails ErrUsageInvalid
     else
       rbind (each_ok (\<lambda>rid. if list_ex (\<lambda>src. srcRepository src = rid) (setSources base) then Inr ()
                            else fails ErrUsageInvalid) (ovRemove ov)) (\<lambda>_.
       rbind (overlay_base (ovRemove ov) (setSources base) ([], [], [])) (\<lambda>(index, fileIndex, kept).
         let frozen = foldl note_frozen [] kept in
         rbind (overlay_mounts frozen [] (ovMounts ov) index kept) (\<lambda>sources1.
         rbind (overlay_files (ovRemove ov) frozen [] (ovFiles ov) fileIndex sources1) (\<lambda>sources.
           if length sources = 0 then fails ErrKnowledgeSetInvalid
           else rbind (validateMountPaths sources) (\<lambda>_.
                rbind (validateSourceCoordinates sources) (\<lambda>_.
                  Inr (base\<lparr>setSources := sources, setItems := []\<rparr>))))))))"

section \<open>Facts about recipes\<close>

lemma recipe_loop_mounts:
  "recipe_loop (map source_of_mount ms @ rest) rec = recipe_loop rest (rec\<lparr>rcMounts := rcMounts rec @ ms\<rparr>)"
proof (induction ms arbitrary: rec)
  case (Cons m ms)
  then show ?case by (cases m) (simp add: source_of_mount_def IsFileEntry_def)
qed simp

lemma recipe_loop_files:
  "\<forall>f \<in> set fs. kfFile f \<noteq> [] \<Longrightarrow>
   recipe_loop (map source_of_file fs) rec = Some (rec\<lparr>rcFiles := rcFiles rec @ fs\<rparr>)"
proof (induction fs arbitrary: rec)
  case (Cons f fs)
  then show ?case by (cases f) (simp add: source_of_file_def IsFileEntry_def)
qed simp

lemma parsed_recipe:
  assumes "ParseKnowledgeSetRecipe decode raw = Inr rec"
  shows "rcMounts rec \<noteq> [] \<or> rcFiles rec \<noteq> []" "\<forall>f \<in> set (rcFiles rec). kfFile f \<noteq> []"
  using assms
  by (auto simp: ParseKnowledgeSetRecipe_def rbind_Inr_iff each_ok_iff check_file_line_def blank_def
      split: option.splits if_splits)

section \<open>The overlay as a keyed update\<close>

text \<open>The slot of a source: the path of a mount, the target of a delivered file.  \<open>upsert\<close> replaces
  the source of a slot in place or appends a new slot; it is what a merge amounts to.\<close>

definition slot :: "KnowledgeSetSource \<Rightarrow> string + string" where
  "slot s = (if IsFileEntry s then Inr (NormalizeMountPath (srcTarget s))
     else Inl (case srcPath s of None \<Rightarrow> [] | Some p \<Rightarrow> NormalizeMountPath p))"

definition upsert :: "KnowledgeSetSource \<Rightarrow> KnowledgeSetSource list \<Rightarrow> KnowledgeSetSource list" where
  "upsert e xs = (if slot e \<in> slot ` set xs then map (\<lambda>s. if slot s = slot e then e else s) xs else xs @ [e])"

definition overlay_entries :: "(string, KnowledgeSetSource) gomap \<Rightarrow> KnowledgeSetOverlay \<Rightarrow> KnowledgeSetSource list" where
  "overlay_entries frozen ov =
     map (\<lambda>m. inherit frozen (source_of_mount m)) (ovMounts ov) @
     map (\<lambda>f. inherit frozen (source_of_file f))
       (filter (\<lambda>f. kfRepository f \<notin> set (ovRemove ov)) (ovFiles ov))"

definition survivors :: "KnowledgeSetOverlay \<Rightarrow> KnowledgeSet \<Rightarrow> KnowledgeSetSource list" where
  "survivors ov base = filter (\<lambda>s. srcRepository s \<notin> set (ovRemove ov)) (setSources base)"

lemma inherit_fields [simp]:
  "srcRepository (inherit fr s) = srcRepository s" "srcSelector (inherit fr s) = srcSelector s"
  "srcPath (inherit fr s) = srcPath s" "srcSubPath (inherit fr s) = srcSubPath s"
  "srcFile (inherit fr s) = srcFile s" "srcTarget (inherit fr s) = srcTarget s"
  by (auto simp: inherit_def split: option.splits)

lemma slot_mount [simp]: "slot (inherit fr (source_of_mount m)) = Inl (NormalizeMountPath (kmPath m))"
  by (simp add: slot_def IsFileEntry_def source_of_mount_def)

lemma slot_file [simp]:
  "kfFile f \<noteq> [] \<Longrightarrow> slot (inherit fr (source_of_file f)) = Inr (NormalizeMountPath (kfTarget f))"
  by (simp add: slot_def IsFileEntry_def source_of_file_def)

lemma map_slot_upsert:
  "map slot (upsert e xs) = (if slot e \<in> slot ` set xs then map slot xs else map slot xs @ [slot e])"
  by (auto simp: upsert_def)

lemma distinct_upsert: "distinct (map slot xs) \<Longrightarrow> distinct (map slot (upsert e xs))"
  by (auto simp: map_slot_upsert)

lemma set_upsert: "set (upsert e xs) = insert e {s \<in> set xs. slot s \<noteq> slot e}"
  by (auto simp: upsert_def image_iff)

lemma upsert_all:
  assumes "distinct (map slot es)" "distinct (map slot xs)"
  shows "set (foldl (\<lambda>xs e. upsert e xs) xs es) = {s \<in> set xs. slot s \<notin> slot ` set es} \<union> set es \<and>
    distinct (map slot (foldl (\<lambda>xs e. upsert e xs) xs es)) \<and>
    prefix (map slot xs) (map slot (foldl (\<lambda>xs e. upsert e xs) xs es))"
  using assms
proof (induction es arbitrary: xs)
  case (Cons e es)
  have d: "distinct (map slot (upsert e xs))" by (rule distinct_upsert [OF Cons.prems(2)])
  have p: "prefix (map slot xs) (map slot (upsert e xs))" by (simp add: map_slot_upsert)
  have i: "set (foldl (\<lambda>xs e. upsert e xs) (upsert e xs) es) =
      {s \<in> set (upsert e xs). slot s \<notin> slot ` set es} \<union> set es"
    using Cons.IH [OF _ d] Cons.prems(1) by simp
  have "slot e \<notin> slot ` set es" using Cons.prems(1) by simp
  then have "set (foldl (\<lambda>xs e. upsert e xs) xs (e # es)) =
      {s \<in> set xs. slot s \<notin> slot ` set (e # es)} \<union> set (e # es)"
    using i by (auto simp: set_upsert)
  then show ?case using Cons.IH [OF _ d] Cons.prems(1) p by (auto intro: prefix_order.trans)
qed simp

text \<open>An index agrees with the sources when it holds the position of every slot of its kind.\<close>

definition indexed :: "(string \<Rightarrow> string + string) \<Rightarrow> (string, nat) gomap \<Rightarrow> KnowledgeSetSource list \<Rightarrow> bool" where
  "indexed kind index xs = (\<forall>k i. map_of index k = Some i \<longleftrightarrow> i < length xs \<and> slot (xs ! i) = kind k)"

lemma indexedD: "indexed kind index xs \<Longrightarrow> map_of index k = Some i \<longleftrightarrow> i < length xs \<and> slot (xs ! i) = kind k"
  by (simp add: indexed_def)

lemma indexed_None: "indexed kind index xs \<Longrightarrow> map_of index k = None \<longleftrightarrow> kind k \<notin> slot ` set xs"
proof -
  assume ix: "indexed kind index xs"
  have "map_of index k = None \<longleftrightarrow> (\<forall>i < length xs. slot (xs ! i) \<noteq> kind k)"
    using indexedD [OF ix, of k] by (cases "map_of index k") auto
  also have "\<dots> \<longleftrightarrow> kind k \<notin> slot ` set xs" by (force simp: in_set_conv_nth)
  finally show "map_of index k = None \<longleftrightarrow> kind k \<notin> slot ` set xs" .
qed

lemma indexed_upsert_other:
  assumes "indexed kind index xs" "\<forall>k. slot e \<noteq> kind k"
  shows "indexed kind index (upsert e xs)"
  unfolding indexed_def
proof (intro allI)
  fix k i
  have "i < length (upsert e xs) \<and> slot (upsert e xs ! i) = kind k \<longleftrightarrow> i < length xs \<and> slot (xs ! i) = kind k"
  proof (cases "slot e \<in> slot ` set xs")
    case True
    then have u: "upsert e xs = map (\<lambda>s. if slot s = slot e then e else s) xs" by (simp add: upsert_def)
    have "slot (upsert e xs ! i) = slot (xs ! i)" if "i < length xs" using that by (simp add: u)
    then show ?thesis by (auto simp: u)
  next
    case False
    then have u: "upsert e xs = xs @ [e]" by (simp add: upsert_def)
    show ?thesis using assms(2) by (auto simp: u nth_append less_Suc_eq)
  qed
  then show "map_of index k = Some i \<longleftrightarrow> i < length (upsert e xs) \<and> slot (upsert e xs ! i) = kind k"
    using indexedD [OF assms(1)] by simp
qed

lemma upsert_nth:
  assumes "distinct (map slot xs)" "i < length xs" "slot (xs ! i) = slot e"
  shows "upsert e xs = xs[i := e]"
proof (rule nth_equalityI)
  have "slot e \<in> slot ` set xs" using assms(2,3) by (metis image_eqI nth_mem)
  then have u: "upsert e xs = map (\<lambda>s. if slot s = slot e then e else s) xs" by (simp add: upsert_def)
  then show "length (upsert e xs) = length (xs[i := e])" by simp
  fix j assume "j < length (upsert e xs)"
  then have j: "j < length xs" by (simp add: u)
  have "slot (xs ! j) = slot e \<longleftrightarrow> j = i"
    using assms j by (metis length_map nth_eq_iff_index_eq nth_map)
  then show "upsert e xs ! j = xs[i := e] ! j" using j by (simp add: u)
qed

lemma put_slot_upsert:
  assumes "indexed kind index xs" "distinct (map slot xs)" "slot e = kind path" "inj kind"
    and "put_slot path e index xs = (index', xs')"
  shows "xs' = upsert e xs" "indexed kind index' xs'"
proof -
  have "xs' = upsert e xs \<and> indexed kind index' xs'"
  proof (cases "map_of index path")
    case None
    then have n: "kind path \<notin> slot ` set xs" using indexed_None [OF assms(1)] by blast
    have s: "xs' = xs @ [e]" "index' = AList.update path (length xs) index"
      using assms(5) None by (auto simp: put_slot_def)
    have "map_of index' k = Some i \<longleftrightarrow> i < length (xs @ [e]) \<and> slot ((xs @ [e]) ! i) = kind k" for k i
    proof (cases "k = path")
      case True
      then show ?thesis using n s(2) assms(3)
        by (auto simp: map_simps nth_append less_Suc_eq) (metis image_eqI nth_mem)
    next
      case False
      then have "kind path \<noteq> kind k" using assms(4) by (metis injD)
      then show ?thesis using indexedD [OF assms(1), of k i] s(2) assms(3) False
        by (auto simp: map_simps nth_append less_Suc_eq)
    qed
    then show ?thesis using s n assms(3) by (auto simp: upsert_def indexed_def)
  next
    case (Some i)
    then have i: "i < length xs" "slot (xs ! i) = slot e" using indexedD [OF assms(1)] assms(3) by auto
    have s: "xs' = xs[i := e]" "index' = index" using assms(5) Some by (auto simp: put_slot_def)
    have "slot (xs[i := e] ! j) = slot (xs ! j)" if "j < length xs" for j
      using i that by (cases "j = i") auto
    then have "indexed kind index (xs[i := e])"
      using assms(1) by (auto simp: indexed_def)
    then show ?thesis using s upsert_nth [OF assms(2) i] by simp
  qed
  then show "xs' = upsert e xs" "indexed kind index' xs'" by auto
qed

lemma overlay_base_ok:
  assumes "overlay_base dropped srcs (index, fileIndex, xs) = Inr (index', fileIndex', xs')"
    and "indexed Inl index xs" "indexed Inr fileIndex xs"
    and "distinct (map slot (xs @ filter (\<lambda>s. srcRepository s \<notin> set dropped) srcs))"
  shows "xs' = xs @ filter (\<lambda>s. srcRepository s \<notin> set dropped) srcs \<and> indexed Inl index' xs' \<and> indexed Inr fileIndex' xs'"
  using assms
proof (induction srcs arbitrary: index fileIndex xs)
  case (Cons s srcs)
  show ?case
  proof (cases "srcRepository s \<in> set dropped")
    case True
    then show ?thesis using Cons by simp
  next
    case False
    have d: "distinct (map slot xs)" "slot s \<notin> slot ` set xs" using Cons.prems(4) False by auto
    then have up: "upsert s xs = xs @ [s]" by (simp add: upsert_def)
    show ?thesis
    proof (cases "IsFileEntry s")
      case True
      let ?k = "NormalizeMountPath (srcTarget s)"
      have k: "slot s = Inr ?k" using True by (simp add: slot_def)
      have "put_slot ?k s fileIndex xs = (AList.update ?k (length xs) fileIndex, xs @ [s])"
        using indexed_None [OF Cons.prems(3), of ?k] d(2) k by (simp add: put_slot_def)
      then have "indexed Inr (AList.update ?k (length xs) fileIndex) (xs @ [s])"
        using put_slot_upsert(2) [OF Cons.prems(3) d(1) k] by (simp add: inj_def)
      moreover have "indexed Inl index (xs @ [s])"
        using indexed_upsert_other [OF Cons.prems(2), of s] k up by simp
      ultimately show ?thesis
        using Cons.IH [of index "AList.update ?k (length xs) fileIndex" "xs @ [s]"] Cons.prems(1,4) False True by auto
    next
      case nf: False
      then obtain p where p: "srcPath s = Some p" using Cons.prems(1) False by (cases "srcPath s") auto
      let ?k = "NormalizeMountPath p"
      have k: "slot s = Inl ?k" using nf p by (simp add: slot_def)
      have "put_slot ?k s index xs = (AList.update ?k (length xs) index, xs @ [s])"
        using indexed_None [OF Cons.prems(2), of ?k] d(2) k by (simp add: put_slot_def)
      then have "indexed Inl (AList.update ?k (length xs) index) (xs @ [s])"
        using put_slot_upsert(2) [OF Cons.prems(2) d(1) k] by (simp add: inj_def)
      moreover have "indexed Inr fileIndex (xs @ [s])"
        using indexed_upsert_other [OF Cons.prems(3), of s] k up by simp
      ultimately show ?thesis
        using Cons.IH [of "AList.update ?k (length xs) index" fileIndex "xs @ [s]"] Cons.prems(1,4) False nf p by auto
    qed
  qed
qed auto

lemma overlay_mounts_ok:
  assumes "overlay_mounts frozen seen ms index xs = Inr ys"
    and "indexed Inl index xs" "indexed Inr fileIndex xs" "distinct (map slot xs)"
  shows "ys = foldl (\<lambda>xs e. upsert e xs) xs (map (\<lambda>m. inherit frozen (source_of_mount m)) ms) \<and>
    indexed Inr fileIndex ys \<and> distinct (map slot ys) \<and>
    distinct (map (\<lambda>m. NormalizeMountPath (kmPath m)) ms) \<and>
    set (map (\<lambda>m. NormalizeMountPath (kmPath m)) ms) \<inter> set seen = {}"
  using assms
proof (induction ms arbitrary: seen index xs)
  case (Cons m ms)
  let ?p = "NormalizeMountPath (kmPath m)" and ?e = "inherit frozen (source_of_mount m)"
  obtain index1 xs1 where put: "put_slot ?p ?e index xs = (index1, xs1)" by fastforce
  have n: "?p \<notin> set seen" "overlay_mounts frozen (?p # seen) ms index1 xs1 = Inr ys"
    using Cons.prems(1) put by (auto simp: Let_def split: if_splits)
  note u = put_slot_upsert [OF Cons.prems(2,4) _ _ put, simplified]
  have x: "xs1 = upsert ?e xs" "indexed Inl index1 xs1" using u by (simp_all add: inj_def)
  have "indexed Inr fileIndex xs1"
    using indexed_upsert_other [OF Cons.prems(3), of ?e] x(1) by simp
  moreover have "distinct (map slot xs1)" using distinct_upsert [OF Cons.prems(4)] x(1) by simp
  ultimately show ?case using Cons.IH [OF n(2) x(2)] n(1) x(1) by auto
qed simp

lemma overlay_files_ok:
  assumes "overlay_files dropped frozen seen fs index xs = Inr ys"
    and "indexed Inr index xs" "distinct (map slot xs)" "\<forall>f \<in> set fs. kfFile f \<noteq> []"
  shows "ys = foldl (\<lambda>xs e. upsert e xs) xs (map (\<lambda>f. inherit frozen (source_of_file f))
      (filter (\<lambda>f. kfRepository f \<notin> set dropped) fs)) \<and>
    distinct (map (\<lambda>f. NormalizeMountPath (kfTarget f)) (filter (\<lambda>f. kfRepository f \<notin> set dropped) fs)) \<and>
    set (map (\<lambda>f. NormalizeMountPath (kfTarget f)) (filter (\<lambda>f. kfRepository f \<notin> set dropped) fs)) \<inter> set seen = {}"
  using assms
proof (induction fs arbitrary: seen index xs)
  case (Cons f fs)
  show ?case
  proof (cases "kfRepository f \<in> set dropped")
    case True
    then show ?thesis using Cons by simp
  next
    case False
    let ?p = "NormalizeMountPath (kfTarget f)" and ?e = "inherit frozen (source_of_file f)"
    obtain index1 xs1 where put: "put_slot ?p ?e index xs = (index1, xs1)" by fastforce
    have n: "?p \<notin> set seen" "overlay_files dropped frozen (?p # seen) fs index1 xs1 = Inr ys"
      using Cons.prems(1) put False by (auto simp: Let_def split: if_splits)
    have "slot ?e = Inr ?p" using Cons.prems(4) by simp
    note u = put_slot_upsert [OF Cons.prems(2,3) this _ put]
    have x: "xs1 = upsert ?e xs" "indexed Inr index1 xs1" using u by (simp_all add: inj_def)
    have "distinct (map slot xs1)" using distinct_upsert [OF Cons.prems(3)] x(1) by simp
    then show ?thesis using Cons.IH [OF n(2) x(2)] Cons.prems(4) n(1) x(1) False by auto
  qed
qed simp

lemma entries_distinct:
  assumes "distinct (map (\<lambda>m. NormalizeMountPath (kmPath m)) (ovMounts ov))"
    and "distinct (map (\<lambda>f. NormalizeMountPath (kfTarget f)) (filter (\<lambda>f. kfRepository f \<notin> set (ovRemove ov)) (ovFiles ov)))"
    and "\<forall>f \<in> set (ovFiles ov). kfFile f \<noteq> []"
  shows "distinct (map slot (overlay_entries frozen ov))"
proof -
  let ?fs = "filter (\<lambda>f. kfRepository f \<notin> set (ovRemove ov)) (ovFiles ov)"
  have m: "map slot (map (\<lambda>m. inherit frozen (source_of_mount m)) (ovMounts ov)) =
      map Inl (map (\<lambda>m. NormalizeMountPath (kmPath m)) (ovMounts ov))" by (simp add: comp_def)
  have f: "map slot (map (\<lambda>f. inherit frozen (source_of_file f)) ?fs) =
      map Inr (map (\<lambda>f. NormalizeMountPath (kfTarget f)) ?fs)" using assms(3) by simp
  have "distinct (map Inl (map (\<lambda>m. NormalizeMountPath (kmPath m)) (ovMounts ov)) @
      map Inr (map (\<lambda>f. NormalizeMountPath (kfTarget f)) ?fs))"
    using assms(1,2) unfolding distinct_append
    by (auto simp: distinct_map intro!: comp_inj_on inj_onI dest: inj_onD)
  then show ?thesis unfolding overlay_entries_def map_append m f .
qed

lemma merge_overlay_ok:
  assumes "MergeOverlay base ov = Inr out" and "\<not> overlay_empty ov"
    and "distinct (map slot (survivors ov base))" and "\<forall>f \<in> set (ovFiles ov). kfFile f \<noteq> []"
  shows "\<exists>frozen. frozen = foldl note_frozen [] (survivors ov base) \<and>
    out = base\<lparr>setSources := foldl (\<lambda>xs e. upsert e xs) (survivors ov base) (overlay_entries frozen ov),
               setItems := []\<rparr> \<and>
    distinct (map slot (overlay_entries frozen ov)) \<and>
    validateMountPaths (setSources out) = Inr () \<and> validateSourceCoordinates (setSources out) = Inr ()"
proof -
  obtain index fileIndex kept where b:
    "overlay_base (ovRemove ov) (setSources base) ([], [], []) = Inr (index, fileIndex, kept)"
    using assms(1,2) by (auto simp: MergeOverlay_def rbind_Inr_iff split: if_splits)
  have k: "kept = survivors ov base" "indexed Inl index kept" "indexed Inr fileIndex kept"
    using overlay_base_ok [OF b] assms(3) by (auto simp: survivors_def indexed_def)
  let ?frozen = "foldl note_frozen [] kept"
  obtain xs where m: "overlay_mounts ?frozen [] (ovMounts ov) index kept = Inr xs"
    using assms(1,2) b by (auto simp: MergeOverlay_def rbind_Inr_iff Let_def split: if_splits)
  obtain ys where f: "overlay_files (ovRemove ov) ?frozen [] (ovFiles ov) fileIndex xs = Inr ys"
    using assms(1,2) b m by (auto simp: MergeOverlay_def rbind_Inr_iff Let_def split: if_splits)
  have out: "out = base\<lparr>setSources := ys, setItems := []\<rparr>" "validateMountPaths ys = Inr ()"
    "validateSourceCoordinates ys = Inr ()"
    using assms(1,2) b m f by (auto simp: MergeOverlay_def rbind_Inr_iff Let_def split: if_splits)
  note ms = overlay_mounts_ok [OF m k(2,3) assms(3) [folded k(1)]]
  then have fs: "ys = foldl (\<lambda>xs e. upsert e xs) xs (map (\<lambda>f. inherit ?frozen (source_of_file f))
      (filter (\<lambda>f. kfRepository f \<notin> set (ovRemove ov)) (ovFiles ov)))"
    "distinct (map (\<lambda>f. NormalizeMountPath (kfTarget f)) (filter (\<lambda>f. kfRepository f \<notin> set (ovRemove ov)) (ovFiles ov)))"
    using overlay_files_ok [OF f _ _ assms(4)] by auto
  have "ys = foldl (\<lambda>xs e. upsert e xs) (survivors ov base) (overlay_entries ?frozen ov)"
    using ms fs(1) k(1) by (simp add: overlay_entries_def)
  moreover have "distinct (map slot (overlay_entries ?frozen ov))"
    using entries_distinct ms fs(2) assms(4) by blast
  ultimately show ?thesis using out k(1) by auto
qed

text \<open>The slots of a definition with an accepted file list are distinct.\<close>

lemma accepted_slots:
  assumes "datasetItemsFromSources sources commits = Inr items"
  shows "distinct (map slot (filter (\<lambda>s. IsFileEntry s \<or> srcPath s \<noteq> None) sources))"
proof -
  have l: "list_all2 (\<lambda>s i. datasetItemFromSource s commits = Inr i) sources items"
    and d: "distinct (map itTarget items)" using datasetItems_ok [OF assms] by auto
  have "itTarget i = (case slot s of Inl p \<Rightarrow> p | Inr p \<Rightarrow> p)"
    if "datasetItemFromSource s commits = Inr i" "IsFileEntry s \<or> srcPath s \<noteq> None" for s i
    using that by (auto simp: datasetItemFromSource_def slot_def Let_def rbind_Inr_iff split: if_splits)
  note target = this
  have "distinct (map slot (filter (\<lambda>s. IsFileEntry s \<or> srcPath s \<noteq> None) sources)) \<and>
      (\<forall>s \<in> set sources. IsFileEntry s \<or> srcPath s \<noteq> None \<longrightarrow> (case slot s of Inl p \<Rightarrow> p | Inr p \<Rightarrow> p) \<in> itTarget ` set items)"
    using l d
  proof (induction rule: list_all2_induct)
    case (Cons s ss i items)
    then have IH: "distinct (map slot (filter (\<lambda>s. IsFileEntry s \<or> srcPath s \<noteq> None) ss))"
      "\<forall>s \<in> set ss. IsFileEntry s \<or> srcPath s \<noteq> None \<longrightarrow> (case slot s of Inl p \<Rightarrow> p | Inr p \<Rightarrow> p) \<in> itTarget ` set items"
      by auto
    show ?case
    proof (cases "IsFileEntry s \<or> srcPath s \<noteq> None")
      case True
      then have "(case slot s of Inl p \<Rightarrow> p | Inr p \<Rightarrow> p) = itTarget i" using target Cons.hyps(1) by simp
      moreover have "itTarget i \<notin> itTarget ` set items" using Cons.prems by simp
      ultimately have "\<forall>t \<in> set ss. IsFileEntry t \<or> srcPath t \<noteq> None \<longrightarrow> slot t \<noteq> slot s"
        using IH(2) by metis
      then show ?thesis using True IH \<open>(case slot s of Inl p \<Rightarrow> p | Inr p \<Rightarrow> p) = itTarget i\<close> by force
    next
      case False
      then show ?thesis using IH by auto
    qed
  qed simp
  then show ?thesis by simp
qed

lemma overlay_base_paths:
  "overlay_base dropped srcs t = Inr t' \<Longrightarrow> s \<in> set srcs \<Longrightarrow> srcRepository s \<notin> set dropped \<Longrightarrow>
   IsFileEntry s \<or> srcPath s \<noteq> None"
  by (induction dropped srcs t rule: overlay_base.induct) (auto split: option.splits if_splits)

lemma merge_survivors:
  assumes "MergeOverlay base ov = Inr out" and "\<not> overlay_empty ov"
    and "datasetItemsFromSources (setSources base) commits = Inr items"
  shows "distinct (map slot (survivors ov base))"
proof -
  let ?P = "\<lambda>s. IsFileEntry s \<or> srcPath s \<noteq> None"
  obtain t where t: "overlay_base (ovRemove ov) (setSources base) ([], [], []) = Inr t"
    using assms(1,2) by (auto simp: MergeOverlay_def rbind_Inr_iff split: if_splits)
  have "survivors ov base = filter (\<lambda>s. srcRepository s \<notin> set (ovRemove ov)) (filter ?P (setSources base))"
    unfolding survivors_def filter_filter
    by (rule filter_cong [OF refl]) (use overlay_base_paths [OF t] in blast)
  then show ?thesis using distinct_map_filter [OF accepted_slots [OF assms(3)]] by (simp only:)
qed

lemma parsed_overlay_files:
  "ParseKnowledgeSetOverlay decode raw = Inr ov \<Longrightarrow> \<forall>f \<in> set (ovFiles ov). kfFile f \<noteq> []"
  by (auto simp: ParseKnowledgeSetOverlay_def rbind_Inr_iff each_ok_iff check_file_line_def blank_def
      split: option.splits if_splits)

section \<open>Properties\<close>


text \<open>An overlay for the witness: it moves the mounted subtree, and names no commit.\<close>

definition demo_overlay :: KnowledgeSetOverlay where
  "demo_overlay = \<lparr>ovName = ''docs'', ovRemove = [], ovMounts = [\<lparr>kmRepository = ''kr://a/b'',
     kmSelector = ''HEAD'', kmPath = ''lib/'', kmSubPath = ''docs/ref'', kmBaseRev = []\<rparr>], ovFiles = []\<rparr>"

definition demo_moved :: KnowledgeSetSource where
  "demo_moved = demo_mount\<lparr>srcPath := Some ''lib/'', srcSubPath := ''docs/ref'', srcCommit := ''cx''\<rparr>"


text \<open>A recipe survives a round trip: turning a parsed recipe into the sources of a dataset and
  deriving the portable recipe from that dataset gives back the recipe.\<close>

theorem recipe_round_trip:
  assumes "ParseKnowledgeSetRecipe decode raw = Inr rec"
  shows "RecipeFromKnowledgeSet (def\<lparr>setID := rcName rec, setSources := Recipe_Sources rec\<rparr>) = Some rec"
proof -
  note p = parsed_recipe [OF assms]
  have "recipe_loop (Recipe_Sources rec) \<lparr>rcName = rcName rec, rcMounts = [], rcFiles = []\<rparr> = Some rec"
    using recipe_loop_files [OF p(2)] by (simp add: Recipe_Sources_def recipe_loop_mounts)
  then show ?thesis using p(1) by (auto simp: RecipeFromKnowledgeSet_def Recipe_Sources_def)
qed

definition demo_recipe :: KnowledgeSetRecipe where
  "demo_recipe = \<lparr>rcName = ''docs'', rcMounts = ovMounts demo_overlay, rcFiles = [\<lparr>kfRepository = ''kr://a/b'',
     kfSelector = ''HEAD'', kfFile = ''docs/a.md'', kfTarget = ''lib/a.md'', kfBaseRev = []\<rparr>]\<rparr>"

theorem recipe_round_trip_witness:
  "RecipeFromKnowledgeSet (demo_set\<lparr>setID := rcName demo_recipe, setSources := Recipe_Sources demo_recipe\<rparr>)
     = Some demo_recipe"
proof -
  have "ParseKnowledgeSetRecipe (\<lambda>_. Some demo_recipe) ''y'' = Inr demo_recipe" by code_simp
  then show ?thesis by (rule recipe_round_trip)
qed

text \<open>Removal of a repository does not reach the mounts of the same overlay: a mount of a removed
  repository is added, while a file of it would be skipped.\<close>

lemma removed_repository_comes_back:
  "\<exists>out. MergeOverlay demo_set (demo_overlay\<lparr>ovRemove := [''kr://a/b'']\<rparr>) = Inr out \<and>
     map srcRepository (setSources out) = [''kr://a/b'']"
proof -
  have "(case MergeOverlay demo_set (demo_overlay\<lparr>ovRemove := [''kr://a/b'']\<rparr>) of
      Inl _ \<Rightarrow> False | Inr out \<Rightarrow> map srcRepository (setSources out) = [''kr://a/b''])" by code_simp
  then show ?thesis by (auto split: sum.splits)
qed

end
