(* ===== verification/Go_Glob.thy ===== *)
theory Go_Glob
  imports Go_Strings
begin

text \<open>
  \<open>path.Match\<close> of the Go standard library on byte strings: \<open>*\<close>, \<open>?\<close>, character classes, escapes and
  the check that the rest of a pattern is well formed.  None is \<open>ErrBadPattern\<close>.
\<close>

section \<open>Runes\<close>

definition byte_val :: "char \<Rightarrow> nat" where "byte_val c = of_char c"

definition in_range :: "nat \<Rightarrow> nat \<Rightarrow> char \<Rightarrow> bool" where
  "in_range lo hi c = (lo \<le> byte_val c \<and> byte_val c \<le> hi)"

definition RuneError :: nat where "RuneError = 0xFFFD"

text \<open>The size of the encoding that a first byte announces, and the range of its second byte.\<close>

definition rune_class :: "nat \<Rightarrow> (nat \<times> nat \<times> nat) option" where
  "rune_class b =
    (if 0xC2 \<le> b \<and> b \<le> 0xDF then Some (2, 0x80, 0xBF)
     else if b = 0xE0 then Some (3, 0xA0, 0xBF)
     else if b = 0xED then Some (3, 0x80, 0x9F)
     else if 0xE1 \<le> b \<and> b \<le> 0xEF then Some (3, 0x80, 0xBF)
     else if b = 0xF0 then Some (4, 0x90, 0xBF)
     else if 0xF1 \<le> b \<and> b \<le> 0xF3 then Some (4, 0x80, 0xBF)
     else if b = 0xF4 then Some (4, 0x80, 0x8F)
     else None)"

definition DecodeRune :: "string \<Rightarrow> nat \<times> nat" where
  "DecodeRune s =
    (case s of
      [] \<Rightarrow> (RuneError, 0)
    | c # rest \<Rightarrow>
        (let b = byte_val c in
         if b < 0x80 then (b, 1)
         else (case rune_class b of
           None \<Rightarrow> (RuneError, 1)
         | Some (n, lo, hi) \<Rightarrow>
             if length s < n \<or> \<not> in_range lo hi (s ! 1) \<or>
                \<not> list_all (in_range 0x80 0xBF) (take (n - 2) (drop 2 s)) then (RuneError, 1)
             else (foldl (\<lambda>r d. r * 64 + (byte_val d - 0x80))
                     (b mod (if n = 2 then 32 else if n = 3 then 16 else 8)) (take (n - 1) rest), n))))"

lemma DecodeRune_size: "s \<noteq> [] \<Longrightarrow> 0 < snd (DecodeRune s)"
  by (cases s) (auto simp: DecodeRune_def rune_class_def Let_def)

section \<open>Chunks\<close>

fun scan_literal :: "bool \<Rightarrow> string \<Rightarrow> string \<times> string" where
  "scan_literal inrange [] = ([], [])"
| "scan_literal inrange (c # rest) =
    (if c = CHR 0x5C
     then (case rest of
       [] \<Rightarrow> ([c], [])
     | d # rest' \<Rightarrow> (case scan_literal inrange rest' of (chunk, more) \<Rightarrow> (c # d # chunk, more)))
     else if c = CHR ''*'' \<and> \<not> inrange then ([], c # rest)
     else (case scan_literal (if c = CHR ''['' then True else if c = CHR '']'' then False else inrange) rest of
       (chunk, more) \<Rightarrow> (c # chunk, more)))"

definition scanChunk :: "string \<Rightarrow> bool \<times> string \<times> string" where
  "scanChunk pattern =
    (case scan_literal False (dropWhile (\<lambda>c. c = CHR ''*'') pattern) of
      (chunk, rest) \<Rightarrow> (HasPrefix pattern ''*'', chunk, rest))"

definition getEsc :: "string \<Rightarrow> (nat \<times> string) option" where
  "getEsc chunk0 =
    (if chunk0 = [] \<or> hd chunk0 = CHR ''-'' \<or> hd chunk0 = CHR '']'' then None
     else (let chunk = (if hd chunk0 = CHR 0x5C then tl chunk0 else chunk0) in
       if chunk = [] then None
       else (case DecodeRune chunk of (r, n) \<Rightarrow>
         if r = RuneError \<and> n = 1 then None
         else if drop n chunk = [] then None
         else Some (r, drop n chunk))))"

lemma getEsc_shrinks: "getEsc chunk = Some (r, rest) \<Longrightarrow> rest \<noteq> [] \<and> length rest < length chunk"
proof -
  assume g: "getEsc chunk = Some (r, rest)"
  let ?c = "if hd chunk = CHR 0x5C then tl chunk else chunk"
  obtain q n where d: "DecodeRune ?c = (q, n)" by fastforce
  have c: "chunk \<noteq> []" "?c \<noteq> []" "rest = drop n ?c" "rest \<noteq> []"
    using g d by (auto simp: getEsc_def Let_def split: if_splits)
  have "0 < n" using DecodeRune_size [OF c(2)] d by simp
  then have "length rest < length ?c" using c(2,3) by (cases ?c) (auto split: if_splits)
  moreover have "length ?c \<le> length chunk" by simp
  ultimately show ?thesis using c(4) by (auto split: if_splits)
qed

text \<open>The body of a character class after \<open>[\<close> and a possible \<open>^\<close>.\<close>

function class_loop :: "nat \<Rightarrow> string \<Rightarrow> bool \<Rightarrow> bool \<Rightarrow> (bool \<times> string) option" where
  "class_loop r chunk hit some_range =
    (if chunk \<noteq> [] \<and> hd chunk = CHR '']'' \<and> some_range then Some (hit, tl chunk)
     else (case getEsc chunk of
       None \<Rightarrow> None
     | Some (lo, chunk1) \<Rightarrow>
         if hd chunk1 = CHR ''-''
         then (case getEsc (tl chunk1) of
           None \<Rightarrow> None
         | Some (hi, chunk2) \<Rightarrow> class_loop r chunk2 (hit \<or> lo \<le> r \<and> r \<le> hi) True)
         else class_loop r chunk1 (hit \<or> lo \<le> r \<and> r \<le> lo) True))"
  by pat_completeness auto

termination
proof (relation "measure (\<lambda>(r, chunk, hit, some_range). length chunk)", goal_cases)
  case (2 r chunk hit some_range x lo chunk1 y hi chunk2)
  then show ?case by (auto dest!: getEsc_shrinks)
next
  case (3 r chunk hit some_range x lo chunk1)
  then show ?case by (auto dest!: getEsc_shrinks)
qed simp

declare class_loop.simps [simp del]

lemma class_loop_shrinks: "class_loop r chunk hit some_range = Some (m, rest) \<Longrightarrow> length rest < length chunk"
proof (induction r chunk hit some_range rule: class_loop.induct)
  case (1 r chunk hit some_range)
  show ?case
  proof (cases "chunk \<noteq> [] \<and> hd chunk = CHR '']'' \<and> some_range")
    case True
    then show ?thesis using 1(3) by (subst (asm) class_loop.simps) auto
  next
    case False
    then obtain lo chunk1 where g: "getEsc chunk = Some (lo, chunk1)"
      using 1(3) by (subst (asm) class_loop.simps) (auto split: option.splits)
    note s1 = getEsc_shrinks [OF g]
    show ?thesis
    proof (cases "hd chunk1 = CHR ''-''")
      case True
      then obtain hi chunk2 where g2: "getEsc (tl chunk1) = Some (hi, chunk2)"
        and rec: "class_loop r chunk2 (hit \<or> lo \<le> r \<and> r \<le> hi) True = Some (m, rest)"
        using 1(3) False g by (subst (asm) class_loop.simps) (auto split: option.splits)
      then have "length rest < length chunk2" using 1(1) False g True by blast
      moreover have "length chunk2 < length (tl chunk1)" using getEsc_shrinks [OF g2] by simp
      ultimately show ?thesis using s1 by (simp only: length_tl) linarith
    next
      case no: False
      then have "class_loop r chunk1 (hit \<or> lo \<le> r \<and> r \<le> lo) True = Some (m, rest)"
        using 1(3) False g by (subst (asm) class_loop.simps) auto
      then have "length rest < length chunk1" using 1(2) False g no by blast
      then show ?thesis using s1 by simp
    qed
  qed
qed

lemma tl_less: "xs \<noteq> [] \<Longrightarrow> length xs - Suc 0 < length xs"
  by (cases xs) auto

lemma tl_tl_less: "xs \<noteq> [] \<Longrightarrow> length xs - Suc (Suc 0) < length xs"
  by (cases xs) auto

text \<open>None: bad pattern; \<open>Some None\<close>: no match; \<open>Some (Some rest)\<close>: matched a prefix.  \<open>s\<close> is None
  once the match has failed.\<close>

function matchChunk :: "string \<Rightarrow> string option \<Rightarrow> string option option" where
  "matchChunk chunk s0 =
    (if chunk = [] then Some s0
     else (let s = (if s0 = Some [] then None else s0); c = hd chunk; rest = tl chunk in
       if c = CHR ''[''
       then (let r = (case s of None \<Rightarrow> 0 | Some str \<Rightarrow> fst (DecodeRune str));
                 s1 = map_option (\<lambda>str. drop (snd (DecodeRune str)) str) s;
                 negated = HasPrefix rest ''^'';
                 body = (if negated then tl rest else rest) in
         case class_loop r body False False of
           None \<Rightarrow> None
         | Some (hit, rest2) \<Rightarrow> matchChunk rest2 (if hit = negated then None else s1))
       else if c = CHR ''?''
       then matchChunk rest (case s of None \<Rightarrow> None | Some str \<Rightarrow>
         if hd str = CHR ''/'' then None else Some (drop (snd (DecodeRune str)) str))
       else if c = CHR 0x5C
       then (if rest = [] then None
         else matchChunk (tl rest) (case s of None \<Rightarrow> None | Some str \<Rightarrow>
           if hd rest \<noteq> hd str then None else Some (tl str)))
       else matchChunk rest (case s of None \<Rightarrow> None | Some str \<Rightarrow>
         if c \<noteq> hd str then None else Some (tl str))))"
  by pat_completeness auto

termination
proof (relation "measure (\<lambda>(chunk, s). length chunk)", goal_cases)
  case (2 chunk s0 s c rest r s1 negated body x hit rest2)
  then have "length rest2 < length body" using class_loop_shrinks by blast
  moreover have "length body \<le> length rest" using 2(9) by simp
  moreover have "length rest < length chunk" using 2(1,4) by (cases chunk) auto
  ultimately show ?case by simp
qed (auto intro: tl_less tl_tl_less)

declare matchChunk.simps [simp del]

section \<open>Match\<close>

fun star_search :: "string \<Rightarrow> bool \<Rightarrow> string \<Rightarrow> string option option" where
  "star_search chunk last_chunk [] = Some None"
| "star_search chunk last_chunk (c # name) =
    (if c = CHR ''/'' then Some None
     else (case matchChunk chunk (Some name) of
       None \<Rightarrow> None
     | Some None \<Rightarrow> star_search chunk last_chunk name
     | Some (Some t) \<Rightarrow> if last_chunk \<and> t \<noteq> [] then star_search chunk last_chunk name else Some (Some t)))"

lemma scan_literal_length: "length (snd (scan_literal b p)) \<le> length p"
proof (induction b p rule: scan_literal.induct)
  case (2 b c rest)
  show ?case
  proof (cases "c = CHR 0x5C")
    case True
    then show ?thesis using 2(1) [OF True] by (cases rest) (auto simp: split_beta le_Suc_eq)
  next
    case False
    then show ?thesis using 2(2) [OF False] by (simp add: split_beta le_SucI)
  qed
qed simp

lemma scan_literal_progress:
  "p \<noteq> [] \<Longrightarrow> hd p \<noteq> CHR ''*'' \<Longrightarrow> length (snd (scan_literal False p)) < length p"
proof -
  assume p: "p \<noteq> []" "hd p \<noteq> CHR ''*''"
  obtain c rest where c: "p = c # rest" using p(1) by (cases p) auto
  show ?thesis
  proof (cases "c = CHR 0x5C")
    case True
    then show ?thesis unfolding c
      using scan_literal_length [of False "tl rest"] by (cases rest) (auto simp: split_beta)
  next
    case False
    then show ?thesis unfolding c
      using p(2) c scan_literal_length [of _ rest] by (simp add: split_beta le_imp_less_Suc)
  qed
qed

lemma scanChunk_progress: "pattern \<noteq> [] \<Longrightarrow> length (snd (snd (scanChunk pattern))) < length pattern"
proof -
  assume p: "pattern \<noteq> []"
  let ?q = "dropWhile (\<lambda>c. c = CHR ''*'') pattern"
  have l: "length ?q \<le> length pattern" by (rule length_dropWhile_le)
  have "length (snd (scan_literal False ?q)) < length pattern"
  proof (cases "?q = []")
    case False
    then have "hd ?q \<noteq> CHR ''*''" using hd_dropWhile [OF False] by blast
    then show ?thesis using scan_literal_progress [OF False] l by simp
  next
    case True
    then have "snd (scan_literal False ?q) = []" by (simp only: True) simp
    then show ?thesis using p by simp
  qed
  then show ?thesis by (simp add: scanChunk_def split_beta)
qed

lemma scanChunk_rest: "(star, chunk, rest) = scanChunk pattern \<Longrightarrow> pattern \<noteq> [] \<Longrightarrow> length rest < length pattern"
  using scanChunk_progress [of pattern] by (metis snd_conv)

text \<open>The syntax check of the rest of a pattern that does not match.\<close>

function check_rest :: "string \<Rightarrow> bool option" where
  "check_rest pattern =
    (if pattern = [] then Some False
     else (case scanChunk pattern of (star, chunk, rest) \<Rightarrow>
       (case matchChunk chunk (Some []) of None \<Rightarrow> None | Some _ \<Rightarrow> check_rest rest)))"
  by pat_completeness auto

termination
  by (relation "measure length") (auto dest: scanChunk_rest)

function path_Match :: "string \<Rightarrow> string \<Rightarrow> bool option" where
  "path_Match pattern name =
    (if pattern = [] then Some (name = [])
     else (case scanChunk pattern of (star, chunk, rest) \<Rightarrow>
       if star \<and> chunk = [] then Some (CHR ''/'' \<notin> set name)
       else (case matchChunk chunk (Some name) of
         None \<Rightarrow> None
       | Some m \<Rightarrow>
           (case m of
             Some t \<Rightarrow>
               if t = [] \<or> rest \<noteq> [] then path_Match rest t
               else if star
               then (case star_search chunk (rest = []) name of
                 None \<Rightarrow> None
               | Some None \<Rightarrow> check_rest rest
               | Some (Some t') \<Rightarrow> path_Match rest t')
               else check_rest rest
           | None \<Rightarrow>
               if star
               then (case star_search chunk (rest = []) name of
                 None \<Rightarrow> None
               | Some None \<Rightarrow> check_rest rest
               | Some (Some t') \<Rightarrow> path_Match rest t')
               else check_rest rest))))"
  by pat_completeness auto

termination
  by (relation "measure (\<lambda>(pattern, name). length pattern)") (auto dest: scanChunk_rest)

declare check_rest.simps [simp del] path_Match.simps [simp del]

section \<open>Facts\<close>

definition glob_special :: "char set" where
  "glob_special = {CHR ''*'', CHR ''?'', CHR ''['', CHR 0x5C}"

lemma scan_literal_plain:
  "set p \<inter> glob_special = {} \<Longrightarrow> scan_literal False (p @ q) =
     (case scan_literal False q of (chunk, rest) \<Rightarrow> (p @ chunk, rest))"
  by (induction p) (auto simp: glob_special_def split: prod.splits)

lemma matchChunk_Nil: "matchChunk [] s = Some s"
  by (subst matchChunk.simps) simp

lemma matchChunk_char:
  assumes "c \<notin> glob_special"
  shows "matchChunk (c # p) s = matchChunk p (case (if s = Some [] then None else s) of None \<Rightarrow> None
    | Some str \<Rightarrow> if c \<noteq> hd str then None else Some (tl str))"
proof -
  have "c \<noteq> CHR ''[''" "c \<noteq> CHR ''?''" "c \<noteq> CHR 0x5C" using assms by (auto simp: glob_special_def)
  then show ?thesis by (subst matchChunk.simps) (simp only: Let_def list.sel if_False list.simps not_False_eq_True)
qed

lemma matchChunk_failed: "set p \<inter> glob_special = {} \<Longrightarrow> matchChunk p None = Some None"
  by (induction p) (simp_all add: matchChunk_Nil matchChunk_char)

lemma matchChunk_plain:
  "set p \<inter> glob_special = {} \<Longrightarrow>
   matchChunk p (Some s) = Some (if prefix p s then Some (drop (length p) s) else None)"
proof (induction p arbitrary: s)
  case (Cons c p)
  then show ?case by (cases s) (simp_all add: matchChunk_char matchChunk_failed)
qed (simp add: matchChunk_Nil)

text \<open>A pattern without special characters matches itself only.\<close>

lemma path_Match_plain:
  assumes "set p \<inter> glob_special = {}"
  shows "path_Match p name = Some (name = p)"
proof (cases "p = []")
  case True
  then show ?thesis by (subst path_Match.simps) simp
next
  case False
  then have "hd p \<noteq> CHR ''*''" using assms by (cases p) (auto simp: glob_special_def)
  then have "dropWhile (\<lambda>c. c = CHR ''*'') p = p" "\<not> prefix ''*'' p"
    using False by (cases p; simp)+
  then have s: "scanChunk p = (False, p, [])"
    using scan_literal_plain [OF assms, of "[]"] by (simp add: scanChunk_def)
  show ?thesis
    using False assms
    by (subst path_Match.simps) (auto simp: s matchChunk_plain path_Match.simps [of "[]"] check_rest.simps [of "[]"]
        prefix_def)
qed

text \<open>A trailing star matches every continuation without a slash.\<close>

lemma path_Match_star:
  assumes "set p \<inter> glob_special = {}" "p \<noteq> []"
  shows "path_Match (p @ ''*'') name = Some (\<exists>r. name = p @ r \<and> CHR ''/'' \<notin> set r)"
proof -
  have "hd p \<noteq> CHR ''*''" using assms by (cases p) (auto simp: glob_special_def)
  then have "dropWhile (\<lambda>c. c = CHR ''*'') (p @ ''*'') = p @ ''*''" "\<not> prefix ''*'' (p @ ''*'')"
    using assms(2) by (cases p; simp)+
  then have s: "scanChunk (p @ ''*'') = (False, p, ''*'')"
    using scan_literal_plain [OF assms(1), of "''*''"] by (simp add: scanChunk_def)
  have star: "scanChunk ''*'' = (True, [], [])" by (simp add: scanChunk_def)
  have m: "path_Match ''*'' t = Some (CHR ''/'' \<notin> set t)" for t
    by (subst path_Match.simps) (simp add: star)
  have c: "check_rest ''*'' = Some False"
    by (subst check_rest.simps) (simp add: star matchChunk_Nil check_rest.simps [of "[]"])
  show ?thesis
    using assms
    by (subst path_Match.simps) (auto simp: s matchChunk_plain m c prefix_def)
qed

end
