(* ===== verification/Access.thy ===== *)
theory Access
  imports Kernel Go_Glob
begin

text \<open>
  Explicit grants (\<open>src/snapshot/access\<close>): rules, matching, management of the rule list and the service
  over a durable rule store, whose contract is the locale \<open>rule_store\<close>.
\<close>

section \<open>Rules\<close>

record AllowRule =
  alID :: string
  alPrincipal :: string
  alActions :: "string list"
  alCmds :: "string list"
  alRepo :: string
  alCatalog :: string
  alRef :: string
  alObject :: string
  alAspect :: string
  alDataset :: string
  alShareID :: string
  alSharedBy :: string

record AllowQuery =
  aqPrincipal :: string
  aqAction :: string
  aqRepo :: string
  aqCatalog :: string
  aqRef :: string
  aqObject :: string
  aqAspect :: string
  aqDataset :: string

definition no_rule :: AllowRule where
  "no_rule = \<lparr>alID = [], alPrincipal = [], alActions = [], alCmds = [], alRepo = [], alCatalog = [],
     alRef = [], alObject = [], alAspect = [], alDataset = [], alShareID = [], alSharedBy = []\<rparr>"

definition NormalizeActions :: "string list \<Rightarrow> string list" where
  "NormalizeActions actions =
    (let out = dedup (map (\<lambda>a. if a = ''dataset.consume'' then ''file.read'' else a) actions) in
     if length out = 0 then actions else out)"

text \<open>\<open>kset\<close> tells whether the JSON object has the retired field.\<close>

definition Rule_UnmarshalJSON :: "bool \<Rightarrow> AllowRule \<Rightarrow> AllowRule go" where
  "Rule_UnmarshalJSON kset parsed =
    (if kset then Inl Bare
     else if list_ex (\<lambda>a. HasPrefix a ''kset.'') (alActions parsed) then Inl Bare
     else Inr (parsed\<lparr>alActions := NormalizeActions (alActions parsed)\<rparr>))"

definition ValidateActions :: "string list \<Rightarrow> unit go" where
  "ValidateActions actions =
    (if length actions = 0 then Inl Bare
     else each_ok (\<lambda>a.
       if CHR ''.'' \<notin> set a \<or> list_ex (\<lambda>c. c \<in> set '' /?#'') a then Inl Bare
       else if HasPrefix a ''kset.'' \<or> a = ''dataset.consume'' then Inl Bare
       else Inr ()) actions)"

definition ActionMatches :: "string \<Rightarrow> string \<Rightarrow> bool" where
  "ActionMatches granted requested =
    (granted = ''*'' \<or> granted = requested \<or>
     (HasSuffix granted ''.*'' \<and> HasPrefix requested (TrimSuffix granted ''*'')))"

definition actionAllowed :: "string list \<Rightarrow> string \<Rightarrow> bool" where
  "actionAllowed actions requested = list_ex (\<lambda>a. ActionMatches a requested) actions"

definition coordinates_match :: "(string \<times> string) list \<Rightarrow> bool" where
  "coordinates_match cs = list_all (\<lambda>(a, b). a = [] \<or> a = b) cs"

definition scopeMatches :: "AllowRule \<Rightarrow> AllowQuery \<Rightarrow> bool" where
  "scopeMatches rule q = coordinates_match [(alRepo rule, aqRepo q), (alCatalog rule, aqCatalog q),
     (alRef rule, aqRef q), (alAspect rule, aqAspect q), (alDataset rule, aqDataset q)]"

fun Access_Match :: "AllowRule list \<Rightarrow> AllowQuery \<Rightarrow> AllowRule option" where
  "Access_Match [] q = None"
| "Access_Match (rule # rules) q =
    (if alPrincipal rule \<noteq> aqPrincipal q \<or> \<not> actionAllowed (alActions rule) (aqAction q)
     then Access_Match rules q
     else if \<not> scopeMatches rule q then Access_Match rules q
     else if alObject rule \<noteq> [] \<and> path_Match (alObject rule) (aqObject q) \<noteq> Some True
     then Access_Match rules q
     else Some rule)"

section \<open>Managing rules\<close>

fun AuthorizeManagement :: "AllowRule list \<Rightarrow> string \<Rightarrow> string \<Rightarrow> AllowRule \<Rightarrow> unit go" where
  "AuthorizeManagement [] who action target = fails ErrForbidden"
| "AuthorizeManagement (rule # rules) who action target =
    (if alPrincipal rule \<noteq> who \<or> alRef rule \<noteq> [] \<or> alObject rule \<noteq> [] \<or> alAspect rule \<noteq> []
     then AuthorizeManagement rules who action target
     else if \<not> scopeMatches rule \<lparr>aqPrincipal = [], aqAction = [], aqRepo = alRepo target,
            aqCatalog = alCatalog target, aqRef = [], aqObject = [], aqAspect = [],
            aqDataset = alDataset target\<rparr>
     then AuthorizeManagement rules who action target
     else if actionAllowed (alActions rule) action then Inr ()
     else AuthorizeManagement rules who action target)"

definition matchesFilter :: "AllowRule \<Rightarrow> AllowQuery \<Rightarrow> bool" where
  "matchesFilter rule f =
    (if \<not> coordinates_match [(aqPrincipal f, alPrincipal rule), (aqRepo f, alRepo rule),
          (aqCatalog f, alCatalog rule), (aqDataset f, alDataset rule), (aqRef f, alRef rule),
          (aqObject f, alObject rule), (aqAspect f, alAspect rule)] then False
     else aqAction f = [] \<or> actionAllowed (alActions rule) (aqAction f))"

definition Inventory :: "AllowRule list \<Rightarrow> AllowQuery \<Rightarrow> AllowRule list" where
  "Inventory rules f = map (\<lambda>rule. rule\<lparr>alCmds := []\<rparr>) (filter (\<lambda>rule. matchesFilter rule f) rules)"

definition ruleByID :: "AllowRule list \<Rightarrow> string \<Rightarrow> AllowRule \<times> nat" where
  "ruleByID rules rid =
    foldl (\<lambda>(found, n) rule. if alID rule = rid then (rule, n + 1) else (found, n))
      (no_rule, 0) rules"

definition RevokeTarget :: "AllowRule list \<Rightarrow> string \<Rightarrow> AllowRule" where
  "RevokeTarget rules rid =
    (case ruleByID rules rid of (rule, n) \<Rightarrow> if n = 1 then rule else no_rule)"

text \<open>The draws are the random values in hexadecimal, in order; when they run out, reading fails.\<close>

fun newRuleID :: "string list \<Rightarrow> AllowRule list \<Rightarrow> string go" where
  "newRuleID [] rules = Inl Bare"
| "newRuleID (hex # draws) rules =
    (let rid = ''alw_'' @ hex in
     if snd (ruleByID rules rid) = 0 then Inr rid else newRuleID draws rules)"

definition AddRule :: "string list \<Rightarrow> AllowRule list \<Rightarrow> AllowRule \<Rightarrow> (AllowRule list \<times> AllowRule) go" where
  "AddRule draws rules requested =
    (if alPrincipal requested = [] then Inl Bare
     else rbind (ValidateActions (alActions requested)) (\<lambda>_.
       if (alRepo requested = []) = (alCatalog requested = []) then Inl Bare
       else rbind (newRuleID draws rules) (\<lambda>rid.
         let rule = no_rule\<lparr>alID := rid, alPrincipal := alPrincipal requested,
               alActions := alActions requested, alRepo := alRepo requested,
               alCatalog := alCatalog requested, alRef := alRef requested,
               alObject := alObject requested, alAspect := alAspect requested,
               alDataset := alDataset requested\<rparr> in
         Inr (rules @ [rule], rule))))"

definition RemoveRule :: "AllowRule list \<Rightarrow> string \<Rightarrow> AllowRule list go" where
  "RemoveRule rules rid =
    (if rid = [] then Inl Bare
     else (let total = snd (ruleByID rules rid) in
       if total = 0 then fails ErrUsageInvalid
       else if total \<noteq> 1 then fails ErrPreconditionFailed
       else Inr (filter (\<lambda>rule. alID rule \<noteq> rid) rules)))"

section \<open>The service\<close>

text \<open>\<open>rsUpdate\<close> runs the callback on the rules it read and persists the rules that the callback
  returns; the second component of its result is the variable that the callback captured.\<close>

record 's rule_store_ops =
  rsRead :: "'s \<Rightarrow> AllowRule list go"
  rsUpdate :: "(AllowRule list \<Rightarrow> (AllowRule list \<times> AllowRule) go) \<Rightarrow> 's \<Rightarrow> AllowRule go \<times> 's"

definition Service_ready :: "'s rule_store_ops option \<Rightarrow> string \<Rightarrow> unit go" where
  "Service_ready store who =
    (if who = [] then fails ErrUnauthenticated
     else if store = None then fails ErrPreconditionFailed else Inr ())"

definition Service_List :: "'s rule_store_ops option \<Rightarrow> string \<Rightarrow> AllowQuery \<Rightarrow> 's \<Rightarrow> AllowRule list go" where
  "Service_List store who f s =
    rbind (Service_ready store who) (\<lambda>_.
    rbind (rsRead (the store) s) (\<lambda>rules.
    rbind (AuthorizeManagement rules who ''admin.grants.read''
        (no_rule\<lparr>alRepo := aqRepo f, alCatalog := aqCatalog f, alDataset := aqDataset f, alRef := aqRef f,
           alObject := aqObject f, alAspect := aqAspect f\<rparr>)) (\<lambda>_.
      Inr (Inventory rules f))))"

definition Service_Add :: "string list \<Rightarrow> 's rule_store_ops option \<Rightarrow> string \<Rightarrow> AllowRule \<Rightarrow> 's \<Rightarrow>
    AllowRule go \<times> 's" where
  "Service_Add draws store who requested s =
    (case Service_ready store who of
      Inl e \<Rightarrow> (Inl e, s)
    | Inr _ \<Rightarrow> rsUpdate (the store) (\<lambda>rules.
        rbind (AuthorizeManagement rules who ''admin.grants.manage'' requested) (\<lambda>_.
          AddRule draws rules requested)) s)"

definition Service_Revoke :: "'s rule_store_ops option \<Rightarrow> string \<Rightarrow> string \<Rightarrow> 's \<Rightarrow> unit go \<times> 's" where
  "Service_Revoke store who rid s =
    (case Service_ready store who of
      Inl e \<Rightarrow> (Inl e, s)
    | Inr _ \<Rightarrow>
        (case rsUpdate (the store) (\<lambda>rules.
            rbind (AuthorizeManagement rules who ''admin.grants.manage'' (RevokeTarget rules rid)) (\<lambda>_.
            rbind (RemoveRule rules rid) (\<lambda>kept. Inr (kept, no_rule)))) s of
          (Inl e, s') \<Rightarrow> (Inl e, s')
        | (Inr _, s') \<Rightarrow> (Inr (), s')))"

section \<open>Facts about rules\<close>

definition grants :: "AllowQuery \<Rightarrow> AllowRule \<Rightarrow> bool" where
  "grants q r = (alPrincipal r = aqPrincipal q \<and> actionAllowed (alActions r) (aqAction q) \<and> scopeMatches r q \<and>
     (alObject r = [] \<or> path_Match (alObject r) (aqObject q) = Some True))"

lemma Access_Match_find: "Access_Match rules q = find (grants q) rules"
  by (induction rules) (auto simp: grants_def)

lemma Access_Match_None: "Access_Match rules q = None \<longleftrightarrow> (\<forall>r \<in> set rules. \<not> grants q r)"
  by (simp add: Access_Match_find find_None_all)

text \<open>\<open>manages\<close>: the rule that lets a principal change the grants of a scope.\<close>

definition manages :: "string \<Rightarrow> string \<Rightarrow> AllowRule \<Rightarrow> AllowRule \<Rightarrow> bool" where
  "manages who action target r =
    (alPrincipal r = who \<and> alRef r = [] \<and> alObject r = [] \<and> alAspect r = [] \<and>
     (alRepo r = [] \<or> alRepo r = alRepo target) \<and> (alCatalog r = [] \<or> alCatalog r = alCatalog target) \<and>
     (alDataset r = [] \<or> alDataset r = alDataset target) \<and> actionAllowed (alActions r) action)"

lemma AuthorizeManagement_iff:
  "AuthorizeManagement rules who action target =
    (if \<exists>r \<in> set rules. manages who action target r then Inr () else fails ErrForbidden)"
proof (induction rules)
  case (Cons rule rules)
  have "AuthorizeManagement (rule # rules) who action target =
      (if manages who action target rule then Inr () else AuthorizeManagement rules who action target)"
    by (simp add: manages_def scopeMatches_def coordinates_match_def)
  then show ?case using Cons.IH by simp
qed simp

lemma ruleByID_fold:
  "foldl (\<lambda>(found, n) rule. if alID rule = rid then (rule, n + 1) else (found, n)) (f, k) rules =
    (if filter (\<lambda>r. alID r = rid) rules = [] then f else last (filter (\<lambda>r. alID r = rid) rules),
     k + length (filter (\<lambda>r. alID r = rid) rules))"
  by (induction rules arbitrary: f k) auto

lemma ruleByID_count: "snd (ruleByID rules rid) = length (filter (\<lambda>r. alID r = rid) rules)"
  by (simp add: ruleByID_def ruleByID_fold)

lemma RevokeTarget_unique:
  assumes "snd (ruleByID rules rid) = 1"
  shows "RevokeTarget rules rid \<in> set rules" "alID (RevokeTarget rules rid) = rid"
    "\<And>r. r \<in> set rules \<Longrightarrow> alID r = rid \<Longrightarrow> r = RevokeTarget rules rid"
proof -
  let ?f = "filter (\<lambda>r. alID r = rid) rules"
  obtain t where t: "?f = [t]" using assms by (auto simp: ruleByID_count length_Suc_conv)
  have "RevokeTarget rules rid = t"
    using t by (simp add: RevokeTarget_def ruleByID_def ruleByID_fold)
  then have rt: "RevokeTarget rules rid = t" .
  have s: "set ?f = {t}" using t by simp
  then have m: "t \<in> set ?f" by blast
  show "RevokeTarget rules rid \<in> set rules" using m rt by simp
  show "alID (RevokeTarget rules rid) = rid" using m rt by simp
  fix r assume "r \<in> set rules" "alID r = rid"
  then have "r \<in> set ?f" by simp
  then show "r = RevokeTarget rules rid" using s rt by blast
qed

lemma newRuleID_fresh: "newRuleID draws rules = Inr rid \<Longrightarrow> rid \<notin> alID ` set rules"
  by (induction draws rules rule: newRuleID.induct)
    (auto simp: Let_def ruleByID_count filter_empty_conv split: if_splits)

lemma NormalizeActions_idem: "NormalizeActions (NormalizeActions a) = NormalizeActions a"
proof -
  let ?m = "\<lambda>a. if a = ''dataset.consume'' then ''file.read'' else a"
  have "map ?m (dedup (map ?m a)) = dedup (map ?m a)" by (rule map_idI) auto
  then show ?thesis by (auto simp: NormalizeActions_def Let_def dedup_id)
qed

lemma set_NormalizeActions:
  "set (NormalizeActions a) = (\<lambda>a. if a = ''dataset.consume'' then ''file.read'' else a) ` set a"
proof (cases "a = []")
  case False
  then have "dedup (map (\<lambda>a. if a = ''dataset.consume'' then ''file.read'' else a) a) \<noteq> []"
    unfolding set_empty [symmetric] set_dedup set_map by (simp only: image_is_empty set_empty not_False_eq_True)
  then show ?thesis by (simp add: NormalizeActions_def Let_def)
qed (simp add: NormalizeActions_def)

section \<open>The contract of a rule store\<close>

text \<open>\<open>stored_rule\<close> is what a rule reads back as; \<open>keepable\<close> rules can be read back at all.\<close>

definition stored_rule :: "AllowRule \<Rightarrow> AllowRule" where
  "stored_rule r = r\<lparr>alCmds := [], alActions := NormalizeActions (alActions r)\<rparr>"

definition keepable :: "AllowRule \<Rightarrow> bool" where
  "keepable r = (\<not> list_ex (\<lambda>a. HasPrefix a ''kset.'') (alActions r))"

lemma stored_rule_fields [simp]:
  "alID (stored_rule r) = alID r" "alPrincipal (stored_rule r) = alPrincipal r" "alRepo (stored_rule r) = alRepo r"
  "alCatalog (stored_rule r) = alCatalog r" "alRef (stored_rule r) = alRef r" "alObject (stored_rule r) = alObject r"
  "alAspect (stored_rule r) = alAspect r" "alDataset (stored_rule r) = alDataset r"
  "alActions (stored_rule r) = NormalizeActions (alActions r)"
  by (simp_all add: stored_rule_def)

lemma grants_cong:
  assumes "alPrincipal a = alPrincipal b" "alRepo a = alRepo b" "alCatalog a = alCatalog b" "alRef a = alRef b"
    "alObject a = alObject b" "alAspect a = alAspect b" "alDataset a = alDataset b" "set (alActions a) = set (alActions b)"
  shows "grants q a = grants q b"
proof -
  have "actionAllowed (alActions a) x = actionAllowed (alActions b) x" for x
    using assms(8) by (simp add: actionAllowed_def list_ex_iff)
  then show ?thesis using assms(1-7) by (simp add: grants_def scopeMatches_def)
qed

text \<open>A rule that was read from a store is already in its stored form.\<close>

lemma stored_rule_grants:
  assumes "NormalizeActions (alActions r) = alActions r"
  shows "grants q (stored_rule r) = grants q r"
  by (rule grants_cong) (simp_all add: assms)

locale rule_store =
  fixes ops :: "'s rule_store_ops"
  assumes read_ok: "rsRead ops s = Inr rules \<Longrightarrow> r \<in> set rules \<Longrightarrow> keepable r \<and> NormalizeActions (alActions r) = alActions r"
    and update_ok: "rsUpdate ops f s = (Inr x, s') \<Longrightarrow>
      \<exists>rules out. rsRead ops s = Inr rules \<and> f rules = Inr (out, x) \<and>
        (list_all keepable out \<longrightarrow> rsRead ops s' = Inr (map stored_rule out))"
    and update_failed: "rsUpdate ops f s = (Inl e, s') \<Longrightarrow> s' = s \<or>
      (\<exists>rules out x. rsRead ops s = Inr rules \<and> f rules = Inr (out, x) \<and>
        (list_all keepable out \<longrightarrow> rsRead ops s' = Inr (map stored_rule out)))"
begin

lemma read_keepable: "rsRead ops s = Inr rules \<Longrightarrow> list_all keepable rules"
  using read_ok by (auto simp: list_all_iff)

text \<open>Whatever an update returns, the store is unchanged or holds what the callback returned.\<close>

lemma update_cases:
  assumes "rsUpdate ops f s = (r, s')"
  obtains (unchanged) e where "r = Inl e" "s' = s"
  | (changed) rules out x where "rsRead ops s = Inr rules" "f rules = Inr (out, x)" "r = Inr x \<or> (\<exists>e. r = Inl e)"
      "list_all keepable out \<Longrightarrow> rsRead ops s' = Inr (map stored_rule out)"
proof (cases r)
  case (Inl e)
  then show ?thesis using update_failed [of f s e s'] assms unchanged changed by blast
next
  case (Inr x)
  then show ?thesis using update_ok [of f s x s'] assms changed by blast
qed

end

lemma ValidateActions_keepable: "ValidateActions (alActions r) = Inr u \<Longrightarrow> keepable r"
  by (auto simp: ValidateActions_def keepable_def each_ok_iff list_ex_iff split: if_splits)

lemma AddRule_ok:
  assumes "AddRule draws rules requested = Inr (out, x)"
  shows "out = rules @ [x]" "keepable x" "alID x \<notin> alID ` set rules"
    "alPrincipal x = alPrincipal requested" "alActions x = alActions requested" "alRepo x = alRepo requested"
    "alCatalog x = alCatalog requested" "alDataset x = alDataset requested"
    "alRef x = alRef requested" "alObject x = alObject requested" "alAspect x = alAspect requested"
  using assms
  by (auto simp: AddRule_def rbind_Inr_iff Let_def split: if_splits dest: newRuleID_fresh
      intro: ValidateActions_keepable)

lemma RemoveRule_ok:
  assumes "RemoveRule rules rid = Inr kept"
  shows "kept = filter (\<lambda>r. alID r \<noteq> rid) rules" "snd (ruleByID rules rid) = 1"
  using assms by (auto simp: RemoveRule_def Let_def split: if_splits)

context rule_store begin

text \<open>No escalation: an addition changes the grants only for a caller who manages the requested scope.\<close>

lemma add_authorized:
  assumes "Service_Add draws (Some ops) who requested s = (r, s')"
  shows "s' = s \<or> (\<exists>rules x. rsRead ops s = Inr rules \<and>
    (\<exists>m \<in> set rules. manages who ''admin.grants.manage'' requested m) \<and>
    rsRead ops s' = Inr (map stored_rule (rules @ [x])) \<and> alID x \<notin> alID ` set rules \<and>
    alPrincipal x = alPrincipal requested \<and> alActions x = alActions requested \<and> alRepo x = alRepo requested \<and>
    alCatalog x = alCatalog requested \<and> alDataset x = alDataset requested \<and> alRef x = alRef requested \<and>
    alObject x = alObject requested \<and> alAspect x = alAspect requested \<and> (r = Inr x \<or> (\<exists>e. r = Inl e)))"
proof (cases "Service_ready (Some ops) who")
  case (Inl e)
  then show ?thesis using assms by (simp add: Service_Add_def)
next
  case (Inr u)
  then have u: "rsUpdate ops (\<lambda>rules. rbind (AuthorizeManagement rules who ''admin.grants.manage'' requested)
      (\<lambda>_. AddRule draws rules requested)) s = (r, s')"
    using assms by (simp add: Service_Add_def)
  from u show ?thesis
  proof (cases rule: update_cases)
    case (changed rules out x)
    then have a: "AuthorizeManagement rules who ''admin.grants.manage'' requested = Inr ()"
      "AddRule draws rules requested = Inr (out, x)" by (auto simp: rbind_Inr_iff)
    note x = AddRule_ok [OF a(2)]
    have "\<exists>m \<in> set rules. manages who ''admin.grants.manage'' requested m"
      using a(1) by (simp add: AuthorizeManagement_iff split: if_splits)
    moreover have "list_all keepable out" using read_keepable [OF changed(1)] x(1,2) by simp
    ultimately show ?thesis using changed(1,3,4) x by blast
  qed simp
qed

text \<open>Revocation takes effect: afterwards the other rules, and only they, decide.\<close>

lemma revoke_effect:
  assumes "Service_Revoke (Some ops) who rid s = (Inr u, s')"
  shows "\<exists>rules t. rsRead ops s = Inr rules \<and> t \<in> set rules \<and> alID t = rid \<and>
    (\<exists>m \<in> set rules. manages who ''admin.grants.manage'' t m) \<and>
    (\<exists>rules'. rsRead ops s' = Inr rules' \<and>
      (\<forall>q. Access_Match rules' q \<noteq> None \<longleftrightarrow> (\<exists>r \<in> set rules. alID r \<noteq> rid \<and> grants q r)))"
proof -
  let ?f = "\<lambda>rules. rbind (AuthorizeManagement rules who ''admin.grants.manage'' (RevokeTarget rules rid)) (\<lambda>_.
      rbind (RemoveRule rules rid) (\<lambda>kept. Inr (kept, no_rule)))"
  obtain x where "rsUpdate ops ?f s = (Inr x, s')"
    using assms by (auto simp: Service_Revoke_def split: sum.splits prod.splits)
  from update_ok [OF this] obtain rules kept where r: "rsRead ops s = Inr rules"
    "AuthorizeManagement rules who ''admin.grants.manage'' (RevokeTarget rules rid) = Inr ()"
    "RemoveRule rules rid = Inr kept" "list_all keepable kept \<longrightarrow> rsRead ops s' = Inr (map stored_rule kept)"
    by (auto simp: rbind_Inr_iff)
  note k = RemoveRule_ok [OF r(3)] and t = RevokeTarget_unique [OF RemoveRule_ok(2) [OF r(3)]]
  have "list_all keepable kept" using read_keepable [OF r(1)] k(1) by (auto simp: list_all_iff)
  then have read: "rsRead ops s' = Inr (map stored_rule kept)" using r(4) by blast
  have "Access_Match (map stored_rule kept) q \<noteq> None \<longleftrightarrow> (\<exists>r \<in> set rules. alID r \<noteq> rid \<and> grants q r)" for q
  proof -
    have "grants q (stored_rule a) = grants q a" if "a \<in> set rules" for a
      using stored_rule_grants read_ok [OF r(1) that] by blast
    then show ?thesis unfolding Access_Match_None k(1) by auto
  qed
  moreover have "\<exists>m \<in> set rules. manages who ''admin.grants.manage'' (RevokeTarget rules rid) m"
    using r(2) by (simp add: AuthorizeManagement_iff split: if_splits)
  ultimately show ?thesis using r(1) t(1,2) read by blast
qed

end

end
