(* ===== verification/AllowLedger.thy ===== *)
theory AllowLedger
  imports Access DatasetDef
begin

text \<open>
  The durable grant ledger \<open>allow.json\<close> (\<open>src/invocation/allow.go\<close>), the rule store over it
  (\<open>snapshotGrantStore\<close> in \<open>src/server/snapshot_service.go\<close>) and the decisions made from its rules: the
  file service (\<open>src/snapshot/service/service.go\<close>) and the scope of datasets and temporary definitions.
  JSON decoding gives the wire form of a rule: the flag of the retired field and the fields.
\<close>

section \<open>The ledger file\<close>

record AdmissionReceipt =
  adPrincipal :: string
  adCatalog :: string
  adActions :: "string list"

record IdentityMigrationReceipt =
  imDigest :: string
  imMigratedRules :: int

record AllowFile =
  afVersion :: int
  afRules :: "AllowRule list"
  afInitialGrants :: "(string, string) gomap"
  afIdentityMigrations :: "(string, IdentityMigrationReceipt) gomap"
  afAdmissions :: "(string, AdmissionReceipt) gomap"

definition AllowVersion :: int where "AllowVersion = 2"

definition legacyActions :: "(string, string) gomap" where
  "legacyActions = [
    (''put'', ''writer.commit''),
    (''remove'', ''writer.commit''),
    (''commit'', ''writer.commit''),
    (''propose'', ''governance.proposal.create''),
    (''preview'', ''governance.preview.create''),
    (''validate'', ''governance.validate''),
    (''record-validation'', ''governance.validation.record''),
    (''merge'', ''governance.merge''),
    (''resolve'', ''dataset.resolve''),
    (''resolve-object'', ''knowledge.read''),
    (''resolve-binding'', ''knowledge.binding.resolve''),
    (''read'', ''knowledge.read''),
    (''relations'', ''knowledge.relations''),
    (''describe-schema'', ''knowledge.schema.read''),
    (''search'', ''knowledge.search''),
    (''log'', ''knowledge.history.read''),
    (''provenance'', ''knowledge.provenance''),
    (''describe-index'', ''projection.read''),
    (''index-sync'', ''projection.manage''),
    (''index-notify'', ''projection.manage''),
    (''describe-access'', ''knowledge.access.describe''),
    (''register'', ''catalog.repositories.manage''),
    (''archive-catalog'', ''catalog.manage''),
    (''archive-repo'', ''catalog.repositories.manage''),
    (''read-workspace'', ''file.read''),
    (''read-catalog'', ''catalog.read''),
    (''audit'', ''audit.read''),
    (''vfs-read'', ''file.read''),
    (''vfs-list'', ''file.read''),
    (''vfs-write'', ''writer.commit'')]"

text \<open>The file: missing, not readable, or the decoded JSON value with the rules in wire form.\<close>

datatype allow_disk = NoFile | Unreadable go_error | Saved AllowFile "(bool \<times> AllowRule) list"

definition appendUnique :: "string list \<Rightarrow> string \<Rightarrow> string list" where
  "appendUnique items v = (if v \<in> set items then items else items @ [v])"

definition migrate_rule :: "AllowRule \<Rightarrow> AllowRule" where
  "migrate_rule r =
    (let actions = (if length (alActions r) = 0 \<and> 0 < length (alCmds r)
        then foldl (\<lambda>acts cmd. case map_of legacyActions cmd of
            None \<Rightarrow> acts | Some action \<Rightarrow> appendUnique acts action) (alActions r) (alCmds r)
        else alActions r) in
     r\<lparr>alActions := NormalizeActions actions\<rparr>)"

definition ReadAllow :: "allow_disk \<Rightarrow> AllowFile go" where
  "ReadAllow d =
    (case d of
      NoFile \<Rightarrow> Inr \<lparr>afVersion = AllowVersion, afRules = [], afInitialGrants = [],
                     afIdentityMigrations = [], afAdmissions = []\<rparr>
    | Unreadable e \<Rightarrow> Inl e
    | Saved raw wire \<Rightarrow>
        rbind (collect (\<lambda>(kset, r). Rule_UnmarshalJSON kset r) wire) (\<lambda>rules.
          Inr (raw\<lparr>afVersion := AllowVersion, afRules := map migrate_rule rules\<rparr>)))"

text \<open>A write replaces the file by a rename; it can fail before the rename, or after it when the
  directory cannot be synced.\<close>

datatype write_outcome = Written | NotWritten go_error | WrittenNotSynced go_error

definition WriteAllow :: "write_outcome \<Rightarrow> AllowFile \<Rightarrow> allow_disk \<Rightarrow> unit go \<times> allow_disk" where
  "WriteAllow outcome file d =
    (let d' = Saved (file\<lparr>afVersion := AllowVersion, afRules := []\<rparr>)
           (map (\<lambda>r. (False, r\<lparr>alCmds := []\<rparr>)) (afRules file)) in
     case outcome of
       Written \<Rightarrow> (Inr (), d')
     | NotWritten e \<Rightarrow> (Inl e, d)
     | WrittenNotSynced e \<Rightarrow> (Inl e, d'))"

section \<open>The rule store\<close>

record snapshotGrantStore =
  gsWritable :: bool
  gsContext :: "go_error option"
  gsContextAfter :: "go_error option"
  gsWrite :: write_outcome

definition ReadRules :: "snapshotGrantStore \<Rightarrow> allow_disk \<Rightarrow> AllowRule list go" where
  "ReadRules g d = (case gsContext g of Some e \<Rightarrow> Inl e
     | None \<Rightarrow> rbind (ReadAllow d) (\<lambda>file. Inr (afRules file)))"

definition UpdateRules :: "snapshotGrantStore \<Rightarrow> (AllowRule list \<Rightarrow> (AllowRule list \<times> AllowRule) go) \<Rightarrow> allow_disk \<Rightarrow>
    AllowRule go \<times> allow_disk" where
  "UpdateRules g update d =
    (if \<not> gsWritable g then (fails ErrPreconditionFailed, d)
     else (case gsContext g of
       Some e \<Rightarrow> (Inl e, d)
     | None \<Rightarrow>
         (case ReadAllow d of
           Inl e \<Rightarrow> (Inl e, d)
         | Inr file \<Rightarrow>
             (case update (afRules file) of
               Inl e \<Rightarrow> (Inl e, d)
             | Inr (rules, captured) \<Rightarrow>
                 (case gsContextAfter g of
                   Some e \<Rightarrow> (Inl e, d)
                 | None \<Rightarrow>
                     (case WriteAllow (gsWrite g) (file\<lparr>afRules := rules\<rparr>) d of
                       (Inl e, d') \<Rightarrow> (Inl e, d')
                     | (Inr _, d') \<Rightarrow> (Inr captured, d')))))))"

definition grant_store :: "snapshotGrantStore \<Rightarrow> allow_disk rule_store_ops" where
  "grant_store g = \<lparr>rsRead = ReadRules g, rsUpdate = UpdateRules g\<rparr>"

section \<open>Decisions\<close>

definition normalizeAction :: "string \<Rightarrow> string" where
  "normalizeAction v =
    (if CHR ''.'' \<in> set v then v
     else (case map_of legacyActions v of None \<Rightarrow> v | Some action \<Rightarrow> action))"

definition workspaceScopeAllowed :: "AllowRule list \<Rightarrow> AllowQuery \<Rightarrow> KnowledgeSet option \<Rightarrow> bool" where
  "workspaceScopeAllowed rules q0 def =
    (let q = (if def \<noteq> None then q0\<lparr>aqDataset := []\<rparr> else q0) in
     if Access_Match rules q \<noteq> None then True
     else (case def of
       None \<Rightarrow> False
     | Some d \<Rightarrow>
         if length (setSources d) = 0 \<or> aqDataset q \<noteq> [] then False
         else list_all (\<lambda>source. srcRepository source \<noteq> [] \<and>
                Access_Match rules (q\<lparr>aqRepo := srcRepository source\<rparr>) \<noteq> None) (setSources d)))"

text \<open>None is the answer \<open>ErrNotWorkspaceKnowledge\<close>: the question is not about a dataset.\<close>

definition AuthorizeWorkspaceKnowledgeDefinition :: "AllowRule list \<Rightarrow> AllowQuery \<Rightarrow> KnowledgeSet option \<Rightarrow>
    unit go option" where
  "AuthorizeWorkspaceKnowledgeDefinition rules q0 def =
    (let hasDefinition = (def \<noteq> None) in
     if (aqDataset q0 = [] \<and> \<not> hasDefinition) \<or> aqRepo q0 \<noteq> [] \<or> \<not> HasPrefix (aqAction q0) ''knowledge.''
     then None
     else (let q = (if hasDefinition then q0\<lparr>aqDataset := []\<rparr> else q0) in
       Some (if \<not> workspaceScopeAllowed rules (q\<lparr>aqAction := ''file.read''\<rparr>) def
             then fails ErrForbidden else Inr ())))"

text \<open>The file service: an application hook decides if there is one, otherwise the rules of the store.\<close>

definition Resources_authorize :: "(string \<Rightarrow> AllowQuery \<Rightarrow> KnowledgeSet option \<Rightarrow> unit go) option \<Rightarrow>
    's rule_store_ops option \<Rightarrow> string \<Rightarrow> AllowQuery \<Rightarrow> KnowledgeSet option \<Rightarrow> 's \<Rightarrow> unit go" where
  "Resources_authorize hook store caller query def s =
    (if caller = [] then fails ErrUnauthenticated
     else (case hook of
       Some f \<Rightarrow> f caller query def
     | None \<Rightarrow>
         if aqAction query = ''identity.read'' then Inr ()
         else (case store of
           None \<Rightarrow> fails ErrPreconditionFailed
         | Some ops \<Rightarrow>
             rbind (rsRead ops s) (\<lambda>rules.
               let q = query\<lparr>aqPrincipal := caller,
                     aqDataset := (if def \<noteq> None then [] else aqDataset query)\<rparr> in
               if Access_Match rules q \<noteq> None then Inr () else fails ErrForbidden))))"

section \<open>The rule store keeps its contract\<close>

lemma migrate_rule_actions:
  assumes "keepable r"
  shows "keepable (migrate_rule r)" "NormalizeActions (alActions (migrate_rule r)) = alActions (migrate_rule r)"
proof -
  have legacy: "\<forall>(c, a) \<in> set legacyActions. \<not> HasPrefix a ''kset.''" by code_simp
  have fold: "\<forall>a \<in> set (foldl (\<lambda>acts cmd. case map_of legacyActions cmd of
      None \<Rightarrow> acts | Some action \<Rightarrow> appendUnique acts action) acts cmds). \<not> HasPrefix a ''kset.''"
    if "\<forall>a \<in> set acts. \<not> HasPrefix a ''kset.''" for acts cmds
    using that
  proof (induction cmds arbitrary: acts)
    case (Cons c cmds)
    show ?case
    proof (cases "map_of legacyActions c")
      case (Some a)
      then have "\<not> HasPrefix a ''kset.''" using legacy map_of_SomeD [OF Some] by blast
      then have "\<forall>b \<in> set (appendUnique acts a). \<not> HasPrefix b ''kset.''"
        using Cons.prems by (auto simp: appendUnique_def)
      then show ?thesis using Cons.IH Some by simp
    qed (use Cons in simp)
  qed simp
  obtain acts where a: "alActions (migrate_rule r) = NormalizeActions acts" "\<forall>a \<in> set acts. \<not> HasPrefix a ''kset.''"
    using fold [of "alActions r" "alCmds r"] assms
    by (auto simp: migrate_rule_def keepable_def list_ex_iff Let_def split: if_splits)
  have "\<forall>b \<in> set (NormalizeActions acts). \<not> HasPrefix b ''kset.''"
    using a(2) by (auto simp: set_NormalizeActions)
  then show "keepable (migrate_rule r)" using a(1) by (auto simp: keepable_def list_ex_iff)
  show "NormalizeActions (alActions (migrate_rule r)) = alActions (migrate_rule r)"
    by (simp add: a(1) NormalizeActions_idem)
qed

lemma unmarshal_ok: "Rule_UnmarshalJSON kset r = Inr r' \<Longrightarrow> keepable r'"
  by (auto simp: Rule_UnmarshalJSON_def keepable_def list_ex_iff set_NormalizeActions split: if_splits)

lemma ReadAllow_rules:
  assumes "ReadAllow d = Inr file" and "r \<in> set (afRules file)"
  shows "keepable r \<and> NormalizeActions (alActions r) = alActions r"
proof -
  obtain raw wire rules where c: "collect (\<lambda>(kset, r). Rule_UnmarshalJSON kset r) wire = Inr rules"
    "afRules file = map migrate_rule rules"
    using assms by (auto simp: ReadAllow_def rbind_Inr_iff split: allow_disk.splits)
  obtain r0 where r0: "r0 \<in> set rules" "r = migrate_rule r0" using assms(2) c(2) by auto
  have "keepable r0" using collect_set [OF c(1) r0(1)] unmarshal_ok by auto
  then show ?thesis using r0(2) migrate_rule_actions by simp
qed

text \<open>Reading back what was written gives the stored form of every rule and all other fields.\<close>

lemma ReadAllow_written:
  assumes "list_all keepable (afRules file)"
  shows "ReadAllow (Saved (file\<lparr>afVersion := AllowVersion, afRules := []\<rparr>)
      (map (\<lambda>r. (False, r\<lparr>alCmds := []\<rparr>)) (afRules file)))
    = Inr (file\<lparr>afVersion := AllowVersion, afRules := map stored_rule (afRules file)\<rparr>)"
proof -
  have n: "NormalizeActions [] = []" by (simp add: NormalizeActions_def dedup_def)
  have "collect (\<lambda>(kset, r). Rule_UnmarshalJSON kset r) (map (\<lambda>r. (False, r\<lparr>alCmds := []\<rparr>)) rs)
      = Inr (map stored_rule rs) \<and> map migrate_rule (map stored_rule rs) = map stored_rule rs"
    if "list_all keepable rs" for rs
    using that
    by (induction rs)
      (auto simp: Rule_UnmarshalJSON_def keepable_def stored_rule_def migrate_rule_def NormalizeActions_idem n)
  then show ?thesis using assms by (simp add: ReadAllow_def)
qed

lemma UpdateRules_result:
  assumes "UpdateRules g f d = (r, d')"
  shows "(d' = d \<and> (\<exists>e. r = Inl e)) \<or> (\<exists>file out x. ReadAllow d = Inr file \<and> gsContext g = None \<and> f (afRules file) = Inr (out, x) \<and>
    (r = Inr x \<or> (\<exists>e. r = Inl e)) \<and>
    d' = Saved (file\<lparr>afVersion := AllowVersion, afRules := []\<rparr>) (map (\<lambda>r. (False, r\<lparr>alCmds := []\<rparr>)) out))"
  using assms
  by (auto simp: UpdateRules_def WriteAllow_def Let_def split: if_splits option.splits sum.splits write_outcome.splits)

lemma UpdateRules_read:
  assumes "ReadAllow d = Inr file" "gsContext g = None" "list_all keepable out"
    and "d' = Saved (file\<lparr>afVersion := AllowVersion, afRules := []\<rparr>) (map (\<lambda>r. (False, r\<lparr>alCmds := []\<rparr>)) out)"
  shows "ReadAllow d' = Inr (file\<lparr>afVersion := AllowVersion, afRules := map stored_rule out\<rparr>)"
    and "ReadRules g d' = Inr (map stored_rule out)"
  using ReadAllow_written [of "file\<lparr>afRules := out\<rparr>"] assms by (simp_all add: ReadRules_def)

interpretation allow: rule_store "grant_store g" for g
proof (unfold_locales, goal_cases)
  case (1 s rules r)
  then show ?case
    using ReadAllow_rules by (auto simp: grant_store_def ReadRules_def rbind_Inr_iff split: option.splits)
next
  case (2 f s x s')
  then show ?case
    using UpdateRules_result [of g f s "Inr x" s'] UpdateRules_read
    by (fastforce simp: grant_store_def ReadRules_def)
next
  case (3 f s e s')
  then show ?case
    using UpdateRules_result [of g f s "Inl e" s'] UpdateRules_read
    by (fastforce simp: grant_store_def ReadRules_def)
qed

section \<open>Facts about decisions\<close>

lemma ActionMatches_iff:
  "ActionMatches granted requested \<longleftrightarrow>
    granted = ''*'' \<or> granted = requested \<or> (\<exists>p. granted = p @ ''.*'' \<and> HasPrefix requested (p @ ''.''))"
proof -
  have "TrimSuffix (p @ ''.*'') ''*'' = p @ ''.''" for p
    by (simp add: TrimSuffix_def suffix_def)
  then show ?thesis by (auto simp: ActionMatches_def suffix_def)
qed

lemma grants_any_repo:
  assumes "grants q r" "aqRepo q = []"
  shows "grants (q\<lparr>aqRepo := repo\<rparr>) r"
  using assms by (simp add: grants_def scopeMatches_def coordinates_match_def)

section \<open>Properties\<close>

text \<open>C20. What a grant allows: a query is allowed exactly when some rule names its principal, one of its
  actions covers the requested one, every coordinate the rule fixes is the requested one, and the
  object matches the rule's pattern; a malformed pattern allows nothing.\<close>

theorem access_allows_exactly:
  "Access_Match rules q \<noteq> None \<longleftrightarrow>
    (\<exists>r \<in> set rules. alPrincipal r = aqPrincipal q \<and>
      (\<exists>a \<in> set (alActions r). a = ''*'' \<or> a = aqAction q \<or> (\<exists>p. a = p @ ''.*'' \<and> HasPrefix (aqAction q) (p @ ''.''))) \<and>
      (alRepo r = [] \<or> alRepo r = aqRepo q) \<and> (alCatalog r = [] \<or> alCatalog r = aqCatalog q) \<and>
      (alRef r = [] \<or> alRef r = aqRef q) \<and> (alAspect r = [] \<or> alAspect r = aqAspect q) \<and>
      (alDataset r = [] \<or> alDataset r = aqDataset q) \<and>
      (alObject r = [] \<or> path_Match (alObject r) (aqObject q) = Some True))"
  unfolding Access_Match_None
  by (simp add: grants_def scopeMatches_def coordinates_match_def actionAllowed_def list_ex_iff ActionMatches_iff)

text \<open>C21. Nobody grants himself anything: whatever \<open>Add\<close> returns, the ledger reads as before unless the
  caller holds a rule that manages grants in the requested scope; then exactly one rule was appended,
  under a new id, with the requested principal, actions and scope (the retired command lists of the
  other rules are dropped).\<close>

theorem grant_add_no_escalation:
  assumes "Service_Add draws (Some (grant_store g)) who requested d = (r, d')"
    and "rsRead (grant_store g) d = Inr rules" and "rsRead (grant_store g) d' \<noteq> Inr rules"
  shows "\<exists>m x. m \<in> set rules \<and> manages who ''admin.grants.manage'' requested m \<and>
    rsRead (grant_store g) d' = Inr (map (\<lambda>r. r\<lparr>alCmds := []\<rparr>) rules @ [x]) \<and> alID x \<notin> alID ` set rules \<and>
    alPrincipal x = alPrincipal requested \<and> alActions x = NormalizeActions (alActions requested) \<and>
    alRepo x = alRepo requested \<and> alCatalog x = alCatalog requested \<and> alDataset x = alDataset requested \<and>
    alRef x = alRef requested \<and> alObject x = alObject requested \<and> alAspect x = alAspect requested"
proof -
  have "d' \<noteq> d" using assms(2,3) by auto
  then obtain m x where m: "m \<in> set rules" "manages who ''admin.grants.manage'' requested m"
    and x: "rsRead (grant_store g) d' = Inr (map stored_rule (rules @ [x]))" "alID x \<notin> alID ` set rules"
      "alPrincipal x = alPrincipal requested" "alActions x = alActions requested" "alRepo x = alRepo requested"
      "alCatalog x = alCatalog requested" "alDataset x = alDataset requested" "alRef x = alRef requested"
      "alObject x = alObject requested" "alAspect x = alAspect requested"
    using allow.add_authorized [OF assms(1)] assms(2) by auto
  have "stored_rule a = a\<lparr>alCmds := []\<rparr>" if "a \<in> set rules" for a
    using allow.read_ok [OF assms(2) that] by (cases a) (simp add: stored_rule_def)
  then have "map stored_rule (rules @ [x]) = map (\<lambda>r. r\<lparr>alCmds := []\<rparr>) rules @ [stored_rule x]" by simp
  then show ?thesis using m x by (intro exI [of _ m] exI [of _ "stored_rule x"]) simp
qed

text \<open>A ledger for the witnesses: one administrator of a catalog, and what he grants.\<close>

definition demo_grant_store :: snapshotGrantStore where
  "demo_grant_store = \<lparr>gsWritable = True, gsContext = None, gsContextAfter = None, gsWrite = Written\<rparr>"

definition demo_admin :: AllowRule where
  "demo_admin = no_rule\<lparr>alID := ''alw_0'', alPrincipal := ''ann'', alActions := [''admin.grants.*''], alCatalog := ''cat''\<rparr>"

definition demo_wish :: AllowRule where
  "demo_wish = no_rule\<lparr>alPrincipal := ''bob'', alActions := [''file.read''], alCatalog := ''cat'', alDataset := ''docs''\<rparr>"

definition demo_ledger :: allow_disk where
  "demo_ledger = Saved \<lparr>afVersion = 2, afRules = [], afInitialGrants = [], afIdentityMigrations = [],
     afAdmissions = []\<rparr> [(False, demo_admin)]"

definition demo_granted :: "AllowRule go \<times> allow_disk" where
  "demo_granted = Service_Add [''7''] (Some (grant_store demo_grant_store)) ''ann'' demo_wish demo_ledger"

theorem grant_add_no_escalation_witness:
  "\<exists>x. rsRead (grant_store demo_grant_store) (snd demo_granted) = Inr [demo_admin, x] \<and> alPrincipal x = ''bob'' \<and>
     manages ''ann'' ''admin.grants.manage'' demo_wish demo_admin"
proof -
  have r: "rsRead (grant_store demo_grant_store) demo_ledger = Inr [demo_admin]" by code_simp
  have "case rsRead (grant_store demo_grant_store) (snd demo_granted) of Inl _ \<Rightarrow> False | Inr rules \<Rightarrow> length rules = 2"
    by code_simp
  then have n: "rsRead (grant_store demo_grant_store) (snd demo_granted) \<noteq> Inr [demo_admin]"
    by (auto split: sum.splits)
  have a: "Service_Add [''7''] (Some (grant_store demo_grant_store)) ''ann'' demo_wish demo_ledger
      = (fst demo_granted, snd demo_granted)" by (simp add: demo_granted_def)
  have "map (\<lambda>r. r\<lparr>alCmds := []\<rparr>) [demo_admin] = [demo_admin]" by (simp add: demo_admin_def no_rule_def)
  then show ?thesis
    using grant_add_no_escalation [OF a r n] by (auto simp: demo_wish_def no_rule_def)
qed

text \<open>Revocation takes effect at once: after a successful \<open>Revoke\<close>, which needs a rule that manages
  the scope of the revoked one, a query is allowed exactly when one of the other rules allows it.\<close>

theorem grant_revoke_takes_effect:
  assumes "Service_Revoke (Some (grant_store g)) who rid d = (Inr u, d')"
  shows "\<exists>rules rules'. rsRead (grant_store g) d = Inr rules \<and> rsRead (grant_store g) d' = Inr rules' \<and>
    (\<exists>t \<in> set rules. alID t = rid \<and> (\<exists>m \<in> set rules. manages who ''admin.grants.manage'' t m)) \<and>
    (\<forall>q. Access_Match rules' q \<noteq> None \<longleftrightarrow> Access_Match (filter (\<lambda>r. alID r \<noteq> rid) rules) q \<noteq> None)"
proof -
  from allow.revoke_effect [OF assms] obtain rules t rules' where r: "rsRead (grant_store g) d = Inr rules"
    "t \<in> set rules" "alID t = rid" "\<exists>m \<in> set rules. manages who ''admin.grants.manage'' t m"
    "rsRead (grant_store g) d' = Inr rules'"
    "\<forall>q. Access_Match rules' q \<noteq> None \<longleftrightarrow> (\<exists>r \<in> set rules. alID r \<noteq> rid \<and> grants q r)" by blast
  have "\<forall>q. Access_Match rules' q \<noteq> None \<longleftrightarrow> Access_Match (filter (\<lambda>r. alID r \<noteq> rid) rules) q \<noteq> None"
    using r(6) by (auto simp: Access_Match_None)
  then show ?thesis using r(1-5) by blast
qed

definition demo_read :: AllowQuery where
  "demo_read = \<lparr>aqPrincipal = ''bob'', aqAction = ''file.read'', aqRepo = [], aqCatalog = ''cat'', aqRef = [],
     aqObject = [], aqAspect = [], aqDataset = ''docs''\<rparr>"

theorem grant_revoke_takes_effect_witness:
  "\<exists>d' rules rules'. Service_Revoke (Some (grant_store demo_grant_store)) ''ann'' ''alw_7'' (snd demo_granted) = (Inr (), d') \<and>
     rsRead (grant_store demo_grant_store) (snd demo_granted) = Inr rules \<and> Access_Match rules demo_read \<noteq> None \<and>
     rsRead (grant_store demo_grant_store) d' = Inr rules' \<and> Access_Match rules' demo_read = None"
proof -
  let ?after = "Service_Revoke (Some (grant_store demo_grant_store)) ''ann'' ''alw_7'' (snd demo_granted)"
  have "ok (fst ?after)" by code_simp
  then have s: "?after = (Inr (), snd ?after)" by (auto simp: ok_iff prod_eq_iff)
  have "case rsRead (grant_store demo_grant_store) (snd demo_granted) of Inl _ \<Rightarrow> False
      | Inr rules \<Rightarrow> Access_Match rules demo_read \<noteq> None \<and> Access_Match (filter (\<lambda>r. alID r \<noteq> ''alw_7'') rules) demo_read = None"
    by code_simp
  then obtain rules where r: "rsRead (grant_store demo_grant_store) (snd demo_granted) = Inr rules"
    "Access_Match rules demo_read \<noteq> None" "Access_Match (filter (\<lambda>r. alID r \<noteq> ''alw_7'') rules) demo_read = None"
    by (auto split: sum.splits)
  from grant_revoke_takes_effect [OF s] r obtain rules' where
    "rsRead (grant_store demo_grant_store) (snd ?after) = Inr rules'"
    "\<forall>q. Access_Match rules' q \<noteq> None \<longleftrightarrow> Access_Match (filter (\<lambda>r. alID r \<noteq> ''alw_7'') rules) q \<noteq> None" by auto
  then show ?thesis using s r by blast
qed

text \<open>C22. A temporary definition borrows no grant: knowledge work on a caller-supplied definition is
  allowed only if every one of its repositories may be read by the caller without any dataset scope,
  whatever dataset name the request carries.\<close>

theorem temporary_definition_needs_every_member:
  assumes "AuthorizeWorkspaceKnowledgeDefinition rules q (Some def) = Some (Inr u)" and "s \<in> set (setSources def)"
  shows "Access_Match rules (q\<lparr>aqAction := ''file.read'', aqDataset := [], aqRepo := srcRepository s\<rparr>) \<noteq> None \<and>
    AuthorizeWorkspaceKnowledgeDefinition rules (q\<lparr>aqDataset := name\<rparr>) (Some def) = Some (Inr ())"
proof -
  let ?q = "q\<lparr>aqAction := ''file.read'', aqDataset := []\<rparr>"
  have c: "q\<lparr>aqDataset := [], aqAction := ''file.read''\<rparr> = ?q" by simp
  have a: "aqRepo q = []" "workspaceScopeAllowed rules ?q (Some def)"
    unfolding c [symmetric]
    using assms(1) by (auto simp: AuthorizeWorkspaceKnowledgeDefinition_def Let_def split: if_splits)
  have "Access_Match rules (?q\<lparr>aqRepo := srcRepository s\<rparr>) \<noteq> None"
  proof (cases "Access_Match rules ?q")
    case None
    then have "list_all (\<lambda>source. srcRepository source \<noteq> [] \<and>
        Access_Match rules (?q\<lparr>aqRepo := srcRepository source\<rparr>) \<noteq> None) (setSources def)"
      using a(2) by (simp add: workspaceScopeAllowed_def Let_def split: if_splits)
    then show ?thesis using assms(2) by (simp add: list_all_iff)
  next
    case (Some r)
    then have "Access_Match rules ?q \<noteq> None" by simp
    then obtain r where "r \<in> set rules" "grants ?q r" unfolding Access_Match_None by blast
    then show ?thesis using grants_any_repo [of ?q r "srcRepository s"] a(1) unfolding Access_Match_None by auto
  qed
  moreover have "AuthorizeWorkspaceKnowledgeDefinition rules (q\<lparr>aqDataset := name\<rparr>) (Some def) =
      AuthorizeWorkspaceKnowledgeDefinition rules q (Some def)"
    by (simp add: AuthorizeWorkspaceKnowledgeDefinition_def)
  ultimately show ?thesis using assms(1) by simp
qed

theorem temporary_definition_needs_every_member_witness:
  "Access_Match [demo_wish\<lparr>alDataset := []\<rparr>] (demo_read\<lparr>aqDataset := [], aqRepo := ''kr://a/b''\<rparr>) \<noteq> None"
proof -
  have s: "demo_mount \<in> set (setSources \<lparr>setID = ''tmp'', setRevision = 0, setSources = [demo_mount], setItems = [],
      setRetired = False\<rparr>)" by simp
  have "AuthorizeWorkspaceKnowledgeDefinition [demo_wish\<lparr>alDataset := []\<rparr>] (demo_read\<lparr>aqAction := ''knowledge.read''\<rparr>)
      (Some \<lparr>setID = ''tmp'', setRevision = 0, setSources = [demo_mount], setItems = [], setRetired = False\<rparr>)
      = Some (Inr ())" by code_simp
  from temporary_definition_needs_every_member [OF this s]
  show ?thesis by (simp add: demo_read_def demo_mount_def)
qed

end
