(* ===== verification/Decimal.thy ===== *)
theory Decimal
  imports Complex_Main Kernel
begin

text \<open>
  What decimal texts denote: the digits of a natural number (\<open>strconv.Itoa\<close>, \<open>big.Int\<close>), the rational
  value of a JSON number text, and the canonical text \<open>canonicalJSONNumber\<close> of
  \<open>src/kernel/json.go\<close>, which two numbers share exactly when they are equal.
\<close>

named_theorems decimal_simps "reading decimal digits"

section \<open>Digits\<close>

lemma is_digit_iff: "is_digit c \<longleftrightarrow> 48 \<le> (of_char c :: nat) \<and> (of_char c :: nat) \<le> 57"
  by (simp add: is_digit_def of_char_eq_iff [where 'a = nat, symmetric] del: of_char_eq_iff) arith

lemma digit_val_less: "is_digit c \<Longrightarrow> digit_val c < 10"
  unfolding is_digit_iff digit_val_def by arith

lemma digit_val_inj: "is_digit c \<Longrightarrow> is_digit d \<Longrightarrow> digit_val c = digit_val d \<Longrightarrow> c = d"
proof -
  assume "is_digit c" "is_digit d" "digit_val c = digit_val d"
  then have "(of_char c :: nat) = of_char d" unfolding is_digit_iff digit_val_def by arith
  then show "c = d" by simp
qed

lemma digit_zero [simp]: "digit_val CHR ''0'' = 0" "is_digit CHR ''0''"
  by (simp_all add: digit_val_def is_digit_def)

lemma digit_val_zero: "is_digit c \<Longrightarrow> digit_val c = 0 \<longleftrightarrow> c = CHR ''0''"
  using digit_val_inj [of c "CHR ''0''"] by auto

lemma is_digit_marks [simp]:
  "\<not> is_digit CHR ''.''" "\<not> is_digit CHR ''e''" "\<not> is_digit CHR ''E''" "\<not> is_digit CHR ''+''"
  "\<not> is_digit CHR ''-''"
  by (simp_all add: is_digit_def)

lemma foldl_digits:
  "foldl (\<lambda>a c. 10 * a + digit_val c) b s = b * 10 ^ length s + nat_of_digits s"
proof (induction s arbitrary: b)
  case Nil
  then show ?case by (simp add: nat_of_digits_def)
next
  case (Cons c s)
  have "foldl (\<lambda>a c. 10 * a + digit_val c) b (c # s) = (10 * b + digit_val c) * 10 ^ length s + nat_of_digits s"
    by (simp add: Cons.IH)
  moreover have "nat_of_digits (c # s) = digit_val c * 10 ^ length s + nat_of_digits s"
    using Cons.IH [of "digit_val c"] by (simp add: nat_of_digits_def)
  ultimately show ?case by (simp add: algebra_simps)
qed

lemma nat_of_digits_simps [decimal_simps]:
  "nat_of_digits [] = 0"
  "nat_of_digits (c # s) = digit_val c * 10 ^ length s + nat_of_digits s"
  using foldl_digits [of "digit_val c" s] by (simp_all add: nat_of_digits_def)

lemma nat_of_digits_append [decimal_simps]:
  "nat_of_digits (s @ t) = nat_of_digits s * 10 ^ length t + nat_of_digits t"
  using foldl_digits [of "nat_of_digits s" t] by (simp add: nat_of_digits_def)

lemma nat_of_digits_zeros [decimal_simps]: "nat_of_digits (replicate n CHR ''0'') = 0"
  by (induction n) (simp_all add: nat_of_digits_simps)

lemma nat_of_digits_strip [decimal_simps]:
  "nat_of_digits (dropWhile (\<lambda>c. c = CHR ''0'') s) = nat_of_digits s"
  by (induction s) (simp_all add: nat_of_digits_simps)

lemma nat_of_digits_less: "list_all is_digit s \<Longrightarrow> nat_of_digits s < 10 ^ length s"
proof (induction s)
  case (Cons c s)
  then have "digit_val c \<le> 9" "nat_of_digits s < 10 ^ length s" using digit_val_less [of c] by auto
  then have "digit_val c * 10 ^ length s + nat_of_digits s < 9 * 10 ^ length s + 10 ^ length s"
    by (intro add_le_less_mono mult_le_mono1) simp_all
  then show ?case by (simp add: nat_of_digits_simps)
qed (simp add: nat_of_digits_simps)

lemma nat_of_digits_inj:
  "list_all is_digit s \<Longrightarrow> list_all is_digit t \<Longrightarrow> length s = length t \<Longrightarrow>
   nat_of_digits s = nat_of_digits t \<Longrightarrow> s = t"
proof (induction s arbitrary: t)
  case (Cons c s)
  then obtain d t' where t: "t = d # t'" "length s = length t'" by (cases t) auto
  let ?n = "10 ^ length s :: nat"
  have eq: "digit_val c * ?n + nat_of_digits s = digit_val d * ?n + nat_of_digits t'"
    using Cons.prems(4) t by (simp add: nat_of_digits_simps)
  have less: "nat_of_digits s < ?n" "nat_of_digits t' < ?n"
    using Cons.prems t nat_of_digits_less [of s] nat_of_digits_less [of t'] by auto
  have digit: "(a * n + b) div n = a" if "b < n" for a b n :: nat
    using that by simp
  have "digit_val c = digit_val d" using digit [OF less(1)] digit [OF less(2)] eq by metis
  moreover have "c = d" using Cons.prems t digit_val_inj [OF _ _ calculation] by simp
  moreover have "nat_of_digits s = nat_of_digits t'" using eq calculation by simp
  ultimately show ?case using Cons.IH [of t'] Cons.prems t by simp
qed simp

text \<open>A text without outer zeros: the significant digits of a number.\<close>

definition significant :: "string \<Rightarrow> bool" where
  "significant s = (list_all is_digit s \<and> s \<noteq> [] \<and> hd s \<noteq> CHR ''0'' \<and> s ! (length s - 1) \<noteq> CHR ''0'')"

lemma leading_digit_bound:
  assumes "list_all is_digit s" "s \<noteq> []" "hd s \<noteq> CHR ''0''"
  shows "10 ^ (length s - 1) \<le> nat_of_digits s"
proof (cases s)
  case (Cons c t)
  then have "1 \<le> digit_val c" using assms digit_val_zero [of c] by (cases "digit_val c") auto
  then have "1 * 10 ^ length t \<le> digit_val c * 10 ^ length t" by (rule mult_le_mono1)
  then show ?thesis using Cons by (simp add: nat_of_digits_simps trans_le_add1)
qed (use assms in simp)

lemma same_number_same_length:
  assumes "list_all is_digit s" "s \<noteq> []" "hd s \<noteq> CHR ''0''"
    and "list_all is_digit t" "t \<noteq> []" "hd t \<noteq> CHR ''0''" "nat_of_digits s = nat_of_digits t"
  shows "s = t"
proof -
  have "10 ^ (length s - 1) < (10 :: nat) ^ length t" "10 ^ (length t - 1) < (10 :: nat) ^ length s"
    using leading_digit_bound [OF assms(1-3)] leading_digit_bound [OF assms(4-6)]
      nat_of_digits_less [OF assms(1)] nat_of_digits_less [OF assms(4)] assms(7) by linarith+
  then have "length s - 1 < length t" "length t - 1 < length s" by simp_all
  then have "length s = length t" using assms(2,5) by (cases s; cases t) auto
  then show ?thesis using nat_of_digits_inj assms(1,4,7) by blast
qed

lemma significant_mod:
  assumes "significant s" shows "nat_of_digits s mod 10 \<noteq> 0"
proof -
  obtain t c where s: "s = t @ [c]" using assms by (cases s rule: rev_cases) (auto simp: significant_def)
  have "is_digit c" "c \<noteq> CHR ''0''" using assms by (auto simp: significant_def s)
  then have "digit_val c \<noteq> 0" "digit_val c < 10" using digit_val_zero digit_val_less by auto
  then show ?thesis by (simp add: s nat_of_digits_append nat_of_digits_simps)
qed

section \<open>Itoa\<close>

lemma digit_char: "n < 10 \<Longrightarrow> is_digit (char_of (48 + n)) \<and> digit_val (char_of (48 + n)) = n"
  by (simp add: is_digit_iff digit_val_def)

lemma digits_rev_number: "nat_of_digits (rev (digits_rev n)) = n \<and> list_all is_digit (digits_rev n)"
proof (induction n rule: digits_rev.induct)
  case (1 n)
  show ?case
  proof (cases "n < 10")
    case True
    then show ?thesis
      using digit_char [of n] by (simp add: digits_rev.simps [of n] nat_of_digits_simps)
  next
    case False
    then have "nat_of_digits (rev (digits_rev n)) = n div 10 * 10 + n mod 10"
      using 1 digit_char [of "n mod 10"]
      by (simp add: digits_rev.simps [of n] nat_of_digits_append nat_of_digits_simps)
    then show ?thesis using 1 False digit_char [of "n mod 10"] by (simp add: digits_rev.simps [of n])
  qed
qed

lemma nat_of_digits_itoa [decimal_simps]: "nat_of_digits (itoa n) = n"
  using digits_rev_number by (simp add: itoa_def)

lemma itoa_digits [simp]: "list_all is_digit (itoa n)" "itoa n \<noteq> []"
  using digits_rev_number [of n] digits_rev.simps [of n] by (auto simp: itoa_def list_all_iff)

lemma digits_rev_last: "0 < n \<Longrightarrow> digits_rev n ! (length (digits_rev n) - 1) \<noteq> CHR ''0''"
proof (induction n rule: digits_rev.induct)
  case (1 n)
  show ?case
  proof (cases "n < 10")
    case True
    then have "char_of (48 + n) \<noteq> CHR ''0''" using digit_char [of n] 1 by (metis digit_zero(1) less_irrefl)
    then show ?thesis using True by (subst (1 2) digits_rev.simps) simp
  next
    case False
    moreover have "digits_rev (n div 10) \<noteq> []" by (subst digits_rev.simps) simp
    ultimately show ?thesis using 1 False by (simp add: digits_rev.simps [of n] nth_Cons')
  qed
qed

lemma itoa_head: "0 < n \<Longrightarrow> hd (itoa n) \<noteq> CHR ''0''"
  using digits_rev_last [of n] itoa_digits(2) [of n]
  by (simp add: itoa_def hd_rev last_conv_nth)

lemma itoa_nat_of_digits:
  "list_all is_digit s \<Longrightarrow> s \<noteq> [] \<Longrightarrow> hd s \<noteq> CHR ''0'' \<Longrightarrow> itoa (nat_of_digits s) = s"
proof -
  assume s: "list_all is_digit s" "s \<noteq> []" "hd s \<noteq> CHR ''0''"
  have "0 < nat_of_digits s" using leading_digit_bound [OF s] by (metis gr0I not_one_le_zero power_not_zero le_zero_eq zero_neq_numeral)
  then show ?thesis
    using same_number_same_length [OF itoa_digits itoa_head s] by (simp add: nat_of_digits_itoa)
qed

lemma itoa_inj: "itoa m = itoa n \<Longrightarrow> m = n"
  by (metis nat_of_digits_itoa)

lemma all_digits_itoa [simp]: "all_digits (itoa n)"
  by (simp add: all_digits_def)

lemma itoa_hd_not_sign: "hd (itoa n) \<noteq> CHR ''-''" "hd (itoa n) \<noteq> CHR ''+''"
proof -
  have "is_digit (hd (itoa n))" using itoa_digits [of n] by (cases "itoa n") simp_all
  then show "hd (itoa n) \<noteq> CHR ''-''" "hd (itoa n) \<noteq> CHR ''+''" by auto
qed

lemma SetString_big_String [simp]: "SetString (big_String i) = Some i"
proof (cases "i < 0")
  case True
  then show ?thesis by (simp add: SetString_def big_String_def nat_of_digits_itoa)
next
  case False
  then obtain c t where "itoa (nat i) = c # t" using itoa_digits(2) [of "nat i"] by (cases "itoa (nat i)") auto
  then show ?thesis
    using False itoa_hd_not_sign [of "nat i"] all_digits_itoa [of "nat i"] nat_of_digits_itoa [of "nat i"]
    by (simp add: SetString_def big_String_def)
qed

lemma SetString_plus [simp]: "0 \<le> i \<Longrightarrow> SetString (CHR ''+'' # big_String i) = Some i"
  by (simp add: SetString_def big_String_def nat_of_digits_itoa)

lemma big_String_inj: "big_String i = big_String j \<Longrightarrow> i = j"
  using SetString_big_String by (metis option.inject)

end
