(* ===== verification/CanonicalNumber.thy ===== *)
theory CanonicalNumber
  imports Decimal
begin

text \<open>
  \<open>canonicalJSONNumber\<close> of \<open>src/kernel/json.go\<close> decides equality of numbers: two JSON number texts
  have one canonical text exactly when they denote the same rational number, however they spell
  it, and the canonical text denotes that number too.
\<close>

section \<open>The number a text denotes\<close>

definition unsigned_parts :: "string \<Rightarrow> string \<times> string \<times> int option" where
  "unsigned_parts raw =
    (let before = takeWhile (\<lambda>c. \<not> is_exp_mark c) raw;
         exp_text = dropWhile (\<lambda>c. \<not> is_exp_mark c) raw in
     (takeWhile (\<lambda>c. c \<noteq> CHR ''.'') before, tl (dropWhile (\<lambda>c. c \<noteq> CHR ''.'') before),
      if exp_text = [] then Some 0 else SetString (tl exp_text)))"

definition scaled :: "nat \<Rightarrow> int \<Rightarrow> rat" where
  "scaled m e = of_nat m * 10 powi e"

definition unsigned_value :: "string \<Rightarrow> rat" where
  "unsigned_value raw = (case unsigned_parts raw of (whole, fr, e) \<Rightarrow>
     scaled (nat_of_digits (whole @ fr)) (the e - int (length fr)))"

definition number_value :: "string \<Rightarrow> rat" where
  "number_value raw =
    (if hd raw = CHR ''-'' then - unsigned_value (tl raw) else unsigned_value raw)"

lemma scaled_shift: "scaled (m * 10 ^ k) e = scaled m (e + int k)"
  by (simp add: scaled_def power_int_add)

lemma scaled_zero [simp]: "scaled 0 e = 0"
  by (simp add: scaled_def)

lemma scaled_pos: "0 < m \<Longrightarrow> 0 < scaled m e"
  by (simp add: scaled_def)

lemma scaled_unique_le:
  assumes "scaled m e = scaled n f" "n mod 10 \<noteq> 0" "f \<le> e"
  shows "e = f \<and> m = n"
proof -
  obtain k where k: "e = f + int k" using assms(3) by (metis zle_iff_zadd)
  have "scaled (m * 10 ^ k) f = scaled n f" using assms(1) by (simp add: scaled_shift k)
  then have eq: "m * 10 ^ k = n" by (simp add: scaled_def flip: of_nat_mult of_nat_power)
  have "k = 0"
  proof (rule ccontr)
    assume "k \<noteq> 0"
    then have "10 dvd n" using eq by (metis dvd_mult dvd_power neq0_conv)
    then show False using assms(2) by (simp add: dvd_eq_mod_eq_0)
  qed
  then show ?thesis using k eq by simp
qed

lemma scaled_unique:
  assumes "scaled m e = scaled n f" "m mod 10 \<noteq> 0" "n mod 10 \<noteq> 0"
  shows "e = f \<and> m = n"
  using scaled_unique_le [OF assms(1,3)] scaled_unique_le [OF assms(1) [symmetric] assms(2)]
  by (cases "f \<le> e") auto

section \<open>Rendered numbers\<close>

lemma digits_not_mark: "list_all is_digit s \<Longrightarrow> c \<in> set s \<Longrightarrow> \<not> is_exp_mark c \<and> c \<noteq> CHR ''.'' \<and> c \<noteq> CHR ''-''"
  by (auto simp: list_all_iff is_exp_mark_def)

lemma parts_whole:
  assumes "list_all is_digit w" shows "unsigned_parts w = (w, [], Some 0)"
proof -
  have "takeWhile (\<lambda>c. \<not> is_exp_mark c) w = w" "takeWhile (\<lambda>c. c \<noteq> CHR ''.'') w = w"
    "dropWhile (\<lambda>c. \<not> is_exp_mark c) w = []" "dropWhile (\<lambda>c. c \<noteq> CHR ''.'') w = []"
    unfolding takeWhile_eq_all_conv dropWhile_eq_Nil_conv using digits_not_mark [OF assms] by blast+
  note p = this
  show ?thesis by (simp add: unsigned_parts_def p)
qed

lemma parts_fraction:
  assumes "list_all is_digit w" "list_all is_digit f"
  shows "unsigned_parts (w @ CHR ''.'' # f) = (w, f, Some 0)"
proof -
  have "\<forall>c \<in> set (w @ CHR ''.'' # f). \<not> is_exp_mark c"
    using digits_not_mark [OF assms(1)] digits_not_mark [OF assms(2)] by (auto simp: is_exp_mark_def)
  then have "takeWhile (\<lambda>c. \<not> is_exp_mark c) (w @ CHR ''.'' # f) = w @ CHR ''.'' # f"
    "dropWhile (\<lambda>c. \<not> is_exp_mark c) (w @ CHR ''.'' # f) = []"
    by (simp_all only: takeWhile_eq_all_conv dropWhile_eq_Nil_conv)
  then show ?thesis
    using digits_not_mark [OF assms(1)] by (simp add: unsigned_parts_def takeWhile_append2 dropWhile_append2)
qed

lemma parts_exponent:
  assumes "\<forall>c \<in> set b. \<not> is_exp_mark c" "unsigned_parts b = (w, f, Some 0)" and e: "is_exp_mark m"
  shows "unsigned_parts (b @ m # x) = (w, f, SetString x)"
proof -
  have p: "takeWhile (\<lambda>c. \<not> is_exp_mark c) b = b" "dropWhile (\<lambda>c. \<not> is_exp_mark c) b = []"
    using assms(1) by (simp_all add: takeWhile_eq_all_conv dropWhile_eq_Nil_conv)
  have "takeWhile (\<lambda>c. \<not> is_exp_mark c) (b @ m # x) = b"
    "dropWhile (\<lambda>c. \<not> is_exp_mark c) (b @ m # x) = m # x"
    using assms(1) e by (simp_all add: takeWhile_append2 dropWhile_append2)
  then show ?thesis using assms(2) by (simp add: unsigned_parts_def p)
qed

lemma take_drop_digits:
  "list_all is_digit s \<Longrightarrow> list_all is_digit (take n s) \<and> list_all is_digit (drop n s)"
  by (auto simp: list_all_iff dest: in_set_takeD in_set_dropD)

text \<open>The three shapes of a rendered number without its sign.\<close>

lemma render_value:
  assumes d: "list_all is_digit d" "d \<noteq> []"
  shows "unsigned_value (render_number [] d e) = scaled (nat_of_digits d) e"
proof -
  let ?s = "e + int (length d) - 1" and ?p = "int (length d) + e"
  consider (small) "- 6 \<le> ?s \<and> ?s < 21" "?p \<le> 0" | (whole) "- 6 \<le> ?s \<and> ?s < 21" "0 < ?p" "int (length d) \<le> ?p"
    | (mixed) "- 6 \<le> ?s \<and> ?s < 21" "0 < ?p" "?p < int (length d)" | (scientific) "\<not> (- 6 \<le> ?s \<and> ?s < 21)"
    by linarith
  then show ?thesis
  proof cases
    case small
    then have r: "render_number [] d e = ''0'' @ CHR ''.'' # (replicate (nat (- ?p)) CHR ''0'' @ d)"
      by (simp add: render_number_def Let_def)
    have "list_all is_digit (replicate (nat (- ?p)) CHR ''0'' @ d)" using d by (auto simp: list_all_iff)
    then have "unsigned_parts (render_number [] d e) = (''0'', replicate (nat (- ?p)) CHR ''0'' @ d, Some 0)"
      unfolding r by (intro parts_fraction) simp_all
    then show ?thesis using small by (simp add: unsigned_value_def decimal_simps)
  next
    case whole
    then have r: "render_number [] d e = d @ replicate (nat (?p - int (length d))) CHR ''0''"
      by (simp add: render_number_def Let_def)
    have "unsigned_parts (render_number [] d e) = (d @ replicate (nat (?p - int (length d))) CHR ''0'', [], Some 0)"
      unfolding r by (intro parts_whole) (use d in \<open>auto simp: list_all_iff\<close>)
    then show ?thesis using whole by (simp add: unsigned_value_def decimal_simps scaled_shift)
  next
    case mixed
    then have r: "render_number [] d e = take (nat ?p) d @ CHR ''.'' # drop (nat ?p) d"
      by (simp add: render_number_def Let_def)
    have "unsigned_parts (render_number [] d e) = (take (nat ?p) d, drop (nat ?p) d, Some 0)"
      unfolding r using take_drop_digits [OF d(1)] by (intro parts_fraction) simp_all
    then show ?thesis using mixed by (simp add: unsigned_value_def of_nat_diff)
  next
    case scientific
    let ?b = "take 1 d @ (if 1 < length d then ''.'' @ drop 1 d else [])"
    let ?x = "(if 0 \<le> ?s then ''+'' else []) @ big_String ?s"
    have r: "render_number [] d e = ?b @ CHR ''e'' # ?x"
      by (simp only: render_number_def Let_def if_not_P [OF scientific]) simp
    have b: "unsigned_parts ?b = (take 1 d, drop 1 d, Some 0)"
      using take_drop_digits [OF d(1), of 1] parts_fraction [of "take 1 d" "drop 1 d"]
        parts_whole [OF d(1)] by auto
    have "\<forall>c \<in> set ?b. \<not> is_exp_mark c"
      using digits_not_mark [of "take 1 d"] digits_not_mark [of "drop 1 d"] take_drop_digits [OF d(1), of 1]
      by (auto simp: is_exp_mark_def split: if_splits)
    then have "unsigned_parts (render_number [] d e) = (take 1 d, drop 1 d, SetString ?x)"
      unfolding r by (intro parts_exponent b) (simp_all add: is_exp_mark_def)
    moreover have "SetString ?x = Some ?s" by simp
    moreover have "1 \<le> length d" using d(2) by (cases d) simp_all
    ultimately show ?thesis by (simp add: unsigned_value_def of_nat_diff algebra_simps)
  qed
qed

lemma render_sign: "render_number sign d e = sign @ render_number [] d e"
  by (simp add: render_number_def Let_def)

section \<open>Number texts\<close>

text \<open>The JSON number grammar: an optional minus sign, digits without a leading zero, an optional
  fraction and an optional exponent.\<close>

definition number_text :: "string \<Rightarrow> bool" where
  "number_text raw =
    (if raw = [] then False
     else if hd raw = CHR ''-'' then valid_unsigned_number (tl raw) else valid_unsigned_number raw)"

definition exponent_text :: "string \<Rightarrow> bool" where
  "exponent_text x = (case x of [] \<Rightarrow> True | c # t \<Rightarrow> is_exp_mark c \<and> valid_exponent t)"

lemma tail_exponent: "valid_number_tail s = exponent_text s"
  by (simp add: valid_number_tail_def exponent_text_def is_exp_mark_def split: list.splits)

lemma takeWhile_digits: "list_all is_digit (takeWhile is_digit s)"
  by (auto simp: list_all_iff dest: set_takeWhileD)

lemma unsigned_grammar:
  assumes "valid_unsigned_number u"
  obtains w f x where "u = w @ (if f = [] then [] else CHR ''.'' # f) @ x"
    "list_all is_digit w" "w \<noteq> []" "list_all is_digit f" "exponent_text x"
    "hd w = CHR ''0'' \<longrightarrow> length w = 1"
proof -
  let ?w = "takeWhile is_digit u" and ?r = "dropWhile is_digit u"
  have w: "list_all is_digit ?w" "?w \<noteq> []" "hd ?w = CHR ''0'' \<longrightarrow> length ?w = 1"
    using assms takeWhile_digits by (auto simp: valid_unsigned_number_def Let_def)
  have u: "u = ?w @ ?r" by simp
  show thesis
  proof (cases "\<exists>t. ?r = CHR ''.'' # t")
    case True
    then obtain t where t: "?r = CHR ''.'' # t" by blast
    have "takeWhile is_digit t \<noteq> []" "exponent_text (dropWhile is_digit t)"
      using assms t by (simp_all add: valid_unsigned_number_def Let_def tail_exponent)
    moreover have "u = ?w @ (if takeWhile is_digit t = [] then [] else CHR ''.'' # takeWhile is_digit t) @ dropWhile is_digit t"
      using t u calculation(1) by simp
    ultimately show thesis using that w takeWhile_digits by blast
  next
    case False
    have "valid_number_tail ?r"
    proof (cases ?r)
      case Nil
      show ?thesis unfolding Nil valid_number_tail_def by simp
    next
      case (Cons c t)
      then show ?thesis using assms False by (simp add: valid_unsigned_number_def Let_def)
    qed
    then have "exponent_text ?r" by (simp only: tail_exponent)
    moreover have "u = ?w @ (if [] = ([] :: string) then [] else CHR ''.'' # []) @ ?r" by simp
    ultimately show thesis using that [of ?w "[]" ?r] w by simp
  qed
qed

lemma valid_exponent_SetString: "valid_exponent t \<Longrightarrow> \<exists>e. SetString t = Some e"
  by (auto simp: valid_exponent_def SetString_def split: list.splits if_splits)

lemma exponent_mark_cases: "is_exp_mark c \<Longrightarrow> c = CHR ''e'' \<or> c = CHR ''E''"
  by (simp add: is_exp_mark_def)

lemma parts_of_grammar:
  assumes "list_all is_digit w" "list_all is_digit f" "exponent_text x"
  shows "\<exists>e. unsigned_parts (w @ (if f = [] then [] else CHR ''.'' # f) @ x) = (w, f, Some e)"
proof -
  let ?b = "w @ (if f = [] then [] else CHR ''.'' # f)"
  have b: "unsigned_parts ?b = (w, f, Some 0)"
    using parts_whole [OF assms(1)] parts_fraction [OF assms(1,2)] by simp
  have m: "\<forall>c \<in> set ?b. \<not> is_exp_mark c"
    using digits_not_mark [OF assms(1)] digits_not_mark [OF assms(2)] by (auto simp: is_exp_mark_def split: if_splits)
  show ?thesis
  proof (cases x)
    case Nil
    then show ?thesis using b by auto
  next
    case (Cons c t)
    then have c: "is_exp_mark c" "valid_exponent t" using assms(3) by (simp_all add: exponent_text_def)
    have "unsigned_parts (?b @ c # t) = (w, f, SetString t)" using m b c(1) by (rule parts_exponent)
    then show ?thesis using valid_exponent_SetString [OF c(2)] Cons by auto
  qed
qed

lemma number_chars:
  assumes "list_all is_digit w" "list_all is_digit f" "exponent_text x"
    and "c \<in> set (w @ (if f = [] then [] else CHR ''.'' # f) @ x)"
  shows "is_digit c \<or> c \<in> {CHR ''.'', CHR ''e'', CHR ''E'', CHR ''+'', CHR ''-''}"
  using assms
  by (auto simp: list_all_iff exponent_text_def valid_exponent_def all_digits_def is_exp_mark_def
      split: if_splits list.splits)

section \<open>Canonical texts\<close>

definition trim_zeros :: "string \<Rightarrow> string" where
  "trim_zeros s = rev (dropWhile (\<lambda>c. c = CHR ''0'') (rev s))"

definition canonical_of :: "string \<Rightarrow> string \<Rightarrow> string \<Rightarrow> int \<Rightarrow> string" where
  "canonical_of sign w f e =
    (let digits = dropWhile (\<lambda>c. c = CHR ''0'') (w @ f) in
     if digits = [] then ''0''
     else render_number sign (trim_zeros digits)
       (e + int (length digits) - int (length (trim_zeros digits)) - int (length f)))"

lemma canonical_unfold:
  assumes "\<not> (raw = [] \<or> (hd raw \<noteq> CHR ''-'' \<and> \<not> is_digit (hd raw)) \<or> \<not> json_Valid_number raw)"
    and "unsigned_parts (if hd raw = CHR ''-'' then tl raw else raw) = (w, f, Some e)"
  shows "canonicalJSONNumber raw = Some (canonical_of (if hd raw = CHR ''-'' then ''-'' else []) w f e)"
proof -
  let ?u = "if hd raw = CHR ''-'' then tl raw else raw"
  have p: "takeWhile (\<lambda>c. c \<noteq> CHR ''.'') (takeWhile (\<lambda>c. \<not> is_exp_mark c) ?u) = w"
    "tl (dropWhile (\<lambda>c. c \<noteq> CHR ''.'') (takeWhile (\<lambda>c. \<not> is_exp_mark c) ?u)) = f"
    "(if dropWhile (\<lambda>c. \<not> is_exp_mark c) ?u = [] then Some 0
      else SetString (tl (dropWhile (\<lambda>c. \<not> is_exp_mark c) ?u))) = Some e"
    using assms(2) by (simp_all only: unsigned_parts_def Let_def prod.inject)
  show ?thesis
    unfolding canonicalJSONNumber_def if_not_P [OF assms(1)] canonical_of_def trim_zeros_def Let_def
    using p by (cases "hd raw = CHR ''-''") (simp_all only: if_True if_False prod.case option.case HOL.simp_thms,
      simp_all)
qed

lemma trim_zeros_split: "s = trim_zeros s @ replicate (length s - length (trim_zeros s)) CHR ''0''"
proof -
  let ?z = "takeWhile (\<lambda>c. c = CHR ''0'') (rev s)"
  have "?z = replicate (length ?z) CHR ''0''"
    by (rule replicate_eqI) (auto dest: set_takeWhileD)
  moreover have s: "s = trim_zeros s @ rev ?z"
    by (metis rev_append rev_rev_ident takeWhile_dropWhile_id trim_zeros_def)
  moreover have "length s = length (trim_zeros s) + length ?z"
    using arg_cong [OF s, of length] by simp
  ultimately show ?thesis by (metis add_diff_cancel_left' rev_replicate)
qed

lemma trim_zeros_significant:
  assumes "list_all is_digit s" "s \<noteq> []" "hd s \<noteq> CHR ''0''"
  shows "significant (trim_zeros s)"
proof -
  have ne: "trim_zeros s \<noteq> []"
  proof
    assume "trim_zeros s = []"
    then have "s = replicate (length s) CHR ''0''" using trim_zeros_split [of s] by simp
    then have "\<forall>c \<in> set s. c = CHR ''0''" by (metis in_set_replicate)
    then show False using assms(2,3) hd_in_set [OF assms(2)] by blast
  qed
  have h: "hd (trim_zeros s) = hd s" using trim_zeros_split [of s] ne by (metis hd_append2)
  have "list_all is_digit (trim_zeros s)" using trim_zeros_split [of s] assms(1) by (metis list_all_append)
  moreover have "hd (rev (trim_zeros s)) \<noteq> CHR ''0''"
    using hd_dropWhile [of "\<lambda>c. c = CHR ''0''" "rev s"] ne by (simp add: trim_zeros_def)
  ultimately show ?thesis using ne h assms(3) by (simp add: significant_def hd_rev last_conv_nth)
qed

lemma strip_zeros_Nil: "dropWhile (\<lambda>c. c = CHR ''0'') s = [] \<Longrightarrow> nat_of_digits s = 0"
  by (metis nat_of_digits_simps(1) nat_of_digits_strip)

lemma canonical_of_normal:
  assumes "list_all is_digit (w @ f)"
  obtains "canonical_of sign w f e = ''0''" "nat_of_digits (w @ f) = 0"
  | d x where "canonical_of sign w f e = render_number sign d x" "significant d"
      "scaled (nat_of_digits d) x = scaled (nat_of_digits (w @ f)) (e - int (length f))"
proof (cases "dropWhile (\<lambda>c. c = CHR ''0'') (w @ f) = []")
  case True
  then show thesis using that(1) strip_zeros_Nil by (simp add: canonical_of_def)
next
  case False
  let ?s = "dropWhile (\<lambda>c. c = CHR ''0'') (w @ f)"
  let ?t = "trim_zeros ?s" and ?n = "length ?s - length (trim_zeros ?s)"
  have s: "list_all is_digit ?s" "hd ?s \<noteq> CHR ''0''"
    using assms hd_dropWhile [OF False] by (auto simp: list_all_iff dest: set_dropWhileD)
  have split: "?s = ?t @ replicate ?n CHR ''0''" by (rule trim_zeros_split)
  have len: "int ?n = int (length ?s) - int (length ?t)"
    using arg_cong [OF split, of length] by simp
  have "nat_of_digits (w @ f) = nat_of_digits ?s" by (simp only: nat_of_digits_strip)
  also have "\<dots> = nat_of_digits ?t * 10 ^ ?n" by (subst split) (simp only: decimal_simps length_replicate add_0_right)
  finally have "scaled (nat_of_digits (w @ f)) (e - int (length f)) =
      scaled (nat_of_digits ?t) (e - int (length f) + int ?n)" by (simp only: scaled_shift)
  moreover have "e - int (length f) + int ?n = e + int (length ?s) - int (length ?t) - int (length f)"
    by (simp only: len)
  moreover have "canonical_of sign w f e =
      render_number sign ?t (e + int (length ?s) - int (length ?t) - int (length f))"
    using False by (simp only: canonical_of_def Let_def if_False)
  ultimately show thesis using that(2) trim_zeros_significant [OF s(1) False s(2)] by metis
qed

lemma number_text_parts:
  assumes "number_text raw"
  obtains sign w f e where "sign = [] \<or> sign = ''-''" "list_all is_digit (w @ f)"
    "canonicalJSONNumber raw = Some (canonical_of sign w f e)"
    "number_value raw = (if sign = [] then 1 else - 1) * scaled (nat_of_digits (w @ f)) (e - int (length f))"
proof -
  let ?u = "if hd raw = CHR ''-'' then tl raw else raw"
  have v: "valid_unsigned_number ?u" "raw \<noteq> []" using assms by (auto simp: number_text_def split: if_splits)
  obtain w f x where g: "?u = w @ (if f = [] then [] else CHR ''.'' # f) @ x" "list_all is_digit w"
    "w \<noteq> []" "list_all is_digit f" "exponent_text x" using unsigned_grammar [OF v(1)] by metis
  obtain e where e: "unsigned_parts ?u = (w, f, Some e)" using parts_of_grammar [OF g(2,4,5)] g(1) by metis
  have hd_u: "hd raw \<noteq> CHR ''-'' \<Longrightarrow> is_digit (hd raw)" using g(1-3) by (cases w) (auto simp: list_all_iff)
  have "\<not> json_space c" if "c \<in> set raw" for c
  proof -
    have "c = CHR ''-'' \<or> c \<in> set ?u" using that v(2) by (cases raw) auto
    then show ?thesis using number_chars [OF g(2,4,5)] g(1) by (auto simp: json_space_def is_digit_def)
  qed
  then have "dropWhile json_space (rev raw) = rev raw" by (metis dropWhile_eq_self_iff hd_in_set set_rev)
  then have "json_Valid_number raw"
    using assms by (cases raw) (simp_all add: json_Valid_number_def strip_json_space_def number_text_def split: if_splits)
  then have "canonicalJSONNumber raw = Some (canonical_of (if hd raw = CHR ''-'' then ''-'' else []) w f e)"
    by (intro canonical_unfold) (use v(2) hd_u e in auto)
  moreover have "number_value raw = (if (if hd raw = CHR ''-'' then ''-'' else []) = [] then 1 else - 1) *
      scaled (nat_of_digits (w @ f)) (e - int (length f))"
    using e by (simp add: number_value_def unsigned_value_def split: if_splits)
  moreover have "list_all is_digit (w @ f)" using g(2,4) by simp
  ultimately show thesis using that [of "if hd raw = CHR ''-'' then ''-'' else []"] by simp
qed

lemma render_head: "list_all is_digit d \<Longrightarrow> d \<noteq> [] \<Longrightarrow> hd (render_number [] d x) \<noteq> CHR ''-''"
  by (cases d) (auto simp: render_number_def Let_def take_Cons')

lemma render_number_value:
  assumes "significant d" "sign = [] \<or> sign = ''-''"
  shows "number_value (render_number sign d x) = (if sign = [] then 1 else - 1) * scaled (nat_of_digits d) x"
proof -
  have d: "list_all is_digit d" "d \<noteq> []" using assms(1) by (simp_all add: significant_def)
  show ?thesis
    using assms(2) render_value [OF d] render_head [OF d] render_sign [of "''-''" d x]
    by (auto simp: number_value_def)
qed

lemma canonical_keeps_value:
  assumes "number_text raw" "canonicalJSONNumber raw = Some c"
  shows "number_value c = number_value raw"
proof -
  obtain sign w f e where n: "sign = [] \<or> sign = ''-''" "list_all is_digit (w @ f)"
    "canonicalJSONNumber raw = Some (canonical_of sign w f e)"
    "number_value raw = (if sign = [] then 1 else - 1) * scaled (nat_of_digits (w @ f)) (e - int (length f))"
    using number_text_parts [OF assms(1)] by blast
  show ?thesis using n(2)
  proof (cases rule: canonical_of_normal [where sign = sign and e = e])
    case 1
    have "number_value ''0'' = 0"
      by (simp add: number_value_def unsigned_value_def parts_whole decimal_simps)
    then show ?thesis using 1 n(3,4) assms(2) by simp
  next
    case (2 d x)
    then show ?thesis using n assms(2) render_number_value [OF 2(2) n(1)] by simp
  qed
qed

lemma same_value_same_canonical:
  assumes "number_text a" "number_text b" "number_value a = number_value b"
  shows "canonicalJSONNumber a = canonicalJSONNumber b"
proof -
  obtain sa w f e where a: "sa = [] \<or> sa = ''-''" "list_all is_digit (w @ f)"
    "canonicalJSONNumber a = Some (canonical_of sa w f e)"
    "number_value a = (if sa = [] then 1 else - 1) * scaled (nat_of_digits (w @ f)) (e - int (length f))"
    using number_text_parts [OF assms(1)] by blast
  obtain sb w' f' e' where b: "sb = [] \<or> sb = ''-''" "list_all is_digit (w' @ f')"
    "canonicalJSONNumber b = Some (canonical_of sb w' f' e')"
    "number_value b = (if sb = [] then 1 else - 1) * scaled (nat_of_digits (w' @ f')) (e' - int (length f'))"
    using number_text_parts [OF assms(2)] by blast
  have pos: "significant d \<Longrightarrow> 0 < scaled (nat_of_digits d) x" for d x
    using significant_mod [of d] scaled_pos [of "nat_of_digits d" x] by (cases "nat_of_digits d") auto
  show ?thesis using a(2)
  proof (cases rule: canonical_of_normal [where sign = sa and e = e])
    case zero: 1
    then have "number_value b = 0" using a(4) assms(3) by simp
    show ?thesis using b(2)
    proof (cases rule: canonical_of_normal [where sign = sb and e = e'])
      case 1
      then show ?thesis using zero a(3) b(3) by simp
    next
      case (2 d x)
      then show ?thesis using pos [OF 2(2), of x] b(4) \<open>number_value b = 0\<close> by (auto split: if_splits)
    qed
  next
    case pa: (2 d x)
    show ?thesis using b(2)
    proof (cases rule: canonical_of_normal [where sign = sb and e = e'])
      case 1
      then show ?thesis using pos [OF pa(2), of x] pa(3) a(4) b(4) assms(3) by (auto split: if_splits)
    next
      case pb: (2 d' x')
      have "sa = sb \<and> scaled (nat_of_digits d) x = scaled (nat_of_digits d') x'"
        using pos [OF pa(2), of x] pos [OF pb(2), of x'] pa(3) pb(3) a(1,4) b(1,4) assms(3)
        by (auto split: if_splits)
      moreover from this have "x = x' \<and> nat_of_digits d = nat_of_digits d'"
        using scaled_unique significant_mod pa(2) pb(2) by blast
      moreover from this have "d = d'"
        using same_number_same_length pa(2) pb(2) unfolding significant_def by blast
      ultimately show ?thesis using a(3) b(3) pa(1) pb(1) by simp
    qed
  qed
qed

section \<open>Properties\<close>

text \<open>Canonical numbers are exact: two JSON number texts get one canonical text exactly when they
  denote the same rational number, so \<open>1e2\<close>, \<open>100\<close> and \<open>100.0\<close> are one number for every digest and
  numbers that differ in any digit, however long or small, are not merged.  Every number text is
  accepted and its canonical text denotes the same number.\<close>

theorem canonical_number_is_exact:
  assumes "number_text a" "number_text b"
  shows "(canonicalJSONNumber a = canonicalJSONNumber b \<longleftrightarrow> number_value a = number_value b) \<and>
    (\<exists>c. canonicalJSONNumber a = Some c \<and> number_value c = number_value a)"
proof -
  obtain c where c: "canonicalJSONNumber a = Some c" using number_text_parts [OF assms(1)] by blast
  show ?thesis
    using c canonical_keeps_value [OF assms(1)] canonical_keeps_value [OF assms(2)]
      same_value_same_canonical [OF assms] by metis
qed

theorem canonical_number_is_exact_witness:
  "(canonicalJSONNumber ''1.50e2'' = canonicalJSONNumber ''150'' \<longleftrightarrow>
      number_value ''1.50e2'' = number_value ''150'') \<and>
    (\<exists>c. canonicalJSONNumber ''1.50e2'' = Some c \<and> number_value c = number_value ''1.50e2'')"
  by (rule canonical_number_is_exact)
    (simp_all add: number_text_def valid_unsigned_number_def valid_number_tail_def valid_exponent_def
      all_digits_def is_digit_def Let_def)

end
