(* ===== verification/JsonText.thy ===== *)
theory JsonText
  imports CanonicalNumber Go_Glob
begin

text \<open>
  \<open>encoding/json\<close>'s string literals and \<open>stableStringify\<close> of \<open>src/kernel/digest.go\<close>: the canonical text of
  a value, over which \<open>CanonicalDigest\<close> takes its SHA-256.  A value is a \<open>json\<close>: a number carries
  the text \<open>json.Marshal\<close> prints for it (or the text of a \<open>json.Number\<close>), an object is a Go map, and a
  struct is the object of its exported fields under their JSON names.
\<close>

section \<open>String literals\<close>

definition hex_digit :: "nat \<Rightarrow> char" where
  "hex_digit n = (if n < 10 then char_of (48 + n) else char_of (87 + n))"

definition html_safe :: "char \<Rightarrow> bool" where
  "html_safe c = (0x20 \<le> byte_val c \<and> byte_val c < 0x80 \<and>
     c \<notin> {CHR 0x22, CHR 0x5C, CHR ''<'', CHR ''>'', CHR ''&''})"

definition escape_ascii :: "char \<Rightarrow> string" where
  "escape_ascii c =
    (if html_safe c then [c]
     else if c = CHR 0x5C \<or> c = CHR 0x22 then [CHR 0x5C, c]
     else if c = CHR 0x08 then [CHR 0x5C, CHR ''b'']
     else if c = CHR 0x0C then [CHR 0x5C, CHR ''f'']
     else if c = CHR 0x0A then [CHR 0x5C, CHR ''n'']
     else if c = CHR 0x0D then [CHR 0x5C, CHR ''r'']
     else if c = CHR 0x09 then [CHR 0x5C, CHR ''t'']
     else CHR 0x5C # ''u00'' @ [hex_digit (byte_val c div 16), hex_digit (byte_val c mod 16)])"

function quote_loop :: "string \<Rightarrow> string" where
  "quote_loop [] = []"
| "quote_loop (c # rest) =
    (if byte_val c < 0x80 then escape_ascii c @ quote_loop rest
     else (let r = fst (DecodeRune (c # rest)); n = snd (DecodeRune (c # rest)) in
       if r = RuneError \<and> n = 1 then CHR 0x5C # ''ufffd'' @ quote_loop rest
       else (if r = 0x2028 then CHR 0x5C # ''u2028''
             else if r = 0x2029 then CHR 0x5C # ''u2029'' else take n (c # rest)) @
            quote_loop (drop n (c # rest))))"
  by pat_completeness auto

termination
proof (relation "measure length", goal_cases)
  case (4 c rest r n)
  then show ?case using DecodeRune_size [of "c # rest"] by (cases n) simp_all
qed simp_all

definition json_quote :: "string \<Rightarrow> string" where
  "json_quote s = CHR 0x22 # quote_loop s @ [CHR 0x22]"

text \<open>Valid UTF-8, the texts that a literal keeps.\<close>

function valid_utf8 :: "string \<Rightarrow> bool" where
  "valid_utf8 [] = True"
| "valid_utf8 (c # rest) =
    (if byte_val c < 0x80 then valid_utf8 rest
     else DecodeRune (c # rest) \<noteq> (RuneError, 1) \<and> valid_utf8 (drop (snd (DecodeRune (c # rest))) (c # rest)))"
  by pat_completeness auto

termination
proof (relation "measure length", goal_cases)
  case (3 c rest)
  then show ?case using DecodeRune_size [of "c # rest"] by (cases "snd (DecodeRune (c # rest))") simp_all
qed simp_all

section \<open>Reading a literal back\<close>

definition hex_val :: "char \<Rightarrow> nat" where
  "hex_val c = (if of_char c < (58 :: nat) then of_char c - 48 else of_char c - 87)"

definition unescape :: "char \<Rightarrow> char" where
  "unescape c = (if c = CHR ''b'' then CHR 0x08 else if c = CHR ''f'' then CHR 0x0C
     else if c = CHR ''n'' then CHR 0x0A else if c = CHR ''r'' then CHR 0x0D
     else if c = CHR ''t'' then CHR 0x09 else c)"

definition unicode_bytes :: "string \<Rightarrow> string" where
  "unicode_bytes h =
    (if h = ''2028'' then [CHR 0xE2, CHR 0x80, CHR 0xA8]
     else if h = ''2029'' then [CHR 0xE2, CHR 0x80, CHR 0xA9]
     else [char_of (16 * hex_val (h ! 2) + hex_val (h ! 3))])"

definition prepend :: "string \<Rightarrow> (string \<times> string) option \<Rightarrow> (string \<times> string) option" where
  "prepend s x = (case x of None \<Rightarrow> None | Some (t, rest) \<Rightarrow> Some (s @ t, rest))"

fun unquote :: "string \<Rightarrow> (string \<times> string) option" where
  "unquote [] = None"
| "unquote (c # rest) =
    (if c = CHR 0x22 then Some ([], rest)
     else if c \<noteq> CHR 0x5C then prepend [c] (unquote rest)
     else (case rest of
       [] \<Rightarrow> None
     | d # rest1 \<Rightarrow>
         if d \<noteq> CHR ''u'' then prepend [unescape d] (unquote rest1)
         else (case rest1 of
           h1 # h2 # h3 # h4 # rest2 \<Rightarrow> prepend (unicode_bytes [h1, h2, h3, h4]) (unquote rest2)
         | _ \<Rightarrow> None)))"

lemma prepend_Some [simp]: "prepend s (Some (t, rest)) = Some (s @ t, rest)"
  by (simp add: prepend_def)

lemma byte_val_eq: "byte_val c = n \<Longrightarrow> c = char_of n"
  by (auto simp: byte_val_def)

lemma byte_val_less: "byte_val c < 256"
  by (simp add: byte_val_def)

lemma hex_digit_val: "n < 16 \<Longrightarrow> hex_val (hex_digit n) = n"
  by (auto simp: hex_val_def hex_digit_def)

lemma unquote_plain:
  "c \<noteq> CHR 0x22 \<Longrightarrow> c \<noteq> CHR 0x5C \<Longrightarrow> unquote (c # s) = prepend [c] (unquote s)"
  by simp

lemma unquote_escape:
  "d \<noteq> CHR ''u'' \<Longrightarrow> unquote (CHR 0x5C # d # s) = prepend [unescape d] (unquote s)"
  by simp

lemma unquote_unicode:
  "unquote (CHR 0x5C # CHR ''u'' # h1 # h2 # h3 # h4 # s) = prepend (unicode_bytes [h1, h2, h3, h4]) (unquote s)"
  by simp

declare unquote.simps(2) [simp del]

lemma unquote_ascii:
  assumes "byte_val c < 0x80"
  shows "unquote (escape_ascii c @ s) = prepend [c] (unquote s)"
proof -
  have h: "hex_digit (byte_val c div 16) = a \<Longrightarrow> hex_val a = byte_val c div 16"
    "hex_digit (byte_val c mod 16) = a \<Longrightarrow> hex_val a = byte_val c mod 16" for a
    using assms by (auto simp: hex_digit_val)
  have u: "unicode_bytes [CHR ''0'', CHR ''0'', hex_digit (byte_val c div 16), hex_digit (byte_val c mod 16)] = [c]"
    using assms by (simp add: unicode_bytes_def hex_digit_val byte_val_def)
  show ?thesis
    by (auto simp: escape_ascii_def html_safe_def unquote_plain unquote_escape unquote_unicode unescape_def u)
qed

lemma unquote_high:
  "\<forall>c \<in> set xs. 0x80 \<le> byte_val c \<Longrightarrow> unquote (xs @ s) = prepend xs (unquote s)"
proof (induction xs)
  case Nil
  then show ?case by (simp add: prepend_def split: option.splits)
next
  case (Cons c xs)
  then have "c \<noteq> CHR 0x22" "c \<noteq> CHR 0x5C" by (auto simp: byte_val_def)
  then show ?case using Cons by (simp add: unquote_plain prepend_def split: option.splits)
qed

lemma DecodeRune_bytes:
  assumes "DecodeRune (c # rest) = (r, n)" "0x80 \<le> byte_val c" "(r, n) \<noteq> (RuneError, 1)"
  obtains lo hi where "rune_class (byte_val c) = Some (n, lo, hi)" "n \<le> length (c # rest)"
    "in_range lo hi ((c # rest) ! 1)" "list_all (in_range 0x80 0xBF) (take (n - 2) (drop 2 (c # rest)))"
    "r = foldl (\<lambda>r d. r * 64 + (byte_val d - 0x80))
       (byte_val c mod (if n = 2 then 32 else if n = 3 then 16 else 8)) (take (n - 1) rest)"
  using assms by (auto simp: DecodeRune_def Let_def split: option.splits if_splits)

lemma rune_class_bounds:
  "rune_class b = Some (n, lo, hi) \<Longrightarrow> n \<in> {2, 3, 4} \<and> 0x80 \<le> lo"
  by (auto simp: rune_class_def split: if_splits)

lemma rune_bytes_high:
  assumes "DecodeRune (c # rest) = (r, n)" "0x80 \<le> byte_val c" "(r, n) \<noteq> (RuneError, 1)"
  shows "\<forall>d \<in> set (take n (c # rest)). 0x80 \<le> byte_val d"
proof -
  obtain lo hi where r: "rune_class (byte_val c) = Some (n, lo, hi)" "n \<le> length (c # rest)"
    "in_range lo hi ((c # rest) ! 1)" "list_all (in_range 0x80 0xBF) (take (n - 2) (drop 2 (c # rest)))"
    using DecodeRune_bytes [OF assms] by metis
  have n: "n \<in> {2, 3, 4}" "0x80 \<le> lo" using rune_class_bounds [OF r(1)] by auto
  obtain d rest' where rest: "rest = d # rest'" using n r(2) by (cases rest) auto
  have "take n (c # rest) = c # d # take (n - 2) rest'"
    using n(1) by (auto simp: rest take_Cons' numeral_eq_Suc)
  then show ?thesis using assms(2) r(3,4) n(2) by (auto simp: rest in_range_def list_all_iff)
qed

lemma two_byte_bound: "b < 32 \<Longrightarrow> d < 64 \<Longrightarrow> b * 64 + d < (0x2000 :: nat)"
  using mult_le_mono1 [of b 31 64] by simp

lemma four_byte_bound: "16 \<le> m \<Longrightarrow> k < 64 \<Longrightarrow> 0x2000 + k < (m * 64 + d) * 64 + (e :: nat)"
  using mult_le_mono1 [of 16 m "64 * 64"] by (simp add: add_mult_distrib)

lemma three_byte_digits:
  assumes "(b * 64 + d) * 64 + e = 0x2000 + (k :: nat)" "d < 64" "e < 64" "k < 64"
  shows "b = 2 \<and> d = 0 \<and> e = k"
proof -
  have "4096 * b + 64 * d + e = 8192 + k" using assms(1) by (simp add: algebra_simps)
  moreover have "64 * d \<le> 64 * 63" using assms(2) by simp
  ultimately have "4096 * b \<le> 8192 + k" "8192 \<le> 4096 * b + 64 * 63 + 63" using assms(3) by auto
  then have "4096 * b < 4096 * 3" "4096 * 1 < 4096 * b" using assms(4) by auto
  then have "b < 3" "1 < b" by (simp_all only: mult_less_cancel1)
  then have b: "b = 2" by simp
  then have "d * 64 + e = k" using assms(1) by simp
  then show ?thesis using b assms(4) by (cases d) auto
qed

lemma three_byte_rune:
  assumes "0xE0 \<le> (b :: nat)" "b \<le> 0xEF" "0x80 \<le> d" "d \<le> 0xBF" "0x80 \<le> e" "e \<le> (0xBF :: nat)"
    and "((b mod 16) * 64 + (d - 0x80)) * 64 + (e - 0x80) = 0x2000 + k" "k < 64"
  shows "b = 0xE2 \<and> d = 0x80 \<and> e = 0x80 + k"
proof -
  have "d - 0x80 < 64" "e - 0x80 < 64" using assms(4,6) by simp_all
  then have "b mod 16 = 2" "d - 0x80 = 0" "e - 0x80 = k" using three_byte_digits [OF assms(7)] assms(8) by simp_all
  moreover have "b mod 16 = b - 224" using assms(1,2) mod_mult_self2 [of "b - 224" 16 14] by simp
  ultimately show ?thesis using assms(1,3,5) by (simp only: le_add_diff_inverse) linarith
qed

lemma separator_chars: "char_of (0xA8 :: nat) = CHR 0xA8" "char_of (0xA9 :: nat) = CHR 0xA9"
  "char_of (0xE2 :: nat) = CHR 0xE2" "char_of (0x80 :: nat) = CHR 0x80"
  by (simp_all add: of_char_eq_iff [where 'a = nat, symmetric] del: of_char_eq_iff)

lemma separator_bytes:
  assumes "DecodeRune (c # rest) = (0x2000 + k, n)" "0x80 \<le> byte_val c" "k < 64"
  shows "take n (c # rest) = [CHR 0xE2, CHR 0x80, char_of (0x80 + k)]"
proof -
  have "(0x2000 + k, n) \<noteq> (RuneError, 1)" using assms(3) by (simp add: RuneError_def)
  then obtain lo hi where r: "rune_class (byte_val c) = Some (n, lo, hi)" "n \<le> length (c # rest)"
    "in_range lo hi ((c # rest) ! 1)" "list_all (in_range 0x80 0xBF) (take (n - 2) (drop 2 (c # rest)))"
    "0x2000 + k = foldl (\<lambda>r d. r * 64 + (byte_val d - 0x80))
       (byte_val c mod (if n = 2 then 32 else if n = 3 then 16 else 8)) (take (n - 1) rest)"
    using DecodeRune_bytes [OF assms(1,2)] by metis
  have n: "n \<in> {2, 3, 4}" "0x80 \<le> lo" using rune_class_bounds [OF r(1)] by auto
  obtain d rest' where rest: "rest = d # rest'" using n r(2) by (cases rest) auto
  have d: "lo \<le> byte_val d" "byte_val d \<le> hi" using r(3) by (simp_all add: rest in_range_def)
  have hi: "hi \<le> 0xBF" using r(1) by (auto simp: rune_class_def split: if_splits)
  consider "n = 2" | "n = 3" | "n = 4" using n by blast
  then show ?thesis
  proof cases
    case 1
    then have "0x2000 + k = (byte_val c mod 32) * 64 + (byte_val d - 0x80)" using r(5) by (simp add: rest)
    moreover have "byte_val c mod 32 < 32" "byte_val d - 0x80 < 64" using d hi by simp_all
    ultimately show ?thesis using two_byte_bound by (metis not_add_less1)
  next
    case 2
    then obtain e rest'' where rest': "rest' = e # rest''" using r(2) by (cases rest') (auto simp: rest)
    have c: "0xE0 \<le> byte_val c" "byte_val c \<le> 0xEF"
      using r(1) 2 by (auto simp: rune_class_def split: if_splits)
    have e: "0x80 \<le> byte_val e" "byte_val e \<le> 0xBF" using r(4) 2 by (simp_all add: rest rest' in_range_def)
    have "((byte_val c mod 16) * 64 + (byte_val d - 0x80)) * 64 + (byte_val e - 0x80) = 0x2000 + k"
      using r(5) 2 by (simp add: rest rest')
    then have "byte_val c = 0xE2 \<and> byte_val d = 0x80 \<and> byte_val e = 0x80 + k"
      using three_byte_rune c d hi n(2) e assms(3) by (meson le_trans)
    then have "c = char_of (0xE2 :: nat) \<and> d = char_of (0x80 :: nat) \<and> e = char_of (0x80 + k)"
      using byte_val_eq by blast
    then show ?thesis using 2 by (simp add: rest rest' separator_chars)
  next
    case 3
    then obtain e g rest'' where rest': "rest' = e # g # rest''"
      using r(2) by (cases rest'; cases "tl rest'") (auto simp: rest)
    have eq: "0x2000 + k = (((byte_val c mod 8) * 64 + (byte_val d - 0x80)) * 64 + (byte_val e - 0x80)) * 64
        + (byte_val g - 0x80)"
      using r(5) 3 by (simp add: rest rest')
    have "(byte_val c = 0xF0 \<and> lo = 0x90) \<or> (0xF1 \<le> byte_val c \<and> byte_val c \<le> 0xF4)"
      using r(1) 3 by (auto simp: rune_class_def split: if_splits)
    then have "16 \<le> (byte_val c mod 8) * 64 + (byte_val d - 0x80)"
    proof (elim disjE)
      assume "byte_val c = 0xF0 \<and> lo = 0x90"
      then show ?thesis using d by linarith
    next
      assume "0xF1 \<le> byte_val c \<and> byte_val c \<le> 0xF4"
      then have "byte_val c mod 8 = byte_val c - 0xF0" "1 \<le> byte_val c - 0xF0" by presburger+
      then show ?thesis by linarith
    qed
    then show ?thesis using four_byte_bound [OF _ assms(3)] eq by (metis less_irrefl)
  qed
qed

declare quote_loop.simps(2) [simp del] valid_utf8.simps(2) [simp del]

lemma unquote_quote: "valid_utf8 s \<Longrightarrow> unquote (quote_loop s @ CHR 0x22 # rest0) = Some (s, rest0)"
proof (induction s rule: quote_loop.induct)
  case 1
  then show ?case by (simp add: unquote.simps(2))
next
  case (2 c rest)
  show ?case
  proof (cases "byte_val c < 0x80")
    case True
    then show ?thesis using 2(1,4) by (simp add: quote_loop.simps(2) valid_utf8.simps(2) unquote_ascii)
  next
    case False
    obtain r n where d: "DecodeRune (c # rest) = (r, n)" by fastforce
    have ok: "(r, n) \<noteq> (RuneError, 1)" using 2(4) False d by (simp add: valid_utf8.simps(2))
    have "valid_utf8 (drop n (c # rest))" using 2(4) False d by (simp add: valid_utf8.simps(2))
    then have IH: "unquote (quote_loop (drop n (c # rest)) @ CHR 0x22 # rest0) = Some (drop n (c # rest), rest0)"
      using 2(3) [OF False refl refl] ok unfolding d by simp
    have split: "c # rest = take n (c # rest) @ drop n (c # rest)" by simp
    have high: "0x80 \<le> byte_val c" using False by simp
    consider "r = 0x2028" | "r = 0x2029" | "r \<noteq> 0x2028" "r \<noteq> 0x2029" by blast
    then show ?thesis
    proof cases
      case 1
      then have "take n (c # rest) = [CHR 0xE2, CHR 0x80, CHR 0xA8]"
        using separator_bytes [where k = "0x28", OF _ high] d by (simp add: separator_chars)
      moreover have "quote_loop (c # rest) = CHR 0x5C # ''u2028'' @ quote_loop (drop n (c # rest))"
        using False d ok 1 by (simp add: quote_loop.simps(2) Let_def RuneError_def)
      moreover from this have "unquote (quote_loop (c # rest) @ CHR 0x22 # rest0) =
          Some ([CHR 0xE2, CHR 0x80, CHR 0xA8] @ drop n (c # rest), rest0)"
        using IH by (simp add: unquote_unicode unicode_bytes_def)
      ultimately show ?thesis using split by metis
    next
      case 2
      then have "take n (c # rest) = [CHR 0xE2, CHR 0x80, CHR 0xA9]"
        using separator_bytes [where k = "0x29", OF _ high] d by (simp add: separator_chars)
      moreover have "quote_loop (c # rest) = CHR 0x5C # ''u2029'' @ quote_loop (drop n (c # rest))"
        using False d ok 2 by (simp add: quote_loop.simps(2) Let_def RuneError_def)
      moreover from this have "unquote (quote_loop (c # rest) @ CHR 0x22 # rest0) =
          Some ([CHR 0xE2, CHR 0x80, CHR 0xA9] @ drop n (c # rest), rest0)"
        using IH by (simp add: unquote_unicode unicode_bytes_def)
      ultimately show ?thesis using split by metis
    next
      case 3
      have "quote_loop (c # rest) = take n (c # rest) @ quote_loop (drop n (c # rest))"
        using False d ok 3 by (auto simp: quote_loop.simps(2) Let_def)
      then show ?thesis
        using unquote_high [OF rune_bytes_high [OF d high ok]] IH split by simp
    qed
  qed
qed

lemma json_quote_inj:
  assumes "valid_utf8 s" "valid_utf8 t" "json_quote s @ r = json_quote t @ r'"
  shows "s = t \<and> r = r'"
proof -
  have "quote_loop s @ CHR 0x22 # r = quote_loop t @ CHR 0x22 # r'" using assms(3) by (simp add: json_quote_def)
  then show ?thesis
    using unquote_quote [OF assms(1), of r] unquote_quote [OF assms(2), of r'] by (metis option.inject prod.inject)
qed

end
