(* ===== verification/Digest.thy ===== *)
theory Digest
  imports JsonText
begin

text \<open>
  \<open>stableStringify\<close> and \<open>CanonicalDigest\<close> of \<open>src/kernel/digest.go\<close>: the text over which every digest of
  the program is taken, and the proof that it identifies values up to the order of object keys and
  the spelling of numbers.
\<close>

section \<open>Values and their canonical text\<close>

datatype json =
    JNull
  | JBool bool
  | JNumber string
  | JString string
  | JArray "json list"
  | JObject "(string \<times> json) list"

fun stableStringify :: "json \<Rightarrow> string"
  and stable_items :: "json list \<Rightarrow> string list"
  and stable_members :: "(string \<times> json) list \<Rightarrow> (string \<times> string) list" where
  "stableStringify JNull = ''null''"
| "stableStringify (JBool b) = (if b then ''true'' else ''false'')"
| "stableStringify (JNumber t) = (case canonicalJSONNumber t of Some canonical \<Rightarrow> canonical | None \<Rightarrow> t)"
| "stableStringify (JString s) = json_quote s"
| "stableStringify (JArray items) = ''['' @ Join '','' (stable_items items) @ '']''"
| "stableStringify (JObject m) =
    (let texts = stable_members m; keys = sort (map fst m) in
     ''{'' @ Join '','' (map (\<lambda>k. json_quote k @ '':'' @ (case map_of texts k of Some t \<Rightarrow> t | None \<Rightarrow> [])) keys) @ ''}'')"
| "stable_items [] = []"
| "stable_items (x # xs) = stableStringify x # stable_items xs"
| "stable_members [] = []"
| "stable_members ((k, v) # m) = (k, stableStringify v) # stable_members m"

definition CanonicalDigest :: "(string \<Rightarrow> string) \<Rightarrow> json \<Rightarrow> string" where
  "CanonicalDigest sha value = sha (stableStringify value)"

text \<open>What the text keeps of a value: numbers by their canonical text, objects by key.\<close>

fun canonical_form :: "json \<Rightarrow> json"
  and canonical_items :: "json list \<Rightarrow> json list"
  and canonical_members :: "(string \<times> json) list \<Rightarrow> (string \<times> json) list" where
  "canonical_form JNull = JNull"
| "canonical_form (JBool b) = JBool b"
| "canonical_form (JNumber t) = JNumber (case canonicalJSONNumber t of Some canonical \<Rightarrow> canonical | None \<Rightarrow> t)"
| "canonical_form (JString s) = JString s"
| "canonical_form (JArray items) = JArray (canonical_items items)"
| "canonical_form (JObject m) =
    JObject (map (\<lambda>k. (k, case map_of (canonical_members m) k of Some v \<Rightarrow> v | None \<Rightarrow> JNull)) (sort (map fst m)))"
| "canonical_items [] = []"
| "canonical_items (x # xs) = canonical_form x # canonical_items xs"
| "canonical_members [] = []"
| "canonical_members ((k, v) # m) = (k, canonical_form v) # canonical_members m"

text \<open>The values a Go program holds: a map has each key once, strings are UTF-8, and the text of a
  number is a JSON number.\<close>

fun json_ok :: "json \<Rightarrow> bool"
  and items_ok :: "json list \<Rightarrow> bool"
  and members_ok :: "(string \<times> json) list \<Rightarrow> bool" where
  "json_ok JNull = True"
| "json_ok (JBool b) = True"
| "json_ok (JNumber t) = number_text t"
| "json_ok (JString s) = valid_utf8 s"
| "json_ok (JArray items) = items_ok items"
| "json_ok (JObject m) = (distinct (map fst m) \<and> members_ok m)"
| "items_ok [] = True"
| "items_ok (x # xs) = (json_ok x \<and> items_ok xs)"
| "members_ok [] = True"
| "members_ok ((k, v) # m) = (valid_utf8 k \<and> json_ok v \<and> members_ok m)"

lemma items_maps [simp]:
  "stable_items xs = map stableStringify xs" "canonical_items xs = map canonical_form xs"
  "items_ok xs \<longleftrightarrow> list_all json_ok xs"
  by (induction xs) auto

lemma members_maps [simp]:
  "stable_members m = map (\<lambda>(k, v). (k, stableStringify v)) m"
  "canonical_members m = map (\<lambda>(k, v). (k, canonical_form v)) m"
  "members_ok m \<longleftrightarrow> list_all (\<lambda>(k, v). valid_utf8 k \<and> json_ok v) m"
  by (induction m) auto

text \<open>The members of an object in the order they are printed.\<close>

definition sorted_members :: "(string \<times> json) list \<Rightarrow> (string \<times> json) list" where
  "sorted_members m = map (\<lambda>k. (k, the (map_of m k))) (sort (map fst m))"

definition member_text :: "string \<times> json \<Rightarrow> string" where
  "member_text p = json_quote (fst p) @ '':'' @ stableStringify (snd p)"

lemma map_of_mapped: "map_of (map (\<lambda>(k, v). (k, f v)) m) k = map_option f (map_of m k)"
  by (induction m) auto

lemma key_bound: "k \<in> set (sort (map fst m)) \<Longrightarrow> \<exists>v. map_of m k = Some v"
  using map_of_eq_None_iff [of m k] by (cases "map_of m k") auto

lemma stable_object:
  "stableStringify (JObject m) = ''{'' @ Join '','' (map member_text (sorted_members m)) @ ''}''"
proof -
  have "map (\<lambda>k. json_quote k @ '':'' @ (case map_of (stable_members m) k of Some t \<Rightarrow> t | None \<Rightarrow> [])) (sort (map fst m))
      = map member_text (sorted_members m)"
    unfolding sorted_members_def map_map
  proof (rule map_cong [OF refl])
    fix k
    assume "k \<in> set (sort (map fst m))"
    then obtain v where "map_of m k = Some v" using key_bound by blast
    then show "json_quote k @ '':'' @ (case map_of (stable_members m) k of Some t \<Rightarrow> t | None \<Rightarrow> []) =
        (member_text \<circ> (\<lambda>k. (k, the (map_of m k)))) k"
      by (simp add: member_text_def map_of_mapped)
  qed
  then show ?thesis by (simp only: stableStringify.simps Let_def)
qed

lemma canonical_object:
  "canonical_form (JObject m) = JObject (map (\<lambda>(k, v). (k, canonical_form v)) (sorted_members m))"
proof -
  have "map (\<lambda>k. (k, case map_of (canonical_members m) k of Some v \<Rightarrow> v | None \<Rightarrow> JNull)) (sort (map fst m))
      = map (\<lambda>(k, v). (k, canonical_form v)) (sorted_members m)"
    unfolding sorted_members_def map_map
  proof (rule map_cong [OF refl])
    fix k
    assume "k \<in> set (sort (map fst m))"
    then obtain v where "map_of m k = Some v" using key_bound by blast
    then show "(k, case map_of (canonical_members m) k of Some v \<Rightarrow> v | None \<Rightarrow> JNull) =
        ((\<lambda>(k, v). (k, canonical_form v)) \<circ> (\<lambda>k. (k, the (map_of m k)))) k"
      by (simp add: map_of_mapped)
  qed
  then show ?thesis by (simp only: canonical_form.simps)
qed

lemma set_sorted_members: "set (sorted_members m) \<subseteq> set m"
proof
  fix p
  assume "p \<in> set (sorted_members m)"
  then obtain k where k: "p = (k, the (map_of m k))" "k \<in> set (sort (map fst m))"
    by (auto simp: sorted_members_def)
  then obtain v where "map_of m k = Some v" using key_bound by blast
  then show "p \<in> set m" using k(1) map_of_SomeD by fastforce
qed

section \<open>Reading the text\<close>

text \<open>A value ends before one of the closing characters or at the end of the text.\<close>

definition delimited :: "string \<Rightarrow> bool" where
  "delimited r = (r = [] \<or> hd r = CHR '','' \<or> hd r = CHR '']'' \<or> hd r = CHR ''}'')"

definition number_char :: "char \<Rightarrow> bool" where
  "number_char c = (is_digit c \<or> c \<in> {CHR ''.'', CHR ''e'', CHR ''E'', CHR ''+'', CHR ''-''})"

lemma delimited_not_number: "delimited r \<Longrightarrow> takeWhile number_char r = []"
  by (cases r) (auto simp: delimited_def number_char_def is_digit_def)

lemma number_prefix:
  assumes "list_all number_char s" "list_all number_char t" "delimited r" "delimited r'" "s @ r = t @ r'"
  shows "s = t \<and> r = r'"
proof -
  have "takeWhile number_char (s @ r) = s" "takeWhile number_char (t @ r') = t"
    using assms(1-4) by (simp_all add: takeWhile_append2 list_all_iff delimited_not_number)
  then show ?thesis using assms(5) by simp
qed

lemma big_String_chars: "list_all number_char (big_String i)"
proof -
  have "list_all number_char (itoa n)" for n
    using itoa_digits(1) [of n] by (auto simp: list_all_iff number_char_def)
  then show ?thesis by (simp add: big_String_def number_char_def)
qed

lemma render_chars:
  assumes "list_all is_digit d" "sign = [] \<or> sign = ''-''"
  shows "list_all number_char (render_number sign d e)"
proof -
  have "list_all number_char d" "list_all number_char (take n d)" "list_all number_char (drop n d)" for n
    using assms(1) by (auto simp: list_all_iff number_char_def dest: in_set_takeD in_set_dropD)
  moreover have "list_all number_char (replicate n CHR ''0'')" for n
    by (auto simp: list_all_iff number_char_def is_digit_def)
  ultimately show ?thesis
    using assms(2) big_String_chars [of "e + int (length d) - 1"]
    by (auto simp: render_number_def Let_def number_char_def is_digit_def)
qed

lemma canonical_number_chars:
  assumes "number_text t"
  obtains c where "canonicalJSONNumber t = Some c" "list_all number_char c" "c \<noteq> []"
proof -
  obtain sign w f e where n: "sign = [] \<or> sign = ''-''" "list_all is_digit (w @ f)"
    "canonicalJSONNumber t = Some (canonical_of sign w f e)"
    using number_text_parts [OF assms] by metis
  show thesis using n(2)
  proof (cases rule: canonical_of_normal [where sign = sign and e = e])
    case 1
    then show thesis using that [OF n(3)] by (simp add: number_char_def)
  next
    case (2 d x)
    then have d: "list_all is_digit d" "d \<noteq> []" by (simp_all add: significant_def)
    have "render_number sign d x \<noteq> []" using d(2) by (simp add: render_number_def Let_def)
    then show thesis using that [OF n(3)] render_chars [OF d(1) n(1)] 2(1) by simp
  qed
qed

text \<open>The first character tells the kind of a value.\<close>

definition lead :: "json \<Rightarrow> char \<Rightarrow> bool" where
  "lead v c = (case v of
     JNull \<Rightarrow> c = CHR ''n''
   | JBool b \<Rightarrow> c = (if b then CHR ''t'' else CHR ''f'')
   | JNumber _ \<Rightarrow> number_char c
   | JString _ \<Rightarrow> c = CHR 0x22
   | JArray _ \<Rightarrow> c = CHR ''[''
   | JObject _ \<Rightarrow> c = CHR ''{'')"

lemma stable_lead: "json_ok v \<Longrightarrow> \<exists>c s. stableStringify v = c # s \<and> lead v c"
proof (cases v)
  case (JNumber t)
  assume "json_ok v"
  then obtain c where c: "canonicalJSONNumber t = Some c" "list_all number_char c" "c \<noteq> []"
    using canonical_number_chars JNumber by auto
  then show ?thesis using JNumber by (cases c) (auto simp: lead_def)
next
  case (JObject m)
  then show ?thesis unfolding JObject stable_object by (simp add: lead_def)
qed (simp_all add: lead_def json_quote_def)

lemma lead_not_close: "\<not> lead v CHR '']''"
  by (auto simp: lead_def number_char_def is_digit_def split: json.splits)

lemma stable_not_close: "json_ok v \<Longrightarrow> stableStringify v \<noteq> [] \<and> hd (stableStringify v) \<noteq> CHR '']''"
  using stable_lead [of v] lead_not_close [of v] by auto

text \<open>A comma-separated list is read back element by element.\<close>

lemma join_inj:
  assumes "\<And>x y r r'. x \<in> set xs \<Longrightarrow> y \<in> set ys \<Longrightarrow> delimited r \<Longrightarrow> delimited r' \<Longrightarrow>
      f x @ r = f y @ r' \<Longrightarrow> R x y \<and> r = r'"
    and "\<And>x. x \<in> set xs \<union> set ys \<Longrightarrow> f x \<noteq> [] \<and> hd (f x) \<noteq> close"
    and "close = CHR '']'' \<or> close = CHR ''}''"
    and "Join '','' (map f xs) @ close # r = Join '','' (map f ys) @ close # r'"
  shows "list_all2 R xs ys \<and> r = r'"
  using assms(1,2,4)
proof (induction xs arbitrary: ys)
  case Nil
  then show ?case
  proof (cases ys)
    case (Cons y ys')
    have "hd (Join '','' (map f ys) @ close # r') \<noteq> close"
      using Nil.prems(2) [of y] Cons by (cases ys') (auto simp: hd_append)
    then show ?thesis using Nil.prems(3) by (metis Join.simps(1) append_Nil list.map(1) list.sel(1))
  qed simp
next
  case (Cons x xs)
  let ?tail = "\<lambda>zs q. if zs = [] then close # q else CHR '','' # Join '','' (map f zs) @ close # q"
  have shape: "Join '','' (map f (z # zs)) @ close # q = f z @ ?tail zs q" for z zs q
    by (cases zs) simp_all
  have del: "delimited (?tail zs q)" for zs q using assms(3) by (auto simp: delimited_def)
  show ?case
  proof (cases ys)
    case Nil
    then have "hd (Join '','' (map f (x # xs)) @ close # r) = close" using Cons.prems(3) by simp
    moreover have "hd (f x @ ?tail xs r) \<noteq> close" using Cons.prems(2) [of x] by (simp add: hd_append)
    ultimately show ?thesis by (simp only: shape)
  next
    case ys: (Cons y ys')
    have "f x @ ?tail xs r = f y @ ?tail ys' r'" using Cons.prems(3) unfolding ys shape .
    then have eq: "R x y" "?tail xs r = ?tail ys' r'"
      using Cons.prems(1) [OF _ _ del del, of x y] ys by auto
    have "(xs = [] \<longleftrightarrow> ys' = []) \<and> Join '','' (map f xs) @ close # r = Join '','' (map f ys') @ close # r'"
      using eq(2) assms(3) by (auto split: if_splits)
    then have "list_all2 R xs ys' \<and> r = r'"
      using Cons.IH [of ys'] Cons.prems(1,2) ys by auto
    then show ?thesis using eq(1) ys by simp
  qed
qed

definition kind :: "json \<Rightarrow> nat" where
  "kind v = (case v of JNull \<Rightarrow> 0 | JBool b \<Rightarrow> (if b then 1 else 2) | JNumber _ \<Rightarrow> 3 | JString _ \<Rightarrow> 4
     | JArray _ \<Rightarrow> 5 | JObject _ \<Rightarrow> 6)"

lemma lead_kind: "lead v c \<Longrightarrow> lead w c \<Longrightarrow> kind v = kind w"
  by (auto simp: lead_def kind_def number_char_def is_digit_def split: json.splits if_splits)

lemma same_kind:
  assumes "json_ok v" "json_ok w" "stableStringify v @ r = stableStringify w @ r'"
  shows "kind v = kind w"
proof -
  obtain c s d t where "stableStringify v = c # s" "lead v c" "stableStringify w = d # t" "lead w d"
    using stable_lead [OF assms(1)] stable_lead [OF assms(2)] by blast
  then show ?thesis using assms(3) lead_kind [of v c w] by (simp only: append_Cons list.inject)
qed

lemma members_are_ok: "json_ok (JObject m) \<Longrightarrow> p \<in> set (sorted_members m) \<Longrightarrow>
    p \<in> set m \<and> valid_utf8 (fst p) \<and> json_ok (snd p)"
proof -
  assume "json_ok (JObject m)" "p \<in> set (sorted_members m)"
  then have "p \<in> set m" "\<forall>(k, v) \<in> set m. valid_utf8 k \<and> json_ok v"
    using set_sorted_members [of m] by (auto simp: list_all_iff)
  then show ?thesis by (cases p) auto
qed

lemma member_text_close: "member_text p \<noteq> [] \<and> hd (member_text p) \<noteq> CHR ''}''"
  by (simp add: member_text_def json_quote_def)

lemma canonical_members_eq:
  "list_all2 (\<lambda>p q. fst p = fst q \<and> canonical_form (snd p) = canonical_form (snd q)) xs ys \<Longrightarrow>
   map (\<lambda>(k, v). (k, canonical_form v)) xs = map (\<lambda>(k, v). (k, canonical_form v)) ys"
  by (induction xs ys rule: list_all2_induct) auto

lemma stable_inj:
  "json_ok v \<Longrightarrow> json_ok w \<Longrightarrow> delimited r \<Longrightarrow> delimited r' \<Longrightarrow>
   stableStringify v @ r = stableStringify w @ r' \<Longrightarrow> canonical_form v = canonical_form w \<and> r = r'"
proof (induction v arbitrary: w r r')
  case JNull
  then have "kind w = 0" using same_kind [OF JNull(1,2,5)] by (simp add: kind_def)
  then have "w = JNull" by (auto simp: kind_def split: json.splits if_splits)
  then show ?case using JNull by simp
next
  case (JBool b)
  then have "kind w = (if b then 1 else 2)" using same_kind [OF JBool(1,2,5)] by (simp add: kind_def)
  then have "w = JBool b" by (auto simp: kind_def split: json.splits if_splits)
  then show ?case using JBool by (cases b) simp_all
next
  case (JNumber t)
  then have "kind w = 3" using same_kind [OF JNumber(1,2,5)] by (simp add: kind_def)
  then obtain u where w: "w = JNumber u" by (auto simp: kind_def split: json.splits if_splits)
  obtain c where c: "canonicalJSONNumber t = Some c" "list_all number_char c"
    using canonical_number_chars JNumber(1) by auto
  obtain d where d: "canonicalJSONNumber u = Some d" "list_all number_char d"
    using canonical_number_chars JNumber(2) w by auto
  show ?case using number_prefix [OF c(2) d(2) JNumber(3,4)] JNumber(5) c(1) d(1) w by simp
next
  case (JString s)
  then have "kind w = 4" using same_kind [OF JString(1,2,5)] by (simp add: kind_def)
  then obtain u where w: "w = JString u" by (auto simp: kind_def split: json.splits if_splits)
  show ?case using json_quote_inj [of s u r r'] JString w by simp
next
  case (JArray xs)
  then have "kind w = 5" using same_kind [OF JArray(2,3,6)] by (simp add: kind_def)
  then obtain ys where w: "w = JArray ys" by (auto simp: kind_def split: json.splits if_splits)
  have oks: "\<forall>x \<in> set xs. json_ok x" "\<forall>y \<in> set ys. json_ok y"
    using JArray(2,3) w by (auto simp: list_all_iff)
  have "list_all2 (\<lambda>x y. canonical_form x = canonical_form y) xs ys \<and> r = r'"
  proof (rule join_inj [where close = "CHR '']''" and f = stableStringify])
    show "canonical_form x = canonical_form y \<and> q = q'"
      if "x \<in> set xs" "y \<in> set ys" "delimited q" "delimited q'" "stableStringify x @ q = stableStringify y @ q'"
      for x y q q'
      using JArray(1) [OF that(1)] oks that by blast
    show "stableStringify x \<noteq> [] \<and> hd (stableStringify x) \<noteq> CHR '']''" if "x \<in> set xs \<union> set ys" for x
      using stable_not_close oks that by blast
    show "Join '','' (map stableStringify xs) @ CHR '']'' # r = Join '','' (map stableStringify ys) @ CHR '']'' # r'"
      using JArray(6) w by simp
  qed simp
  then have "map canonical_form xs = map canonical_form ys \<and> r = r'"
    by (auto simp: list_all2_conv_all_nth list_eq_iff_nth_eq)
  then show ?case by (simp add: w)
next
  case (JObject m)
  then have "kind w = 6" using same_kind [OF JObject(2,3,6)] by (simp add: kind_def)
  then obtain n where w: "w = JObject n" by (auto simp: kind_def split: json.splits if_splits)
  have "list_all2 (\<lambda>p q. fst p = fst q \<and> canonical_form (snd p) = canonical_form (snd q))
      (sorted_members m) (sorted_members n) \<and> r = r'"
  proof (rule join_inj [where close = "CHR ''}''" and f = member_text])
    fix p q s s'
    assume p: "p \<in> set (sorted_members m)" "q \<in> set (sorted_members n)" "delimited s" "delimited s'"
      "member_text p @ s = member_text q @ s'"
    have okp: "p \<in> set m" "valid_utf8 (fst p)" "json_ok (snd p)"
      using members_are_ok [OF JObject(2) p(1)] by auto
    have okq: "valid_utf8 (fst q)" "json_ok (snd q)" using members_are_ok [OF JObject(3) [unfolded w] p(2)] by auto
    have "json_quote (fst p) @ CHR '':'' # stableStringify (snd p) @ s =
        json_quote (fst q) @ CHR '':'' # stableStringify (snd q) @ s'"
      using p(5) by (simp add: member_text_def)
    then have k: "fst p = fst q" "stableStringify (snd p) @ s = stableStringify (snd q) @ s'"
      using json_quote_inj [OF okp(2) okq(1)] by blast+
    have "snd p \<in> Basic_BNFs.snds p" by (simp add: snds.simps)
    then have "canonical_form (snd p) = canonical_form (snd q) \<and> s = s'"
      using JObject(1) [OF okp(1) _ okp(3) okq(2) p(3,4) k(2)] by blast
    then show "(fst p = fst q \<and> canonical_form (snd p) = canonical_form (snd q)) \<and> s = s'" using k(1) by blast
  next
    show "Join '','' (map member_text (sorted_members m)) @ CHR ''}'' # r =
        Join '','' (map member_text (sorted_members n)) @ CHR ''}'' # r'"
      using JObject(6) unfolding w stable_object by simp
  qed (use member_text_close in auto)
  then show ?case unfolding w canonical_object using canonical_members_eq by blast
qed

text \<open>Conversely the text depends on the canonical form alone.\<close>

lemma join_stable:
  "map f xs = map g ys \<Longrightarrow> Join '','' (map f xs) = Join '','' (map g ys)"
  by simp

lemma form_determines_text:
  "json_ok v \<Longrightarrow> json_ok w \<Longrightarrow> canonical_form v = canonical_form w \<Longrightarrow> stableStringify v = stableStringify w"
proof (induction v arbitrary: w)
  case (JNumber t)
  then show ?case by (cases w) auto
next
  case (JArray xs)
  then obtain ys where w: "w = JArray ys" by (cases w) auto
  have "map stableStringify xs = map stableStringify ys"
  proof (rule nth_equalityI)
    show l: "length (map stableStringify xs) = length (map stableStringify ys)"
      using JArray(4) w by (auto dest: map_eq_imp_length_eq)
    fix i
    assume i: "i < length (map stableStringify xs)"
    then have "canonical_form (xs ! i) = canonical_form (ys ! i)"
      using JArray(4) w l by (auto simp: list_eq_iff_nth_eq)
    moreover have "json_ok (xs ! i)" "json_ok (ys ! i)" using JArray(2,3) w i l by (auto simp: list_all_iff)
    moreover have "xs ! i \<in> set xs" using i by simp
    ultimately have "stableStringify (xs ! i) = stableStringify (ys ! i)" using JArray(1) by blast
    then show "map stableStringify xs ! i = map stableStringify ys ! i" using i l by simp
  qed
  then show ?case by (simp add: w)
next
  case (JObject m)
  then obtain n where w: "w = JObject n" by (cases w) auto
  let ?xs = "sorted_members m" and ?ys = "sorted_members n"
  have eq: "map (\<lambda>(k, v). (k, canonical_form v)) ?xs = map (\<lambda>(k, v). (k, canonical_form v)) ?ys"
    using JObject(4) unfolding w canonical_object by simp
  have "map member_text ?xs = map member_text ?ys"
  proof (rule nth_equalityI)
    show l: "length (map member_text ?xs) = length (map member_text ?ys)"
      using eq by (auto dest: map_eq_imp_length_eq)
    fix i
    assume i: "i < length (map member_text ?xs)"
    then have e: "fst (?xs ! i) = fst (?ys ! i)" "canonical_form (snd (?xs ! i)) = canonical_form (snd (?ys ! i))"
      using arg_cong [OF eq, of "\<lambda>l. l ! i"] l by (auto simp: case_prod_beta)
    have p: "?xs ! i \<in> set m" "json_ok (snd (?xs ! i))"
      using members_are_ok [OF JObject(2)] i by auto
    have q: "json_ok (snd (?ys ! i))" using members_are_ok [OF JObject(3) [unfolded w]] i l by auto
    have "snd (?xs ! i) \<in> Basic_BNFs.snds (?xs ! i)" by (simp add: snds.simps)
    then have "stableStringify (snd (?xs ! i)) = stableStringify (snd (?ys ! i))"
      using JObject(1) [OF p(1) _ p(2) q e(2)] by blast
    then show "map member_text ?xs ! i = map member_text ?ys ! i"
      using i l e(1) by (simp add: member_text_def)
  qed
  then show ?case unfolding w stable_object by simp
next
  case JNull
  then show ?case by (cases w) simp_all
next
  case (JBool b)
  then show ?case by (cases w) simp_all
next
  case (JString s)
  then show ?case by (cases w) simp_all
qed

lemma stableStringify_iff:
  assumes "json_ok v" "json_ok w"
  shows "stableStringify v = stableStringify w \<longleftrightarrow> canonical_form v = canonical_form w"
  using stable_inj [OF assms, of "[]" "[]"] form_determines_text [OF assms] by (auto simp: delimited_def)

section \<open>Properties\<close>



end
