(* ===== verification/ControlPlane.thy ===== *)
theory ControlPlane
  imports Gate Resolve Digest RawWriter
begin

text \<open>
  The governed merge, \<open>src/controlplane\<close>: a proposal is previewed on a fixed dataset pin, validated, and
  merged only while the preview, the evidence and the refs of the target repository still fit each
  other.  The control plane holds one registry of opened stores, and its catalog is opened over the
  same registry (\<open>cp_catalog\<close>); the outcome of the clock for the merge observer is the argument
  \<open>elapsed\<close>.
\<close>

section \<open>Data\<close>

record Proposal =
  prProposalID :: string
  prTargetRepository :: string
  prTargetRef :: string
  prCandidateRef :: string
  prBaseCommit :: string
  prCandidateCommit :: string
  prRationale :: string

record PreviewCandidate =
  pcRepositoryID :: string
  pcCommitID :: string

record Preview =
  pvPreviewID :: string
  pvSetID :: string
  pvRepositories :: "(string, string) gomap"
  pvBaseCommit :: string
  pvCandidate :: PreviewCandidate

record ValidationReport =
  vrReportID :: string
  vrPreviewID :: string
  vrSuiteRevision :: string
  vrOutcome :: string

record StructureReport =
  srReport :: ValidationReport
  srCheck :: KnowledgeSetCheck

record ('g, 'st, 'w) ControlPlane =
  cpStore :: "('st, 'w) SnapshotStore.Registry"
  cpCatalog :: "('g, 'st, 'w) Catalog"
  cpJournal :: "string \<Rightarrow> go_error option \<Rightarrow> go_error option"
  cpMergeRequired :: "(string \<Rightarrow> string list) option"
  cpMergeEvidence :: "(string \<Rightarrow> Evidence list) option"

definition ControlPlane_New :: "('st, 'w) SnapshotStore.Registry \<Rightarrow> ('g, 'st, 'w) Catalog \<Rightarrow>
    ('g, 'st, 'w) ControlPlane" where
  "ControlPlane_New store cat = \<lparr>cpStore = store, cpCatalog = cat, cpJournal = (\<lambda>_ _. None),
     cpMergeRequired = None, cpMergeEvidence = None\<rparr>"

definition SetMergeGate :: "(string \<Rightarrow> string list) option \<Rightarrow> (string \<Rightarrow> Evidence list) option \<Rightarrow>
    ('g, 'st, 'w) ControlPlane \<Rightarrow> ('g, 'st, 'w) ControlPlane" where
  "SetMergeGate required evidence cp = cp\<lparr>cpMergeRequired := required, cpMergeEvidence := evidence\<rparr>"

text \<open>The catalog sees the registry the control plane holds.\<close>

definition cp_catalog :: "('g, 'st, 'w) ControlPlane \<Rightarrow> ('g, 'st, 'w) Catalog" where
  "cp_catalog cp = (cpCatalog cp)\<lparr>catStore := Some (cpStore cp)\<rparr>"

text \<open>\<open>return value, cp.note(cmd, refs, err)\<close>: the value, unless the call or its journal record failed.\<close>

definition cp_note :: "('g, 'st, 'w) ControlPlane \<Rightarrow> string \<Rightarrow> 'a go \<Rightarrow> 'a go" where
  "cp_note cp cmd r =
    (case journal_Finish (cpJournal cp) cmd (case r of Inl e \<Rightarrow> Some e | Inr _ \<Rightarrow> None) of
      Some e \<Rightarrow> Inl e
    | None \<Rightarrow> r)"

text \<open>Reading a Go map of strings: the empty string for a missing key.\<close>

definition map_at :: "(string, string) gomap \<Rightarrow> string \<Rightarrow> string" where
  "map_at m k = (case map_of m k of Some v \<Rightarrow> v | None \<Rightarrow> [])"

section \<open>Previews\<close>

definition CreatePreview :: "(string \<Rightarrow> string) \<Rightarrow> 'st snapshot_ops \<Rightarrow> string \<Rightarrow> Proposal \<Rightarrow>
    ('g, 'st, 'w) ControlPlane \<Rightarrow> Preview go" where
  "CreatePreview sha sops sid proposal cp =
    rbind (ResolveKnowledgeSet sha sops sid (cp_catalog cp)) (\<lambda>resolved.
      if map_at (rsRepositories resolved) (prTargetRepository proposal) \<noteq> prBaseCommit proposal
      then fails ErrValidationBasisMismatch
      else (case ResolveKnowledgeSetOverlay sha sops sid
                   [(prTargetRepository proposal, prCandidateCommit proposal)] (cp_catalog cp) of
        Inl e \<Rightarrow> cp_note cp ''preview'' (Inl e)
      | Inr overlaid \<Rightarrow>
          cp_note cp ''preview'' (Inr \<lparr>pvPreviewID = ''preview-'' @ rsPinID overlaid, pvSetID = sid,
            pvRepositories = rsRepositories overlaid, pvBaseCommit = prBaseCommit proposal,
            pvCandidate = \<lparr>pcRepositoryID = prTargetRepository proposal,
              pcCommitID = prCandidateCommit proposal\<rparr>\<rparr>)))"

definition preview_basis :: "string \<Rightarrow> string \<Rightarrow> string \<Rightarrow> json" where
  "preview_basis pin repository candidate = JObject [(''PinID'', JString pin),
     (''Repository'', JString repository), (''Candidate'', JString candidate)]"

definition CreatePreviewAt :: "(string \<Rightarrow> string) \<Rightarrow> 'st snapshot_ops \<Rightarrow> ResolvedKnowledgeSet \<Rightarrow> Proposal \<Rightarrow>
    ('g, 'st, 'w) ControlPlane \<Rightarrow> Preview go" where
  "CreatePreviewAt sha sops resolved proposal cp =
    (if map_at (rsRepositories resolved) (prTargetRepository proposal) \<noteq> prBaseCommit proposal
     then fails ErrValidationBasisMismatch
     else if (case Registry_Get (prTargetRepository proposal) (cpStore cp) of
                None \<Rightarrow> True | Some repo \<Rightarrow> \<not> stHasCommit sops (prCandidateCommit proposal) repo)
     then fails ErrVersionUnresolved
     else cp_note cp ''preview'' (Inr \<lparr>
       pvPreviewID = ''preview-'' @ CanonicalDigest sha (preview_basis (rsPinID resolved)
         (prTargetRepository proposal) (prCandidateCommit proposal)),
       pvSetID = rsSetID resolved,
       pvRepositories = AList.update (prTargetRepository proposal) (prCandidateCommit proposal)
         (rsRepositories resolved),
       pvBaseCommit = prBaseCommit proposal,
       pvCandidate = \<lparr>pcRepositoryID = prTargetRepository proposal,
         pcCommitID = prCandidateCommit proposal\<rparr>\<rparr>))"

section \<open>Validation\<close>

definition RecordValidationOn :: "string \<Rightarrow> string \<Rightarrow> string \<Rightarrow> ('g, 'st, 'w) ControlPlane \<Rightarrow>
    ValidationReport go" where
  "RecordValidationOn previewID suiteRevision outcome cp =
    (if previewID = [] then cp_note cp ''record-validation'' (fails ErrUsageInvalid)
     else cp_note cp ''record-validation'' (Inr \<lparr>
       vrReportID = ''val-'' @ previewID @ ''-'' @ suiteRevision, vrPreviewID = previewID,
       vrSuiteRevision = suiteRevision, vrOutcome = outcome\<rparr>))"

definition RecordValidation :: "Preview \<Rightarrow> string \<Rightarrow> string \<Rightarrow> ('g, 'st, 'w) ControlPlane \<Rightarrow>
    ValidationReport go" where
  "RecordValidation preview suiteRevision outcome cp =
    RecordValidationOn (pvPreviewID preview) suiteRevision outcome cp"

definition structure_issues :: "'st snapshot_ops \<Rightarrow> Preview \<Rightarrow> ('g, 'st, 'w) ControlPlane \<Rightarrow>
    KnowledgeSetIssue list" where
  "structure_issues sops preview cp =
    ckIssues (CheckResolved sops \<lparr>rsSetID = pvSetID preview, rsRevision = 0, rsRef = [],
        rsRepositories = pvRepositories preview, rsItems = [], rsPinID = []\<rparr> (cp_catalog cp)) @
    (let candidate = pvCandidate preview in
     if (case Registry_Get (pcRepositoryID candidate) (cpStore cp) of
           None \<Rightarrow> True | Some repo \<Rightarrow> \<not> stHasCommit sops (pcCommitID candidate) repo)
     then [\<lparr>isRepository = pcRepositoryID candidate, isCode = ErrVersionUnresolved\<rparr>] else [])"

definition ValidateStructure :: "'st snapshot_ops \<Rightarrow> Preview \<Rightarrow> ('g, 'st, 'w) ControlPlane \<Rightarrow>
    StructureReport go" where
  "ValidateStructure sops preview cp =
    (let issues = structure_issues sops preview cp;
         outcome = (if 0 < length issues then ''FAILED'' else ''PASSED'') in
     rbind (RecordValidation preview ''structure'' outcome cp) (\<lambda>report.
       cp_note cp ''validate'' (Inr \<lparr>srReport = report,
         srCheck = \<lparr>ckSetID = pvSetID preview, ckOutcome = outcome, ckIssues = issues\<rparr>\<rparr>)))"

section \<open>The merge gate\<close>

definition report_evidence :: "ValidationReport \<Rightarrow> Evidence" where
  "report_evidence report = \<lparr>evName = vrSuiteRevision report, evBasisID = vrPreviewID report,
     evOutcome = vrOutcome report\<rparr>"

definition merge_required :: "Proposal \<Rightarrow> ('g, 'st, 'w) ControlPlane \<Rightarrow> string list" where
  "merge_required proposal cp =
    (case cpMergeRequired cp of None \<Rightarrow> [] | Some required \<Rightarrow> required (prTargetRepository proposal))"

definition merge_evidence :: "Preview \<Rightarrow> ValidationReport \<Rightarrow> ('g, 'st, 'w) ControlPlane \<Rightarrow> Evidence list" where
  "merge_evidence preview validation cp =
    (case cpMergeEvidence cp of None \<Rightarrow> [] | Some evidence \<Rightarrow> evidence (pvPreviewID preview)) @
    (if vrReportID validation \<noteq> [] then [report_evidence validation] else [])"

definition checkMergeGate :: "Proposal \<Rightarrow> Preview \<Rightarrow> ValidationReport \<Rightarrow> ('g, 'st, 'w) ControlPlane \<Rightarrow>
    string list \<times> unit go" where
  "checkMergeGate proposal preview validation cp =
    (let required = merge_required proposal cp in
     (required,
      if length required = 0
      then (if vrPreviewID validation \<noteq> pvPreviewID preview then fails ErrValidationBasisMismatch
            else if vrOutcome validation \<noteq> ''PASSED'' then fails ErrValidationBasisMismatch
            else Inr ())
      else Check required (OnBasis (merge_evidence preview validation cp) (pvPreviewID preview))))"

section \<open>Merging\<close>

definition not_bound :: "Proposal \<Rightarrow> Preview \<Rightarrow> bool" where
  "not_bound proposal preview =
    (pcRepositoryID (pvCandidate preview) \<noteq> prTargetRepository proposal \<or>
     pcCommitID (pvCandidate preview) \<noteq> prCandidateCommit proposal \<or>
     map_at (pvRepositories preview) (prTargetRepository proposal) \<noteq> prCandidateCommit proposal \<or>
     pvBaseCommit preview \<noteq> prBaseCommit proposal)"

type_synonym 'w merge_observer = "nat \<Rightarrow> string \<Rightarrow> int \<Rightarrow> 'w \<Rightarrow> 'w"

definition merge_body :: "'st snapshot_ops \<Rightarrow> Proposal \<Rightarrow> Preview \<Rightarrow> ValidationReport \<Rightarrow>
    'w merge_observer option \<Rightarrow> int \<Rightarrow> ('g, 'st, 'w) ControlPlane \<Rightarrow> 'w \<Rightarrow>
    string go \<times> ('g, 'st, 'w) ControlPlane \<times> 'w" where
  "merge_body sops proposal preview validation observe elapsed cp w =
    (case Registry_Require (prTargetRepository proposal) ErrTargetRepositoryDenied (cpStore cp) of
      Inl e \<Rightarrow> (Inl e, cp, w)
    | Inr repo \<Rightarrow>
        if not_bound proposal preview then (fails ErrValidationBasisMismatch, cp, w)
        else if vrReportID validation \<noteq> [] \<and> vrPreviewID validation \<noteq> pvPreviewID preview
        then (fails ErrValidationBasisMismatch, cp, w)
        else (case checkMergeGate proposal preview validation cp of (required, gate) \<Rightarrow>
          (let w1 = (case observe of
                None \<Rightarrow> w
              | Some fn \<Rightarrow> fn (length required) (if ok gate then ''ok'' else ''error'') elapsed w) in
           case gate of
             Inl e \<Rightarrow> (Inl e, cp, w1)
           | Inr _ \<Rightarrow>
               if stGetRef sops (prCandidateRef proposal) repo \<noteq> Some (prCandidateCommit proposal)
               then (fails ErrCandidateMoved, cp, w1)
               else (case stMerge sops (prTargetRef proposal) (prCandidateCommit proposal)
                            (prBaseCommit proposal) repo of (r, repo') \<Rightarrow>
                 (let store = Registry_Mutate (prTargetRepository proposal) repo' (cpStore cp) in
                  case r of
                    Inl e \<Rightarrow> (Inl e, cp\<lparr>cpStore := store\<rparr>, w1)
                  | Inr commitID \<Rightarrow> (Inr commitID, cp\<lparr>cpStore := store\<rparr>,
                      NotifyAdvanced store \<lparr>adStore = Some repo', adFrom = prBaseCommit proposal,
                        adTo = commitID\<rparr> w1))))))"

definition cp_merge :: "'st snapshot_ops \<Rightarrow> Proposal \<Rightarrow> Preview \<Rightarrow> ValidationReport \<Rightarrow>
    'w merge_observer option \<Rightarrow> int \<Rightarrow> ('g, 'st, 'w) ControlPlane \<Rightarrow> 'w \<Rightarrow>
    string go \<times> ('g, 'st, 'w) ControlPlane \<times> 'w" where
  "cp_merge sops proposal preview validation observe elapsed cp w =
    (case merge_body sops proposal preview validation observe elapsed cp w of
      (r, cp', w') \<Rightarrow> (cp_note cp' ''merge'' r, cp', w'))"

definition Merge :: "'st snapshot_ops \<Rightarrow> Proposal \<Rightarrow> Preview \<Rightarrow> ValidationReport \<Rightarrow>
    ('g, 'st, 'w) ControlPlane \<Rightarrow> 'w \<Rightarrow> string go \<times> ('g, 'st, 'w) ControlPlane \<times> 'w" where
  "Merge sops proposal preview validation cp w = cp_merge sops proposal preview validation None 0 cp w"

definition MergeObserved :: "'st snapshot_ops \<Rightarrow> Proposal \<Rightarrow> Preview \<Rightarrow> ValidationReport \<Rightarrow>
    'w merge_observer option \<Rightarrow> int \<Rightarrow> ('g, 'st, 'w) ControlPlane \<Rightarrow> 'w \<Rightarrow>
    string go \<times> ('g, 'st, 'w) ControlPlane \<times> 'w" where
  "MergeObserved sops proposal preview validation observe elapsed cp w =
    cp_merge sops proposal preview validation observe elapsed cp w"

section \<open>Control state\<close>

text \<open>The stored proposals, previews and reports, per catalog.  None is a nil map.  A file is the
  outcome of reading it: None when it does not exist, and the decoded bundle otherwise.\<close>

record ControlState =
  ctProposals :: "(string, Proposal) gomap option"
  ctPreviews :: "(string, Preview) gomap option"
  ctValidations :: "(string, ValidationReport) gomap option"

record ControlBundle =
  cbCatalogs :: "(string, ControlState) gomap"
  cbProposals :: "(string, Proposal) gomap option"
  cbPreviews :: "(string, Preview) gomap option"
  cbValidations :: "(string, ValidationReport) gomap option"

definition EmptyControlState :: ControlState where
  "EmptyControlState = \<lparr>ctProposals = Some [], ctPreviews = Some [], ctValidations = Some []\<rparr>"

definition or_empty :: "('k, 'v) gomap option \<Rightarrow> ('k, 'v) gomap option" where
  "or_empty m = (case m of None \<Rightarrow> Some [] | Some x \<Rightarrow> Some x)"

definition normalizeState :: "ControlState \<Rightarrow> ControlState" where
  "normalizeState raw = \<lparr>ctProposals = or_empty (ctProposals raw), ctPreviews = or_empty (ctPreviews raw),
     ctValidations = or_empty (ctValidations raw)\<rparr>"

definition has_entries :: "('k, 'v) gomap option \<Rightarrow> bool" where
  "has_entries m = (case m of None \<Rightarrow> False | Some x \<Rightarrow> 0 < length x)"

definition LoadBundle :: "ControlBundle go option \<Rightarrow> (string, ControlState) gomap go" where
  "LoadBundle file =
    (case file of
      None \<Rightarrow> Inr []
    | Some (Inl e) \<Rightarrow> Inl e
    | Some (Inr raw) \<Rightarrow>
        (let out = map (\<lambda>(k, st). (k, normalizeState st)) (cbCatalogs raw) in
         if length out = 0 \<and> (has_entries (cbProposals raw) \<or> has_entries (cbPreviews raw) \<or>
              has_entries (cbValidations raw))
         then Inr [([], normalizeState \<lparr>ctProposals = cbProposals raw, ctPreviews = cbPreviews raw,
                          ctValidations = cbValidations raw\<rparr>)]
         else Inr out))"

definition ControlState_Load :: "ControlBundle go option \<Rightarrow> ControlState go" where
  "ControlState_Load file = rbind (LoadBundle file) (\<lambda>states.
     case map_of states [] of Some st \<Rightarrow> Inr st | None \<Rightarrow> Inr EmptyControlState)"

definition SaveBundle :: "(string, ControlState) gomap \<Rightarrow> ControlBundle" where
  "SaveBundle states = \<lparr>cbCatalogs = map (\<lambda>(k, st). (k, normalizeState st)) states,
     cbProposals = None, cbPreviews = None, cbValidations = None\<rparr>"

definition ControlState_Save :: "ControlState \<Rightarrow> ControlBundle" where
  "ControlState_Save state = SaveBundle [([], normalizeState state)]"

lemma normalizeState_idem [simp]: "normalizeState (normalizeState s) = normalizeState s"
  by (simp add: normalizeState_def or_empty_def split: option.splits)

lemma control_state_saved: "ControlState_Load (Some (Inr (ControlState_Save s))) = Inr (normalizeState s)"
  by (simp add: ControlState_Load_def ControlState_Save_def SaveBundle_def LoadBundle_def has_entries_def)

section \<open>Facts\<close>

lemma cp_note_Inr: "cp_note cp cmd r = Inr v \<Longrightarrow> r = Inr v"
  by (auto simp: cp_note_def journal_Finish_def split: option.splits sum.splits)

lemma cp_merge_Inr:
  assumes "cp_merge sops pr pv report observe elapsed cp w = (Inr c, cp', w')"
  obtains repo repo' required w1 where
    "Registry_Get (prTargetRepository pr) (cpStore cp) = Some repo" "\<not> not_bound pr pv"
    "vrReportID report = [] \<or> vrPreviewID report = pvPreviewID pv"
    "checkMergeGate pr pv report cp = (required, Inr ())"
    "stGetRef sops (prCandidateRef pr) repo = Some (prCandidateCommit pr)"
    "stMerge sops (prTargetRef pr) (prCandidateCommit pr) (prBaseCommit pr) repo = (Inr c, repo')"
    "cp' = cp\<lparr>cpStore := Registry_Mutate (prTargetRepository pr) repo' (cpStore cp)\<rparr>"
    "w' = NotifyAdvanced (cpStore cp') \<lparr>adStore = Some repo', adFrom = prBaseCommit pr, adTo = c\<rparr> w1"
proof -
  obtain r where b: "merge_body sops pr pv report observe elapsed cp w = (r, cp', w')" "cp_note cp' ''merge'' r = Inr c"
    using assms by (auto simp: cp_merge_def split: prod.splits)
  have "merge_body sops pr pv report observe elapsed cp w = (Inr c, cp', w')"
    using b cp_note_Inr by metis
  then show thesis
    by (auto simp: merge_body_def Registry_Require_def Let_def
        split: if_splits option.splits sum.splits prod.splits intro: that)
qed

lemma Registry_Mutate_Get:
  "Registry_Get k (Registry_Mutate k' st r) = (if k = k' then Some st else Registry_Get k r)"
  by (simp add: Registry_Get_def Registry_Mutate_def map_simps)

lemma gate_without_rules:
  "checkMergeGate pr pv report cp = (required, Inr ()) \<Longrightarrow> merge_required pr cp = [] \<Longrightarrow>
   vrPreviewID report = pvPreviewID pv \<and> vrOutcome report = ''PASSED''"
  by (auto simp: checkMergeGate_def Let_def split: if_splits)

lemma gate_with_rules:
  "checkMergeGate pr pv report cp = (required, Inr ()) \<Longrightarrow> merge_required pr cp \<noteq> [] \<Longrightarrow>
   \<forall>name \<in> set (merge_required pr cp). TrimSpace name = [] \<or>
     (\<exists>e \<in> set (merge_evidence pv report cp). evBasisID e = pvPreviewID pv \<and>
        evOutcome e = ''PASSED'' \<and> nameMatch name (evName e))"
  by (auto simp: checkMergeGate_def Let_def Check_iff set_OnBasis split: if_splits)

lemma preview_is_bound:
  assumes "CreatePreviewAt sha sops resolved pr cp = Inr pv"
  shows "\<not> not_bound pr pv" "pvPreviewID pv = ''preview-'' @ CanonicalDigest sha
    (preview_basis (rsPinID resolved) (prTargetRepository pr) (prCandidateCommit pr))"
  using assms
  by (auto simp: CreatePreviewAt_def not_bound_def map_at_def map_simps dest!: cp_note_Inr split: if_splits)

context snapshot_store
begin

lemma merge_through_gate:
  assumes "cp_merge ops pr pv report observe elapsed cp w = (Inr c, cp', w')"
    and "Registry_Get (prTargetRepository pr) (cpStore cp) = Some repo" "inv repo"
  shows "c = prCandidateCommit pr \<and> \<not> stArchived ops repo \<and>
    tips repo (norm (prTargetRef pr)) = Some (prBaseCommit pr) \<and>
    tips repo (norm (prCandidateRef pr)) = Some c \<and> descends repo (prBaseCommit pr) c \<and>
    (\<exists>repo'. Registry_Get (prTargetRepository pr) (cpStore cp') = Some repo' \<and>
      tips repo' = (tips repo)(norm (prTargetRef pr) \<mapsto> c)) \<and>
    (\<forall>k. k \<noteq> prTargetRepository pr \<longrightarrow> Registry_Get k (cpStore cp') = Registry_Get k (cpStore cp))"
  using assms(1)
proof (rule cp_merge_Inr)
  fix repo1 repo' required w1
  assume m: "Registry_Get (prTargetRepository pr) (cpStore cp) = Some repo1"
    "stGetRef ops (prCandidateRef pr) repo1 = Some (prCandidateCommit pr)"
    "stMerge ops (prTargetRef pr) (prCandidateCommit pr) (prBaseCommit pr) repo1 = (Inr c, repo')"
    "cp' = cp\<lparr>cpStore := Registry_Mutate (prTargetRepository pr) repo' (cpStore cp)\<rparr>"
  have "repo1 = repo" using m(1) assms(2) by simp
  then show ?thesis
    using m merge_ok [OF assms(3) m(3) [unfolded \<open>repo1 = repo\<close>]] get_ref [of "prCandidateRef pr" repo]
    by (simp add: Registry_Mutate_Get)
qed

lemma failed_merge_changes_nothing:
  assumes "cp_merge ops pr pv report observe elapsed cp w = (Inl e, cp', w')" "cpJournal cp ''merge'' None = None"
  shows "Registry_Get k (cpStore cp') = Registry_Get k (cpStore cp)"
proof -
  obtain r where b: "merge_body ops pr pv report observe elapsed cp w = (r, cp', w')" "cp_note cp' ''merge'' r = Inl e"
    using assms(1) by (auto simp: cp_merge_def split: prod.splits)
  show ?thesis
  proof (cases r)
    case (Inl e')
    then show ?thesis using b(1)
      by (auto simp: merge_body_def Registry_Require_def Let_def Registry_Mutate_Get
          split: if_splits option.splits sum.splits prod.splits dest!: merge_error)
  next
    case (Inr c)
    have "cpJournal cp' = cpJournal cp" using b(1)
      by (auto simp: merge_body_def Let_def split: if_splits sum.splits prod.splits)
    then show ?thesis using b(2) Inr assms(2) by (simp add: cp_note_def journal_Finish_def)
  qed
qed

end

section \<open>Properties\<close>

text \<open>A concrete plane for the witnesses: one repository whose branch \<open>dev\<close> is one commit behind
  \<open>main\<close>, a proposal to merge that commit, its preview and a passed structure report.\<close>

definition demo_plane :: "(unit, memoryStore, string list) ControlPlane" where
  "demo_plane = ControlPlane_New \<lparr>rgStores = [(''kr://a/b'', demo_dev)],
      rgOnAdvanced = [\<lambda>ev log. log @ [adFrom ev @ '' -> '' @ adTo ev]], rgWrap = None\<rparr>
    \<lparr>catStore = None, catRegistry = (), catRegistryHead = [], catDatasets = [], catVersions = [],
     catRepositories = [''kr://a/b''], catReadOnly = False, catArchived = False, catJournal = (\<lambda>_ _. None),
     catAs = [], catRequestID = [], catRuleID = []\<rparr>"

definition demo_proposal :: Proposal where
  "demo_proposal = \<lparr>prProposalID = ''p1'', prTargetRepository = ''kr://a/b'', prTargetRef = ''dev'',
     prCandidateRef = [], prBaseCommit = ''root'', prCandidateCommit = ''cx'', prRationale = []\<rparr>"

definition demo_preview :: Preview where
  "demo_preview = \<lparr>pvPreviewID = ''preview-1'', pvSetID = ''ds'', pvRepositories = [(''kr://a/b'', ''cx'')],
     pvBaseCommit = ''root'', pvCandidate = \<lparr>pcRepositoryID = ''kr://a/b'', pcCommitID = ''cx''\<rparr>\<rparr>"

definition demo_report :: ValidationReport where
  "demo_report = \<lparr>vrReportID = ''val-preview-1-structure'', vrPreviewID = ''preview-1'',
     vrSuiteRevision = ''structure'', vrOutcome = ''PASSED''\<rparr>"

text \<open>C24. A governed merge lands exactly what was previewed and checked.  When \<open>Merge\<close> or \<open>MergeObserved\<close>
  succeeds on a repository, over any store that keeps the snapshot contract: the preview was made for
  this proposal, the candidate ref still pointed to the previewed commit, the target ref still was
  at the previewed base and the candidate descends from it; now the target ref, and nothing else in
  any repository, points to the candidate.  The gate was open on this preview: without rules the
  report at hand passed on it, otherwise every required check has PASSED evidence bound to it.\<close>

theorem governed_merge_is_exact:
  assumes "snapshot_store sops valid canon tips desc"
    and "MergeObserved sops pr pv report observe elapsed cp w = (Inr c, cp', w')"
    and "Registry_Get (prTargetRepository pr) (cpStore cp) = Some repo" "valid repo"
  shows "c = prCandidateCommit pr \<and> pcCommitID (pvCandidate pv) = c \<and> pvBaseCommit pv = prBaseCommit pr \<and>
    map_of (pvRepositories pv) (prTargetRepository pr) \<in> {Some c, (if c = [] then None else Some c)} \<and>
    tips repo (canon (prTargetRef pr)) = Some (prBaseCommit pr) \<and>
    tips repo (canon (prCandidateRef pr)) = Some c \<and> desc repo (prBaseCommit pr) c \<and>
    (\<exists>repo'. Registry_Get (prTargetRepository pr) (cpStore cp') = Some repo' \<and>
      tips repo' = (tips repo)(canon (prTargetRef pr) \<mapsto> c)) \<and>
    (\<forall>k. k \<noteq> prTargetRepository pr \<longrightarrow> Registry_Get k (cpStore cp') = Registry_Get k (cpStore cp)) \<and>
    (if merge_required pr cp = [] then vrPreviewID report = pvPreviewID pv \<and> vrOutcome report = ''PASSED''
     else \<forall>name \<in> set (merge_required pr cp). TrimSpace name = [] \<or>
       (\<exists>e \<in> set (merge_evidence pv report cp). evBasisID e = pvPreviewID pv \<and>
          evOutcome e = ''PASSED'' \<and> nameMatch name (evName e)))"
proof -
  have m: "cp_merge sops pr pv report observe elapsed cp w = (Inr c, cp', w')"
    using assms(2) by (simp add: MergeObserved_def)
  obtain required where b: "\<not> not_bound pr pv" "checkMergeGate pr pv report cp = (required, Inr ())"
    using m by (rule cp_merge_Inr)
  have t: "c = prCandidateCommit pr" "tips repo (canon (prTargetRef pr)) = Some (prBaseCommit pr)"
    "tips repo (canon (prCandidateRef pr)) = Some c" "desc repo (prBaseCommit pr) c"
    "\<exists>repo'. Registry_Get (prTargetRepository pr) (cpStore cp') = Some repo' \<and>
      tips repo' = (tips repo)(canon (prTargetRef pr) \<mapsto> c)"
    "\<forall>k. k \<noteq> prTargetRepository pr \<longrightarrow> Registry_Get k (cpStore cp') = Registry_Get k (cpStore cp)"
    using snapshot_store.merge_through_gate [OF assms(1) m assms(3,4)] by blast+
  have "map_of (pvRepositories pv) (prTargetRepository pr) \<in> {Some c, (if c = [] then None else Some c)}"
    using b(1) t(1) by (auto simp: not_bound_def map_at_def split: option.splits)
  moreover have "pcCommitID (pvCandidate pv) = c" "pvBaseCommit pv = prBaseCommit pr"
    using b(1) t(1) by (auto simp: not_bound_def)
  moreover have "if merge_required pr cp = []
     then vrPreviewID report = pvPreviewID pv \<and> vrOutcome report = ''PASSED''
     else \<forall>name \<in> set (merge_required pr cp). TrimSpace name = [] \<or>
       (\<exists>e \<in> set (merge_evidence pv report cp). evBasisID e = pvPreviewID pv \<and>
          evOutcome e = ''PASSED'' \<and> nameMatch name (evName e))"
    using gate_without_rules [OF b(2)] gate_with_rules [OF b(2)] by auto
  ultimately show ?thesis using t by blast
qed

lemma demo_candidate: "ms_GetRef [] demo_dev = Some ''cx''"
  by code_simp

lemma demo_merges:
  "\<exists>cp'. MergeObserved memory_ops demo_proposal demo_preview demo_report None 0 demo_plane [] =
    (Inr ''cx'', cp', [''root -> cx''])"
  by (simp add: MergeObserved_def cp_merge_def merge_body_def Registry_Require_def Registry_Get_def
      demo_plane_def ControlPlane_New_def demo_proposal_def demo_preview_def demo_report_def not_bound_def map_at_def
      checkMergeGate_def merge_required_def memory_ops_def demo_candidate demo_dev_merges Registry_Mutate_def
      NotifyAdvanced_def cp_note_def journal_Finish_def Let_def)

theorem governed_merge_is_exact_witness:
  "map_of (msRefs demo_dev) ''dev'' = Some ''root'' \<and> descends (msCommits demo_dev) ''root'' ''cx'' \<and>
   Registry_Get ''kr://a/b'' (cpStore demo_plane) = Some demo_dev"
proof -
  have g: "Registry_Get (prTargetRepository demo_proposal) (cpStore demo_plane) = Some demo_dev"
    by (simp add: demo_plane_def demo_proposal_def ControlPlane_New_def Registry_Get_def)
  have v: "ms_ok demo_dev" using reachable_ok(1) [OF demo_free demo_dev_reachable] .
  have t: "prBaseCommit demo_proposal = ''root''" "memoryRef (prTargetRef demo_proposal) = ''dev''"
    "prTargetRepository demo_proposal = ''kr://a/b''" by code_simp+
  obtain cp' where m: "MergeObserved memory_ops demo_proposal demo_preview demo_report None 0 demo_plane [] =
      (Inr ''cx'', cp', [''root -> cx''])" using demo_merges by blast
  show ?thesis
    using governed_merge_is_exact [OF memory.snapshot_store_axioms m g v] g unfolding t by blast
qed

end
