(* ===== verification/AccessFields.thy ===== *)
theory AccessFields
  imports Digest
begin

text \<open>
  The logical access contract of one commit, \<open>src/retrieval/spec.go\<close>: which fields of which schemas may be
  filtered, matched or sorted (\<open>AccessSpecFromReport\<close>), how a query names one of them
  (\<open>ResolveField\<close>), and the references that name a schema object
  (\<open>src/knowledge/schema_ref.go\<close>).
\<close>

section \<open>Exchange sort\<close>

text \<open>The loops \<open>for i { for j > i { if less(xs[j], xs[i]) { swap } } }\<close> of the sorting helpers: one pass puts a
  least element at position i.\<close>

fun exchange_pass :: "('a \<Rightarrow> 'a \<Rightarrow> bool) \<Rightarrow> 'a \<Rightarrow> 'a list \<Rightarrow> 'a \<times> 'a list" where
  "exchange_pass lt x [] = (x, [])"
| "exchange_pass lt x (y # ys) =
    (if lt y x then (case exchange_pass lt y ys of (m, r) \<Rightarrow> (m, x # r))
     else (case exchange_pass lt x ys of (m, r) \<Rightarrow> (m, y # r)))"

lemma exchange_pass_length: "length (snd (exchange_pass lt x ys)) = length ys"
  by (induction lt x ys rule: exchange_pass.induct) (auto split: prod.splits)

function exchange_sort :: "('a \<Rightarrow> 'a \<Rightarrow> bool) \<Rightarrow> 'a list \<Rightarrow> 'a list" where
  "exchange_sort lt [] = []"
| "exchange_sort lt (x # xs) = fst (exchange_pass lt x xs) # exchange_sort lt (snd (exchange_pass lt x xs))"
  by pat_completeness auto
termination by (relation "measure (\<lambda>(lt, xs). length xs)") (auto simp: exchange_pass_length)

lemma exchange_pass_mset: "add_mset (fst (exchange_pass lt x ys)) (mset (snd (exchange_pass lt x ys))) = add_mset x (mset ys)"
  by (induction lt x ys rule: exchange_pass.induct) (auto split: prod.splits simp: add_mset_commute)

lemma exchange_sort_mset: "mset (exchange_sort lt xs) = mset xs"
  by (induction lt xs rule: exchange_sort.induct) (simp_all add: exchange_pass_mset)

lemma set_exchange_sort [simp]: "set (exchange_sort lt xs) = set xs"
  using exchange_sort_mset by (metis set_mset_mset)

lemma exchange_pass_least:
  fixes key :: "'a \<Rightarrow> 'k :: linorder"
  assumes "\<And>a b. lt a b \<longleftrightarrow> key a < key b"
  shows "\<forall>y \<in> insert x (set ys). key (fst (exchange_pass lt x ys)) \<le> key y"
  using assms
  by (induction lt x ys rule: exchange_pass.induct) (fastforce split: prod.splits)+

lemma exchange_sort_sorted:
  fixes key :: "'a \<Rightarrow> 'k :: linorder"
  assumes "\<And>a b. lt a b \<longleftrightarrow> key a < key b"
  shows "sorted (map key (exchange_sort lt xs))"
  using assms
proof (induction lt xs rule: exchange_sort.induct)
  case (2 lt x xs)
  let ?p = "exchange_pass lt x xs"
  have "set (snd ?p) \<subseteq> insert x (set xs)"
    using arg_cong [OF exchange_pass_mset [of lt x xs], of set_mset] by auto
  then have "\<forall>y \<in> set (snd ?p). key (fst ?p) \<le> key y"
    using exchange_pass_least [of lt key x xs, OF 2(2)] by blast
  moreover have "sorted (map key (exchange_sort lt (snd ?p)))" using 2(1) [OF 2(2)] by simp
  ultimately show ?case by (simp only: exchange_sort.simps list.map sorted_wrt.simps set_map set_exchange_sort) auto
qed simp

section \<open>Schema references\<close>

text \<open>\<open>strings.IndexByte\<close> and \<open>LastIndexByte\<close> split a text at a byte.\<close>

definition before_byte :: "char \<Rightarrow> string \<Rightarrow> string" where
  "before_byte c s = takeWhile (\<lambda>x. x \<noteq> c) s"

definition after_byte :: "char \<Rightarrow> string \<Rightarrow> string" where
  "after_byte c s = tl (dropWhile (\<lambda>x. x \<noteq> c) s)"

definition before_last :: "char \<Rightarrow> string \<Rightarrow> string" where
  "before_last c s = rev (after_byte c (rev s))"

definition after_last :: "char \<Rightarrow> string \<Rightarrow> string" where
  "after_last c s = rev (before_byte c (rev s))"

text \<open>\<open>strings.Index\<close>: the text before the first occurrence of \<open>t\<close>.\<close>

fun before_text :: "string \<Rightarrow> string \<Rightarrow> string option" where
  "before_text t [] = (if t = [] then Some [] else None)"
| "before_text t (c # s) =
    (if HasPrefix (c # s) t then Some []
     else (case before_text t s of None \<Rightarrow> None | Some p \<Rightarrow> Some (c # p)))"

definition SchemaObjectPrefix :: string where "SchemaObjectPrefix = ''schema/''"

record ParsedSchemaRef =
  psObject :: string
  psCommit :: string
  psRepository :: string

definition IsSchemaObject :: "string \<Rightarrow> bool" where
  "IsSchemaObject k = HasPrefix k SchemaObjectPrefix"

definition splitObjectCommit :: "string \<Rightarrow> string \<times> string" where
  "splitObjectCommit ref =
    (if ContainsChar ref CHR ''@'' \<and> before_last CHR ''@'' ref \<noteq> []
     then (before_last CHR ''@'' ref, after_last CHR ''@'' ref) else (ref, []))"

definition parse_kc_ref :: "string \<Rightarrow> ParsedSchemaRef option" where
  "parse_kc_ref rest =
    (if ContainsChar rest CHR ''@''
     then (let after = after_byte CHR ''@'' rest in
       if \<not> ContainsChar after CHR ''/'' then None
       else (let commit = before_byte CHR ''/'' after; object = after_byte CHR ''/'' after in
         if \<not> IsSchemaObject object \<or> commit = [] then None
         else Some \<lparr>psObject = object, psCommit = commit,
           psRepository = ''kr://'' @ before_byte CHR ''@'' rest\<rparr>))
     else (case before_text (''/'' @ SchemaObjectPrefix) rest of
       None \<Rightarrow> None
     | Some repository \<Rightarrow>
         (let object = drop (length repository + 1) rest in
          if IsSchemaObject object
          then Some \<lparr>psObject = object, psCommit = [], psRepository = ''kr://'' @ repository\<rparr>
          else None)))"

definition ParseSchemaRef :: "string \<Rightarrow> ParsedSchemaRef option" where
  "ParseSchemaRef ref0 =
    (let ref = TrimSpace ref0 in
     if ref = [] then None
     else if HasPrefix ref ''kc://'' then parse_kc_ref (TrimPrefix ref ''kc://'')
     else (case splitObjectCommit ref of (object, commit) \<Rightarrow>
       if \<not> IsSchemaObject object then None
       else Some \<lparr>psObject = object, psCommit = commit, psRepository = []\<rparr>))"

lemma ParseSchemaRef_object: "ParseSchemaRef ref = Some p \<Longrightarrow> IsSchemaObject (psObject p)"
  by (auto simp: ParseSchemaRef_def parse_kc_ref_def Let_def split: if_splits option.splits prod.splits)

section \<open>Fields\<close>

datatype FieldRef = FieldRef (frSchema: string) (frAspect: string) (frPath: string)

definition unit_sep :: string where "unit_sep = [CHR 0x1F]"

definition FieldRef_Key :: "FieldRef \<Rightarrow> string" where
  "FieldRef_Key f = frSchema f @ unit_sep @ frAspect f @ unit_sep @ frPath f"

text \<open>Fields are ordered by schema, aspect and path.\<close>

instantiation FieldRef :: linorder
begin

definition less_eq_FieldRef :: "FieldRef \<Rightarrow> FieldRef \<Rightarrow> bool" where
  "less_eq_FieldRef a b = (if frSchema a \<noteq> frSchema b then frSchema a < frSchema b
     else if frAspect a \<noteq> frAspect b then frAspect a < frAspect b else frPath a \<le> frPath b)"

definition less_FieldRef :: "FieldRef \<Rightarrow> FieldRef \<Rightarrow> bool" where
  "less_FieldRef a b = (if frSchema a \<noteq> frSchema b then frSchema a < frSchema b
     else if frAspect a \<noteq> frAspect b then frAspect a < frAspect b else frPath a < frPath b)"

instance
  by standard (auto simp: less_eq_FieldRef_def less_FieldRef_def FieldRef.expand split: if_splits)

end

definition HintFilter :: string where "HintFilter = ''filter''"
definition HintText :: string where "HintText = ''text''"
definition HintSort :: string where "HintSort = ''sort''"

lemmas hint_names = HintFilter_def HintText_def HintSort_def

record AccessField =
  afRef :: FieldRef
  afEntity :: string
  afType :: string
  afAccess :: "string list"

record AccessSpec =
  asRepository :: string
  asCommit :: string
  asFields :: "AccessField list"
  asSchemas :: "string list"
  asDigest :: string

definition AccessField_Has :: "AccessField \<Rightarrow> string \<Rightarrow> bool" where
  "AccessField_Has f hint = list_ex (\<lambda>item. item = hint) (afAccess f)"

definition HasHint :: "AccessSpec \<Rightarrow> string \<Rightarrow> bool" where
  "HasHint s hint = list_ex (\<lambda>field. AccessField_Has field hint) (asFields s)"

definition QueryLanes :: "AccessSpec \<Rightarrow> string list" where
  "QueryLanes s = map snd (filter (\<lambda>(hint, name). HasHint s hint)
     [(HintFilter, ''filter''), (HintText, ''text''), (HintSort, ''sort'')])"

definition indexFieldLess :: "AccessField \<Rightarrow> AccessField \<Rightarrow> bool" where
  "indexFieldLess a b = (if frSchema (afRef a) \<noteq> frSchema (afRef b) then frSchema (afRef a) < frSchema (afRef b)
     else if frAspect (afRef a) \<noteq> frAspect (afRef b) then frAspect (afRef a) < frAspect (afRef b)
     else frPath (afRef a) < frPath (afRef b))"

definition sortAccessFields :: "AccessField list \<Rightarrow> AccessField list" where
  "sortAccessFields fs = exchange_sort indexFieldLess fs"

definition sortSchemaIDs :: "string list \<Rightarrow> string list" where
  "sortSchemaIDs xs = exchange_sort (\<lambda>a b. a < b) xs"

lemma indexFieldLess_iff: "indexFieldLess a b \<longleftrightarrow> afRef a < afRef b"
  by (simp add: indexFieldLess_def less_FieldRef_def)

lemma sortAccessFields_sorted: "sorted (map afRef (sortAccessFields fs))"
  unfolding sortAccessFields_def by (rule exchange_sort_sorted) (rule indexFieldLess_iff)

lemma set_sortAccessFields [simp]: "set (sortAccessFields fs) = set fs"
  by (simp add: sortAccessFields_def)

definition ref_matches :: "FieldRef \<Rightarrow> AccessField \<Rightarrow> bool" where
  "ref_matches ref field =
    (if frSchema ref \<noteq> [] \<and> frSchema (afRef field) \<noteq> frSchema ref then False
     else if frAspect ref \<noteq> [] \<and> frAspect (afRef field) \<noteq> frAspect ref then False
     else frPath (afRef field) = frPath ref)"

definition ResolveField :: "AccessSpec \<Rightarrow> FieldRef \<Rightarrow> AccessField go" where
  "ResolveField s ref =
    (let matches = filter (ref_matches ref) (asFields s) in
     if length matches = 0 then fails ErrCapabilityUnsatisfied
     else if length matches > 1 then fails ErrUsageInvalid
     else Inr (matches ! 0))"

lemma ResolveField_filter: "ResolveField s ref = Inr field \<longleftrightarrow> filter (ref_matches ref) (asFields s) = [field]"
proof (cases "filter (ref_matches ref) (asFields s)")
  case (Cons x xs)
  then show ?thesis by (cases xs) (simp_all add: ResolveField_def)
qed (simp add: ResolveField_def)

lemma ResolveField_Inr:
  assumes "ResolveField s ref = Inr field"
  shows "field \<in> set (asFields s)" "ref_matches ref field"
proof -
  have "field \<in> set (filter (ref_matches ref) (asFields s))"
    using assms unfolding ResolveField_filter by simp
  then show "field \<in> set (asFields s)" "ref_matches ref field" by simp_all
qed

text \<open>A resolved reference names its field for good: the full reference finds the same field again.\<close>

lemma ResolveField_again:
  assumes "ResolveField s ref = Inr field"
  shows "ResolveField s (afRef field) = Inr field"
proof -
  note one = assms [unfolded ResolveField_filter]
  have "ref_matches (afRef field) x \<Longrightarrow> ref_matches ref x" for x
    using ResolveField_Inr(2) [OF assms] by (auto simp: ref_matches_def split: if_splits)
  then have "filter (ref_matches (afRef field)) (asFields s) =
      filter (ref_matches (afRef field)) (filter (ref_matches ref) (asFields s))"
    by (auto intro: filter_cong)
  also have "\<dots> = [field]" unfolding one by (simp add: ref_matches_def)
  finally show ?thesis unfolding ResolveField_filter .
qed

section \<open>Specs of a schema report\<close>

record FieldAccess =
  faPath :: string
  faType :: string
  faAccess :: "string list"

record SchemaDescription =
  sdObjectID :: string
  sdMetaSchema :: string
  sdEntity :: string
  sdAspect :: string
  sdPattern :: string
  sdAdditionalProperties :: bool
  sdOrigin :: string
  sdFields :: "FieldAccess list"
  sdDigest :: string

record SchemaReport =
  rpRepository :: string
  rpCommit :: string
  rpSchemas :: "SchemaDescription list"

text \<open>\<open>omitempty\<close> members of a JSON object.\<close>

definition omit_empty :: "string \<Rightarrow> string \<Rightarrow> (string \<times> json) list" where
  "omit_empty name v = (if v = [] then [] else [(name, JString v)])"

definition field_ref_members :: "FieldRef \<Rightarrow> (string \<times> json) list" where
  "field_ref_members f = [(''schema'', JString (frSchema f))] @ omit_empty ''aspect'' (frAspect f) @
     [(''path'', JString (frPath f))]"

definition access_field_json :: "AccessField \<Rightarrow> json" where
  "access_field_json f = JObject (field_ref_members (afRef f) @ omit_empty ''entity'' (afEntity f) @
     omit_empty ''type'' (afType f) @ [(''access'', JArray (map JString (afAccess f)))])"

definition schema_fields :: "SchemaDescription \<Rightarrow> AccessField list" where
  "schema_fields schema = map (\<lambda>field. \<lparr>afRef = FieldRef (sdObjectID schema) (sdAspect schema) (faPath field),
       afEntity = sdEntity schema, afType = faType field, afAccess = faAccess field\<rparr>)
     (filter (\<lambda>field. length (faAccess field) \<noteq> 0) (sdFields schema))"

definition AccessSpecFromReport :: "(string \<Rightarrow> string) \<Rightarrow> SchemaReport \<Rightarrow> AccessSpec" where
  "AccessSpecFromReport sha report =
    (let fs = sortAccessFields (concat (map schema_fields (rpSchemas report)));
         schemas = map sdObjectID (filter (\<lambda>schema. schema_fields schema \<noteq> []) (rpSchemas report)) in
     \<lparr>asRepository = rpRepository report, asCommit = rpCommit report, asFields = fs,
      asSchemas = sortSchemaIDs schemas, asDigest = CanonicalDigest sha (JArray (map access_field_json fs))\<rparr>)"

definition wanted_schemas :: "string list \<Rightarrow> string list" where
  "wanted_schemas refs = concat (map (\<lambda>ref. case ParseSchemaRef ref of None \<Rightarrow> [] | Some p \<Rightarrow> [psObject p]) refs)"

definition AccessSpec_Bind :: "string list \<Rightarrow> AccessSpec \<Rightarrow> AccessSpec" where
  "AccessSpec_Bind refs s =
    (if length refs = 0 then s
     else (let want = wanted_schemas refs in
       if length want = 0 then s
       else (let fs = filter (\<lambda>field. frSchema (afRef field) \<in> set want) (asFields s) in
         \<lparr>asRepository = asRepository s, asCommit = asCommit s, asFields = fs,
          asSchemas = dedup (map (\<lambda>field. frSchema (afRef field)) fs), asDigest = asDigest s\<rparr>)))"

lemma spec_fields:
  "f \<in> set (asFields (AccessSpecFromReport sha report)) \<longleftrightarrow>
   (\<exists>schema \<in> set (rpSchemas report). f \<in> set (schema_fields schema))"
  by (simp add: AccessSpecFromReport_def Let_def)

lemma schema_field_usable: "f \<in> set (schema_fields schema) \<Longrightarrow> afAccess f \<noteq> [] \<and> frSchema (afRef f) = sdObjectID schema"
  by (auto simp: schema_fields_def)

lemma Bind_fields_subset: "set (asFields (AccessSpec_Bind refs s)) \<subseteq> set (asFields s)"
  by (auto simp: AccessSpec_Bind_def Let_def)

end
