(* ===== verification/Scalar.thy ===== *)
theory Scalar
  imports CanonicalNumber
begin

text \<open>
  Scalar literals of a search, \<open>src/retrieval/scalar.go\<close>: every provider compares the canonical text of a
  value under the declared type of its field.  \<open>strconv.ParseFloat\<close> with \<open>FormatFloat\<close> and \<open>time.Parse\<close> with
  the time formats are the fields of \<open>scalar_lib\<close>.
\<close>

section \<open>Go strings and integers\<close>

text \<open>\<open>strings.ToLower\<close> on a text that is only compared with ASCII words: the ASCII letters, and the two
  letters outside ASCII with an ASCII lower case (U+0130 and U+212A).\<close>

definition lower_char :: "char \<Rightarrow> char" where
  "lower_char c = (if CHR ''A'' \<le> c \<and> c \<le> CHR ''Z'' then char_of (of_char c + (32 :: nat)) else c)"

fun ToLower :: "string \<Rightarrow> string" where
  "ToLower [] = []"
| "ToLower (c # s) =
    (if HasPrefix (c # s) [CHR 0xC4, CHR 0xB0] then CHR ''i'' # ToLower (drop 1 s)
     else if HasPrefix (c # s) [CHR 0xE2, CHR 0x84, CHR 0xAA] then CHR ''k'' # ToLower (drop 2 s)
     else lower_char c # ToLower s)"

definition int64 :: "int \<Rightarrow> bool" where
  "int64 i = (- (2 ^ 63) \<le> i \<and> i < 2 ^ 63)"

text \<open>\<open>strconv.ParseInt(s, 10, 64)\<close> and \<open>strconv.FormatInt\<close>.\<close>

definition ParseInt64 :: "string \<Rightarrow> int option" where
  "ParseInt64 s = (case SetString s of None \<Rightarrow> None | Some i \<Rightarrow> if int64 i then Some i else None)"

definition FormatInt :: "int \<Rightarrow> string" where
  "FormatInt i = big_String i"

definition ParseBool :: "string \<Rightarrow> bool option" where
  "ParseBool s =
    (if s \<in> {''1'', ''t'', ''T'', ''TRUE'', ''true'', ''True''} then Some True
     else if s \<in> {''0'', ''f'', ''F'', ''FALSE'', ''false'', ''False''} then Some False
     else None)"

definition FormatBool :: "bool \<Rightarrow> string" where
  "FormatBool b = (if b then ''true'' else ''false'')"

section \<open>Integers\<close>

text \<open>The submatches of \<open>^([+-]?)([0-9]+)(?:\.([0-9]+))?(?:[eE]([+-]?[0-9]+))?$\<close>.\<close>

definition literal_sign :: "string \<Rightarrow> string" where
  "literal_sign raw = (if raw \<noteq> [] \<and> (hd raw = CHR ''+'' \<or> hd raw = CHR ''-'') then [hd raw] else [])"

definition integerLiteral :: "string \<Rightarrow> (string \<times> string \<times> string \<times> string) option" where
  "integerLiteral raw =
    (let sign = literal_sign raw;
         r = drop (length sign) raw;
         whole = takeWhile is_digit r; r1 = dropWhile is_digit r;
         fraction = (if r1 \<noteq> [] \<and> hd r1 = CHR ''.'' then takeWhile is_digit (tl r1) else []);
         r2 = (if fraction = [] then r1 else dropWhile is_digit (tl r1)) in
     if whole = [] then None
     else if r2 = [] then Some (sign, whole, fraction, [])
     else if is_exp_mark (hd r2) \<and> valid_exponent (tl r2) then Some (sign, whole, fraction, tl r2)
     else None)"

definition shifted_integer :: "string \<Rightarrow> string \<Rightarrow> int \<Rightarrow> string go" where
  "shifted_integer sign digits shift =
    (if shift < 0 \<or> int (length digits) + shift > 19 then fails ErrUsageInvalid
     else (case ParseInt64 (sign @ digits @ replicate (nat shift) CHR ''0'') of
       None \<Rightarrow> fails ErrUsageInvalid
     | Some value \<Rightarrow> Inr (FormatInt value)))"

definition normalizeInteger :: "string \<Rightarrow> string go" where
  "normalizeInteger raw =
    (case integerLiteral raw of
      None \<Rightarrow> fails ErrUsageInvalid
    | Some (sign, whole, fraction, x) \<Rightarrow>
        (let digits = dropWhile (\<lambda>c. c = CHR ''0'') (whole @ fraction) in
         if digits = [] then Inr ''0''
         else (case (if x \<noteq> [] then ParseInt64 x else Some 0) of
           None \<Rightarrow> fails ErrUsageInvalid
         | Some exponent \<Rightarrow>
             if exponent > int (length fraction) + 19 \<or> exponent < - int (length digits)
             then fails ErrUsageInvalid
             else (let trimmed = trim_zeros digits in
               shifted_integer sign trimmed
                 (exponent - int (length fraction) + (int (length digits) - int (length trimmed)))))))"

section \<open>Literals and values\<close>

text \<open>A literal of a number or of a time in canonical form, None when the text does not parse.\<close>

record scalar_lib =
  slFloat :: "string \<Rightarrow> string option"
  slDate :: "string \<Rightarrow> string option"
  slTime :: "string \<Rightarrow> string option"

definition scalar_option :: "string option \<Rightarrow> string go" where
  "scalar_option r = (case r of None \<Rightarrow> fails ErrUsageInvalid | Some v \<Rightarrow> Inr v)"

definition string_types :: "string list" where
  "string_types = [[], ''string'', ''object_ref'', ''object_ref_list'']"

definition integer_types :: "string list" where "integer_types = [''int'', ''integer'', ''long'']"

definition float_types :: "string list" where "float_types = [''number'', ''float'', ''double'']"

definition time_types :: "string list" where "time_types = [''datetime'', ''timestamp'']"

definition type_name :: "string \<Rightarrow> string" where
  "type_name fieldType = ToLower (TrimSpace fieldType)"

definition integerType :: "string \<Rightarrow> bool" where
  "integerType fieldType = (type_name fieldType \<in> set integer_types)"

definition NormalizeScalarLiteral :: "scalar_lib \<Rightarrow> string \<Rightarrow> string \<Rightarrow> string go" where
  "NormalizeScalarLiteral lib fieldType raw =
    (let t = type_name fieldType in
     if t \<in> set string_types then Inr raw
     else if t \<in> {''bool'', ''boolean''} then
       (case ParseBool raw of None \<Rightarrow> fails ErrUsageInvalid | Some v \<Rightarrow> Inr (FormatBool v))
     else if t \<in> set integer_types then
       (case normalizeInteger raw of Inl _ \<Rightarrow> fails ErrUsageInvalid | Inr v \<Rightarrow> Inr v)
     else if t \<in> set float_types then scalar_option (slFloat lib raw)
     else if t = ''date'' then scalar_option (slDate lib raw)
     else if t \<in> set time_types then scalar_option (slTime lib raw)
     else fails ErrUsageInvalid)"

definition RangeType :: "string \<Rightarrow> bool" where
  "RangeType t = (type_name t \<in> set (integer_types @ float_types @ ''date'' # time_types))"

definition StringType :: "string \<Rightarrow> bool" where
  "StringType t = (type_name t \<in> {[], ''string''})"

section \<open>Values of a document\<close>

text \<open>The scalars of a decoded document.  \<open>'f\<close> stands for the floats: whether one is a finite integer, its
  texts in the formats \<open>f\<close> and \<open>g\<close>; \<open>flLess\<close> and \<open>flTime\<close> order the texts of floats and of times.\<close>

datatype 'f go_scalar = GsNil | GsString string | GsNumber string | GsFloat 'f | GsInt int | GsBool bool | GsOther

record 'f float_lib =
  flIntegral :: "'f \<Rightarrow> bool"
  flFixed :: "'f \<Rightarrow> string"
  flShort :: "'f \<Rightarrow> string"
  flLess :: "string \<Rightarrow> string \<Rightarrow> bool"
  flTime :: "string \<Rightarrow> string \<Rightarrow> int go"

definition scalar_text :: "'f float_lib \<Rightarrow> string \<Rightarrow> 'f go_scalar \<Rightarrow> string option" where
  "scalar_text fl fieldType v =
    (case v of
      GsString s \<Rightarrow> Some s
    | GsNumber s \<Rightarrow> Some s
    | GsFloat f \<Rightarrow>
        if integerType fieldType then (if flIntegral fl f then Some (flFixed fl f) else None)
        else Some (flShort fl f)
    | GsInt i \<Rightarrow> Some (FormatInt i)
    | GsBool b \<Rightarrow> Some (FormatBool b)
    | _ \<Rightarrow> None)"

definition NormalizeScalarValue :: "scalar_lib \<Rightarrow> 'f float_lib \<Rightarrow> string \<Rightarrow> 'f go_scalar \<Rightarrow> string option" where
  "NormalizeScalarValue lib fl fieldType v =
    (case scalar_text fl fieldType v of
      None \<Rightarrow> None
    | Some raw \<Rightarrow> (case NormalizeScalarLiteral lib fieldType raw of Inl _ \<Rightarrow> None | Inr s \<Rightarrow> Some s))"

definition order_of :: "bool \<Rightarrow> bool \<Rightarrow> int" where
  "order_of lt gt = (if lt then - 1 else if gt then 1 else 0)"

definition parsed :: "string \<Rightarrow> int" where
  "parsed s = (case ParseInt64 s of Some i \<Rightarrow> i | None \<Rightarrow> 0)"

definition CompareScalarValues :: "scalar_lib \<Rightarrow> 'f float_lib \<Rightarrow> string \<Rightarrow> 'f go_scalar \<Rightarrow> 'f go_scalar \<Rightarrow>
    int go" where
  "CompareScalarValues lib fl fieldType left right =
    (case NormalizeScalarValue lib fl fieldType left of
      None \<Rightarrow> fails ErrUsageInvalid
    | Some l \<Rightarrow>
        (case NormalizeScalarValue lib fl fieldType right of
          None \<Rightarrow> fails ErrUsageInvalid
        | Some r \<Rightarrow>
            (let t = type_name fieldType in
             if t \<in> set integer_types then Inr (order_of (parsed l < parsed r) (parsed r < parsed l))
             else if t \<in> set float_types then Inr (order_of (flLess fl l r) (flLess fl r l))
             else if t \<in> set time_types then flTime fl l r
             else Inr (order_of (l < r) (r < l)))))"

section \<open>The value of an integer literal\<close>

definition literal_value :: "string \<times> string \<times> string \<times> string \<Rightarrow> rat" where
  "literal_value p = (case p of (sign, whole, fraction, x) \<Rightarrow>
     (if sign = ''-'' then - 1 else 1) *
     scaled (nat_of_digits (whole @ fraction))
       ((if x = [] then 0 else the (SetString x)) - int (length fraction)))"

text \<open>What the normal form of a number is: its decimal text when it is an integer of 64 bits.\<close>

definition int64_text :: "rat \<Rightarrow> string go" where
  "int64_text v = (if of_int \<lfloor>v\<rfloor> = v \<and> int64 \<lfloor>v\<rfloor> then Inr (FormatInt \<lfloor>v\<rfloor>) else fails ErrUsageInvalid)"

lemma int64_text_of_int: "int64_text (of_int i) = (if int64 i then Inr (FormatInt i) else fails ErrUsageInvalid)"
  by (simp add: int64_text_def)

lemma scaled_nonneg: "0 \<le> e \<Longrightarrow> scaled m e = of_nat (m * 10 ^ nat e)"
  by (simp add: scaled_def power_int_def)

lemma scaled_not_integer:
  assumes "e < 0" "m mod 10 \<noteq> 0" shows "scaled m e \<noteq> of_int i"
proof
  assume eq: "scaled m e = of_int i"
  have "0 < m" using assms(2) by (cases m) auto
  then have "0 < i" using scaled_pos [of m e] eq by simp
  then have "scaled (nat i) 0 = scaled m e" using eq by (simp add: scaled_def)
  from scaled_unique_le [OF this assms(2)] show False using assms(1) by simp
qed

lemma not_integer_text: "e < 0 \<Longrightarrow> m mod 10 \<noteq> 0 \<Longrightarrow> s = 1 \<or> s = - 1 \<Longrightarrow>
    int64_text (s * scaled m e) = fails ErrUsageInvalid"
proof -
  assume e: "e < 0" "m mod 10 \<noteq> 0" and s: "s = 1 \<or> s = - 1"
  have "of_int i \<noteq> s * scaled m e" for i
    using s scaled_not_integer [OF e, of i] scaled_not_integer [OF e, of "- i"] by auto
  then show ?thesis by (simp add: int64_text_def)
qed

lemma signed_text:
  assumes "0 \<le> e" "s = 1 \<or> s = - 1"
  shows "int64_text (of_int s * scaled m e) =
    (if int64 (s * int (m * 10 ^ nat e)) then Inr (FormatInt (s * int (m * 10 ^ nat e))) else fails ErrUsageInvalid)"
proof -
  have "of_int s * scaled m e = of_int (s * int (m * 10 ^ nat e))"
    by (simp add: scaled_nonneg [OF assms(1)])
  then show ?thesis by (simp only: int64_text_of_int)
qed

lemma too_large_text:
  assumes "0 \<le> e" "2 ^ 63 < m * 10 ^ nat e" "s = 1 \<or> s = - 1"
  shows "int64_text (of_int s * scaled m e) = fails ErrUsageInvalid"
proof -
  have "2 ^ 63 < int (m * 10 ^ nat e)" using assms(2) by (metis of_nat_less_iff of_nat_numeral of_nat_power)
  then have "\<not> int64 (s * int (m * 10 ^ nat e))" using assms(3) by (auto simp: int64_def)
  then show ?thesis by (simp only: signed_text [OF assms(1,3)] if_False)
qed

text \<open>Shifting the significant digits of a literal gives its value, when that is an integer of 64 bits.\<close>

definition sign_of :: "string \<Rightarrow> int" where
  "sign_of sign = (if sign = ''-'' then - 1 else 1)"

lemma ParseInt64_signed:
  assumes "sign \<in> {[], ''+'', ''-''}" "list_all is_digit d" "d \<noteq> []"
  shows "ParseInt64 (sign @ d) = (if int64 (sign_of sign * int (nat_of_digits d))
    then Some (sign_of sign * int (nat_of_digits d)) else None)"
proof -
  have "all_digits d" "hd d \<noteq> CHR ''-''" "hd d \<noteq> CHR ''+''"
    using assms(2,3) by (simp add: all_digits_def, (cases d; auto)+)
  then have "SetString (sign @ d) = Some (sign_of sign * int (nat_of_digits d))"
    using assms(1,3) by (cases d) (auto simp: SetString_def sign_of_def)
  then show ?thesis by (simp add: ParseInt64_def)
qed

lemma power_19: "(2 :: nat) ^ 63 < 10 ^ 19"
  by simp

lemma shifted_integer_value:
  assumes "significant d" "sign \<in> {[], ''+'', ''-''}"
  shows "shifted_integer sign d shift = int64_text (of_int (sign_of sign) * scaled (nat_of_digits d) shift)"
proof -
  let ?m = "nat_of_digits d"
  have s: "sign_of sign = 1 \<or> sign_of sign = - 1" by (simp add: sign_of_def)
  have d: "list_all is_digit d" "d \<noteq> []" "hd d \<noteq> CHR ''0''" using assms(1) by (auto simp: significant_def)
  show ?thesis
  proof (cases "shift < 0")
    case True
    have "int64_text (of_int (sign_of sign) * scaled ?m shift) = fails ErrUsageInvalid"
      by (rule not_integer_text [OF True significant_mod [OF assms(1)]]) (use s in auto)
    then show ?thesis using True by (simp add: shifted_integer_def)
  next
    case False
    then have sh: "0 \<le> shift" by simp
    show ?thesis
    proof (cases "int (length d) + shift > 19")
      case True
      have "19 \<le> length d - 1 + nat shift" using True sh d(2) by (cases d) auto
      then have "(10 :: nat) ^ 19 \<le> 10 ^ (length d - 1 + nat shift)" by (rule power_increasing) simp
      also have "\<dots> = 10 ^ (length d - 1) * 10 ^ nat shift" by (rule power_add)
      also have "\<dots> \<le> ?m * 10 ^ nat shift" using leading_digit_bound [OF d] by (rule mult_le_mono1)
      finally have "2 ^ 63 < ?m * 10 ^ nat shift" using power_19 by (rule less_le_trans [rotated])
      then show ?thesis using True too_large_text [OF sh _ s] by (simp add: shifted_integer_def)
    next
      case small: False
      have "list_all is_digit (d @ replicate (nat shift) CHR ''0'')" using d(1) by (auto simp: list_all_iff)
      from ParseInt64_signed [OF assms(2) this] d(2)
      have "ParseInt64 (sign @ d @ replicate (nat shift) CHR ''0'') =
          (if int64 (sign_of sign * int (?m * 10 ^ nat shift))
           then Some (sign_of sign * int (?m * 10 ^ nat shift)) else None)"
        by (simp add: decimal_simps)
      then show ?thesis using small sh by (simp add: shifted_integer_def signed_text [OF sh s])
    qed
  qed
qed

lemma literal_parts:
  assumes "integerLiteral raw = Some (sign, w, f, x)"
  shows "sign \<in> {[], ''+'', ''-''}" "list_all is_digit w" "w \<noteq> []" "list_all is_digit f"
    "x \<noteq> [] \<Longrightarrow> valid_exponent x" "length f \<le> length raw" "length w + length f \<le> length raw"
proof -
  let ?r = "drop (length (literal_sign raw)) raw"
  let ?r1 = "dropWhile is_digit ?r"
  have s: "sign = literal_sign raw" "w = takeWhile is_digit ?r" "w \<noteq> []"
    "f = (if ?r1 \<noteq> [] \<and> hd ?r1 = CHR ''.'' then takeWhile is_digit (tl ?r1) else [])"
    using assms unfolding integerLiteral_def Let_def by (simp_all only: split: if_splits option.splits) auto
  show "sign \<in> {[], ''+'', ''-''}" by (auto simp: s(1) literal_sign_def)
  show "list_all is_digit w" "w \<noteq> []" "list_all is_digit f" using s(2-4) takeWhile_digits by auto
  show "x \<noteq> [] \<Longrightarrow> valid_exponent x"
    using assms unfolding integerLiteral_def Let_def by (auto simp only: split: if_splits)
  have "length w + length ?r1 = length ?r" unfolding s(2) by (metis length_append takeWhile_dropWhile_id)
  moreover have "length f \<le> length ?r1"
    using length_takeWhile_le [of is_digit "tl ?r1"] by (auto simp: s(4))
  ultimately show "length w + length f \<le> length raw" by simp
  then show "length f \<le> length raw" by simp
qed

lemma large_shift_text:
  assumes "19 \<le> shift" "significant d" "s = 1 \<or> s = - 1"
  shows "int64_text (of_int s * scaled (nat_of_digits d) shift) = fails ErrUsageInvalid"
proof -
  have "1 * 10 ^ nat shift \<le> nat_of_digits d * 10 ^ nat shift"
    using significant_mod [OF assms(2)] by (intro mult_le_mono1) (cases "nat_of_digits d", auto)
  moreover have "(10 :: nat) ^ 19 \<le> 10 ^ nat shift" using assms(1) by (intro power_increasing) auto
  ultimately have "2 ^ 63 < nat_of_digits d * 10 ^ nat shift" using power_19 by linarith
  then show ?thesis using too_large_text assms(1,3) by simp
qed

lemma normalizeInteger_value:
  assumes "integerLiteral raw = Some p" "length raw < 2 ^ 62"
  shows "normalizeInteger raw = int64_text (literal_value p)"
proof -
  obtain sign w f x where p: "p = (sign, w, f, x)" by (cases p)
  note parts = literal_parts [OF assms(1) [unfolded p]]
  let ?z = "dropWhile (\<lambda>c. c = CHR ''0'') (w @ f)"
  let ?X = "if x = [] then 0 else the (SetString x)"
  have s: "sign_of sign = 1 \<or> sign_of sign = - 1" by (simp add: sign_of_def)
  have lv: "literal_value p = of_int (sign_of sign) * scaled (nat_of_digits (w @ f)) (?X - int (length f))"
    by (simp add: literal_value_def p sign_of_def)
  show ?thesis
  proof (cases "?z = []")
    case True
    then have "literal_value p = of_int 0" using strip_zeros_Nil by (simp add: lv)
    moreover have "FormatInt 0 = ''0''" by code_simp
    ultimately show ?thesis
      using True assms(1) by (simp only: int64_text_of_int) (simp add: normalizeInteger_def p int64_def)
  next
    case False
    let ?t = "trim_zeros ?z"
    let ?shift = "?X - int (length f) + (int (length ?z) - int (length ?t))"
    have "set ?z \<subseteq> set (w @ f)" by (meson set_dropWhileD subsetI)
    then have z: "list_all is_digit ?z" "hd ?z \<noteq> CHR ''0''"
      using parts(2,4) hd_dropWhile [OF False] by (auto simp: list_all_iff)
    have sig: "significant ?t" using trim_zeros_significant [OF z(1) False z(2)] .
    have split: "?z = ?t @ replicate (length ?z - length ?t) CHR ''0''" by (rule trim_zeros_split)
    have len: "length ?t \<le> length ?z" "length ?z \<le> length raw"
      using arg_cong [OF split, of length] parts(7) length_dropWhile_le [of "\<lambda>c. c = CHR ''0''" "w @ f"] by auto
    have "nat_of_digits (w @ f) = nat_of_digits ?t * 10 ^ (length ?z - length ?t)"
      unfolding nat_of_digits_strip [of "w @ f", symmetric]
      by (subst split) (simp only: decimal_simps length_replicate add_0_right)
    then have "literal_value p = of_int (sign_of sign) * scaled (nat_of_digits ?t) ?shift"
      using len(1) by (simp only: lv scaled_shift of_nat_diff)
    note lv1 = this
    have raw: "int (length raw) < 2 ^ 62" using assms(2) by (metis of_nat_less_iff of_nat_numeral of_nat_power)
    show ?thesis
    proof (cases "if x \<noteq> [] then ParseInt64 x else Some 0")
      case None
      then have "x \<noteq> []" by (auto split: if_splits)
      moreover from this obtain X where "SetString x = Some X" using valid_exponent_SetString parts(5) by blast
      ultimately have X: "SetString x = Some X" "\<not> int64 X" "x \<noteq> []"
        using None by (auto simp: ParseInt64_def split: if_splits)
      have "19 \<le> ?shift \<or> ?shift < 0" using X len parts(6) raw by (auto simp: int64_def)
      then have "int64_text (literal_value p) = fails ErrUsageInvalid"
        unfolding lv1
        using large_shift_text [OF _ sig s] not_integer_text [OF _ significant_mod [OF sig]] s by fastforce
      moreover have "normalizeInteger raw = fails ErrUsageInvalid"
        using None False assms(1) by (simp add: normalizeInteger_def p Let_def)
      ultimately show ?thesis by simp
    next
      case (Some X)
      then have X: "?X = X" by (auto simp: ParseInt64_def split: if_splits option.splits)
      show ?thesis
      proof (cases "X > int (length f) + 19 \<or> X < - int (length ?z)")
        case True
        then have "19 \<le> ?shift \<or> ?shift < 0" using X len by auto
        then have "int64_text (literal_value p) = fails ErrUsageInvalid"
          unfolding lv1
          using large_shift_text [OF _ sig s] not_integer_text [OF _ significant_mod [OF sig]] s by fastforce
        moreover have "normalizeInteger raw = fails ErrUsageInvalid"
          using Some True False assms(1) by (simp add: normalizeInteger_def p Let_def)
        ultimately show ?thesis by simp
      next
        case in_range: False
        then have "normalizeInteger raw = shifted_integer sign ?t ?shift"
          using Some False assms(1) unfolding X
          by (simp add: normalizeInteger_def p Let_def del: dropWhile_eq_Nil_conv)
        then show ?thesis using shifted_integer_value [OF sig parts(1)] lv1 by simp
      qed
    qed
  qed
qed

section \<open>Normal forms\<close>

lemma FormatInt_parses: "int64 i \<Longrightarrow> ParseInt64 (FormatInt i) = Some i"
  by (simp add: ParseInt64_def FormatInt_def)

lemma integer_types_normal:
  "type_name ty \<in> set integer_types \<Longrightarrow>
   NormalizeScalarLiteral lib ty raw = Inr s \<longleftrightarrow> normalizeInteger raw = Inr s"
  by (auto simp: NormalizeScalarLiteral_def string_types_def integer_types_def Let_def split: sum.splits)

lemma shifted_integer_parses: "shifted_integer sign d shift = Inr s \<Longrightarrow> \<exists>i. s = FormatInt i \<and> int64 i"
  unfolding shifted_integer_def ParseInt64_def by (auto split: if_splits option.splits)

lemma normalizeInteger_parses:
  assumes "normalizeInteger raw = Inr s" shows "\<exists>i. s = FormatInt i \<and> int64 i"
proof (cases "integerLiteral raw")
  case None
  then show ?thesis using assms by (simp add: normalizeInteger_def)
next
  case (Some p)
  obtain sign w f x where p: "p = (sign, w, f, x)" by (cases p)
  have "''0'' = FormatInt 0 \<and> int64 0" by code_simp
  moreover have "s = ''0'' \<or> (\<exists>d k. shifted_integer sign d k = Inr s)"
    using assms unfolding normalizeInteger_def Some p option.case prod.case Let_def
    by (simp only: split: if_splits option.splits) blast+
  ultimately show ?thesis using shifted_integer_parses by blast
qed

text \<open>On an integer field a comparison compares the integers themselves.\<close>

lemma integers_compare_exactly:
  assumes "type_name ty \<in> set integer_types"
    and "NormalizeScalarValue lib fl ty left = Some (FormatInt a)" "int64 a"
    and "NormalizeScalarValue lib fl ty right = Some (FormatInt b)" "int64 b"
  shows "CompareScalarValues lib fl ty left right = Inr (if a < b then - 1 else if b < a then 1 else 0)"
  using assms
  by (simp add: CompareScalarValues_def Let_def order_of_def parsed_def FormatInt_parses)

lemma FormatInt_digits:
  "integerLiteral (FormatInt i) = Some (if i < 0 then ''-'' else [], itoa (nat \<bar>i\<bar>), [], [])"
proof -
  have t: "takeWhile is_digit (itoa n) = itoa n" "dropWhile is_digit (itoa n) = []" for n
    using itoa_digits(1) [of n] by (simp_all add: takeWhile_eq_all_conv dropWhile_eq_Nil_conv list_all_iff)
  show ?thesis
  proof (cases "i < 0")
    case True
    then show ?thesis
      by (simp add: FormatInt_def big_String_def integerLiteral_def literal_sign_def t Let_def)
  next
    case False
    have "hd (itoa (nat i)) \<noteq> CHR ''+''" "hd (itoa (nat i)) \<noteq> CHR ''-''" using itoa_hd_not_sign by auto
    then show ?thesis using False
      by (simp add: FormatInt_def big_String_def integerLiteral_def literal_sign_def t Let_def)
  qed
qed

lemma itoa_length: "n \<le> 2 ^ 63 \<Longrightarrow> length (itoa n) \<le> 20"
proof (cases "0 < n")
  case True
  assume n: "n \<le> 2 ^ 63"
  have "10 ^ (length (itoa n) - 1) \<le> n"
    using leading_digit_bound [OF itoa_digits itoa_head [OF True]] by (simp add: nat_of_digits_itoa)
  also have "\<dots> < 10 ^ 19" using n power_19 by linarith
  finally have "length (itoa n) - 1 < 19" by (rule power_less_imp_less_exp [rotated]) simp
  then show ?thesis by simp
next
  case False
  moreover have "itoa 0 = ''0''" by code_simp
  ultimately have "itoa n = ''0''" by simp
  then show ?thesis by simp
qed

lemma FormatInt_length: "int64 i \<Longrightarrow> length (FormatInt i) \<le> 21"
  using itoa_length [of "nat \<bar>i\<bar>"] by (auto simp: int64_def FormatInt_def big_String_def nat_le_iff)

lemma FormatInt_normal:
  assumes "int64 i" shows "normalizeInteger (FormatInt i) = Inr (FormatInt i)"
proof -
  let ?p = "(if i < 0 then ''-'' else [], itoa (nat \<bar>i\<bar>), [], [])"
  have "literal_value ?p = of_int i"
    by (auto simp: literal_value_def scaled_def nat_of_digits_itoa)
  moreover have "length (FormatInt i) < 2 ^ 62"
    using FormatInt_length [OF assms] by (rule le_less_trans) simp
  ultimately show ?thesis
    using normalizeInteger_value [OF FormatInt_digits] assms by (simp only: int64_text_of_int if_True)
qed

text \<open>A normal form is its own normal form, when the library's own formats are.\<close>

definition scalar_lib_ok :: "scalar_lib \<Rightarrow> bool" where
  "scalar_lib_ok lib =
    (\<forall>raw s. (slFloat lib raw = Some s \<longrightarrow> s \<noteq> [] \<and> slFloat lib s = Some s) \<and>
             (slDate lib raw = Some s \<longrightarrow> s \<noteq> [] \<and> slDate lib s = Some s) \<and>
             (slTime lib raw = Some s \<longrightarrow> s \<noteq> [] \<and> slTime lib s = Some s))"

lemma FormatInt_not_Nil: "FormatInt i \<noteq> []"
  by (simp add: FormatInt_def big_String_def)

lemma scalar_lib_okD:
  assumes "scalar_lib_ok lib"
  shows "slFloat lib raw = Some s \<Longrightarrow> s \<noteq> [] \<and> slFloat lib s = Some s"
    "slDate lib raw = Some s \<Longrightarrow> s \<noteq> [] \<and> slDate lib s = Some s"
    "slTime lib raw = Some s \<Longrightarrow> s \<noteq> [] \<and> slTime lib s = Some s"
  using assms unfolding scalar_lib_ok_def by blast+

lemma scalar_option_Inr: "scalar_option r = Inr s \<longleftrightarrow> r = Some s"
  by (simp add: scalar_option_def split: option.splits)

lemma ParseBool_FormatBool: "ParseBool (FormatBool v) = Some v" "FormatBool v \<noteq> []"
  by (cases v; simp add: ParseBool_def FormatBool_def)+

lemma NormalizeScalarLiteral_normal:
  assumes "scalar_lib_ok lib" "NormalizeScalarLiteral lib ty raw = Inr s"
  shows "NormalizeScalarLiteral lib ty s = Inr s \<and> (raw \<noteq> [] \<longrightarrow> s \<noteq> [])"
proof -
  let ?t = "type_name ty"
  note unfold = NormalizeScalarLiteral_def Let_def
  consider "?t \<in> set string_types"
    | "?t \<notin> set string_types" "?t \<in> {''bool'', ''boolean''}"
    | "?t \<notin> set string_types" "?t \<notin> {''bool'', ''boolean''}" "?t \<in> set integer_types"
    | "?t \<notin> set string_types" "?t \<notin> {''bool'', ''boolean''}" "?t \<notin> set integer_types"
    by blast
  then show ?thesis
  proof cases
    case 1
    then show ?thesis using assms(2) by (simp add: unfold)
  next
    case 2
    then obtain v where "s = FormatBool v" using assms(2) by (auto simp: unfold split: option.splits)
    then show ?thesis using 2 by (simp add: unfold ParseBool_FormatBool)
  next
    case 3
    then have "normalizeInteger raw = Inr s" using assms(2) by (simp add: unfold split: sum.splits)
    then obtain i where "s = FormatInt i" "int64 i" using normalizeInteger_parses by blast
    then show ?thesis using 3 by (simp add: unfold FormatInt_normal FormatInt_not_Nil)
  next
    case 4
    then show ?thesis
      using assms(2) scalar_lib_okD [OF assms(1)]
      by (cases "?t \<in> set float_types"; cases "?t = ''date''"; cases "?t \<in> set time_types")
        (simp_all add: unfold scalar_option_Inr)
  qed
qed

section \<open>Properties\<close>

text \<open>C25. Integer literals keep all 64 bits: a decimal or exponent literal normalises to the decimal text of
  its exact value when that value is an integer between \<open>-2^63\<close> and \<open>2^63 - 1\<close>, and is refused in every
  other case, so no literal is rounded, wrapped or truncated, whatever its exponent; a text that is
  not such a literal is refused too.  A Go string is shorter than \<open>2^62\<close> bytes.\<close>

theorem integer_literals_are_exact:
  assumes "length raw < 2 ^ 62"
  shows "normalizeInteger raw = (case integerLiteral raw of
      None \<Rightarrow> fails ErrUsageInvalid
    | Some p \<Rightarrow> (let v = literal_value p in
        if of_int \<lfloor>v\<rfloor> = v \<and> - (2 ^ 63) \<le> \<lfloor>v\<rfloor> \<and> \<lfloor>v\<rfloor> < 2 ^ 63 then Inr (FormatInt \<lfloor>v\<rfloor>)
        else fails ErrUsageInvalid))"
  using normalizeInteger_value [OF _ assms]
  by (cases "integerLiteral raw") (simp_all add: int64_text_def int64_def Let_def normalizeInteger_def)

theorem integer_literals_are_exact_witness:
  "normalizeInteger ''-12.50e1'' = Inr ''-125'' \<and> normalizeInteger ''9223372036854775808'' = fails ErrUsageInvalid"
proof -
  have "integerLiteral ''-12.50e1'' = Some (''-'', ''12'', ''50'', ''1'')"
    "integerLiteral ''9223372036854775808'' = Some ([], ''9223372036854775808'', [], [])" by code_simp+
  moreover have "literal_value (''-'', ''12'', ''50'', ''1'') = - 125"
    "literal_value ([], ''9223372036854775808'', [], []) = 9223372036854775808"
    by (simp_all add: literal_value_def scaled_def nat_of_digits_def digit_val_def SetString_def all_digits_def
        is_digit_def power_int_minus)
  moreover have "FormatInt (- 125) = ''-125''" by code_simp
  moreover have "\<exists>n. rat_of_int n = - 125" by (rule exI [of _ "- 125"]) simp
  ultimately show ?thesis
    using integer_literals_are_exact [of "''-12.50e1''"] integer_literals_are_exact [of "''9223372036854775808''"]
    by simp
qed

end
