(* ===== verification/Search.thy ===== *)
theory Search
  imports AccessFields Scalar
begin

text \<open>
  The search request, \<open>src/retrieval/searchop.go\<close>, \<open>expression.go\<close>, \<open>recall.go\<close> and the query text of
  \<open>embedding.go\<close>: its clauses and All/Any expressions, the checks a request passes, and its resolution
  against the access contract of a commit.
\<close>

section \<open>Requests\<close>

definition OpMatch :: string where "OpMatch = ''MATCH''"
definition OpEQ :: string where "OpEQ = ''EQ''"
definition OpIN :: string where "OpIN = ''IN''"
definition OpNEQ :: string where "OpNEQ = ''NEQ''"
definition OpExists :: string where "OpExists = ''EXISTS''"
definition OpMissing :: string where "OpMissing = ''MISSING''"
definition OpPrefix :: string where "OpPrefix = ''PREFIX''"
definition OpContains :: string where "OpContains = ''CONTAINS''"
definition OpGT :: string where "OpGT = ''GT''"
definition OpGTE :: string where "OpGTE = ''GTE''"
definition OpLT :: string where "OpLT = ''LT''"
definition OpLTE :: string where "OpLTE = ''LTE''"
definition OpSort :: string where "OpSort = ''SORT''"

lemmas search_ops = OpMatch_def OpEQ_def OpIN_def OpNEQ_def OpExists_def OpMissing_def OpPrefix_def
  OpContains_def OpGT_def OpGTE_def OpLT_def OpLTE_def OpSort_def

definition MatchAllTerms :: string where "MatchAllTerms = ''AllTerms''"
definition MatchAnyTerms :: string where "MatchAnyTerms = ''AnyTerms''"
definition MatchPhrase :: string where "MatchPhrase = ''Phrase''"

record SearchClause =
  scOp :: string
  scPath :: string
  scField :: "FieldRef option"
  scValue :: string
  scValues :: "string list"
  scOrder :: string
  scMode :: string

text \<open>\<open>All\<close> and \<open>Any\<close> are slices: None is nil.\<close>

datatype SearchExpr = SearchExpr (seClause: "SearchClause option") (seAll: "SearchExpr list option")
  (seAny: "SearchExpr list option")

record SearchRequest =
  sqClauses :: "SearchClause list"
  sqExpression :: "SearchExpr option"
  sqSort :: "SearchClause option"
  sqLimit :: int
  sqContinuation :: string
  sqRecall :: string

definition DefaultSearchLimit :: int where "DefaultSearchLimit = 100"
definition MaxSearchLimit :: int where "MaxSearchLimit = 1000"
definition MaxSearchExpressionDepth :: nat where "MaxSearchExpressionDepth = 16"
definition MaxSearchExpressionLeaves :: nat where "MaxSearchExpressionLeaves = 256"

definition Locates :: "SearchClause \<Rightarrow> bool" where
  "Locates c = (scOp c \<noteq> OpSort)"

definition SearchLeaf :: "SearchClause \<Rightarrow> SearchExpr" where
  "SearchLeaf clause = SearchExpr (Some clause) None None"

definition SearchAll :: "SearchExpr list \<Rightarrow> SearchExpr" where
  "SearchAll children = SearchExpr None (Some children) None"

definition SearchAny :: "SearchExpr list \<Rightarrow> SearchExpr" where
  "SearchAny children = SearchExpr None None (Some children)"

lemmas search_exprs = SearchLeaf_def SearchAll_def SearchAny_def

definition empty_clause :: SearchClause where
  "empty_clause = \<lparr>scOp = [], scPath = [], scField = None, scValue = [], scValues = [], scOrder = [], scMode = []\<rparr>"

definition SearchMATCHMode :: "string \<Rightarrow> string \<Rightarrow> SearchClause" where
  "SearchMATCHMode text mode = empty_clause\<lparr>scOp := OpMatch, scValue := text, scMode := mode\<rparr>"

definition SearchMATCH :: "string \<Rightarrow> SearchClause" where
  "SearchMATCH text = SearchMATCHMode text MatchAllTerms"

definition SearchRange :: "string \<Rightarrow> string \<Rightarrow> string \<Rightarrow> SearchClause" where
  "SearchRange op path v = empty_clause\<lparr>scOp := op, scPath := path, scValue := v\<rparr>"

definition SearchEQ :: "string \<Rightarrow> string \<Rightarrow> SearchClause" where
  "SearchEQ path v = SearchRange OpEQ path v"

definition SearchIN :: "string \<Rightarrow> string list \<Rightarrow> SearchClause" where
  "SearchIN path vs = empty_clause\<lparr>scOp := OpIN, scPath := path, scValues := vs\<rparr>"

definition SearchSORT :: "string \<Rightarrow> string \<Rightarrow> SearchClause" where
  "SearchSORT path order = empty_clause\<lparr>scOp := OpSort, scPath := path, scOrder := order\<rparr>"

definition SearchOf :: "SearchClause list \<Rightarrow> SearchRequest" where
  "SearchOf clauses = \<lparr>sqClauses = clauses, sqExpression = None, sqSort = None, sqLimit = 0,
     sqContinuation = [], sqRecall = []\<rparr>"

definition SearchWhere :: "SearchExpr \<Rightarrow> SearchRequest" where
  "SearchWhere expression = (SearchOf [])\<lparr>sqExpression := Some expression\<rparr>"

section \<open>Expressions\<close>

text \<open>The leaves in the order \<open>walkSearchExpression\<close> visits them.\<close>

fun walkSearchExpression :: "SearchExpr \<Rightarrow> SearchClause list"
  and walk_children :: "SearchExpr list \<Rightarrow> SearchClause list" where
  "walkSearchExpression (SearchExpr (Some clause) alls anys) = [clause]"
| "walkSearchExpression (SearchExpr None alls (Some anys)) = walk_children anys"
| "walkSearchExpression (SearchExpr None (Some alls) None) = walk_children alls"
| "walkSearchExpression (SearchExpr None None None) = []"
| "walk_children [] = []"
| "walk_children (e # es) = walkSearchExpression e @ walk_children es"

definition SearchPredicate :: "SearchRequest \<Rightarrow> SearchExpr option" where
  "SearchPredicate req =
    (case sqExpression req of
      Some e \<Rightarrow> Some e
    | None \<Rightarrow>
        (let leaves = map SearchLeaf (filter (\<lambda>clause. scOp clause \<noteq> OpSort) (sqClauses req)) in
         case leaves of [] \<Rightarrow> None | [leaf] \<Rightarrow> Some leaf | _ \<Rightarrow> Some (SearchAll leaves)))"

definition SearchSortClause :: "SearchRequest \<Rightarrow> SearchClause option" where
  "SearchSortClause req =
    (case sqSort req of
      Some c \<Rightarrow> Some c
    | None \<Rightarrow> find (\<lambda>clause. scOp clause = OpSort) (sqClauses req))"

definition SearchClauses :: "SearchRequest \<Rightarrow> SearchClause list" where
  "SearchClauses req =
    (case SearchPredicate req of None \<Rightarrow> [] | Some e \<Rightarrow> walkSearchExpression e) @
    (case SearchSortClause req of None \<Rightarrow> [] | Some c \<Rightarrow> [c])"

definition SearchHasOp :: "SearchRequest \<Rightarrow> string \<Rightarrow> bool" where
  "SearchHasOp req op = list_ex (\<lambda>clause. scOp clause = op) (SearchClauses req)"

section \<open>Validation\<close>

definition has_field :: "SearchClause \<Rightarrow> bool" where
  "has_field c = (scPath c \<noteq> [] \<or> (case scField c of None \<Rightarrow> False | Some f \<Rightarrow> frPath f \<noteq> []))"

definition value_ops :: "string list" where
  "value_ops = [OpEQ, OpNEQ, OpPrefix, OpContains, OpGT, OpGTE, OpLT, OpLTE]"

definition validateClause :: "SearchClause \<Rightarrow> unit go" where
  "validateClause c =
    (if scOp c = OpMatch then
       (if TrimSpace (scValue c) = [] then fails ErrUsageInvalid
        else if scMode c \<in> {[], MatchAllTerms, MatchAnyTerms, MatchPhrase} then Inr ()
        else fails ErrUsageInvalid)
     else if scOp c \<in> set value_ops then
       (if \<not> has_field c \<or> scValue c = [] then fails ErrUsageInvalid else Inr ())
     else if scOp c = OpIN then
       (if \<not> has_field c \<or> length (scValues c) = 0 then fails ErrUsageInvalid else Inr ())
     else if scOp c = OpExists \<or> scOp c = OpMissing then
       (if \<not> has_field c then fails ErrUsageInvalid else Inr ())
     else if scOp c = OpSort then
       (if \<not> has_field c then fails ErrUsageInvalid
        else if ToLower (scOrder c) \<in> {[], ''asc'', ''desc''} then Inr ()
        else fails ErrUsageInvalid)
     else fails ErrUsageInvalid)"

definition variants :: "SearchExpr \<Rightarrow> nat" where
  "variants e = (if seClause e \<noteq> None then 1 else 0) + (if seAll e \<noteq> None then 1 else 0) +
     (if seAny e \<noteq> None then 1 else 0)"

text \<open>The counter of leaves is threaded through the walk; the result is its new value.\<close>

fun validateSearchExpression :: "SearchExpr \<Rightarrow> nat \<Rightarrow> nat \<Rightarrow> nat go"
  and validate_children :: "SearchExpr list \<Rightarrow> nat \<Rightarrow> nat \<Rightarrow> nat go" where
  "validateSearchExpression (SearchExpr clause alls anys) depth leaves =
    (if depth > MaxSearchExpressionDepth then fails ErrUsageInvalid
     else if variants (SearchExpr clause alls anys) \<noteq> 1 then fails ErrUsageInvalid
     else (case clause of
       Some c \<Rightarrow>
         if scOp c = OpSort then fails ErrUsageInvalid
         else rbind (validateClause c) (\<lambda>_.
           if leaves + 1 > MaxSearchExpressionLeaves then fails ErrUsageInvalid else Inr (leaves + 1))
     | None \<Rightarrow>
         (case anys of
           Some children \<Rightarrow>
             if length children = 0 then fails ErrUsageInvalid
             else validate_children children (depth + 1) leaves
         | None \<Rightarrow>
             (case alls of
               Some children \<Rightarrow>
                 if length children = 0 then fails ErrUsageInvalid
                 else validate_children children (depth + 1) leaves
             | None \<Rightarrow> fails ErrUsageInvalid))))"
| "validate_children [] depth leaves = Inr leaves"
| "validate_children (child # rest) depth leaves =
    rbind (validateSearchExpression child depth leaves) (\<lambda>leaves'. validate_children rest depth leaves')"

section \<open>Recall\<close>

definition RecallLexical :: string where "RecallLexical = ''lexical''"
definition RecallSemantic :: string where "RecallSemantic = ''semantic''"
definition RecallHybrid :: string where "RecallHybrid = ''hybrid''"

definition ValidRecall :: "string \<Rightarrow> bool" where
  "ValidRecall recall = (recall \<in> {[], RecallLexical, RecallSemantic, RecallHybrid})"

fun expressionHasMatch :: "SearchExpr \<Rightarrow> bool"
  and any_has_match :: "SearchExpr list \<Rightarrow> bool" where
  "expressionHasMatch (SearchExpr (Some clause) alls anys) = (scOp clause = OpMatch)"
| "expressionHasMatch (SearchExpr None None None) = False"
| "expressionHasMatch (SearchExpr None (Some alls) None) = any_has_match alls"
| "expressionHasMatch (SearchExpr None None (Some anys)) = any_has_match anys"
| "expressionHasMatch (SearchExpr None (Some alls) (Some anys)) = (any_has_match alls \<or> any_has_match anys)"
| "any_has_match [] = False"
| "any_has_match (e # es) = (expressionHasMatch e \<or> any_has_match es)"

definition recallableText :: "SearchRequest \<Rightarrow> bool" where
  "recallableText req =
    (case sqExpression req of
      Some e \<Rightarrow> expressionHasMatch e
    | None \<Rightarrow> list_ex (\<lambda>clause. scOp clause = OpMatch) (sqClauses req))"

definition validateRecall :: "SearchRequest \<Rightarrow> unit go" where
  "validateRecall req =
    (if \<not> ValidRecall (sqRecall req) then fails ErrUsageInvalid
     else if sqRecall req = RecallHybrid then fails ErrUsageInvalid
     else if sqRecall req = RecallSemantic \<and> \<not> recallableText req then fails ErrUsageInvalid
     else Inr ())"

text \<open>The texts of the MATCH leaves of a semantic request.\<close>

fun collectExpressionMatches :: "SearchExpr \<Rightarrow> string list"
  and collect_children :: "SearchExpr list \<Rightarrow> string list" where
  "collectExpressionMatches (SearchExpr (Some clause) alls anys) =
    (if scOp clause = OpMatch then [scValue clause] else [])"
| "collectExpressionMatches (SearchExpr None None None) = []"
| "collectExpressionMatches (SearchExpr None (Some alls) None) = collect_children alls"
| "collectExpressionMatches (SearchExpr None None (Some anys)) = collect_children anys"
| "collectExpressionMatches (SearchExpr None (Some alls) (Some anys)) = collect_children alls @ collect_children anys"
| "collect_children [] = []"
| "collect_children (e # es) = collectExpressionMatches e @ collect_children es"

definition collectMatchValues :: "SearchRequest \<Rightarrow> string list" where
  "collectMatchValues request =
    (case sqExpression request of
      Some e \<Rightarrow> collectExpressionMatches e
    | None \<Rightarrow> map scValue (filter (\<lambda>clause. scOp clause = OpMatch) (sqClauses request)))"

definition SemanticQueryText :: "SearchRequest \<Rightarrow> string" where
  "SemanticQueryText request = TrimSpace (Join '' '' (collectMatchValues request))"

section \<open>Checking and resolving a request\<close>

definition located_count :: "SearchClause list \<Rightarrow> nat" where
  "located_count clauses = length (filter Locates clauses)"

definition ValidateSearch :: "SearchRequest \<Rightarrow> unit go" where
  "ValidateSearch req =
    (if sqLimit req < 0 \<or> sqLimit req > MaxSearchLimit then fails ErrUsageInvalid
     else rbind (validateRecall req) (\<lambda>_.
       if sqExpression req \<noteq> None \<and> length (sqClauses req) > 0 then fails ErrUsageInvalid
       else rbind (case sqExpression req of
           Some e \<Rightarrow> rbind (validateSearchExpression e 1 0) (\<lambda>leaves. Inr (leaves, 0))
         | None \<Rightarrow> rbind (each_ok validateClause (sqClauses req)) (\<lambda>_.
             Inr (located_count (sqClauses req), length (sqClauses req) - located_count (sqClauses req))))
         (\<lambda>(located, sorts0).
       rbind (case sqSort req of
           None \<Rightarrow> Inr sorts0
         | Some c \<Rightarrow>
             if scOp c \<noteq> OpSort then fails ErrUsageInvalid
             else rbind (validateClause c) (\<lambda>_. Inr (sorts0 + 1)))
         (\<lambda>sorts.
       if sorts > 1 then fails ErrUsageInvalid
       else if located = 0 then fails ErrUsageInvalid
       else Inr ()))))"

definition AllowsOp :: "AccessField \<Rightarrow> string \<Rightarrow> bool" where
  "AllowsOp field op =
    (if op = OpMatch then AccessField_Has field HintText
     else if op \<in> {OpEQ, OpIN, OpNEQ, OpExists, OpMissing} then AccessField_Has field HintFilter
     else if op \<in> {OpPrefix, OpContains} then AccessField_Has field HintFilter \<and> StringType (afType field)
     else if op \<in> {OpGT, OpGTE, OpLT, OpLTE} then AccessField_Has field HintFilter \<and> RangeType (afType field)
     else if op = OpSort then AccessField_Has field HintSort
     else False)"

definition bare_match :: "SearchClause \<Rightarrow> bool" where
  "bare_match c = (scOp c = OpMatch \<and> scPath c = [] \<and> scField c = None)"

definition clause_ref :: "SearchClause \<Rightarrow> FieldRef" where
  "clause_ref c = (case scField c of Some f \<Rightarrow> f | None \<Rightarrow> FieldRef [] [] (scPath c))"

definition checkClause :: "SearchClause \<Rightarrow> AccessSpec \<Rightarrow> unit go" where
  "checkClause c spec =
    (if bare_match c then (if \<not> HasHint spec HintText then fails ErrCapabilityUnsatisfied else Inr ())
     else if scPath c = [] \<and> (case scField c of None \<Rightarrow> True | Some f \<Rightarrow> frPath f = [])
     then fails ErrUsageInvalid
     else if length (asFields spec) = 0 then fails ErrCapabilityUnsatisfied
     else rbind (ResolveField spec (clause_ref c)) (\<lambda>field.
       if \<not> AllowsOp field (scOp c) then fails ErrCapabilityUnsatisfied else Inr ()))"

definition CheckSearch :: "SearchRequest \<Rightarrow> AccessSpec \<Rightarrow> unit go" where
  "CheckSearch req spec =
    rbind (ValidateSearch req) (\<lambda>_. each_ok (\<lambda>c. checkClause c spec) (SearchClauses req))"

text \<open>The resolved clause is a value; the code writes the normalised \<open>Values\<close> into the array of the
  caller's clause as well.\<close>

definition normalize_values :: "scalar_lib \<Rightarrow> AccessField \<Rightarrow> SearchClause \<Rightarrow> SearchClause go" where
  "normalize_values lib field c =
    (if scOp c = OpMatch \<or> scOp c = OpExists \<or> scOp c = OpMissing \<or> scOp c = OpSort then Inr c
     else rbind (if scOp c \<noteq> OpIN then NormalizeScalarLiteral lib (afType field) (scValue c) else Inr (scValue c))
       (\<lambda>v. rbind (collect (NormalizeScalarLiteral lib (afType field)) (scValues c))
       (\<lambda>vs. Inr (c\<lparr>scValue := v, scValues := vs\<rparr>))))"

definition ResolveSearchClause :: "scalar_lib \<Rightarrow> AccessSpec \<Rightarrow> SearchClause \<Rightarrow> SearchClause go" where
  "ResolveSearchClause lib spec clause =
    rbind (validateClause clause) (\<lambda>_.
    rbind (checkClause clause spec) (\<lambda>_.
      let c = (if scOp clause = OpMatch \<and> scMode clause = [] then clause\<lparr>scMode := MatchAllTerms\<rparr> else clause) in
      if bare_match c then Inr c
      else rbind (ResolveField spec (clause_ref c)) (\<lambda>field.
        normalize_values lib field
          (c\<lparr>scField := Some (afRef field), scPath := FieldRef_Key (afRef field)\<rparr>))))"

fun resolveSearchExpression :: "scalar_lib \<Rightarrow> AccessSpec \<Rightarrow> SearchExpr \<Rightarrow> SearchExpr go"
  and resolve_children :: "scalar_lib \<Rightarrow> AccessSpec \<Rightarrow> SearchExpr list \<Rightarrow> SearchExpr list go" where
  "resolveSearchExpression lib spec (SearchExpr (Some clause) alls anys) =
    rbind (ResolveSearchClause lib spec clause) (\<lambda>c. Inr (SearchLeaf c))"
| "resolveSearchExpression lib spec (SearchExpr None (Some alls) anys) =
    rbind (resolve_children lib spec alls) (\<lambda>children. Inr (SearchAll children))"
| "resolveSearchExpression lib spec (SearchExpr None None (Some anys)) =
    rbind (resolve_children lib spec anys) (\<lambda>children. Inr (SearchAny children))"
| "resolveSearchExpression lib spec (SearchExpr None None None) = Inr (SearchAny [])"
| "resolve_children lib spec [] = Inr []"
| "resolve_children lib spec (e # es) =
    rbind (resolveSearchExpression lib spec e) (\<lambda>e'. rbind (resolve_children lib spec es) (\<lambda>es'. Inr (e' # es')))"

definition ResolveSearch :: "scalar_lib \<Rightarrow> AccessSpec \<Rightarrow> SearchRequest \<Rightarrow> SearchRequest go" where
  "ResolveSearch lib spec req =
    rbind (CheckSearch req spec) (\<lambda>_.
      let limit = (if sqLimit req = 0 then DefaultSearchLimit else sqLimit req) in
      rbind (case sqExpression req of
          Some e \<Rightarrow> rbind (resolveSearchExpression lib spec e) (\<lambda>e'. Inr (Some e', sqClauses req))
        | None \<Rightarrow> rbind (collect (ResolveSearchClause lib spec) (sqClauses req)) (\<lambda>cs. Inr (None, cs)))
        (\<lambda>(expression, clauses).
      rbind (case sqSort req of
          None \<Rightarrow> Inr None
        | Some c \<Rightarrow> rbind (ResolveSearchClause lib spec c) (\<lambda>c'. Inr (Some c')))
        (\<lambda>sort'.
      Inr \<lparr>sqClauses = clauses, sqExpression = expression, sqSort = sort', sqLimit = limit,
           sqContinuation = sqContinuation req, sqRecall = []\<rparr>)))"

definition pattern_char :: "char \<Rightarrow> string" where
  "pattern_char c = (if c = CHR 0x5C \<or> c = CHR ''*'' \<or> c = CHR ''?'' then [CHR 0x5C, c] else [c])"

definition WildcardContainsPattern :: "string \<Rightarrow> string" where
  "WildcardContainsPattern literal = ''*'' @ concat (map pattern_char literal) @ ''*''"

section \<open>The shape of an accepted expression\<close>

text \<open>An expression tree with clauses at its leaves and non-empty children at its inner nodes.\<close>

fun well_shaped :: "SearchExpr \<Rightarrow> bool"
  and all_well_shaped :: "SearchExpr list \<Rightarrow> bool" where
  "well_shaped (SearchExpr clause alls anys) =
    (variants (SearchExpr clause alls anys) = 1 \<and>
     (case alls of Some es \<Rightarrow> es \<noteq> [] \<and> all_well_shaped es | None \<Rightarrow> True) \<and>
     (case anys of Some es \<Rightarrow> es \<noteq> [] \<and> all_well_shaped es | None \<Rightarrow> True))"
| "all_well_shaped [] = True"
| "all_well_shaped (e # es) = (well_shaped e \<and> all_well_shaped es)"

fun height :: "SearchExpr \<Rightarrow> nat"
  and children_height :: "SearchExpr list \<Rightarrow> nat" where
  "height (SearchExpr clause alls anys) =
    Suc (max (case alls of Some es \<Rightarrow> children_height es | None \<Rightarrow> 0)
             (case anys of Some es \<Rightarrow> children_height es | None \<Rightarrow> 0))"
| "children_height [] = 0"
| "children_height (e # es) = max (height e) (children_height es)"

definition leaf_ok :: "SearchClause \<Rightarrow> bool" where
  "leaf_ok c = (scOp c \<noteq> OpSort \<and> validateClause c = Inr ())"

lemma well_shaped_leaves: "well_shaped e \<Longrightarrow> walkSearchExpression e \<noteq> []"
  and "all_well_shaped es \<Longrightarrow> es \<noteq> [] \<Longrightarrow> walk_children es \<noteq> []"
  by (induction e and es rule: walkSearchExpression_walk_children.induct)
    (auto simp: variants_def split: option.splits if_splits)

lemma children_height_pos: "0 < height e"
  by (cases e) simp

lemma validate_expression_iff:
  "leaves \<le> 256 \<Longrightarrow> validateSearchExpression e depth leaves = Inr n \<longleftrightarrow>
   well_shaped e \<and> depth + height e \<le> 17 \<and> leaves + length (walkSearchExpression e) \<le> 256 \<and>
   list_all leaf_ok (walkSearchExpression e) \<and> n = leaves + length (walkSearchExpression e)"
  and "leaves \<le> 256 \<Longrightarrow> validate_children es depth leaves = Inr n \<longleftrightarrow>
   all_well_shaped es \<and> (es = [] \<or> depth + children_height es \<le> 17) \<and> leaves + length (walk_children es) \<le> 256 \<and>
   list_all leaf_ok (walk_children es) \<and> n = leaves + length (walk_children es)"
proof (induction e and es arbitrary: depth leaves n and depth leaves n
    rule: walkSearchExpression_walk_children.induct)
  case (1 clause alls anys)
  then show ?case
    by (auto simp: variants_def leaf_ok_def MaxSearchExpressionDepth_def MaxSearchExpressionLeaves_def
        rbind_Inr_iff split: option.splits if_splits)
next
  case (2 alls anys)
  then show ?case
    by (auto simp: variants_def MaxSearchExpressionDepth_def split: option.splits if_splits)
next
  case (3 alls)
  then show ?case
    by (auto simp: variants_def MaxSearchExpressionDepth_def split: option.splits if_splits)
next
  case (6 e es)
  have "validate_children (e # es) depth leaves = Inr n \<longleftrightarrow>
      (\<exists>m. validateSearchExpression e depth leaves = Inr m \<and> validate_children es depth m = Inr n)"
    by (simp add: rbind_Inr_iff)
  also have "\<dots> \<longleftrightarrow> well_shaped e \<and> depth + height e \<le> 17 \<and> leaves + length (walkSearchExpression e) \<le> 256 \<and>
      list_all leaf_ok (walkSearchExpression e) \<and>
      validate_children es depth (leaves + length (walkSearchExpression e)) = Inr n"
    using 6(1) [OF 6(3), of depth] by auto
  also have "\<dots> \<longleftrightarrow> all_well_shaped (e # es) \<and> (e # es = [] \<or> depth + children_height (e # es) \<le> 17) \<and>
      leaves + length (walk_children (e # es)) \<le> 256 \<and> list_all leaf_ok (walk_children (e # es)) \<and>
      n = leaves + length (walk_children (e # es))"
    using 6(2) [of "leaves + length (walkSearchExpression e)" depth n] by auto
  finally show ?case .
qed (auto simp: variants_def MaxSearchExpressionDepth_def)

section \<open>Resolved clauses\<close>

lemma Key_not_Nil [simp]: "FieldRef_Key f \<noteq> []"
  by (simp add: FieldRef_Key_def unit_sep_def)

lemma normalize_values_shape:
  assumes "normalize_values lib field c = Inr c'"
  shows "scOp c' = scOp c" "scField c' = scField c" "scPath c' = scPath c" "scMode c' = scMode c"
    "scOrder c' = scOrder c" "length (scValues c') = length (scValues c)"
  using assms by (auto simp: normalize_values_def rbind_Inr_iff dest: collect_length split: if_splits)

lemma collect_idem:
  assumes "\<And>x y. f x = Inr y \<Longrightarrow> f y = Inr y" "collect f xs = Inr ys"
  shows "collect f ys = Inr ys"
  using assms(2)
  by (induction xs arbitrary: ys) (auto simp: rbind_Inr_iff dest: assms(1))

lemma normalize_values_again:
  assumes "scalar_lib_ok lib" "normalize_values lib field c = Inr c'"
  shows "normalize_values lib field c' = Inr c'"
    "scOp c \<notin> {OpMatch, OpExists, OpMissing, OpSort, OpIN} \<Longrightarrow> scValue c \<noteq> [] \<Longrightarrow> scValue c' \<noteq> []"
proof -
  let ?N = "NormalizeScalarLiteral lib (afType field)"
  have n: "?N s = Inr s' \<Longrightarrow> ?N s' = Inr s'" "?N s = Inr s' \<Longrightarrow> s \<noteq> [] \<Longrightarrow> s' \<noteq> []" for s s'
    using NormalizeScalarLiteral_normal [OF assms(1)] by blast+
  have "normalize_values lib field c' = Inr c' \<and>
    (scOp c \<notin> {OpMatch, OpExists, OpMissing, OpSort, OpIN} \<longrightarrow> scValue c \<noteq> [] \<longrightarrow> scValue c' \<noteq> [])"
  proof (cases "scOp c = OpMatch \<or> scOp c = OpExists \<or> scOp c = OpMissing \<or> scOp c = OpSort")
    case True
    then have "c' = c" using assms(2) by (simp add: normalize_values_def)
    then show ?thesis using True by (auto simp: normalize_values_def)
  next
    case False
    then obtain v vs where v: "(if scOp c \<noteq> OpIN then ?N (scValue c) else Inr (scValue c)) = Inr v"
      "collect ?N (scValues c) = Inr vs" "c' = c\<lparr>scValue := v, scValues := vs\<rparr>"
      using assms(2) by (auto simp: normalize_values_def rbind_Inr_iff)
    have "collect ?N vs = Inr vs" using n(1) v(2) by (rule collect_idem)
    moreover have "(if scOp c \<noteq> OpIN then ?N v else Inr v) = Inr v" using v(1) n(1) by (simp split: if_splits)
    moreover have "scOp c \<noteq> OpIN \<Longrightarrow> scValue c \<noteq> [] \<Longrightarrow> v \<noteq> []" using v(1) n(2) by simp
    ultimately show ?thesis using False v(3) by (cases "scOp c = OpIN") (simp_all add: normalize_values_def)
  qed
  then show "normalize_values lib field c' = Inr c'"
    "scOp c \<notin> {OpMatch, OpExists, OpMissing, OpSort, OpIN} \<Longrightarrow> scValue c \<noteq> [] \<Longrightarrow> scValue c' \<noteq> []" by blast+
qed

lemma ResolveSearchClause_cases:
  assumes "ResolveSearchClause lib spec c = Inr c'"
  obtains (bare) "bare_match c" "validateClause c = Inr ()" "checkClause c spec = Inr ()"
      "c' = (if scMode c = [] then c\<lparr>scMode := MatchAllTerms\<rparr> else c)"
  | (field) d field where "\<not> bare_match c" "validateClause c = Inr ()" "checkClause c spec = Inr ()"
      "ResolveField spec (clause_ref c) = Inr field"
      "d = (if scOp c = OpMatch \<and> scMode c = [] then c\<lparr>scMode := MatchAllTerms\<rparr> else c)
         \<lparr>scField := Some (afRef field), scPath := FieldRef_Key (afRef field)\<rparr>"
      "normalize_values lib field d = Inr c'"
proof (cases "bare_match c")
  case True
  then show thesis
    using assms bare by (auto simp: ResolveSearchClause_def rbind_Inr_iff bare_match_def Let_def split: if_splits)
next
  case False
  then have "\<not> bare_match (if scOp c = OpMatch \<and> scMode c = [] then c\<lparr>scMode := MatchAllTerms\<rparr> else c)"
    "clause_ref (if scOp c = OpMatch \<and> scMode c = [] then c\<lparr>scMode := MatchAllTerms\<rparr> else c) = clause_ref c"
    by (simp_all add: bare_match_def clause_ref_def split: option.splits)
  then show thesis
    using assms False field by (auto simp: ResolveSearchClause_def rbind_Inr_iff Let_def)
qed

lemma op_distinct [simp]:
  "OpMatch \<notin> set value_ops" "OpMatch \<noteq> OpIN" "OpMatch \<noteq> OpExists" "OpMatch \<noteq> OpMissing" "OpMatch \<noteq> OpSort"
  "OpSort \<notin> set value_ops" "OpSort \<noteq> OpIN" "OpSort \<noteq> OpExists" "OpSort \<noteq> OpMissing" "OpSort \<noteq> OpMatch"
  "OpIN \<notin> set value_ops" "OpExists \<notin> set value_ops" "OpMissing \<notin> set value_ops"
  by (simp_all add: search_ops value_ops_def)

lemma resolved_clause:
  assumes "scalar_lib_ok lib" "ResolveSearchClause lib spec c = Inr c'"
  shows "scOp c' = scOp c \<and> validateClause c' = Inr () \<and> checkClause c' spec = Inr () \<and>
    ResolveSearchClause lib spec c' = Inr c' \<and>
    (bare_match c' \<or> (\<exists>field \<in> set (asFields spec). scField c' = Some (afRef field) \<and> AllowsOp field (scOp c')))"
  using assms(2)
proof (cases rule: ResolveSearchClause_cases)
  case bare
  have v: "validateClause c' = Inr ()" "bare_match c'" "scMode c' \<noteq> []" "scOp c' = scOp c"
    using bare by (auto simp: validateClause_def bare_match_def MatchAllTerms_def split: if_splits)
  moreover have "checkClause c' spec = Inr ()" using bare v by (auto simp: checkClause_def split: if_splits)
  ultimately show "scOp c' = scOp c \<and> validateClause c' = Inr () \<and> checkClause c' spec = Inr () \<and>
    ResolveSearchClause lib spec c' = Inr c' \<and>
    (bare_match c' \<or> (\<exists>field \<in> set (asFields spec). scField c' = Some (afRef field) \<and> AllowsOp field (scOp c')))"
    by (simp add: ResolveSearchClause_def)
next
  case (field d field)
  note shape = normalize_values_shape [OF field(6)]
  have d: "scOp d = scOp c" "scField d = Some (afRef field)" "scPath d = FieldRef_Key (afRef field)"
    "scValue d = scValue c" "scValues d = scValues c" "scOrder d = scOrder c"
    "scMode d = (if scOp c = OpMatch \<and> scMode c = [] then MatchAllTerms else scMode c)"
    by (simp_all add: field(5))
  have nb: "\<not> bare_match c'" using shape d by (simp add: bare_match_def)
  have cr: "clause_ref c' = afRef field" using shape d by (simp add: clause_ref_def)
  note again = ResolveField_again [OF field(4)]
  have allowed: "AllowsOp field (scOp c)" "asFields spec \<noteq> []"
    using field(1,3,4) by (auto simp: checkClause_def rbind_Inr_iff split: if_splits)
  have check: "checkClause c' spec = Inr ()"
    using nb shape d allowed again cr by (simp add: checkClause_def)
  have hf: "has_field c'" using shape d by (simp add: has_field_def)
  have same: "scMode c' = scMode d" "scOrder c' = scOrder c" "length (scValues c') = length (scValues c)"
    using shape d by simp_all
  have vv: "scOp c \<in> set value_ops \<Longrightarrow> scValue c \<noteq> [] \<Longrightarrow> scValue c' \<noteq> []"
  proof -
    assume o: "scOp c \<in> set value_ops" "scValue c \<noteq> []"
    have "scOp c \<notin> {OpMatch, OpExists, OpMissing, OpSort, OpIN}" using o(1) op_distinct by auto
    then show "scValue c' \<noteq> []" using normalize_values_again(2) [OF assms(1) field(6)] d o(2) by simp
  qed
  have mm: "scOp c = OpMatch \<Longrightarrow> scValue c' = scValue c"
    using field(6) d by (simp add: normalize_values_def split: if_splits)
  have op: "scOp c' = scOp c" using shape d by simp
  have valid: "validateClause c' = Inr ()"
  proof -
    consider "scOp c = OpMatch" | "scOp c \<in> set value_ops" | "scOp c = OpIN" | "scOp c = OpExists \<or> scOp c = OpMissing"
      | "scOp c = OpSort"
      using field(2) by (auto simp: validateClause_def split: if_splits)
    then show ?thesis
    proof cases
      case 1
      then show ?thesis using field(2) op mm same(1) d(7) by (auto simp: validateClause_def split: if_splits)
    next
      case 2
      then have "scOp c \<noteq> OpMatch" by auto
      then show ?thesis using 2 field(2) op hf vv by (simp add: validateClause_def split: if_splits)
    next
      case 3
      then have "scOp c \<noteq> OpMatch" "scOp c \<notin> set value_ops" by (simp_all add: search_ops value_ops_def)
      then show ?thesis using 3 field(2) op hf same(3) by (simp add: validateClause_def split: if_splits)
    next
      case 4
      then have "scOp c \<noteq> OpMatch" "scOp c \<notin> set value_ops" "scOp c \<noteq> OpIN" by (auto simp: search_ops value_ops_def)
      then show ?thesis using 4 op hf by (simp add: validateClause_def)
    next
      case 5
      then show ?thesis using field(2) op hf same(2) by (simp add: validateClause_def split: if_splits)
    qed
  qed
  have "c'\<lparr>scField := Some (afRef field), scPath := FieldRef_Key (afRef field)\<rparr> = c'"
    using shape d by simp
  moreover have "\<not> (scOp c' = OpMatch \<and> scMode c' = [])"
    using op same(1) d(7) by (auto simp: MatchAllTerms_def)
  ultimately have "ResolveSearchClause lib spec c' = Inr c'"
    using valid check nb cr again normalize_values_again(1) [OF assms(1) field(6)]
    by (auto simp: ResolveSearchClause_def)
  then show "scOp c' = scOp c \<and> validateClause c' = Inr () \<and> checkClause c' spec = Inr () \<and>
    ResolveSearchClause lib spec c' = Inr c' \<and>
    (bare_match c' \<or> (\<exists>field \<in> set (asFields spec). scField c' = Some (afRef field) \<and> AllowsOp field (scOp c')))"
    using op valid check shape d allowed ResolveField_Inr(1) [OF field(4)] by auto
qed

section \<open>Resolved requests\<close>

lemma walk_simps [simp]:
  "walkSearchExpression (SearchLeaf c) = [c]"
  "walkSearchExpression (SearchAll es) = walk_children es"
  "walkSearchExpression (SearchAny es) = walk_children es"
  by (simp_all add: search_exprs)

lemma collect_append:
  "collect f (xs @ ys) = Inr zs \<longleftrightarrow> (\<exists>us vs. collect f xs = Inr us \<and> collect f ys = Inr vs \<and> zs = us @ vs)"
  by (induction xs arbitrary: zs) (auto simp: rbind_Inr_iff)

text \<open>Resolving an expression resolves its leaves in place.\<close>

lemma resolve_expression:
  "well_shaped e \<Longrightarrow> resolveSearchExpression lib spec e = Inr e' \<Longrightarrow>
    well_shaped e' \<and> height e' = height e \<and>
    collect (ResolveSearchClause lib spec) (walkSearchExpression e) = Inr (walkSearchExpression e')"
  and "all_well_shaped es \<Longrightarrow> resolve_children lib spec es = Inr es' \<Longrightarrow>
    all_well_shaped es' \<and> children_height es' = children_height es \<and> length es' = length es \<and>
    collect (ResolveSearchClause lib spec) (walk_children es) = Inr (walk_children es')"
proof (induction lib spec e and lib spec es arbitrary: e' and es'
    rule: resolveSearchExpression_resolve_children.induct)
  case (1 lib spec clause alls anys)
  then show ?case
    by (auto simp: rbind_Inr_iff search_exprs variants_def split: option.splits if_splits)
next
  case (2 lib spec alls anys)
  then have "anys = None" by (auto simp: variants_def split: if_splits)
  then show ?case using 2 by (fastforce simp: rbind_Inr_iff search_exprs variants_def)
next
  case (3 lib spec anys)
  then show ?case by (fastforce simp: rbind_Inr_iff search_exprs variants_def)
next
  case (6 lib spec e es)
  then show ?case by (fastforce simp: rbind_Inr_iff collect_append)
qed (auto simp: variants_def)

lemma resolve_expression_again:
  "scalar_lib_ok lib \<Longrightarrow> resolveSearchExpression lib spec e = Inr e' \<Longrightarrow>
    resolveSearchExpression lib spec e' = Inr e'"
  and "scalar_lib_ok lib \<Longrightarrow> resolve_children lib spec es = Inr es' \<Longrightarrow> resolve_children lib spec es' = Inr es'"
proof (induction lib spec e and lib spec es arbitrary: e' and es'
    rule: resolveSearchExpression_resolve_children.induct)
  case (1 lib spec clause alls anys)
  then obtain c where c: "ResolveSearchClause lib spec clause = Inr c" "e' = SearchLeaf c"
    by (auto simp: rbind_Inr_iff)
  then have "ResolveSearchClause lib spec c = Inr c" using resolved_clause [OF 1(1)] by blast
  then show ?case using c(2) by (simp add: search_exprs)
qed (auto simp: rbind_Inr_iff search_exprs)

lemma collect_resolved:
  assumes "scalar_lib_ok lib" "collect (ResolveSearchClause lib spec) cs = Inr cs'"
  shows "\<forall>c \<in> set cs'. \<exists>c0 \<in> set cs. ResolveSearchClause lib spec c0 = Inr c"
    "map scOp cs' = map scOp cs" "collect (ResolveSearchClause lib spec) cs' = Inr cs'"
proof -
  note all2 = assms(2) [unfolded collect_Inr_iff]
  have op: "ResolveSearchClause lib spec c = Inr c' \<Longrightarrow> scOp c' = scOp c" for c c'
    using resolved_clause [OF assms(1)] by blast
  show "\<forall>c \<in> set cs'. \<exists>c0 \<in> set cs. ResolveSearchClause lib spec c0 = Inr c"
    using all2 list_all2_right by fastforce
  show "map scOp cs' = map scOp cs"
    using all2 op by (auto simp: list_all2_conv_all_nth list_eq_iff_nth_eq)
  show "collect (ResolveSearchClause lib spec) cs' = Inr cs'"
    using resolved_clause [OF assms(1)] assms(2) by (intro collect_idem) blast+
qed

lemma sort_clause_from:
  "SearchSortClause req = Some c \<Longrightarrow> c \<in> set_option (sqSort req) \<union> set (sqClauses req)"
  by (cases "sqSort req") (auto simp: SearchSortClause_def dest: find_Some_mem2)

lemma predicate_from:
  assumes "SearchPredicate req = Some e"
  shows "set (walkSearchExpression e) \<subseteq>
    (case sqExpression req of Some e \<Rightarrow> set (walkSearchExpression e) | None \<Rightarrow> set (sqClauses req))"
proof (cases "sqExpression req")
  case (Some e')
  then show ?thesis using assms by (simp add: SearchPredicate_def)
next
  case None
  let ?cs = "filter (\<lambda>clause. scOp clause \<noteq> OpSort) (sqClauses req)"
  have w: "walk_children (map SearchLeaf cs) = cs" for cs by (induction cs) simp_all
  have "walkSearchExpression e = ?cs"
    using assms None w [of ?cs]
    by (cases ?cs; cases "tl ?cs") (auto simp: SearchPredicate_def Let_def split: list.splits)
  then show ?thesis by (simp add: None)
qed

lemma set_SearchClauses:
  assumes "c \<in> set (SearchClauses req)"
  shows "c \<in> (case sqExpression req of Some e \<Rightarrow> set (walkSearchExpression e) | None \<Rightarrow> set (sqClauses req))
     \<union> set_option (sqSort req) \<union> set (sqClauses req)"
proof -
  have "c \<in> set (case SearchPredicate req of None \<Rightarrow> [] | Some e \<Rightarrow> walkSearchExpression e) \<or>
      SearchSortClause req = Some c"
    using assms by (cases "SearchSortClause req") (auto simp: SearchClauses_def)
  then show ?thesis
  proof
    assume "c \<in> set (case SearchPredicate req of None \<Rightarrow> [] | Some e \<Rightarrow> walkSearchExpression e)"
    then show ?thesis using predicate_from [of req] by (cases "SearchPredicate req") auto
  qed (use sort_clause_from in blast)
qed

lemma ResolveSearch_Inr:
  assumes "ResolveSearch lib spec req = Inr out"
  obtains expression clauses sort' where
    "CheckSearch req spec = Inr ()"
    "out = \<lparr>sqClauses = clauses, sqExpression = expression, sqSort = sort',
       sqLimit = (if sqLimit req = 0 then DefaultSearchLimit else sqLimit req),
       sqContinuation = sqContinuation req, sqRecall = []\<rparr>"
    "case sqExpression req of
       Some e \<Rightarrow> \<exists>e'. resolveSearchExpression lib spec e = Inr e' \<and> expression = Some e' \<and> clauses = sqClauses req
     | None \<Rightarrow> expression = None \<and> collect (ResolveSearchClause lib spec) (sqClauses req) = Inr clauses"
    "case sqSort req of None \<Rightarrow> sort' = None
     | Some c \<Rightarrow> \<exists>c'. ResolveSearchClause lib spec c = Inr c' \<and> sort' = Some c'"
  using assms
  by (auto simp: ResolveSearch_def rbind_Inr_iff Let_def split: option.splits intro: that)

lemma located_count_ops: "map scOp cs = map scOp cs' \<Longrightarrow> located_count cs = located_count cs' \<and> length cs = length cs'"
proof (induction cs arbitrary: cs')
  case (Cons c cs)
  then obtain d ds where "cs' = d # ds" "scOp c = scOp d" "map scOp cs = map scOp ds" by (cases cs') auto
  then show ?case using Cons.IH [of ds] by (simp add: located_count_def Locates_def)
qed simp

lemma validate_depth_one: "validateSearchExpression e 1 0 = Inr n \<longleftrightarrow>
    well_shaped e \<and> height e \<le> 16 \<and> length (walkSearchExpression e) \<le> 256 \<and>
    list_all leaf_ok (walkSearchExpression e) \<and> n = length (walkSearchExpression e)"
  using validate_expression_iff(1) [of 0 e 1 n] by auto

text \<open>The conditions under which a request is accepted, for a list of clauses and for an
  expression tree.\<close>

definition sort_accepted :: "SearchRequest \<Rightarrow> nat \<Rightarrow> bool" where
  "sort_accepted req sorts =
    (case sqSort req of None \<Rightarrow> sorts \<le> 1
     | Some c \<Rightarrow> scOp c = OpSort \<and> validateClause c = Inr () \<and> sorts = 0)"

lemma ValidateSearch_clauses:
  assumes "sqExpression req = None"
  shows "ValidateSearch req = Inr () \<longleftrightarrow>
    0 \<le> sqLimit req \<and> sqLimit req \<le> MaxSearchLimit \<and> validateRecall req = Inr () \<and>
    each_ok validateClause (sqClauses req) = Inr () \<and> located_count (sqClauses req) \<noteq> 0 \<and>
    sort_accepted req (length (sqClauses req) - located_count (sqClauses req))"
  by (cases "sqSort req")
    (simp_all add: ValidateSearch_def assms rbind_Inr_iff sort_accepted_def not_less, (safe; simp)+)

lemma ValidateSearch_expression:
  assumes "sqExpression req = Some e"
  shows "ValidateSearch req = Inr () \<longleftrightarrow>
    0 \<le> sqLimit req \<and> sqLimit req \<le> MaxSearchLimit \<and> validateRecall req = Inr () \<and> sqClauses req = [] \<and>
    (\<exists>n. validateSearchExpression e 1 0 = Inr n \<and> n \<noteq> 0) \<and> sort_accepted req 0"
  by (cases "sqSort req"; cases "validateSearchExpression e 1 0")
    (auto simp: ValidateSearch_def assms rbind_Inr_iff sort_accepted_def)

lemma ValidateSearch_limit:
  assumes "ValidateSearch req = Inr ()"
  shows "0 \<le> sqLimit req \<and> sqLimit req \<le> MaxSearchLimit"
  using assms ValidateSearch_clauses [of req] ValidateSearch_expression [of req] by (cases "sqExpression req") auto

text \<open>A resolved request passes the checks, and each of its clauses is a resolved clause.\<close>

lemma resolved_sort:
  assumes "scalar_lib_ok lib" "sort_accepted req n"
    "case sqSort req of None \<Rightarrow> s = None
     | Some c \<Rightarrow> \<exists>c'. ResolveSearchClause lib spec c = Inr c' \<and> s = Some c'"
    "sqSort out = s"
  shows "sort_accepted out n"
  using assms(2-4) resolved_clause [OF assms(1)]
  by (cases "sqSort req") (auto simp: sort_accepted_def)

lemma resolved_clause_list:
  assumes "scalar_lib_ok lib" "collect (ResolveSearchClause lib spec) cs = Inr cs'"
  shows "each_ok validateClause cs' = Inr ()" "located_count cs' = located_count cs" "length cs' = length cs"
proof -
  note res = collect_resolved [OF assms]
  show "each_ok validateClause cs' = Inr ()"
    unfolding each_ok_iff using res(1) resolved_clause [OF assms(1)] by blast
  show "located_count cs' = located_count cs" "length cs' = length cs"
    using located_count_ops [OF res(2)] by blast+
qed

lemma resolved_expression_valid:
  assumes "scalar_lib_ok lib" "validateSearchExpression e 1 0 = Inr n" "resolveSearchExpression lib spec e = Inr e'"
  shows "validateSearchExpression e' 1 0 = Inr n"
    "\<forall>c \<in> set (walkSearchExpression e'). \<exists>c0. ResolveSearchClause lib spec c0 = Inr c"
proof -
  note v = assms(2) [unfolded validate_depth_one]
  have shape: "well_shaped e'" "height e' = height e"
      "collect (ResolveSearchClause lib spec) (walkSearchExpression e) = Inr (walkSearchExpression e')"
    using resolve_expression(1) [OF _ assms(3)] v by blast+
  note res = collect_resolved [OF assms(1) shape(3)]
  show "\<forall>c \<in> set (walkSearchExpression e'). \<exists>c0. ResolveSearchClause lib spec c0 = Inr c" using res(1) by blast
  have "leaf_ok c" if c: "c \<in> set (walkSearchExpression e')" for c
  proof -
    obtain c0 where "c0 \<in> set (walkSearchExpression e)" "ResolveSearchClause lib spec c0 = Inr c" using res(1) c by blast
    moreover from this(1) have "leaf_ok c0" using v by (simp add: list_all_iff)
    ultimately show ?thesis using resolved_clause [OF assms(1)] unfolding leaf_ok_def by metis
  qed
  moreover have "length (walkSearchExpression e') = length (walkSearchExpression e)"
    using resolved_clause_list(3) [OF assms(1) shape(3)] .
  ultimately show "validateSearchExpression e' 1 0 = Inr n"
    unfolding validate_depth_one using v shape(1,2) by (simp add: list_all_iff)
qed

text \<open>What a resolved request is, per form of the request.\<close>

lemma resolved_request:
  assumes "scalar_lib_ok lib" "ResolveSearch lib spec req = Inr out"
  shows "ValidateSearch out = Inr ()" (is ?valid)
    "\<forall>c \<in> set (SearchClauses out). \<exists>c0. ResolveSearchClause lib spec c0 = Inr c" (is ?clauses)
    "1 \<le> sqLimit out \<and> sqLimit out \<le> MaxSearchLimit"
proof -
  from assms(2) obtain expression clauses sort' where chk: "CheckSearch req spec = Inr ()"
    and out: "out = \<lparr>sqClauses = clauses, sqExpression = expression, sqSort = sort',
       sqLimit = (if sqLimit req = 0 then DefaultSearchLimit else sqLimit req),
       sqContinuation = sqContinuation req, sqRecall = []\<rparr>"
    and ex: "case sqExpression req of
       Some e \<Rightarrow> \<exists>e'. resolveSearchExpression lib spec e = Inr e' \<and> expression = Some e' \<and> clauses = sqClauses req
     | None \<Rightarrow> expression = None \<and> collect (ResolveSearchClause lib spec) (sqClauses req) = Inr clauses"
    and so: "case sqSort req of None \<Rightarrow> sort' = None
     | Some c \<Rightarrow> \<exists>c'. ResolveSearchClause lib spec c = Inr c' \<and> sort' = Some c'"
    by (rule ResolveSearch_Inr)
  have v: "ValidateSearch req = Inr ()" using chk unfolding CheckSearch_def rbind_Inr_iff by simp
  have f: "sqClauses out = clauses" "sqExpression out = expression" "sqSort out = sort'"
    unfolding out by simp_all
  show limit: "1 \<le> sqLimit out \<and> sqLimit out \<le> MaxSearchLimit"
    using ValidateSearch_limit [OF v] unfolding out by (simp add: DefaultSearchLimit_def MaxSearchLimit_def)
  have recall: "validateRecall out = Inr ()"
    unfolding out by (simp add: validateRecall_def ValidRecall_def RecallHybrid_def RecallSemantic_def)
  note sorted = resolved_sort [OF assms(1) _ so f(3)]
  have sc: "\<forall>c \<in> set_option sort'. \<exists>c0. ResolveSearchClause lib spec c0 = Inr c"
    using so by (cases "sqSort req") auto
  have "?valid \<and> ?clauses"
  proof (cases "sqExpression req")
    case None
    then have e: "expression = None" "collect (ResolveSearchClause lib spec) (sqClauses req) = Inr clauses"
      using ex by simp_all
    note res = resolved_clause_list [OF assms(1) e(2)]
    have ?valid
      using v [unfolded ValidateSearch_clauses [OF None]] limit recall res sorted
      unfolding ValidateSearch_clauses [OF f(2) [unfolded e(1)]] f by simp
    moreover have ?clauses
    proof
      fix c
      assume "c \<in> set (SearchClauses out)"
      then have "c \<in> set clauses \<union> set_option sort'"
        using set_SearchClauses [of c out] unfolding f e(1) by auto
      then show "\<exists>c0. ResolveSearchClause lib spec c0 = Inr c"
        using sc collect_resolved(1) [OF assms(1) e(2)] by blast
    qed
    ultimately show ?thesis by blast
  next
    case (Some e)
    then obtain e' where e': "resolveSearchExpression lib spec e = Inr e'" "expression = Some e'" "clauses = sqClauses req"
      using ex by auto
    from v [unfolded ValidateSearch_expression [OF Some]] obtain n where
      n: "validateSearchExpression e 1 0 = Inr n" "n \<noteq> 0" "sqClauses req = []" "sort_accepted req 0" by blast
    note res = resolved_expression_valid [OF assms(1) n(1) e'(1)]
    have ?valid
      unfolding ValidateSearch_expression [OF f(2) [unfolded e'(2)]] f
      using n limit recall res(1) sorted e'(3) by simp
    moreover have ?clauses
    proof
      fix c
      assume "c \<in> set (SearchClauses out)"
      then have "c \<in> set (walkSearchExpression e') \<union> set_option sort'"
        using set_SearchClauses [of c out] unfolding f e'(2,3) n(3) by auto
      then show "\<exists>c0. ResolveSearchClause lib spec c0 = Inr c" using sc res(2) by blast
    qed
    ultimately show ?thesis by blast
  qed
  then show ?valid ?clauses by blast+
qed

lemma resolved_again:
  assumes "scalar_lib_ok lib" "ResolveSearch lib spec req = Inr out"
  shows "CheckSearch out spec = Inr ()" "ResolveSearch lib spec out = Inr out"
proof -
  note rr = resolved_request [OF assms]
  show chk: "CheckSearch out spec = Inr ()"
  proof -
    have "each_ok (\<lambda>c. checkClause c spec) (SearchClauses out) = Inr ()"
      unfolding each_ok_iff using rr(2) resolved_clause [OF assms(1)] by blast
    then show ?thesis unfolding CheckSearch_def rr(1) by simp
  qed
  from assms(2) obtain expression clauses sort' where
    out: "out = \<lparr>sqClauses = clauses, sqExpression = expression, sqSort = sort',
       sqLimit = (if sqLimit req = 0 then DefaultSearchLimit else sqLimit req),
       sqContinuation = sqContinuation req, sqRecall = []\<rparr>"
    and ex: "case sqExpression req of
       Some e \<Rightarrow> \<exists>e'. resolveSearchExpression lib spec e = Inr e' \<and> expression = Some e' \<and> clauses = sqClauses req
     | None \<Rightarrow> expression = None \<and> collect (ResolveSearchClause lib spec) (sqClauses req) = Inr clauses"
    and so: "case sqSort req of None \<Rightarrow> sort' = None
     | Some c \<Rightarrow> \<exists>c'. ResolveSearchClause lib spec c = Inr c' \<and> sort' = Some c'"
    by (rule ResolveSearch_Inr)
  have f: "sqClauses out = clauses" "sqExpression out = expression" "sqSort out = sort'" "sqRecall out = []"
    "sqLimit out \<noteq> 0"
    using rr(3) unfolding out by (simp_all add: DefaultSearchLimit_def)
  have ex': "case expression of
       Some e \<Rightarrow> resolveSearchExpression lib spec e = Inr e
     | None \<Rightarrow> collect (ResolveSearchClause lib spec) clauses = Inr clauses"
  proof (cases "sqExpression req")
    case None
    then show ?thesis using ex collect_resolved(3) [OF assms(1), of spec "sqClauses req" clauses] by simp
  next
    case (Some e)
    then show ?thesis using ex resolve_expression_again(1) [OF assms(1)] by auto
  qed
  have so': "case sort' of None \<Rightarrow> True | Some c \<Rightarrow> ResolveSearchClause lib spec c = Inr c"
    using so resolved_clause [OF assms(1)] by (cases "sqSort req") auto
  have eta: "\<lparr>sqClauses = clauses, sqExpression = expression, sqSort = sort', sqLimit = sqLimit out,
      sqContinuation = sqContinuation out, sqRecall = []\<rparr> = out"
    by (rule SearchRequest.equality) (simp_all add: f)
  show "ResolveSearch lib spec out = Inr out"
    using ex' so' eta unfolding ResolveSearch_def chk f
    by (cases expression; cases sort') (simp_all add: f(5))
qed

lemma resolved_clause_allowed:
  assumes "scalar_lib_ok lib" "ResolveSearch lib spec req = Inr out" "c \<in> set (SearchClauses out)"
  shows "bare_match c \<or> (\<exists>field \<in> set (asFields spec). scField c = Some (afRef field) \<and> AllowsOp field (scOp c))"
  using resolved_request(2) [OF assms(1,2)] assms(3) resolved_clause [OF assms(1)] by blast

text \<open>The resolved request carries no recall strategy, whatever the caller asked for.\<close>

lemma resolving_drops_recall: "ResolveSearch lib spec req = Inr out \<Longrightarrow> sqRecall out = []"
  by (erule ResolveSearch_Inr) simp

section \<open>Properties\<close>

text \<open>C26. An expression tree passes validation exactly when every node has one variant and no empty
  child list, it is at most 16 levels deep, it has at most 256 leaves, and no leaf is a SORT clause
  or a clause that is itself invalid; the number returned is the number of its leaves. The walk stops
  at the first level past the limit, so validation is bounded whatever the caller sends.\<close>

theorem search_expression_bounds:
  "(validateSearchExpression e 1 0 = Inr n) =
    (well_shaped e \<and> height e \<le> 16 \<and> length (walkSearchExpression e) \<le> 256 \<and>
     list_all leaf_ok (walkSearchExpression e) \<and> n = length (walkSearchExpression e))"
  by (rule validate_depth_one)



text \<open>The property at a request of one page of people of a given age, most recent first.\<close>

definition witness_lib :: scalar_lib where
  "witness_lib = \<lparr>slFloat = \<lambda>_. None, slDate = \<lambda>_. None, slTime = \<lambda>_. None\<rparr>"

definition witness_age :: FieldRef where
  "witness_age = FieldRef ''schema/person'' [] ''age''"

definition witness_spec :: AccessSpec where
  "witness_spec = \<lparr>asRepository = ''r'', asCommit = ''c'',
     asFields = [\<lparr>afRef = witness_age, afEntity = [], afType = ''integer'', afAccess = [HintFilter, HintSort]\<rparr>,
       \<lparr>afRef = FieldRef ''schema/person'' [] ''title'', afEntity = [], afType = ''string'', afAccess = [HintText]\<rparr>],
     asSchemas = [''schema/person''], asDigest = []\<rparr>"

definition witness_request :: SearchRequest where
  "witness_request = (SearchWhere (SearchAll [SearchLeaf (SearchMATCH ''x''), SearchLeaf (SearchEQ ''age'' ''1.2e1'')]))
     \<lparr>sqSort := Some (SearchSORT ''age'' ''desc'')\<rparr>"

definition witness_resolved :: SearchRequest where
  "witness_resolved = (SearchWhere (SearchAll [SearchLeaf (SearchMATCH ''x''),
       SearchLeaf ((SearchEQ ''age'' ''12'')\<lparr>scField := Some witness_age, scPath := FieldRef_Key witness_age\<rparr>)]))
     \<lparr>sqSort := Some ((SearchSORT ''age'' ''desc'')\<lparr>scField := Some witness_age, scPath := FieldRef_Key witness_age\<rparr>), sqLimit := 100\<rparr>"


end
