(* ===== verification/KnowledgeUnits.thy ===== *)
theory KnowledgeUnits
  imports AccessFields
begin

text \<open>
  The data of layer two, \<open>src/knowledge\<close>: addresses of units (\<open>address.go\<close>), references
  (\<open>identity.go\<close>), provenance (\<open>provenance.go\<close>), value sources (\<open>binding.go\<close>), relations
  (\<open>relation.go\<close>), observations (\<open>observation.go\<close>), and values read at a commit with the check of a
  hydrated value (\<open>read.go\<close>, \<open>hydration_validate.go\<close>).
\<close>

section \<open>Addresses and references\<close>

definition KindEntity :: string where "KindEntity = ''Entity''"
definition KindAspect :: string where "KindAspect = ''Aspect''"
definition KindMember :: string where "KindMember = ''Member''"
definition KindRelation :: string where "KindRelation = ''Relation''"
definition KindRecord :: string where "KindRecord = ''Record''"

lemmas address_kinds = KindEntity_def KindAspect_def KindMember_def KindRelation_def KindRecord_def

record Address =
  adKind :: string
  adObject :: string
  adAspect :: string
  adMember :: string

definition AddressKey :: "Address \<Rightarrow> string" where
  "AddressKey a = adObject a @ unit_sep @ adAspect a @ unit_sep @ adMember a"

definition IsEntityBlob :: "Address \<Rightarrow> bool" where
  "IsEntityBlob a = (adAspect a = [] \<and> adMember a = [])"

definition InferAddress :: "string \<Rightarrow> string \<Rightarrow> string \<Rightarrow> string \<Rightarrow> Address" where
  "InferAddress objectID aspectName memberKey kindField =
    (if memberKey \<noteq> [] \<and> aspectName \<noteq> [] then
       \<lparr>adKind = KindMember, adObject = objectID, adAspect = aspectName, adMember = memberKey\<rparr>
     else if aspectName \<noteq> [] then
       \<lparr>adKind = (if kindField = KindRecord then KindRecord else KindAspect),
        adObject = objectID, adAspect = aspectName, adMember = []\<rparr>
     else
       \<lparr>adKind = (if kindField = KindRelation then KindRelation else KindEntity),
        adObject = objectID, adAspect = [], adMember = []\<rparr>)"

definition AssertWritable :: "Address \<Rightarrow> unit go" where
  "AssertWritable a =
    (let aspect = TrimSpace (adAspect a); member = TrimSpace (adMember a) in
     if adKind a \<in> {KindEntity, KindRelation} then
       (if aspect \<noteq> [] \<or> member \<noteq> [] then fails ErrUsageInvalid else Inr ())
     else if adKind a \<in> {KindAspect, KindRecord} then
       (if aspect = [] \<or> member \<noteq> [] then fails ErrUsageInvalid else Inr ())
     else if adKind a = KindMember then
       (if aspect = [] \<or> member = [] then fails ErrUsageInvalid else Inr ())
     else fails ErrUsageInvalid)"

lemma InferAddress_writable:
  assumes "TrimSpace aspect = [] \<longleftrightarrow> aspect = []" "TrimSpace member = [] \<longleftrightarrow> member = []"
  shows "AssertWritable (InferAddress object aspect member k) = Inr ()"
  using assms by (auto simp: AssertWritable_def InferAddress_def address_kinds)

text \<open>Keys identify addresses up to their kind, for names free of the separator byte.\<close>

lemma byte_split: "c \<notin> set x \<Longrightarrow> before_byte c (x @ c # y) = x \<and> after_byte c (x @ c # y) = y"
  by (induction x) (auto simp: before_byte_def after_byte_def)

lemma sep_split:
  assumes "CHR 0x1F \<notin> set x" "CHR 0x1F \<notin> set x'" "x @ unit_sep @ y = x' @ unit_sep @ y'"
  shows "x = x' \<and> y = y'"
proof -
  have "before_byte CHR 0x1F (x @ unit_sep @ y) = x \<and> after_byte CHR 0x1F (x @ unit_sep @ y) = y"
    using byte_split [OF assms(1), of y] by (simp add: unit_sep_def)
  moreover have "before_byte CHR 0x1F (x' @ unit_sep @ y') = x' \<and> after_byte CHR 0x1F (x' @ unit_sep @ y') = y'"
    using byte_split [OF assms(2), of y'] by (simp add: unit_sep_def)
  ultimately show ?thesis unfolding assms(3) by simp
qed

definition key_safe :: "Address \<Rightarrow> bool" where
  "key_safe a = (CHR 0x1F \<notin> set (adObject a) \<and> CHR 0x1F \<notin> set (adAspect a))"

lemma AddressKey_eq:
  assumes "key_safe a" "key_safe b"
  shows "AddressKey a = AddressKey b \<longleftrightarrow>
    adObject a = adObject b \<and> adAspect a = adAspect b \<and> adMember a = adMember b"
proof
  assume "AddressKey a = AddressKey b"
  then have 1: "adObject a = adObject b \<and>
      adAspect a @ unit_sep @ adMember a = adAspect b @ unit_sep @ adMember b"
    unfolding AddressKey_def using assms sep_split unfolding key_safe_def by blast
  then show "adObject a = adObject b \<and> adAspect a = adAspect b \<and> adMember a = adMember b"
    using assms sep_split [of "adAspect a" "adAspect b"] unfolding key_safe_def by blast
qed (simp add: AddressKey_def)

record KnowledgeRef =
  krRepository :: string
  krObject :: string

definition shortRepository :: "string \<Rightarrow> string" where
  "shortRepository id0 = (if length id0 \<ge> 5 \<and> take 5 id0 = ''kr://'' then drop 5 id0 else id0)"

definition FormatKnowledgeRef :: "string \<Rightarrow> string \<Rightarrow> string" where
  "FormatKnowledgeRef repository object = ''kc://'' @ shortRepository repository @ ''/'' @ object"

definition FormatPinnedRef :: "string \<Rightarrow> string \<Rightarrow> string \<Rightarrow> string" where
  "FormatPinnedRef repository commit object =
    ''kc://'' @ shortRepository repository @ ''@'' @ commit @ ''/'' @ object"

text \<open>A pinned reference to a schema object parses back to its parts.\<close>

lemma pinned_schema_ref_parses:
  assumes "HasPrefix repository ''kr://''" "CHR ''@'' \<notin> set repository" "CHR ''/'' \<notin> set commit" "commit \<noteq> []"
    "IsSchemaObject object" "TrimSpace (FormatPinnedRef repository commit object) = FormatPinnedRef repository commit object"
  shows "ParseSchemaRef (FormatPinnedRef repository commit object) =
    Some \<lparr>psObject = object, psCommit = commit, psRepository = repository\<rparr>"
proof -
  obtain r where r: "repository = ''kr://'' @ r" using assms(1) by (auto simp: prefix_def)
  have at: "CHR ''@'' \<notin> set r" using assms(2) r by simp
  have short: "shortRepository repository = r" by (simp add: shortRepository_def r)
  let ?rest = "r @ ''@'' @ commit @ ''/'' @ object"
  have "before_byte CHR ''@'' ?rest = r" "after_byte CHR ''@'' ?rest = commit @ ''/'' @ object"
    using byte_split [OF at, of "commit @ ''/'' @ object"] by simp_all
  moreover have "before_byte CHR ''/'' (commit @ ''/'' @ object) = commit"
    "after_byte CHR ''/'' (commit @ ''/'' @ object) = object"
    using byte_split [OF assms(3), of object] by simp_all
  ultimately have "parse_kc_ref ?rest = Some \<lparr>psObject = object, psCommit = commit, psRepository = repository\<rparr>"
    using assms(4,5) by (simp add: parse_kc_ref_def ContainsChar_def Let_def r)
  then show ?thesis
    using assms(6) by (simp add: ParseSchemaRef_def FormatPinnedRef_def short Let_def TrimPrefix_def)
qed

section \<open>Provenance\<close>

definition OriginDerivation :: string where "OriginDerivation = ''DERIVATION''"

record AlgorithmRef =
  alDerivationSpecRef :: string
  alModelRef :: string
  alCodeHash :: string

definition Identified :: "AlgorithmRef \<Rightarrow> bool" where
  "Identified a = (alDerivationSpecRef a \<noteq> [] \<or> alModelRef a \<noteq> [] \<or> alCodeHash a \<noteq> [])"

record ProvenanceEnvelope =
  pvOriginKind :: string
  pvActorRef :: string
  pvActivityRef :: string
  pvSourceRefs :: "string list"
  pvEvidenceRefs :: "string list"
  pvInputWorkspaceVersionRef :: string
  pvAlgorithm :: "AlgorithmRef option"
  pvProducedAt :: string

definition ValidateProvenance :: "ProvenanceEnvelope option \<Rightarrow> unit go" where
  "ValidateProvenance p =
    (case p of
      None \<Rightarrow> Inr ()
    | Some p \<Rightarrow>
        if pvOriginKind p \<noteq> OriginDerivation then Inr ()
        else (let identified = (case pvAlgorithm p of None \<Rightarrow> False | Some a \<Rightarrow> Identified a) in
          if pvInputWorkspaceVersionRef p = [] \<or> \<not> identified then fails ErrPreconditionFailed else Inr ()))"

section \<open>Value sources\<close>

definition ValueSourceSnapshot :: string where "ValueSourceSnapshot = ''snapshot''"
definition ValueSourceBinding :: string where "ValueSourceBinding = ''binding''"
definition BindingState :: string where "BindingState = ''state''"
definition BindingStream :: string where "BindingStream = ''stream''"
definition ProtocolResourceAccessV1 :: string where "ProtocolResourceAccessV1 = ''resource-access/v1''"

lemmas source_names = ValueSourceSnapshot_def ValueSourceBinding_def BindingState_def BindingStream_def
  ProtocolResourceAccessV1_def

text \<open>The operations of a binding, each with the name of its call.\<close>

record BindingDeclaration =
  bdMode :: string
  bdRuntime :: string
  bdProtocol :: string
  bdOperations :: "(string, string) gomap"
  bdDescriptorRef :: string

record ValueSource =
  vsKind :: string
  vsBinding :: "BindingDeclaration option"

definition snapshot_source :: "ValueSource option \<Rightarrow> bool" where
  "snapshot_source source =
    (case source of None \<Rightarrow> True | Some s \<Rightarrow> vsKind s = [] \<or> vsKind s = ValueSourceSnapshot)"

definition Source_Normalized :: "ValueSource option \<Rightarrow> ValueSource option" where
  "Source_Normalized source = (if snapshot_source source then None else source)"

definition ValidateBinding :: "BindingDeclaration \<Rightarrow> unit go" where
  "ValidateBinding binding =
    (if bdMode binding \<noteq> BindingState \<and> bdMode binding \<noteq> BindingStream then fails ErrUsageInvalid
     else (let ref = TrimSpace (bdDescriptorRef binding);
               inline = (TrimSpace (bdRuntime binding) \<noteq> [] \<or> TrimSpace (bdProtocol binding) \<noteq> [] \<or>
                 length (bdOperations binding) > 0) in
       if ref \<noteq> [] \<and> inline then fails ErrUsageInvalid
       else if ref \<noteq> [] then Inr ()
       else if TrimSpace (bdRuntime binding) = [] \<or> TrimSpace (bdProtocol binding) = [] \<or>
           length (bdOperations binding) = 0 then fails ErrUsageInvalid
       else each_ok (\<lambda>(name, call). if TrimSpace name = [] \<or> TrimSpace call = [] then fails ErrUsageInvalid else Inr ())
         (bdOperations binding)))"

definition ValidateValueSource :: "ValueSource option \<Rightarrow> unit go" where
  "ValidateValueSource source =
    (if snapshot_source source then
       (if (case source of None \<Rightarrow> False | Some s \<Rightarrow> vsBinding s \<noteq> None) then fails ErrUsageInvalid else Inr ())
     else (case source of
       None \<Rightarrow> fails ErrUsageInvalid
     | Some s \<Rightarrow> (case vsBinding s of
         None \<Rightarrow> fails ErrUsageInvalid
       | Some binding \<Rightarrow>
           if vsKind s \<noteq> ValueSourceBinding then fails ErrUsageInvalid else ValidateBinding binding)))"

text \<open>The JSON of a value source, as the declaration digest sees it.\<close>

definition binding_json :: "BindingDeclaration \<Rightarrow> json" where
  "binding_json b = JObject ([(''mode'', JString (bdMode b))] @ omit_empty ''runtime'' (bdRuntime b) @
     omit_empty ''protocol'' (bdProtocol b) @
     (if bdOperations b = [] then []
      else [(''operations'', JObject (map (\<lambda>(name, call). (name, JObject [(''call'', JString call)])) (bdOperations b)))]) @
     omit_empty ''descriptorRef'' (bdDescriptorRef b))"

definition source_json :: "ValueSource option \<Rightarrow> json" where
  "source_json source =
    (case source of
      None \<Rightarrow> JNull
    | Some s \<Rightarrow> JObject ([(''kind'', JString (vsKind s))] @
        (case vsBinding s of None \<Rightarrow> [] | Some b \<Rightarrow> [(''binding'', binding_json b)])))"

definition DeclarationDigest :: "(string \<Rightarrow> string) \<Rightarrow> string \<Rightarrow> ValueSource option \<Rightarrow> string" where
  "DeclarationDigest sha schemaRef source = CanonicalDigest sha
    (JObject [(''schemaRef'', JString (TrimSpace schemaRef)), (''valueSource'', source_json (Source_Normalized source))])"

record UnitDeclaration =
  udAddress :: Address
  udDigest :: string
  udDeclarationDigest :: string
  udSchemaRef :: string
  udValueSource :: "ValueSource option"

section \<open>Relations\<close>

definition RelationDirected :: string where "RelationDirected = ''DIRECTED''"
definition RelationUndirected :: string where "RelationUndirected = ''UNDIRECTED''"

record RelationEndpoint =
  reRole :: string
  reObjectRef :: KnowledgeRef

record CanonicalRelation =
  rlRelationID :: string
  rlRelationType :: string
  rlDirection :: string
  rlEndpoints :: "RelationEndpoint list"
  rlAttributes :: "(string, json) gomap option"
  rlValidity :: "(string, json) gomap option"

text \<open>\<open>body[field].(string)\<close>, trimmed; a nil map has no fields.\<close>

definition relationField :: "(string, json) gomap \<Rightarrow> string \<Rightarrow> string option" where
  "relationField body field = (case map_of body field of Some (JString s) \<Rightarrow> Some (TrimSpace s) | _ \<Rightarrow> None)"

definition relationKnowledgeRef :: "json option \<Rightarrow> KnowledgeRef option" where
  "relationKnowledgeRef raw =
    (case raw of
      Some (JObject body) \<Rightarrow>
        (case (relationField body ''repository'', relationField body ''object'') of
          (Some repository, Some object) \<Rightarrow>
            if repository = [] \<or> object = [] then None
            else Some \<lparr>krRepository = repository, krObject = object\<rparr>
        | _ \<Rightarrow> None)
    | _ \<Rightarrow> None)"

definition decode_endpoint :: "json \<Rightarrow> RelationEndpoint go" where
  "decode_endpoint raw =
    (case raw of
      JObject item \<Rightarrow>
        (case (relationField item ''role'', relationKnowledgeRef (map_of item ''objectRef'')) of
          (Some role, Some objectRef) \<Rightarrow>
            if role = [] then fails ErrUsageInvalid
            else Inr \<lparr>reRole = role, reObjectRef = objectRef\<rparr>
        | _ \<Rightarrow> fails ErrUsageInvalid)
    | _ \<Rightarrow> fails ErrUsageInvalid)"

definition endpoint_key :: "RelationEndpoint \<Rightarrow> string" where
  "endpoint_key e = reRole e @ [CHR 0x00] @ krRepository (reObjectRef e) @ [CHR 0x00] @ krObject (reObjectRef e)"

fun endpoints_loop :: "json list \<Rightarrow> string list \<Rightarrow> RelationEndpoint list go" where
  "endpoints_loop [] seen = Inr []"
| "endpoints_loop (raw # raws) seen =
    rbind (decode_endpoint raw) (\<lambda>e.
      if endpoint_key e \<in> set seen then fails ErrUsageInvalid
      else rbind (endpoints_loop raws (endpoint_key e # seen)) (\<lambda>es. Inr (e # es)))"

text \<open>An optional member that must be an object.\<close>

definition object_member :: "(string, json) gomap \<Rightarrow> string \<Rightarrow> (string, json) gomap option go" where
  "object_member body name =
    (case map_of body name of
      None \<Rightarrow> Inr None
    | Some (JObject m) \<Rightarrow> Inr (Some m)
    | Some _ \<Rightarrow> fails ErrUsageInvalid)"

definition DecodeRelation :: "Address \<Rightarrow> json \<Rightarrow> CanonicalRelation go" where
  "DecodeRelation address v =
    (if adKind address \<noteq> KindRelation then fails ErrUsageInvalid
     else (case v of
       JObject body \<Rightarrow>
         (case (relationField body ''relationId'', relationField body ''relationType'', relationField body ''direction'') of
           (Some relationID, Some relationType, Some direction) \<Rightarrow>
             if relationID = [] \<or> relationID \<noteq> adObject address then fails ErrUsageInvalid
             else if relationType = [] then fails ErrUsageInvalid
             else if direction \<noteq> RelationDirected \<and> direction \<noteq> RelationUndirected then fails ErrUsageInvalid
             else (case map_of body ''endpoints'' of
               Some (JArray raws) \<Rightarrow>
                 if length raws < 2 then fails ErrUsageInvalid
                 else rbind (endpoints_loop raws []) (\<lambda>endpoints.
                   rbind (object_member body ''attributes'') (\<lambda>attributes.
                   rbind (object_member body ''validity'') (\<lambda>validity.
                   Inr \<lparr>rlRelationID = relationID, rlRelationType = relationType, rlDirection = direction,
                     rlEndpoints = endpoints, rlAttributes = attributes, rlValidity = validity\<rparr>)))
             | _ \<Rightarrow> fails ErrUsageInvalid)
         | _ \<Rightarrow> fails ErrUsageInvalid)
     | _ \<Rightarrow> fails ErrUsageInvalid))"

text \<open>What a decoded relation guarantees.\<close>

lemma endpoints_loop_ok:
  "endpoints_loop raws seen = Inr es \<Longrightarrow>
    list_all2 (\<lambda>raw e. decode_endpoint raw = Inr e) raws es \<and> distinct (map endpoint_key es) \<and>
    set (map endpoint_key es) \<inter> set seen = {}"
  by (induction raws seen arbitrary: es rule: endpoints_loop.induct) (fastforce simp: rbind_Inr_iff split: if_splits)+

lemma decode_endpoint_ok:
  "decode_endpoint raw = Inr e \<Longrightarrow> reRole e \<noteq> [] \<and> krRepository (reObjectRef e) \<noteq> [] \<and> krObject (reObjectRef e) \<noteq> []"
  by (auto simp: decode_endpoint_def relationKnowledgeRef_def split: json.splits option.splits if_splits)

definition relation_ok :: "CanonicalRelation \<Rightarrow> bool" where
  "relation_ok r = (rlRelationID r \<noteq> [] \<and> rlRelationType r \<noteq> [] \<and>
     rlDirection r \<in> {RelationDirected, RelationUndirected} \<and> 2 \<le> length (rlEndpoints r) \<and>
     distinct (rlEndpoints r) \<and>
     list_all (\<lambda>e. reRole e \<noteq> [] \<and> krRepository (reObjectRef e) \<noteq> [] \<and> krObject (reObjectRef e) \<noteq> []) (rlEndpoints r))"

lemma decoded_relation:
  assumes "DecodeRelation address v = Inr r"
  shows "adKind address = KindRelation" "rlRelationID r = adObject address" "relation_ok r"
proof -
  have kind: "adKind address = KindRelation" using assms by (simp add: DecodeRelation_def split: if_splits)
  obtain body i ty d raws es ats va where r: "v = JObject body" "relationField body ''relationId'' = Some i"
      "relationField body ''relationType'' = Some ty" "relationField body ''direction'' = Some d"
      "i \<noteq> []" "i = adObject address" "ty \<noteq> []" "d = RelationDirected \<or> d = RelationUndirected"
      "map_of body ''endpoints'' = Some (JArray raws)" "2 \<le> length raws" "endpoints_loop raws [] = Inr es"
      "r = \<lparr>rlRelationID = i, rlRelationType = ty, rlDirection = d, rlEndpoints = es, rlAttributes = ats, rlValidity = va\<rparr>"
    using assms by (auto simp: DecodeRelation_def rbind_Inr_iff not_less split: json.splits option.splits if_splits)
  note es = endpoints_loop_ok [OF r(11)]
  have "list_all (\<lambda>e. reRole e \<noteq> [] \<and> krRepository (reObjectRef e) \<noteq> [] \<and> krObject (reObjectRef e) \<noteq> []) es"
    unfolding list_all_iff
  proof
    fix e
    assume "e \<in> set es"
    then obtain raw where "decode_endpoint raw = Inr e" using list_all2_right [OF conjunct1 [OF es]] by blast
    then show "reRole e \<noteq> [] \<and> krRepository (reObjectRef e) \<noteq> [] \<and> krObject (reObjectRef e) \<noteq> []"
      by (rule decode_endpoint_ok)
  qed
  moreover have "distinct es" using es by (simp add: distinct_map)
  moreover have "length es = length raws" using list_all2_lengthD [OF conjunct1 [OF es]] by simp
  ultimately show "relation_ok r" unfolding relation_ok_def r(12) using r(5,7,8,10) by simp
  show "adKind address = KindRelation" by (rule kind)
  show "rlRelationID r = adObject address" by (simp add: r(12) r(6))
qed

section \<open>Operations and change sets\<close>

definition OpPut :: string where "OpPut = ''PUT''"
definition OpRemove :: string where "OpRemove = ''REMOVE''"
definition IfAbsent :: string where "IfAbsent = ''IF_ABSENT''"
definition IfObjectEquals :: string where "IfObjectEquals = ''IF_OBJECT_EQUALS''"
definition IfDigestEquals :: string where "IfDigestEquals = ''IF_DIGEST_EQUALS''"

lemmas operation_names = OpPut_def OpRemove_def IfAbsent_def IfObjectEquals_def IfDigestEquals_def

record Precondition =
  pcType :: string
  pcDigest :: string

record Operation =
  opOp :: string
  opAddress :: Address
  opValue :: json
  opPathHint :: string
  opSchemaRef :: string
  opValueSource :: "ValueSource option"
  opPrecondition :: "Precondition option"
  opReason :: string
  opReplacement :: "KnowledgeRef option"

record ChangeSet =
  csTargetRepository :: string
  csTargetRef :: string
  csBaseCommit :: string
  csExpectedTargetCommit :: string
  csOperations :: "Operation list"
  csMessage :: string
  csAuthor :: string
  csRequestID :: string
  csRuleID :: string
  csProvenance :: "ProvenanceEnvelope option"
  csBulkIngest :: bool

section \<open>Values read at a commit\<close>

record AspectSelector =
  slInclude :: "string list"
  slExclude :: "string list"

definition SelectAspects :: "json \<Rightarrow> Address list \<Rightarrow> AspectSelector option \<Rightarrow> json" where
  "SelectAspects v units selector =
    (case selector of
      None \<Rightarrow> v
    | Some selector \<Rightarrow>
        if \<not> list_ex (\<lambda>unit. adAspect unit \<noteq> []) units then v
        else (case v of
          JObject members \<Rightarrow>
            JObject (filter (\<lambda>(name, item). (length (slInclude selector) > 0 \<longrightarrow> name \<in> set (slInclude selector)) \<and>
              name \<notin> set (slExclude selector)) members)
        | _ \<Rightarrow> v))"

definition StatusResolved :: string where "StatusResolved = ''RESOLVED''"
definition StatusRemoved :: string where "StatusRemoved = ''REMOVED''"
definition StatusUnresolved :: string where "StatusUnresolved = ''UNRESOLVED''"
definition StatusForbidden :: string where "StatusForbidden = ''FORBIDDEN''"

record Resolution =
  rsRepository :: string
  rsCommit :: string
  rsObjectID :: string
  rsAddress :: Address
  rsPathHint :: string
  rsDigest :: string
  rsDeclarationDigest :: string
  rsSchemaRef :: string
  rsValueSource :: "ValueSource option"
  rsStatus :: string

record KnowledgeValue =
  kvKnowledgeRef :: KnowledgeRef
  kvRepository :: string
  kvCommit :: string
  kvAddress :: Address
  kvValue :: json
  kvProvenance :: "ProvenanceEnvelope option"
  kvUnits :: "Address list"
  kvDeclarations :: "UnitDeclaration list"

definition validateHydratedIdentity :: "string \<Rightarrow> string \<Rightarrow> string \<Rightarrow> KnowledgeValue \<Rightarrow> unit go" where
  "validateHydratedIdentity repository commit id0 v =
    (if repository = [] \<or> commit = [] \<or> id0 = [] \<or> kvRepository v \<noteq> repository \<or> kvCommit v \<noteq> commit \<or>
        krRepository (kvKnowledgeRef v) \<noteq> repository \<or> krObject (kvKnowledgeRef v) \<noteq> id0 \<or> adObject (kvAddress v) \<noteq> id0
     then fails ErrPreconditionFailed
     else if list_ex (\<lambda>address. adObject address \<noteq> id0) (kvUnits v) then fails ErrPreconditionFailed
     else if list_ex (\<lambda>declaration. adObject (udAddress declaration) \<noteq> id0) (kvDeclarations v) then fails ErrPreconditionFailed
     else Inr ())"

definition ValidateHydratedObject :: "string \<Rightarrow> string \<Rightarrow> string \<Rightarrow> KnowledgeValue \<Rightarrow> unit go" where
  "ValidateHydratedObject repository commit id0 v =
    rbind (validateHydratedIdentity repository commit id0 v) (\<lambda>_.
      if adAspect (kvAddress v) \<noteq> [] \<or> adMember (kvAddress v) \<noteq> [] then fails ErrPreconditionFailed else Inr ())"

definition ValidateHydratedAddress :: "string \<Rightarrow> string \<Rightarrow> Address \<Rightarrow> KnowledgeValue \<Rightarrow> unit go" where
  "ValidateHydratedAddress repository commit address v =
    rbind (validateHydratedIdentity repository commit (adObject address) v) (\<lambda>_.
      if adAspect (kvAddress v) \<noteq> adAspect address \<or> adMember (kvAddress v) \<noteq> adMember address
      then fails ErrPreconditionFailed else Inr ())"

text \<open>A value accepted at an address is the value of that unit and cannot pass for another one.\<close>

lemma hydrated_address_unique:
  assumes "ValidateHydratedAddress repository commit a v = Inr ()" "ValidateHydratedAddress repository' commit' b v = Inr ()"
  shows "repository = repository' \<and> commit = commit' \<and> AddressKey a = AddressKey b"
  using assms
  by (auto simp: ValidateHydratedAddress_def validateHydratedIdentity_def rbind_Inr_iff AddressKey_def split: if_splits)

lemma hydrated_object_is_address:
  assumes "ValidateHydratedObject repository commit k v = Inr ()"
  shows "ValidateHydratedAddress repository commit (kvAddress v) v = Inr ()" "IsEntityBlob (kvAddress v)"
    "adObject (kvAddress v) = k"
  using assms
  by (auto simp: ValidateHydratedAddress_def ValidateHydratedObject_def validateHydratedIdentity_def IsEntityBlob_def
      rbind_Inr_iff split: if_splits)

section \<open>Observations and logs\<close>

definition ObservationRepeatable :: string where "ObservationRepeatable = ''repeatable''"
definition ObservationBounded :: string where "ObservationBounded = ''bounded''"
definition ObservationLatestOnly :: string where "ObservationLatestOnly = ''latest-only''"

record ObservationBasis =
  obBindingGeneration :: string
  obConsistency :: string
  obSourceRevision :: string
  obWatermark :: string
  obObservedAt :: string

text \<open>\<open>rfc3339\<close> decides whether \<open>time.Parse(time.RFC3339Nano, s)\<close> succeeds.\<close>

definition ValidateObservationBasis :: "(string \<Rightarrow> bool) \<Rightarrow> ObservationBasis \<Rightarrow> unit go" where
  "ValidateObservationBasis rfc3339 basis =
    (if TrimSpace (obBindingGeneration basis) = [] then fails ErrCapabilityUnsatisfied
     else rbind (each_ok (\<lambda>v. if TrimSpace v \<noteq> v then fails ErrCapabilityUnsatisfied else Inr ())
         [obBindingGeneration basis, obSourceRevision basis, obWatermark basis, obObservedAt basis]) (\<lambda>_.
       if obConsistency basis \<notin> {ObservationRepeatable, ObservationBounded, ObservationLatestOnly}
       then fails ErrCapabilityUnsatisfied
       else (let observedAt = TrimSpace (obObservedAt basis) in
         if observedAt = [] then fails ErrCapabilityUnsatisfied
         else if \<not> rfc3339 observedAt then fails ErrCapabilityUnsatisfied
         else Inr ())))"

definition DefaultObjectLogLimit :: int where "DefaultObjectLogLimit = 50"

definition PageSize :: "int \<Rightarrow> int" where
  "PageSize limit = (if limit \<le> 0 then DefaultObjectLogLimit else limit)"

end
