(* ===== verification/DomainSchema.thy ===== *)
theory DomainSchema
  imports KnowledgeUnits Scalar
begin

text \<open>
  Domain Schemas, \<open>src/knowledge/schema.go\<close>: parsing a \<open>schema/*\<close> value, checking an instance against it, and
  the comparison that decides whether a schema may be republished under its identity; the origin of
  bound state (\<open>origin.go\<close>) and the README schema (\<open>readme.go\<close>).

  The values are decoded JSON documents.  \<open>time.Parse\<close> and \<open>net/url\<close> are parameters (\<open>schema_lib\<close>).
\<close>

section \<open>Text helpers of the Go library\<close>

definition TrimRightByte :: "char \<Rightarrow> string \<Rightarrow> string" where
  "TrimRightByte c s = rev (dropWhile (\<lambda>x. x = c) (rev s))"

definition TrimCutset :: "string \<Rightarrow> string \<Rightarrow> string" where
  "TrimCutset cutset s =
    rev (dropWhile (\<lambda>x. x \<in> set cutset) (rev (dropWhile (\<lambda>x. x \<in> set cutset) s)))"

text \<open>\<open>strings.Fields\<close>: the maximal parts without white space.\<close>

function fields_loop :: "string \<Rightarrow> string \<Rightarrow> string list" where
  "fields_loop part [] = (if part = [] then [] else [part])"
| "fields_loop part (c # s) =
    (case leading space_encodings (c # s) of
      None \<Rightarrow> fields_loop (part @ [c]) s
    | Some e \<Rightarrow> (if part = [] then [] else [part]) @ fields_loop [] (drop (length e) (c # s)))"
  by pat_completeness auto
termination
  by (relation "measure (\<lambda>(_, s). length s)") (auto dest!: leading_SomeD simp: prefix_def)

definition Fields :: "string \<Rightarrow> string list" where
  "Fields s = fields_loop [] s"

record go_url =
  urScheme :: string
  urUser :: bool
  urHost :: string
  urPath :: string
  urRawPath :: string
  urRawQuery :: string
  urFragment :: string

record schema_lib =
  scTime :: "string \<Rightarrow> string \<Rightarrow> bool"
  scURL :: "string \<Rightarrow> go_url option"
  scURLString :: "go_url \<Rightarrow> string"

section \<open>Origins\<close>

text \<open>None is the (plain) error.\<close>

definition ParseResourceAccessOrigin :: "schema_lib \<Rightarrow> string \<Rightarrow> string option" where
  "ParseResourceAccessOrigin lib raw0 =
    (let raw = TrimSpace raw0 in
     if raw = [] then Some []
     else (case scURL lib raw of
       None \<Rightarrow> None
     | Some u \<Rightarrow>
         if urScheme u = [] \<or> urHost u = [] \<or> (urScheme u \<noteq> ''http'' \<and> urScheme u \<noteq> ''https'') then None
         else if urUser u \<or> urRawQuery u \<noteq> [] \<or> urFragment u \<noteq> [] then None
         else (let u' = u\<lparr>urPath := TrimRightByte CHR ''/'' (urPath u)\<rparr> in
           if suffix ''/v1/access'' (urPath u') then None
           else Some (TrimRightByte CHR ''/'' (scURLString lib u')))))"

definition ResourceAccessEndpoint :: "schema_lib \<Rightarrow> string \<Rightarrow> string go" where
  "ResourceAccessEndpoint lib origin =
    (case ParseResourceAccessOrigin lib origin of
      None \<Rightarrow> fails ErrUsageInvalid
    | Some origin \<Rightarrow> if origin = [] then fails ErrCapabilityUnsatisfied else Inr (origin @ ''/v1/access''))"

text \<open>\<open>optionalSchemaString\<close>: None is the error, the boolean says whether the member is present.\<close>

definition optionalSchemaString :: "(string, json) gomap \<Rightarrow> string \<Rightarrow> (string \<times> bool) option" where
  "optionalSchemaString body name =
    (case map_of body name of
      None \<Rightarrow> Some ([], False)
    | Some JNull \<Rightarrow> Some ([], False)
    | Some (JString v) \<Rightarrow> Some (TrimSpace v, True)
    | Some _ \<Rightarrow> None)"

definition attach_to :: "schema_lib \<Rightarrow> string \<Rightarrow> (string, json) gomap \<Rightarrow> json option" where
  "attach_to lib origin body =
    (case optionalSchemaString body ''origin'' of
      None \<Rightarrow> None
    | Some (existing, _) \<Rightarrow>
        if existing \<noteq> [] \<and> ParseResourceAccessOrigin lib existing \<noteq> Some origin then None
        else Some (JObject (AList.update ''origin'' (JString origin) body)))"

definition AttachSchemaOrigin :: "schema_lib \<Rightarrow> json \<Rightarrow> string \<Rightarrow> json option" where
  "AttachSchemaOrigin lib v origin0 =
    (case ParseResourceAccessOrigin lib origin0 of
      None \<Rightarrow> None
    | Some origin \<Rightarrow>
        if origin = [] then Some v
        else (case v of
          JObject body \<Rightarrow> attach_to lib origin body
        | JNull \<Rightarrow> attach_to lib origin []
        | _ \<Rightarrow> None))"

definition SplitSchemaOrigin :: "schema_lib \<Rightarrow> json \<Rightarrow> (string \<times> json) option" where
  "SplitSchemaOrigin lib v =
    (case v of
      JObject body \<Rightarrow>
        (case optionalSchemaString body ''origin'' of
          None \<Rightarrow> None
        | Some (origin, present) \<Rightarrow>
            if \<not> present \<or> origin = [] then Some ([], v)
            else (case ParseResourceAccessOrigin lib origin of
              None \<Rightarrow> None
            | Some origin \<Rightarrow> Some (origin, JObject (AList.delete ''origin'' body))))
    | _ \<Rightarrow> Some ([], v))"

section \<open>Schema definitions\<close>

definition SystemRepositoryID :: string where "SystemRepositoryID = ''kr://kc/system''"
definition MetaSchemaV1 :: string where "MetaSchemaV1 = ''schema/meta/schema-definition/v1''"
definition CoreResourceDescriptorSchemaV1 :: string where
  "CoreResourceDescriptorSchemaV1 = ''schema/core/resource-descriptor/v1''"
definition CoreRelationSchemaV1 :: string where "CoreRelationSchemaV1 = ''schema/core/relation/v1''"
definition CoreReadmeSchemaV1 :: string where "CoreReadmeSchemaV1 = ''schema/core/readme/v1''"
definition ReadmeAspect :: string where "ReadmeAspect = ''readme''"

definition supportedSchemaTypes :: "string list" where
  "supportedSchemaTypes = [[], ''string'', ''boolean'', ''number'', ''integer'', ''date'', ''datetime'', ''timestamp'',
     ''object'', ''record'', ''array'', ''object_ref'', ''object_ref_list'', ''relation_endpoint_list'']"

definition supportedSchemaAccess :: "string list" where
  "supportedSchemaAccess = [''text'', ''filter'', ''sort'']"

definition unscalar_types :: "string list" where
  "unscalar_types = [''object'', ''record'', ''array'', ''relation_endpoint_list'']"

record SchemaField =
  sfPath :: string
  sfType :: string
  sfRequired :: bool
  sfAccess :: "string list"
  sfRefTypes :: "string list"

record SchemaDefinition =
  dfObjectID :: string
  dfMetaSchema :: string
  dfEntity :: string
  dfDescription :: string
  dfAspect :: string
  dfPattern :: string
  dfAdditional :: bool
  dfOrigin :: string
  dfFields :: "SchemaField list"

definition has_entity :: "(string, json) gomap \<Rightarrow> bool" where
  "has_entity body = (map_of body ''entity'' \<noteq> None)"

text \<open>The member that \<open>schemaObject\<close> takes for the assembled single-aspect object is the first in
  iteration order.\<close>

definition schemaObject :: "json \<Rightarrow> (string, json) gomap option" where
  "schemaObject v =
    (case v of
      JObject body \<Rightarrow>
        if has_entity body then Some body
        else (case find (\<lambda>raw. case raw of JObject child \<Rightarrow> has_entity child | _ \<Rightarrow> False) (map snd body) of
          Some (JObject child) \<Rightarrow> Some child
        | _ \<Rightarrow> Some body)
    | _ \<Rightarrow> None)"

definition unsupported :: "'a option \<Rightarrow> 'a go" where
  "unsupported r = (case r of None \<Rightarrow> fails ErrSchemaUnsupported | Some v \<Rightarrow> Inr v)"

definition list_item :: "json \<Rightarrow> string option" where
  "list_item item = (case item of JString v \<Rightarrow> if TrimSpace v = [] then None else Some (ToLower (TrimSpace v)) | _ \<Rightarrow> None)"

definition schemaStringList :: "json option \<Rightarrow> string list option" where
  "schemaStringList raw =
    (case raw of
      None \<Rightarrow> Some []
    | Some JNull \<Rightarrow> Some []
    | Some (JArray items) \<Rightarrow> those (map list_item items)
    | Some (JString text) \<Rightarrow> Some (map ToLower (Fields text))
    | Some _ \<Rightarrow> None)"

definition compactSorted :: "string list \<Rightarrow> string list" where
  "compactSorted values = remdups_adj (sort values)"

definition field_required :: "(string, json) gomap \<Rightarrow> bool option" where
  "field_required body = (case map_of body ''required'' of None \<Rightarrow> Some False | Some (JBool b) \<Rightarrow> Some b | Some _ \<Rightarrow> None)"

definition parse_field :: "string \<times> json \<Rightarrow> SchemaField go" where
  "parse_field item =
    (let name = TrimSpace (fst item) in
     if name = [] then fails ErrSchemaUnsupported
     else (case snd item of
       JObject body \<Rightarrow>
         rbind (unsupported (optionalSchemaString body ''type'')) (\<lambda>(ty, _).
         let fieldType = ToLower ty in
         if fieldType \<notin> set supportedSchemaTypes then fails ErrSchemaUnsupported
         else rbind (unsupported (field_required body)) (\<lambda>required.
         rbind (unsupported (schemaStringList (map_of body ''access''))) (\<lambda>access.
         if list_ex (\<lambda>hint. hint \<notin> set supportedSchemaAccess) access then fails ErrSchemaUnsupported
         else if length access > 0 \<and> fieldType \<in> set unscalar_types then fails ErrSchemaUnsupported
         else rbind (unsupported (schemaStringList (map_of body ''refTypes''))) (\<lambda>refTypes.
         Inr \<lparr>sfPath = name, sfType = fieldType, sfRequired = required,
           sfAccess = compactSorted access, sfRefTypes = compactSorted refTypes\<rparr>))))
     | _ \<Rightarrow> fails ErrSchemaUnsupported))"

text \<open>\<open>sort.Slice\<close> by path; the paths of a parsed schema differ unless two names differ in white space only.\<close>

definition parseSchemaFields :: "json option \<Rightarrow> SchemaField list go" where
  "parseSchemaFields raw =
    (case raw of
      None \<Rightarrow> Inr []
    | Some JNull \<Rightarrow> Inr []
    | Some (JObject items) \<Rightarrow> rbind (collect parse_field items) (\<lambda>fields. Inr (sort_key sfPath fields))
    | Some _ \<Rightarrow> fails ErrSchemaUnsupported)"

definition space_to_underscore :: "string \<Rightarrow> string" where
  "space_to_underscore s = map (\<lambda>c. if c = CHR '' '' then CHR ''_'' else c) s"

definition schema_pattern :: "string \<Rightarrow> string \<Rightarrow> string go" where
  "schema_pattern aspect pattern0 =
    (let pattern1 = space_to_underscore (ToLower pattern0);
         pattern = (if pattern1 = [] then ''record'' else pattern1) in
     if pattern \<noteq> ''record'' \<and> pattern \<noteq> ''keyed_collection'' then fails ErrSchemaUnsupported
     else if pattern = ''keyed_collection'' \<and> aspect = [] then fails ErrSchemaUnsupported
     else Inr pattern)"

definition schema_additional :: "(string, json) gomap \<Rightarrow> bool option" where
  "schema_additional body =
    (case map_of body ''additionalProperties'' of None \<Rightarrow> Some True | Some (JBool b) \<Rightarrow> Some b | Some _ \<Rightarrow> None)"

definition schema_origin :: "schema_lib \<Rightarrow> string \<Rightarrow> string \<Rightarrow> string go" where
  "schema_origin lib aspect origin =
    (if origin = [] then Inr []
     else rbind (unsupported (ParseResourceAccessOrigin lib origin)) (\<lambda>parsed_origin.
       if aspect = [] then fails ErrSchemaUnsupported else Inr parsed_origin))"

definition schema_string :: "(string, json) gomap \<Rightarrow> string \<Rightarrow> string go" where
  "schema_string body name = map_sum id fst (unsupported (optionalSchemaString body name))"

definition ParseSchemaDefinition :: "schema_lib \<Rightarrow> string \<Rightarrow> json \<Rightarrow> SchemaDefinition go" where
  "ParseSchemaDefinition lib objectID v =
    (if \<not> IsSchemaObject objectID then fails ErrSchemaUnsupported
     else rbind (unsupported (schemaObject v)) (\<lambda>body.
       rbind (schema_string body ''metaSchema'') (\<lambda>meta0.
       let meta = (if meta0 = [] then MetaSchemaV1 else meta0) in
       if meta \<noteq> MetaSchemaV1 then fails ErrSchemaUnsupported
       else rbind (schema_string body ''entity'') (\<lambda>entity.
       if entity = [] then fails ErrSchemaUnsupported
       else rbind (schema_string body ''description'') (\<lambda>description.
       rbind (schema_string body ''aspect'') (\<lambda>aspect.
       rbind (schema_string body ''pattern'') (\<lambda>pattern0.
       rbind (schema_pattern aspect pattern0) (\<lambda>pattern.
       rbind (unsupported (schema_additional body)) (\<lambda>additional.
       rbind (parseSchemaFields (map_of body ''fields'')) (\<lambda>fields.
       rbind (schema_string body ''origin'') (\<lambda>origin0.
       rbind (schema_origin lib aspect origin0) (\<lambda>origin.
       Inr \<lparr>dfObjectID = objectID, dfMetaSchema = meta, dfEntity = entity, dfDescription = description,
         dfAspect = aspect, dfPattern = pattern, dfAdditional = additional, dfOrigin = origin,
         dfFields = fields\<rparr>))))))))))))"

definition Schema_Bound :: "SchemaDefinition \<Rightarrow> bool" where
  "Schema_Bound d = (TrimSpace (dfOrigin d) \<noteq> [] \<and> TrimSpace (dfAspect d) \<noteq> [])"

definition BindingSource :: "SchemaDefinition \<Rightarrow> ValueSource option" where
  "BindingSource d =
    (if \<not> Schema_Bound d then None
     else Some \<lparr>vsKind = ValueSourceBinding, vsBinding = Some \<lparr>bdMode = BindingState, bdRuntime = [],
       bdProtocol = ProtocolResourceAccessV1, bdOperations = [(''lookup'', ''lookup'')], bdDescriptorRef = []\<rparr>\<rparr>)"

definition BoundDeclarationDigest :: "(string \<Rightarrow> string) \<Rightarrow> SchemaDefinition \<Rightarrow> string" where
  "BoundDeclarationDigest sha d = CanonicalDigest sha
    (JObject [(''schemaRef'', JString (dfObjectID d)), (''origin'', JString (dfOrigin d)),
       (''valueSource'', source_json (Source_Normalized (BindingSource d)))])"

section \<open>Instances\<close>

text \<open>The fraction that \<open>[.,]([0-9]+)(?:Z|[+-][0-9]{2}:[0-9]{2})$\<close> finds, leftmost.\<close>

definition zone_text :: "string \<Rightarrow> bool" where
  "zone_text r = (r = ''Z'' \<or>
     (length r = 6 \<and> (hd r = CHR ''+'' \<or> hd r = CHR ''-'') \<and> is_digit (r ! 1) \<and> is_digit (r ! 2) \<and>
      r ! 3 = CHR '':'' \<and> is_digit (r ! 4) \<and> is_digit (r ! 5)))"

fun schemaTemporalFraction :: "string \<Rightarrow> string option" where
  "schemaTemporalFraction [] = None"
| "schemaTemporalFraction (c # s) =
    (if (c = CHR ''.'' \<or> c = CHR '','') \<and> takeWhile is_digit s \<noteq> [] \<and> zone_text (dropWhile is_digit s)
     then Some (takeWhile is_digit s) else schemaTemporalFraction s)"

definition sub_nanosecond :: "string \<Rightarrow> bool" where
  "sub_nanosecond raw =
    (case schemaTemporalFraction raw of
      None \<Rightarrow> False
    | Some fraction \<Rightarrow> length fraction > 9 \<and> TrimCutset ''0'' (drop 9 fraction) \<noteq> [])"

text \<open>The 64-bit float of a JSON number by its exact value: a number of at least \<open>2^1024 - 2^970\<close> rounds to
  an infinity and one of at most \<open>2^-1075\<close> to zero.\<close>

definition float_overflow :: "rat \<Rightarrow> bool" where
  "float_overflow v = (\<bar>v\<bar> \<ge> 2 ^ 1024 - 2 ^ 970)"

definition float_zero :: "rat \<Rightarrow> bool" where
  "float_zero v = (\<bar>v\<bar> \<le> 1 / 2 ^ 1075)"

definition isSchemaNumber :: "json \<Rightarrow> bool" where
  "isSchemaNumber v = (case v of JNumber n \<Rightarrow> number_text n \<and> \<not> float_overflow (number_value n) | _ \<Rightarrow> False)"

text \<open>\<open>(*big.Rat).SetString\<close> refuses a power of ten beyond one million.\<close>

definition rat_exponent :: "string \<Rightarrow> int" where
  "rat_exponent n = (case unsigned_parts (if hd n = CHR ''-'' then tl n else n) of
     (whole, fraction, e) \<Rightarrow> the e - int (length fraction))"

definition rat_IsInt :: "string \<Rightarrow> bool" where
  "rat_IsInt n = (\<bar>rat_exponent n\<bar> \<le> 1000000 \<and> of_int \<lfloor>number_value n\<rfloor> = number_value n)"

definition mantissa_text :: "string \<Rightarrow> string" where
  "mantissa_text n = takeWhile (\<lambda>c. c \<noteq> CHR ''e'') (ToLower n)"

definition isSchemaInteger :: "json \<Rightarrow> bool" where
  "isSchemaInteger v =
    (case v of
      JNumber n \<Rightarrow>
        if \<not> isSchemaNumber v then False
        else if float_zero (number_value n) then TrimCutset ''-0.'' (mantissa_text n) = []
        else rat_IsInt n
    | _ \<Rightarrow> False)"

definition is_string :: "json \<Rightarrow> bool" where
  "is_string v = (case v of JString _ \<Rightarrow> True | _ \<Rightarrow> False)"

definition is_object :: "json \<Rightarrow> bool" where
  "is_object v = (case v of JObject _ \<Rightarrow> True | _ \<Rightarrow> False)"

definition temporal_ok :: "schema_lib \<Rightarrow> string \<Rightarrow> string \<Rightarrow> bool" where
  "temporal_ok lib ty raw =
    (if ty = ''date'' then scTime lib ''2006-01-02'' raw
     else if sub_nanosecond raw then False
     else scTime lib ''2006-01-02T15:04:05Z07:00'' raw)"

definition schemaTypeMatches :: "schema_lib \<Rightarrow> string \<Rightarrow> json \<Rightarrow> bool" where
  "schemaTypeMatches lib ty v =
    (if ty = [] then True
     else if ty \<in> {''string'', ''object_ref''} then is_string v
     else if ty \<in> {''date'', ''datetime'', ''timestamp''} then
       (case v of JString raw \<Rightarrow> temporal_ok lib ty raw | _ \<Rightarrow> False)
     else if ty = ''boolean'' then (case v of JBool _ \<Rightarrow> True | _ \<Rightarrow> False)
     else if ty = ''number'' then isSchemaNumber v
     else if ty = ''integer'' then isSchemaInteger v
     else if ty \<in> {''object'', ''record''} then is_object v
     else if ty \<in> {''array'', ''object_ref_list'', ''relation_endpoint_list''} then
       (case v of
         JArray items \<Rightarrow>
           (ty = ''object_ref_list'' \<longrightarrow> list_all is_string items) \<and>
           (ty = ''relation_endpoint_list'' \<longrightarrow> list_all is_object items)
       | _ \<Rightarrow> False)
     else False)"

definition check_field :: "schema_lib \<Rightarrow> (string, json) gomap \<Rightarrow> SchemaField \<Rightarrow> unit go" where
  "check_field lib body field =
    (case map_of body (sfPath field) of
      None \<Rightarrow> if sfRequired field then fails ErrSchemaInstanceInvalid else Inr ()
    | Some raw \<Rightarrow>
        if raw = JNull then (if sfRequired field then fails ErrSchemaInstanceInvalid else Inr ())
        else if \<not> schemaTypeMatches lib (sfType field) raw then fails ErrSchemaInstanceInvalid
        else Inr ())"

definition address_matches :: "Address \<Rightarrow> SchemaDefinition \<Rightarrow> bool" where
  "address_matches address schema =
    (\<not> (dfAspect schema = [] \<and> adAspect address \<noteq> []) \<and>
     \<not> (dfAspect schema \<noteq> [] \<and> adAspect address \<noteq> dfAspect schema) \<and>
     \<not> (dfPattern schema = ''keyed_collection'' \<and> adKind address \<noteq> KindMember) \<and>
     \<not> (dfPattern schema = ''record'' \<and> dfAspect schema \<noteq> [] \<and> adKind address = KindMember))"

definition ValidateSchemaInstance :: "schema_lib \<Rightarrow> Address \<Rightarrow> json \<Rightarrow> SchemaDefinition \<Rightarrow> unit go" where
  "ValidateSchemaInstance lib address v schema =
    (if \<not> address_matches address schema then fails ErrSchemaInstanceInvalid
     else (case v of
       JObject body \<Rightarrow>
         rbind (each_ok (check_field lib body) (dfFields schema)) (\<lambda>_.
           if \<not> dfAdditional schema then
             each_ok (\<lambda>name. if name \<notin> set (map sfPath (dfFields schema)) then fails ErrSchemaInstanceInvalid else Inr ())
               (map fst body)
           else Inr ())
     | _ \<Rightarrow> fails ErrSchemaInstanceInvalid))"

section \<open>Compatibility of two versions\<close>

definition stringSetContains :: "string list \<Rightarrow> string list \<Rightarrow> bool" where
  "stringSetContains values required = list_all (\<lambda>v. v \<in> set values) required"

definition refTypesNarrowed :: "string list \<Rightarrow> string list \<Rightarrow> bool" where
  "refTypesNarrowed previous next =
    (if length next = 0 then False
     else if length previous = 0 then True
     else \<not> stringSetContains next previous)"

definition report :: "bool \<Rightarrow> string \<Rightarrow> string list" where
  "report b change = (if b then [change] else [])"

text \<open>The map of the fields of a schema by path; a later field replaces an earlier one.\<close>

definition fields_by_path :: "SchemaField list \<Rightarrow> (string, SchemaField) gomap" where
  "fields_by_path fs = foldl (\<lambda>m field. AList.update (sfPath field) field m) [] fs"

definition field_changes :: "(string, SchemaField) gomap \<Rightarrow> string \<times> SchemaField \<Rightarrow> string list" where
  "field_changes newFields entry =
    (let name = fst entry; oldField = snd entry in
     case map_of newFields name of
       None \<Rightarrow> [''field '' @ name @ '' was removed'']
     | Some newField \<Rightarrow>
         report (sfType oldField \<noteq> sfType newField) (''field '' @ name @ '' type changed'') @
         report (\<not> sfRequired oldField \<and> sfRequired newField) (''field '' @ name @ '' became required'') @
         report (\<not> stringSetContains (sfAccess newField) (sfAccess oldField)) (''field '' @ name @ '' access was narrowed'') @
         report (refTypesNarrowed (sfRefTypes oldField) (sfRefTypes newField)) (''field '' @ name @ '' refTypes were narrowed''))"

definition BreakingSchemaChanges :: "SchemaDefinition \<Rightarrow> SchemaDefinition \<Rightarrow> string list" where
  "BreakingSchemaChanges previous next =
    (let oldFields = fields_by_path (dfFields previous); newFields = fields_by_path (dfFields next) in
     sort (
       report (dfMetaSchema previous \<noteq> dfMetaSchema next) ''metaSchema changed'' @
       report (dfEntity previous \<noteq> dfEntity next) ''entity changed'' @
       report (dfAspect previous \<noteq> dfAspect next) ''aspect changed'' @
       report (dfPattern previous \<noteq> dfPattern next) ''pattern changed'' @
       report (dfAdditional previous \<and> \<not> dfAdditional next) ''additionalProperties was narrowed'' @
       concat (map (\<lambda>field. report (map_of oldFields (sfPath field) = None \<and> sfRequired field)
         (''required field '' @ sfPath field @ '' was added'')) (dfFields next)) @
       concat (map (field_changes newFields) oldFields)))"

section \<open>README schema\<close>

definition IsReadmeSchema :: "string \<Rightarrow> bool" where
  "IsReadmeSchema schemaRef = (case ParseSchemaRef schemaRef of None \<Rightarrow> False | Some p \<Rightarrow> psObject p = CoreReadmeSchemaV1)"

definition readme_address :: "Address \<Rightarrow> bool" where
  "readme_address address = (adKind address = KindAspect \<and> adAspect address = ReadmeAspect \<and> adMember address = [])"

definition IsReadmeAddress :: "Address \<Rightarrow> string \<Rightarrow> bool" where
  "IsReadmeAddress address schemaRef = (IsReadmeSchema schemaRef \<and> readme_address address)"

definition AssertReadmeBinding :: "Address \<Rightarrow> string \<Rightarrow> unit go" where
  "AssertReadmeBinding address schemaObjectID =
    (if schemaObjectID = CoreReadmeSchemaV1 then
       (if \<not> readme_address address then fails ErrSchemaInstanceInvalid else Inr ())
     else if readme_address address then fails ErrSchemaInstanceInvalid
     else Inr ())"

fun ReadmeBody :: "json \<Rightarrow> string option"
  and readme_nested :: "(string \<times> json) list \<Rightarrow> string option" where
  "ReadmeBody (JString typed) = (if TrimSpace typed = [] then None else Some typed)"
| "ReadmeBody (JObject typed) =
    (case map_of typed ''body'' of
      Some (JString raw) \<Rightarrow> if TrimSpace raw \<noteq> [] then Some raw else readme_nested typed
    | _ \<Rightarrow> readme_nested typed)"
| "ReadmeBody _ = None"
| "readme_nested [] = None"
| "readme_nested ((k, v) # m) = (if k = ReadmeAspect then ReadmeBody v else readme_nested m)"

section \<open>The integer check is exact\<close>

lemma TrimCutset_Nil: "TrimCutset cutset s = [] \<longleftrightarrow> set s \<subseteq> set cutset"
proof -
  have "TrimCutset cutset s = [] \<longleftrightarrow> (\<forall>x \<in> set (dropWhile (\<lambda>x. x \<in> set cutset) s). x \<in> set cutset)"
    by (simp add: TrimCutset_def)
  also have "\<dots> \<longleftrightarrow> set s \<subseteq> set cutset"
    by (induction s) auto
  finally show ?thesis .
qed

lemma number_text_shape:
  assumes "number_text n"
  obtains sign w f x e where "n = sign @ w @ (if f = [] then [] else CHR ''.'' # f) @ x"
    "sign = [] \<or> sign = ''-''" "list_all is_digit (w @ f)" "exponent_text x"
    "unsigned_parts (if hd n = CHR ''-'' then tl n else n) = (w, f, Some e)"
    "number_value n = (if sign = [] then 1 else - 1) * scaled (nat_of_digits (w @ f)) (e - int (length f))"
proof -
  define u where "u = (if hd n = CHR ''-'' then tl n else n)"
  define s where "s = (if hd n = CHR ''-'' then ''-'' else [])"
  have v: "valid_unsigned_number u" "n = s @ u" "s = [] \<or> s = ''-''"
  proof -
    have "n \<noteq> []" using assms by (auto simp: number_text_def)
    then show "valid_unsigned_number u" "n = s @ u"
      using assms unfolding number_text_def u_def s_def by (cases "hd n = CHR ''-''"; cases n; simp)+
    show "s = [] \<or> s = ''-''" unfolding s_def by simp
  qed
  obtain w f x where g: "u = w @ (if f = [] then [] else CHR ''.'' # f) @ x" "list_all is_digit w"
    "w \<noteq> []" "list_all is_digit f" "exponent_text x" using unsigned_grammar [OF v(1)] by metis
  obtain e where e: "unsigned_parts u = (w, f, Some e)" using parts_of_grammar [OF g(2,4,5)] g(1) by metis
  have "number_value n = (if s = [] then 1 else - 1) * scaled (nat_of_digits (w @ f)) (e - int (length f))"
    using e by (simp add: number_value_def unsigned_value_def s_def u_def split: if_splits)
  moreover have "n = s @ w @ (if f = [] then [] else CHR ''.'' # f) @ x" using v(2) g(1) by metis
  moreover have "list_all is_digit (w @ f)" using g(2,4) by simp
  ultimately show thesis using that v(3) g(5) e unfolding u_def by blast
qed

lemma ToLower_ascii:
  "\<forall>c \<in> set s. c < CHR 0x80 \<Longrightarrow> ToLower s = map lower_char s"
proof (induction s)
  case (Cons c s)
  then have "c < CHR 0x80" by simp
  then have "c \<noteq> CHR 0xC4" "c \<noteq> CHR 0xE2" by (auto simp: less_char_def)
  then show ?case using Cons by auto
qed simp

lemma number_char_ascii:
  "is_digit c \<or> c \<in> {CHR ''.'', CHR ''e'', CHR ''E'', CHR ''+'', CHR ''-''} \<Longrightarrow> c < CHR 0x80"
  by (auto simp: is_digit_def)

lemma lower_char_number:
  "is_digit c \<Longrightarrow> lower_char c = c"
  by (auto simp: lower_char_def is_digit_def)

lemma lower_char_marks:
  "lower_char CHR ''.'' = CHR ''.''" "lower_char CHR ''-'' = CHR ''-''"
  "lower_char CHR ''e'' = CHR ''e''" "lower_char CHR ''E'' = CHR ''e''"
  by code_simp+

lemma takeWhile_stop: "\<forall>c \<in> set b. P c \<Longrightarrow> y = [] \<or> \<not> P (hd y) \<Longrightarrow> takeWhile P (b @ y) = b"
  by (cases y) auto

text \<open>The part before the exponent mark: sign, digits and the point.\<close>

lemma mantissa_shape:
  assumes n: "n = sign @ w @ (if f = [] then [] else CHR ''.'' # f) @ x" and s: "sign = [] \<or> sign = ''-''"
    and d: "list_all is_digit (w @ f)" and x: "exponent_text x"
  shows "mantissa_text n = sign @ w @ (if f = [] then [] else CHR ''.'' # f)"
proof -
  let ?b = "sign @ w @ (if f = [] then [] else CHR ''.'' # f)"
  have dw: "list_all is_digit w" "list_all is_digit f" using d by simp_all
  have "\<forall>c \<in> set n. c < CHR 0x80"
  proof
    fix c
    assume "c \<in> set n"
    then have "c \<in> set sign \<or> c \<in> set (w @ (if f = [] then [] else CHR ''.'' # f) @ x)" unfolding n by simp
    then have "is_digit c \<or> c \<in> {CHR ''.'', CHR ''e'', CHR ''E'', CHR ''+'', CHR ''-''}"
      using number_chars [OF dw x] s by auto
    then show "c < CHR 0x80" by (rule number_char_ascii)
  qed
  then have low: "ToLower n = map lower_char n" by (rule ToLower_ascii)
  have b: "map lower_char ?b = ?b" "\<forall>c \<in> set ?b. c \<noteq> CHR ''e''"
  proof -
    have c: "is_digit c \<or> c = CHR ''.'' \<or> c = CHR ''-''" if "c \<in> set ?b" for c
      using that s dw by (auto simp: list_all_iff split: if_splits)
    show "map lower_char ?b = ?b" using c lower_char_number lower_char_marks by (intro map_idI) metis
    show "\<forall>c \<in> set ?b. c \<noteq> CHR ''e''"
    proof
      fix c
      assume "c \<in> set ?b"
      then have "is_digit c \<or> c = CHR ''.'' \<or> c = CHR ''-''" by (rule c)
      then show "c \<noteq> CHR ''e''" by (auto simp: is_digit_def)
    qed
  qed
  have hx: "x = [] \<or> lower_char (hd x) = CHR ''e''"
    using x lower_char_marks by (auto simp: exponent_text_def dest: exponent_mark_cases split: list.splits)
  have "takeWhile (\<lambda>c. c \<noteq> CHR ''e'') (?b @ map lower_char x) = ?b"
  proof (rule takeWhile_stop [OF b(2)])
    show "map lower_char x = [] \<or> \<not> hd (map lower_char x) \<noteq> CHR ''e''" using hx by (cases x) simp_all
  qed
  moreover have "map lower_char n = ?b @ map lower_char x" using b(1) unfolding n map_append by simp
  ultimately show ?thesis unfolding mantissa_text_def low by simp
qed

lemma zero_mantissa:
  assumes "list_all is_digit s"
  shows "nat_of_digits s = 0 \<longleftrightarrow> set s \<subseteq> {CHR ''0''}"
  using assms by (induction s) (auto simp: nat_of_digits_simps digit_val_zero)

lemma mantissa_zero:
  assumes "number_text n"
  shows "TrimCutset ''-0.'' (mantissa_text n) = [] \<longleftrightarrow> number_value n = 0"
proof -
  obtain sign w f x e where n: "n = sign @ w @ (if f = [] then [] else CHR ''.'' # f) @ x"
    "sign = [] \<or> sign = ''-''" "list_all is_digit (w @ f)" "exponent_text x"
    "number_value n = (if sign = [] then 1 else - 1) * scaled (nat_of_digits (w @ f)) (e - int (length f))"
    using number_text_shape [OF assms] by metis
  have "TrimCutset ''-0.'' (mantissa_text n) = [] \<longleftrightarrow> set (w @ f) \<subseteq> set ''-0.''"
    unfolding mantissa_shape [OF n(1-4)] TrimCutset_Nil using n(2) by auto
  also have "\<dots> \<longleftrightarrow> set (w @ f) \<subseteq> {CHR ''0''}"
    using n(3) by (auto simp: list_all_iff is_digit_def)
  also have "\<dots> \<longleftrightarrow> nat_of_digits (w @ f) = 0" using zero_mantissa [OF n(3)] by simp
  also have "\<dots> \<longleftrightarrow> number_value n = 0"
    using scaled_pos [of "nat_of_digits (w @ f)" "e - int (length f)"] unfolding n(5) by (cases "nat_of_digits (w @ f)") auto
  finally show ?thesis .
qed

lemma powi_less: "(10 :: rat) powi a < 10 powi b \<Longrightarrow> a < b"
  using power_int_increasing [of b a "10 :: rat"] by (cases "b \<le> a") auto

lemma float_range: "(2 :: rat) ^ 1024 \<le> 10 powi 309" "10 powi (- 324) \<le> (1 :: rat) / 2 ^ 1075"
  by (simp_all add: power_int_def field_simps)

text \<open>A finite float other than zero needs no power of ten beyond the length of its text.\<close>

lemma finite_exponent:
  assumes "number_text n" "length n \<le> 900000" "\<not> float_overflow (number_value n)" "\<not> float_zero (number_value n)"
  shows "\<bar>rat_exponent n\<bar> \<le> 1000000"
proof -
  obtain sign w f x e where n: "n = sign @ w @ (if f = [] then [] else CHR ''.'' # f) @ x"
    "list_all is_digit (w @ f)" "unsigned_parts (if hd n = CHR ''-'' then tl n else n) = (w, f, Some e)"
    "number_value n = (if sign = [] then 1 else - 1) * scaled (nat_of_digits (w @ f)) (e - int (length f))"
    using number_text_shape [OF assms(1)] by metis
  let ?m = "nat_of_digits (w @ f)" and ?E = "e - int (length f)" and ?L = "length (w @ f)"
  have exp: "rat_exponent n = ?E" unfolding rat_exponent_def n(3) by simp
  have L: "int ?L \<le> 900000" using assms(2) unfolding n(1) by (auto split: if_splits)
  have abs: "\<bar>number_value n\<bar> = of_nat ?m * 10 powi ?E" by (simp add: n(4) scaled_def abs_mult)
  have m: "1 \<le> ?m"
  proof (rule ccontr)
    assume "\<not> 1 \<le> ?m"
    then have "?m = 0" by simp
    then have "number_value n = 0" by (simp only: n(4) scaled_zero mult_zero_right)
    then show False using assms(4) by (simp add: float_zero_def)
  qed
  have "1 * (10 :: rat) powi ?E \<le> of_nat ?m * 10 powi ?E"
  proof (rule mult_right_mono)
    show "(1 :: rat) \<le> of_nat ?m" using m by (metis of_nat_1 of_nat_le_iff)
  qed simp
  then have "(10 :: rat) powi ?E \<le> of_nat ?m * 10 powi ?E" by simp
  also have "\<dots> < 2 ^ 1024 - 2 ^ 970" using assms(3) by (simp add: float_overflow_def abs)
  also have "\<dots> \<le> 2 ^ 1024" by simp
  also have "\<dots> \<le> 10 powi 309" by (rule float_range)
  finally have up: "?E < 309" by (rule powi_less)
  have "(10 :: rat) powi (- 324) \<le> 1 / 2 ^ 1075" by (rule float_range)
  also have "\<dots> < of_nat ?m * 10 powi ?E" using assms(4) by (simp add: float_zero_def abs)
  also have "\<dots> \<le> 10 ^ ?L * 10 powi ?E"
    using nat_of_digits_less [OF n(2)] by (intro mult_right_mono) (simp_all flip: of_nat_power add: less_imp_le)
  also have "\<dots> = 10 powi (int ?L + ?E)"
    using power_int_add [of "10 :: rat" "int ?L" ?E] unfolding power_int_of_nat by simp
  finally have "- 324 < int ?L + ?E" by (rule powi_less)
  then show ?thesis using up L exp by linarith
qed

lemma schema_integer_iff:
  assumes "number_text n" "length n \<le> 900000"
  shows "isSchemaInteger (JNumber n) \<longleftrightarrow>
    \<not> float_overflow (number_value n) \<and> of_int \<lfloor>number_value n\<rfloor> = number_value n"
proof (cases "float_overflow (number_value n)")
  case True
  then show ?thesis by (simp add: isSchemaInteger_def isSchemaNumber_def)
next
  case False
  show ?thesis
  proof (cases "float_zero (number_value n)")
    case True
    have "of_int \<lfloor>number_value n\<rfloor> = number_value n \<longleftrightarrow> number_value n = 0"
    proof
      assume "of_int \<lfloor>number_value n\<rfloor> = number_value n"
      moreover have "\<bar>number_value n\<bar> < 1"
        using True by (simp add: float_zero_def)
      ultimately have "\<bar>\<lfloor>number_value n\<rfloor>\<bar> < 1" by (metis of_int_abs of_int_less_1_iff)
      then show "number_value n = 0" using \<open>of_int \<lfloor>number_value n\<rfloor> = number_value n\<close> by simp
    qed simp
    then show ?thesis
      using True False assms(1) mantissa_zero [OF assms(1)] by (simp add: isSchemaInteger_def isSchemaNumber_def)
  next
    case nonzero: False
    then show ?thesis
      using False assms(1) finite_exponent [OF assms False nonzero]
      by (simp add: isSchemaInteger_def isSchemaNumber_def rat_IsInt_def)
  qed
qed

section \<open>Compatible versions keep instances\<close>

definition wf_schema :: "SchemaDefinition \<Rightarrow> bool" where
  "wf_schema d = distinct (map sfPath (dfFields d))"

lemma update_fresh: "k \<notin> fst ` set m \<Longrightarrow> AList.update k v m = m @ [(k, v)]"
  by (induction m) auto

lemma fields_by_path_from:
  "distinct (map fst m @ map sfPath fs) \<Longrightarrow>
    foldl (\<lambda>m field. AList.update (sfPath field) field m) m fs = m @ map (\<lambda>f. (sfPath f, f)) fs"
proof (induction fs arbitrary: m)
  case (Cons f fs)
  then have "sfPath f \<notin> fst ` set m" by auto
  then have u: "AList.update (sfPath f) f m = m @ [(sfPath f, f)]" by (rule update_fresh)
  have "distinct (map fst (m @ [(sfPath f, f)]) @ map sfPath fs)" using Cons.prems by auto
  then show ?case using Cons.IH [of "m @ [(sfPath f, f)]"] by (simp add: u)
qed simp

lemma fields_by_path_wf:
  "wf_schema d \<Longrightarrow> fields_by_path (dfFields d) = map (\<lambda>f. (sfPath f, f)) (dfFields d)"
  using fields_by_path_from [of "[]" "dfFields d"] by (simp add: fields_by_path_def wf_schema_def)

lemma field_lookup:
  "wf_schema d \<Longrightarrow> map_of (map (\<lambda>f. (sfPath f, f)) (dfFields d)) p = Some f \<longleftrightarrow> f \<in> set (dfFields d) \<and> sfPath f = p"
  "map_of (map (\<lambda>f. (sfPath f, f)) (dfFields d)) p = None \<longleftrightarrow> p \<notin> set (map sfPath (dfFields d))"
  by (auto simp: wf_schema_def map_of_eq_Some_iff comp_def) (simp_all add: map_of_eq_None_iff image_image)

lemma same_path_same_field:
  "wf_schema d \<Longrightarrow> f \<in> set (dfFields d) \<Longrightarrow> g \<in> set (dfFields d) \<Longrightarrow> sfPath f = sfPath g \<Longrightarrow> f = g"
  by (auto simp: wf_schema_def distinct_map dest: inj_onD)

lemma report_Nil [simp]: "report b s = [] \<longleftrightarrow> \<not> b"
  by (simp add: report_def)

text \<open>A field of the next version keeps what the previous one promised.\<close>

definition keeps_field :: "SchemaField \<Rightarrow> SchemaField \<Rightarrow> bool" where
  "keeps_field f g = (sfPath g = sfPath f \<and> sfType f = sfType g \<and> (sfRequired g \<longrightarrow> sfRequired f) \<and>
     set (sfAccess f) \<subseteq> set (sfAccess g) \<and> \<not> refTypesNarrowed (sfRefTypes f) (sfRefTypes g))"

lemma compatible_iff:
  assumes "wf_schema a" "wf_schema b"
  shows "BreakingSchemaChanges a b = [] \<longleftrightarrow>
    dfMetaSchema a = dfMetaSchema b \<and> dfEntity a = dfEntity b \<and> dfAspect a = dfAspect b \<and> dfPattern a = dfPattern b \<and>
    (dfAdditional a \<longrightarrow> dfAdditional b) \<and>
    (\<forall>g \<in> set (dfFields b). sfRequired g \<longrightarrow> sfPath g \<in> set (map sfPath (dfFields a))) \<and>
    (\<forall>f \<in> set (dfFields a). \<exists>g \<in> set (dfFields b). keeps_field f g)"
proof -
  have sort_Nil: "sort xs = [] \<longleftrightarrow> xs = []" for xs :: "string list" by (metis set_empty set_sort)
  let ?N = "map (\<lambda>f. (sfPath f, f)) (dfFields b)" and ?O = "map (\<lambda>f. (sfPath f, f)) (dfFields a)"
  have old: "field_changes ?N (sfPath f, f) = [] \<longleftrightarrow> (\<exists>g \<in> set (dfFields b). keeps_field f g)"
    for f
  proof (cases "map_of ?N (sfPath f)")
    case None
    then have "sfPath g \<noteq> sfPath f" if "g \<in> set (dfFields b)" for g using field_lookup(2) [of b "sfPath f"] that
      by (metis image_eqI list.set_map)
    then have "\<not> (\<exists>g \<in> set (dfFields b). keeps_field f g)" by (auto simp: keeps_field_def)
    then show ?thesis using None by (simp add: field_changes_def)
  next
    case (Some g)
    then have g: "g \<in> set (dfFields b)" "sfPath g = sfPath f" using field_lookup(1) [OF assms(2)] by blast+
    have "(\<exists>g \<in> set (dfFields b). keeps_field f g) \<longleftrightarrow> keeps_field f g"
    proof
      assume "\<exists>g \<in> set (dfFields b). keeps_field f g"
      then obtain h where h: "h \<in> set (dfFields b)" "keeps_field f h" by blast
      then have "map_of ?N (sfPath f) = Some h" using field_lookup(1) [OF assms(2)] by (auto simp: keeps_field_def)
      then show "keeps_field f g" using h(2) Some by simp
    qed (use g in blast)
    moreover have "stringSetContains (sfAccess g) (sfAccess f) \<longleftrightarrow> set (sfAccess f) \<subseteq> set (sfAccess g)"
      by (auto simp: stringSetContains_def list_all_iff)
    then have "field_changes ?N (sfPath f, f) = [] \<longleftrightarrow> keeps_field f g"
      unfolding field_changes_def Let_def fst_conv snd_conv Some option.case append_is_Nil_conv report_Nil keeps_field_def
      using g(2) by blast
    ultimately show ?thesis by blast
  qed
  have "BreakingSchemaChanges a b = [] \<longleftrightarrow>
    dfMetaSchema a = dfMetaSchema b \<and> dfEntity a = dfEntity b \<and> dfAspect a = dfAspect b \<and> dfPattern a = dfPattern b \<and>
    (dfAdditional a \<longrightarrow> dfAdditional b) \<and>
    (\<forall>g \<in> set (dfFields b). \<not> (map_of ?O (sfPath g) = None \<and> sfRequired g)) \<and>
    (\<forall>f \<in> set (dfFields a). field_changes ?N (sfPath f, f) = [])"
    unfolding BreakingSchemaChanges_def Let_def sort_Nil fields_by_path_wf [OF assms(1)] fields_by_path_wf [OF assms(2)]
    by (simp add: comp_def)
  then show ?thesis unfolding old field_lookup(2) by blast
qed

lemma refTypes_trans:
  "\<not> refTypesNarrowed a b \<Longrightarrow> \<not> refTypesNarrowed b c \<Longrightarrow> \<not> refTypesNarrowed a c"
  by (auto simp: refTypesNarrowed_def stringSetContains_def list_all_iff split: if_splits)

lemma keeps_field_trans: "keeps_field f g \<Longrightarrow> keeps_field g h \<Longrightarrow> keeps_field f h"
  using refTypes_trans by (fastforce simp: keeps_field_def)

lemma compatible_refl: "wf_schema a \<Longrightarrow> BreakingSchemaChanges a a = []"
  unfolding compatible_iff
  by (auto simp: keeps_field_def refTypesNarrowed_def stringSetContains_def list_all_iff)

lemma compatible_trans:
  assumes "wf_schema a" "wf_schema b" "wf_schema c" "BreakingSchemaChanges a b = []" "BreakingSchemaChanges b c = []"
  shows "BreakingSchemaChanges a c = []"
proof -
  note ab = assms(4) [unfolded compatible_iff [OF assms(1,2)]] and bc = assms(5) [unfolded compatible_iff [OF assms(2,3)]]
  have "sfPath h \<in> set (map sfPath (dfFields a))" if h: "h \<in> set (dfFields c)" "sfRequired h" for h
  proof -
    obtain g where g: "g \<in> set (dfFields b)" "sfPath g = sfPath h" using bc h by fastforce
    obtain h' where h': "h' \<in> set (dfFields c)" "keeps_field g h'" using bc g(1) by blast
    then have "sfPath h' = sfPath h" using g(2) by (simp add: keeps_field_def)
    then have "h' = h" using same_path_same_field [OF assms(3) h'(1) h(1)] by simp
    then have "sfRequired g" using h' h(2) by (simp add: keeps_field_def)
    then show ?thesis using ab g by fastforce
  qed
  moreover have "\<exists>h \<in> set (dfFields c). keeps_field f h" if "f \<in> set (dfFields a)" for f
    using ab bc that keeps_field_trans by meson
  ultimately show ?thesis unfolding compatible_iff [OF assms(1,3)] using ab bc by auto
qed

lemma compatible_chain:
  assumes "\<forall>d \<in> set (s # ss). wf_schema d" "successively (\<lambda>a b. BreakingSchemaChanges a b = []) (s # ss)"
  shows "BreakingSchemaChanges s (last (s # ss)) = []"
  using assms
proof (induction ss arbitrary: s)
  case Nil
  then show ?case using compatible_refl by simp
next
  case (Cons a ss)
  then have "BreakingSchemaChanges a (last (a # ss)) = []" "BreakingSchemaChanges s a = []" by simp_all
  moreover have "wf_schema (last (a # ss))" using Cons.prems(1) last_in_set [of "a # ss"] by auto
  ultimately show ?case using compatible_trans [of s a "last (a # ss)"] Cons.prems(1) by auto
qed

lemma ValidateSchemaInstance_Inr:
  "ValidateSchemaInstance lib address v schema = Inr () \<longleftrightarrow>
    address_matches address schema \<and> (\<exists>body. v = JObject body \<and>
      (\<forall>field \<in> set (dfFields schema). check_field lib body field = Inr ()) \<and>
      (dfAdditional schema \<or> set (map fst body) \<subseteq> set (map sfPath (dfFields schema))))"
  by (cases v) (auto simp: ValidateSchemaInstance_def rbind_Inr_iff each_ok_iff split: if_splits)

lemma check_field_keeps:
  "check_field lib body f = Inr () \<Longrightarrow> keeps_field f g \<Longrightarrow> check_field lib body g = Inr ()"
  by (auto simp: check_field_def keeps_field_def split: option.splits if_splits)

lemma check_field_absent:
  "sfPath g \<notin> fst ` set body \<Longrightarrow> \<not> sfRequired g \<Longrightarrow> check_field lib body g = Inr ()"
  using map_of_eq_None_iff [of body "sfPath g"] by (simp add: check_field_def)

text \<open>A field of the next version that the previous one lacks is harmless when the instance cannot hold it
  or when it takes any value.\<close>

lemma compatible_keeps_instance:
  assumes wf: "wf_schema a" "wf_schema b" and c: "BreakingSchemaChanges a b = []"
    and v: "ValidateSchemaInstance lib address v a = Inr ()"
    and new: "\<forall>g \<in> set (dfFields b). sfPath g \<notin> set (map sfPath (dfFields a)) \<longrightarrow> \<not> dfAdditional a \<or> sfType g = []"
  shows "ValidateSchemaInstance lib address v b = Inr ()"
proof -
  note ab = c [unfolded compatible_iff [OF wf]]
  obtain body where body: "v = JObject body" "\<forall>f \<in> set (dfFields a). check_field lib body f = Inr ()"
    "dfAdditional a \<or> set (map fst body) \<subseteq> set (map sfPath (dfFields a))" "address_matches address a"
    using v [unfolded ValidateSchemaInstance_Inr] by blast
  have "check_field lib body g = Inr ()" if g: "g \<in> set (dfFields b)" for g
  proof (cases "sfPath g \<in> set (map sfPath (dfFields a))")
    case True
    then obtain f where f: "f \<in> set (dfFields a)" "sfPath f = sfPath g" by auto
    obtain g' where g': "g' \<in> set (dfFields b)" "keeps_field f g'" using ab f(1) by blast
    then have "sfPath g' = sfPath g" using f(2) by (simp add: keeps_field_def)
    then have "g' = g" by (rule same_path_same_field [OF wf(2) g'(1) g])
    then show ?thesis using check_field_keeps g'(2) body(2) f(1) by blast
  next
    case False
    then have opt: "\<not> sfRequired g" "\<not> dfAdditional a \<or> sfType g = []" using ab new g by blast+
    show ?thesis
    proof (cases "dfAdditional a")
      case True
      then show ?thesis using opt by (auto simp: check_field_def schemaTypeMatches_def split: option.splits)
    next
      case closed: False
      then have "sfPath g \<notin> fst ` set body" using body(3) False by auto
      then show ?thesis using check_field_absent opt(1) by blast
    qed
  qed
  moreover have "address_matches address b" using body(4) ab by (simp add: address_matches_def)
  moreover have "dfAdditional b \<or> set (map fst body) \<subseteq> set (map sfPath (dfFields b))"
  proof (cases "dfAdditional a")
    case False
    have "set (map sfPath (dfFields a)) \<subseteq> set (map sfPath (dfFields b))"
    proof
      fix p
      assume "p \<in> set (map sfPath (dfFields a))"
      then obtain f where f: "f \<in> set (dfFields a)" "p = sfPath f" by auto
      then obtain g where "g \<in> set (dfFields b)" "keeps_field f g" using ab by blast
      then have "sfPath g = p" "g \<in> set (dfFields b)" using f(2) by (simp_all add: keeps_field_def)
      then show "p \<in> set (map sfPath (dfFields b))" by auto
    qed
    then show ?thesis using body(3) False by blast
  qed (use ab in simp)
  ultimately show ?thesis unfolding ValidateSchemaInstance_Inr using body(1) by blast
qed

text \<open>An open schema that gains an optional typed field stays compatible and loses instances.\<close>

definition open_schema :: SchemaDefinition where
  "open_schema = \<lparr>dfObjectID = ''schema/p'', dfMetaSchema = MetaSchemaV1, dfEntity = ''p'', dfDescription = [],
     dfAspect = [], dfPattern = ''record'', dfAdditional = True, dfOrigin = [], dfFields = []\<rparr>"

definition typed_field :: SchemaField where
  "typed_field = \<lparr>sfPath = ''age'', sfType = ''integer'', sfRequired = False, sfAccess = [], sfRefTypes = []\<rparr>"

lemma compatible_change_loses_instance:
  "BreakingSchemaChanges open_schema (open_schema\<lparr>dfFields := [typed_field]\<rparr>) = []"
  "ValidateSchemaInstance lib (InferAddress ''x'' [] [] []) (JObject [(''age'', JString ''old'')]) open_schema = Inr ()"
  "ValidateSchemaInstance lib (InferAddress ''x'' [] [] []) (JObject [(''age'', JString ''old'')])
     (open_schema\<lparr>dfFields := [typed_field]\<rparr>) = fails ErrSchemaInstanceInvalid"
proof -
  show "BreakingSchemaChanges open_schema (open_schema\<lparr>dfFields := [typed_field]\<rparr>) = []" by code_simp
  show "ValidateSchemaInstance lib (InferAddress ''x'' [] [] []) (JObject [(''age'', JString ''old'')]) open_schema = Inr ()"
    by (simp add: ValidateSchemaInstance_def open_schema_def address_matches_def InferAddress_def address_kinds)
  show "ValidateSchemaInstance lib (InferAddress ''x'' [] [] []) (JObject [(''age'', JString ''old'')])
     (open_schema\<lparr>dfFields := [typed_field]\<rparr>) = fails ErrSchemaInstanceInvalid"
    by (simp add: ValidateSchemaInstance_def open_schema_def typed_field_def address_matches_def InferAddress_def
        address_kinds check_field_def schemaTypeMatches_def isSchemaInteger_def)
qed

section \<open>Parsed schemas\<close>

lemma unsupported_Inr [simp]: "unsupported r = Inr v \<longleftrightarrow> r = Some v"
  by (simp add: unsupported_def split: option.splits)

lemma compactSorted_sorted: "sorted (compactSorted xs) \<and> distinct (compactSorted xs) \<and> set (compactSorted xs) = set xs"
proof -
  have "distinct (remdups_adj ys)" if "sorted ys" for ys :: "string list"
    using that by (induction ys rule: remdups_adj.induct) (auto simp: order_le_less)
  then show ?thesis by (simp add: compactSorted_def sorted_remdups_adj)
qed

definition field_ok :: "SchemaField \<Rightarrow> bool" where
  "field_ok f = (sfPath f \<noteq> [] \<and> sfType f \<in> set supportedSchemaTypes \<and> set (sfAccess f) \<subseteq> set supportedSchemaAccess \<and>
     (sfAccess f \<noteq> [] \<longrightarrow> sfType f \<notin> set unscalar_types) \<and>
     sorted (sfAccess f) \<and> distinct (sfAccess f) \<and> sorted (sfRefTypes f) \<and> distinct (sfRefTypes f))"

lemma parse_field_ok:
  assumes "parse_field item = Inr f"
  shows "field_ok f \<and> sfPath f = TrimSpace (fst item)"
proof -
  have nil: "compactSorted xs = [] \<longleftrightarrow> xs = []" for xs using compactSorted_sorted [of xs] by (metis set_empty)
  have srt: "sorted (compactSorted xs)" "distinct (compactSorted xs)" "set (compactSorted xs) = set xs" for xs
    using compactSorted_sorted by blast+
  show ?thesis
    using assms
    by (auto simp: parse_field_def Let_def rbind_Inr_iff list_ex_iff field_ok_def nil srt subset_eq
        split: if_splits json.splits prod.splits)
qed

text \<open>The names of the fields, as the parsed schema declares them.\<close>

definition declared_names :: "json option \<Rightarrow> string list" where
  "declared_names raw = (case raw of Some (JObject items) \<Rightarrow> map (\<lambda>item. TrimSpace (fst item)) items | _ \<Rightarrow> [])"

lemma parsed_fields:
  assumes "parseSchemaFields raw = Inr fs"
  shows "list_all field_ok fs" "sorted (map sfPath fs)" "mset (map sfPath fs) = mset (declared_names raw)"
proof -
  have "list_all field_ok fs \<and> sorted (map sfPath fs) \<and> mset (map sfPath fs) = mset (declared_names raw)"
  proof (cases "\<exists>items. raw = Some (JObject items)")
    case True
    then obtain items gs where r: "raw = Some (JObject items)" "collect parse_field items = Inr gs" "fs = sort_key sfPath gs"
      using assms by (auto simp: parseSchemaFields_def rbind_Inr_iff)
    have all2: "list_all2 (\<lambda>item g. parse_field item = Inr g) items gs" using r(2) by (simp add: collect_Inr_iff)
    then have "map sfPath gs = map (\<lambda>item. TrimSpace (fst item)) items"
      by (induction rule: list_all2_induct) (auto dest: parse_field_ok)
    moreover have "list_all field_ok gs" using all2 by (induction rule: list_all2_induct) (auto dest: parse_field_ok)
    moreover have "mset (map sfPath fs) = mset (map sfPath gs)" by (simp add: r(3))
    ultimately show ?thesis by (simp add: r(1,3) declared_names_def list_all_iff)
  qed (use assms in \<open>auto simp: parseSchemaFields_def declared_names_def split: option.splits json.splits\<close>)
  then show "list_all field_ok fs" "sorted (map sfPath fs)" "mset (map sfPath fs) = mset (declared_names raw)" by blast+
qed

lemma parsed_schema_wf:
  assumes "ParseSchemaDefinition lib objectID v = Inr d"
  shows "IsSchemaObject (dfObjectID d) \<and> dfObjectID d = objectID \<and> dfMetaSchema d = MetaSchemaV1 \<and> dfEntity d \<noteq> [] \<and>
      list_all field_ok (dfFields d) \<and> (dfPattern d = ''record'' \<or> dfPattern d = ''keyed_collection'' \<and> dfAspect d \<noteq> [])"
    "\<exists>body. schemaObject v = Some body \<and> (wf_schema d \<longleftrightarrow> distinct (declared_names (map_of body ''fields'')))"
proof -
  have pat: "schema_pattern aspect p = Inr q \<Longrightarrow> q = ''record'' \<or> q = ''keyed_collection'' \<and> aspect \<noteq> []" for aspect p q
    by (auto simp: schema_pattern_def Let_def split: if_splits)
  obtain body where b: "schemaObject v = Some body" "parseSchemaFields (map_of body ''fields'') = Inr (dfFields d)"
    "IsSchemaObject objectID" "dfObjectID d = objectID" "dfMetaSchema d = MetaSchemaV1" "dfEntity d \<noteq> []"
    "dfPattern d = ''record'' \<or> dfPattern d = ''keyed_collection'' \<and> dfAspect d \<noteq> []"
    using assms unfolding ParseSchemaDefinition_def Let_def
    by (auto simp: rbind_Inr_iff dest!: pat split: if_split_asm)
  note f = parsed_fields [OF b(2)]
  show "IsSchemaObject (dfObjectID d) \<and> dfObjectID d = objectID \<and> dfMetaSchema d = MetaSchemaV1 \<and> dfEntity d \<noteq> [] \<and>
      list_all field_ok (dfFields d) \<and> (dfPattern d = ''record'' \<or> dfPattern d = ''keyed_collection'' \<and> dfAspect d \<noteq> [])"
    unfolding b(4,5) using b(3,6,7) f(1) by blast
  have "wf_schema d \<longleftrightarrow> distinct (declared_names (map_of body ''fields''))"
    unfolding wf_schema_def using f(3) mset_eq_imp_distinct_iff by blast
  then show "\<exists>body. schemaObject v = Some body \<and> (wf_schema d \<longleftrightarrow> distinct (declared_names (map_of body ''fields'')))"
    using b(1) by blast
qed

section \<open>Properties\<close>


text \<open>The property for two republications of a closed schema of people.\<close>

definition person_v1 :: SchemaDefinition where
  "person_v1 = open_schema\<lparr>dfAdditional := False, dfFields :=
     [\<lparr>sfPath = ''name'', sfType = ''string'', sfRequired = True, sfAccess = [], sfRefTypes = []\<rparr>]\<rparr>"

definition person_v2 :: SchemaDefinition where
  "person_v2 = person_v1\<lparr>dfFields := dfFields person_v1 @ [typed_field]\<rparr>"

definition person_v3 :: SchemaDefinition where
  "person_v3 = person_v2\<lparr>dfAdditional := True\<rparr>"

definition demo_schema_lib :: schema_lib where
  "demo_schema_lib = \<lparr>scTime = \<lambda>_ _. False, scURL = \<lambda>_. None, scURLString = \<lambda>_. []\<rparr>"


end
