(* ===== verification/UnitCodec.thy ===== *)
theory UnitCodec
  imports DomainSchema
begin

text \<open>
  The provider-neutral units of knowledge, \<open>src/knowledge/internal/unitcodecimpl/unitcodec.go\<close>: assembling the
  units of an object into its value, their declarations, and the effect of the operations of a change
  set on the units of the touched objects, as a native repository applies it.

  The map of units by address key is an association list; its order is the unspecified iteration
  order of the Go map.
\<close>

section \<open>Units and their assembly\<close>

record Unit =
  unObjectID :: string
  unAddress :: Address
  unPathHint :: string
  unSchemaRef :: string
  unValueSource :: "ValueSource option"
  unProvenance :: "ProvenanceEnvelope option"
  unValue :: json
  unDigest :: string

text \<open>The members of an aspect, by name of the aspect.\<close>

fun collect_parts :: "Unit list \<Rightarrow> (string, json) gomap \<Rightarrow> (string, (string, json) gomap) gomap \<Rightarrow>
    (string, json) gomap \<times> (string, (string, json) gomap) gomap" where
  "collect_parts [] records members = (records, members)"
| "collect_parts (u # us) records members =
    (let name = adAspect (unAddress u); key = adMember (unAddress u) in
     if name = [] then collect_parts us records members
     else if key = [] then collect_parts us (AList.update name (unValue u) records) members
     else (let of_name = (case map_of members name of None \<Rightarrow> [] | Some m \<Rightarrow> m) in
       collect_parts us records (AList.update name (AList.update key (unValue u) of_name) members)))"

definition Assemble :: "Unit list \<Rightarrow> json go" where
  "Assemble us =
    (if length us = 0 then Inr JNull
     else (let blobs = filter (\<lambda>u. IsEntityBlob (unAddress u)) us;
               parts = filter (\<lambda>u. \<not> IsEntityBlob (unAddress u)) us in
       if length blobs > 0 \<and> length parts > 0 then fails ErrObjectIDConflict
       else if length blobs > 1 then fails ErrObjectIDConflict
       else if length blobs = 1 then Inr (unValue (hd blobs))
       else (case collect_parts parts [] [] of (records, members) \<Rightarrow>
         if list_ex (\<lambda>name. name \<in> set (map fst records)) (map fst members) then fails ErrObjectIDConflict
         else Inr (JObject (records @ map (\<lambda>(name, m). (name, JObject m)) members)))))"

definition unit_key :: "'a Unit_scheme \<Rightarrow> string" where
  "unit_key u = AddressKey (unAddress u)"

definition declaration_of :: "(string \<Rightarrow> string) \<Rightarrow> Unit \<Rightarrow> UnitDeclaration" where
  "declaration_of sha u = \<lparr>udAddress = unAddress u, udDigest = unDigest u,
     udDeclarationDigest = DeclarationDigest sha (unSchemaRef u) (unValueSource u),
     udSchemaRef = unSchemaRef u, udValueSource = unValueSource u\<rparr>"

definition Declarations :: "(string \<Rightarrow> string) \<Rightarrow> Unit list \<Rightarrow> UnitDeclaration list" where
  "Declarations sha us = map (declaration_of sha) (sort_key unit_key us)"

definition units_DeclarationDigest :: "(string \<Rightarrow> string) \<Rightarrow> Unit list \<Rightarrow> string" where
  "units_DeclarationDigest sha us = CanonicalDigest sha (JArray (map (\<lambda>d.
     JObject [(''address'', JString (AddressKey (udAddress d))), (''digest'', JString (udDeclarationDigest d))])
     (Declarations sha us)))"

section \<open>Applying operations\<close>

definition assertLayout :: "'a Unit_scheme list \<Rightarrow> Address \<Rightarrow> unit go" where
  "assertLayout us incoming =
    (let hasBlob = list_ex (\<lambda>u. IsEntityBlob (unAddress u)) us;
         hasAspect = list_ex (\<lambda>u. \<not> IsEntityBlob (unAddress u)) us in
     if hasBlob \<and> hasAspect then fails ErrObjectIDConflict
     else if IsEntityBlob incoming \<and> hasAspect then fails ErrObjectIDConflict
     else if \<not> IsEntityBlob incoming \<and> hasBlob then fails ErrObjectIDConflict
     else Inr ())"

definition expects_digest :: "Precondition option \<Rightarrow> bool" where
  "expects_digest p = (case p of None \<Rightarrow> False | Some p \<Rightarrow> pcType p = IfObjectEquals \<or> pcType p = IfDigestEquals)"

definition precondition_digest :: "Precondition option \<Rightarrow> string" where
  "precondition_digest p = (case p of None \<Rightarrow> [] | Some p \<Rightarrow> pcDigest p)"

text \<open>The precondition of a PUT, given the unit stored at its address.\<close>

definition put_precondition :: "Precondition option \<Rightarrow> 'a Unit_scheme option \<Rightarrow> unit go" where
  "put_precondition p current =
    (case p of
      None \<Rightarrow> Inr ()
    | Some p \<Rightarrow>
        if pcType p = IfAbsent \<and> current \<noteq> None then fails ErrPreconditionFailed
        else if (pcType p = IfObjectEquals \<or> pcType p = IfDigestEquals) \<and> pcDigest p \<noteq> [] \<and>
          map_option unDigest current \<noteq> Some (pcDigest p) then fails ErrPreconditionFailed
        else Inr ())"

definition put_unit :: "(string \<Rightarrow> string) \<Rightarrow> ProvenanceEnvelope option \<Rightarrow> Operation \<Rightarrow> Unit option \<Rightarrow> Unit" where
  "put_unit sha provenance op current =
    \<lparr>unObjectID = adObject (opAddress op), unAddress = opAddress op,
     unPathHint = (if opPathHint op \<noteq> [] then opPathHint op else (case current of None \<Rightarrow> [] | Some u \<Rightarrow> unPathHint u)),
     unSchemaRef = (if opSchemaRef op \<noteq> [] then opSchemaRef op else (case current of None \<Rightarrow> [] | Some u \<Rightarrow> unSchemaRef u)),
     unValueSource = (case (opValueSource op, current) of
        (None, Some u) \<Rightarrow> unValueSource u
      | (source, _) \<Rightarrow> Source_Normalized source),
     unProvenance = (case (provenance, current) of (None, Some u) \<Rightarrow> unProvenance u | (p, _) \<Rightarrow> p),
     unValue = opValue op, unDigest = CanonicalDigest sha (opValue op)\<rparr>"

type_synonym unit_map = "(string, Unit) gomap"

definition siblings_of :: "unit_map \<Rightarrow> string \<Rightarrow> Unit list" where
  "siblings_of m k = filter (\<lambda>u. unObjectID u = k) (map snd m)"

definition codec_remove :: "(string \<Rightarrow> string) \<Rightarrow> Operation \<Rightarrow> unit_map \<times> Address list \<Rightarrow> (unit_map \<times> Address list) go" where
  "codec_remove sha op s =
    (case s of (m, deleted) \<Rightarrow>
      let siblings = siblings_of m (adObject (opAddress op)); d = precondition_digest (opPrecondition op) in
      if IsEntityBlob (opAddress op) then
        (if length siblings = 0 then fails ErrPreconditionFailed
         else rbind (if d \<noteq> [] then rbind (Assemble siblings) (\<lambda>assembled.
               if CanonicalDigest sha assembled \<noteq> d then fails ErrPreconditionFailed else Inr ()) else Inr ())
           (\<lambda>_. Inr (filter (\<lambda>(key, u). unObjectID u \<noteq> adObject (opAddress op)) m, deleted @ map unAddress siblings)))
      else (case map_of m (AddressKey (opAddress op)) of
        None \<Rightarrow> fails ErrPreconditionFailed
      | Some current \<Rightarrow>
          if d \<noteq> [] \<and> d \<noteq> unDigest current then fails ErrPreconditionFailed
          else Inr (AList.delete (AddressKey (opAddress op)) m, deleted @ [unAddress current])))"

definition codec_put :: "(string \<Rightarrow> string) \<Rightarrow> ProvenanceEnvelope option \<Rightarrow> Operation \<Rightarrow> unit_map \<times> Address list \<Rightarrow>
    (unit_map \<times> Address list) go" where
  "codec_put sha provenance op s =
    (case s of (m, deleted) \<Rightarrow>
      let key = AddressKey (opAddress op); current = map_of m key in
      rbind (assertLayout (siblings_of m (adObject (opAddress op))) (opAddress op)) (\<lambda>_.
      rbind (put_precondition (opPrecondition op) current) (\<lambda>_.
      Inr (AList.update key (put_unit sha provenance op current) m, deleted))))"

definition codec_step :: "(string \<Rightarrow> string) \<Rightarrow> ProvenanceEnvelope option \<Rightarrow> Operation \<Rightarrow> unit_map \<times> Address list \<Rightarrow>
    (unit_map \<times> Address list) go" where
  "codec_step sha provenance op s =
    rbind (AssertWritable (opAddress op)) (\<lambda>_.
      if opOp op = OpRemove then codec_remove sha op s else codec_put sha provenance op s)"

fun codec_loop :: "(string \<Rightarrow> string) \<Rightarrow> ProvenanceEnvelope option \<Rightarrow> Operation list \<Rightarrow> unit_map \<times> Address list \<Rightarrow>
    (unit_map \<times> Address list) go" where
  "codec_loop sha provenance [] s = Inr s"
| "codec_loop sha provenance (op # ops) s =
    rbind (codec_step sha provenance op s) (\<lambda>s'. codec_loop sha provenance ops s')"

definition codec_Apply :: "(string \<Rightarrow> string) \<Rightarrow> Unit list \<Rightarrow> Operation list \<Rightarrow> ProvenanceEnvelope option \<Rightarrow>
    (Unit list \<times> Address list) go" where
  "codec_Apply sha existing operations provenance =
    rbind (codec_loop sha provenance operations (foldl (\<lambda>m u. AList.update (unit_key u) u m) [] existing, []))
      (\<lambda>(m, deleted). Inr (sort_key unit_key (map snd m), sort_key AddressKey deleted))"

definition AssembleKnowledgeValue :: "(string \<Rightarrow> string) \<Rightarrow> string \<Rightarrow> string \<Rightarrow> string \<Rightarrow> Unit list \<Rightarrow> KnowledgeValue go" where
  "AssembleKnowledgeValue sha repository objectID commit us =
    rbind (Assemble us) (\<lambda>assembled.
      Inr \<lparr>kvKnowledgeRef = \<lparr>krRepository = repository, krObject = objectID\<rparr>, kvRepository = repository,
        kvCommit = commit,
        kvAddress = \<lparr>adKind = KindEntity, adObject = objectID, adAspect = [], adMember = []\<rparr>,
        kvValue = assembled,
        kvProvenance = (case us of [u] \<Rightarrow> unProvenance u | _ \<Rightarrow> None),
        kvUnits = (if list_ex (\<lambda>u. adAspect (unAddress u) \<noteq> []) us then map unAddress us else []),
        kvDeclarations = Declarations sha us\<rparr>)"

section \<open>The assembled value\<close>

text \<open>The parts of one object: an aspect and a member name one unit.\<close>

definition part_name :: "Unit \<Rightarrow> string \<times> string" where
  "part_name u = (adAspect (unAddress u), adMember (unAddress u))"

definition member_value :: "(string, (string, json) gomap) gomap \<Rightarrow> string \<Rightarrow> string \<Rightarrow> json option" where
  "member_value members a k = (case map_of members a of None \<Rightarrow> None | Some m \<Rightarrow> map_of m k)"

lemma member_value_update:
  "member_value (AList.update a (AList.update k v (case map_of members a of None \<Rightarrow> [] | Some m \<Rightarrow> m)) members) b l =
    (if b = a \<and> l = k then Some v else member_value members b l)"
  by (auto simp: member_value_def map_simps split: option.splits)

lemma collect_parts_skip:
  "(a, []) \<notin> part_name ` set us \<Longrightarrow> map_of (fst (collect_parts us r m)) a = map_of r a"
  "k \<noteq> [] \<Longrightarrow> (a, k) \<notin> part_name ` set us \<Longrightarrow> member_value (snd (collect_parts us r m)) a k = member_value m a k"
  by (induction us r m rule: collect_parts.induct)
    (auto simp: Let_def part_name_def map_simps member_value_update)

lemma collect_parts_unit:
  assumes "distinct (map part_name us)" "u \<in> set us" "adAspect (unAddress u) \<noteq> []"
  shows "adMember (unAddress u) = [] \<Longrightarrow>
      map_of (fst (collect_parts us r m)) (adAspect (unAddress u)) = Some (unValue u)"
    "adMember (unAddress u) \<noteq> [] \<Longrightarrow>
      member_value (snd (collect_parts us r m)) (adAspect (unAddress u)) (adMember (unAddress u)) = Some (unValue u)"
  using assms
proof (induction us r m rule: collect_parts.induct)
  case (2 x us r m)
  {
    case 1
    then show ?case
      using 2 collect_parts_skip(1) [of "adAspect (unAddress u)" us]
      by (cases "u = x") (auto simp: Let_def part_name_def map_simps)
  next
    case 2
    then show ?case
      using "2.IH" collect_parts_skip(2) [of "adMember (unAddress u)" "adAspect (unAddress u)" us]
      by (cases "u = x") (auto simp: Let_def part_name_def member_value_update)
  }
qed simp_all

lemma collect_parts_distinct:
  "distinct (map fst r) \<Longrightarrow> distinct (map fst (fst (collect_parts us r m)))"
  "distinct (map fst m) \<Longrightarrow> list_all (\<lambda>(a, mm). distinct (map fst mm)) m \<Longrightarrow>
    distinct (map fst (snd (collect_parts us r m))) \<and>
    list_all (\<lambda>(a, mm). distinct (map fst mm)) (snd (collect_parts us r m))"
proof (induction us r m rule: collect_parts.induct)
  case (2 u us r m)
  {
    case 1
    then show ?case using 2 by (simp add: Let_def distinct_update)
  next
    case 2
    let ?a = "adAspect (unAddress u)" and ?k = "adMember (unAddress u)"
    let ?n = "case map_of m ?a of None \<Rightarrow> [] | Some mm \<Rightarrow> mm"
    have "distinct (map fst ?n)"
      using 2(2) by (auto simp: list_all_iff split: option.splits dest: map_of_SomeD)
    then have n: "distinct (map fst (AList.update ?k (unValue u) ?n))" by (rule distinct_update)
    have "list_all (\<lambda>(a, mm). distinct (map fst mm)) (AList.update ?a (AList.update ?k (unValue u) ?n) m)"
      using 2(2) n by (induction m) (auto simp: list_all_iff)
    then show ?case using "2.IH" 2 by (simp add: Let_def distinct_update)
  }
qed simp_all

lemma collect_parts_domain:
  "map_of (fst (collect_parts us r m)) a \<noteq> None \<longleftrightarrow> map_of r a \<noteq> None \<or> (a \<noteq> [] \<and> (a, []) \<in> part_name ` set us)"
  "map_of (snd (collect_parts us r m)) a \<noteq> None \<longleftrightarrow>
    map_of m a \<noteq> None \<or> (a \<noteq> [] \<and> (\<exists>k. k \<noteq> [] \<and> (a, k) \<in> part_name ` set us))"
  by (induction us r m rule: collect_parts.induct) (auto simp: Let_def part_name_def map_simps)

lemma stable_object_cong:
  assumes "distinct (map fst m)" "distinct (map fst m')"
    and "\<And>k. map_option stableStringify (map_of m k) = map_option stableStringify (map_of m' k)"
  shows "stableStringify (JObject m) = stableStringify (JObject m')"
proof -
  have "set (map fst m) = set (map fst m')"
    using assms(3) by (metis map_of_eq_None_iff option.map_disc_iff set_map subsetI subset_antisym)
  then have keys: "sort (map fst m) = sort (map fst m')"
    using assms(1,2) by (intro sorted_distinct_set_unique) simp_all
  show ?thesis
    by (simp add: Let_def keys map_of_mapped assms(3) cong: map_cong)
qed

text \<open>The digest of an assembled value does not depend on the order of the units.\<close>

lemma assembled_parts_value:
  assumes "distinct (map part_name us)" "collect_parts us [] [] = (records, members)"
  shows "map_of records a = Some v \<longleftrightarrow> a \<noteq> [] \<and> (\<exists>u \<in> set us. part_name u = (a, []) \<and> unValue u = v)"
    "k \<noteq> [] \<Longrightarrow> member_value members a k = Some v \<longleftrightarrow> a \<noteq> [] \<and> (\<exists>u \<in> set us. part_name u = (a, k) \<and> unValue u = v)"
proof -
  note cu = collect_parts_unit [OF assms(1), of _ "[]" "[]", unfolded assms(2) fst_conv snd_conv]
  note cd = collect_parts_domain [of us "[]" "[]", unfolded assms(2) fst_conv snd_conv]
  show "map_of records a = Some v \<longleftrightarrow> a \<noteq> [] \<and> (\<exists>u \<in> set us. part_name u = (a, []) \<and> unValue u = v)"
  proof
    assume r: "map_of records a = Some v"
    then have "a \<noteq> []" "(a, []) \<in> part_name ` set us" using cd(1) [of a] by auto
    then show "a \<noteq> [] \<and> (\<exists>u \<in> set us. part_name u = (a, []) \<and> unValue u = v)"
      using cu(1) r by (fastforce simp: part_name_def)
  qed (use cu(1) in \<open>fastforce simp: part_name_def\<close>)
  assume k: "k \<noteq> []"
  have none: "member_value members [] k = None"
    using cd(2) [of "[]"] by (cases "map_of members []") (auto simp: member_value_def)
  show "member_value members a k = Some v \<longleftrightarrow> a \<noteq> [] \<and> (\<exists>u \<in> set us. part_name u = (a, k) \<and> unValue u = v)"
  proof
    assume m: "member_value members a k = Some v"
    then have "a \<noteq> []" using none by auto
    moreover have "(a, k) \<in> part_name ` set us"
      using collect_parts_skip(2) [OF k, of a us "[]" "[]"] m unfolding assms(2) by (auto simp: member_value_def)
    ultimately show "a \<noteq> [] \<and> (\<exists>u \<in> set us. part_name u = (a, k) \<and> unValue u = v)"
      using cu(2) m k by (fastforce simp: part_name_def)
  qed (use cu(2) k in \<open>fastforce simp: part_name_def\<close>)
qed

lemma collect_parts_no_empty_member:
  "member_value (snd (collect_parts us r m)) a [] = member_value m a []"
  by (induction us r m rule: collect_parts.induct) (auto simp: Let_def member_value_update)

definition assembled_object :: "(string, json) gomap \<Rightarrow> (string, (string, json) gomap) gomap \<Rightarrow> (string, json) gomap" where
  "assembled_object records members = records @ map (\<lambda>(name, m). (name, JObject m)) members"

lemma assembled_lookup:
  assumes "set (map fst records) \<inter> set (map fst members) = {}"
  shows "map_of (assembled_object records members) a =
    (case map_of records a of Some v \<Rightarrow> Some v | None \<Rightarrow> map_option JObject (map_of members a))"
  by (simp add: assembled_object_def map_of_append map_add_def map_of_mapped split: option.splits)

lemma parts_text:
  assumes d: "distinct (map part_name us)" "distinct (map part_name us')" and s: "set us = set us'"
    and c: "collect_parts us [] [] = (records, members)" "collect_parts us' [] [] = (records', members')"
  shows "map_of records = map_of records'"
    "map_option (\<lambda>m. stableStringify (JObject m)) (map_of members a) =
      map_option (\<lambda>m. stableStringify (JObject m)) (map_of members' a)"
    "set (map fst records) = set (map fst records')" "set (map fst members) = set (map fst members')"
proof -
  note v = assembled_parts_value [OF d(1) c(1)] and v' = assembled_parts_value [OF d(2) c(2)]
  show r: "map_of records = map_of records'"
  proof
    fix a
    show "map_of records a = map_of records' a"
      using v(1) [of a] v'(1) [of a] s by (metis not_None_eq)
  qed
  have dom: "map_of members a = None \<longleftrightarrow> map_of members' a = None" for a
    using collect_parts_domain(2) [of us "[]" "[]" a] collect_parts_domain(2) [of us' "[]" "[]" a]
    unfolding c s snd_conv by blast
  have mv: "member_value members a k = member_value members' a k" for a k
  proof (cases "k = []")
    case True
    then show ?thesis
      using collect_parts_no_empty_member [of us "[]" "[]" a] collect_parts_no_empty_member [of us' "[]" "[]" a]
      unfolding c by (simp add: member_value_def)
  next
    case False
    then show ?thesis using v(2) [OF False, of a] v'(2) [OF False, of a] s by (metis not_None_eq)
  qed
  have dm: "distinct (map fst m)" if "map_of members a = Some m" for a m
    using collect_parts_distinct(2) [of "[]" us "[]"] that unfolding c
    by (auto simp: list_all_iff dest: map_of_SomeD)
  have dm': "distinct (map fst m)" if "map_of members' a = Some m" for a m
    using collect_parts_distinct(2) [of "[]" us' "[]"] that unfolding c
    by (auto simp: list_all_iff dest: map_of_SomeD)
  show "map_option (\<lambda>m. stableStringify (JObject m)) (map_of members a) =
      map_option (\<lambda>m. stableStringify (JObject m)) (map_of members' a)"
  proof (cases "map_of members a")
    case None
    then show ?thesis using dom [of a] by simp
  next
    case (Some m)
    then obtain m' where m': "map_of members' a = Some m'" using dom [of a] by auto
    have "map_of m k = map_of m' k" for k using mv [of a k] Some m' by (simp add: member_value_def)
    then have "stableStringify (JObject m) = stableStringify (JObject m')"
      by (intro stable_object_cong dm [OF Some] dm' [OF m']) simp
    then show ?thesis by (simp only: Some m' option.map)
  qed
  show "set (map fst records) = set (map fst records')"
    using r by (metis dom_map_of_conv_image_fst set_map)
  show "set (map fst members) = set (map fst members')"
    using dom map_of_eq_None_iff [of members] map_of_eq_None_iff [of members'] by (auto simp: set_eq_iff)
qed

lemma assembled_text:
  assumes d: "distinct (map part_name us)" "distinct (map part_name us')" and s: "set us = set us'"
    and c: "collect_parts us [] [] = (records, members)" "collect_parts us' [] [] = (records', members')"
    and dis: "set (map fst records) \<inter> set (map fst members) = {}"
  shows "stableStringify (JObject (assembled_object records members)) =
    stableStringify (JObject (assembled_object records' members'))"
proof -
  note p = parts_text [OF d s c]
  have dis': "set (map fst records') \<inter> set (map fst members') = {}" using dis p(3,4) by simp
  have dist: "distinct (map fst records)" "distinct (map fst members)" "distinct (map fst records')" "distinct (map fst members')"
    using collect_parts_distinct [of "[]" us "[]"] collect_parts_distinct [of "[]" us' "[]"]
      collect_parts_distinct(2) [of "[]" us "[]"] collect_parts_distinct(2) [of "[]" us' "[]"] unfolding c by auto
  have fst_mapped: "map fst (map (\<lambda>(name, m). (name, JObject m)) xs) = map fst xs" for xs :: "(string \<times> (string, json) gomap) list"
    by (induction xs) auto
  show ?thesis
  proof (rule stable_object_cong)
    show "distinct (map fst (assembled_object records members))"
      using dist(1,2) dis by (simp only: assembled_object_def map_append fst_mapped distinct_append)
    show "distinct (map fst (assembled_object records' members'))"
      using dist(3,4) dis' by (simp only: assembled_object_def map_append fst_mapped distinct_append)
    fix k
    have "map_option stableStringify (map_option JObject (map_of members k)) =
        map_option stableStringify (map_option JObject (map_of members' k))"
      using p(2) [of k] by (simp only: option.map_comp comp_def)
    then show "map_option stableStringify (map_of (assembled_object records members) k) =
        map_option stableStringify (map_of (assembled_object records' members') k)"
      unfolding assembled_lookup [OF dis] assembled_lookup [OF dis'] p(1) by (cases "map_of records' k") simp_all
  qed
qed

lemma mset_single_list: "mset xs = mset [x] \<Longrightarrow> xs = [x]"
  by (cases xs) auto

lemma Assemble_order:
  assumes "mset us = mset us'" "distinct (map part_name us)"
  shows "map_sum id stableStringify (Assemble us) = map_sum id stableStringify (Assemble us')"
proof -
  let ?b = "\<lambda>u. IsEntityBlob (unAddress u)"
  have s: "set us = set us'" "length us = length us'" using assms(1) by (auto dest: mset_eq_setD mset_eq_length)
  have d': "distinct (map part_name us')" using assms by (metis mset_eq_imp_distinct_iff mset_map)
  have blobs: "mset (filter ?b us) = mset (filter ?b us')" and parts: "mset (filter (\<lambda>u. \<not> ?b u) us) = mset (filter (\<lambda>u. \<not> ?b u) us')"
    using assms(1) by (metis mset_filter)+
  note lens = mset_eq_length [OF blobs] mset_eq_length [OF parts]
  have pd: "distinct (map part_name (filter (\<lambda>u. \<not> ?b u) us))" "distinct (map part_name (filter (\<lambda>u. \<not> ?b u) us'))"
    using assms(2) d' by (simp_all add: distinct_map_filter)
  have ps: "set (filter (\<lambda>u. \<not> ?b u) us) = set (filter (\<lambda>u. \<not> ?b u) us')" using s(1) by simp
  obtain records members records' members' where c:
    "collect_parts (filter (\<lambda>u. \<not> ?b u) us) [] [] = (records, members)"
    "collect_parts (filter (\<lambda>u. \<not> ?b u) us') [] [] = (records', members')" by (meson surj_pair)
  note p = parts_text [OF pd ps c]
  have conflict: "list_ex (\<lambda>name. name \<in> set (map fst records)) (map fst members) =
      list_ex (\<lambda>name. name \<in> set (map fst records')) (map fst members')"
    using p(3,4) by (simp only: list_ex_iff)
  have one: "hd (filter ?b us) = hd (filter ?b us')" if l: "length (filter ?b us) = 1"
  proof -
    obtain x where x: "filter ?b us = [x]" using l by (cases "filter ?b us") auto
    then have "mset (filter ?b us') = mset [x]" using blobs by metis
    then have "filter ?b us' = [x]" by (rule mset_single_list)
    then show ?thesis using x by simp
  qed
  have same: "stableStringify (JObject (assembled_object records members)) =
      stableStringify (JObject (assembled_object records' members'))"
    if "\<not> list_ex (\<lambda>name. name \<in> set (map fst records)) (map fst members)"
    by (rule assembled_text [OF pd ps c]) (use that in \<open>unfold list_ex_iff, blast\<close>)
  show ?thesis
    unfolding Assemble_def Let_def lens s(2) c prod.case conflict assembled_object_def [symmetric]
    using one same conflict lens by auto
qed

end
