(* ===== verification/RepoCodec.thy ===== *)
theory RepoCodec
  imports UnitCodec
begin

text \<open>
  The file format of a knowledge unit, \<open>src/internal/repofile/codec.go\<close> and \<open>layout.go\<close>: front matter
  between two \<open>---\<close> lines and a body, the default tree path of a unit and the paths that can hold one.

  The JSON and YAML libraries are parameters (\<open>codec_lib\<close>): the printed and the decoded form of a value,
  of a value source and of a provenance envelope.
\<close>

section \<open>Paths\<close>

text \<open>\<open>(?i)\.(json|md|okf|ya?ml|txt)$\<close>: the fold of Go also takes the long s and the Kelvin sign.\<close>

definition knowledge_suffixes :: "string list" where
  "knowledge_suffixes = [''.json'', ''.j'' @ [CHR 0xC5, CHR 0xBF] @ ''on'', ''.md'', ''.okf'',
     ''.o'' @ [CHR 0xE2, CHR 0x84, CHR 0xAA] @ ''f'', ''.yaml'', ''.yml'', ''.txt'']"

definition KnowledgePath :: "string \<Rightarrow> bool" where
  "KnowledgePath rel = list_ex (\<lambda>s. suffix s (map lower_char rel)) knowledge_suffixes"

definition RepositoryReadmePath :: string where "RepositoryReadmePath = ''README.md''"
definition CanonicalSchemaDir :: string where "CanonicalSchemaDir = ''_schemas''"

definition instanceRelativePath :: "Address \<Rightarrow> string" where
  "instanceRelativePath a =
    (if adMember a \<noteq> [] \<and> adAspect a \<noteq> [] then adObject a @ ''/'' @ adAspect a @ ''/'' @ adMember a @ ''.json''
     else if adAspect a \<noteq> [] then adObject a @ ''/'' @ adAspect a @ ''.json''
     else adObject a @ ''.json'')"

definition pluralizeType :: "string \<Rightarrow> string" where
  "pluralizeType entity =
    (if entity = [] then []
     else if entity = ''relation'' then ''relations''
     else if entity = ''resource-descriptor'' then ''resources''
     else if entity = ''readme'' then ''readmes''
     else if suffix ''s'' entity then entity
     else entity @ ''s'')"

definition schema_type_name :: "string \<Rightarrow> string" where
  "schema_type_name rest =
    (if ContainsChar rest CHR ''.'' \<and> before_byte CHR ''.'' rest \<noteq> [] then before_byte CHR ''.'' rest
     else (case Split CHR ''/'' rest of
       a # b # _ \<Rightarrow> if a = ''core'' \<or> a = ''meta'' then b else a
     | [a] \<Rightarrow> a
     | [] \<Rightarrow> rest))"

definition InstanceTypeDir :: "string \<Rightarrow> string" where
  "InstanceTypeDir schemaRef =
    (case ParseSchemaRef schemaRef of
      None \<Rightarrow> []
    | Some p \<Rightarrow>
        if \<not> IsSchemaObject (psObject p) then []
        else pluralizeType (schema_type_name (TrimPrefix (psObject p) SchemaObjectPrefix)))"

definition isSchemaVersionSegment :: "string \<Rightarrow> bool" where
  "isSchemaVersionSegment s = (length s \<ge> 2 \<and> hd s = CHR ''v'' \<and> list_all is_digit (tl s))"

definition DefaultSchemaPath :: "string \<Rightarrow> string" where
  "DefaultSchemaPath objectID =
    (let rest = TrimPrefix objectID SchemaObjectPrefix in
     if rest = [] \<or> rest = objectID then CanonicalSchemaDir @ ''/'' @ objectID @ ''.aspect.yaml''
     else (let parts = Split CHR ''/'' rest; n = length parts in
       if n \<ge> 2 \<and> isSchemaVersionSegment (parts ! (n - 1))
       then CanonicalSchemaDir @ ''/'' @ parts ! (n - 2) @ ''.'' @ parts ! (n - 1) @ ''.aspect.yaml''
       else CanonicalSchemaDir @ ''/'' @ rest @ ''.aspect.yaml''))"

definition DefaultPath :: "Address \<Rightarrow> string \<Rightarrow> string" where
  "DefaultPath a schemaRef =
    (if IsReadmeAddress a schemaRef then RepositoryReadmePath
     else if IsSchemaObject (adObject a) \<and> adAspect a = [] \<and> adMember a = [] then DefaultSchemaPath (adObject a)
     else (let rel = instanceRelativePath a; dir = InstanceTypeDir schemaRef in
       if dir \<noteq> [] then dir @ ''/'' @ rel else rel))"

definition PathHintForIngest :: "Address \<Rightarrow> string \<Rightarrow> string \<Rightarrow> string" where
  "PathHintForIngest a declared rel =
    (if IsSchemaObject (adObject a) then DefaultSchemaPath (adObject a)
     else if readme_address a then RepositoryReadmePath
     else (let hint = (if TrimSpace declared = [] then rel else TrimSpace declared) in
       if hint = [] then DefaultPath a [] else hint))"

text \<open>Two addresses can have one default path: nothing of the object is in the path of a README, and only
  the last two segments of a versioned schema are.\<close>

lemma default_paths_collide:
  "DefaultPath \<lparr>adKind = KindAspect, adObject = ''a'', adAspect = ReadmeAspect, adMember = []\<rparr> CoreReadmeSchemaV1 =
   DefaultPath \<lparr>adKind = KindAspect, adObject = ''b'', adAspect = ReadmeAspect, adMember = []\<rparr> CoreReadmeSchemaV1"
  "DefaultSchemaPath ''schema/core/relation/v1'' = DefaultSchemaPath ''schema/finance/relation/v1''"
  by code_simp+

section \<open>Units of a file\<close>

record FileUnit = Unit +
  fuPath :: string
  fuDeclarationErr :: "go_error option"

record codec_lib =
  clSchema :: schema_lib
  clIndent :: "json \<Rightarrow> string"
  clJson :: "string \<Rightarrow> json option"
  clYaml :: "string \<Rightarrow> json option"
  clSource :: "ValueSource \<Rightarrow> string"
  clParseSource :: "string \<Rightarrow> ValueSource option"
  clProvenance :: "ProvenanceEnvelope \<Rightarrow> string"
  clParseProvenance :: "string \<Rightarrow> ProvenanceEnvelope option"

definition markdownAspectBody :: "Address \<Rightarrow> string \<Rightarrow> string \<Rightarrow> json \<Rightarrow> string option" where
  "markdownAspectBody a pathHint schemaRef v =
    (if \<not> IsReadmeAddress a schemaRef \<and> \<not> suffix ''.md'' (ToLower pathHint) then None else ReadmeBody v)"

definition header_line :: "string \<Rightarrow> string \<Rightarrow> string list" where
  "header_line name v = (if v = [] then [] else [name @ '': '' @ v])"

definition identity_lines :: "Address \<Rightarrow> bool \<Rightarrow> string list" where
  "identity_lines a markdown =
    (if markdown then [''entity: '' @ adObject a] @ header_line ''aspect'' (adAspect a)
     else [''object_id: '' @ adObject a] @ header_line ''aspect_name'' (adAspect a)) @
    header_line ''member_key'' (adMember a) @
    (if \<not> markdown \<and> adKind a \<noteq> KindEntity then [''kind: '' @ adKind a] else [])"

definition front_matter :: "codec_lib \<Rightarrow> Address \<Rightarrow> bool \<Rightarrow> string \<Rightarrow> string \<Rightarrow> string \<Rightarrow> ValueSource option \<Rightarrow>
    ProvenanceEnvelope option \<Rightarrow> string list" where
  "front_matter lib a markdown pathHint schemaRef origin source provenance =
    identity_lines a markdown @ header_line ''path_hint'' pathHint @ header_line ''schema_ref'' schemaRef @
    header_line ''origin'' origin @
    (case Source_Normalized source of None \<Rightarrow> [] | Some s \<Rightarrow> [''value_source: '' @ clSource lib s]) @
    (case provenance of None \<Rightarrow> [] | Some p \<Rightarrow> [''provenance: '' @ clProvenance lib p])"

definition newline :: string where "newline = [CHR 0x0A]"

definition unit_file :: "string list \<Rightarrow> string \<Rightarrow> string" where
  "unit_file fm body = ''---'' @ newline @ Join newline fm @ newline @ ''---'' @ newline @ body @ newline"

definition SerializeWithSource :: "codec_lib \<Rightarrow> Address \<Rightarrow> string \<Rightarrow> string \<Rightarrow> ValueSource option \<Rightarrow>
    ProvenanceEnvelope option \<Rightarrow> json \<Rightarrow> string go" where
  "SerializeWithSource lib a pathHint schemaRef source provenance v =
    rbind (if IsSchemaObject (adObject a) then
        (case SplitSchemaOrigin (clSchema lib) v of None \<Rightarrow> fails ErrUsageInvalid | Some r \<Rightarrow> Inr r)
      else Inr ([], v)) (\<lambda>(origin, bodyValue).
    Inr (case markdownAspectBody a pathHint schemaRef bodyValue of
      Some body \<Rightarrow> unit_file (front_matter lib a True pathHint schemaRef origin source provenance) body
    | None \<Rightarrow> unit_file (front_matter lib a False pathHint schemaRef origin source provenance) (clIndent lib bodyValue)))"

section \<open>Parsing\<close>

record parse_state =
  psObj :: "(string, string) gomap"
  psProvenance :: "ProvenanceEnvelope option"
  psValueSource :: "ValueSource option"

definition source_line :: "codec_lib \<Rightarrow> string \<Rightarrow> parse_state \<Rightarrow> parse_state" where
  "source_line lib v s =
    (case clParseSource lib v of
      None \<Rightarrow> s\<lparr>psValueSource := None,
        psObj := AList.update ''value_source_error'' ''value_source must be valid JSON'' (psObj s)\<rparr>
    | Some source \<Rightarrow>
        (case ValidateValueSource (Some source) of
          Inl _ \<Rightarrow> s\<lparr>psObj := AList.update ''value_source_error'' ''invalid value_source'' (psObj s)\<rparr>
        | Inr _ \<Rightarrow> s\<lparr>psValueSource := Source_Normalized (Some source)\<rparr>))"

definition parse_line :: "codec_lib \<Rightarrow> string \<Rightarrow> parse_state \<Rightarrow> parse_state" where
  "parse_line lib line s =
    (if \<not> ContainsChar line CHR '':'' then s
     else (let key = TrimSpace (before_byte CHR '':'' line); v = TrimSpace (after_byte CHR '':'' line) in
       if key = ''provenance'' \<and> v \<noteq> [] then
         (case clParseProvenance lib v of None \<Rightarrow> s | Some p \<Rightarrow> s\<lparr>psProvenance := Some p\<rparr>)
       else if key = ''value_source'' \<and> v \<noteq> [] then source_line lib v s
       else s\<lparr>psObj := AList.update key v (psObj s)\<rparr>))"

definition obj_field :: "parse_state \<Rightarrow> string \<Rightarrow> string" where
  "obj_field s name = (case map_of (psObj s) name of None \<Rightarrow> [] | Some v \<Rightarrow> v)"

definition first_field :: "parse_state \<Rightarrow> string \<Rightarrow> string \<Rightarrow> string" where
  "first_field s a b = (if obj_field s a = [] then obj_field s b else obj_field s a)"

fun structured_yaml :: "string list \<Rightarrow> bool" where
  "structured_yaml [] = False"
| "structured_yaml (line # ls) =
    (let trimmed = TrimSpace line in
     if trimmed = [] \<or> HasPrefix trimmed ''#'' then structured_yaml ls
     else HasPrefix trimmed ''- '' \<or> ContainsChar trimmed CHR '':'')"

definition looksLikeStructuredYAML :: "string \<Rightarrow> bool" where
  "looksLikeStructuredYAML body = structured_yaml (Split CHR 0x0A body)"

definition parse_body :: "codec_lib \<Rightarrow> string \<Rightarrow> string \<Rightarrow> json" where
  "parse_body lib schemaRef body =
    (if IsReadmeSchema schemaRef then JObject [(''body'', JString body)]
     else (case clJson lib body of
       None \<Rightarrow>
         if looksLikeStructuredYAML body then (case clYaml lib body of None \<Rightarrow> JString body | Some v \<Rightarrow> v)
         else JString body
     | Some v \<Rightarrow> if v = JNull \<and> body \<noteq> ''null'' then JString body else v))"

definition attach_origin :: "codec_lib \<Rightarrow> string \<Rightarrow> string \<Rightarrow> json \<Rightarrow> json \<times> go_error option" where
  "attach_origin lib objectID origin v =
    (if origin = [] then (v, None)
     else if \<not> IsSchemaObject objectID then (v, Some (Fail ErrUsageInvalid))
     else (case AttachSchemaOrigin (clSchema lib) v origin of
       None \<Rightarrow> (v, Some (Fail ErrUsageInvalid))
     | Some attached \<Rightarrow> (attached, None)))"

definition parsed_unit :: "codec_lib \<Rightarrow> parse_state \<Rightarrow> string list \<Rightarrow> FileUnit option" where
  "parsed_unit lib s rest =
    (let objectID = first_field s ''object_id'' ''entity'' in
     if objectID = [] then None
     else (let aspectName = first_field s ''aspect_name'' ''aspect'';
               body = TrimSpace (Join newline rest);
               schemaRef = obj_field s ''schema_ref'';
               r = attach_origin lib objectID (TrimSpace (obj_field s ''origin'')) (parse_body lib schemaRef body) in
       Some \<lparr>unObjectID = objectID,
         unAddress = InferAddress objectID aspectName (obj_field s ''member_key'') (obj_field s ''kind''),
         unPathHint = obj_field s ''path_hint'', unSchemaRef = schemaRef, unValueSource = psValueSource s,
         unProvenance = psProvenance s, unValue = fst r, unDigest = [], fuPath = [],
         fuDeclarationErr = (if obj_field s ''value_source_error'' \<noteq> [] then Some (Fail ErrUsageInvalid) else snd r)\<rparr>))"

definition Unit_Parse :: "codec_lib \<Rightarrow> string \<Rightarrow> FileUnit option" where
  "Unit_Parse lib content =
    (let ls = Split CHR 0x0A content in
     if hd ls \<noteq> ''---'' then None
     else (let header = takeWhile (\<lambda>l. l \<noteq> ''---'') (tl ls); rest = dropWhile (\<lambda>l. l \<noteq> ''---'') (tl ls) in
       if rest = [] then None
       else parsed_unit lib
         (foldl (\<lambda>s line. parse_line lib line s) \<lparr>psObj = [], psProvenance = None, psValueSource = None\<rparr> header)
         (tl rest)))"

end
