(* ===== verification/RepoTree.thy ===== *)
theory RepoTree
  imports RepoCodec Go_Paths
begin

text \<open>
  The units of a snapshot tree, \<open>src/internal/repofile/tree.go\<close>, \<open>ingest.go\<close>, \<open>apply.go\<close>, \<open>assemble.go\<close>: the index of
  units by address and by object, and the effect of one operation on the index and on the files to
  write and to delete.

  The lists of \<open>ByObject\<close> are slices that the loops filter in place.  The one place where a caller holds
  such a slice while it is filtered, the removal of a whole object, carries the backing array
  explicitly (\<open>remove_loop\<close>).
\<close>

section \<open>The index\<close>

record UnitTree =
  utUnits :: "(string, FileUnit) gomap"
  utByObject :: "(string, FileUnit list) gomap"

definition NewTree :: UnitTree where
  "NewTree = \<lparr>utUnits = [], utByObject = []\<rparr>"

definition ObjectUnits :: "UnitTree \<Rightarrow> string \<Rightarrow> FileUnit list" where
  "ObjectUnits idx objectID = (case map_of (utByObject idx) objectID of None \<Rightarrow> [] | Some us \<Rightarrow> us)"

definition others :: "string \<Rightarrow> FileUnit list \<Rightarrow> FileUnit list" where
  "others key us = filter (\<lambda>u. unit_key u \<noteq> key) us"

definition Upsert :: "FileUnit \<Rightarrow> UnitTree \<Rightarrow> UnitTree" where
  "Upsert u idx =
    (let key = unit_key u; objectID = adObject (unAddress u); us = ObjectUnits idx objectID;
         had = (map_of (utUnits idx) key \<noteq> None) in
     \<lparr>utUnits = AList.update key u (utUnits idx),
      utByObject = AList.update objectID (if had then others key us @ [u] else us @ [u]) (utByObject idx)\<rparr>)"

definition Remove :: "Address \<Rightarrow> UnitTree \<Rightarrow> UnitTree" where
  "Remove address idx =
    (let key = AddressKey address in
     case map_of (utUnits idx) key of
       None \<Rightarrow> idx
     | Some _ \<Rightarrow>
         (let next = others key (ObjectUnits idx (adObject address)) in
          \<lparr>utUnits = AList.delete key (utUnits idx),
           utByObject = (if length next = 0 then AList.delete (adObject address) (utByObject idx)
             else AList.update (adObject address) next (utByObject idx))\<rparr>))"

definition repo_Assemble :: "FileUnit list \<Rightarrow> json go" where
  "repo_Assemble us = Assemble (map Unit.truncate us)"

definition DeclarationOf :: "(string \<Rightarrow> string) \<Rightarrow> FileUnit \<Rightarrow> UnitDeclaration" where
  "DeclarationOf sha u = hd (Declarations sha [Unit.truncate u])"

definition TreeDeclarationDigest :: "(string \<Rightarrow> string) \<Rightarrow> FileUnit list \<Rightarrow> string" where
  "TreeDeclarationDigest sha us = units_DeclarationDigest sha (map Unit.truncate us)"

definition EntityPathHint :: "FileUnit list \<Rightarrow> string \<Rightarrow> string" where
  "EntityPathHint us objectID =
    (case us of
      [] \<Rightarrow> []
    | [u] \<Rightarrow> if unPathHint u \<noteq> [] then unPathHint u else fuPath u
    | _ \<Rightarrow> objectID)"

definition AssertLayout :: "FileUnit list \<Rightarrow> Address \<Rightarrow> unit go" where
  "AssertLayout us incoming = (if length us = 0 then Inr () else assertLayout us incoming)"

definition Ingest :: "(string \<Rightarrow> string) \<Rightarrow> FileUnit option \<Rightarrow> string \<Rightarrow> UnitTree \<Rightarrow> UnitTree go" where
  "Ingest sha parsed_file relPath idx =
    (case parsed_file of
      None \<Rightarrow> Inr idx
    | Some u \<Rightarrow>
        (case fuDeclarationErr u of
          Some e \<Rightarrow> Inl e
        | None \<Rightarrow>
            if map_of (utUnits idx) (unit_key u) \<noteq> None then fails ErrObjectIDConflict
            else (let siblings = ObjectUnits idx (unObjectID u);
                      incomingBlob = IsEntityBlob (unAddress u);
                      siblingBlob = list_ex (\<lambda>s. IsEntityBlob (unAddress s)) siblings;
                      siblingAspect = list_ex (\<lambda>s. \<not> IsEntityBlob (unAddress s)) siblings in
              if (incomingBlob \<and> siblingAspect) \<or> (\<not> incomingBlob \<and> siblingBlob) then fails ErrObjectIDConflict
              else Inr (Upsert (u\<lparr>fuPath := relPath, unDigest := CanonicalDigest sha (unValue u)\<rparr>) idx))))"

section \<open>Operations\<close>

text \<open>The index with the files to write and the paths to delete.\<close>

record apply_state =
  apTree :: UnitTree
  apWrite :: "(string, string) gomap"
  apDelete :: "string list"

definition drop_path :: "string \<Rightarrow> apply_state \<Rightarrow> apply_state" where
  "drop_path path s = s\<lparr>apDelete := path # apDelete s, apWrite := AList.delete path (apWrite s)\<rparr>"

definition SafeRelativePath :: "string \<Rightarrow> string go" where
  "SafeRelativePath v = treepath_Clean v"

definition put_path_hint :: "Operation \<Rightarrow> FileUnit option \<Rightarrow> string \<Rightarrow> string" where
  "put_path_hint op existing schema =
    (let hint = (if opPathHint op = [] then (case existing of None \<Rightarrow> [] | Some u \<Rightarrow> fuPath u) else opPathHint op) in
     if hint = [] then DefaultPath (opAddress op) schema else hint)"

definition put_schema :: "Operation \<Rightarrow> FileUnit option \<Rightarrow> string" where
  "put_schema op existing =
    (if opSchemaRef op = [] then (case existing of None \<Rightarrow> [] | Some u \<Rightarrow> unSchemaRef u) else opSchemaRef op)"

definition put_source :: "Operation \<Rightarrow> FileUnit option \<Rightarrow> ValueSource option" where
  "put_source op existing =
    (case (opValueSource op, existing) of
      (None, Some u) \<Rightarrow> unValueSource u
    | (source, _) \<Rightarrow> Source_Normalized source)"

definition put_file_unit :: "(string \<Rightarrow> string) \<Rightarrow> ProvenanceEnvelope option \<Rightarrow> Operation \<Rightarrow> FileUnit option \<Rightarrow> string \<Rightarrow> FileUnit" where
  "put_file_unit sha prov op existing newPath =
    \<lparr>unObjectID = adObject (opAddress op), unAddress = opAddress op,
     unPathHint = (if opPathHint op \<noteq> [] then newPath else (case existing of None \<Rightarrow> [] | Some u \<Rightarrow> unPathHint u)),
     unSchemaRef = put_schema op existing, unValueSource = put_source op existing,
     unProvenance = (case (prov, existing) of (None, Some u) \<Rightarrow> unProvenance u | (p, _) \<Rightarrow> p),
     unValue = opValue op, unDigest = CanonicalDigest sha (opValue op), fuPath = newPath, fuDeclarationErr = None\<rparr>"

definition applyPut :: "(string \<Rightarrow> string) \<Rightarrow> codec_lib \<Rightarrow> Operation \<Rightarrow> ProvenanceEnvelope option \<Rightarrow> apply_state \<Rightarrow>
    apply_state go" where
  "applyPut sha lib op prov s =
    (let idx = apTree s; existing = map_of (utUnits idx) (AddressKey (opAddress op)) in
     rbind (AssertLayout (ObjectUnits idx (adObject (opAddress op))) (opAddress op)) (\<lambda>_.
     rbind (put_precondition (opPrecondition op) existing) (\<lambda>_.
     rbind (SafeRelativePath (put_path_hint op existing (put_schema op existing))) (\<lambda>newPath.
     if \<not> KnowledgePath newPath then fails ErrUsageInvalid
     else (let s' = (case existing of
                 Some u \<Rightarrow> if fuPath u \<noteq> newPath then drop_path (fuPath u) s else s
               | None \<Rightarrow> s);
               u = put_file_unit sha prov op existing newPath in
       rbind (SerializeWithSource lib (opAddress op) (unPathHint u) (unSchemaRef u) (unValueSource u) (unProvenance u)
           (opValue op)) (\<lambda>content.
       Inr \<lparr>apTree = Upsert u idx, apWrite = AList.update newPath content (apWrite s'), apDelete = apDelete s'\<rparr>))))))"

text \<open>\<open>for _, unit := range units\<close> over the slice that \<open>Remove\<close> filters in place: \<open>arr\<close> is the backing array, and
  after the removal of a present unit its prefix is the filtered list.\<close>

fun remove_loop :: "nat \<Rightarrow> nat \<Rightarrow> FileUnit list \<Rightarrow> apply_state \<Rightarrow> apply_state" where
  "remove_loop 0 i arr s = s"
| "remove_loop (Suc n) i arr s =
    (let u = arr ! i; s1 = drop_path (fuPath u) s; idx = Remove (unAddress u) (apTree s1);
         present = (map_of (utUnits (apTree s1)) (unit_key u) \<noteq> None);
         next = others (unit_key u) (ObjectUnits (apTree s1) (adObject (unAddress u)));
         arr' = (if present then next @ drop (length next) arr else arr) in
     remove_loop n (Suc i) arr' (s1\<lparr>apTree := idx\<rparr>))"

definition remove_object :: "(string \<Rightarrow> string) \<Rightarrow> Operation \<Rightarrow> apply_state \<Rightarrow> apply_state go" where
  "remove_object sha op s =
    (let us = ObjectUnits (apTree s) (adObject (opAddress op)) in
     if length us = 0 then fails ErrPreconditionFailed
     else rbind (if expects_digest (opPrecondition op) \<and> precondition_digest (opPrecondition op) \<noteq> [] then
         rbind (repo_Assemble us) (\<lambda>assembled.
           if CanonicalDigest sha assembled \<noteq> precondition_digest (opPrecondition op) then fails ErrPreconditionFailed
           else Inr ())
       else Inr ()) (\<lambda>_. Inr (remove_loop (length us) 0 us s)))"

definition applyRemove :: "(string \<Rightarrow> string) \<Rightarrow> Operation \<Rightarrow> apply_state \<Rightarrow> apply_state go" where
  "applyRemove sha op s =
    (if IsEntityBlob (opAddress op) then remove_object sha op s
     else (case map_of (utUnits (apTree s)) (AddressKey (opAddress op)) of
       None \<Rightarrow> fails ErrPreconditionFailed
     | Some existing \<Rightarrow>
         if expects_digest (opPrecondition op) \<and> precondition_digest (opPrecondition op) \<noteq> unDigest existing
         then fails ErrPreconditionFailed
         else (let s1 = drop_path (fuPath existing) s in
           Inr (s1\<lparr>apTree := Remove (opAddress op) (apTree s1)\<rparr>))))"

definition repo_Apply :: "(string \<Rightarrow> string) \<Rightarrow> codec_lib \<Rightarrow> Operation \<Rightarrow> ProvenanceEnvelope option \<Rightarrow> apply_state \<Rightarrow>
    apply_state go" where
  "repo_Apply sha lib op prov s =
    rbind (AssertWritable (opAddress op)) (\<lambda>_.
      if opOp op = OpPut then applyPut sha lib op prov s else applyRemove sha op s)"

fun repo_apply_all :: "(string \<Rightarrow> string) \<Rightarrow> codec_lib \<Rightarrow> Operation list \<Rightarrow> ProvenanceEnvelope option \<Rightarrow> apply_state \<Rightarrow>
    apply_state go" where
  "repo_apply_all sha lib [] prov s = Inr s"
| "repo_apply_all sha lib (op # ops) prov s =
    rbind (repo_Apply sha lib op prov s) (\<lambda>s'. repo_apply_all sha lib ops prov s')"

section \<open>The index invariant\<close>

text \<open>Every unit is stored under the key of its address and in the list of its object, once.\<close>

definition unit_ok :: "'a Unit_scheme \<Rightarrow> bool" where
  "unit_ok u = (unObjectID u = adObject (unAddress u) \<and> key_safe (unAddress u))"

definition tree_ok :: "UnitTree \<Rightarrow> bool" where
  "tree_ok idx =
    ((\<forall>k u. map_of (utUnits idx) k = Some u \<longrightarrow> k = unit_key u \<and> unit_ok u) \<and>
     (\<forall>objectID. distinct (map unit_key (ObjectUnits idx objectID)) \<and>
        set (ObjectUnits idx objectID) = {u. map_of (utUnits idx) (unit_key u) = Some u \<and> unObjectID u = objectID}))"

lemma tree_okD:
  assumes "tree_ok idx"
  shows "map_of (utUnits idx) k = Some u \<Longrightarrow> k = unit_key u \<and> unit_ok u"
    "distinct (map unit_key (ObjectUnits idx objectID))"
    "set (ObjectUnits idx objectID) = {u. map_of (utUnits idx) (unit_key u) = Some u \<and> unObjectID u = objectID}"
  using assms unfolding tree_ok_def by blast+

lemma tree_ok_New: "tree_ok NewTree"
  by (simp add: tree_ok_def NewTree_def ObjectUnits_def)

lemma same_key_same_object:
  "unit_ok u \<Longrightarrow> unit_ok v \<Longrightarrow> unit_key u = unit_key v \<Longrightarrow> unObjectID u = unObjectID v"
  using AddressKey_eq [of "unAddress u" "unAddress v"] by (simp add: unit_ok_def unit_key_def)

lemma Upsert_units: "map_of (utUnits (Upsert u idx)) = (map_of (utUnits idx))(unit_key u \<mapsto> u)"
  by (simp add: Upsert_def Let_def map_simps)

lemma Upsert_object:
  "ObjectUnits (Upsert u idx) k =
    (if k = adObject (unAddress u) then others (unit_key u) (ObjectUnits idx k) @ [u] else ObjectUnits idx k)"
  if "tree_ok idx"
proof -
  have "others (unit_key u) (ObjectUnits idx k) = ObjectUnits idx k" if "map_of (utUnits idx) (unit_key u) = None" for k
  proof -
    have "unit_key v \<noteq> unit_key u" if "v \<in> set (ObjectUnits idx k)" for v
      using tree_okD(3) [OF \<open>tree_ok idx\<close>, of k] that \<open>map_of (utUnits idx) (unit_key u) = None\<close> by force
    then show ?thesis by (simp add: others_def filter_id_conv)
  qed
  then show ?thesis by (simp add: Upsert_def Let_def ObjectUnits_def map_simps)
qed

lemma set_others: "set (others key us) = {u \<in> set us. unit_key u \<noteq> key}"
  by (auto simp: others_def)

lemma distinct_others: "distinct (map unit_key us) \<Longrightarrow> distinct (map unit_key (others key us)) \<and> key \<notin> unit_key ` set (others key us)"
  by (auto simp: others_def distinct_map_filter)

lemma tree_ok_Upsert:
  assumes idx: "tree_ok idx" and u: "unit_ok u"
  shows "tree_ok (Upsert u idx)"
  unfolding tree_ok_def Upsert_units Upsert_object [OF idx]
proof (intro conjI allI impI)
  fix k v
  assume v: "((map_of (utUnits idx))(unit_key u \<mapsto> u)) k = Some v"
  show "k = unit_key v" "unit_ok v"
    using v u tree_okD(1) [OF idx, of k v] by (auto split: if_splits)
next
  fix o'
  have o: "unObjectID u = adObject (unAddress u)" using u by (simp add: unit_ok_def)
  show "distinct (map unit_key (if o' = adObject (unAddress u) then others (unit_key u) (ObjectUnits idx o') @ [u]
      else ObjectUnits idx o'))"
    using tree_okD(2) [OF idx, of o'] distinct_others by auto
  have other: "unit_key v = unit_key u \<Longrightarrow> map_of (utUnits idx) (unit_key v) = Some v \<Longrightarrow> unObjectID v = unObjectID u" for v
    using tree_okD(1) [OF idx] same_key_same_object u by metis
  show "set (if o' = adObject (unAddress u) then others (unit_key u) (ObjectUnits idx o') @ [u] else ObjectUnits idx o') =
      {v. ((map_of (utUnits idx))(unit_key u \<mapsto> u)) (unit_key v) = Some v \<and> unObjectID v = o'}"
    using tree_okD(3) [OF idx, of o'] o other by (auto simp: set_others)
qed

lemma Remove_units: "map_of (utUnits (Remove a idx)) = (map_of (utUnits idx))(AddressKey a := None)"
  by (auto simp: Remove_def Let_def map_simps fun_eq_iff split: option.splits)

lemma Remove_object:
  assumes "tree_ok idx"
  shows "ObjectUnits (Remove a idx) k =
    (if k = adObject a then others (AddressKey a) (ObjectUnits idx k) else ObjectUnits idx k)"
proof (cases "map_of (utUnits idx) (AddressKey a)")
  case None
  have "unit_key v \<noteq> AddressKey a" if "v \<in> set (ObjectUnits idx k)" for v
    using tree_okD(3) [OF assms, of k] that None by force
  then have o: "others (AddressKey a) (ObjectUnits idx k) = ObjectUnits idx k" by (simp add: others_def filter_id_conv)
  show ?thesis unfolding o using None by (simp add: Remove_def)
next
  case (Some u)
  then show ?thesis by (simp add: Remove_def Let_def ObjectUnits_def map_simps)
qed

lemma tree_ok_Remove:
  assumes idx: "tree_ok idx" and a: "key_safe a"
  shows "tree_ok (Remove a idx)"
  unfolding tree_ok_def Remove_units Remove_object [OF idx]
proof (intro conjI allI impI)
  fix k v
  assume v: "((map_of (utUnits idx))(AddressKey a := None)) k = Some v"
  show "k = unit_key v" "unit_ok v" using v tree_okD(1) [OF idx, of k v] by (auto split: if_splits)
next
  fix o'
  show "distinct (map unit_key (if o' = adObject a then others (AddressKey a) (ObjectUnits idx o') else ObjectUnits idx o'))"
    using tree_okD(2) [OF idx, of o'] distinct_others by auto
  have other: "unit_key v = AddressKey a \<Longrightarrow> map_of (utUnits idx) (unit_key v) = Some v \<Longrightarrow> unObjectID v = adObject a" for v
    using tree_okD(1) [OF idx, of "unit_key v" v] AddressKey_eq [of "unAddress v" a] a by (simp add: unit_ok_def unit_key_def)
  show "set (if o' = adObject a then others (AddressKey a) (ObjectUnits idx o') else ObjectUnits idx o') =
      {v. ((map_of (utUnits idx))(AddressKey a := None)) (unit_key v) = Some v \<and> unObjectID v = o'}"
    using tree_okD(3) [OF idx, of o'] other by (auto simp: set_others)
qed

end
