(* ===== verification/Locators.thy ===== *)
theory Locators
  imports RepoTree
begin

text \<open>
  The locator of the units of an object in a tree of files, \<open>src/internal/repofile/locator.go\<close>: one small
  entry per object under the digest of its identity, a list of the schema objects, a marker that the
  entries are complete, and the manifest of older repositories.

  JSON is a parameter (\<open>locator_lib\<close>); marshalling strings and lists of strings cannot fail.  A tree is read
  through a function from path and commit.
\<close>

section \<open>Paths and entries\<close>

definition LocatorManifestPath :: string where "LocatorManifestPath = ''.kc/knowledge-units.index''"
definition LocatorObjectDirectory :: string where "LocatorObjectDirectory = ''.kc/knowledge-locators/objects''"
definition LocatorCompletePath :: string where "LocatorCompletePath = ''.kc/knowledge-locators/complete''"
definition LocatorSchemaIndexPath :: string where "LocatorSchemaIndexPath = ''.kc/knowledge-locators/schemas.index''"
definition LocatorCompleteBody :: string where "LocatorCompleteBody = ''v2'' @ newline"

lemmas locator_paths = LocatorManifestPath_def LocatorObjectDirectory_def LocatorCompletePath_def LocatorSchemaIndexPath_def

record ObjectLocatorEntry =
  oeObjectID :: string
  oePaths :: "string list"

record LocatorManifest =
  lmObjects :: "(string, string list) gomap"
  lmSchemas :: "string list"
  lmBindingSchemas :: "string list"
  lmReferrers :: "(string, Address list) gomap"

record locator_lib =
  llSha :: "string \<Rightarrow> string"
  llSchema :: schema_lib
  llEntry :: "ObjectLocatorEntry \<Rightarrow> string"
  llParseEntry :: "string \<Rightarrow> ObjectLocatorEntry option"
  llIDs :: "string list \<Rightarrow> string"
  llParseIDs :: "string \<Rightarrow> string list option"
  llManifest :: "LocatorManifest \<Rightarrow> string"
  llParseManifest :: "string \<Rightarrow> LocatorManifest option"

type_synonym tree_reader = "string \<Rightarrow> string \<Rightarrow> string go"

definition EncodeSchemaIndex :: "locator_lib \<Rightarrow> string list \<Rightarrow> string" where
  "EncodeSchemaIndex lib ids = llIDs lib (sort ids)"

definition DecodeSchemaIndex :: "locator_lib \<Rightarrow> string \<Rightarrow> string list go" where
  "DecodeSchemaIndex lib raw =
    (case llParseIDs lib raw of
      None \<Rightarrow> Inl Bare
    | Some ids \<Rightarrow> if list_ex (\<lambda>k. \<not> IsSchemaObject k) ids then fails ErrPreconditionFailed else Inr (sort ids))"

definition ObjectLocatorPath :: "locator_lib \<Rightarrow> string \<Rightarrow> string" where
  "ObjectLocatorPath lib objectID =
    Clean (LocatorObjectDirectory @ ''/'' @ CanonicalDigest (llSha lib) (JObject [(''objectId'', JString objectID)]) @ ''.entry'')"

definition EncodeObjectLocator :: "locator_lib \<Rightarrow> string \<Rightarrow> string list \<Rightarrow> string" where
  "EncodeObjectLocator lib objectID paths = llEntry lib \<lparr>oeObjectID = objectID, oePaths = sort paths\<rparr>"

definition DecodeObjectLocatorEntry :: "locator_lib \<Rightarrow> string \<Rightarrow> ObjectLocatorEntry go" where
  "DecodeObjectLocatorEntry lib raw =
    (case llParseEntry lib raw of
      None \<Rightarrow> Inl Bare
    | Some entry \<Rightarrow> if oeObjectID entry = [] then fails ErrPreconditionFailed else Inr entry)"

definition DecodeObjectLocator :: "locator_lib \<Rightarrow> string \<Rightarrow> string \<Rightarrow> string list go" where
  "DecodeObjectLocator lib raw expected =
    rbind (DecodeObjectLocatorEntry lib raw) (\<lambda>entry.
      if oeObjectID entry \<noteq> expected then fails ErrPreconditionFailed else Inr (oePaths entry))"

definition DecodeLocatorManifest :: "locator_lib \<Rightarrow> string \<Rightarrow> LocatorManifest go" where
  "DecodeLocatorManifest lib raw = (case llParseManifest lib raw of None \<Rightarrow> Inl Bare | Some m \<Rightarrow> Inr m)"

definition EncodeLocatorManifest :: "locator_lib \<Rightarrow> LocatorManifest \<Rightarrow> string" where
  "EncodeLocatorManifest lib m = llManifest lib m"

text \<open>\<open>kernel.CodeOf(err) == kernel.ErrKnowledgeRefUnresolved\<close>: the file does not exist at this commit.\<close>

definition missing_file :: "'a go \<Rightarrow> bool" where
  "missing_file r = (code_of r = Some ErrKnowledgeRefUnresolved)"

definition ReadObjectLocator :: "locator_lib \<Rightarrow> tree_reader \<Rightarrow> string \<Rightarrow> string \<Rightarrow> string list go" where
  "ReadObjectLocator lib read objectID commit =
    (case read (ObjectLocatorPath lib objectID) commit of
      Inr raw \<Rightarrow> (case DecodeObjectLocator lib raw objectID of Inl _ \<Rightarrow> fails ErrPreconditionFailed | Inr paths \<Rightarrow> Inr paths)
    | Inl e \<Rightarrow>
        if CodeOf (Some e) \<noteq> Some ErrKnowledgeRefUnresolved then Inl e
        else (case read LocatorCompletePath commit of
          Inr _ \<Rightarrow> Inr []
        | Inl e2 \<Rightarrow>
            if CodeOf (Some e2) \<noteq> Some ErrKnowledgeRefUnresolved then Inl e2
            else (case read LocatorManifestPath commit of
              Inl e3 \<Rightarrow> if CodeOf (Some e3) = Some ErrKnowledgeRefUnresolved then Inr [] else Inl e3
            | Inr raw \<Rightarrow>
                (case DecodeLocatorManifest lib raw of
                  Inl _ \<Rightarrow> fails ErrPreconditionFailed
                | Inr m \<Rightarrow> Inr (case map_of (lmObjects m) objectID of None \<Rightarrow> [] | Some paths \<Rightarrow> paths)))))"

section \<open>The manifest of a tree\<close>

text \<open>The binding schemas and the referrers that one unit adds.\<close>

definition manifest_unit :: "locator_lib \<Rightarrow> string \<Rightarrow> FileUnit \<Rightarrow> string list \<times> (string, Address list) gomap \<Rightarrow>
    string list \<times> (string, Address list) gomap" where
  "manifest_unit lib objectID u acc =
    (case acc of (bindings, referrers) \<Rightarrow>
      let b1 = (if IsSchemaObject objectID \<and>
             (case ParseSchemaDefinition (llSchema lib) objectID (unValue u) of Inl _ \<Rightarrow> False | Inr d \<Rightarrow> Schema_Bound d)
           then objectID # bindings else bindings) in
      (case ParseSchemaRef (unSchemaRef u) of
        None \<Rightarrow> (b1, referrers)
      | Some p \<Rightarrow>
          (if (case unValueSource u of None \<Rightarrow> False | Some s \<Rightarrow> vsKind s = ValueSourceBinding) then psObject p # b1 else b1,
           if \<not> IsSchemaObject objectID
           then AList.update (psObject p)
             ((case map_of referrers (psObject p) of None \<Rightarrow> [] | Some l \<Rightarrow> l) @ [unAddress u]) referrers
           else referrers)))"

definition BuildLocatorManifest :: "locator_lib \<Rightarrow> UnitTree \<Rightarrow> LocatorManifest" where
  "BuildLocatorManifest lib tree =
    (case foldl (\<lambda>acc (objectID, us). foldl (\<lambda>acc u. manifest_unit lib objectID u acc) acc us) ([], []) (utByObject tree) of
      (bindings, referrers) \<Rightarrow>
        \<lparr>lmObjects = map (\<lambda>(objectID, us). (objectID, sort (map fuPath us))) (utByObject tree),
         lmSchemas = sort (filter IsSchemaObject (map fst (utByObject tree))),
         lmBindingSchemas = sort (dedup bindings),
         lmReferrers = map (\<lambda>(k, addresses). (k, sort_key AddressKey addresses)) referrers\<rparr>)"

section \<open>Facts\<close>

text \<open>What the JSON of entries and lists promises.\<close>

definition locator_lib_ok :: "locator_lib \<Rightarrow> bool" where
  "locator_lib_ok lib =
    ((\<forall>e. llParseEntry lib (llEntry lib e) = Some e) \<and> (\<forall>ids. llParseIDs lib (llIDs lib ids) = Some ids))"

lemma locator_entry_round_trip:
  assumes "locator_lib_ok lib" "objectID \<noteq> []"
  shows "DecodeObjectLocator lib (EncodeObjectLocator lib objectID paths) objectID = Inr (sort paths)"
proof -
  have "llParseEntry lib (llEntry lib e) = Some e" for e using assms(1) unfolding locator_lib_ok_def by blast
  then show ?thesis
    using assms(2) by (simp add: DecodeObjectLocator_def DecodeObjectLocatorEntry_def EncodeObjectLocator_def)
qed

lemma schema_index_round_trip:
  assumes "locator_lib_ok lib" "list_all IsSchemaObject ids"
  shows "DecodeSchemaIndex lib (EncodeSchemaIndex lib ids) = Inr (sort ids)"
proof -
  have "llParseIDs lib (llIDs lib l) = Some l" for l using assms(1) unfolding locator_lib_ok_def by blast
  moreover have "\<not> list_ex (\<lambda>k. \<not> IsSchemaObject k) (sort ids)" using assms(2) by (auto simp: list_ex_iff list_all_iff)
  ultimately show ?thesis by (simp add: DecodeSchemaIndex_def EncodeSchemaIndex_def sorted_sort_id)
qed

text \<open>A present entry decides the lookup.\<close>

lemma ReadObjectLocator_entry:
  assumes "locator_lib_ok lib" "objectID \<noteq> []"
    and "read (ObjectLocatorPath lib objectID) commit = Inr (EncodeObjectLocator lib objectID paths)"
  shows "ReadObjectLocator lib read objectID commit = Inr (sort paths)"
  using locator_entry_round_trip [OF assms(1,2)] assms(3) by (simp add: ReadObjectLocator_def)

lemma ReadObjectLocator_complete:
  assumes "missing_file (read (ObjectLocatorPath lib objectID) commit)" "ok (read LocatorCompletePath commit)"
  shows "ReadObjectLocator lib read objectID commit = Inr []"
  using assms by (auto simp: ReadObjectLocator_def missing_file_def code_of_def ok_iff split: sum.splits)

end
