(* ===== verification/TreeWriter.thy ===== *)
theory TreeWriter
  imports Locators RawWriter
begin

text \<open>
  A knowledge change set as a tree commit, \<open>src/knowledge/writer/treecodec.go\<close>: the units of the touched
  objects are read at the base commit, the operations are applied to them, and the files, the locators of
  the objects and the list of schemas are written in one commit.

  The capabilities of a target store (\<open>snapshot.TreeStoreOf\<close>, \<open>knowledge.ChangeStore\<close> and the others) are
  the record \<open>store_caps\<close>: each is present or not for a store.
\<close>

section \<open>Capabilities of a store\<close>

record 's tree_ops =
  tsRead :: "string \<Rightarrow> string \<Rightarrow> 's \<Rightarrow> string go"
  tsList :: "string \<Rightarrow> 's \<Rightarrow> string list go"
  tsApply :: "TreeChangeSet \<Rightarrow> 's \<Rightarrow> string go \<times> 's"

record 's native_ops =
  nvRead :: "string \<Rightarrow> string \<Rightarrow> 's \<Rightarrow> KnowledgeValue go"
  nvResolveAddress :: "Address \<Rightarrow> string \<Rightarrow> 's \<Rightarrow> Resolution go"
  nvReadAddress :: "Address \<Rightarrow> string \<Rightarrow> 's \<Rightarrow> KnowledgeValue go"
  nvReferrers :: "(string \<Rightarrow> string \<Rightarrow> 's \<Rightarrow> Address list go) option"

record 's store_caps =
  cpChange :: "'s \<Rightarrow> (string \<Rightarrow> ChangeSet \<Rightarrow> 's \<Rightarrow> string go \<times> 's) option"
  cpNative :: "'s \<Rightarrow> 's native_ops option"
  cpTree :: "'s \<Rightarrow> 's tree_ops option"
  cpBulk :: "'s \<Rightarrow> (TreeChangeSet \<Rightarrow> 's \<Rightarrow> string go \<times> 's) option"

definition reader_of :: "'s tree_ops \<Rightarrow> 's \<Rightarrow> tree_reader" where
  "reader_of ops s = (\<lambda>path commit. tsRead ops path commit s)"

section \<open>Reading units\<close>

fun read_units :: "locator_lib \<Rightarrow> codec_lib \<Rightarrow> tree_reader \<Rightarrow> string \<Rightarrow> string \<Rightarrow> string list \<Rightarrow> UnitTree \<Rightarrow> UnitTree go" where
  "read_units loc lib read objectID commit [] idx = Inr idx"
| "read_units loc lib read objectID commit (path # paths) idx =
    rbind (read path commit) (\<lambda>content.
      case Unit_Parse lib content of
        None \<Rightarrow> fails ErrPreconditionFailed
      | Some u \<Rightarrow>
          if unObjectID u \<noteq> objectID then fails ErrPreconditionFailed
          else rbind (Ingest (llSha loc) (Some u) path idx) (\<lambda>idx'. read_units loc lib read objectID commit paths idx'))"

definition readKnowledgeObject :: "locator_lib \<Rightarrow> codec_lib \<Rightarrow> tree_reader \<Rightarrow> string \<Rightarrow> string \<Rightarrow> FileUnit list go" where
  "readKnowledgeObject loc lib read objectID commit =
    rbind (ReadObjectLocator loc read objectID commit) (\<lambda>paths.
    rbind (read_units loc lib read objectID commit paths NewTree) (\<lambda>idx. Inr (ObjectUnits idx objectID)))"

definition changedObjectIDs :: "Operation list \<Rightarrow> string list" where
  "changedObjectIDs operations = sort (dedup (map (adObject \<circ> opAddress) operations))"

fun ingest_units :: "locator_lib \<Rightarrow> FileUnit list \<Rightarrow> UnitTree \<Rightarrow> UnitTree go" where
  "ingest_units loc [] idx = Inr idx"
| "ingest_units loc (u # us) idx = rbind (Ingest (llSha loc) (Some u) (fuPath u) idx) (ingest_units loc us)"

fun read_objects :: "locator_lib \<Rightarrow> codec_lib \<Rightarrow> tree_reader \<Rightarrow> string \<Rightarrow> string list \<Rightarrow> UnitTree \<Rightarrow> UnitTree go" where
  "read_objects loc lib read commit [] idx = Inr idx"
| "read_objects loc lib read commit (objectID # ids) idx =
    rbind (readKnowledgeObject loc lib read objectID commit) (\<lambda>us.
    rbind (ingest_units loc us idx) (\<lambda>idx'. read_objects loc lib read commit ids idx'))"

definition readChangedKnowledgeObjects :: "locator_lib \<Rightarrow> codec_lib \<Rightarrow> tree_reader \<Rightarrow> string \<Rightarrow> Operation list \<Rightarrow> UnitTree go" where
  "readChangedKnowledgeObjects loc lib read commit operations =
    read_objects loc lib read commit (changedObjectIDs operations) NewTree"

fun read_tree :: "locator_lib \<Rightarrow> codec_lib \<Rightarrow> tree_reader \<Rightarrow> string \<Rightarrow> string list \<Rightarrow> UnitTree \<Rightarrow> UnitTree go" where
  "read_tree loc lib read commit [] idx = Inr idx"
| "read_tree loc lib read commit (path # paths) idx =
    (if \<not> KnowledgePath path then read_tree loc lib read commit paths idx
     else rbind (read path commit) (\<lambda>content.
       case Unit_Parse lib content of
         None \<Rightarrow> read_tree loc lib read commit paths idx
       | Some u \<Rightarrow> rbind (Ingest (llSha loc) (Some u) path idx) (read_tree loc lib read commit paths)))"

definition readKnowledgeTree :: "locator_lib \<Rightarrow> codec_lib \<Rightarrow> 's tree_ops \<Rightarrow> 's \<Rightarrow> string \<Rightarrow> UnitTree go" where
  "readKnowledgeTree loc lib ops s commit =
    rbind (tsList ops commit s) (\<lambda>paths. read_tree loc lib (reader_of ops s) commit paths NewTree)"

section \<open>The commit\<close>

definition requireIncrementalLocatorLayout :: "tree_reader \<Rightarrow> string \<Rightarrow> unit go" where
  "requireIncrementalLocatorLayout read commit =
    (case read LocatorCompletePath commit of
      Inr raw \<Rightarrow> if raw = LocatorCompleteBody then Inr () else fails ErrCapabilityUnsatisfied
    | Inl e \<Rightarrow>
        if CodeOf (Some e) \<noteq> Some ErrKnowledgeRefUnresolved then Inl e
        else (case read LocatorManifestPath commit of
          Inr _ \<Rightarrow> fails ErrCapabilityUnsatisfied
        | Inl e2 \<Rightarrow> if CodeOf (Some e2) \<noteq> Some ErrKnowledgeRefUnresolved then Inl e2 else Inr ()))"

definition object_locator :: "locator_lib \<Rightarrow> UnitTree \<Rightarrow> string \<Rightarrow> apply_state \<Rightarrow> apply_state" where
  "object_locator loc idx objectID s =
    (let us = ObjectUnits idx objectID; path = ObjectLocatorPath loc objectID in
     if length us = 0 then s\<lparr>apDelete := path # apDelete s\<rparr>
     else s\<lparr>apWrite := AList.update path (EncodeObjectLocator loc objectID (map fuPath us)) (apWrite s)\<rparr>)"

definition mark_schema :: "UnitTree \<Rightarrow> string list \<Rightarrow> Operation \<Rightarrow> string list" where
  "mark_schema idx present op =
    (let objectID = adObject (opAddress op) in
     if \<not> IsSchemaObject objectID then present
     else if length (ObjectUnits idx objectID) = 0 then removeAll objectID present
     else List.insert objectID present)"

definition updateSchemaLocator :: "locator_lib \<Rightarrow> tree_reader \<Rightarrow> string \<Rightarrow> UnitTree \<Rightarrow> Operation list \<Rightarrow> apply_state \<Rightarrow>
    apply_state go" where
  "updateSchemaLocator loc read commit idx operations s =
    (if \<not> list_ex (\<lambda>op. IsSchemaObject (adObject (opAddress op))) operations then Inr s
     else rbind (case read LocatorSchemaIndexPath commit of
         Inr raw \<Rightarrow> (case DecodeSchemaIndex loc raw of Inl _ \<Rightarrow> fails ErrPreconditionFailed | Inr ids \<Rightarrow> Inr ids)
       | Inl e \<Rightarrow> if CodeOf (Some e) \<noteq> Some ErrKnowledgeRefUnresolved then Inl e else Inr []) (\<lambda>ids.
       Inr (s\<lparr>apWrite := AList.update LocatorSchemaIndexPath
         (EncodeSchemaIndex loc (foldl (mark_schema idx) (dedup ids) operations)) (apWrite s)\<rparr>)))"

definition tree_changes :: "apply_state \<Rightarrow> TreeChange list" where
  "tree_changes s = sort_key tcPath
    (map (\<lambda>path. \<lparr>tcPath = path, tcContent = [], tcRemove = True\<rparr>)
      (filter (\<lambda>path. map_of (apWrite s) path = None) (dedup (apDelete s))) @
     map (\<lambda>(path, content). \<lparr>tcPath = path, tcContent = content, tcRemove = False\<rparr>) (apWrite s))"

definition treeChangeSet :: "ChangeSet \<Rightarrow> TreeChange list \<Rightarrow> TreeChangeSet" where
  "treeChangeSet cs changes = \<lparr>tcsTargetRepository = csTargetRepository cs, tcsTargetRef = csTargetRef cs,
     tcsBaseCommit = csBaseCommit cs, tcsExpectedTargetCommit = csExpectedTargetCommit cs, tcsChanges = changes,
     tcsMessage = csMessage cs, tcsAuthor = csAuthor cs, tcsRequestID = csRequestID cs, tcsRuleID = csRuleID cs\<rparr>"

text \<open>The changes of a commit: everything before the call of the store.\<close>

definition knowledge_changes :: "locator_lib \<Rightarrow> codec_lib \<Rightarrow> tree_reader \<Rightarrow> ChangeSet \<Rightarrow> apply_state go" where
  "knowledge_changes loc lib read cs =
    rbind (requireIncrementalLocatorLayout read (csBaseCommit cs)) (\<lambda>_.
    rbind (readChangedKnowledgeObjects loc lib read (csBaseCommit cs) (csOperations cs)) (\<lambda>idx.
    rbind (repo_apply_all (llSha loc) lib (csOperations cs) (csProvenance cs) \<lparr>apTree = idx, apWrite = [], apDelete = []\<rparr>) (\<lambda>s.
    rbind (updateSchemaLocator loc read (csBaseCommit cs) (apTree s) (csOperations cs)
        (foldl (\<lambda>s' objectID. object_locator loc (apTree s) objectID s') s (changedObjectIDs (csOperations cs)))) (\<lambda>s'.
      Inr (s'\<lparr>apWrite := AList.update LocatorCompletePath LocatorCompleteBody (apWrite s')\<rparr>)))))"

definition applyKnowledgeCommit :: "locator_lib \<Rightarrow> codec_lib \<Rightarrow> 's store_caps \<Rightarrow> string \<Rightarrow> ChangeSet \<Rightarrow> 's \<Rightarrow> string go \<times> 's" where
  "applyKnowledgeCommit loc lib caps commandID cs s =
    (case cpChange caps s of
      Some change \<Rightarrow> change commandID cs s
    | None \<Rightarrow>
        if cpNative caps s \<noteq> None then (fails ErrCapabilityUnsatisfied, s)
        else (case cpTree caps s of
          None \<Rightarrow> (fails ErrCapabilityUnsatisfied, s)
        | Some tree \<Rightarrow>
            (case knowledge_changes loc lib (reader_of tree s) cs of
              Inl e \<Rightarrow> (Inl e, s)
            | Inr st \<Rightarrow>
                if csBulkIngest cs then
                  (case cpBulk caps s of
                    None \<Rightarrow> (fails ErrCapabilityUnsatisfied, s)
                  | Some bulk \<Rightarrow> bulk (treeChangeSet cs (tree_changes st)) s)
                else tsApply tree (treeChangeSet cs (tree_changes st)) s)))"

end
