(* ===== verification/SchemaGuard.thy ===== *)
theory SchemaGuard
  imports TreeWriter
begin

text \<open>
  The schema contract of a change set, \<open>src/knowledge/writer/schema.go\<close>: what is checked before a snapshot is
  changed.  The resolver reads one fixed basis; its caches (the decoded tree, the definitions found) hold
  results of these pure reads and are left out.

  The documents embedded in the binary (\<open>SystemSchemaOperations\<close>) are the parameter \<open>wlSystem\<close>.
\<close>

record writer_lib =
  wlLoc :: locator_lib
  wlCodec :: codec_lib
  wlSystem :: "Operation list"

abbreviation wl_sha :: "writer_lib \<Rightarrow> string \<Rightarrow> string" where
  "wl_sha lib \<equiv> llSha (wlLoc lib)"

abbreviation wl_schema :: "writer_lib \<Rightarrow> schema_lib" where
  "wl_schema lib \<equiv> clSchema (wlCodec lib)"

section \<open>The protocol schema\<close>

definition protocolSchemaDigest :: "writer_lib \<Rightarrow> string \<Rightarrow> string option" where
  "protocolSchemaDigest lib objectID =
    (if objectID \<noteq> CoreReadmeSchemaV1 then None
     else map_option (\<lambda>op. CanonicalDigest (wl_sha lib) (opValue op))
       (find (\<lambda>op. adObject (opAddress op) = objectID) (wlSystem lib)))"

definition AssertProtocolSchemaPublication :: "writer_lib \<Rightarrow> string \<Rightarrow> json \<Rightarrow> unit go" where
  "AssertProtocolSchemaPublication lib objectID v =
    (case protocolSchemaDigest lib objectID of
      None \<Rightarrow> Inr ()
    | Some want \<Rightarrow> if CanonicalDigest (wl_sha lib) v \<noteq> want then fails ErrSchemaIncompatible else Inr ())"

section \<open>The resolver\<close>

record 's schemaResolver =
  rvStore :: 's
  rvID :: string
  rvHasCommit :: "string \<Rightarrow> bool"
  rvNative :: "'s native_ops option"
  rvTree :: "'s tree_ops option"
  rvAt :: string

definition newSchemaResolver :: "'s snapshot_ops \<Rightarrow> 's store_caps \<Rightarrow> ChangeSet \<Rightarrow> 's \<Rightarrow> 's schemaResolver go" where
  "newSchemaResolver sops caps cs s =
    (if cpNative caps s = None \<and> cpTree caps s = None then fails ErrSchemaRevisionUnresolved
     else rbind (if csExpectedTargetCommit cs = [] then stHead sops (csTargetRef cs) s else Inr (csExpectedTargetCommit cs)) (\<lambda>basis.
       Inr \<lparr>rvStore = s, rvID = stID sops s, rvHasCommit = (\<lambda>c. stHasCommit sops c s), rvNative = cpNative caps s,
         rvTree = cpTree caps s, rvAt = basis\<rparr>))"

definition treeIndex :: "writer_lib \<Rightarrow> 's schemaResolver \<Rightarrow> string \<Rightarrow> UnitTree go" where
  "treeIndex lib r commit =
    (case rvTree r of
      None \<Rightarrow> fails ErrSchemaRevisionUnresolved
    | Some tree \<Rightarrow> readKnowledgeTree (wlLoc lib) (wlCodec lib) tree (rvStore r) commit)"

definition object_units :: "writer_lib \<Rightarrow> 's schemaResolver \<Rightarrow> string \<Rightarrow> FileUnit list go" where
  "object_units lib r objectID =
    (case rvTree r of
      None \<Rightarrow> fails ErrSchemaRevisionUnresolved
    | Some tree \<Rightarrow> readKnowledgeObject (wlLoc lib) (wlCodec lib) (reader_of tree (rvStore r)) objectID (rvAt r))"

definition schemaValue :: "writer_lib \<Rightarrow> 's schemaResolver \<Rightarrow> string \<Rightarrow> string \<Rightarrow> json go" where
  "schemaValue lib r objectID commit =
    (case rvNative r of
      Some native \<Rightarrow> rbind (nvRead native objectID commit (rvStore r)) (\<lambda>v. Inr (kvValue v))
    | None \<Rightarrow>
        if rvTree r = None then fails ErrSchemaRevisionUnresolved
        else rbind (if commit = rvAt r then object_units lib r objectID
            else rbind (treeIndex lib r commit) (\<lambda>idx. Inr (ObjectUnits idx objectID))) (\<lambda>us.
          if length us = 0 then fails ErrSchemaRevisionUnresolved else repo_Assemble us))"

definition effectiveSchemaRef :: "writer_lib \<Rightarrow> 's schemaResolver \<Rightarrow> Operation \<Rightarrow> string go" where
  "effectiveSchemaRef lib r op =
    (let explicit = TrimSpace (opSchemaRef op) in
     if explicit \<noteq> [] then Inr explicit
     else (case rvNative r of
       Some native \<Rightarrow>
         (case nvResolveAddress native (opAddress op) (rvAt r) (rvStore r) of
           Inl e \<Rightarrow> if CodeOf (Some e) \<in> {Some ErrKnowledgeRefUnresolved, Some ErrVersionUnresolved} then Inr [] else Inl e
         | Inr resolution \<Rightarrow>
             if rsStatus resolution \<noteq> StatusResolved then Inr [] else Inr (TrimSpace (rsSchemaRef resolution)))
     | None \<Rightarrow> rbind (object_units lib r (adObject (opAddress op))) (\<lambda>us.
         Inr (case find (\<lambda>u. unit_key u = AddressKey (opAddress op)) us of
           None \<Rightarrow> [] | Some u \<Rightarrow> TrimSpace (unSchemaRef u)))))"

type_synonym schema_drafts = "(string, SchemaDefinition) gomap"

definition definitionFor :: "writer_lib \<Rightarrow> 's schemaResolver \<Rightarrow> string \<Rightarrow> schema_drafts \<Rightarrow> SchemaDefinition go" where
  "definitionFor lib r ref drafts =
    (case ParseSchemaRef ref of
      None \<Rightarrow> fails ErrSchemaRevisionUnresolved
    | Some target \<Rightarrow>
        if psRepository target \<noteq> [] \<and> psRepository target \<noteq> rvID r then fails ErrSchemaRevisionUnresolved
        else if psCommit target = [] \<and> map_of drafts (psObject target) \<noteq> None
        then Inr (the (map_of drafts (psObject target)))
        else if psCommit target \<noteq> [] \<and> \<not> rvHasCommit r (psCommit target) then fails ErrSchemaRevisionUnresolved
        else (case schemaValue lib r (psObject target) (if psCommit target \<noteq> [] then psCommit target else rvAt r) of
          Inl _ \<Rightarrow> fails ErrSchemaRevisionUnresolved
        | Inr v \<Rightarrow> ParseSchemaDefinition (wl_schema lib) (psObject target) v))"

definition referrers :: "writer_lib \<Rightarrow> 's schemaResolver \<Rightarrow> string \<Rightarrow> Address list go" where
  "referrers lib r schema =
    (case rvNative r of
      Some native \<Rightarrow>
        (case nvReferrers native of
          None \<Rightarrow> fails ErrCapabilityUnsatisfied
        | Some locate \<Rightarrow> locate schema (rvAt r) (rvStore r))
    | None \<Rightarrow> rbind (treeIndex lib r (rvAt r)) (\<lambda>idx.
        Inr (sort_key AddressKey (map unAddress (filter (\<lambda>u. \<not> IsSchemaObject (adObject (unAddress u)) \<and>
          (case ParseSchemaRef (unSchemaRef u) of None \<Rightarrow> False | Some p \<Rightarrow> psObject p = schema)) (map snd (utUnits idx)))))))"

definition bound_source :: "ValueSource option \<Rightarrow> bool" where
  "bound_source source = (case source of None \<Rightarrow> False | Some s \<Rightarrow> vsKind s = ValueSourceBinding)"

text \<open>The published value at an address; \<open>None\<close> when there is no inline value.\<close>

definition unitValue :: "writer_lib \<Rightarrow> 's schemaResolver \<Rightarrow> Address \<Rightarrow> json option go" where
  "unitValue lib r address =
    (case rvNative r of
      Some native \<Rightarrow>
        (case nvResolveAddress native address (rvAt r) (rvStore r) of
          Inl e \<Rightarrow> if CodeOf (Some e) = Some ErrKnowledgeRefUnresolved then Inr None else Inl e
        | Inr resolution \<Rightarrow>
            if rsStatus resolution \<noteq> StatusResolved then Inr None
            else if bound_source (rsValueSource resolution) then Inr None
            else (case nvReadAddress native address (rvAt r) (rvStore r) of
              Inl e \<Rightarrow> if CodeOf (Some e) = Some ErrKnowledgeRefUnresolved then Inr None else Inl e
            | Inr v \<Rightarrow> Inr (Some (kvValue v))))
    | None \<Rightarrow> rbind (treeIndex lib r (rvAt r)) (\<lambda>idx.
        Inr (case map_of (utUnits idx) (AddressKey address) of
          None \<Rightarrow> None
        | Some u \<Rightarrow> if bound_source (unValueSource u) then None else Some (unValue u))))"

section \<open>Updates and removals of schemas\<close>

definition check_referrer :: "writer_lib \<Rightarrow> 's schemaResolver \<Rightarrow> SchemaDefinition \<Rightarrow> string list \<Rightarrow> string list \<Rightarrow> Address \<Rightarrow> unit go" where
  "check_referrer lib r draft removed batch address =
    (if AddressKey address \<in> set removed \<or> AddressKey address \<in> set batch then Inr ()
     else rbind (unitValue lib r address) (\<lambda>found.
       case found of
         None \<Rightarrow> Inr ()
       | Some v \<Rightarrow>
           (case ValidateSchemaInstance (wl_schema lib) address v draft of
             Inl _ \<Rightarrow> fails ErrSchemaInstanceInvalid
           | Inr _ \<Rightarrow> Inr ())))"

definition checkSchemaUpdate :: "writer_lib \<Rightarrow> 's schemaResolver \<Rightarrow> string \<Rightarrow> SchemaDefinition \<Rightarrow> string list \<Rightarrow> string list \<Rightarrow> unit go" where
  "checkSchemaUpdate lib r objectID draft removed batch =
    (case schemaValue lib r objectID (rvAt r) of
      Inl e \<Rightarrow>
        if CodeOf (Some e) \<in> {Some ErrKnowledgeRefUnresolved, Some ErrSchemaRevisionUnresolved} then Inr () else Inl e
    | Inr current \<Rightarrow>
        rbind (ParseSchemaDefinition (wl_schema lib) objectID current) (\<lambda>previous.
        if length (BreakingSchemaChanges previous draft) > 0 then fails ErrSchemaIncompatible
        else rbind (referrers lib r objectID) (\<lambda>addresses. each_ok (check_referrer lib r draft removed batch) addresses)))"

definition checkSchemaRemoval :: "writer_lib \<Rightarrow> 's schemaResolver \<Rightarrow> string \<Rightarrow> string list \<Rightarrow> unit go" where
  "checkSchemaRemoval lib r objectID removed =
    rbind (referrers lib r objectID) (\<lambda>addresses.
      if length (filter (\<lambda>a. AddressKey a \<notin> set removed) addresses) > 0 then fails ErrSchemaIncompatible else Inr ())"

section \<open>The contract of a change set\<close>

fun schema_drafts_of :: "writer_lib \<Rightarrow> Operation list \<Rightarrow> schema_drafts \<Rightarrow> schema_drafts go" where
  "schema_drafts_of lib [] drafts = Inr drafts"
| "schema_drafts_of lib (op # ops) drafts =
    (let objectID = adObject (opAddress op) in
     if opOp op = OpPut \<and> IsSchemaObject objectID then
       rbind (ParseSchemaDefinition (wl_schema lib) objectID (opValue op)) (\<lambda>d.
       rbind (AssertProtocolSchemaPublication lib objectID (opValue op)) (\<lambda>_.
       schema_drafts_of lib ops (AList.update objectID d drafts)))
     else schema_drafts_of lib ops drafts)"

definition removed_schemas :: "Operation list \<Rightarrow> string list" where
  "removed_schemas ops = dedup (map (adObject \<circ> opAddress)
     (filter (\<lambda>op. opOp op = OpRemove \<and> IsSchemaObject (adObject (opAddress op))) ops))"

definition instance_puts :: "Operation list \<Rightarrow> Operation list" where
  "instance_puts ops = filter (\<lambda>op. opOp op = OpPut \<and> \<not> IsSchemaObject (adObject (opAddress op))) ops"

definition removed_addresses :: "Operation list \<Rightarrow> string list" where
  "removed_addresses ops = map (AddressKey \<circ> opAddress) (filter (\<lambda>op. opOp op = OpRemove) ops)"

definition check_instance :: "writer_lib \<Rightarrow> 's schemaResolver \<Rightarrow> schema_drafts \<Rightarrow> Operation \<Rightarrow> unit go" where
  "check_instance lib r drafts op =
    rbind (effectiveSchemaRef lib r op) (\<lambda>ref.
    rbind (AssertReadmeBinding (opAddress op)
        (if ref = [] then [] else (case ParseSchemaRef ref of None \<Rightarrow> [] | Some p \<Rightarrow> psObject p))) (\<lambda>_.
    if ref = [] then Inr ()
    else rbind (definitionFor lib r ref drafts) (\<lambda>d.
      if Schema_Bound d then fails ErrUsageInvalid
      else ValidateSchemaInstance (wl_schema lib) (opAddress op) (opValue op) d)))"

definition validateSchemaRefs :: "writer_lib \<Rightarrow> 's snapshot_ops \<Rightarrow> 's store_caps \<Rightarrow> ChangeSet \<Rightarrow> 's \<Rightarrow> unit go" where
  "validateSchemaRefs lib sops caps cs s =
    (let ops = csOperations cs in
     rbind (schema_drafts_of lib ops []) (\<lambda>drafts.
     if instance_puts ops = [] \<and> drafts = [] \<and> removed_schemas ops = [] then Inr ()
     else rbind (newSchemaResolver sops caps cs s) (\<lambda>r.
       let removed = removed_addresses ops; batch = map (AddressKey \<circ> opAddress) (instance_puts ops) in
       rbind (each_ok (\<lambda>k. case map_of drafts k of None \<Rightarrow> Inr () | Some d \<Rightarrow> checkSchemaUpdate lib r k d removed batch)
         (sort (map fst drafts))) (\<lambda>_.
       rbind (each_ok (\<lambda>k. checkSchemaRemoval lib r k removed) (sort (removed_schemas ops))) (\<lambda>_.
       each_ok (check_instance lib r drafts) (instance_puts ops))))))"

end
