(* ===== verification/KnowledgeWriter.thy ===== *)
theory KnowledgeWriter
  imports SchemaGuard
begin

text \<open>
  The write face of layer 2, \<open>src/knowledge/writer\<close>: \<open>writer.go\<close>, \<open>commit.go\<close>, \<open>propose.go\<close>,
  \<open>idempotency.go\<close> and \<open>receipt.go\<close>.  A change set is checked, executed once under its command id and applied
  to one store.

  The digest of a change set and the JSON of a receipt are the parameter \<open>writer_codec\<close>; as in \<open>RawWriter\<close>, a
  store is a value of the registry that the adapter replaces.
\<close>

section \<open>Receipts\<close>

definition SurfaceCommit :: string where "SurfaceCommit = ''COMMIT''"
definition SurfaceProposal :: string where "SurfaceProposal = ''PROPOSAL''"

record CommitResult =
  coRepositoryID :: string
  coCommitID :: string
  coTargetRef :: string
  coOldCommit :: string
  coNewCommit :: string

record CommitReceipt =
  crReceiptRef :: string
  crCommandID :: string
  crSurface :: string
  crDisposition :: string
  crResult :: CommitResult

record writer_codec =
  wcDigest :: "ChangeSet \<Rightarrow> string"
  wcMarshal :: "CommitReceipt \<Rightarrow> string go"
  wcUnmarshal :: "string \<Rightarrow> CommitReceipt go"

section \<open>The writer\<close>

record knowledge_writer =
  kwAuthor :: string
  kwRequestID :: string
  kwRuleID :: string
  kwSystemPublish :: bool

definition NewWriter :: "'s Ledger option \<Rightarrow> 's \<Rightarrow> (knowledge_writer \<times> 's Ledger) go" where
  "NewWriter commands s =
    rbind (case commands of None \<Rightarrow> Ledger_New None s | Some l \<Rightarrow> Inr l) (\<lambda>l.
      Inr (\<lparr>kwAuthor = [], kwRequestID = [], kwRuleID = [], kwSystemPublish = False\<rparr>, l))"

definition Writer_SetStamp :: "string \<Rightarrow> string \<Rightarrow> string \<Rightarrow> knowledge_writer \<Rightarrow> knowledge_writer" where
  "Writer_SetStamp as requestID ruleID w = w\<lparr>kwAuthor := as, kwRequestID := requestID, kwRuleID := ruleID\<rparr>"

definition Writer_Stamp :: "knowledge_writer \<Rightarrow> string \<times> string \<times> string" where
  "Writer_Stamp w = (kwAuthor w, kwRequestID w, kwRuleID w)"

definition refuseRuntimeSystemMutation :: "knowledge_writer \<Rightarrow> string \<Rightarrow> unit go" where
  "refuseRuntimeSystemMutation w repo =
    (if repo \<noteq> SystemRepositoryID \<or> kwSystemPublish w then Inr () else fails ErrForbidden)"

definition validate_operation :: "Operation \<Rightarrow> unit go" where
  "validate_operation op =
    rbind (AssertWritable (opAddress op)) (\<lambda>_.
      if opOp op = OpPut then
        rbind (ValidateValueSource (opValueSource op)) (\<lambda>_.
          if Source_Normalized (opValueSource op) \<noteq> None then fails ErrUsageInvalid
          else if adKind (opAddress op) = KindRelation
          then rbind (DecodeRelation (opAddress op) (opValue op)) (\<lambda>_. Inr ())
          else Inr ())
      else Inr ())"

definition validateChangeSet :: "ChangeSet \<Rightarrow> unit go" where
  "validateChangeSet cs =
    (if csTargetRepository cs = [] then fails ErrWriteTargetRequired
     else if csTargetRef cs = [] then fails ErrWriteTargetRequired
     else if length (csOperations cs) = 0 then fails ErrUsageInvalid
     else rbind (ValidateProvenance (csProvenance cs)) (\<lambda>_. each_ok validate_operation (csOperations cs)))"

definition stamp_change_set :: "knowledge_writer \<Rightarrow> ChangeSet \<Rightarrow> ChangeSet" where
  "stamp_change_set w cs = cs\<lparr>
     csAuthor := (if csAuthor cs = [] then kwAuthor w else csAuthor cs),
     csRequestID := (if csRequestID cs = [] then kwRequestID w else csRequestID cs),
     csRuleID := (if csRuleID cs = [] then kwRuleID w else csRuleID cs)\<rparr>"

definition applied_receipt :: "string \<Rightarrow> string \<Rightarrow> ChangeSet \<Rightarrow> string \<Rightarrow> string \<Rightarrow> CommitReceipt" where
  "applied_receipt commandID surface cs oldCommit commitID =
    \<lparr>crReceiptRef = ''receipt:'' @ ToLower surface @ '':'' @ commitID, crCommandID = commandID, crSurface = surface,
     crDisposition = DispositionApplied,
     crResult = \<lparr>coRepositoryID = csTargetRepository cs, coCommitID = commitID, coTargetRef = csTargetRef cs,
       coOldCommit = oldCommit, coNewCommit = commitID\<rparr>\<rparr>"

text \<open>The closure of \<open>Execute\<close>.\<close>

definition apply_change_set :: "writer_lib \<Rightarrow> 'st snapshot_ops \<Rightarrow> 'st store_caps \<Rightarrow> 'st \<Rightarrow> string \<Rightarrow> string \<Rightarrow> ChangeSet \<Rightarrow>
    ('st, 'w) Registry \<times> 'w \<Rightarrow> CommitReceipt go \<times> ('st, 'w) Registry \<times> 'w" where
  "apply_change_set lib sops caps repo commandID surface cs world =
    (case validateSchemaRefs lib sops caps cs repo of
      Inl e \<Rightarrow> (Inl e, world)
    | Inr _ \<Rightarrow>
        (case stHead sops (csTargetRef cs) repo of
          Inl e \<Rightarrow> (Inl e, world)
        | Inr oldCommit \<Rightarrow>
            (case applyKnowledgeCommit (wlLoc lib) (wlCodec lib) caps commandID cs repo of
              (Inl e, repo') \<Rightarrow> (Inl e, Registry_Mutate (csTargetRepository cs) repo' (fst world), snd world)
            | (Inr commitID, repo') \<Rightarrow>
                (let reg = Registry_Mutate (csTargetRepository cs) repo' (fst world) in
                 (Inr (applied_receipt commandID surface cs oldCommit commitID), reg,
                  if surface = SurfaceCommit
                  then NotifyAdvanced reg \<lparr>adStore = Some repo', adFrom = oldCommit, adTo = commitID\<rparr> (snd world)
                  else snd world)))))"

definition writer_request :: "string \<Rightarrow> ChangeSet \<Rightarrow> CmdRequest" where
  "writer_request surface cs = \<lparr>reqKind = surface, reqRepositoryID = csTargetRepository cs, reqTargetRef = csTargetRef cs,
     reqBaseCommit = csBaseCommit cs, reqExpectedTargetCommit = csExpectedTargetCommit cs,
     reqOperationCount = int (length (csOperations cs)), reqTreeChangeSet = []\<rparr>"

text \<open>The journal entry of a call has no effect on its result: the error of the operation wins, and a success stays one.\<close>

definition applySnapshot :: "writer_lib \<Rightarrow> writer_codec \<Rightarrow> 'st snapshot_ops \<Rightarrow> 'st store_caps \<Rightarrow> 's store_ops option \<Rightarrow>
    knowledge_writer \<Rightarrow> string \<Rightarrow> string \<Rightarrow> ChangeSet \<Rightarrow> string \<Rightarrow> string \<Rightarrow> 's Ledger \<Rightarrow> ('st, 'w) Registry \<times> 'w \<Rightarrow>
    CommitReceipt go \<times> 's Ledger \<times> ('st, 'w) Registry \<times> 'w" where
  "applySnapshot lib codec sops caps store wr commandID surface cs0 now now2 l world =
    (case refuseRuntimeSystemMutation wr (csTargetRepository cs0) of
      Inl e \<Rightarrow> (Inl e, l, world)
    | Inr _ \<Rightarrow>
    (case validateChangeSet cs0 of
      Inl e \<Rightarrow> (Inl e, l, world)
    | Inr _ \<Rightarrow>
    (case Registry_Require (csTargetRepository cs0) ErrTargetRepositoryDenied (fst world) of
      Inl e \<Rightarrow> (Inl e, l, world)
    | Inr repo \<Rightarrow>
        if stArchived sops repo then (fails ErrRepositoryArchived, l, world)
        else (let digest = wcDigest codec cs0; cs = stamp_change_set wr cs0 in
          case Execute store (wcMarshal codec) commandID digest (writer_request surface cs) now now2
              (apply_change_set lib sops caps repo commandID surface cs) l world of
            (Inl e, l', world') \<Rightarrow> (Inl e, l', world')
          | (Inr (entry, replayed), l', world') \<Rightarrow>
              (case wcUnmarshal codec (entReceipt entry) of
                Inl e \<Rightarrow> (Inl e, l', world')
              | Inr receipt \<Rightarrow>
                  (Inr (if replayed then receipt\<lparr>crDisposition := DispositionReplayed\<rparr> else receipt), l', world'))))))"

section \<open>Looking up a command\<close>

record IdempotencyEntry =
  ieCommandID :: string
  ieDigest :: string
  ieReceipt :: CommitReceipt
  ieRequest :: CmdRequest

definition Writer_Lookup :: "writer_codec \<Rightarrow> 's store_ops option \<Rightarrow> string \<Rightarrow> 's Ledger \<Rightarrow> IdempotencyEntry option \<times> 's Ledger" where
  "Writer_Lookup codec store commandID l =
    (case Lookup store commandID l of
      (None, l') \<Rightarrow> (None, l')
    | (Some entry, l') \<Rightarrow>
        if reqKind (entRequest entry) \<noteq> SurfaceCommit \<and> reqKind (entRequest entry) \<noteq> SurfaceProposal then (None, l')
        else (case wcUnmarshal codec (entReceipt entry) of
          Inl _ \<Rightarrow> (None, l')
        | Inr receipt \<Rightarrow>
            (Some \<lparr>ieCommandID = entCommandID entry, ieDigest = entDigest entry, ieReceipt = receipt,
               ieRequest = (entRequest entry)\<lparr>reqTreeChangeSet := []\<rparr>\<rparr>, l')))"

section \<open>COMMIT and PROPOSAL\<close>

record CommitIntent =
  ciTargetRepository :: string
  ciTargetRef :: string
  ciBaseCommit :: string
  ciExpectedTargetCommit :: string
  ciOperations :: "Operation list"
  ciMessage :: string
  ciProvenance :: "ProvenanceEnvelope option"
  ciBulkIngest :: bool

definition intent_change_set :: "CommitIntent \<Rightarrow> string \<Rightarrow> string \<Rightarrow> ChangeSet" where
  "intent_change_set intent base expected =
    \<lparr>csTargetRepository = ciTargetRepository intent, csTargetRef = ciTargetRef intent, csBaseCommit = base,
     csExpectedTargetCommit = expected, csOperations = ciOperations intent, csMessage = ciMessage intent,
     csAuthor = [], csRequestID = [], csRuleID = [], csProvenance = ciProvenance intent,
     csBulkIngest = ciBulkIngest intent\<rparr>"

definition Writer_Commit :: "writer_lib \<Rightarrow> writer_codec \<Rightarrow> 'st snapshot_ops \<Rightarrow> 'st store_caps \<Rightarrow> 's store_ops option \<Rightarrow>
    knowledge_writer \<Rightarrow> string \<Rightarrow> ChangeSet \<Rightarrow> string \<Rightarrow> string \<Rightarrow> 's Ledger \<Rightarrow> ('st, 'w) Registry \<times> 'w \<Rightarrow>
    CommitReceipt go \<times> 's Ledger \<times> ('st, 'w) Registry \<times> 'w" where
  "Writer_Commit lib codec sops caps store wr commandID cs now now2 l world =
    applySnapshot lib codec sops caps store wr commandID SurfaceCommit cs now now2 l world"

definition Writer_CommitIntent :: "writer_lib \<Rightarrow> writer_codec \<Rightarrow> 'st snapshot_ops \<Rightarrow> 'st store_caps \<Rightarrow> 's store_ops option \<Rightarrow>
    knowledge_writer \<Rightarrow> string \<Rightarrow> CommitIntent \<Rightarrow> string \<Rightarrow> string \<Rightarrow> 's Ledger \<Rightarrow> ('st, 'w) Registry \<times> 'w \<Rightarrow>
    CommitReceipt go \<times> 's Ledger \<times> ('st, 'w) Registry \<times> 'w" where
  "Writer_CommitIntent lib codec sops caps store wr commandID intent now now2 l world =
    (let fresh = (\<lambda>l1. case Registry_Require (ciTargetRepository intent) ErrTargetRepositoryDenied (fst world) of
          Inl e \<Rightarrow> (Inl e, l1, world)
        | Inr repo \<Rightarrow>
            (case stHead sops (ciTargetRef intent) repo of
              Inl e \<Rightarrow> (Inl e, l1, world)
            | Inr head \<Rightarrow>
                (let expected = (if ciExpectedTargetCommit intent = [] then head else ciExpectedTargetCommit intent);
                     base = (if ciBaseCommit intent = [] then expected else ciBaseCommit intent) in
                 Writer_Commit lib codec sops caps store wr commandID (intent_change_set intent base expected)
                   now now2 l1 world))) in
     case Writer_Lookup codec store commandID l of
       (None, l1) \<Rightarrow> fresh l1
     | (Some prior, l1) \<Rightarrow>
         if reqKind (ieRequest prior) = SurfaceCommit
         then Writer_Commit lib codec sops caps store wr commandID
           (intent_change_set intent (reqBaseCommit (ieRequest prior)) (reqExpectedTargetCommit (ieRequest prior)))
           now now2 l1 world
         else fresh l1)"

record ProposeIntent =
  piTargetRepository :: string
  piTargetRef :: string
  piCandidateRef :: string
  piBaseCommit :: string
  piOperations :: "Operation list"
  piMessage :: string
  piProvenance :: "ProvenanceEnvelope option"

definition propose_change_set :: "ProposeIntent \<Rightarrow> string \<Rightarrow> string \<Rightarrow> string \<Rightarrow> ChangeSet" where
  "propose_change_set intent ref base expected =
    \<lparr>csTargetRepository = piTargetRepository intent, csTargetRef = ref, csBaseCommit = base,
     csExpectedTargetCommit = expected, csOperations = piOperations intent, csMessage = piMessage intent,
     csAuthor = [], csRequestID = [], csRuleID = [], csProvenance = piProvenance intent, csBulkIngest = False\<rparr>"

text \<open>The parent of the proposal: the tip of the candidate ref, which is created when it does not exist.\<close>

definition propose_parent :: "'st snapshot_ops \<Rightarrow> ProposeIntent \<Rightarrow> 'st \<Rightarrow> string go \<times> 'st" where
  "propose_parent sops intent repo =
    (case stGetRef sops (piCandidateRef intent) repo of
      Some existing \<Rightarrow> (Inr existing, repo)
    | None \<Rightarrow>
        (case (if piBaseCommit intent = [] then stHead sops (RefOrDefault (piTargetRef intent)) repo
               else Inr (piBaseCommit intent)) of
          Inl e \<Rightarrow> (Inl e, repo)
        | Inr parent \<Rightarrow>
            (case stCreateRef sops (piCandidateRef intent) parent repo of
              (Inl e, repo') \<Rightarrow> (Inl e, repo')
            | (Inr _, repo') \<Rightarrow> (Inr parent, repo'))))"

text \<open>A proposal whose command id is new.\<close>

definition propose_new :: "writer_lib \<Rightarrow> writer_codec \<Rightarrow> 'st snapshot_ops \<Rightarrow> 'st store_caps \<Rightarrow> 's store_ops option \<Rightarrow>
    knowledge_writer \<Rightarrow> string \<Rightarrow> ProposeIntent \<Rightarrow> string \<Rightarrow> string \<Rightarrow> 's Ledger \<Rightarrow> ('st, 'w) Registry \<times> 'w \<Rightarrow>
    CommitReceipt go \<times> 's Ledger \<times> ('st, 'w) Registry \<times> 'w" where
  "propose_new lib codec sops caps store wr commandID intent now now2 l world =
    (case Registry_Require (piTargetRepository intent) ErrTargetRepositoryDenied (fst world) of
      Inl e \<Rightarrow> (Inl e, l, world)
    | Inr repo \<Rightarrow>
        if stArchived sops repo then (fails ErrRepositoryArchived, l, world)
        else (case propose_parent sops intent repo of (r, repo') \<Rightarrow>
          (let world' = (Registry_Mutate (piTargetRepository intent) repo' (fst world), snd world) in
           case r of
             Inl e \<Rightarrow> (Inl e, l, world')
           | Inr parent \<Rightarrow>
               applySnapshot lib codec sops caps store wr commandID SurfaceProposal
                 (propose_change_set intent (piCandidateRef intent) parent parent) now now2 l world')))"

definition Writer_Propose :: "writer_lib \<Rightarrow> writer_codec \<Rightarrow> 'st snapshot_ops \<Rightarrow> 'st store_caps \<Rightarrow> 's store_ops option \<Rightarrow>
    knowledge_writer \<Rightarrow> string \<Rightarrow> ProposeIntent \<Rightarrow> string \<Rightarrow> string \<Rightarrow> 's Ledger \<Rightarrow> ('st, 'w) Registry \<times> 'w \<Rightarrow>
    CommitReceipt go \<times> 's Ledger \<times> ('st, 'w) Registry \<times> 'w" where
  "Writer_Propose lib codec sops caps store wr commandID intent now now2 l world =
    (if piTargetRepository intent = [] \<or> piCandidateRef intent = [] then (fails ErrWriteTargetRequired, l, world)
     else (case Writer_Lookup codec store commandID l of
       (None, l1) \<Rightarrow> propose_new lib codec sops caps store wr commandID intent now now2 l1 world
     | (Some prior, l1) \<Rightarrow>
         if reqKind (ieRequest prior) = SurfaceProposal
         then applySnapshot lib codec sops caps store wr commandID SurfaceProposal
           (propose_change_set intent (reqTargetRef (ieRequest prior)) (reqBaseCommit (ieRequest prior))
             (reqExpectedTargetCommit (ieRequest prior))) now now2 l1 world
         else propose_new lib codec sops caps store wr commandID intent now now2 l1 world))"

end
