(* ===== verification/UnitFiles.thy ===== *)
theory UnitFiles
  imports RepoTree
begin

text \<open>
  The round trip of unit files: what \<open>SerializeWithSource\<close> prints for a unit, \<open>Parse\<close> reads back
  (\<open>src/internal/repofile/codec.go\<close>), for units whose fields survive the trimming of front matter.
\<close>

section \<open>Lines\<close>

definition clean_text :: "string \<Rightarrow> bool" where
  "clean_text s = (TrimSpace s = s \<and> CHR 0x0A \<notin> set s)"

lemma clean_Nil [simp]: "clean_text []"
  by (simp add: clean_text_def)

lemma TrimSpace_blank: "TrimSpace (CHR '' '' # s) = TrimSpace s"
proof -
  have "leading space_encodings (CHR '' '' # s) = Some '' ''"
    by (simp add: leading_def space_encodings_def)
  then have "strip space_encodings (CHR '' '' # s) = strip space_encodings s" by (subst strip.simps) simp
  then show ?thesis by (simp add: TrimSpace_def TrimLeftSpace_def)
qed

lemma trimmed_leading:
  assumes "TrimSpace s = s"
  shows "leading space_encodings s = None"
proof -
  have "leading space_encodings (TrimLeftSpace s) = None" unfolding TrimLeftSpace_def by (rule leading_strip)
  then have "leading space_encodings (TrimSpace s) = None"
    unfolding TrimSpace_def by (rule leading_prefix_None [OF TrimRightSpace_prefix])
  then show ?thesis using assms by simp
qed

lemma TrimSpace_newline:
  assumes "TrimSpace s = s" "s \<noteq> []"
  shows "TrimSpace (s @ [CHR 0x0A]) = s"
proof -
  have lead: "leading space_encodings s = None" by (rule trimmed_leading [OF assms(1)])
  have nl: "e = [CHR 0x0A]" if "e \<in> set space_encodings" "CHR 0x0A \<in> set e" for e
    using that by (auto simp: space_encodings_def)
  have "\<not> prefix e (s @ [CHR 0x0A])" if e: "e \<in> set space_encodings" "e \<noteq> []" for e
  proof
    assume "prefix e (s @ [CHR 0x0A])"
    then have "prefix e s \<or> e = s @ [CHR 0x0A]" by (auto simp: prefix_snoc)
    moreover have "\<not> prefix e s" using lead e by (auto simp: leading_def find_None_iff)
    moreover have "e \<noteq> s @ [CHR 0x0A]" using nl [OF e(1)] assms(2) by auto
    ultimately show False by blast
  qed
  then have "leading space_encodings (s @ [CHR 0x0A]) = None" by (auto simp: leading_def find_None_iff)
  then have left: "TrimLeftSpace (s @ [CHR 0x0A]) = s @ [CHR 0x0A]" by (simp add: TrimLeftSpace_def strip_id)
  have "leading (map rev space_encodings) (CHR 0x0A # rev s) = Some [CHR 0x0A]"
    by (simp add: leading_def space_encodings_def)
  then have "strip (map rev space_encodings) (CHR 0x0A # rev s) = strip (map rev space_encodings) (rev s)"
    by (subst strip.simps) simp
  then have right: "TrimRightSpace (s @ [CHR 0x0A]) = TrimRightSpace s" by (simp add: TrimRightSpace_def)
  have "TrimSpace s = TrimRightSpace s" using lead by (simp add: TrimSpace_def TrimLeftSpace_def strip_id)
  then show ?thesis using left right assms(1) by (simp add: TrimSpace_def)
qed

lemma Split_lines:
  assumes "list_all (\<lambda>p. c \<notin> set p) ps" "ps \<noteq> []"
  shows "Split c (Join [c] ps @ c # rest) = ps @ Split c rest"
  using assms
proof (induction ps)
  case (Cons p ps)
  show ?case
  proof (cases "ps = []")
    case True
    then show ?thesis using Cons.prems Split_append [of c p rest] by simp
  next
    case False
    then have "Join [c] (p # ps) @ c # rest = p @ c # (Join [c] ps @ c # rest)" by (simp add: Join_Cons)
    then show ?thesis using Cons False Split_append [of c p "Join [c] ps @ c # rest"] by simp
  qed
qed simp

text \<open>A header line and what it does to the state of the parser.\<close>

definition line_of :: "string \<times> string \<Rightarrow> string" where
  "line_of kv = fst kv @ '': '' @ snd kv"

lemma parse_plain_line:
  assumes "CHR '':'' \<notin> set k" "TrimSpace k = k" "clean_text v" "k \<noteq> ''provenance''" "k \<noteq> ''value_source''"
  shows "parse_line lib (line_of (k, v)) s = s\<lparr>psObj := AList.update k v (psObj s)\<rparr>"
proof -
  have line: "line_of (k, v) = k @ CHR '':'' # ('' '' @ v)" by (simp add: line_of_def)
  have "before_byte CHR '':'' (line_of (k, v)) = k" "after_byte CHR '':'' (line_of (k, v)) = '' '' @ v"
    unfolding line using byte_split [OF assms(1)] by blast+
  moreover have "ContainsChar (line_of (k, v)) CHR '':''" by (simp add: line ContainsChar_def)
  moreover have "TrimSpace ('' '' @ v) = v" using assms(3) TrimSpace_blank [of v] by (simp add: clean_text_def)
  ultimately show ?thesis using assms(2,4,5) by (simp add: parse_line_def Let_def)
qed

definition update_all :: "(string \<times> string) list \<Rightarrow> (string, string) gomap \<Rightarrow> (string, string) gomap" where
  "update_all kvs m = foldl (\<lambda>m (k, v). AList.update k v m) m kvs"

definition plain_line :: "string \<times> string \<Rightarrow> bool" where
  "plain_line kv = (CHR '':'' \<notin> set (fst kv) \<and> TrimSpace (fst kv) = fst kv \<and> clean_text (snd kv) \<and>
     fst kv \<noteq> ''provenance'' \<and> fst kv \<noteq> ''value_source'' \<and> CHR 0x0A \<notin> set (fst kv))"

lemma parse_plain_lines:
  "list_all plain_line kvs \<Longrightarrow>
    foldl (\<lambda>s line. parse_line lib line s) s (map line_of kvs) = s\<lparr>psObj := update_all kvs (psObj s)\<rparr>"
proof (induction kvs arbitrary: s)
  case (Cons kv kvs)
  obtain k v where kv: "kv = (k, v)" by (cases kv)
  show ?case using Cons parse_plain_line [of k v lib s] by (simp add: kv plain_line_def update_all_def)
qed (simp add: update_all_def)

lemma AList_update_append: "map_of m k = None \<Longrightarrow> AList.update k v m = m @ [(k, v)]"
  by (induction m) auto

lemma update_all_fresh:
  "distinct (map fst m @ map fst kvs) \<Longrightarrow> update_all kvs m = m @ kvs"
proof (induction kvs arbitrary: m)
  case (Cons kv kvs)
  obtain k v where kv: "kv = (k, v)" by (cases kv)
  have "AList.update k v m = m @ [(k, v)]"
    using Cons.prems by (intro AList_update_append) (auto simp: kv map_of_eq_None_iff)
  then show ?case using Cons.IH [of "m @ [(k, v)]"] Cons.prems by (auto simp: kv update_all_def)
qed (simp add: update_all_def)

section \<open>Units that survive the file\<close>

definition pair_line :: "string \<Rightarrow> string \<Rightarrow> (string \<times> string) list" where
  "pair_line name v = (if v = [] then [] else [(name, v)])"

definition regular :: "Address \<Rightarrow> bool \<Rightarrow> string \<Rightarrow> string \<Rightarrow> (string \<times> string) list" where
  "regular a markdown hint ref =
    [(if markdown then ''entity'' else ''object_id'', adObject a)] @
    pair_line (if markdown then ''aspect'' else ''aspect_name'') (adAspect a) @
    pair_line ''member_key'' (adMember a) @
    pair_line ''kind'' (if markdown \<or> adKind a = KindEntity then [] else adKind a) @
    pair_line ''path_hint'' hint @ pair_line ''schema_ref'' ref"

lemma pair_line_map [simp]: "map_of (pair_line n v) k = (if v \<noteq> [] \<and> k = n then Some v else None)"
  by (simp add: pair_line_def)

lemma pair_line_keys [simp]: "fst ` set (pair_line n v) = (if v = [] then {} else {n})"
  by (simp add: pair_line_def)

lemma header_pair: "header_line name v = map line_of (pair_line name v)"
  by (simp add: header_line_def pair_line_def line_of_def)

lemma identity_regular:
  assumes "adKind a \<noteq> []"
  shows "identity_lines a markdown @ header_line ''path_hint'' hint @ header_line ''schema_ref'' ref =
    map line_of (regular a markdown hint ref)"
  using assms unfolding regular_def identity_lines_def header_pair
  by (simp add: pair_line_def line_of_def)

lemma regular_distinct: "distinct (map fst (regular a markdown hint ref))"
  unfolding regular_def by (simp add: pair_line_def)

lemma regular_fields:
  assumes "psObj s = regular a markdown hint ref" "adObject a \<noteq> []"
  shows "first_field s ''object_id'' ''entity'' = adObject a"
    "first_field s ''aspect_name'' ''aspect'' = adAspect a"
    "obj_field s ''member_key'' = adMember a"
    "obj_field s ''kind'' = (if markdown \<or> adKind a = KindEntity then [] else adKind a)"
    "obj_field s ''path_hint'' = hint" "obj_field s ''schema_ref'' = ref"
    "obj_field s ''origin'' = []" "obj_field s ''value_source_error'' = []"
  using assms unfolding first_field_def obj_field_def regular_def
  by (simp_all add: map_of_append map_add_def)

text \<open>Values whose JSON text decodes to them, and sources and provenance likewise.\<close>

definition printable :: "codec_lib \<Rightarrow> json \<Rightarrow> bool" where
  "printable lib v = (clJson lib (clIndent lib v) = Some v \<and> TrimSpace (clIndent lib v) = clIndent lib v \<and>
     clIndent lib v \<noteq> [] \<and> (v = JNull \<longrightarrow> clIndent lib v = ''null''))"

definition source_storable :: "codec_lib \<Rightarrow> ValueSource option \<Rightarrow> bool" where
  "source_storable lib source =
    (case source of
      None \<Rightarrow> True
    | Some s \<Rightarrow> clParseSource lib (clSource lib s) = Some s \<and> clean_text (clSource lib s) \<and> clSource lib s \<noteq> [] \<and>
        ValidateValueSource (Some s) = Inr () \<and> Source_Normalized (Some s) = Some s)"

definition provenance_storable :: "codec_lib \<Rightarrow> ProvenanceEnvelope option \<Rightarrow> bool" where
  "provenance_storable lib p =
    (case p of
      None \<Rightarrow> True
    | Some p \<Rightarrow> clParseProvenance lib (clProvenance lib p) = Some p \<and> clean_text (clProvenance lib p) \<and> clProvenance lib p \<noteq> [])"

text \<open>The body: a printable value of a unit that is no Markdown file, or the body of a README.\<close>

definition body_storable :: "codec_lib \<Rightarrow> Address \<Rightarrow> string \<Rightarrow> string \<Rightarrow> json \<Rightarrow> bool" where
  "body_storable lib a hint ref v =
    (if IsReadmeAddress a ref
     then (case ReadmeBody v of
         None \<Rightarrow> False | Some body \<Rightarrow> v = JObject [(''body'', JString body)] \<and> body \<noteq> [] \<and> TrimSpace body = body)
     else \<not> IsReadmeSchema ref \<and> markdownAspectBody a hint ref v = None \<and> printable lib v)"

definition storable :: "codec_lib \<Rightarrow> 'a Unit_scheme \<Rightarrow> bool" where
  "storable lib u =
    (let a = unAddress u in
     unObjectID u = adObject a \<and> adObject a \<noteq> [] \<and> adKind a \<noteq> [] \<and>
     list_all clean_text [adObject a, adAspect a, adMember a, adKind a, unPathHint u, unSchemaRef u] \<and>
     InferAddress (adObject a) (adAspect a) (adMember a) (if adKind a = KindEntity then [] else adKind a) = a \<and>
     (IsSchemaObject (adObject a) \<longrightarrow> SplitSchemaOrigin (clSchema lib) (unValue u) = Some ([], unValue u)) \<and>
     Source_Normalized (unValueSource u) = unValueSource u \<and> source_storable lib (unValueSource u) \<and>
     provenance_storable lib (unProvenance u) \<and>
     body_storable lib a (unPathHint u) (unSchemaRef u) (unValue u))"

definition unit_text :: "codec_lib \<Rightarrow> 'a Unit_scheme \<Rightarrow> string go" where
  "unit_text lib u = SerializeWithSource lib (unAddress u) (unPathHint u) (unSchemaRef u) (unValueSource u)
     (unProvenance u) (unValue u)"

section \<open>The round trip\<close>

definition extra_lines :: "codec_lib \<Rightarrow> ValueSource option \<Rightarrow> ProvenanceEnvelope option \<Rightarrow> string list" where
  "extra_lines lib source provenance =
    (case source of None \<Rightarrow> [] | Some s \<Rightarrow> [''value_source: '' @ clSource lib s]) @
    (case provenance of None \<Rightarrow> [] | Some p \<Rightarrow> [''provenance: '' @ clProvenance lib p])"

lemma front_matter_lines:
  assumes "adKind a \<noteq> []" "Source_Normalized source = source"
  shows "front_matter lib a markdown hint ref [] source provenance =
    map line_of (regular a markdown hint ref) @ extra_lines lib source provenance"
  using identity_regular [OF assms(1), of markdown hint ref, symmetric] assms(2)
  by (simp add: front_matter_def extra_lines_def header_line_def [of "''origin''"])

lemma special_line:
  assumes "clean_text v" "CHR '':'' \<notin> set k" "TrimSpace k = k"
  shows "before_byte CHR '':'' (k @ '': '' @ v) = k" "TrimSpace (after_byte CHR '':'' (k @ '': '' @ v)) = v"
    "ContainsChar (k @ '': '' @ v) CHR '':''"
proof -
  have line: "k @ '': '' @ v = k @ CHR '':'' # ('' '' @ v)" by simp
  show "before_byte CHR '':'' (k @ '': '' @ v) = k" unfolding line using byte_split [OF assms(2)] by blast
  have "after_byte CHR '':'' (k @ '': '' @ v) = '' '' @ v" unfolding line using byte_split [OF assms(2)] by blast
  then show "TrimSpace (after_byte CHR '':'' (k @ '': '' @ v)) = v"
    using assms(1) TrimSpace_blank [of v] by (simp add: clean_text_def)
  show "ContainsChar (k @ '': '' @ v) CHR '':''" by (simp add: ContainsChar_def)
qed

lemma key_names: "TrimSpace ''value_source'' = ''value_source''" "TrimSpace ''provenance'' = ''provenance''"
  by code_simp+

lemma parse_extra_lines:
  assumes "source_storable lib source" "provenance_storable lib provenance" "psValueSource s = None" "psProvenance s = None"
  shows "foldl (\<lambda>s line. parse_line lib line s) s (extra_lines lib source provenance) =
    s\<lparr>psValueSource := source, psProvenance := provenance\<rparr>"
proof -
  have src: "foldl (\<lambda>s line. parse_line lib line s) s (case source of None \<Rightarrow> [] | Some v \<Rightarrow> [''value_source: '' @ clSource lib v]) =
      s\<lparr>psValueSource := source\<rparr>"
  proof (cases source)
    case None
    then show ?thesis using assms(3) by simp
  next
    case (Some v)
    then have v: "clParseSource lib (clSource lib v) = Some v" "clean_text (clSource lib v)" "clSource lib v \<noteq> []"
      "ValidateValueSource (Some v) = Inr ()" "Source_Normalized (Some v) = Some v"
      using assms(1) by (simp_all add: source_storable_def)
    have "parse_line lib (''value_source'' @ '': '' @ clSource lib v) s = s\<lparr>psValueSource := Some v\<rparr>"
      unfolding parse_line_def Let_def
      using special_line [OF v(2), of "''value_source''"] key_names v by (simp add: source_line_def)
    then show ?thesis using Some by simp
  qed
  have prov: "foldl (\<lambda>s line. parse_line lib line s) t (case provenance of None \<Rightarrow> [] | Some v \<Rightarrow> [''provenance: '' @ clProvenance lib v]) =
      t\<lparr>psProvenance := provenance\<rparr>" if "psProvenance t = None" for t
  proof (cases provenance)
    case None
    then show ?thesis using that by simp
  next
    case (Some v)
    then have v: "clParseProvenance lib (clProvenance lib v) = Some v" "clean_text (clProvenance lib v)" "clProvenance lib v \<noteq> []"
      using assms(2) by (simp_all add: provenance_storable_def)
    have "parse_line lib (''provenance'' @ '': '' @ clProvenance lib v) t = t\<lparr>psProvenance := Some v\<rparr>"
      unfolding parse_line_def Let_def
      using special_line [OF v(2), of "''provenance''"] key_names v by simp
    then show ?thesis using Some by simp
  qed
  have "foldl (\<lambda>s line. parse_line lib line s) s (extra_lines lib source provenance) = (s\<lparr>psValueSource := source\<rparr>)\<lparr>psProvenance := provenance\<rparr>"
    unfolding extra_lines_def foldl_append src using assms(4) by (intro prov) simp
  then show ?thesis by simp
qed

lemma extra_lines_clean:
  assumes "source_storable lib source" "provenance_storable lib provenance"
  shows "list_all (\<lambda>l. CHR 0x0A \<notin> set l \<and> l \<noteq> ''---'') (extra_lines lib source provenance)"
  using assms by (auto simp: extra_lines_def source_storable_def provenance_storable_def clean_text_def split: option.splits)

lemma unit_text_shape:
  assumes "storable lib u"
  obtains markdown body where
    "unit_text lib u = Inr (unit_file (map line_of (regular (unAddress u) markdown (unPathHint u) (unSchemaRef u)) @
       extra_lines lib (unValueSource u) (unProvenance u)) body)"
    "TrimSpace body = body" "body \<noteq> []" "parse_body lib (unSchemaRef u) body = unValue u"
    "markdown \<Longrightarrow> adKind (unAddress u) = KindAspect"
proof -
  let ?a = "unAddress u" and ?ref = "unSchemaRef u" and ?hint = "unPathHint u" and ?v = "unValue u"
  have a: "adKind ?a \<noteq> []" "Source_Normalized (unValueSource u) = unValueSource u"
    "IsSchemaObject (adObject ?a) \<longrightarrow> SplitSchemaOrigin (clSchema lib) ?v = Some ([], ?v)"
    "body_storable lib ?a ?hint ?ref ?v"
    using assms by (simp_all add: storable_def Let_def)
  have printed: "unit_text lib u = Inr (case markdownAspectBody ?a ?hint ?ref ?v of
      Some body \<Rightarrow> unit_file (front_matter lib ?a True ?hint ?ref [] (unValueSource u) (unProvenance u)) body
    | None \<Rightarrow> unit_file (front_matter lib ?a False ?hint ?ref [] (unValueSource u) (unProvenance u)) (clIndent lib ?v))"
    using a(3) by (simp add: unit_text_def SerializeWithSource_def)
  show ?thesis
  proof (cases "IsReadmeAddress ?a ?ref")
    case True
    obtain body where v: "?v = JObject [(''body'', JString body)]" "body \<noteq> []" "TrimSpace body = body"
      using a(4) True by (auto simp: body_storable_def split: option.splits)
    have "markdownAspectBody ?a ?hint ?ref ?v = Some body"
      using True v by (simp add: markdownAspectBody_def)
    moreover have "parse_body lib ?ref body = ?v" using True v(1) by (simp add: parse_body_def IsReadmeAddress_def)
    moreover have "adKind ?a = KindAspect" using True by (simp add: IsReadmeAddress_def readme_address_def)
    ultimately show ?thesis
      using that [of True body] printed v(2,3) front_matter_lines [OF a(1,2), of lib True ?hint ?ref] by simp
  next
    case False
    then have b: "\<not> IsReadmeSchema ?ref" "markdownAspectBody ?a ?hint ?ref ?v = None" "printable lib ?v"
      using a(4) by (simp_all add: body_storable_def)
    have "parse_body lib ?ref (clIndent lib ?v) = ?v" using b(1,3) by (simp add: parse_body_def printable_def)
    then show ?thesis
      using that [of False "clIndent lib ?v"] printed b(2,3) front_matter_lines [OF a(1,2), of lib False ?hint ?ref]
      by (simp add: printable_def)
  qed
qed

lemma regular_plain:
  assumes "list_all clean_text [adObject a, adAspect a, adMember a, adKind a, hint, ref]"
  shows "list_all plain_line (regular a markdown hint ref)"
proof -
  have names: "list_all (\<lambda>n. plain_line (n, [])) [''entity'', ''object_id'', ''aspect'', ''aspect_name'', ''member_key'',
      ''kind'', ''path_hint'', ''schema_ref'']" by code_simp
  then show ?thesis using assms by (auto simp: regular_def pair_line_def plain_line_def)
qed

lemma header_clean:
  assumes "list_all plain_line kvs" "l \<in> set (map line_of kvs)"
  shows "CHR 0x0A \<notin> set l" "l \<noteq> ''---''"
proof -
  obtain k v where l: "l = line_of (k, v)" "plain_line (k, v)" using assms by (auto simp: list_all_iff)
  then show "CHR 0x0A \<notin> set l" by (auto simp: line_of_def plain_line_def clean_text_def)
  have "CHR '':'' \<in> set l" using l(1) by (simp add: line_of_def)
  then show "l \<noteq> ''---''" by auto
qed

lemma split_unit_file:
  assumes "list_all (\<lambda>l. CHR 0x0A \<notin> set l \<and> l \<noteq> ''---'') fm" "fm \<noteq> []"
  shows "Split CHR 0x0A (unit_file fm body) = ''---'' # fm @ ''---'' # Split CHR 0x0A (body @ newline)"
proof -
  have "unit_file fm body = ''---'' @ CHR 0x0A # (Join [CHR 0x0A] fm @ CHR 0x0A # (''---'' @ CHR 0x0A # (body @ newline)))"
    by (simp add: unit_file_def newline_def)
  moreover have "Split CHR 0x0A (Join [CHR 0x0A] fm @ CHR 0x0A # rest) = fm @ Split CHR 0x0A rest" for rest
    using assms by (intro Split_lines) (auto simp: list_all_iff)
  ultimately show ?thesis by (simp only: Split_append) (simp add: Split_append [of _ "''---''", simplified])
qed

text \<open>The unit that \<open>Parse\<close> returns, before \<open>Ingest\<close> sets its path and digest.\<close>

definition parsed_of :: "'a Unit_scheme \<Rightarrow> FileUnit" where
  "parsed_of u = \<lparr>unObjectID = unObjectID u, unAddress = unAddress u, unPathHint = unPathHint u, unSchemaRef = unSchemaRef u,
     unValueSource = unValueSource u, unProvenance = unProvenance u, unValue = unValue u, unDigest = [], fuPath = [],
     fuDeclarationErr = None\<rparr>"

lemma parse_split_file:
  assumes "list_all (\<lambda>l. CHR 0x0A \<notin> set l \<and> l \<noteq> ''---'') fm" "fm \<noteq> []"
  shows "Unit_Parse lib (unit_file fm body) =
    parsed_unit lib (foldl (\<lambda>s line. parse_line lib line s) \<lparr>psObj = [], psProvenance = None, psValueSource = None\<rparr> fm)
      (Split CHR 0x0A (body @ newline))"
proof -
  have "\<And>l. l \<in> set fm \<Longrightarrow> l \<noteq> ''---''" using assms(1) by (auto simp: list_all_iff)
  then have "takeWhile (\<lambda>l. l \<noteq> ''---'') (fm @ ''---'' # rest) = fm" "dropWhile (\<lambda>l. l \<noteq> ''---'') (fm @ ''---'' # rest) = ''---'' # rest"
    for rest by (simp_all add: takeWhile_append2 dropWhile_append2)
  then show ?thesis unfolding Unit_Parse_def Let_def split_unit_file [OF assms] by simp
qed

lemma unit_text_parses:
  assumes u: "storable lib u"
  shows "\<exists>printed. unit_text lib u = Inr printed \<and> Unit_Parse lib printed = Some (parsed_of u)"
proof -
  let ?a = "unAddress u"
  obtain markdown body where printed: "unit_text lib u = Inr (unit_file (map line_of (regular ?a markdown (unPathHint u) (unSchemaRef u)) @
       extra_lines lib (unValueSource u) (unProvenance u)) body)"
    and body: "TrimSpace body = body" "body \<noteq> []" "parse_body lib (unSchemaRef u) body = unValue u"
    and md: "markdown \<Longrightarrow> adKind ?a = KindAspect"
    using unit_text_shape [OF u] by blast
  let ?reg = "regular ?a markdown (unPathHint u) (unSchemaRef u)" and ?ex = "extra_lines lib (unValueSource u) (unProvenance u)"
  have f: "unObjectID u = adObject ?a" "adObject ?a \<noteq> []"
    "list_all clean_text [adObject ?a, adAspect ?a, adMember ?a, adKind ?a, unPathHint u, unSchemaRef u]"
    "InferAddress (adObject ?a) (adAspect ?a) (adMember ?a) (if adKind ?a = KindEntity then [] else adKind ?a) = ?a"
    "source_storable lib (unValueSource u)" "provenance_storable lib (unProvenance u)"
    using u by (simp_all add: storable_def Let_def)
  have plain: "list_all plain_line ?reg" by (rule regular_plain [OF f(3)])
  have clean: "list_all (\<lambda>l. CHR 0x0A \<notin> set l \<and> l \<noteq> ''---'') (map line_of ?reg @ ?ex)"
    using header_clean [OF plain] extra_lines_clean [OF f(5,6)] unfolding list_all_iff by auto
  have ne: "map line_of ?reg @ ?ex \<noteq> []" by (simp add: regular_def)
  let ?init = "\<lparr>psObj = [], psProvenance = None, psValueSource = None\<rparr>"
  let ?s = "\<lparr>psObj = ?reg, psProvenance = unProvenance u, psValueSource = unValueSource u\<rparr>"
  have "update_all ?reg [] = ?reg" using update_all_fresh [of "[]" ?reg] regular_distinct by simp
  then have fold: "foldl (\<lambda>s line. parse_line lib line s) ?init (map line_of ?reg @ ?ex) = ?s"
    unfolding foldl_append parse_plain_lines [OF plain] using parse_extra_lines [OF f(5,6), of "?init\<lparr>psObj := ?reg\<rparr>"] by simp
  have rest: "TrimSpace (Join newline (Split CHR 0x0A (body @ newline))) = body"
    using TrimSpace_newline [OF body(1,2)] by (simp add: newline_def)
  have fields: "first_field ?s ''object_id'' ''entity'' = adObject ?a" "first_field ?s ''aspect_name'' ''aspect'' = adAspect ?a"
    "obj_field ?s ''member_key'' = adMember ?a" "obj_field ?s ''kind'' = (if markdown \<or> adKind ?a = KindEntity then [] else adKind ?a)"
    "obj_field ?s ''path_hint'' = unPathHint u" "obj_field ?s ''schema_ref'' = unSchemaRef u"
    "obj_field ?s ''origin'' = []" "obj_field ?s ''value_source_error'' = []"
    by (rule regular_fields [OF _ f(2)], simp)+
  have kind: "InferAddress (adObject ?a) (adAspect ?a) (adMember ?a) (if markdown \<or> adKind ?a = KindEntity then [] else adKind ?a) = ?a"
    using f(4) md by (cases markdown) (auto simp: InferAddress_def address_kinds split: if_splits)
  have parsed: "parsed_unit lib ?s (Split CHR 0x0A (body @ newline)) = Some (parsed_of u)"
    unfolding parsed_unit_def Let_def fields rest kind using f(1,2) body(3) by (simp add: attach_origin_def parsed_of_def)
  have "Unit_Parse lib (unit_file (map line_of ?reg @ ?ex) body) = Some (parsed_of u)"
    unfolding parse_split_file [OF clean ne] fold by (rule parsed)
  with printed show ?thesis by (intro exI conjI)
qed

end
