(* ===== verification/RepoRefine.thy ===== *)
theory RepoRefine
  imports RepoTree
begin

text \<open>
  The file-backed repository (\<open>src/internal/repofile\<close>) against the native one
  (\<open>src/knowledge/internal/unitcodecimpl\<close>): what the operations of a change set do to the units of a
  file tree is what they do to a map of units, up to the path hints.  The exceptions are stated as
  lemmas: the removal of an object of three or more units, and the paths of files.
\<close>

section \<open>The units without their files\<close>

definition no_hint :: "Unit \<Rightarrow> Unit" where
  "no_hint u = u\<lparr>unPathHint := []\<rparr>"

definition core :: "FileUnit \<Rightarrow> Unit" where
  "core u = no_hint (Unit.truncate u)"

lemma core_simps [simp]:
  "unAddress (no_hint v) = unAddress v" "unObjectID (no_hint v) = unObjectID v" "unValue (no_hint v) = unValue v"
  "unDigest (no_hint v) = unDigest v" "unSchemaRef (no_hint v) = unSchemaRef v"
  "unValueSource (no_hint v) = unValueSource v" "unProvenance (no_hint v) = unProvenance v"
  "unAddress (core u) = unAddress u" "unObjectID (core u) = unObjectID u" "unValue (core u) = unValue u"
  "unDigest (core u) = unDigest u" "unSchemaRef (core u) = unSchemaRef u"
  "unValueSource (core u) = unValueSource u" "unProvenance (core u) = unProvenance u"
  by (simp_all add: core_def no_hint_def Unit.defs)

lemma key_core [simp]: "unit_key (core u) = unit_key u" "unit_key (no_hint v) = unit_key v"
  "unit_ok (core u) = unit_ok u" "unit_ok (no_hint v) = unit_ok v"
  by (simp_all add: unit_key_def unit_ok_def)

definition file_map :: "UnitTree \<Rightarrow> string \<Rightarrow> Unit option" where
  "file_map idx k = map_option core (map_of (utUnits idx) k)"

definition native_map :: "unit_map \<Rightarrow> string \<Rightarrow> Unit option" where
  "native_map m k = map_option no_hint (map_of m k)"

definition codec_ok :: "unit_map \<Rightarrow> bool" where
  "codec_ok m = (distinct (map fst m) \<and> list_all (\<lambda>(k, u). k = unit_key u \<and> unit_ok u) m)"

definition same_units :: "UnitTree \<Rightarrow> unit_map \<Rightarrow> bool" where
  "same_units idx m = (tree_ok idx \<and> codec_ok m \<and> file_map idx = native_map m)"

lemma codec_okD: "codec_ok m \<Longrightarrow> map_of m k = Some u \<Longrightarrow> k = unit_key u \<and> unit_ok u"
  by (auto simp: codec_ok_def list_all_iff dest!: map_of_SomeD)

lemma file_map_mem:
  assumes "tree_ok idx"
  shows "x \<in> core ` set (ObjectUnits idx k) \<longleftrightarrow> file_map idx (unit_key x) = Some x \<and> unObjectID x = k"
proof
  assume "x \<in> core ` set (ObjectUnits idx k)"
  then obtain u where "x = core u" "map_of (utUnits idx) (unit_key u) = Some u" "unObjectID u = k"
    unfolding tree_okD(3) [OF assms] by blast
  then show "file_map idx (unit_key x) = Some x \<and> unObjectID x = k" by (simp add: file_map_def)
next
  assume x: "file_map idx (unit_key x) = Some x \<and> unObjectID x = k"
  then obtain u where u: "map_of (utUnits idx) (unit_key x) = Some u" "x = core u" by (auto simp: file_map_def)
  then have "u \<in> set (ObjectUnits idx k)" unfolding tree_okD(3) [OF assms] using x by simp
  then show "x \<in> core ` set (ObjectUnits idx k)" using u(2) by blast
qed

lemma native_map_mem:
  assumes "codec_ok m"
  shows "x \<in> no_hint ` set (siblings_of m k) \<longleftrightarrow> native_map m (unit_key x) = Some x \<and> unObjectID x = k"
proof -
  have mem: "u \<in> set (map snd m) \<longleftrightarrow> map_of m (unit_key u) = Some u" for u
  proof
    assume "u \<in> set (map snd m)"
    then obtain l where l: "(l, u) \<in> set m" by auto
    then have "l = unit_key u" using assms by (auto simp: codec_ok_def list_all_iff)
    then show "map_of m (unit_key u) = Some u" using assms l by (simp add: codec_ok_def)
  next
    assume "map_of m (unit_key u) = Some u"
    then have "(unit_key u, u) \<in> set m" by (rule map_of_SomeD)
    then show "u \<in> set (map snd m)" by force
  qed
  have "x \<in> no_hint ` set (siblings_of m k) \<longleftrightarrow>
      (\<exists>u. map_of m (unit_key u) = Some u \<and> unObjectID u = k \<and> x = no_hint u)"
    unfolding siblings_of_def set_filter mem by blast
  also have "\<dots> \<longleftrightarrow> native_map m (unit_key x) = Some x \<and> unObjectID x = k"
  proof
    assume "\<exists>u. map_of m (unit_key u) = Some u \<and> unObjectID u = k \<and> x = no_hint u"
    then show "native_map m (unit_key x) = Some x \<and> unObjectID x = k" by (auto simp: native_map_def)
  next
    assume x: "native_map m (unit_key x) = Some x \<and> unObjectID x = k"
    then obtain u where "map_of m (unit_key x) = Some u" "x = no_hint u" by (auto simp: native_map_def)
    then show "\<exists>u. map_of m (unit_key u) = Some u \<and> unObjectID u = k \<and> x = no_hint u" using x by auto
  qed
  finally show ?thesis .
qed

lemma distinct_siblings:
  assumes "codec_ok m"
  shows "distinct (map unit_key (siblings_of m k))"
proof -
  have "map unit_key (map snd m) = map fst m"
    using assms unfolding codec_ok_def list_all_iff by (auto intro!: map_cong)
  then have "distinct (map unit_key (map snd m))" using assms by (simp only: codec_ok_def)
  then show ?thesis unfolding siblings_of_def by (rule distinct_map_filter)
qed

lemma same_siblings:
  assumes "same_units idx m"
  shows "mset (map core (ObjectUnits idx k)) = mset (map no_hint (siblings_of m k))"
proof -
  have ok: "tree_ok idx" "codec_ok m" and eq: "file_map idx = native_map m" using assms by (simp_all add: same_units_def)
  have "distinct (map unit_key (map core (ObjectUnits idx k)))" "distinct (map unit_key (map no_hint (siblings_of m k)))"
    using tree_okD(2) [OF ok(1), of k] distinct_siblings [OF ok(2), of k] by (simp_all add: comp_def)
  then have "distinct (map core (ObjectUnits idx k))" "distinct (map no_hint (siblings_of m k))"
    by (simp_all only: distinct_map)
  moreover have "set (map core (ObjectUnits idx k)) = set (map no_hint (siblings_of m k))"
    using file_map_mem [OF ok(1)] native_map_mem [OF ok(2)] unfolding eq set_map by blast
  ultimately show ?thesis using set_eq_iff_mset_eq_distinct by blast
qed

lemma same_siblings_set:
  "same_units idx m \<Longrightarrow> core ` set (ObjectUnits idx k) = no_hint ` set (siblings_of m k)"
  using mset_eq_setD [OF same_siblings] by simp

lemma same_siblings_length:
  "same_units idx m \<Longrightarrow> length (ObjectUnits idx k) = length (siblings_of m k)"
  using mset_eq_length [OF same_siblings] by simp

section \<open>Assembled values agree\<close>

lemma collect_parts_map:
  "(\<And>u. unAddress (f u) = unAddress u \<and> unValue (f u) = unValue u) \<Longrightarrow> collect_parts (map f us) r m = collect_parts us r m"
  by (induction us r m rule: collect_parts.induct) (simp_all add: Let_def)

lemma Assemble_map:
  assumes "\<And>u. unAddress (f u) = unAddress u \<and> unValue (f u) = unValue u"
  shows "Assemble (map f us) = Assemble us"
proof -
  have fl: "filter (\<lambda>u. P (unAddress u)) (map f us) = map f (filter (\<lambda>u. P (unAddress u)) us)" for P
    using assms by (simp add: filter_map comp_def)
  have h: "unValue (hd (map f bs)) = unValue (hd bs)" if "length bs = 1" for bs
    using that assms by (cases bs) simp_all
  show ?thesis
    unfolding Assemble_def Let_def fl [of IsEntityBlob] fl [of "\<lambda>a. \<not> IsEntityBlob a"] length_map collect_parts_map [OF assms]
    using h by (simp only: cong: if_cong)
qed

lemma distinct_parts:
  assumes "distinct (map unit_key us)" "\<And>u. u \<in> set us \<Longrightarrow> unObjectID u = k \<and> unit_ok u"
  shows "distinct (map part_name us)"
proof -
  let ?g = "\<lambda>(a, b). k @ unit_sep @ a @ unit_sep @ b"
  have "map unit_key us = map ?g (map part_name us)"
    using assms(2) by (auto simp: unit_key_def AddressKey_def part_name_def unit_ok_def dest!: assms(2))
  then have "distinct (map ?g (map part_name us))" using assms(1) by metis
  then show ?thesis by (simp only: distinct_map)
qed

lemma same_assembled:
  assumes "same_units idx m"
  shows "map_sum id stableStringify (repo_Assemble (ObjectUnits idx k)) = map_sum id stableStringify (Assemble (siblings_of m k))"
proof -
  have ok: "tree_ok idx" using assms by (simp add: same_units_def)
  have "Assemble (map core (ObjectUnits idx k)) = Assemble (map Unit.truncate (ObjectUnits idx k))"
    unfolding core_def [abs_def] using Assemble_map [of no_hint "map Unit.truncate (ObjectUnits idx k)"] by (simp add: comp_def)
  then have f: "repo_Assemble (ObjectUnits idx k) = Assemble (map core (ObjectUnits idx k))" by (simp only: repo_Assemble_def)
  have n: "Assemble (map no_hint (siblings_of m k)) = Assemble (siblings_of m k)" by (rule Assemble_map) simp
  have "distinct (map part_name (map core (ObjectUnits idx k)))"
  proof (rule distinct_parts)
    show "distinct (map unit_key (map core (ObjectUnits idx k)))" using tree_okD(2) [OF ok, of k] by (simp add: comp_def)
    show "unObjectID u = k \<and> unit_ok u" if "u \<in> set (map core (ObjectUnits idx k))" for u
      using that tree_okD(1,3) [OF ok] by auto
  qed
  then show ?thesis unfolding f n [symmetric] by (rule Assemble_order [OF same_siblings [OF assms]])
qed

section \<open>One operation\<close>

lemma same_stored:
  assumes "same_units idx m"
  shows "map_option core (map_of (utUnits idx) k) = map_option no_hint (map_of m k)"
proof -
  have "file_map idx k = native_map m k" using assms by (simp only: same_units_def)
  then show ?thesis by (simp only: file_map_def native_map_def)
qed

lemma same_stored_digest:
  assumes "same_units idx m"
  shows "map_option unDigest (map_of (utUnits idx) k) = map_option unDigest (map_of m k)"
    "map_of (utUnits idx) k = None \<longleftrightarrow> map_of m k = None"
  using same_stored [OF assms, of k] by (cases "map_of (utUnits idx) k"; cases "map_of m k"; force dest: arg_cong [of _ _ unDigest])+

lemma layout_agrees:
  assumes "same_units idx m" "AssertLayout (ObjectUnits idx k) a = Inr ()"
  shows "assertLayout (siblings_of m k) a = Inr ()"
proof (cases "length (siblings_of m k) = 0")
  case True
  then show ?thesis by (simp add: assertLayout_def)
next
  case False
  have addresses: "unAddress ` set (ObjectUnits idx k) = unAddress ` set (siblings_of m k)"
    using arg_cong [OF same_siblings_set [OF assms(1), of k], of "image unAddress"] by (simp add: image_image)
  have ex: "list_ex (\<lambda>u. P (unAddress u)) us \<longleftrightarrow> (\<exists>a \<in> unAddress ` set us. P a)" for P and us :: "'a Unit_scheme list"
    by (auto simp: list_ex_iff)
  have "assertLayout (siblings_of m k) a = assertLayout (ObjectUnits idx k) a"
    unfolding assertLayout_def ex [of IsEntityBlob] ex [of "\<lambda>a. \<not> IsEntityBlob a"] addresses ..
  then show ?thesis
    using assms(2) False same_siblings_length [OF assms(1), of k] by (simp add: AssertLayout_def)
qed

lemma put_precondition_digest:
  "put_precondition p u = put_precondition p v" if "map_option unDigest u = map_option unDigest v"
proof -
  have "u \<noteq> None \<longleftrightarrow> v \<noteq> None" using that by (cases u; cases v; simp)
  then show ?thesis using that by (cases p) (simp_all add: put_precondition_def)
qed

lemma put_units_agree:
  assumes "map_option core u = map_option no_hint v"
  shows "core (put_file_unit sha prov op u path) = no_hint (put_unit sha prov op v)"
proof (cases u)
  case None
  then show ?thesis
    using assms by (cases "opValueSource op"; cases prov)
      (simp_all add: core_def no_hint_def put_file_unit_def put_unit_def put_schema_def put_source_def Unit.defs)
next
  case (Some x)
  then obtain y where v: "v = Some y" and xy: "core x = no_hint y" using assms by (cases v) auto
  have "unSchemaRef x = unSchemaRef y" "unValueSource x = unValueSource y" "unProvenance x = unProvenance y"
    using arg_cong [OF xy, of unSchemaRef] arg_cong [OF xy, of unValueSource] arg_cong [OF xy, of unProvenance] by simp_all
  then show ?thesis
    unfolding Some v
    by (cases "opValueSource op"; cases prov)
      (simp_all add: core_def no_hint_def put_file_unit_def put_unit_def put_schema_def put_source_def Unit.defs)
qed

lemma codec_ok_update: "codec_ok m \<Longrightarrow> unit_ok u \<Longrightarrow> codec_ok (AList.update (unit_key u) u m)"
proof -
  assume m: "codec_ok m" and u: "unit_ok u"
  have "list_all (\<lambda>(k, u). k = unit_key u \<and> unit_ok u) (AList.update (unit_key u) u m)"
    using m u unfolding codec_ok_def by (induction m) auto
  then show ?thesis using m by (simp add: codec_ok_def distinct_update)
qed

lemma put_refines:
  assumes same: "same_units (apTree s) m" and put: "applyPut sha lib op prov s = Inr s'" and key: "key_safe (opAddress op)"
  shows "\<exists>m'. codec_put sha prov op (m, del) = Inr (m', del) \<and> same_units (apTree s') m'"
proof -
  let ?a = "opAddress op" and ?idx = "apTree s"
  let ?k = "AddressKey ?a"
  let ?old = "map_of (utUnits ?idx) ?k" and ?cur = "map_of m ?k"
  obtain path where layout: "AssertLayout (ObjectUnits ?idx (adObject ?a)) ?a = Inr ()"
    and pre: "put_precondition (opPrecondition op) ?old = Inr ()"
    and s': "apTree s' = Upsert (put_file_unit sha prov op ?old path) ?idx"
    using put by (auto simp: applyPut_def Let_def rbind_Inr_iff split: if_splits)
  let ?u = "put_file_unit sha prov op ?old path" and ?v = "put_unit sha prov op ?cur"
  have pre': "put_precondition (opPrecondition op) ?cur = Inr ()"
    using pre put_precondition_digest [OF same_stored_digest(1) [OF same], of "opPrecondition op" ?k] by metis
  have codec: "codec_put sha prov op (m, del) = Inr (AList.update ?k ?v m, del)"
    using layout_agrees [OF same layout] pre' by (simp add: codec_put_def Let_def)
  have keys: "unit_key ?u = ?k" "unit_key ?v = ?k" "unit_ok ?u" "unit_ok ?v"
    using key by (simp_all add: unit_key_def unit_ok_def put_file_unit_def put_unit_def)
  have uv: "core ?u = no_hint ?v" by (rule put_units_agree [OF same_stored [OF same]])
  have ok: "tree_ok ?idx" "codec_ok m" "file_map ?idx = native_map m" using same by (simp_all add: same_units_def)
  have "file_map (apTree s') = native_map (AList.update ?k ?v m)"
    unfolding s' using ok(3) uv keys(1) by (auto simp: fun_eq_iff file_map_def native_map_def Upsert_units map_simps)
  then have "same_units (apTree s') (AList.update ?k ?v m)"
    using tree_ok_Upsert [OF ok(1) keys(3)] codec_ok_update [OF ok(2) keys(4)] unfolding same_units_def s' keys(2) by blast
  then show ?thesis using codec by blast
qed

lemma codec_ok_subset:
  "codec_ok m \<Longrightarrow> distinct (map fst m') \<Longrightarrow> set m' \<subseteq> set m \<Longrightarrow> codec_ok m'"
  by (auto simp: codec_ok_def list_all_iff)

lemma remove_unit_refines:
  assumes same: "same_units (apTree s) m" and rm: "applyRemove sha op s = Inr s'" and key: "key_safe (opAddress op)"
    and part: "\<not> IsEntityBlob (opAddress op)"
    and pre: "expects_digest (opPrecondition op) \<or> precondition_digest (opPrecondition op) = []"
  shows "\<exists>m' del'. codec_remove sha op (m, del) = Inr (m', del') \<and> same_units (apTree s') m'"
proof -
  let ?k = "AddressKey (opAddress op)" and ?d = "precondition_digest (opPrecondition op)"
  obtain u where u: "map_of (utUnits (apTree s)) ?k = Some u"
    and d: "expects_digest (opPrecondition op) \<longrightarrow> ?d = unDigest u"
    and s': "apTree s' = Remove (opAddress op) (apTree s)"
    using rm part by (auto simp: applyRemove_def Let_def drop_path_def split: option.splits if_splits)
  obtain v where v: "map_of m ?k = Some v" "unDigest v = unDigest u"
    using same_stored_digest(1) [OF same, of ?k] u by (cases "map_of m ?k") auto
  have "\<not> (?d \<noteq> [] \<and> ?d \<noteq> unDigest v)" using pre d v(2) by auto
  then have codec: "codec_remove sha op (m, del) = Inr (AList.delete ?k m, del @ [unAddress v])"
    using part v(1) by (simp add: codec_remove_def Let_def)
  have ok: "tree_ok (apTree s)" "codec_ok m" "file_map (apTree s) = native_map m" using same by (simp_all add: same_units_def)
  have "file_map (apTree s') = native_map (AList.delete ?k m)"
    unfolding s' using ok(3) by (auto simp: fun_eq_iff file_map_def native_map_def Remove_units map_simps)
  moreover have "codec_ok (AList.delete ?k m)"
    using ok(2) by (rule codec_ok_subset) (use ok(2) in \<open>auto simp: codec_ok_def AList.delete_eq distinct_map_filter\<close>)
  ultimately have "same_units (apTree s') (AList.delete ?k m)"
    using tree_ok_Remove [OF ok(1) key] unfolding same_units_def s' by blast
  then show ?thesis using codec by blast
qed

text \<open>The loop over an object of at most two units removes both; its slice stays intact that long.\<close>

definition remove_all :: "FileUnit list \<Rightarrow> UnitTree \<Rightarrow> UnitTree" where
  "remove_all us idx = foldl (\<lambda>idx u. Remove (unAddress u) idx) idx us"

lemma remove_loop_small:
  assumes ok: "tree_ok (apTree s)" and us: "ObjectUnits (apTree s) k = us" and len: "length us \<le> 2"
  shows "apTree (remove_loop (length us) 0 us s) = remove_all us (apTree s)"
proof -
  consider "us = []" | u where "us = [u]" | u v where "us = [u, v]"
    using len by (cases us; cases "tl us"; cases "tl (tl us)") auto
  then show ?thesis
  proof cases
    case (2 u)
    then show ?thesis by (simp add: remove_all_def Let_def drop_path_def)
  next
    case (3 u v)
    have "map_of (utUnits (apTree s)) (unit_key u) = Some u" "unObjectID u = k"
      using tree_okD(3) [OF ok, of k] us 3 by auto
    moreover have "adObject (unAddress u) = unObjectID u"
      using tree_okD(1) [OF ok] calculation(1) by (auto simp: unit_ok_def)
    moreover have "unit_key v \<noteq> unit_key u" using tree_okD(2) [OF ok, of k] us 3 by auto
    ultimately show ?thesis
      using us 3 by (simp add: remove_all_def Let_def drop_path_def others_def numeral_2_eq_2)
  qed (simp add: remove_all_def)
qed

lemma remove_all_units:
  "map_of (utUnits (remove_all us idx)) k = (if k \<in> unit_key ` set us then None else map_of (utUnits idx) k)"
  unfolding remove_all_def by (induction us arbitrary: idx) (auto simp: Remove_units unit_key_def)

lemma tree_ok_remove_all:
  "tree_ok idx \<Longrightarrow> list_all unit_ok us \<Longrightarrow> tree_ok (remove_all us idx)"
  unfolding remove_all_def by (induction us arbitrary: idx) (auto simp: unit_ok_def intro: tree_ok_Remove)

lemma map_of_filter:
  "distinct (map fst m) \<Longrightarrow> map_of (filter P m) k =
    (case map_of m k of Some v \<Rightarrow> if P (k, v) then Some v else None | None \<Rightarrow> None)"
  by (induction m) (auto split: option.splits simp: map_of_eq_None_iff rev_image_eqI dest: map_of_SomeD)

lemma remove_object_refines:
  assumes same: "same_units (apTree s) m" and rm: "applyRemove sha op s = Inr s'"
    and blob: "IsEntityBlob (opAddress op)" and small: "length (ObjectUnits (apTree s) (adObject (opAddress op))) \<le> 2"
    and pre: "expects_digest (opPrecondition op) \<or> precondition_digest (opPrecondition op) = []"
  shows "\<exists>m' del'. codec_remove sha op (m, del) = Inr (m', del') \<and> same_units (apTree s') m'"
proof -
  let ?o = "adObject (opAddress op)" and ?d = "precondition_digest (opPrecondition op)"
  let ?us = "ObjectUnits (apTree s) ?o" and ?sib = "siblings_of m ?o"
  have ok: "tree_ok (apTree s)" "codec_ok m" "file_map (apTree s) = native_map m" using same by (simp_all add: same_units_def)
  have ne: "length ?us \<noteq> 0" and s': "s' = remove_loop (length ?us) 0 ?us s"
    and dig: "?d \<noteq> [] \<Longrightarrow> \<exists>a. repo_Assemble ?us = Inr a \<and> CanonicalDigest sha a = ?d"
    using rm blob pre by (auto simp: applyRemove_def remove_object_def Let_def rbind_Inr_iff split: if_splits)
  have dig': "\<exists>a. Assemble ?sib = Inr a \<and> CanonicalDigest sha a = ?d" if "?d \<noteq> []"
  proof -
    obtain a where a: "repo_Assemble ?us = Inr a" "CanonicalDigest sha a = ?d" using dig [OF \<open>?d \<noteq> []\<close>] by blast
    then obtain b where "Assemble ?sib = Inr b" "stableStringify b = stableStringify a"
      using same_assembled [OF same, of ?o] by (cases "Assemble ?sib") auto
    then show ?thesis using a(2) by (simp add: CanonicalDigest_def)
  qed
  let ?m' = "filter (\<lambda>(key, u). unObjectID u \<noteq> ?o) m"
  have codec: "codec_remove sha op (m, del) = Inr (?m', del @ map unAddress ?sib)"
    using blob ne dig' same_siblings_length [OF same, of ?o] by (auto simp: codec_remove_def Let_def)
  have tree: "apTree s' = remove_all ?us (apTree s)" unfolding s' by (rule remove_loop_small [OF ok(1) refl small])
  have uok: "list_all unit_ok ?us" using tree_okD(1,3) [OF ok(1)] by (auto simp: list_all_iff)
  have "file_map (apTree s') k = native_map ?m' k" for k
  proof -
    have eq: "file_map (apTree s) k = native_map m k" using ok(3) by simp
    have member: "k \<in> unit_key ` set ?us \<longleftrightarrow> (\<exists>x. file_map (apTree s) k = Some x \<and> unObjectID x = ?o)"
    proof -
      have "k \<in> unit_key ` set ?us \<longleftrightarrow> (\<exists>u. map_of (utUnits (apTree s)) k = Some u \<and> unObjectID u = ?o)"
        unfolding tree_okD(3) [OF ok(1)] using tree_okD(1) [OF ok(1), of k] by auto
      then show ?thesis by (auto simp: file_map_def)
    qed
    have "native_map ?m' k = (case native_map m k of Some x \<Rightarrow> if unObjectID x \<noteq> ?o then Some x else None | None \<Rightarrow> None)"
      using ok(2) by (auto simp: native_map_def codec_ok_def map_of_filter split: option.split)
    then show ?thesis
      using member eq unfolding tree file_map_def [of "remove_all _ _"] remove_all_units
      by (cases "file_map (apTree s) k") (auto simp: file_map_def)
  qed
  then have fm: "file_map (apTree s') = native_map ?m'" by blast
  have "codec_ok ?m'"
    using ok(2) by (rule codec_ok_subset) (use ok(2) in \<open>auto simp: codec_ok_def distinct_map_filter\<close>)
  then have "same_units (apTree s') ?m'"
    using tree_ok_remove_all [OF ok(1) uok] fm unfolding same_units_def tree by blast
  then show ?thesis using codec by blast
qed

section \<open>A change set\<close>

text \<open>The operations that both codecs read alike: known operations on keys without separator bytes, and removals
  whose precondition is a digest to compare.\<close>

definition same_meaning :: "Operation \<Rightarrow> bool" where
  "same_meaning op =
    (opOp op \<in> {OpPut, OpRemove} \<and> key_safe (opAddress op) \<and>
     (opOp op = OpRemove \<longrightarrow> expects_digest (opPrecondition op) \<or> precondition_digest (opPrecondition op) = []))"

text \<open>Whole objects are removed only while they hold at most two units.\<close>

fun small_removals :: "(string \<Rightarrow> string) \<Rightarrow> codec_lib \<Rightarrow> Operation list \<Rightarrow> ProvenanceEnvelope option \<Rightarrow> apply_state \<Rightarrow> bool" where
  "small_removals sha lib [] prov s = True"
| "small_removals sha lib (op # ops) prov s =
    ((opOp op = OpRemove \<and> IsEntityBlob (opAddress op) \<longrightarrow> length (ObjectUnits (apTree s) (adObject (opAddress op))) \<le> 2) \<and>
     (case repo_Apply sha lib op prov s of Inl _ \<Rightarrow> True | Inr s' \<Rightarrow> small_removals sha lib ops prov s'))"

lemma operation_refines:
  assumes same: "same_units (apTree s) m" and op: "same_meaning op"
    and small: "opOp op = OpRemove \<Longrightarrow> IsEntityBlob (opAddress op) \<Longrightarrow>
      length (ObjectUnits (apTree s) (adObject (opAddress op))) \<le> 2"
    and step: "repo_Apply sha lib op prov s = Inr s'"
  shows "\<exists>m' del'. codec_step sha prov op (m, del) = Inr (m', del') \<and> same_units (apTree s') m'"
proof -
  have w: "AssertWritable (opAddress op) = Inr ()" using step by (auto simp: repo_Apply_def rbind_Inr_iff)
  have key: "key_safe (opAddress op)" using op by (simp add: same_meaning_def)
  consider "opOp op = OpPut" | "opOp op = OpRemove" "IsEntityBlob (opAddress op)" | "opOp op = OpRemove" "\<not> IsEntityBlob (opAddress op)"
    using op by (auto simp: same_meaning_def)
  then show ?thesis
  proof cases
    case 1
    then have "applyPut sha lib op prov s = Inr s'" using step w by (simp add: repo_Apply_def)
    then show ?thesis using put_refines [OF same _ key] 1 w by (fastforce simp: codec_step_def operation_names)
  next
    case 2
    then have rm: "applyRemove sha op s = Inr s'" using step w by (simp add: repo_Apply_def operation_names)
    have pre: "expects_digest (opPrecondition op) \<or> precondition_digest (opPrecondition op) = []"
      using op 2(1) by (simp add: same_meaning_def)
    show ?thesis using remove_object_refines [OF same rm 2(2) small [OF 2] pre] 2(1) w by (simp add: codec_step_def)
  next
    case 3
    then have rm: "applyRemove sha op s = Inr s'" using step w by (simp add: repo_Apply_def operation_names)
    have pre: "expects_digest (opPrecondition op) \<or> precondition_digest (opPrecondition op) = []"
      using op 3(1) by (simp add: same_meaning_def)
    show ?thesis using remove_unit_refines [OF same rm key 3(2) pre] 3(1) w by (simp add: codec_step_def)
  qed
qed

lemma operations_refine:
  assumes "same_units (apTree s) m" "list_all same_meaning ops" "small_removals sha lib ops prov s"
    "repo_apply_all sha lib ops prov s = Inr s'"
  shows "\<exists>m' del'. codec_loop sha prov ops (m, del) = Inr (m', del') \<and> same_units (apTree s') m'"
  using assms
proof (induction ops arbitrary: s m del)
  case Nil
  then show ?case by simp
next
  case (Cons op ops)
  then obtain s1 where s1: "repo_Apply sha lib op prov s = Inr s1" "repo_apply_all sha lib ops prov s1 = Inr s'"
    by (auto simp: rbind_Inr_iff)
  have op: "same_meaning op" and rest: "list_all same_meaning ops" "small_removals sha lib ops prov s1"
    and small: "opOp op = OpRemove \<Longrightarrow> IsEntityBlob (opAddress op) \<Longrightarrow>
      length (ObjectUnits (apTree s) (adObject (opAddress op))) \<le> 2"
    using Cons.prems(2,3) s1(1) by simp_all
  obtain m1 del1 where m1: "codec_step sha prov op (m, del) = Inr (m1, del1)" "same_units (apTree s1) m1"
    using operation_refines [OF Cons.prems(1) op small s1(1)] by blast
  obtain m' del' where "codec_loop sha prov ops (m1, del1) = Inr (m', del')" "same_units (apTree s') m'"
    using Cons.IH [OF m1(2) rest s1(2)] by blast
  then show ?case using m1(1) by simp
qed

text \<open>The units of a tree as the working set of the native codec.\<close>

definition native_units :: "UnitTree \<Rightarrow> Unit list" where
  "native_units idx = map (\<lambda>(k, u). Unit.truncate u) (utUnits idx)"

lemma foldl_update_units:
  assumes "list_all unit_ok us" "codec_ok m"
  shows "codec_ok (foldl (\<lambda>m u. AList.update (unit_key u) u m) m us)"
    "distinct (map unit_key us) \<Longrightarrow> map_of (foldl (\<lambda>m u. AList.update (unit_key u) u m) m us) k =
      (case find (\<lambda>u. unit_key u = k) us of Some u \<Rightarrow> Some u | None \<Rightarrow> map_of m k)"
  using assms
proof (induction us arbitrary: m)
  case (Cons u us)
  { case 1 then show ?case using Cons(1) by (simp add: codec_ok_update)
  next
    case 2
    then have "find (\<lambda>v. unit_key v = unit_key u) us = None" by (force simp: find_None_iff image_iff)
    then show ?case using Cons(2) 2 by (auto simp: codec_ok_update map_simps split: option.split) }
qed simp_all

lemma truncate_key [simp]: "unit_key (Unit.truncate u) = unit_key u" "unit_ok (Unit.truncate u) = unit_ok u"
  by (simp_all add: unit_key_def unit_ok_def Unit.defs)

lemma native_units_same:
  assumes ok: "tree_ok idx" and d: "distinct (map fst (utUnits idx))"
  shows "same_units idx (foldl (\<lambda>m u. AList.update (unit_key u) u m) [] (native_units idx))"
proof -
  have key: "k = unit_key u \<and> unit_ok u" if "(k, u) \<in> set (utUnits idx)" for k u
    using tree_okD(1) [OF ok, of k u] d that by simp
  have uok: "list_all unit_ok (native_units idx)" using key by (auto simp: native_units_def list_all_iff)
  have "map unit_key (native_units idx) = map fst (utUnits idx)" using key by (auto simp: native_units_def)
  then have dk: "distinct (map unit_key (native_units idx))" using d by metis
  have find: "find (\<lambda>u. unit_key u = k) (map (\<lambda>(k, u). Unit.truncate u) us) = map_option Unit.truncate (map_of us k)"
    if "set us \<subseteq> set (utUnits idx)" for us k
    using that key by (induction us) force+
  have "file_map idx k = native_map (foldl (\<lambda>m u. AList.update (unit_key u) u m) [] (native_units idx)) k" for k
    unfolding native_map_def foldl_update_units(2) [OF uok _ dk, of "[]" k, simplified codec_ok_def, simplified] file_map_def
    by (simp add: native_units_def find core_def [abs_def] option.map_comp comp_def split: option.split)
  then show ?thesis
    using ok foldl_update_units(1) [OF uok, of "[]"] by (auto simp: same_units_def codec_ok_def)
qed

text \<open>The files of a repository and a native repository: see the property below for what \<open>final\<close> is.\<close>

lemma ran_of_units:
  assumes "codec_ok m"
  shows "ran (native_map m) = no_hint ` set (map snd m)"
proof -
  have "snd ` set m = ran (map_of m)" using assms by (simp add: codec_ok_def ran_distinct)
  then show ?thesis by (auto simp: native_map_def ran_def)
qed


section \<open>Concrete trees\<close>

definition demo_codec_lib :: codec_lib where
  "demo_codec_lib = \<lparr>clSchema = demo_schema_lib, clIndent = stableStringify, clJson = \<lambda>_. None, clYaml = \<lambda>_. None,
     clSource = \<lambda>_. [], clParseSource = \<lambda>_. None, clProvenance = \<lambda>_. [], clParseProvenance = \<lambda>_. None\<rparr>"

definition aspect_at :: "string \<Rightarrow> string \<Rightarrow> Address" where
  "aspect_at objectID name = \<lparr>adKind = KindAspect, adObject = objectID, adAspect = name, adMember = []\<rparr>"

definition whole_object :: "string \<Rightarrow> Address" where
  "whole_object objectID = \<lparr>adKind = KindEntity, adObject = objectID, adAspect = [], adMember = []\<rparr>"

definition put_op :: "Address \<Rightarrow> json \<Rightarrow> string \<Rightarrow> Operation" where
  "put_op a v hint = \<lparr>opOp = OpPut, opAddress = a, opValue = v, opPathHint = hint, opSchemaRef = [],
     opValueSource = None, opPrecondition = None, opReason = [], opReplacement = None\<rparr>"

definition remove_op :: "Address \<Rightarrow> Operation" where
  "remove_op a = \<lparr>opOp = OpRemove, opAddress = a, opValue = JNull, opPathHint = [], opSchemaRef = [],
     opValueSource = None, opPrecondition = None, opReason = [], opReplacement = None\<rparr>"

definition empty_state :: apply_state where
  "empty_state = \<lparr>apTree = NewTree, apWrite = [], apDelete = []\<rparr>"

definition demo_ops :: "Operation list" where
  "demo_ops = [put_op (aspect_at ''x'' ''a'') (JBool True) [], put_op (aspect_at ''x'' ''b'') JNull ''b.json'',
     put_op (aspect_at ''y'' ''a'') JNull [], remove_op (whole_object ''x''), put_op (aspect_at ''x'' ''c'') JNull []]"

definition run_ops :: "Operation list \<Rightarrow> apply_state go" where
  "run_ops ops = repo_apply_all (\<lambda>t. t) demo_codec_lib ops None empty_state"

definition tree_keys :: "apply_state go \<Rightarrow> string list" where
  "tree_keys r = (case r of Inl _ \<Rightarrow> [] | Inr s \<Rightarrow> map fst (utUnits (apTree s)))"


text \<open>What the restrictions of the refinement exclude. The removal of an object of three aspects deletes two of them:
  the loop reads the slice that \<open>Remove\<close> filters in place.\<close>

definition three_aspects :: "Operation list" where
  "three_aspects = map (\<lambda>name. put_op (aspect_at ''x'' name) JNull []) [''a'', ''b'', ''c''] @ [remove_op (whole_object ''x'')]"

lemma whole_object_removal_keeps_unit:
  "tree_keys (run_ops three_aspects) = [AddressKey (aspect_at ''x'' ''b'')]"
  "map_sum id fst (codec_Apply (\<lambda>t. t) [] three_aspects None) = Inr []"
  by code_simp+

text \<open>Paths are not checked against each other: a unit written to a path that another unit leaves afterwards keeps
  its entry in the index and loses its file.\<close>

definition moved_away :: "Operation list" where
  "moved_away = [put_op (aspect_at ''x'' ''a'') JNull ''p.json'', put_op (aspect_at ''x'' ''b'') JNull ''p.json'',
     put_op (aspect_at ''x'' ''a'') JNull ''q.json'']"

lemma moved_unit_deletes_other_file:
  "map_sum (\<lambda>_. ()) (\<lambda>s. map (fuPath \<circ> snd) (utUnits (apTree s))) (run_ops moved_away) = Inr [''q.json'', ''p.json'']"
  "map_sum (\<lambda>_. ()) (\<lambda>s. (map fst (apWrite s), apDelete s)) (run_ops moved_away) = Inr ([''q.json''], [''p.json''])"
  by code_simp+

text \<open>A removal that expects an empty digest fails in the file codec and passes in the native one.\<close>

definition empty_digest :: "Operation list" where
  "empty_digest = [put_op (aspect_at ''x'' ''a'') JNull [],
     (remove_op (aspect_at ''x'' ''a''))\<lparr>opPrecondition := Some \<lparr>pcType = IfDigestEquals, pcDigest = []\<rparr>\<rparr>]"

lemma empty_digest_differs:
  "map_sum id (\<lambda>_. ()) (run_ops empty_digest) = fails ErrPreconditionFailed"
  "map_sum id fst (codec_Apply (\<lambda>t. t) [] empty_digest None) = Inr []"
  by code_simp+

end
