(* ===== verification/TreeCommit.thy ===== *)
theory TreeCommit
  imports TreeWriter UnitFiles RepoRefine
begin

text \<open>
  What a knowledge commit leaves in the tree (\<open>src/knowledge/writer/treecodec.go\<close> on the in-memory store): every
  unit of the index stays readable from its file while the operations are applied, the commit writes those
  files and their locators, and a read of a touched object at the new commit returns the units that the native
  codec computes.
\<close>

section \<open>The files after the operations\<close>

definition file_after :: "(string \<Rightarrow> string option) \<Rightarrow> apply_state \<Rightarrow> string \<Rightarrow> string option" where
  "file_after base s path =
    (case map_of (apWrite s) path of
      Some content \<Rightarrow> Some content
    | None \<Rightarrow> if path \<in> set (apDelete s) then None else base path)"

lemma file_after_drop: "file_after base (drop_path p s) q = (if q = p then None else file_after base s q)"
  by (auto simp: file_after_def drop_path_def map_simps)

lemma file_after_write:
  "apWrite s' = AList.update p c (apWrite s) \<Longrightarrow> apDelete s' = apDelete s \<Longrightarrow>
    file_after base s' q = (if q = p then Some c else file_after base s q)"
  by (auto simp: file_after_def map_simps)

lemma file_after_tree [simp]: "file_after base (s\<lparr>apTree := idx\<rparr>) = file_after base s"
  by (simp add: file_after_def fun_eq_iff)

text \<open>A unit is kept when its file parses to it.\<close>

definition in_file :: "codec_lib \<Rightarrow> (string \<Rightarrow> string) \<Rightarrow> string \<Rightarrow> FileUnit \<Rightarrow> bool" where
  "in_file lib sha content u =
    (case Unit_Parse lib content of
      None \<Rightarrow> False
    | Some p \<Rightarrow> fuDeclarationErr p = None \<and> u = p\<lparr>fuPath := fuPath u, unDigest := CanonicalDigest sha (unValue p)\<rparr>)"

definition kept :: "codec_lib \<Rightarrow> (string \<Rightarrow> string) \<Rightarrow> (string \<Rightarrow> string option) \<Rightarrow> UnitTree \<Rightarrow> bool" where
  "kept lib sha f idx =
    (\<forall>k u. map_of (utUnits idx) k = Some u \<longrightarrow>
      KnowledgePath (fuPath u) \<and> (case f (fuPath u) of None \<Rightarrow> False | Some content \<Rightarrow> in_file lib sha content u))"

lemma keptD:
  assumes "kept lib sha f idx" "map_of (utUnits idx) k = Some u"
  shows "KnowledgePath (fuPath u)" "\<exists>content. f (fuPath u) = Some content \<and> in_file lib sha content u"
proof -
  have "KnowledgePath (fuPath u) \<and> (case f (fuPath u) of None \<Rightarrow> False | Some content \<Rightarrow> in_file lib sha content u)"
    using assms unfolding kept_def by blast
  then show "KnowledgePath (fuPath u)" "\<exists>content. f (fuPath u) = Some content \<and> in_file lib sha content u"
    by (auto split: option.splits)
qed

text \<open>Two kept units have two files.\<close>

lemma kept_paths:
  assumes "tree_ok idx" "kept lib sha f idx"
    and "map_of (utUnits idx) k = Some u" "map_of (utUnits idx) l = Some v" "fuPath u = fuPath v"
  shows "k = l"
proof -
  obtain c where c: "f (fuPath u) = Some c" "in_file lib sha c u" using keptD(2) [OF assms(2,3)] by blast
  obtain d where d: "f (fuPath v) = Some d" "in_file lib sha d v" using keptD(2) [OF assms(2,4)] by blast
  have "c = d" using c(1) d(1) assms(5) by simp
  then have "u = v" using c(2) d(2) assms(5) by (auto simp: in_file_def split: option.splits)
  then show ?thesis using tree_okD(1) [OF assms(1)] assms(3,4) by metis
qed

definition no_mix :: "UnitTree \<Rightarrow> bool" where
  "no_mix idx = (\<forall>k u v. u \<in> set (ObjectUnits idx k) \<longrightarrow> v \<in> set (ObjectUnits idx k) \<longrightarrow>
     IsEntityBlob (unAddress u) = IsEntityBlob (unAddress v))"

definition commit_inv :: "codec_lib \<Rightarrow> (string \<Rightarrow> string) \<Rightarrow> (string \<Rightarrow> string option) \<Rightarrow> apply_state \<Rightarrow> bool" where
  "commit_inv lib sha base s =
    (tree_ok (apTree s) \<and> kept lib sha (file_after base s) (apTree s) \<and> no_mix (apTree s))"

section \<open>The operations keep the units readable\<close>

text \<open>The removal of one unit with its file.\<close>

definition remove_unit :: "FileUnit \<Rightarrow> apply_state \<Rightarrow> apply_state" where
  "remove_unit u s = (drop_path (fuPath u) s)\<lparr>apTree := Remove (unAddress u) (apTree s)\<rparr>"

lemma no_mix_subset:
  assumes "no_mix idx" "\<And>k. set (ObjectUnits idx' k) \<subseteq> set (ObjectUnits idx k)"
  shows "no_mix idx'"
  using assms unfolding no_mix_def by blast

lemma remove_unit_keeps:
  assumes inv: "commit_inv lib sha base s" and u: "map_of (utUnits (apTree s)) (unit_key u) = Some u"
  shows "commit_inv lib sha base (remove_unit u s)"
proof -
  let ?idx = "apTree s"
  have ok: "tree_ok ?idx" and kp: "kept lib sha (file_after base s) ?idx" and mix: "no_mix ?idx"
    using inv by (simp_all add: commit_inv_def)
  have key: "AddressKey (unAddress u) = unit_key u" "key_safe (unAddress u)"
    using tree_okD(1) [OF ok u] by (simp_all add: unit_key_def unit_ok_def)
  have "kept lib sha (file_after base (drop_path (fuPath u) s)) (Remove (unAddress u) ?idx)"
    unfolding kept_def
  proof (intro allI impI)
    fix k v
    assume "map_of (utUnits (Remove (unAddress u) ?idx)) k = Some v"
    then have v: "map_of (utUnits ?idx) k = Some v" "k \<noteq> unit_key u"
      by (auto simp: Remove_units key(1) split: if_splits)
    then have "fuPath v \<noteq> fuPath u" using kept_paths [OF ok kp v(1) u] by auto
    then show "KnowledgePath (fuPath v) \<and> (case file_after base (drop_path (fuPath u) s) (fuPath v) of
        None \<Rightarrow> False | Some content \<Rightarrow> in_file lib sha content v)"
      using keptD [OF kp v(1)] by (auto simp: file_after_drop)
  qed
  moreover have "no_mix (Remove (unAddress u) ?idx)"
    using mix by (rule no_mix_subset) (auto simp: Remove_object [OF ok] set_others)
  ultimately show ?thesis
    using tree_ok_Remove [OF ok key(2)] by (simp add: commit_inv_def remove_unit_def)
qed

lemma remove_units_keep:
  assumes "commit_inv lib sha base s" "distinct (map unit_key us)"
    and "\<And>u. u \<in> set us \<Longrightarrow> map_of (utUnits (apTree s)) (unit_key u) = Some u"
  shows "commit_inv lib sha base (foldl (\<lambda>s u. remove_unit u s) s us)"
  using assms
proof (induction us arbitrary: s)
  case (Cons u us)
  have "commit_inv lib sha base (remove_unit u s)"
    using Cons.prems(1) by (rule remove_unit_keeps) (simp add: Cons.prems(3))
  moreover have "map_of (utUnits (apTree (remove_unit u s))) (unit_key v) = Some v" if v: "v \<in> set us" for v
  proof -
    have "unit_key v \<in> unit_key ` set us" using v by (rule imageI)
    then have "unit_key v \<noteq> unit_key u" using Cons.prems(2) by auto
    then have "unit_key v \<noteq> AddressKey (unAddress u)" by (simp add: unit_key_def [of u])
    then show ?thesis using Cons.prems(3) [of v] v by (simp add: remove_unit_def drop_path_def Remove_units)
  qed
  ultimately show ?case using Cons.IH Cons.prems(2) by simp
qed simp

lemma remove_loop_units:
  assumes ok: "tree_ok (apTree s)" and us: "ObjectUnits (apTree s) k = us" and len: "length us \<le> 2"
  shows "remove_loop (length us) 0 us s = foldl (\<lambda>s u. remove_unit u s) s us"
proof -
  consider "us = []" | u where "us = [u]" | u v where "us = [u, v]"
    using len by (cases us; cases "tl us"; cases "tl (tl us)") auto
  then show ?thesis
  proof cases
    case (2 u)
    then show ?thesis by (simp add: remove_unit_def Let_def drop_path_def)
  next
    case (3 u v)
    have "map_of (utUnits (apTree s)) (unit_key u) = Some u" "unObjectID u = k"
      using tree_okD(3) [OF ok, of k] us 3 by auto
    moreover have "adObject (unAddress u) = unObjectID u"
      using tree_okD(1) [OF ok] calculation(1) by (auto simp: unit_ok_def)
    moreover have "unit_key v \<noteq> unit_key u" using tree_okD(2) [OF ok, of k] us 3 by auto
    ultimately show ?thesis
      using us 3 by (simp add: remove_unit_def Let_def drop_path_def others_def numeral_2_eq_2)
  qed simp
qed

lemma stored_unit_file:
  assumes "storable lib u" "unit_text lib u = Inr content" "unDigest u = CanonicalDigest sha (unValue u)"
    "fuDeclarationErr u = None"
  shows "in_file lib sha content u"
proof -
  obtain printed where "unit_text lib u = Inr printed" "Unit_Parse lib printed = Some (parsed_of u)"
    using unit_text_parses [OF assms(1)] by blast
  then have "Unit_Parse lib content = Some (parsed_of u)" using assms(2) by simp
  then show ?thesis using assms(3,4) by (simp add: in_file_def parsed_of_def)
qed

text \<open>A run whose puts are storable units with a file of their own, and that removes whole objects only while they have
  at most two units.\<close>

definition own_file :: "string \<Rightarrow> string \<Rightarrow> UnitTree \<Rightarrow> bool" where
  "own_file key path idx = list_all (\<lambda>(k, u). k = key \<or> fuPath u \<noteq> path) (utUnits idx)"

definition clean_put :: "(string \<Rightarrow> string) \<Rightarrow> codec_lib \<Rightarrow> Operation \<Rightarrow> ProvenanceEnvelope option \<Rightarrow> UnitTree \<Rightarrow> bool" where
  "clean_put sha lib op prov idx =
    (let key = AddressKey (opAddress op); existing = map_of (utUnits idx) key in
     case SafeRelativePath (put_path_hint op existing (put_schema op existing)) of
       Inl _ \<Rightarrow> True
     | Inr path \<Rightarrow> own_file key path idx \<and> storable lib (put_file_unit sha prov op existing path))"

fun clean_run :: "(string \<Rightarrow> string) \<Rightarrow> codec_lib \<Rightarrow> Operation list \<Rightarrow> ProvenanceEnvelope option \<Rightarrow> apply_state \<Rightarrow> bool" where
  "clean_run sha lib [] prov s = True"
| "clean_run sha lib (op # ops) prov s =
    ((if opOp op = OpPut then clean_put sha lib op prov (apTree s)
      else IsEntityBlob (opAddress op) \<longrightarrow> length (ObjectUnits (apTree s) (adObject (opAddress op))) \<le> 2) \<and>
     (case repo_Apply sha lib op prov s of Inl _ \<Rightarrow> True | Inr s' \<Rightarrow> clean_run sha lib ops prov s'))"

lemma AssertLayout_no_mix:
  assumes "AssertLayout us a = Inr ()" "u \<in> set us"
  shows "IsEntityBlob (unAddress u) = IsEntityBlob a"
proof -
  have "assertLayout us a = Inr ()" using assms by (auto simp: AssertLayout_def split: if_splits)
  then show ?thesis using assms(2) by (auto simp: assertLayout_def Let_def list_ex_iff split: if_splits)
qed

definition moved :: "FileUnit option \<Rightarrow> string \<Rightarrow> apply_state \<Rightarrow> apply_state" where
  "moved existing path s = (case existing of Some u \<Rightarrow> if fuPath u \<noteq> path then drop_path (fuPath u) s else s | None \<Rightarrow> s)"

lemma applyPut_Inr:
  assumes "applyPut sha lib op prov s = Inr s'" "old = map_of (utUnits (apTree s)) (AddressKey (opAddress op))"
  obtains path content where
    "AssertLayout (ObjectUnits (apTree s) (adObject (opAddress op))) (opAddress op) = Inr ()"
    "SafeRelativePath (put_path_hint op old (put_schema op old)) = Inr path" "KnowledgePath path"
    "unit_text lib (put_file_unit sha prov op old path) = Inr content"
    "s' = \<lparr>apTree = Upsert (put_file_unit sha prov op old path) (apTree s),
      apWrite = AList.update path content (apWrite (moved old path s)), apDelete = apDelete (moved old path s)\<rparr>"
  using assms by (auto simp: applyPut_def Let_def rbind_Inr_iff unit_text_def put_file_unit_def moved_def split: if_splits)

lemma put_keeps:
  assumes inv: "commit_inv lib sha base s" and put: "applyPut sha lib op prov s = Inr s'"
    and clean: "clean_put sha lib op prov (apTree s)" and key: "key_safe (opAddress op)"
  shows "commit_inv lib sha base s'"
proof -
  let ?idx = "apTree s" and ?a = "opAddress op"
  let ?k = "AddressKey ?a"
  let ?old = "map_of (utUnits ?idx) ?k"
  have ok: "tree_ok ?idx" and kp: "kept lib sha (file_after base s) ?idx" and mix: "no_mix ?idx"
    using inv by (simp_all add: commit_inv_def)
  obtain path content where layout: "AssertLayout (ObjectUnits ?idx (adObject ?a)) ?a = Inr ()"
    and path: "SafeRelativePath (put_path_hint op ?old (put_schema op ?old)) = Inr path" "KnowledgePath path"
    and content: "unit_text lib (put_file_unit sha prov op ?old path) = Inr content"
    and s': "s' = \<lparr>apTree = Upsert (put_file_unit sha prov op ?old path) ?idx,
      apWrite = AList.update path content (apWrite (moved ?old path s)), apDelete = apDelete (moved ?old path s)\<rparr>"
    by (rule applyPut_Inr [OF put refl])
  let ?u = "put_file_unit sha prov op ?old path"
  let ?s1 = "moved ?old path s"
  have u: "unit_key ?u = ?k" "unAddress ?u = ?a" "fuPath ?u = path" "unit_ok ?u" "unDigest ?u = CanonicalDigest sha (unValue ?u)"
    "fuDeclarationErr ?u = None"
    using key by (simp_all add: unit_key_def unit_ok_def put_file_unit_def)
  have st: "storable lib ?u" "own_file ?k path ?idx" using clean path(1) by (simp_all add: clean_put_def Let_def)
  have after: "file_after base s' q = (if q = path then Some content else file_after base ?s1 q)" for q
    by (rule file_after_write) (simp_all add: s')
  have s1: "file_after base ?s1 (fuPath v) = file_after base s (fuPath v)"
    if v: "map_of (utUnits ?idx) k = Some v" "k \<noteq> ?k" for k v
    using kept_paths [OF ok kp v(1)] v(2) by (cases ?old) (auto simp: file_after_drop moved_def)
  have "kept lib sha (file_after base s') (Upsert ?u ?idx)"
    unfolding kept_def
  proof (intro allI impI)
    fix k v
    assume v: "map_of (utUnits (Upsert ?u ?idx)) k = Some v"
    show "KnowledgePath (fuPath v) \<and> (case file_after base s' (fuPath v) of None \<Rightarrow> False | Some content \<Rightarrow> in_file lib sha content v)"
    proof (cases "k = ?k")
      case True
      then have "v = ?u" using v u(1) by (simp add: Upsert_units)
      then show ?thesis using path(2) u(3) stored_unit_file [OF st(1) content u(5,6)] by (simp add: after)
    next
      case False
      then have v': "map_of (utUnits ?idx) k = Some v" using v u(1) by (simp add: Upsert_units)
      have "fuPath v \<noteq> path" using st(2) False map_of_SomeD [OF v'] by (auto simp: own_file_def list_all_iff)
      then show ?thesis using keptD [OF kp v'] s1 [OF v' False] by (auto simp: after)
    qed
  qed
  moreover have "no_mix (Upsert ?u ?idx)"
    unfolding no_mix_def
  proof (intro allI impI)
    fix k x y
    assume x: "x \<in> set (ObjectUnits (Upsert ?u ?idx) k)" and y: "y \<in> set (ObjectUnits (Upsert ?u ?idx) k)"
    show "IsEntityBlob (unAddress x) = IsEntityBlob (unAddress y)"
    proof (cases "k = adObject ?a")
      case True
      then have "ObjectUnits (Upsert ?u ?idx) k = others ?k (ObjectUnits ?idx (adObject ?a)) @ [?u]"
        by (simp add: Upsert_object [OF ok] u(1,2))
      then have member: "z = ?u \<or> z \<in> set (ObjectUnits ?idx (adObject ?a))" if "z \<in> set (ObjectUnits (Upsert ?u ?idx) k)" for z
        using that by (auto simp: set_others)
      have "IsEntityBlob (unAddress z) = IsEntityBlob ?a" if "z \<in> set (ObjectUnits (Upsert ?u ?idx) k)" for z
        using member [OF that] AssertLayout_no_mix [OF layout, of z] u(2) by metis
      then show ?thesis using x y by simp
    next
      case False
      then have "ObjectUnits (Upsert ?u ?idx) k = ObjectUnits ?idx k" using u(2) by (simp add: Upsert_object [OF ok])
      then show ?thesis using mix x y unfolding no_mix_def by metis
    qed
  qed
  ultimately show ?thesis using tree_ok_Upsert [OF ok u(4)] by (simp add: commit_inv_def s')
qed

lemma Remove_same:
  "AddressKey a = AddressKey b \<Longrightarrow> adObject a = adObject b \<Longrightarrow> Remove a idx = Remove b idx"
  by (simp add: Remove_def Let_def split: option.split)

lemma remove_keeps:
  assumes inv: "commit_inv lib sha base s" and rm: "applyRemove sha op s = Inr s'" and key: "key_safe (opAddress op)"
    and small: "IsEntityBlob (opAddress op) \<Longrightarrow> length (ObjectUnits (apTree s) (adObject (opAddress op))) \<le> 2"
  shows "commit_inv lib sha base s'"
proof (cases "IsEntityBlob (opAddress op)")
  case True
  let ?us = "ObjectUnits (apTree s) (adObject (opAddress op))"
  have ok: "tree_ok (apTree s)" using inv by (simp add: commit_inv_def)
  have "s' = remove_loop (length ?us) 0 ?us s"
    using rm True by (auto simp: applyRemove_def remove_object_def Let_def rbind_Inr_iff split: if_splits)
  also have "\<dots> = foldl (\<lambda>s u. remove_unit u s) s ?us" by (rule remove_loop_units [OF ok refl small [OF True]])
  finally have s': "s' = foldl (\<lambda>s u. remove_unit u s) s ?us" .
  show ?thesis unfolding s'
  proof (rule remove_units_keep [OF inv tree_okD(2) [OF ok]])
    show "map_of (utUnits (apTree s)) (unit_key u) = Some u" if "u \<in> set ?us" for u
      using that unfolding tree_okD(3) [OF ok] by blast
  qed
next
  case False
  let ?k = "AddressKey (opAddress op)"
  obtain u where u: "map_of (utUnits (apTree s)) ?k = Some u"
    and s': "s' = (drop_path (fuPath u) s)\<lparr>apTree := Remove (opAddress op) (apTree (drop_path (fuPath u) s))\<rparr>"
    using rm False by (auto simp: applyRemove_def Let_def split: option.splits if_splits)
  have ok: "tree_ok (apTree s)" using inv by (simp add: commit_inv_def)
  have k: "?k = unit_key u" "unit_ok u" using tree_okD(1) [OF ok u] by simp_all
  have "adObject (unAddress u) = adObject (opAddress op)"
    using k key AddressKey_eq [of "opAddress op" "unAddress u"] by (simp add: unit_key_def unit_ok_def)
  then have "s' = remove_unit u s"
    using Remove_same [of "opAddress op" "unAddress u"] k(1) by (simp add: s' remove_unit_def unit_key_def drop_path_def)
  then show ?thesis using remove_unit_keeps [OF inv] u k(1) by simp
qed

lemma run_keeps:
  assumes "commit_inv lib sha base s" "list_all (\<lambda>op. key_safe (opAddress op)) ops" "clean_run sha lib ops prov s"
    "repo_apply_all sha lib ops prov s = Inr s'"
  shows "commit_inv lib sha base s'"
  using assms
proof (induction ops arbitrary: s)
  case (Cons op ops)
  then obtain s1 where s1: "repo_Apply sha lib op prov s = Inr s1" "repo_apply_all sha lib ops prov s1 = Inr s'"
    by (auto simp: rbind_Inr_iff)
  have key: "key_safe (opAddress op)" and rest: "list_all (\<lambda>op. key_safe (opAddress op)) ops" "clean_run sha lib ops prov s1"
    using Cons.prems(2,3) s1(1) by simp_all
  have "commit_inv lib sha base s1"
  proof (cases "opOp op = OpPut")
    case True
    then have "applyPut sha lib op prov s = Inr s1" "clean_put sha lib op prov (apTree s)"
      using s1(1) Cons.prems(3) by (auto simp: repo_Apply_def rbind_Inr_iff)
    then show ?thesis using put_keeps [OF Cons.prems(1)] key by blast
  next
    case False
    then have "applyRemove sha op s = Inr s1" using s1(1) by (auto simp: repo_Apply_def rbind_Inr_iff)
    moreover have "IsEntityBlob (opAddress op) \<Longrightarrow> length (ObjectUnits (apTree s) (adObject (opAddress op))) \<le> 2"
      using Cons.prems(3) False by simp
    ultimately show ?thesis using remove_keeps [OF Cons.prems(1)] key by blast
  qed
  then show ?case using Cons.IH rest s1(2) by blast
qed simp

section \<open>Reading the base\<close>

lemma parsed_object:
  assumes "Unit_Parse lib content = Some p"
  shows "unObjectID p \<noteq> []" "adObject (unAddress p) = unObjectID p"
proof -
  obtain s rest where "parsed_unit lib s rest = Some p"
    using assms by (auto simp: Unit_Parse_def Let_def split: if_splits)
  then show "unObjectID p \<noteq> []" "adObject (unAddress p) = unObjectID p"
    by (auto simp: parsed_unit_def Let_def InferAddress_def split: if_splits)
qed

definition base_inv :: "codec_lib \<Rightarrow> (string \<Rightarrow> string) \<Rightarrow> (string \<Rightarrow> string option) \<Rightarrow> UnitTree \<Rightarrow> bool" where
  "base_inv lib sha f idx = (tree_ok idx \<and> kept lib sha f idx \<and> no_mix idx \<and> distinct (map fst (utUnits idx)))"

lemma base_inv_New: "base_inv lib sha f NewTree"
  using tree_ok_New by (simp add: base_inv_def kept_def no_mix_def) (simp add: NewTree_def ObjectUnits_def)

definition stored_as :: "(string \<Rightarrow> string) \<Rightarrow> FileUnit \<Rightarrow> string \<Rightarrow> FileUnit" where
  "stored_as sha u path = u\<lparr>fuPath := path, unDigest := CanonicalDigest sha (unValue u)\<rparr>"

lemma stored_as_simps [simp]:
  "unAddress (stored_as sha u path) = unAddress u" "unObjectID (stored_as sha u path) = unObjectID u"
  "fuPath (stored_as sha u path) = path" "unit_key (stored_as sha u path) = unit_key u"
  by (simp_all add: stored_as_def unit_key_def)

text \<open>\<open>Ingest\<close> of a declared unit inserts it unless its address is taken or its object mixes kinds.\<close>

lemma Ingest_Inr:
  assumes "fuDeclarationErr u = None"
  shows "Ingest sha (Some u) path idx = Inr idx' \<longleftrightarrow>
    map_of (utUnits idx) (unit_key u) = None \<and>
    (\<forall>v \<in> set (ObjectUnits idx (unObjectID u)). IsEntityBlob (unAddress v) = IsEntityBlob (unAddress u)) \<and>
    idx' = Upsert (stored_as sha u path) idx"
  using assms by (auto simp: Ingest_def Let_def list_ex_iff stored_as_def split: if_splits)

lemma Ingest_declared: "Ingest sha (Some u) path idx = Inr idx' \<Longrightarrow> fuDeclarationErr u = None"
  by (auto simp: Ingest_def split: option.splits)

lemma ingest_keeps:
  assumes inv: "base_inv lib sha f idx" and ing: "Ingest sha (Some u) path idx = Inr idx'"
    and u: "unit_ok u" "KnowledgePath path" and stored: "f path = Some content" "in_file lib sha content (stored_as sha u path)"
  shows "base_inv lib sha f idx'"
proof -
  let ?u = "stored_as sha u path"
  have ok: "tree_ok idx" and kp: "kept lib sha f idx" and mix: "no_mix idx" using inv by (simp_all add: base_inv_def)
  have i: "\<forall>v \<in> set (ObjectUnits idx (unObjectID u)). IsEntityBlob (unAddress v) = IsEntityBlob (unAddress u)"
    and idx': "idx' = Upsert ?u idx"
    using ing Ingest_Inr [OF Ingest_declared [OF ing]] by blast+
  have uok: "unit_ok ?u" using u(1) by (simp add: unit_ok_def)
  have "kept lib sha f idx'"
    unfolding kept_def idx' Upsert_units
  proof (intro allI impI)
    fix k v
    assume v: "((map_of (utUnits idx))(unit_key ?u \<mapsto> ?u)) k = Some v"
    show "KnowledgePath (fuPath v) \<and> (case f (fuPath v) of None \<Rightarrow> False | Some content \<Rightarrow> in_file lib sha content v)"
    proof (cases "k = unit_key ?u")
      case True
      then have "v = ?u" using v by (simp only: fun_upd_same option.inject)
      then show ?thesis using u(2) stored by simp
    next
      case False
      then have "map_of (utUnits idx) k = Some v" using v by (simp only: fun_upd_other not_False_eq_True)
      then show ?thesis using keptD [OF kp] by fastforce
    qed
  qed
  moreover have "no_mix idx'"
    unfolding no_mix_def
  proof (intro allI impI)
    fix k x y
    assume x: "x \<in> set (ObjectUnits idx' k)" and y: "y \<in> set (ObjectUnits idx' k)"
    have o: "adObject (unAddress u) = unObjectID u" using u(1) by (simp add: unit_ok_def)
    show "IsEntityBlob (unAddress x) = IsEntityBlob (unAddress y)"
    proof (cases "k = unObjectID u")
      case True
      have "IsEntityBlob (unAddress z) = IsEntityBlob (unAddress u)" if "z \<in> set (ObjectUnits idx' k)" for z
        using that i True o unfolding idx' by (auto simp: Upsert_object [OF ok] set_others)
      then show ?thesis using x y by simp
    next
      case False
      then have "ObjectUnits idx' k = ObjectUnits idx k" using o unfolding idx' by (simp add: Upsert_object [OF ok])
      then show ?thesis using mix x y unfolding no_mix_def by metis
    qed
  qed
  moreover have "distinct (map fst (utUnits idx'))"
    using inv unfolding base_inv_def idx' Upsert_def Let_def by (auto intro: distinct_update)
  ultimately show ?thesis using tree_ok_Upsert [OF ok uok] by (simp add: base_inv_def idx')
qed

text \<open>What the files of a repository promise: no address has the separator byte, and locators name unit files.\<close>

definition safe_files :: "codec_lib \<Rightarrow> (string, string) gomap \<Rightarrow> bool" where
  "safe_files lib files = list_all (\<lambda>(path, content).
     case Unit_Parse lib content of None \<Rightarrow> True | Some u \<Rightarrow> key_safe (unAddress u)) files"

definition safe_locators :: "locator_lib \<Rightarrow> tree_reader \<Rightarrow> string \<Rightarrow> string list \<Rightarrow> bool" where
  "safe_locators loc read commit ids = list_all (\<lambda>objectID.
     case ReadObjectLocator loc read objectID commit of Inl _ \<Rightarrow> True | Inr paths \<Rightarrow> list_all KnowledgePath paths) ids"

definition reads_files :: "tree_reader \<Rightarrow> string \<Rightarrow> (string, string) gomap \<Rightarrow> bool" where
  "reads_files read commit files =
    (\<forall>path. read path commit = (case map_of files path of None \<Rightarrow> fails ErrKnowledgeRefUnresolved | Some raw \<Rightarrow> Inr raw))"

lemma reads_filesD:
  "reads_files read commit files \<Longrightarrow>
    read path commit = (case map_of files path of None \<Rightarrow> fails ErrKnowledgeRefUnresolved | Some raw \<Rightarrow> Inr raw)"
  unfolding reads_files_def by blast

lemma safe_unit:
  assumes "safe_files lib files" "map_of files path = Some content" "Unit_Parse lib content = Some u"
  shows "unit_ok u"
proof -
  have "key_safe (unAddress u)" using assms(1) map_of_SomeD [OF assms(2)] assms(3) by (auto simp: safe_files_def list_all_iff)
  then show ?thesis using parsed_object(2) [OF assms(3)] by (simp add: unit_ok_def)
qed

lemma parsed_in_file:
  assumes "Unit_Parse lib content = Some u" "fuDeclarationErr u = None"
  shows "in_file lib sha content (stored_as sha u path)"
  using assms by (simp add: in_file_def stored_as_def)

lemma read_units_keep:
  assumes "reads_files read commit files" "safe_files lib files" "list_all KnowledgePath paths"
    and "base_inv lib (llSha loc) (map_of files) idx" "read_units loc lib read objectID commit paths idx = Inr idx'"
  shows "base_inv lib (llSha loc) (map_of files) idx'"
  using assms(3-)
proof (induction paths arbitrary: idx)
  case (Cons path paths)
  obtain content u idx1 where c: "read path commit = Inr content" "Unit_Parse lib content = Some u"
    "Ingest (llSha loc) (Some u) path idx = Inr idx1" "read_units loc lib read objectID commit paths idx1 = Inr idx'"
    using Cons.prems(3) by (auto simp: rbind_Inr_iff split: option.splits if_splits)
  have f: "map_of files path = Some content" using c(1) reads_filesD [OF assms(1), of path] by (auto split: option.splits)
  have "base_inv lib (llSha loc) (map_of files) idx1"
    using Cons.prems(2) c(3) safe_unit [OF assms(2) f c(2)] _ f parsed_in_file [OF c(2) Ingest_declared [OF c(3)]]
    by (rule ingest_keeps) (use Cons.prems(1) in simp)
  then show ?case using Cons.IH [of idx1] Cons.prems(1) c(4) by simp
qed simp

text \<open>A unit of an index with the invariant is stored under its path already.\<close>

lemma kept_stored_as: "in_file lib sha content u \<Longrightarrow> stored_as sha u (fuPath u) = u"
proof -
  assume "in_file lib sha content u"
  then obtain p q where u: "u = p\<lparr>fuPath := q, unDigest := CanonicalDigest sha (unValue p)\<rparr>"
    by (auto simp: in_file_def split: option.splits)
  show ?thesis by (simp add: u stored_as_def)
qed

lemma ingest_units_keep:
  assumes "\<And>u. u \<in> set us \<Longrightarrow> unit_ok u \<and> KnowledgePath (fuPath u) \<and>
      (\<exists>content. f (fuPath u) = Some content \<and> in_file lib (llSha loc) content u)"
    and "base_inv lib (llSha loc) f idx" "ingest_units loc us idx = Inr idx'"
  shows "base_inv lib (llSha loc) f idx'"
  using assms
proof (induction us arbitrary: idx)
  case (Cons u us)
  obtain idx1 where i: "Ingest (llSha loc) (Some u) (fuPath u) idx = Inr idx1" "ingest_units loc us idx1 = Inr idx'"
    using Cons.prems(3) by (auto simp: rbind_Inr_iff)
  obtain content where u: "unit_ok u" "KnowledgePath (fuPath u)" "f (fuPath u) = Some content" "in_file lib (llSha loc) content u"
    using Cons.prems(1) [of u] by auto
  have "base_inv lib (llSha loc) f idx1"
    using Cons.prems(2) i(1) u(1-3) by (rule ingest_keeps) (simp add: kept_stored_as [OF u(4)] u(4))
  then show ?case using Cons.IH [of idx1] Cons.prems(1) i(2) by auto
qed simp

lemma read_objects_keep:
  assumes "reads_files read commit files" "safe_files lib files" "safe_locators loc read commit ids"
    and "base_inv lib (llSha loc) (map_of files) idx" "read_objects loc lib read commit ids idx = Inr idx'"
  shows "base_inv lib (llSha loc) (map_of files) idx'"
  using assms(3-)
proof (induction ids arbitrary: idx)
  case (Cons objectID ids)
  obtain paths idx1 idx2 where r: "ReadObjectLocator loc read objectID commit = Inr paths"
    "read_units loc lib read objectID commit paths NewTree = Inr idx1"
    "ingest_units loc (ObjectUnits idx1 objectID) idx = Inr idx2" "read_objects loc lib read commit ids idx2 = Inr idx'"
    using Cons.prems(3) by (auto simp: rbind_Inr_iff readKnowledgeObject_def)
  have "list_all KnowledgePath paths" using Cons.prems(1) r(1) by (simp add: safe_locators_def)
  then have inv1: "base_inv lib (llSha loc) (map_of files) idx1"
    using read_units_keep [OF assms(1,2) _ base_inv_New r(2)] by blast
  then have ok: "tree_ok idx1" and kp: "kept lib (llSha loc) (map_of files) idx1" by (simp_all add: base_inv_def)
  have "base_inv lib (llSha loc) (map_of files) idx2"
  proof (rule ingest_units_keep [OF _ Cons.prems(2) r(3)])
    fix u
    assume "u \<in> set (ObjectUnits idx1 objectID)"
    then have u: "map_of (utUnits idx1) (unit_key u) = Some u" unfolding tree_okD(3) [OF ok] by blast
    show "unit_ok u \<and> KnowledgePath (fuPath u) \<and>
        (\<exists>content. map_of files (fuPath u) = Some content \<and> in_file lib (llSha loc) content u)"
      using tree_okD(1) [OF ok u] keptD [OF kp u] by blast
  qed
  then show ?case using Cons.IH [of idx2] Cons.prems(1) r(4) by (simp add: safe_locators_def)
qed simp

section \<open>The files of the commit\<close>

lemma changed_path_none:
  assumes "map_of (apWrite s) p = None" "p \<notin> set (apDelete s)"
  shows "list_all (\<lambda>c. tcPath c \<noteq> p) (tree_changes s)"
  using assms by (force simp: tree_changes_def list_all_iff map_of_eq_None_iff)

lemma changes_distinct:
  assumes "distinct (map fst (apWrite s))"
  shows "distinct (map tcPath (tree_changes s))"
proof -
  let ?d = "filter (\<lambda>path. map_of (apWrite s) path = None) (dedup (apDelete s))"
  let ?cs = "map (\<lambda>path. \<lparr>tcPath = path, tcContent = [], tcRemove = True\<rparr>) ?d @
    map (\<lambda>(path, content). \<lparr>tcPath = path, tcContent = content, tcRemove = False\<rparr>) (apWrite s)"
  have "map tcPath ?cs = ?d @ map fst (apWrite s)" by (auto simp: comp_def)
  moreover have "distinct (?d @ map fst (apWrite s))" using assms by (auto simp: map_of_eq_None_iff)
  ultimately have d: "distinct (map tcPath ?cs)" by (simp only:)
  have m: "mset (map tcPath (sort_key tcPath ?cs)) = mset (map tcPath ?cs)" by (simp only: mset_map mset_sort)
  show ?thesis unfolding tree_changes_def by (rule iffD2 [OF mset_eq_imp_distinct_iff [OF m] d])
qed

lemma apply_changes_other:
  "apply_changes cs files = Inr files' \<Longrightarrow> list_all (\<lambda>c. tcPath c \<noteq> p) cs \<Longrightarrow> map_of files' p = map_of files p"
  by (induction cs arbitrary: files) (auto simp: map_simps split: if_splits)

lemma apply_changes_lookup:
  assumes "apply_changes cs files = Inr files'" "distinct (map tcPath cs)" "c \<in> set cs"
  shows "map_of files' (tcPath c) = (if tcRemove c then None else Some (tcContent c))"
  using assms
proof (induction cs arbitrary: files)
  case (Cons x cs)
  let ?f = "if tcRemove x then AList.delete (tcPath x) files else AList.update (tcPath x) (tcContent x) files"
  have run: "apply_changes cs ?f = Inr files'"
    using Cons.prems(1) by (auto split: if_splits)
  show ?case
  proof (cases "c = x")
    case True
    have "tcPath x \<notin> set (map tcPath cs)" using Cons.prems(2) by simp
    then have "list_all (\<lambda>d. tcPath d \<noteq> tcPath c) cs" unfolding list_all_iff True by (metis image_eqI set_map)
    then show ?thesis using apply_changes_other [OF run] True by (simp add: map_simps)
  next
    case False
    then show ?thesis using Cons.IH [OF run] Cons.prems(2,3) by simp
  qed
qed simp

lemma commit_files:
  assumes "apply_changes (tree_changes s) files = Inr files'" "distinct (map fst (apWrite s))"
  shows "map_of files' p = file_after (map_of files) s p"
proof -
  note look = apply_changes_lookup [OF assms(1) changes_distinct [OF assms(2)]] apply_changes_other [OF assms(1)]
  show ?thesis
  proof (cases "map_of (apWrite s) p")
    case (Some content)
    then have "\<lparr>tcPath = p, tcContent = content, tcRemove = False\<rparr> \<in> set (tree_changes s)"
      using map_of_SomeD [OF Some] by (force simp: tree_changes_def)
    then show ?thesis using look(1) Some by (force simp: file_after_def)
  next
    case None
    show ?thesis
    proof (cases "p \<in> set (apDelete s)")
      case True
      then have "\<lparr>tcPath = p, tcContent = [], tcRemove = True\<rparr> \<in> set (tree_changes s)"
        using None by (auto simp: tree_changes_def)
      then show ?thesis using look(1) None True by (force simp: file_after_def)
    next
      case False
      then show ?thesis using look(2) changed_path_none [OF None False] None by (simp add: file_after_def)
    qed
  qed
qed

text \<open>The writes of the operations are unit files, one entry each.\<close>

definition unit_writes :: "apply_state \<Rightarrow> bool" where
  "unit_writes s = (distinct (map fst (apWrite s)) \<and> list_all KnowledgePath (map fst (apWrite s)))"

lemma unit_writes_drop: "unit_writes s \<Longrightarrow> unit_writes (drop_path p s)"
  by (auto simp: unit_writes_def drop_path_def list_all_iff distinct_delete dom_map_of_conv_image_fst [symmetric] delete_conv'
      simp del: map_of_eq_None_iff split: if_splits)

lemma unit_writes_tree [simp]: "unit_writes (s\<lparr>apTree := idx\<rparr>) = unit_writes s"
  by (simp add: unit_writes_def)

lemma unit_writes_put:
  assumes "applyPut sha lib op prov s = Inr s'" "unit_writes s"
  shows "unit_writes s'"
proof -
  obtain s1 path content where s1: "unit_writes s1" "KnowledgePath path" "apWrite s' = AList.update path content (apWrite s1)"
  proof (rule applyPut_Inr [OF assms(1) refl])
    fix path content
    let ?s1 = "moved (map_of (utUnits (apTree s)) (AddressKey (opAddress op))) path s"
    assume "KnowledgePath path" "s' = \<lparr>apTree = Upsert (put_file_unit sha prov op (map_of (utUnits (apTree s)) (AddressKey (opAddress op))) path) (apTree s),
      apWrite = AList.update path content (apWrite ?s1), apDelete = apDelete ?s1\<rparr>"
    moreover have "unit_writes ?s1" using unit_writes_drop [OF assms(2)] assms(2) by (auto simp: moved_def split: option.split)
    ultimately show thesis using that [of ?s1 path content] by simp
  qed
  then have sub: "set (map fst (apWrite s')) \<subseteq> insert path (set (map fst (apWrite s1)))"
    by (metis dom_map_of_conv_image_fst dom_fun_upd map_of_update option.distinct(1) set_map subset_refl)
  have "\<forall>q \<in> set (map fst (apWrite s1)). KnowledgePath q" using s1(1) by (simp add: unit_writes_def list_all_iff)
  then have "\<forall>q \<in> set (map fst (apWrite s')). KnowledgePath q" using sub s1(2) by blast
  moreover have "distinct (map fst (apWrite s'))" using s1(1) unfolding s1(3) by (simp add: unit_writes_def distinct_update)
  ultimately show ?thesis unfolding unit_writes_def list_all_iff by blast
qed

lemma unit_writes_loop: "unit_writes s \<Longrightarrow> unit_writes (remove_loop n i arr s)"
  by (induction n i arr s rule: remove_loop.induct) (simp_all add: Let_def unit_writes_drop)

lemma unit_writes_all:
  assumes "repo_apply_all sha lib ops prov s = Inr s'" "unit_writes s"
  shows "unit_writes s'"
  using assms
proof (induction ops arbitrary: s)
  case (Cons op ops)
  obtain s1 where s1: "repo_Apply sha lib op prov s = Inr s1" "repo_apply_all sha lib ops prov s1 = Inr s'"
    using Cons.prems(1) by (auto simp: rbind_Inr_iff)
  have "unit_writes s1"
  proof (cases "opOp op = OpPut")
    case True
    then have "applyPut sha lib op prov s = Inr s1" using s1(1) by (auto simp: repo_Apply_def rbind_Inr_iff)
    then show ?thesis using unit_writes_put Cons.prems(2) by blast
  next
    case False
    then have "applyRemove sha op s = Inr s1" using s1(1) by (auto simp: repo_Apply_def rbind_Inr_iff)
    then show ?thesis
      using Cons.prems(2) unit_writes_loop
      by (auto simp: applyRemove_def remove_object_def Let_def rbind_Inr_iff unit_writes_drop split: if_splits option.splits)
  qed
  then show ?case using Cons.IH s1(2) by blast
qed simp

section \<open>Locators\<close>

abbreviation write_locators :: "locator_lib \<Rightarrow> UnitTree \<Rightarrow> string list \<Rightarrow> apply_state \<Rightarrow> apply_state" where
  "write_locators loc idx ids s \<equiv> foldl (\<lambda>s objectID. object_locator loc idx objectID s) s ids"

definition locator_content :: "locator_lib \<Rightarrow> UnitTree \<Rightarrow> string \<Rightarrow> string option" where
  "locator_content loc idx objectID =
    (if ObjectUnits idx objectID = [] then None
     else Some (EncodeObjectLocator loc objectID (map fuPath (ObjectUnits idx objectID))))"

lemma object_locator_after:
  "file_after base (object_locator loc idx objectID s) q =
    (if q \<noteq> ObjectLocatorPath loc objectID then file_after base s q
     else if ObjectUnits idx objectID = [] then map_of (apWrite s) q else locator_content loc idx objectID)"
  "map_of (apWrite (object_locator loc idx objectID s)) q =
    (if q = ObjectLocatorPath loc objectID \<and> ObjectUnits idx objectID \<noteq> [] then locator_content loc idx objectID
     else map_of (apWrite s) q)"
  by (auto simp: object_locator_def file_after_def locator_content_def Let_def map_simps split: option.split)

lemma write_locators_other:
  "q \<notin> set (map (ObjectLocatorPath loc) ids) \<Longrightarrow>
    file_after base (write_locators loc idx ids s) q = file_after base s q \<and>
    map_of (apWrite (write_locators loc idx ids s)) q = map_of (apWrite s) q"
  by (induction ids arbitrary: s) (auto simp: object_locator_after)

lemma write_locators_entry:
  assumes "distinct (map (ObjectLocatorPath loc) ids)" "objectID \<in> set ids"
    and "\<And>k. k \<in> set ids \<Longrightarrow> map_of (apWrite s) (ObjectLocatorPath loc k) = None"
  shows "file_after base (write_locators loc idx ids s) (ObjectLocatorPath loc objectID) = locator_content loc idx objectID"
  using assms
proof (induction ids arbitrary: s)
  case (Cons k ids)
  show ?case
  proof (cases "objectID = k")
    case True
    then have "ObjectLocatorPath loc objectID \<notin> set (map (ObjectLocatorPath loc) ids)" using Cons.prems(1) by simp
    then show ?thesis
      using write_locators_other [of "ObjectLocatorPath loc objectID" loc ids base idx "object_locator loc idx k s"]
        Cons.prems(3) [of k] True
      by (simp add: object_locator_after(1)) (simp add: locator_content_def)
  next
    case False
    have "map_of (apWrite (object_locator loc idx k s)) (ObjectLocatorPath loc l) = None" if l: "l \<in> set ids" for l
    proof -
      have "ObjectLocatorPath loc l \<in> set (map (ObjectLocatorPath loc) ids)" using l by simp
      then have "ObjectLocatorPath loc l \<noteq> ObjectLocatorPath loc k" using Cons.prems(1) by auto
      then show ?thesis using Cons.prems(3) [of l] l by (simp add: object_locator_after(2))
    qed
    then show ?thesis using Cons.IH [of "object_locator loc idx k s"] Cons.prems(1,2) False by simp
  qed
qed simp

section \<open>Reading the commit\<close>

lemma in_fileD:
  assumes "in_file lib sha content u"
  obtains p where "Unit_Parse lib content = Some p" "fuDeclarationErr p = None" "stored_as sha p (fuPath u) = u"
    "unObjectID p = unObjectID u" "unAddress p = unAddress u"
proof -
  obtain p where p: "Unit_Parse lib content = Some p" "fuDeclarationErr p = None"
    and u: "u = p\<lparr>fuPath := fuPath u, unDigest := CanonicalDigest sha (unValue p)\<rparr>"
    using assms by (auto simp: in_file_def split: option.splits)
  have s: "stored_as sha p (fuPath u) = u" unfolding stored_as_def by (rule u [symmetric])
  have "unObjectID p = unObjectID u" using arg_cong [OF s, of unObjectID] by simp
  moreover have "unAddress p = unAddress u" using arg_cong [OF s, of unAddress] by simp
  ultimately show ?thesis by (rule that [OF p s])
qed

lemma others_absent: "key \<notin> unit_key ` set us \<Longrightarrow> others key us = us"
  by (auto simp: others_def filter_id_conv)

lemma read_units_back:
  assumes "tree_ok idx"
    and "\<And>v. v \<in> set vs \<Longrightarrow> unit_ok v \<and> unObjectID v = objectID \<and>
      (\<exists>content. read (fuPath v) commit = Inr content \<and> in_file lib (llSha loc) content v)"
    and "distinct (map unit_key (ObjectUnits idx objectID @ vs))"
    and "\<And>x y. x \<in> set (ObjectUnits idx objectID @ vs) \<Longrightarrow> y \<in> set (ObjectUnits idx objectID @ vs) \<Longrightarrow>
      IsEntityBlob (unAddress x) = IsEntityBlob (unAddress y)"
  shows "\<exists>idx'. read_units loc lib read objectID commit (map fuPath vs) idx = Inr idx' \<and>
    ObjectUnits idx' objectID = ObjectUnits idx objectID @ vs"
  using assms
proof (induction vs arbitrary: idx)
  case (Cons v vs)
  let ?us = "ObjectUnits idx objectID"
  obtain content where v: "unit_ok v" "unObjectID v = objectID" "read (fuPath v) commit = Inr content"
    "in_file lib (llSha loc) content v" using Cons.prems(2) [of v] by auto
  obtain p where p: "Unit_Parse lib content = Some p" "fuDeclarationErr p = None"
    and stored: "stored_as (llSha loc) p (fuPath v) = v" and same: "unObjectID p = unObjectID v" "unAddress p = unAddress v"
    by (rule in_fileD [OF v(4)])
  have key: "unit_key p = unit_key v" using same(2) by (simp add: unit_key_def)
  have fresh: "unit_key v \<notin> unit_key ` set ?us" using Cons.prems(3) by auto
  have none: "map_of (utUnits idx) (unit_key v) = None"
  proof (rule ccontr)
    assume "map_of (utUnits idx) (unit_key v) \<noteq> None"
    then obtain w where w: "map_of (utUnits idx) (unit_key v) = Some w" by blast
    then have "unit_key v = unit_key w" "unit_ok w" using tree_okD(1) [OF Cons.prems(1) w] by simp_all
    moreover have "unObjectID w = objectID"
      using same_key_same_object [OF v(1) calculation(2,1)] v(2) by simp
    ultimately have "w \<in> set ?us" using w unfolding tree_okD(3) [OF Cons.prems(1)] by simp
    then show False using fresh \<open>unit_key v = unit_key w\<close> by (metis imageI)
  qed
  have "Ingest (llSha loc) (Some p) (fuPath v) idx = Inr (Upsert v idx)"
    unfolding Ingest_Inr [OF p(2)] key same stored v(2) using none Cons.prems(4) by auto
  then have step: "read_units loc lib read objectID commit (map fuPath (v # vs)) idx =
      read_units loc lib read objectID commit (map fuPath vs) (Upsert v idx)"
    using v(2,3) p(1) same(1) by simp
  have ob: "adObject (unAddress v) = objectID" using v(1,2) by (simp add: unit_ok_def)
  have us': "ObjectUnits (Upsert v idx) objectID = ?us @ [v]"
    using others_absent [OF fresh] by (simp add: Upsert_object [OF Cons.prems(1)] ob)
  have "\<exists>idx'. read_units loc lib read objectID commit (map fuPath vs) (Upsert v idx) = Inr idx' \<and>
      ObjectUnits idx' objectID = ObjectUnits (Upsert v idx) objectID @ vs"
  proof (rule Cons.IH)
    show "tree_ok (Upsert v idx)" by (rule tree_ok_Upsert [OF Cons.prems(1) v(1)])
    show "unit_ok w \<and> unObjectID w = objectID \<and> (\<exists>content. read (fuPath w) commit = Inr content \<and> in_file lib (llSha loc) content w)"
      if "w \<in> set vs" for w using Cons.prems(2) [of w] that by simp
    show "distinct (map unit_key (ObjectUnits (Upsert v idx) objectID @ vs))" using Cons.prems(3) unfolding us' by simp
    show "IsEntityBlob (unAddress x) = IsEntityBlob (unAddress y)"
      if "x \<in> set (ObjectUnits (Upsert v idx) objectID @ vs)" "y \<in> set (ObjectUnits (Upsert v idx) objectID @ vs)" for x y
      using that Cons.prems(4) [of x y] unfolding us' by simp
  qed
  then show ?case unfolding step us' by simp
qed simp

lemma map_sort_key: "map f (sort_key f xs) = sort (map f xs)"
  by (rule properties_for_sort [symmetric]) (simp_all add: mset_map [symmetric] del: mset_map, metis mset_map mset_sort)

lemma read_back_object:
  assumes lib: "locator_lib_ok loc" and ok: "tree_ok idx" and kp: "kept lib (llSha loc) f idx" and mix: "no_mix idx"
    and read: "\<And>p. read p commit = (case g p of None \<Rightarrow> fails ErrKnowledgeRefUnresolved | Some raw \<Rightarrow> Inr raw)"
    and units: "\<And>p. KnowledgePath p \<Longrightarrow> g p = f p"
    and entry: "g (ObjectLocatorPath loc objectID) = locator_content loc idx objectID"
    and complete: "g LocatorCompletePath = Some LocatorCompleteBody"
  shows "\<exists>us. readKnowledgeObject loc lib read objectID commit = Inr us \<and> set us = set (ObjectUnits idx objectID)"
proof (cases "ObjectUnits idx objectID = []")
  case True
  have "missing_file (read (ObjectLocatorPath loc objectID) commit)" "ok (read LocatorCompletePath commit)"
    using True by (simp_all add: read entry complete locator_content_def missing_file_def code_of_def ok_iff CodeOf_def Fail_def)
  then have "ReadObjectLocator loc read objectID commit = Inr []" by (rule ReadObjectLocator_complete)
  then have "readKnowledgeObject loc lib read objectID commit = Inr []"
    by (simp add: readKnowledgeObject_def NewTree_def ObjectUnits_def)
  then show ?thesis using True by simp
next
  case False
  let ?us = "ObjectUnits idx objectID"
  let ?vs = "sort_key fuPath ?us"
  have u: "map_of (utUnits idx) (unit_key u) = Some u \<and> unObjectID u = objectID" if "u \<in> set ?us" for u
    using that unfolding tree_okD(3) [OF ok] by simp
  have held: "KnowledgePath (fuPath u)" "\<exists>content. f (fuPath u) = Some content \<and> in_file lib (llSha loc) content u"
    if "u \<in> set ?us" for u using keptD [OF kp conjunct1 [OF u [OF that]]] by blast+
  obtain w where w: "w \<in> set ?us" using False by (cases ?us) auto
  obtain content where content: "in_file lib (llSha loc) content w" using held(2) [OF w] by blast
  obtain p where "Unit_Parse lib content = Some p" "unObjectID p = unObjectID w" by (rule in_fileD [OF content])
  then have "objectID \<noteq> []" using parsed_object(1) u [OF w] by metis
  then have "ReadObjectLocator loc read objectID commit = Inr (sort (map fuPath ?us))"
    using lib False by (intro ReadObjectLocator_entry) (simp_all add: read entry locator_content_def)
  then have paths: "ReadObjectLocator loc read objectID commit = Inr (map fuPath ?vs)" by (simp only: map_sort_key)
  have "mset (map unit_key ?vs) = mset (map unit_key ?us)" by (simp only: mset_map mset_sort)
  then have dist: "distinct (map unit_key ?vs)" using tree_okD(2) [OF ok, of objectID] by (metis mset_eq_imp_distinct_iff)
  have empty: "ObjectUnits NewTree objectID = []" by (simp add: NewTree_def ObjectUnits_def)
  have "\<exists>idx'. read_units loc lib read objectID commit (map fuPath ?vs) NewTree = Inr idx' \<and>
      ObjectUnits idx' objectID = ObjectUnits NewTree objectID @ ?vs"
  proof (rule read_units_back [OF tree_ok_New])
    show "unit_ok v \<and> unObjectID v = objectID \<and> (\<exists>content. read (fuPath v) commit = Inr content \<and> in_file lib (llSha loc) content v)"
      if "v \<in> set ?vs" for v
    proof -
      have v: "v \<in> set ?us" using that by simp
      obtain content where "f (fuPath v) = Some content" "in_file lib (llSha loc) content v" using held(2) [OF v] by blast
      then have "read (fuPath v) commit = Inr content" using units [OF held(1) [OF v]] by (simp add: read)
      then show ?thesis
        using \<open>in_file lib (llSha loc) content v\<close> u [OF v] tree_okD(1) [OF ok conjunct1 [OF u [OF v]]] by blast
    qed
    show "distinct (map unit_key (ObjectUnits NewTree objectID @ ?vs))" unfolding empty using dist by simp
    show "IsEntityBlob (unAddress x) = IsEntityBlob (unAddress y)"
      if "x \<in> set (ObjectUnits NewTree objectID @ ?vs)" "y \<in> set (ObjectUnits NewTree objectID @ ?vs)" for x y
    proof -
      have "x \<in> set ?us" "y \<in> set ?us" using that unfolding empty by simp_all
      then show ?thesis using mix unfolding no_mix_def by blast
    qed
  qed
  then obtain idx' where "read_units loc lib read objectID commit (map fuPath ?vs) NewTree = Inr idx'" "ObjectUnits idx' objectID = ?vs"
    unfolding empty by auto
  then have "readKnowledgeObject loc lib read objectID commit = Inr ?vs" by (simp add: readKnowledgeObject_def paths)
  then show ?thesis by simp
qed

section \<open>A commit on the in-memory store\<close>

definition memory_caps :: "(string \<Rightarrow> string \<Rightarrow> nat \<Rightarrow> TreeChange list \<Rightarrow> string) \<Rightarrow> memoryStore store_caps" where
  "memory_caps commit_id = \<lparr>cpChange = \<lambda>_. None, cpNative = \<lambda>_. None,
     cpTree = \<lambda>_. Some \<lparr>tsRead = ms_ReadFile, tsList = ms_ListFiles, tsApply = ms_ApplyTreeCommit commit_id\<rparr>,
     cpBulk = \<lambda>_. Some (ms_ApplyTreeCommitBulk commit_id)\<rparr>"

abbreviation memory_reader :: "memoryStore \<Rightarrow> tree_reader" where
  "memory_reader s \<equiv> (\<lambda>path commit. ms_ReadFile path commit s)"

lemma memory_commit_effect:
  assumes "ms_ApplyTreeCommit commit_id (treeChangeSet cs (tree_changes st)) s = (Inr commit, s')"
    and "map_of (msCommits s) (csBaseCommit cs) = Some base" "distinct (map fst (apWrite st))"
  shows "ms_ReadFile p commit s' =
    (case file_after (map_of (mcFiles base)) st p of None \<Rightarrow> fails ErrKnowledgeRefUnresolved | Some raw \<Rightarrow> Inr raw)"
proof -
  obtain files' current where a: "apply_changes (tree_changes st) (mcFiles base) = Inr files'"
    "map_of (msCommits s') commit = Some \<lparr>mcParent = current, mcFiles = files'\<rparr>"
    using assms(1,2) by (auto simp: ms_ApplyTreeCommit_def treeChangeSet_def Let_def map_simps split: if_splits option.splits sum.splits)
  then show ?thesis using commit_files [OF a(1) assms(3), of p] by (simp add: ms_ReadFile_def)
qed

lemma memory_reads_files:
  "map_of (msCommits s) commit = Some state \<Longrightarrow> reads_files (memory_reader s) commit (mcFiles state)"
  by (simp add: reads_files_def ms_ReadFile_def)

text \<open>The paths of locators: digests of the touched identities differ and give no unit path.\<close>

definition locator_paths_ok :: "locator_lib \<Rightarrow> string list \<Rightarrow> bool" where
  "locator_paths_ok loc ids =
    (distinct (map (ObjectLocatorPath loc) ids) \<and>
     list_all (\<lambda>p. \<not> KnowledgePath p \<and> p \<noteq> LocatorCompletePath \<and> p \<noteq> LocatorSchemaIndexPath) (map (ObjectLocatorPath loc) ids))"

definition clean_commit :: "locator_lib \<Rightarrow> codec_lib \<Rightarrow> tree_reader \<Rightarrow> ChangeSet \<Rightarrow> bool" where
  "clean_commit loc lib read cs =
    (case readChangedKnowledgeObjects loc lib read (csBaseCommit cs) (csOperations cs) of
      Inl _ \<Rightarrow> True
    | Inr idx \<Rightarrow> clean_run (llSha loc) lib (csOperations cs) (csProvenance cs) \<lparr>apTree = idx, apWrite = [], apDelete = []\<rparr>)"

lemma clean_run_small:
  "list_all same_meaning ops \<Longrightarrow> clean_run sha lib ops prov s \<Longrightarrow> small_removals sha lib ops prov s"
proof (induction ops arbitrary: s)
  case (Cons op ops)
  have "opOp op = OpRemove \<Longrightarrow> opOp op \<noteq> OpPut" by (simp add: operation_names)
  then show ?case using Cons by (auto split: sum.splits)
qed simp

lemma special_paths: "\<not> KnowledgePath LocatorCompletePath" "\<not> KnowledgePath LocatorSchemaIndexPath"
  "LocatorCompletePath \<noteq> LocatorSchemaIndexPath"
  by code_simp+

text \<open>After the locators and the markers are written, unit files are as before.\<close>

lemma knowledge_changes_files:
  assumes ch: "knowledge_changes loc lib read cs = Inr st" and paths: "locator_paths_ok loc (changedObjectIDs (csOperations cs))"
  obtains idx s0 where
    "readChangedKnowledgeObjects loc lib read (csBaseCommit cs) (csOperations cs) = Inr idx"
    "repo_apply_all (llSha loc) lib (csOperations cs) (csProvenance cs) \<lparr>apTree = idx, apWrite = [], apDelete = []\<rparr> = Inr s0"
    "unit_writes s0" "distinct (map fst (apWrite st))"
    "\<And>p. KnowledgePath p \<Longrightarrow> file_after base st p = file_after base s0 p"
    "\<And>k. k \<in> set (changedObjectIDs (csOperations cs)) \<Longrightarrow>
       file_after base st (ObjectLocatorPath loc k) = locator_content loc (apTree s0) k"
    "file_after base st LocatorCompletePath = Some LocatorCompleteBody"
proof -
  let ?ids = "changedObjectIDs (csOperations cs)"
  obtain idx s0 s2 where r: "readChangedKnowledgeObjects loc lib read (csBaseCommit cs) (csOperations cs) = Inr idx"
    "repo_apply_all (llSha loc) lib (csOperations cs) (csProvenance cs) \<lparr>apTree = idx, apWrite = [], apDelete = []\<rparr> = Inr s0"
    "updateSchemaLocator loc read (csBaseCommit cs) (apTree s0) (csOperations cs) (write_locators loc (apTree s0) ?ids s0) = Inr s2"
    "st = s2\<lparr>apWrite := AList.update LocatorCompletePath LocatorCompleteBody (apWrite s2)\<rparr>"
    using ch by (auto simp: knowledge_changes_def rbind_Inr_iff)
  let ?s1 = "write_locators loc (apTree s0) ?ids s0"
  have w0: "unit_writes s0" using unit_writes_all [OF r(2)] by (simp add: unit_writes_def)
  have d1: "distinct (map fst (apWrite (write_locators loc (apTree s0) ids s)))" if "distinct (map fst (apWrite s))" for ids s
    using that by (induction ids arbitrary: s) (simp_all add: object_locator_def Let_def distinct_update)
  have s2: "apDelete s2 = apDelete ?s1 \<and> (s2 = ?s1 \<or> (\<exists>c. apWrite s2 = AList.update LocatorSchemaIndexPath c (apWrite ?s1)))"
    using r(3) by (auto simp: updateSchemaLocator_def rbind_Inr_iff split: if_splits)
  have after2: "file_after base s2 p = file_after base ?s1 p" if "p \<noteq> LocatorSchemaIndexPath" for p
    using s2 that file_after_write [of s2 LocatorSchemaIndexPath _ ?s1 base p] by (metis (no_types))
  have after: "file_after base st p = (if p = LocatorCompletePath then Some LocatorCompleteBody else file_after base s2 p)" for p
    by (rule file_after_write) (simp_all add: r(4))
  have pk: "\<not> KnowledgePath (ObjectLocatorPath loc k)" "ObjectLocatorPath loc k \<noteq> LocatorCompletePath"
    "ObjectLocatorPath loc k \<noteq> LocatorSchemaIndexPath" if "k \<in> set ?ids" for k
    using paths that by (simp_all add: locator_paths_ok_def list_all_iff)
  show ?thesis
  proof (rule that [OF r(1,2) w0])
    have "distinct (map fst (apWrite ?s1))" using d1 w0 by (simp add: unit_writes_def)
    then have "distinct (map fst (apWrite s2))" using s2 distinct_update by metis
    then show "distinct (map fst (apWrite st))" by (simp add: r(4) distinct_update)
  next
    fix p
    assume p: "KnowledgePath p"
    have "p \<notin> set (map (ObjectLocatorPath loc) ?ids)" using pk(1) p by auto
    then have "file_after base ?s1 p = file_after base s0 p" using write_locators_other by blast
    moreover have "p \<noteq> LocatorCompletePath" "p \<noteq> LocatorSchemaIndexPath" using p special_paths by metis+
    ultimately show "file_after base st p = file_after base s0 p" using after after2 by metis
  next
    fix k
    assume k: "k \<in> set ?ids"
    have none: "map_of (apWrite s0) (ObjectLocatorPath loc l) = None" if "l \<in> set ?ids" for l
    proof -
      have "\<forall>q \<in> set (map fst (apWrite s0)). KnowledgePath q" using w0 by (simp add: unit_writes_def list_all_iff)
      then show ?thesis using pk(1) [OF that] by (auto simp: map_of_eq_None_iff)
    qed
    have "file_after base ?s1 (ObjectLocatorPath loc k) = locator_content loc (apTree s0) k"
      by (rule write_locators_entry [OF _ k none]) (use paths in \<open>simp_all add: locator_paths_ok_def\<close>)
    then show "file_after base st (ObjectLocatorPath loc k) = locator_content loc (apTree s0) k"
      using after after2 pk(2,3) [OF k] by metis
  next
    show "file_after base st LocatorCompletePath = Some LocatorCompleteBody" using after by simp
  qed
qed


text \<open>A concrete library of locators: lists of strings with an escaped text.\<close>

fun escape :: "string \<Rightarrow> string" where
  "escape [] = ''.''"
| "escape (c # s) = CHR ''x'' # c # escape s"

fun unescape :: "string \<Rightarrow> (string \<times> string) option" where
  "unescape (c # s) =
    (if c = CHR ''.'' then Some ([], s)
     else (case s of [] \<Rightarrow> None | d # rest \<Rightarrow> (case unescape rest of None \<Rightarrow> None | Some (t, left) \<Rightarrow> Some (d # t, left))))"
| "unescape [] = None"

lemma unescape_escape: "unescape (escape s @ rest) = Some (s, rest)"
  by (induction s) simp_all

function decode_list :: "string \<Rightarrow> string list option" where
  "decode_list s =
    (if s = [] then Some []
     else (case unescape s of
       None \<Rightarrow> None
     | Some (t, left) \<Rightarrow> if length left < length s then map_option (Cons t) (decode_list left) else None))"
  by pat_completeness auto
termination
  by (relation "measure length") simp_all

declare decode_list.simps [simp del]

lemma escape_nonempty: "escape s \<noteq> []"
  by (cases s) simp_all

lemma decode_encode_list: "decode_list (concat (map escape ss)) = Some ss"
proof (induction ss)
  case Nil
  then show ?case by (simp add: decode_list.simps)
next
  case (Cons s ss)
  have "length (concat (map escape ss)) < length (escape s @ concat (map escape ss))"
    using escape_nonempty [of s] by simp
  then show ?case
    using Cons escape_nonempty [of s] by (subst decode_list.simps) (simp add: unescape_escape)
qed

definition demo_locators :: locator_lib where
  "demo_locators = \<lparr>llSha = \<lambda>t. t, llSchema = demo_schema_lib,
     llEntry = \<lambda>e. concat (map escape (oeObjectID e # oePaths e)),
     llParseEntry = \<lambda>raw. (case decode_list raw of Some (k # paths) \<Rightarrow> Some \<lparr>oeObjectID = k, oePaths = paths\<rparr> | _ \<Rightarrow> None),
     llIDs = \<lambda>ids. concat (map escape ids), llParseIDs = decode_list,
     llManifest = \<lambda>_. [], llParseManifest = \<lambda>_. None\<rparr>"

lemma demo_locators_ok: "locator_lib_ok demo_locators"
proof -
  have "decode_list (concat (map escape (oeObjectID e # oePaths e))) = Some (oeObjectID e # oePaths e)" for e
    by (rule decode_encode_list)
  then show ?thesis by (simp add: locator_lib_ok_def demo_locators_def decode_encode_list del: list.map concat.simps)
qed

definition demo_json_lib :: codec_lib where
  "demo_json_lib = demo_codec_lib\<lparr>clJson := \<lambda>t. if t = ''true'' then Some (JBool True) else if t = ''null'' then Some JNull else None\<rparr>"

definition demo_change_set :: ChangeSet where
  "demo_change_set = \<lparr>csTargetRepository = ''kr://a/b'', csTargetRef = DefaultRef, csBaseCommit = ''root'',
     csExpectedTargetCommit = ''root'', csOperations = demo_ops, csMessage = ''m'', csAuthor = [], csRequestID = [],
     csRuleID = [], csProvenance = None, csBulkIngest = False\<rparr>"

definition demo_base :: memoryStore where
  "demo_base = newMemoryStore demo_root ''kr://a/b''"



definition demo_unit :: Unit where
  "demo_unit = \<lparr>unObjectID = ''x'', unAddress = aspect_at ''x'' ''a'', unPathHint = [], unSchemaRef = ''schema/p'',
     unValueSource = None, unProvenance = None, unValue = JBool True, unDigest = ''d''\<rparr>"


end
