(* ===== verification/SchemaContract.thy ===== *)
theory SchemaContract
  imports SchemaGuard TreeCommit
begin

text \<open>
  What the checks of \<open>SchemaGuard\<close> are for: in a repository whose instances conform to their schemas, an accepted
  change set leaves instances that conform to the schemas it leaves.  The lemmas at the end are change sets
  outside the hypotheses, which the checks accept although they break the contract.
\<close>

section \<open>Conforming units\<close>

definition blob_at :: "Unit list \<Rightarrow> string \<Rightarrow> Unit option" where
  "blob_at us k = find (\<lambda>u. unObjectID u = k \<and> IsEntityBlob (unAddress u)) us"

definition schema_at :: "writer_lib \<Rightarrow> Unit list \<Rightarrow> string \<Rightarrow> SchemaDefinition option" where
  "schema_at lib us k =
    (case blob_at us k of
      None \<Rightarrow> None
    | Some u \<Rightarrow> (case ParseSchemaDefinition (wl_schema lib) k (unValue u) of Inl _ \<Rightarrow> None | Inr d \<Rightarrow> Some d))"

text \<open>A schema is a whole object. An instance with its value in the snapshot conforms to the schema its reference names,
  unless the reference names a commit.\<close>

definition unit_conforms :: "writer_lib \<Rightarrow> Unit list \<Rightarrow> Unit \<Rightarrow> bool" where
  "unit_conforms lib us u =
    (if IsSchemaObject (unObjectID u) then IsEntityBlob (unAddress u)
     else bound_source (unValueSource u) \<or>
       (case ParseSchemaRef (unSchemaRef u) of
         None \<Rightarrow> True
       | Some p \<Rightarrow> psCommit p \<noteq> [] \<or>
           (case schema_at lib us (psObject p) of
             None \<Rightarrow> False
           | Some d \<Rightarrow> ValidateSchemaInstance (wl_schema lib) (unAddress u) (unValue u) d = Inr ())))"

definition conforms :: "writer_lib \<Rightarrow> Unit list \<Rightarrow> bool" where
  "conforms lib us = list_all (unit_conforms lib us) us"

text \<open>The change sets of the theorem: every address once, schemas as whole objects, no new reference to a schema that the
  same change set removes.\<close>

definition plain_operation :: "Operation list \<Rightarrow> Operation \<Rightarrow> bool" where
  "plain_operation ops op =
    (opOp op \<in> {OpPut, OpRemove} \<and> key_safe (opAddress op) \<and>
     (IsSchemaObject (adObject (opAddress op)) \<longrightarrow> IsEntityBlob (opAddress op)) \<and>
     (case ParseSchemaRef (opSchemaRef op) of None \<Rightarrow> True | Some p \<Rightarrow> psObject p \<notin> set (removed_schemas ops)))"

definition plain_changes :: "Operation list \<Rightarrow> bool" where
  "plain_changes ops = (distinct (map (AddressKey \<circ> opAddress) ops) \<and> list_all (plain_operation ops) ops)"

text \<open>A read of an object through its locator finds the units of the object in the tree.\<close>

definition locators_agree :: "writer_lib \<Rightarrow> 's schemaResolver \<Rightarrow> UnitTree \<Rightarrow> bool" where
  "locators_agree lib r idx =
    (\<forall>k. \<exists>us. object_units lib r k = Inr us \<and> distinct us \<and> set us = set (ObjectUnits idx k))"

section \<open>The units a run leaves\<close>

definition held :: "unit_map \<Rightarrow> Unit \<Rightarrow> bool" where
  "held m u = (map_of m (unit_key u) = Some u)"

lemma held_mem: "codec_ok m \<Longrightarrow> u \<in> set (map snd m) \<longleftrightarrow> held m u"
proof
  assume ok: "codec_ok m" and "u \<in> set (map snd m)"
  then obtain k where "(k, u) \<in> set m" by auto
  then show "held m u" using ok by (auto simp: codec_ok_def list_all_iff held_def)
qed (force simp: held_def dest: map_of_SomeD)

lemma same_key_object:
  assumes "unit_ok u" "key_safe a" "unit_key u = AddressKey a"
  shows "unObjectID u = adObject a" "IsEntityBlob (unAddress u) = IsEntityBlob a"
  using assms AddressKey_eq [of "unAddress u" a] by (auto simp: unit_ok_def unit_key_def IsEntityBlob_def)

lemma put_unit_simps [simp]:
  "unit_key (put_unit sha prov op c) = AddressKey (opAddress op)" "unObjectID (put_unit sha prov op c) = adObject (opAddress op)"
  "unAddress (put_unit sha prov op c) = opAddress op" "unValue (put_unit sha prov op c) = opValue op"
  by (simp_all add: put_unit_def unit_key_def)

lemma codec_step_removed:
  assumes "codec_ok m" "key_safe (opAddress op)" "opOp op = OpRemove" "codec_step sha prov op (m, del) = Inr (m', del')"
  shows "codec_ok m'" "held m' u \<Longrightarrow> held m u \<and> unit_key u \<noteq> AddressKey (opAddress op)"
    "held m u \<Longrightarrow> unObjectID u \<noteq> adObject (opAddress op) \<Longrightarrow> held m' u"
proof -
  let ?k = "AddressKey (opAddress op)" and ?o = "adObject (opAddress op)"
  have d: "distinct (map fst m)" using assms(1) by (simp add: codec_ok_def)
  have key: "unObjectID v = ?o" if "held m v" "unit_key v = ?k" for v
    using same_key_object(1) [OF _ assms(2) that(2)] codec_okD [OF assms(1)] that(1) by (auto simp: held_def)
  consider "m' = filter (\<lambda>(_, u). unObjectID u \<noteq> ?o) m" | "m' = AList.delete ?k m"
    using assms(3,4) by (auto simp: codec_step_def codec_remove_def Let_def rbind_Inr_iff split: if_splits option.splits)
  then have "codec_ok m' \<and> (held m' u \<longrightarrow> held m u \<and> unit_key u \<noteq> ?k) \<and> (held m u \<longrightarrow> unObjectID u \<noteq> ?o \<longrightarrow> held m' u)"
  proof cases
    case 1
    have "map_of m' l = (case map_of m l of None \<Rightarrow> None | Some v \<Rightarrow> if unObjectID v \<noteq> ?o then Some v else None)" for l
      unfolding 1 map_of_filter_distinct [OF d] by (simp split: option.split)
    moreover have "codec_ok m'" using assms(1) unfolding 1 codec_ok_def by (auto simp: distinct_map_filter list_all_iff)
    ultimately show ?thesis using key by (auto simp: held_def split: option.splits if_splits)
  next
    case 2
    have "codec_ok m'" using assms(1) unfolding 2 codec_ok_def
      by (auto simp: distinct_delete list_all_iff AList.delete_eq distinct_map_filter)
    then show ?thesis using key unfolding 2 by (auto simp: held_def delete_conv split: if_splits)
  qed
  then show "codec_ok m'" "held m' u \<Longrightarrow> held m u \<and> unit_key u \<noteq> ?k"
    "held m u \<Longrightarrow> unObjectID u \<noteq> ?o \<Longrightarrow> held m' u" by blast+
qed

lemma codec_step_put:
  assumes "codec_ok m" "key_safe (opAddress op)" "opOp op \<noteq> OpRemove" "codec_step sha prov op (m, del) = Inr (m', del')"
  shows "codec_ok m'"
    "held m' u \<longleftrightarrow> (if unit_key u = AddressKey (opAddress op) then u = put_unit sha prov op (map_of m (unit_key u)) else held m u)"
proof -
  let ?u = "put_unit sha prov op (map_of m (AddressKey (opAddress op)))"
  have m': "m' = AList.update (AddressKey (opAddress op)) ?u m"
    using assms(3,4) by (auto simp: codec_step_def codec_put_def Let_def rbind_Inr_iff)
  have "unit_ok ?u" using assms(2) by (simp add: unit_ok_def)
  then show "codec_ok m'" using codec_ok_update [OF assms(1), of ?u] unfolding m' by simp
  show "held m' u \<longleftrightarrow> (if unit_key u = AddressKey (opAddress op) then u = put_unit sha prov op (map_of m (unit_key u)) else held m u)"
    unfolding m' by (auto simp: held_def map_simps)
qed

definition left_by :: "(string \<Rightarrow> string) \<Rightarrow> ProvenanceEnvelope option \<Rightarrow> Operation list \<Rightarrow> unit_map \<Rightarrow> Unit \<Rightarrow> bool" where
  "left_by sha prov ops m u =
    ((held m u \<and> unit_key u \<notin> set (map (AddressKey \<circ> opAddress) ops)) \<or>
     (\<exists>op cur. op \<in> set ops \<and> opOp op \<noteq> OpRemove \<and> u = put_unit sha prov op cur \<and>
       (\<forall>c. cur = Some c \<longrightarrow> held m c \<and> unit_key c = unit_key u)))"

lemma left_by_step:
  assumes "left_by sha prov ops m1 u" and "codec_step sha prov op (m, del) = Inr (m1, del1)" "codec_ok m"
    and "key_safe (opAddress op)" "AddressKey (opAddress op) \<notin> set (map (AddressKey \<circ> opAddress) ops)"
  shows "left_by sha prov (op # ops) m u"
proof -
  let ?k = "AddressKey (opAddress op)"
  have old: "held m c" if "held m1 c" "unit_key c \<noteq> ?k" for c
    using codec_step_removed(2) [OF assms(3,4) _ assms(2), of c] codec_step_put(2) [OF assms(3,4) _ assms(2), of c] that
    by (cases "opOp op = OpRemove") auto
  consider "held m1 u" "unit_key u \<notin> set (map (AddressKey \<circ> opAddress) ops)"
    | op2 cur where "op2 \<in> set ops" "opOp op2 \<noteq> OpRemove" "u = put_unit sha prov op2 cur"
      "\<forall>c. cur = Some c \<longrightarrow> held m1 c \<and> unit_key c = unit_key u"
    using assms(1) unfolding left_by_def by blast
  then show ?thesis
  proof cases
    case 1
    show ?thesis
    proof (cases "unit_key u = ?k")
      case True
      have put: "opOp op \<noteq> OpRemove" using codec_step_removed(2) [OF assms(3,4) _ assms(2) 1(1)] True by blast
      then have "u = put_unit sha prov op (map_of m (unit_key u))"
        using codec_step_put(2) [OF assms(3,4) put assms(2), of u] 1(1) True by simp
      moreover have "held m c \<and> unit_key c = unit_key u" if "map_of m (unit_key u) = Some c" for c
        using codec_okD [OF assms(3) that] that by (simp add: held_def)
      ultimately show ?thesis unfolding left_by_def using put by (meson list.set_intros(1))
    qed (use 1 old in \<open>simp add: left_by_def\<close>)
  next
    case (2 op2 cur)
    have "AddressKey (opAddress op2) \<in> set (map (AddressKey \<circ> opAddress) ops)" using 2(1) by auto
    then have "unit_key u \<noteq> ?k" using assms(5) 2(3) by auto
    then have "\<forall>c. cur = Some c \<longrightarrow> held m c \<and> unit_key c = unit_key u" using 2(4) old by metis
    moreover have "op2 \<in> set (op # ops)" using 2(1) by simp
    ultimately show ?thesis unfolding left_by_def using 2(2,3) by blast
  qed
qed

lemma codec_step_ok:
  "codec_ok m \<Longrightarrow> key_safe (opAddress op) \<Longrightarrow> codec_step sha prov op (m, del) = Inr (m', del') \<Longrightarrow> codec_ok m'"
  using codec_step_removed(1) codec_step_put(1) by blast

lemma codec_loop_unit:
  assumes "codec_loop sha prov ops (m, del) = Inr (m', del')" "codec_ok m"
    and "list_all (\<lambda>op. key_safe (opAddress op)) ops" "distinct (map (AddressKey \<circ> opAddress) ops)"
  shows "codec_ok m' \<and> (held m' u \<longrightarrow> left_by sha prov ops m u)"
  using assms
proof (induction ops arbitrary: m del)
  case (Cons op ops)
  obtain m1 del1 where s: "codec_step sha prov op (m, del) = Inr (m1, del1)"
    "codec_loop sha prov ops (m1, del1) = Inr (m', del')"
    using Cons.prems(1) by (auto simp: rbind_Inr_iff)
  have safe: "key_safe (opAddress op)" using Cons.prems(3) by simp
  show ?case
    using Cons.IH [OF s(2) codec_step_ok [OF Cons.prems(2) safe s(1)]] left_by_step [OF _ s(1) Cons.prems(2) safe] Cons.prems(3,4)
    by simp
qed (simp add: left_by_def)

lemma codec_loop_other_object:
  assumes "codec_loop sha prov ops (m, del) = Inr (m', del')" "codec_ok m"
    and "list_all (\<lambda>op. key_safe (opAddress op) \<and> adObject (opAddress op) \<noteq> k) ops" "unObjectID u = k"
  shows "held m u \<Longrightarrow> held m' u"
  using assms
proof (induction ops arbitrary: m del)
  case (Cons op ops)
  obtain m1 del1 where s: "codec_step sha prov op (m, del) = Inr (m1, del1)"
    "codec_loop sha prov ops (m1, del1) = Inr (m', del')"
    using Cons.prems(2) by (auto simp: rbind_Inr_iff)
  have safe: "key_safe (opAddress op)" and other: "unObjectID u \<noteq> adObject (opAddress op)" using Cons.prems(4,5) by auto
  have "held m1 u"
  proof (cases "opOp op = OpRemove")
    case True
    then show ?thesis using codec_step_removed(3) [OF Cons.prems(3) safe True s(1)] Cons.prems(1) other by blast
  next
    case False
    have "unit_ok u" using codec_okD [OF Cons.prems(3)] Cons.prems(1) by (auto simp: held_def)
    then have "unit_key u \<noteq> AddressKey (opAddress op)" using same_key_object(1) safe other by blast
    then show ?thesis using codec_step_put(2) [OF Cons.prems(3) safe False s(1)] Cons.prems(1) by simp
  qed
  then show ?case using Cons.IH [OF _ s(2) codec_step_ok [OF Cons.prems(3) safe s(1)]] Cons.prems(4,5) by simp
qed simp

lemma codec_loop_only_put:
  assumes "codec_loop sha prov ops (m, del) = Inr (m', del')" "codec_ok m"
    and "list_all (\<lambda>op. key_safe (opAddress op)) ops" "op \<in> set ops" "opOp op \<noteq> OpRemove" "distinct ops"
    and "\<And>op2. op2 \<in> set ops \<Longrightarrow> adObject (opAddress op2) = adObject (opAddress op) \<Longrightarrow> op2 = op"
  shows "\<exists>cur. held m' (put_unit sha prov op cur)"
  using assms
proof (induction ops arbitrary: m del)
  case (Cons x ops)
  obtain m1 del1 where s: "codec_step sha prov x (m, del) = Inr (m1, del1)"
    "codec_loop sha prov ops (m1, del1) = Inr (m', del')"
    using Cons.prems(1) by (auto simp: rbind_Inr_iff)
  have safe: "key_safe (opAddress x)" using Cons.prems(3) by simp
  show ?case
  proof (cases "x = op")
    case True
    let ?u = "put_unit sha prov op (map_of m (AddressKey (opAddress op)))"
    have put: "opOp x \<noteq> OpRemove" using Cons.prems(5) True by simp
    note r = codec_step_put [OF Cons.prems(2) safe put s(1)]
    have "held m1 ?u" using r(2) [of ?u] True by simp
    moreover have "list_all (\<lambda>o2. key_safe (opAddress o2) \<and> adObject (opAddress o2) \<noteq> unObjectID ?u) ops"
      using Cons.prems(3,6,7) True by (auto simp: list_all_iff)
    ultimately have "held m' ?u" using codec_loop_other_object [OF s(2) r(1)] by blast
    then show ?thesis by blast
  next
    case False
    show ?thesis using Cons.IH [OF s(2) codec_step_ok [OF Cons.prems(2) safe s(1)]] Cons.prems False by simp
  qed
qed simp

section \<open>The units of the basis\<close>

definition units_ok :: "Unit list \<Rightarrow> bool" where
  "units_ok us = (distinct (map unit_key us) \<and> list_all unit_ok us)"

lemma blob_key: "unit_ok u \<Longrightarrow> IsEntityBlob (unAddress u) \<Longrightarrow> unit_key u = AddressKey (whole_object (unObjectID u))"
  by (simp add: unit_ok_def unit_key_def IsEntityBlob_def AddressKey_def whole_object_def)

lemma blob_at_iff:
  assumes "units_ok us"
  shows "blob_at us k = Some u \<longleftrightarrow> u \<in> set us \<and> unObjectID u = k \<and> IsEntityBlob (unAddress u)"
proof -
  have uniq: "u = v" if "u \<in> set us" "v \<in> set us" "unObjectID u = k" "unObjectID v = k"
    "IsEntityBlob (unAddress u)" "IsEntityBlob (unAddress v)" for u v
  proof -
    have "unit_key u = unit_key v" using blob_key [of u] blob_key [of v] assms that by (auto simp: units_ok_def list_all_iff)
    then show ?thesis using assms that(1,2) by (auto simp: units_ok_def distinct_map inj_on_def)
  qed
  show ?thesis
  proof
    assume "blob_at us k = Some u"
    then show "u \<in> set us \<and> unObjectID u = k \<and> IsEntityBlob (unAddress u)"
      by (auto simp: blob_at_def find_Some_iff)
  next
    assume u: "u \<in> set us \<and> unObjectID u = k \<and> IsEntityBlob (unAddress u)"
    then obtain v where v: "blob_at us k = Some v"
      by (cases "blob_at us k") (auto simp: blob_at_def find_None_iff)
    then have "v \<in> set us \<and> unObjectID v = k \<and> IsEntityBlob (unAddress v)" by (auto simp: blob_at_def find_Some_iff)
    then show "blob_at us k = Some u" using v uniq u by blast
  qed
qed

lemma native_mem:
  assumes "tree_ok idx" "distinct (map fst (utUnits idx))"
  shows "u \<in> set (native_units idx) \<longleftrightarrow> (\<exists>f. map_of (utUnits idx) (unit_key f) = Some f \<and> u = Unit.truncate f)"
proof
  assume "u \<in> set (native_units idx)"
  then obtain k f where f: "(k, f) \<in> set (utUnits idx)" "u = Unit.truncate f" by (auto simp: native_units_def)
  then have "map_of (utUnits idx) k = Some f" using assms(2) by simp
  then show "\<exists>f. map_of (utUnits idx) (unit_key f) = Some f \<and> u = Unit.truncate f"
    using f(2) tree_okD(1) [OF assms(1)] by blast
next
  assume "\<exists>f. map_of (utUnits idx) (unit_key f) = Some f \<and> u = Unit.truncate f"
  then show "u \<in> set (native_units idx)" by (force simp: native_units_def dest: map_of_SomeD)
qed

lemma native_units_ok:
  assumes "tree_ok idx" "distinct (map fst (utUnits idx))"
  shows "units_ok (native_units idx)"
proof -
  have key: "k = unit_key u \<and> unit_ok u" if "(k, u) \<in> set (utUnits idx)" for k u
    using tree_okD(1) [OF assms(1), of k u] assms(2) that by simp
  then have "map unit_key (native_units idx) = map fst (utUnits idx)" by (auto simp: native_units_def)
  moreover have "list_all unit_ok (native_units idx)" using key by (auto simp: native_units_def list_all_iff)
  ultimately show ?thesis using assms(2) by (simp add: units_ok_def)
qed

lemma working_set:
  assumes "units_ok us"
  defines "m \<equiv> foldl (\<lambda>m u. AList.update (unit_key u) u m) [] us"
  shows "codec_ok m" "held m u \<longleftrightarrow> u \<in> set us"
proof -
  have us: "list_all unit_ok us" "distinct (map unit_key us)" using assms(1) by (simp_all add: units_ok_def)
  show "codec_ok m" unfolding m_def by (rule foldl_update_units(1) [OF us(1)]) (simp add: codec_ok_def)
  have m: "map_of m k = find (\<lambda>u. unit_key u = k) us" for k
    unfolding m_def foldl_update_units(2) [OF us(1) _ us(2), of "[]", simplified codec_ok_def, simplified] by (simp split: option.split)
  show "held m u \<longleftrightarrow> u \<in> set us"
  proof
    assume "held m u"
    then show "u \<in> set us" unfolding held_def m by (auto simp: find_Some_iff)
  next
    assume u: "u \<in> set us"
    then obtain v where v: "find (\<lambda>v. unit_key v = unit_key u) us = Some v"
      by (cases "find (\<lambda>v. unit_key v = unit_key u) us") (auto simp: find_None_iff)
    then have "v \<in> set us" "unit_key v = unit_key u" by (auto simp: find_Some_iff)
    then have "v = u" using us(2) u by (auto simp: distinct_map inj_on_def)
    then show "held m u" unfolding held_def m using v by simp
  qed
qed

lemma final_units:
  assumes "codec_ok m"
  shows "units_ok (sort_key unit_key (map snd m))" "u \<in> set (sort_key unit_key (map snd m)) \<longleftrightarrow> held m u"
proof -
  have "map unit_key (map snd m) = map fst m" using assms by (auto simp: codec_ok_def list_all_iff)
  then have "distinct (map unit_key (map snd m))" using assms by (simp add: codec_ok_def del: map_map)
  moreover have "list_all unit_ok (map snd m)" using assms by (auto simp: codec_ok_def list_all_iff)
  moreover have "mset (map unit_key (sort_key unit_key (map snd m))) = mset (map unit_key (map snd m))"
    by (simp del: map_map)
  ultimately show "units_ok (sort_key unit_key (map snd m))"
    unfolding units_ok_def by (metis mset_eq_imp_distinct_iff list_all_iff set_sort)
  show "u \<in> set (sort_key unit_key (map snd m)) \<longleftrightarrow> held m u" using held_mem [OF assms] by simp
qed

section \<open>What the resolver reads\<close>

lemma schema_units:
  assumes "tree_ok idx" "distinct (map fst (utUnits idx))" "locators_agree lib r idx" "conforms lib (native_units idx)"
    and "IsSchemaObject k"
  shows "(object_units lib r k = Inr [] \<and> blob_at (native_units idx) k = None) \<or>
    (\<exists>f. object_units lib r k = Inr [f] \<and> IsEntityBlob (unAddress f) \<and> blob_at (native_units idx) k = Some (Unit.truncate f))"
proof -
  note E = native_units_ok [OF assms(1,2)] and mem = native_mem [OF assms(1,2)]
  obtain us where us: "object_units lib r k = Inr us" "distinct us" "set us = set (ObjectUnits idx k)"
    using assms(3) unfolding locators_agree_def by blast
  have u: "map_of (utUnits idx) (unit_key f) = Some f \<and> unObjectID f = k" if "f \<in> set us" for f
    using that us(3) tree_okD(3) [OF assms(1)] by auto
  have b: "IsEntityBlob (unAddress f) \<and> blob_at (native_units idx) k = Some (Unit.truncate f)" if "f \<in> set us" for f
  proof -
    have m: "Unit.truncate f \<in> set (native_units idx)" using u [OF that] mem by blast
    have t: "unObjectID (Unit.truncate f) = k" "unAddress (Unit.truncate f) = unAddress f"
      using u [OF that] by (simp_all add: Unit.defs)
    then have "IsEntityBlob (unAddress f)" using assms(4,5) m by (auto simp: conforms_def list_all_iff unit_conforms_def)
    then show ?thesis using blob_at_iff [OF E] m t by simp
  qed
  have same: "f = g" if "f \<in> set us" "g \<in> set us" for f g
  proof -
    have "unit_key f = unit_key g"
      using b [OF that(1)] b [OF that(2)] by (metis option.inject truncate_key(1))
    then show ?thesis using u that by (metis option.inject)
  qed
  show ?thesis
  proof (cases us)
    case Nil
    have "blob_at (native_units idx) k = None"
    proof (rule ccontr)
      assume "blob_at (native_units idx) k \<noteq> None"
      then obtain v where "v \<in> set (native_units idx)" "unObjectID v = k" using blob_at_iff [OF E] by blast
      then obtain f where "map_of (utUnits idx) (unit_key f) = Some f" "unObjectID f = k" using mem by (auto simp: Unit.defs)
      then have "f \<in> set us" using us(3) tree_okD(3) [OF assms(1)] by auto
      then show False using Nil by simp
    qed
    then show ?thesis using us(1) Nil by simp
  next
    case (Cons f fs)
    have "fs = []"
    proof (cases fs)
      case (Cons g gs)
      then have "f = g" using same [of f g] \<open>us = f # fs\<close> by simp
      then show ?thesis using us(2) \<open>us = f # fs\<close> Cons by simp
    qed
    then show ?thesis using us(1) b [of f] Cons by simp
  qed
qed

lemma basis_schema_value:
  assumes "tree_ok idx" "distinct (map fst (utUnits idx))" "locators_agree lib r idx" "conforms lib (native_units idx)"
    and "IsSchemaObject k" "rvNative r = None"
  shows "schemaValue lib r k (rvAt r) =
    (case blob_at (native_units idx) k of None \<Rightarrow> fails ErrSchemaRevisionUnresolved | Some u \<Rightarrow> Inr (unValue u))"
proof -
  have tree: "rvTree r \<noteq> None"
  proof
    assume "rvTree r = None"
    then have "object_units lib r k = fails ErrSchemaRevisionUnresolved" by (simp add: object_units_def)
    then show False using assms(3) unfolding locators_agree_def by (metis sum.distinct(1))
  qed
  have "repo_Assemble [f] = Inr (unValue f)" if "IsEntityBlob (unAddress f)" for f
    using that by (simp add: repo_Assemble_def Assemble_def Unit.defs)
  then show ?thesis
    using schema_units [OF assms(1-5)] tree assms(6) by (auto simp: schemaValue_def Unit.defs)
qed

lemma referrer_found:
  assumes "tree_ok idx" "treeIndex lib r (rvAt r) = Inr idx" "rvNative r = None"
    and "map_of (utUnits idx) (unit_key f) = Some f" "\<not> IsSchemaObject (unObjectID f)" "ParseSchemaRef (unSchemaRef f) = Some p"
  shows "\<exists>addresses. referrers lib r (psObject p) = Inr addresses \<and> unAddress f \<in> set addresses"
proof -
  have "unObjectID f = adObject (unAddress f)" using tree_okD(1) [OF assms(1,4)] by (simp add: unit_ok_def)
  moreover have "f \<in> set (map snd (utUnits idx))" using assms(4) by (force dest: map_of_SomeD)
  ultimately show ?thesis using assms(2,3,5,6) by (auto simp: referrers_def intro!: image_eqI [of _ _ f])
qed

lemma drafts_step:
  assumes "schema_drafts_of lib (x # ops) drafts0 = Inr drafts"
  obtains drafts1 where "schema_drafts_of lib ops drafts1 = Inr drafts"
    "(opOp x = OpPut \<and> IsSchemaObject (adObject (opAddress x)) \<and>
       (\<exists>e. ParseSchemaDefinition (wl_schema lib) (adObject (opAddress x)) (opValue x) = Inr e \<and>
        drafts1 = AList.update (adObject (opAddress x)) e drafts0)) \<or>
     \<not> (opOp x = OpPut \<and> IsSchemaObject (adObject (opAddress x))) \<and> drafts1 = drafts0"
  using assms by (auto simp: Let_def rbind_Inr_iff split: if_splits)

lemma drafts_keep:
  "schema_drafts_of lib ops drafts0 = Inr drafts \<Longrightarrow> map_of drafts0 l \<noteq> None \<Longrightarrow> map_of drafts l \<noteq> None"
  by (induction ops arbitrary: drafts0) (auto simp: map_simps elim!: drafts_step simp del: schema_drafts_of.simps(2))

lemma drafts_of:
  assumes "schema_drafts_of lib ops drafts0 = Inr drafts"
  shows "map_of drafts k = Some d \<Longrightarrow> map_of drafts0 k = Some d \<or>
      (\<exists>op \<in> set ops. opOp op = OpPut \<and> adObject (opAddress op) = k \<and> IsSchemaObject k \<and>
        ParseSchemaDefinition (wl_schema lib) k (opValue op) = Inr d)"
    and "op \<in> set ops \<Longrightarrow> opOp op = OpPut \<Longrightarrow> IsSchemaObject (adObject (opAddress op)) \<Longrightarrow>
      map_of drafts (adObject (opAddress op)) \<noteq> None"
  using assms
proof (induction ops arbitrary: drafts0)
  case (Cons x ops)
  let ?k = "adObject (opAddress x)"
  { case 1
    obtain drafts1 where d1: "schema_drafts_of lib ops drafts1 = Inr drafts"
      "(opOp x = OpPut \<and> IsSchemaObject ?k \<and> (\<exists>e. ParseSchemaDefinition (wl_schema lib) ?k (opValue x) = Inr e \<and>
        drafts1 = AList.update ?k e drafts0)) \<or> \<not> (opOp x = OpPut \<and> IsSchemaObject ?k) \<and> drafts1 = drafts0"
      using 1(2) by (rule drafts_step)
    from Cons.IH(1) [OF 1(1) d1(1)] show ?case using d1(2) by (auto simp: map_simps split: if_splits)
  next
    case 2
    obtain drafts1 where d1: "schema_drafts_of lib ops drafts1 = Inr drafts"
      "(opOp x = OpPut \<and> IsSchemaObject ?k \<and> (\<exists>e. ParseSchemaDefinition (wl_schema lib) ?k (opValue x) = Inr e \<and>
        drafts1 = AList.update ?k e drafts0)) \<or> \<not> (opOp x = OpPut \<and> IsSchemaObject ?k) \<and> drafts1 = drafts0"
      using 2(4) by (rule drafts_step)
    show ?case
    proof (cases "op = x")
      case True
      then have "map_of drafts1 ?k \<noteq> None" using d1(2) 2(2,3) by (auto simp: map_simps)
      from drafts_keep [OF d1(1) this] show ?thesis using True by simp
    next
      case False
      then show ?thesis using Cons.IH(2) [OF _ 2(2,3) d1(1)] 2(1) by simp
    qed }
qed simp_all

lemma accepted_change_set:
  assumes "validateSchemaRefs lib sops caps cs s = Inr ()" "newSchemaResolver sops caps cs s = Inr r"
  obtains drafts where "schema_drafts_of lib (csOperations cs) [] = Inr drafts"
    "\<And>k d. map_of drafts k = Some d \<Longrightarrow> checkSchemaUpdate lib r k d (removed_addresses (csOperations cs))
       (map (AddressKey \<circ> opAddress) (instance_puts (csOperations cs))) = Inr ()"
    "\<And>k. k \<in> set (removed_schemas (csOperations cs)) \<Longrightarrow> checkSchemaRemoval lib r k (removed_addresses (csOperations cs)) = Inr ()"
    "\<And>op. op \<in> set (instance_puts (csOperations cs)) \<Longrightarrow> check_instance lib r drafts op = Inr ()"
proof -
  let ?ops = "csOperations cs"
  obtain drafts where d: "schema_drafts_of lib ?ops [] = Inr drafts"
    using assms(1) by (auto simp: validateSchemaRefs_def Let_def rbind_Inr_iff)
  show ?thesis
  proof (cases "instance_puts ?ops = [] \<and> drafts = [] \<and> removed_schemas ?ops = []")
    case True
    show ?thesis by (rule that [OF d]) (use True in auto)
  next
    case False
    then have c: "each_ok (\<lambda>k. case map_of drafts k of None \<Rightarrow> Inr () | Some d \<Rightarrow> checkSchemaUpdate lib r k d (removed_addresses ?ops)
          (map (AddressKey \<circ> opAddress) (instance_puts ?ops))) (sort (map fst drafts)) = Inr ()"
      "each_ok (\<lambda>k. checkSchemaRemoval lib r k (removed_addresses ?ops)) (sort (removed_schemas ?ops)) = Inr ()"
      "each_ok (check_instance lib r drafts) (instance_puts ?ops) = Inr ()"
      using assms d by (auto simp: validateSchemaRefs_def Let_def rbind_Inr_iff)
    show ?thesis
    proof (rule that [OF d])
      fix k d
      assume k: "map_of drafts k = Some d"
      then have "k \<in> set (sort (map fst drafts))" by (force dest: map_of_SomeD)
      then show "checkSchemaUpdate lib r k d (removed_addresses ?ops) (map (AddressKey \<circ> opAddress) (instance_puts ?ops)) = Inr ()"
        using c(1) k by (auto simp: each_ok_iff)
    qed (use c(2,3) in \<open>auto simp: each_ok_iff\<close>)
  qed
qed

section \<open>The contract holds after an accepted change set\<close>

lemma units_after:
  assumes "plain_changes ops" "units_ok us" "codec_Apply sha us ops prov = Inr (final, deleted)"
  shows "units_ok final"
    "u \<in> set final \<Longrightarrow> (u \<in> set us \<and> unit_key u \<notin> set (map (AddressKey \<circ> opAddress) ops)) \<or>
      (\<exists>op cur. op \<in> set ops \<and> opOp op = OpPut \<and> u = put_unit sha prov op cur \<and>
        (\<forall>c. cur = Some c \<longrightarrow> c \<in> set us \<and> unit_key c = unit_key u))"
    "(\<And>op. op \<in> set ops \<Longrightarrow> adObject (opAddress op) \<noteq> k) \<Longrightarrow> blob_at final k = blob_at us k"
    "op \<in> set ops \<Longrightarrow> opOp op = OpPut \<Longrightarrow> IsSchemaObject (adObject (opAddress op)) \<Longrightarrow>
      \<exists>cur. blob_at final (adObject (opAddress op)) = Some (put_unit sha prov op cur)"
proof -
  let ?m = "foldl (\<lambda>m u. AList.update (unit_key u) u m) [] us"
  note W = working_set [OF assms(2)]
  obtain m' del' where run: "codec_loop sha prov ops (?m, []) = Inr (m', del')" and final: "final = sort_key unit_key (map snd m')"
    using assms(3) by (auto simp: codec_Apply_def rbind_Inr_iff)
  have plain: "list_all (plain_operation ops) ops" and d: "distinct (map (AddressKey \<circ> opAddress) ops)"
    using assms(1) by (simp_all add: plain_changes_def)
  have safe: "list_all (\<lambda>op. key_safe (opAddress op)) ops" and ops: "\<And>op. op \<in> set ops \<Longrightarrow> opOp op \<in> {OpPut, OpRemove}"
    using plain by (auto simp: list_all_iff plain_operation_def)
  have put: "opOp op = OpPut \<longleftrightarrow> opOp op \<noteq> OpRemove" if "op \<in> set ops" for op
    using ops [OF that] by (auto simp: OpPut_def OpRemove_def)
  note L = codec_loop_unit [OF run W(1) safe d]
  then have ok: "codec_ok m'" by blast
  note F = final_units [OF ok, folded final]
  show "units_ok final" by (rule F(1))
  show after: "(u \<in> set us \<and> unit_key u \<notin> set (map (AddressKey \<circ> opAddress) ops)) \<or>
      (\<exists>op cur. op \<in> set ops \<and> opOp op = OpPut \<and> u = put_unit sha prov op cur \<and>
        (\<forall>c. cur = Some c \<longrightarrow> c \<in> set us \<and> unit_key c = unit_key u))" if "u \<in> set final" for u
    using L [of u] F(2) that put unfolding left_by_def W(2) by blast
  have kept: "u \<in> set final" if "u \<in> set us" "unObjectID u = k" "\<And>op. op \<in> set ops \<Longrightarrow> adObject (opAddress op) \<noteq> k" for u k
    using codec_loop_other_object [OF run W(1), of k u] safe that F(2) W(2) by (simp add: list_all_iff)
  show "blob_at final k = blob_at us k" if none: "\<And>op. op \<in> set ops \<Longrightarrow> adObject (opAddress op) \<noteq> k"
  proof -
    have "u \<in> set final \<longleftrightarrow> u \<in> set us" if "unObjectID u = k" for u
    proof
      assume "u \<in> set final"
      moreover have "u \<noteq> put_unit sha prov op cur" if "op \<in> set ops" for op cur
        using none [OF that] \<open>unObjectID u = k\<close> by auto
      ultimately show "u \<in> set us" using after by blast
    qed (use kept [OF _ that none] in blast)
    then have "blob_at final k = Some u \<longleftrightarrow> blob_at us k = Some u" for u
      using blob_at_iff [OF F(1)] blob_at_iff [OF assms(2)] by blast
    then show ?thesis by (metis not_None_eq)
  qed
  show "\<exists>cur. blob_at final (adObject (opAddress op)) = Some (put_unit sha prov op cur)"
    if op: "op \<in> set ops" "opOp op = OpPut" "IsSchemaObject (adObject (opAddress op))"
  proof -
    have blob: "IsEntityBlob (opAddress o2)" if "o2 \<in> set ops" "IsSchemaObject (adObject (opAddress o2))" for o2
      using plain that by (auto simp: list_all_iff plain_operation_def)
    have only: "o2 = op" if o2: "o2 \<in> set ops" "adObject (opAddress o2) = adObject (opAddress op)" for o2
    proof -
      have "AddressKey (opAddress o2) = AddressKey (opAddress op)"
        using blob [OF op(1,3)] blob [OF o2(1)] op(3) o2(2) by (simp add: AddressKey_def IsEntityBlob_def)
      then show ?thesis using d op(1) o2(1) by (auto simp: distinct_map inj_on_def)
    qed
    have "distinct ops" using d by (simp add: distinct_map)
    moreover have "opOp op \<noteq> OpRemove" using put [OF op(1)] op(2) by simp
    ultimately obtain cur where "held m' (put_unit sha prov op cur)"
      using codec_loop_only_put [OF run W(1) safe op(1)] only by blast
    then show ?thesis using blob_at_iff [OF F(1)] F(2) blob [OF op(1,3)] by auto
  qed
qed

lemma opkeys_iff: "k \<in> set (map (AddressKey \<circ> opAddress) ops) \<longleftrightarrow> (\<exists>op \<in> set ops. AddressKey (opAddress op) = k)"
  by auto

text \<open>The reference a PUT is checked against is the one it stores.\<close>

lemma effective_ref:
  assumes "tree_ok idx" "distinct (map fst (utUnits idx))" "locators_agree lib r idx" "rvNative r = None"
    and "key_safe (opAddress op)"
    and "\<And>c. cur = Some c \<Longrightarrow> c \<in> set (native_units idx) \<and> unit_key c = AddressKey (opAddress op)"
    and "ParseSchemaRef (unSchemaRef (put_unit sha prov op cur)) = Some p"
  shows "effectiveSchemaRef lib r op = Inr (TrimSpace (unSchemaRef (put_unit sha prov op cur)))"
    "TrimSpace (unSchemaRef (put_unit sha prov op cur)) \<noteq> []"
proof -
  show ne: "TrimSpace (unSchemaRef (put_unit sha prov op cur)) \<noteq> []"
    using assms(7) by (auto simp: ParseSchemaRef_def Let_def)
  show "effectiveSchemaRef lib r op = Inr (TrimSpace (unSchemaRef (put_unit sha prov op cur)))"
  proof (cases "opSchemaRef op = []")
    case False
    then show ?thesis using ne by (simp add: effectiveSchemaRef_def put_unit_def)
  next
    case True
    then obtain c where cur: "cur = Some c" using ne by (cases cur) (simp_all add: put_unit_def)
    obtain f where f: "map_of (utUnits idx) (unit_key f) = Some f" "c = Unit.truncate f"
      using assms(6) [OF cur] native_mem [OF assms(1,2)] by blast
    have key: "unit_key f = AddressKey (opAddress op)" using assms(6) [OF cur] f(2) by simp
    have "unit_ok f" using tree_okD(1) [OF assms(1) f(1)] by blast
    then have obj: "unObjectID f = adObject (opAddress op)" using same_key_object(1) key assms(5) by blast
    obtain us where us: "object_units lib r (adObject (opAddress op)) = Inr us" "set us = set (ObjectUnits idx (adObject (opAddress op)))"
      using assms(3) unfolding locators_agree_def by blast
    have mem: "g \<in> set us \<longleftrightarrow> map_of (utUnits idx) (unit_key g) = Some g \<and> unObjectID g = adObject (opAddress op)" for g
      using us(2) tree_okD(3) [OF assms(1)] by simp
    have "find (\<lambda>u. unit_key u = AddressKey (opAddress op)) us = Some f"
    proof -
      have "f \<in> set us" using mem f(1) obj by blast
      then obtain g where g: "find (\<lambda>u. unit_key u = AddressKey (opAddress op)) us = Some g"
        using key by (cases "find (\<lambda>u. unit_key u = AddressKey (opAddress op)) us") (auto simp: find_None_iff)
      then have "g \<in> set us" "unit_key g = AddressKey (opAddress op)" by (auto simp: find_Some_iff)
      then have "g = f" using mem key f(1) by simp
      then show ?thesis using g by simp
    qed
    then show ?thesis using True cur f(2) assms(4) us(1)
      by (simp add: effectiveSchemaRef_def put_unit_def Unit.defs)
  qed
qed


text \<open>An empty repository, to which a schema and an instance are added.\<close>

definition demo_writer_lib :: writer_lib where
  "demo_writer_lib = \<lparr>wlLoc = demo_locators, wlCodec = demo_json_lib, wlSystem = []\<rparr>"

definition person_doc :: json where
  "person_doc = JObject [(''entity'', JString ''person''), (''fields'', JObject
     [(''name'', JObject [(''type'', JString ''string''), (''required'', JBool True)])])]"

definition put_schema :: "string \<Rightarrow> Operation" where
  "put_schema k = put_op (whole_object k) person_doc []"

definition put_person :: "string \<Rightarrow> json \<Rightarrow> string \<Rightarrow> Operation" where
  "put_person k v ref = (put_op (whole_object k) v [])\<lparr>opSchemaRef := ref\<rparr>"

definition ada :: json where "ada = JObject [(''name'', JString ''Ada'')]"

definition changes_of :: "Operation list \<Rightarrow> ChangeSet" where
  "changes_of ops = demo_change_set\<lparr>csOperations := ops\<rparr>"

definition accepted :: "Operation list \<Rightarrow> bool" where
  "accepted ops = (validateSchemaRefs demo_writer_lib memory_ops (memory_caps demo_id) (changes_of ops) demo_base = Inr ())"

definition units_left :: "Operation list \<Rightarrow> Unit list go" where
  "units_left ops = map_sum (\<lambda>e. e) fst (codec_Apply (\<lambda>t. t) [] ops None)"

definition demo_resolver :: "memoryStore schemaResolver" where
  "demo_resolver = \<lparr>rvStore = demo_base, rvID = ''kr://a/b'', rvHasCommit = (\<lambda>c. ms_HasCommit c demo_base), rvNative = None,
     rvTree = cpTree (memory_caps demo_id) demo_base, rvAt = ''root''\<rparr>"

lemma demo_resolver_new:
  "newSchemaResolver memory_ops (memory_caps demo_id) (changes_of ops) demo_base = Inr demo_resolver"
  by (simp add: newSchemaResolver_def demo_resolver_def memory_caps_def memory_ops_def changes_of_def demo_change_set_def
      demo_base_def newMemoryStore_def Let_def)

lemma demo_base_reads: "ms_ReadFile name ''root'' demo_base = fails ErrKnowledgeRefUnresolved"
  by (simp add: ms_ReadFile_def demo_base_def newMemoryStore_def demo_root_def Let_def)

lemma demo_locators_agree: "locators_agree demo_writer_lib demo_resolver NewTree"
proof -
  have "ReadObjectLocator loc (reader_of \<lparr>tsRead = ms_ReadFile, tsList = l, tsApply = a\<rparr> demo_base) k ''root'' = Inr []" for loc k l a
    by (simp add: ReadObjectLocator_def reader_of_def demo_base_reads missing_file_def)
  then have "object_units demo_writer_lib demo_resolver k = Inr []" for k
    by (simp add: object_units_def demo_resolver_def memory_caps_def readKnowledgeObject_def NewTree_def ObjectUnits_def)
  then show ?thesis by (simp add: locators_agree_def NewTree_def ObjectUnits_def)
qed


text \<open>Outside the hypotheses: two puts of one address. The second put inherits the reference the first one stores, but is
  checked against the reference at the basis, where there is none.\<close>

lemma second_put_escapes_schema:
  "accepted [put_schema ''schema/p'', put_person ''x'' ada ''schema/p'', put_person ''x'' JNull []]"
  "map_sum id (map (\<lambda>u. (unObjectID u, unSchemaRef u, unValue u)))
     (units_left [put_schema ''schema/p'', put_person ''x'' ada ''schema/p'', put_person ''x'' JNull []]) =
   Inr [(''schema/p'', [], person_doc), (''x'', ''schema/p'', JNull)]"
  by code_simp+

text \<open>A schema that is removed in the change set that adds a reference to it: the reference is checked against the draft,
  the removal against the referrers at the basis.\<close>

lemma removed_schema_leaves_reference:
  "accepted [put_schema ''schema/p'', remove_op (whole_object ''schema/p''), put_person ''x'' ada ''schema/p'']"
  "map_sum id (map (\<lambda>u. (unObjectID u, unSchemaRef u)))
     (units_left [put_schema ''schema/p'', remove_op (whole_object ''schema/p''), put_person ''x'' ada ''schema/p'']) =
   Inr [(''x'', ''schema/p'')]"
  by code_simp+

text \<open>A schema of two aspects is accepted, and which of them it defines depends on the order of a Go map: the assembled
  value is the same object in both orders.\<close>

definition two_aspects :: "json \<Rightarrow> json \<Rightarrow> Operation list" where
  "two_aspects a b = [put_op (aspect_at ''schema/p'' ''a'') a [], put_op (aspect_at ''schema/p'' ''b'') b []]"

definition robot_doc :: json where
  "robot_doc = JObject [(''entity'', JString ''robot'')]"

lemma two_aspect_schema_is_ambiguous:
  "accepted (two_aspects person_doc robot_doc)"
  "map_sum id dfEntity (ParseSchemaDefinition demo_schema_lib ''schema/p'' (JObject [(''a'', person_doc), (''b'', robot_doc)])) = Inr ''person''"
  "map_sum id dfEntity (ParseSchemaDefinition demo_schema_lib ''schema/p'' (JObject [(''b'', robot_doc), (''a'', person_doc)])) = Inr ''robot''"
  by code_simp+

end
