(* ===== verification/WriterRules.thy ===== *)
theory WriterRules
  imports KnowledgeWriter SchemaContract
begin

text \<open>
  Rules of the knowledge writer: a retried commit replays its receipt, a proposal moves no ref but its candidate
  and an applied receipt means that the change set passed the schema contract.
\<close>

section \<open>Calls that succeed\<close>

definition writer_codec_ok :: "writer_codec \<Rightarrow> bool" where
  "writer_codec_ok codec =
    (\<forall>r raw. wcMarshal codec r = Inr raw \<longrightarrow> raw \<noteq> [] \<and> wcUnmarshal codec raw = Inr r)"

lemma writer_codec_receipt:
  assumes "writer_codec_ok codec" "wcMarshal codec r = Inr raw"
  shows "raw \<noteq> []" "wcUnmarshal codec raw = Inr r"
  using assms by (auto simp: writer_codec_ok_def)

lemma applySnapshot_Inr:
  assumes "applySnapshot lib codec sops caps store wr cid surface cs now now2 l world = (Inr receipt, l', world')"
  obtains repo e replayed r where
    "refuseRuntimeSystemMutation wr (csTargetRepository cs) = Inr ()" "validateChangeSet cs = Inr ()"
    "Registry_Get (csTargetRepository cs) (fst world) = Some repo" "\<not> stArchived sops repo"
    "Execute store (wcMarshal codec) cid (wcDigest codec cs) (writer_request surface (stamp_change_set wr cs))
       now now2 (apply_change_set lib sops caps repo cid surface (stamp_change_set wr cs)) l world
       = (Inr (e, replayed), l', world')"
    "wcUnmarshal codec (entReceipt e) = Inr r"
    "receipt = (if replayed then r\<lparr>crDisposition := DispositionReplayed\<rparr> else r)"
  using assms
  by (auto simp: applySnapshot_def Registry_Require_def Let_def split: if_splits option.splits sum.splits prod.splits
      intro!: that)

lemma applySnapshot_open:
  assumes "refuseRuntimeSystemMutation wr (csTargetRepository cs) = Inr ()" "validateChangeSet cs = Inr ()"
    and "Registry_Get (csTargetRepository cs) (fst world) = Some repo" "\<not> stArchived sops repo"
  shows "applySnapshot lib codec sops caps store wr cid surface cs now now2 l world =
    (case Execute store (wcMarshal codec) cid (wcDigest codec cs) (writer_request surface (stamp_change_set wr cs))
       now now2 (apply_change_set lib sops caps repo cid surface (stamp_change_set wr cs)) l world of
      (Inl e, l', world') \<Rightarrow> (Inl e, l', world')
    | (Inr (entry, replayed), l', world') \<Rightarrow>
        (case wcUnmarshal codec (entReceipt entry) of
          Inl e \<Rightarrow> (Inl e, l', world')
        | Inr receipt \<Rightarrow>
            (Inr (if replayed then receipt\<lparr>crDisposition := DispositionReplayed\<rparr> else receipt), l', world')))"
  using assms by (simp add: applySnapshot_def Registry_Require_def Let_def)

lemma apply_change_set_Inr:
  assumes "apply_change_set lib sops caps repo cid surface cs world = (Inr r, world')"
  obtains old commit repo' where "validateSchemaRefs lib sops caps cs repo = Inr ()"
    "stHead sops (csTargetRef cs) repo = Inr old"
    "applyKnowledgeCommit (wlLoc lib) (wlCodec lib) caps cid cs repo = (Inr commit, repo')"
    "r = applied_receipt cid surface cs old commit"
    "fst world' = Registry_Mutate (csTargetRepository cs) repo' (fst world)"
  using assms by (auto simp: apply_change_set_def Let_def split: sum.splits prod.splits intro!: that)

lemma applied_run:
  assumes "writer_codec_ok codec"
    and "Execute store (wcMarshal codec) cid digest request now now2 f l world = (Inr (e, replayed), l', world')"
    and "wcUnmarshal codec (entReceipt e) = Inr r"
    and "crDisposition (if replayed then r\<lparr>crDisposition := DispositionReplayed\<rparr> else r) = DispositionApplied"
  shows "\<not> replayed" "f world = (Inr r, world')"
proof -
  show n: "\<not> replayed" using assms(4) by (auto simp: DispositionApplied_def DispositionReplayed_def)
  then obtain r' where r': "f world = (Inr r', world')" "wcMarshal codec r' = Inr (entReceipt e)"
    using assms(2) Execute_fresh by fastforce
  then show "f world = (Inr r, world')" using writer_codec_receipt(2) [OF assms(1) r'(2)] assms(3) by simp
qed

lemma stamp_projections [simp]:
  "csTargetRepository (stamp_change_set wr cs) = csTargetRepository cs" "csTargetRef (stamp_change_set wr cs) = csTargetRef cs"
  "csBaseCommit (stamp_change_set wr cs) = csBaseCommit cs" "csOperations (stamp_change_set wr cs) = csOperations cs"
  "csExpectedTargetCommit (stamp_change_set wr cs) = csExpectedTargetCommit cs"
  "csProvenance (stamp_change_set wr cs) = csProvenance cs"
  by (simp_all add: stamp_change_set_def)

section \<open>Retries\<close>

lemma CommitIntent_Inr:
  assumes "Writer_CommitIntent lib codec sops caps store wr cid intent now now2 l world = (Inr receipt, l', world')"
  obtains base expected l1 where
    "applySnapshot lib codec sops caps store wr cid SurfaceCommit (intent_change_set intent base expected) now now2 l1 world
      = (Inr receipt, l', world')"
  using assms
  by (auto simp: Writer_CommitIntent_def Writer_Commit_def Let_def split: option.splits prod.splits if_splits sum.splits
      intro!: that)

lemma Execute_request:
  assumes "Execute store marshal cid digest request now now2 f l w = (Inr (e, False), l', w')"
  shows "entRequest e = request" "entCommandID e = cid"
  using assms
  by (auto simp: Execute_def settle_def Let_def reserve_def split: prod.splits sum.splits option.splits if_splits)

lemma Lookup_restart:
  assumes "bbolt_file bb" "bolt_look bb (ledStore l) cid = Some e" "bbOpenRead bb (ledStore l) = Inr ()"
  obtains l1 where "Lookup (Some (BoltStore existing bb pt)) cid (restart l) = (Some e, l1)"
    "map_of (ledEntries l1) cid = Some e"
proof -
  have "opGet (BoltStore existing bb pt) cid (ledStore l) = (Inr (Some e), ledStore l)"
    by (rule bbolt_file.bolt_get_hit [OF assms])
  then have "lookup (Some (BoltStore existing bb pt)) cid (restart l) =
      (Inr (Some e), cacheEntry cid e (restart l\<lparr>ledStore := ledStore l\<rparr>))"
    by (simp add: lookup_def restart_def)
  note found = this lookup_cached_after [OF this]
  show ?thesis by (rule that [OF _ found(2)]) (unfold Lookup_def found(1), simp)
qed

lemma Execute_cached:
  assumes "map_of (ledEntries l) cid = Some e" "entDigest e = digest" "entReceipt e \<noteq> []"
  shows "\<exists>l'. Execute store marshal cid digest request now now2 f l w = (Inr (e, True), l', w)"
proof -
  have "lookup store cid (lockCommand cid l) = (Inr (Some e), lockCommand cid l)"
    using assms(1) by (simp add: lookup_cached)
  note hit = Execute_hit [OF this]
  show ?thesis using assms(2,3) by (simp add: hit)
qed


text \<open>A concrete writer: receipts as in \<open>RawWriter\<close>, the registry with one empty repository.\<close>

definition as_write_receipt :: "CommitReceipt \<Rightarrow> WriteReceipt" where
  "as_write_receipt r = \<lparr>wrReceiptRef = crReceiptRef r, wrCommandID = crCommandID r, wrSurface = crSurface r,
     wrDisposition = crDisposition r, wrResult = \<lparr>wsRepositoryID = coRepositoryID (crResult r), wsCommitID = coCommitID (crResult r),
       wsTargetRef = coTargetRef (crResult r), wsOldCommit = coOldCommit (crResult r), wsNewCommit = coNewCommit (crResult r)\<rparr>\<rparr>"

definition as_commit_receipt :: "WriteReceipt \<Rightarrow> CommitReceipt" where
  "as_commit_receipt r = \<lparr>crReceiptRef = wrReceiptRef r, crCommandID = wrCommandID r, crSurface = wrSurface r,
     crDisposition = wrDisposition r, crResult = \<lparr>coRepositoryID = wsRepositoryID (wrResult r), coCommitID = wsCommitID (wrResult r),
       coTargetRef = wsTargetRef (wrResult r), coOldCommit = wsOldCommit (wrResult r), coNewCommit = wsNewCommit (wrResult r)\<rparr>\<rparr>"

definition demo_writer_codec :: writer_codec where
  "demo_writer_codec = \<lparr>wcDigest = (\<lambda>cs. csMessage cs @ csBaseCommit cs),
     wcMarshal = (\<lambda>r. rwMarshalReceipt demo_raw_codec (as_write_receipt r)),
     wcUnmarshal = (\<lambda>raw. rbind (rwUnmarshalReceipt demo_raw_codec raw) (\<lambda>r. Inr (as_commit_receipt r)))\<rparr>"

lemma demo_writer_codec_ok: "writer_codec_ok demo_writer_codec"
proof -
  have "as_commit_receipt (as_write_receipt r) = r" for r by (simp add: as_commit_receipt_def as_write_receipt_def)
  then show ?thesis
    using raw_codec_receipt [OF demo_raw_codec_ok] by (auto simp: writer_codec_ok_def demo_writer_codec_def)
qed

definition demo_knowledge_writer :: knowledge_writer where
  "demo_knowledge_writer = \<lparr>kwAuthor = ''ann'', kwRequestID = ''r1'', kwRuleID = [], kwSystemPublish = False\<rparr>"

definition demo_intent :: CommitIntent where
  "demo_intent = \<lparr>ciTargetRepository = ''kr://a/b'', ciTargetRef = DefaultRef, ciBaseCommit = [], ciExpectedTargetCommit = [],
     ciOperations = [put_person ''x'' JNull []], ciMessage = ''m'', ciProvenance = None, ciBulkIngest = False\<rparr>"

definition demo_commit :: "CommitReceipt go \<times> (string, stored) gomap option Ledger \<times>
    (memoryStore, (string \<times> string) list) SnapshotStore.Registry \<times> (string \<times> string) list" where
  "demo_commit = Writer_CommitIntent demo_writer_lib demo_writer_codec memory_ops (memory_caps demo_id) (Some demo_store)
     demo_knowledge_writer ''c1'' demo_intent ''t0'' ''t0'' demo_empty (demo_raw_registry, [])"


section \<open>Proposals\<close>

text \<open>Between two registries only the ref \<open>cand\<close> of the repository \<open>target\<close> may have moved.\<close>

definition only_ref :: "string \<Rightarrow> string \<Rightarrow> (memoryStore, 'w) Registry \<Rightarrow> (memoryStore, 'w) Registry \<Rightarrow> bool" where
  "only_ref target cand reg reg' =
    ((\<forall>repo. repo \<noteq> target \<longrightarrow> Registry_Get repo reg' = Registry_Get repo reg) \<and>
     (\<forall>t. Registry_Get target reg = Some t \<longrightarrow> (\<exists>t'. Registry_Get target reg' = Some t' \<and>
        (\<forall>ref. memoryRef ref \<noteq> memoryRef cand \<longrightarrow> ms_GetRef ref t' = ms_GetRef ref t))))"

lemma only_ref_refl [simp]: "only_ref target cand reg reg"
  by (simp add: only_ref_def)

lemma only_ref_trans: "only_ref target cand r1 r2 \<Longrightarrow> only_ref target cand r2 r3 \<Longrightarrow> only_ref target cand r1 r3"
  by (force simp: only_ref_def)

lemma only_ref_mutate:
  assumes "Registry_Get target reg = Some t"
    and "\<And>ref. memoryRef ref \<noteq> memoryRef cand \<Longrightarrow> ms_GetRef ref t' = ms_GetRef ref t"
  shows "only_ref target cand reg (Registry_Mutate target t' reg)"
  using assms by (simp add: only_ref_def Registry_Mutate_def Registry_Get_def map_simps)

lemma memory_commit_refs:
  assumes "applyKnowledgeCommit loc lib (memory_caps commit_id) cid cs t = (r, t')" "memoryRef ref \<noteq> memoryRef (csTargetRef cs)"
  shows "ms_GetRef ref t' = ms_GetRef ref t"
proof -
  have other: "ms_GetRef ref t' = ms_GetRef ref t"
    if "ms_ApplyTreeCommit commit_id (treeChangeSet cs changes) t = (r, t')" for changes
  proof (cases r)
    case (Inl e)
    then show ?thesis using that ms_Apply_error by blast
  next
    case (Inr c)
    have "ms_ApplyTreeCommit commit_id (treeChangeSet cs changes) t = (Inr c, t')" using that Inr by simp
    then show ?thesis using assms(2)
      by (elim ms_Apply_cases) (simp add: ms_GetRef_def map_simps treeChangeSet_def)
  qed
  show ?thesis using assms(1) other
    by (auto simp: applyKnowledgeCommit_def memory_caps_def ms_ApplyTreeCommitBulk_def split: sum.splits if_splits)
qed

lemma Execute_world:
  assumes "Execute store marshal cid digest request now now2 f l w = (r, l', w')"
  shows "w' = w \<or> w' = snd (f w)"
  using assms by (auto simp: Execute_def split: prod.splits sum.splits option.splits)

lemma proposal_only_ref:
  assumes "applySnapshot lib codec memory_ops (memory_caps commit_id) store wr cid SurfaceProposal cs now now2 l (reg, w)
      = (r, l', reg', w')"
  shows "w' = w \<and> only_ref (csTargetRepository cs) (csTargetRef cs) reg reg'"
proof -
  have body: "snd wd = w \<and> only_ref (csTargetRepository cs) (csTargetRef cs) reg (fst wd)"
    if "Registry_Get (csTargetRepository cs) reg = Some t"
      and "wd = snd (apply_change_set lib memory_ops (memory_caps commit_id) t cid SurfaceProposal (stamp_change_set wr cs) (reg, w))"
    for t wd
  proof -
    obtain res t' where a: "applyKnowledgeCommit (wlLoc lib) (wlCodec lib) (memory_caps commit_id) cid (stamp_change_set wr cs) t = (res, t')"
      by fastforce
    have "only_ref (csTargetRepository cs) (csTargetRef cs) reg (Registry_Mutate (csTargetRepository cs) t' reg)"
      by (rule only_ref_mutate [OF that(1)]) (simp add: memory_commit_refs [OF a])
    then show ?thesis using that(2) a
      by (auto simp: apply_change_set_def SurfaceProposal_def SurfaceCommit_def Let_def split: sum.splits)
  qed
  show ?thesis
  proof (cases "refuseRuntimeSystemMutation wr (csTargetRepository cs) = Inr () \<and> validateChangeSet cs = Inr () \<and>
      (\<exists>t. Registry_Get (csTargetRepository cs) reg = Some t \<and> \<not> msArchived t)")
    case True
    then obtain t where t: "refuseRuntimeSystemMutation wr (csTargetRepository cs) = Inr ()" "validateChangeSet cs = Inr ()"
      "Registry_Get (csTargetRepository cs) reg = Some t" "\<not> msArchived t" by blast
    obtain r1 l1 wd where ex: "Execute store (wcMarshal codec) cid (wcDigest codec cs)
        (writer_request SurfaceProposal (stamp_change_set wr cs)) now now2
        (apply_change_set lib memory_ops (memory_caps commit_id) t cid SurfaceProposal (stamp_change_set wr cs)) l (reg, w)
        = (r1, l1, wd)" by (metis prod.collapse)
    have "(reg', w') = wd"
      using assms applySnapshot_open [of wr cs "(reg, w)" t memory_ops lib codec "memory_caps commit_id" store cid SurfaceProposal now now2 l] t ex
      by (auto simp: memory_ops_def split: sum.splits)
    moreover have "wd = (reg, w) \<or> snd wd = w \<and> only_ref (csTargetRepository cs) (csTargetRef cs) reg (fst wd)"
      using Execute_world [OF ex] body [OF t(3)] by blast
    ultimately show ?thesis by auto
  next
    case False
    then show ?thesis using assms
      by (auto simp: applySnapshot_def Registry_Require_def memory_ops_def Let_def split: sum.splits option.splits if_splits)
  qed
qed

lemma Writer_Lookup_cached:
  assumes "Writer_Lookup codec store cid l = (Some prior, l1)"
  obtains e where "map_of (ledEntries l1) cid = Some e"
  using assms
  by (auto simp: Writer_Lookup_def Lookup_def dest!: lookup_cached_after split: prod.splits option.splits sum.splits if_splits)

lemma cached_changes_nothing:
  assumes "map_of (ledEntries l) cid = Some e"
    and "applySnapshot lib codec sops caps store wr cid surface cs now now2 l world = (r, l', world')"
  shows "world' = world"
proof -
  have "lookup store cid (lockCommand cid l) = (Inr (Some e), lockCommand cid l)"
    using assms(1) by (simp add: lookup_cached)
  note hit = Execute_hit [OF this]
  show ?thesis using assms(2)
    by (auto simp: applySnapshot_def Let_def hit split: sum.splits option.splits if_splits)
qed

lemma propose_parent_refs:
  assumes "propose_parent memory_ops intent t = (r, t')" "memoryRef ref \<noteq> memoryRef (piCandidateRef intent)"
  shows "ms_GetRef ref t' = ms_GetRef ref t"
  using assms
  by (auto simp: propose_parent_def memory_ops_def ms_CreateRef_def Let_def ms_GetRef_def map_simps
      split: option.splits sum.splits prod.splits if_splits)

text \<open>C34. A proposal moves no ref but its candidate. Whatever a call of \<open>Propose\<close> returns, an error included, no other
  ref of the target repository and no other repository has changed, and no subscriber was told. A retry moves nothing,
  even when it names another candidate.\<close>
theorem proposal_moves_only_candidate:
  "case Writer_Propose lib codec memory_ops (memory_caps commit_id) store wr cid intent now now2 (l :: 's Ledger) (reg, w) of
    (r, l', reg', w') \<Rightarrow> w' = w \<and> only_ref (piTargetRepository intent) (piCandidateRef intent) reg reg'"
proof -
  let ?goal = "\<lambda>(r :: CommitReceipt go, l' :: 's Ledger, reg', w'). w' = w \<and> only_ref (piTargetRepository intent) (piCandidateRef intent) reg reg'"
  let ?sub = "applySnapshot lib codec memory_ops (memory_caps commit_id) store wr cid SurfaceProposal"
  have snapshot: "?goal (?sub (propose_change_set intent (piCandidateRef intent) p p) now now2 l1 (Registry_Mutate (piTargetRepository intent) t' reg, w))"
    if "Registry_Get (piTargetRepository intent) reg = Some t" "propose_parent memory_ops intent t = (res, t')" for p l1 t t' res
  proof -
    obtain r l2 reg2 w2 where run: "?sub (propose_change_set intent (piCandidateRef intent) p p) now now2 l1 (Registry_Mutate (piTargetRepository intent) t' reg, w)
        = (r, l2, reg2, w2)" by (metis prod.collapse)
    have "only_ref (piTargetRepository intent) (piCandidateRef intent) reg (Registry_Mutate (piTargetRepository intent) t' reg)"
      by (rule only_ref_mutate [OF that(1)]) (rule propose_parent_refs [OF that(2)])
    then show ?thesis using proposal_only_ref [OF run] run only_ref_trans by (fastforce simp: propose_change_set_def)
  qed
  have parent: "only_ref (piTargetRepository intent) (piCandidateRef intent) reg (Registry_Mutate (piTargetRepository intent) t' reg)"
    if "Registry_Get (piTargetRepository intent) reg = Some t" "propose_parent memory_ops intent t = (res, t')" for t t' res
    by (rule only_ref_mutate [OF that(1)]) (rule propose_parent_refs [OF that(2)])
  have retry: "?goal (?sub cs now now2 l1 (reg, w))"
    if "map_of (ledEntries l1) cid = Some e" for cs l1 e
  proof -
    obtain r l2 wd where run: "?sub cs now now2 l1 (reg, w) = (r, l2, wd)" by (metis prod.collapse)
    then have "wd = (reg, w)" using cached_changes_nothing that by blast
    then show ?thesis using run by simp
  qed
  have fresh: "?goal (propose_new lib codec memory_ops (memory_caps commit_id) store wr cid intent now now2 l1 (reg, w))" for l1
  proof (cases "Registry_Get (piTargetRepository intent) reg")
    case None
    then show ?thesis by (simp add: propose_new_def Registry_Require_def)
  next
    case (Some t)
    obtain res t' where p: "propose_parent memory_ops intent t = (res, t')" by fastforce
    show ?thesis
      using Some p parent [OF Some p] snapshot [OF Some p]
      by (cases res) (simp_all add: propose_new_def Registry_Require_def Let_def)
  qed
  show ?thesis
  proof (cases "piTargetRepository intent = [] \<or> piCandidateRef intent = []")
    case True
    then show ?thesis by (auto simp: Writer_Propose_def)
  next
    case False
    obtain found l1 where look: "Writer_Lookup codec store cid l = (found, l1)" by fastforce
    consider "found = None" | prior where "found = Some prior" "reqKind (ieRequest prior) = SurfaceProposal"
      | prior where "found = Some prior" "reqKind (ieRequest prior) \<noteq> SurfaceProposal" by (cases found) auto
    then show ?thesis
    proof cases
      case (2 prior)
      obtain e where "map_of (ledEntries l1) cid = Some e"
        using look 2(1) Writer_Lookup_cached by metis
      from retry [OF this] show ?thesis using look 2 False by (simp add: Writer_Propose_def)
    qed (use fresh [of l1] look False in \<open>simp_all add: Writer_Propose_def\<close>)
  qed
qed

text \<open>A proposal whose candidate is the target ref moves the target ref, and nobody is told.\<close>

definition demo_proposal :: ProposeIntent where
  "demo_proposal = \<lparr>piTargetRepository = ''kr://a/b'', piTargetRef = DefaultRef, piCandidateRef = DefaultRef, piBaseCommit = [],
     piOperations = [put_person ''x'' JNull []], piMessage = ''m'', piProvenance = None\<rparr>"

lemma proposal_can_move_target:
  "case Writer_Propose demo_writer_lib demo_writer_codec memory_ops (memory_caps demo_id) (Some demo_store)
      demo_knowledge_writer ''c1'' demo_proposal ''t0'' ''t0'' demo_empty (demo_raw_registry, []) of
    (r, _, reg, seen) \<Rightarrow> ok r \<and> seen = [] \<and>
      map_option (\<lambda>t. ms_GetRef DefaultRef t \<noteq> Some ''root'') (Registry_Get ''kr://a/b'' reg) = Some True"
  by code_simp

end
