(* ===== verification/Continuation.thy ===== *)
theory Continuation
  imports Search "HOL-Library.Product_Lexorder"
begin

text \<open>
  Continuation tokens and the fixed view of a search, \<open>src/retrieval/continuation.go\<close> and \<open>result.go\<close>.  A token is the
  base64 text of a JSON document that carries its own digest; the coding is the parameter \<open>token_lib\<close>.
\<close>

section \<open>Views\<close>

definition int_text :: "int \<Rightarrow> string" where
  "int_text i = (if i < 0 then ''-'' @ itoa (nat (- i)) else itoa (nat i))"

definition text_member :: "string \<Rightarrow> string \<Rightarrow> (string \<times> json) list" where
  "text_member name v = (if v = [] then [] else [(name, JString v)])"

definition map_json :: "(string, string) gomap \<Rightarrow> json" where
  "map_json m = JObject (map (\<lambda>(k, v). (k, JString v)) m)"

record LaneEvidence =
  leProvider :: string
  leLane :: string
  leGuarantee :: string
  leLocalRank :: int
  leLocalScore :: string
  leProviderOrder :: "json list"
  leMatchedFields :: "FieldRef list"

record SearchView =
  svSnapshots :: "(string, string) gomap"
  svProjectionRevisions :: "(string, string) gomap"

definition search_view_json :: "SearchView \<Rightarrow> json" where
  "search_view_json v = JObject ([(''snapshots'', map_json (svSnapshots v))] @
     (if svProjectionRevisions v = [] then [] else [(''projectionRevisions'', map_json (svProjectionRevisions v))]))"

definition SearchViewDigest :: "(string \<Rightarrow> string) \<Rightarrow> SearchView \<Rightarrow> string" where
  "SearchViewDigest sha v = CanonicalDigest sha (search_view_json v)"

text \<open>The page size and the position do not belong to the identity of a search.\<close>

definition SearchQueryDigest :: "(SearchRequest \<Rightarrow> string) \<Rightarrow> SearchRequest \<Rightarrow> string" where
  "SearchQueryDigest digest req = digest (req\<lparr>sqContinuation := [], sqLimit := 0\<rparr>)"

section \<open>Tokens\<close>

record MemberContinuation =
  mcnRepository :: string
  mcnPosition :: string
  mcnOffset :: int
  mcnExhausted :: bool

record ContinuationState =
  ctScope :: string
  ctQuery :: string
  ctSearchView :: string
  ctProjection :: string
  ctPosition :: string
  ctMembers :: "MemberContinuation list"
  ctCheck :: string

definition member_json :: "MemberContinuation \<Rightarrow> json" where
  "member_json m = JObject ([(''repository'', JString (mcnRepository m))] @ text_member ''position'' (mcnPosition m) @
     (if mcnOffset m = 0 then [] else [(''offset'', JNumber (int_text (mcnOffset m)))]) @
     (if mcnExhausted m then [(''exhausted'', JBool True)] else []))"

definition continuation_json :: "ContinuationState \<Rightarrow> json" where
  "continuation_json s = JObject ([(''scope'', JString (ctScope s)), (''query'', JString (ctQuery s)),
     (''searchView'', JString (ctSearchView s))] @ text_member ''projection'' (ctProjection s) @
     text_member ''position'' (ctPosition s) @
     (if ctMembers s = [] then [] else [(''members'', JArray (map member_json (ctMembers s)))]) @
     [(''check'', JString (ctCheck s))])"

record token_lib =
  tkSha :: "string \<Rightarrow> string"
  tkEncode :: "ContinuationState \<Rightarrow> string"
  tkDecode :: "string \<Rightarrow> ContinuationState option"

definition continuation_check :: "token_lib \<Rightarrow> ContinuationState \<Rightarrow> string" where
  "continuation_check lib s = CanonicalDigest (tkSha lib) (continuation_json (s\<lparr>ctCheck := []\<rparr>))"

definition EncodeContinuation :: "token_lib \<Rightarrow> ContinuationState \<Rightarrow> string" where
  "EncodeContinuation lib s = tkEncode lib (s\<lparr>ctCheck := continuation_check lib s\<rparr>)"

definition DecodeContinuation :: "token_lib \<Rightarrow> string \<Rightarrow> ContinuationState go" where
  "DecodeContinuation lib token =
    (case tkDecode lib token of
      None \<Rightarrow> fails ErrPreconditionFailed
    | Some s \<Rightarrow>
        if ctCheck s = [] \<or> continuation_check lib s \<noteq> ctCheck s then fails ErrPreconditionFailed else Inr s)"

text \<open>The text of a token decodes to the state it was made from.\<close>

definition token_lib_ok :: "token_lib \<Rightarrow> bool" where
  "token_lib_ok lib = ((\<forall>s. tkDecode lib (tkEncode lib s) = Some s) \<and> (\<forall>t. tkSha lib t \<noteq> []))"

lemma check_ignores_check [simp]: "continuation_check lib (s\<lparr>ctCheck := c\<rparr>) = continuation_check lib s"
  by (simp add: continuation_check_def)

lemma token_round_trip:
  "token_lib_ok lib \<Longrightarrow> DecodeContinuation lib (EncodeContinuation lib s) = Inr (s\<lparr>ctCheck := continuation_check lib s\<rparr>)"
  by (simp add: token_lib_ok_def DecodeContinuation_def EncodeContinuation_def continuation_check_def CanonicalDigest_def)

end
