(* ===== verification/Loops.thy ===== *)
theory Loops
  imports Prelude
begin

text \<open>
  Go loops that need not end.  \<open>go_loop step s\<close> iterates \<open>step\<close> until it gives a result; \<open>None\<close> is a loop that
  runs forever, of its own or in a step.  The two rules are partial correctness by an invariant and termination
  by a well-founded relation.
\<close>

partial_function (option) go_loop :: "('s \<Rightarrow> ('s + 'r) option) \<Rightarrow> 's \<Rightarrow> 'r option" where
  "go_loop step s =
    (case step s of
      None \<Rightarrow> None
    | Some (Inl s') \<Rightarrow> go_loop step s'
    | Some (Inr r) \<Rightarrow> Some r)"

declare go_loop.simps [code]

lemma go_loop_unfold:
  "step s = Some (Inl s') \<Longrightarrow> go_loop step s = go_loop step s'"
  "step s = Some (Inr r) \<Longrightarrow> go_loop step s = Some r"
  "step s = None \<Longrightarrow> go_loop step s = None"
  by (subst go_loop.simps; simp)+

lemma go_loop_cases:
  assumes "go_loop step s = Some r"
  obtains "step s = Some (Inr r)" | s' where "step s = Some (Inl s')" "go_loop step s' = Some r"
  using assms by (subst (asm) go_loop.simps) (auto split: option.splits sum.splits)

text \<open>Invariants hold at the result.\<close>

lemma go_loop_invariant:
  assumes run: "go_loop step s = Some r" and init: "I s"
    and keep: "\<And>s s'. I s \<Longrightarrow> step s = Some (Inl s') \<Longrightarrow> I s'"
    and finish: "\<And>s r. I s \<Longrightarrow> step s = Some (Inr r) \<Longrightarrow> Q r"
  shows "Q r"
proof -
  have "step = step \<longrightarrow> I s \<longrightarrow> Q r"
  proof (rule go_loop.raw_induct [where P = "\<lambda>step' s r. step' = step \<longrightarrow> I s \<longrightarrow> Q r", OF _ run])
    fix f step' s r
    assume ih: "\<And>step' s r. f step' s = Some r \<Longrightarrow> step' = step \<longrightarrow> I s \<longrightarrow> Q r"
      and body: "(case step' s of None \<Rightarrow> None | Some (Inl s') \<Rightarrow> f step' s' | Some (Inr r) \<Rightarrow> Some r) = Some r"
    show "step' = step \<longrightarrow> I s \<longrightarrow> Q r"
      using body keep finish ih by (auto split: option.splits sum.splits)
  qed
  then show ?thesis using init by blast
qed

text \<open>A loop whose steps return and decrease returns.\<close>

lemma go_loop_returns:
  assumes "wf R" and "I s"
    and step: "\<And>s. I s \<Longrightarrow> \<exists>x. step s = Some x \<and> (case x of Inl s' \<Rightarrow> I s' \<and> (s', s) \<in> R | Inr _ \<Rightarrow> True)"
  shows "\<exists>r. go_loop step s = Some r"
  using assms(1,2)
proof (induction s rule: wf_induct_rule)
  case (less s)
  obtain x where x: "step s = Some x" "case x of Inl s' \<Rightarrow> I s' \<and> (s', s) \<in> R | Inr _ \<Rightarrow> True"
    using step [OF less.prems] by blast
  then show ?case using less.IH by (cases x) (auto simp: go_loop_unfold)
qed

end
