(* ===== verification/Traverse.thy ===== *)
theory Traverse
  imports Continuation Loops KnowledgeUnits
begin

text \<open>
  The bounded traversal of relations: its contract and resumable position, \<open>src/retrieval/traverse.go\<close> and
  \<open>relation.go\<close>, and its execution, \<open>src/knowledgeapp/traverse.go\<close>.

  The relation lane (\<open>TraverseProjection\<close>) is a parameter: it answers a page request in a state of its own, its
  execution budget.  Nothing bounds the pages of a lane, so the loops are \<open>go_loop\<close>s.
\<close>

section \<open>The contract\<close>

definition MaxTraverseHops :: int where "MaxTraverseHops = 8"
definition MaxTraverseEdges :: nat where "MaxTraverseEdges = 5000"
definition DefaultTraversePageLimit :: int where "DefaultTraversePageLimit = 100"
definition MaxTraversePageLimit :: int where "MaxTraversePageLimit = 1000"
definition BoundaryOutsideScope :: string where "BoundaryOutsideScope = ''outside-scope''"

record TraverseStep =
  tsRelationType :: string
  tsRole :: string
  tsDirection :: string

record TraverseQuery =
  tqStart :: KnowledgeRef
  tqStep :: TraverseStep
  tqMinHops :: int
  tqMaxHops :: int

record TraverseRequest =
  trQuery :: TraverseQuery
  trLimit :: int
  trContinuation :: string

record TraverseNode =
  tnRepository :: string
  tnObjectID :: string
  tnDepth :: int

record TraverseEdge =
  teRepository :: string
  teCommit :: string
  teObjectID :: string
  teRelation :: CanonicalRelation
  teDepth :: int

record TraverseBoundary =
  tbRepository :: string
  tbObjectID :: string
  tbReason :: string

record TraversePage =
  tpSearchView :: SearchView
  tpNodes :: "TraverseNode list"
  tpEdges :: "TraverseEdge list"
  tpBoundary :: "TraverseBoundary list"
  tpClaims :: "string list"
  tpContinuation :: string
  tpExhausted :: bool

record TraverseFrontierEntry =
  tfRepository :: string
  tfObject :: string
  tfDepth :: int

record EdgeCoordinate =
  ecRepository :: string
  ecObjectID :: string

record TraversePosition =
  poDepth :: int
  poFrontier :: "TraverseFrontierEntry list"
  poVisited :: "KnowledgeRef list"
  poEdges :: "EdgeCoordinate list"
  poBoundary :: "TraverseBoundary list"
  poClaims :: "string list"
  poPositions :: "(string, string) gomap"

record RelationQuery =
  rqEndpoint :: KnowledgeRef
  rqRelationType :: string
  rqRole :: string
  rqDirection :: string

record RelationPageRequest =
  rpQuery :: RelationQuery
  rpLimit :: int
  rpContinuation :: string

record RelationHit =
  rhKnowledgeRef :: KnowledgeRef
  rhRepository :: string
  rhCommit :: string
  rhObjectID :: string
  rhMatchedRoles :: "string list"
  rhRelation :: CanonicalRelation
  rhEvidence :: "LaneEvidence list"

record RelationPage =
  rgSearchView :: SearchView
  rgHits :: "RelationHit list"
  rgClaims :: "string list"
  rgContinuation :: string
  rgExhausted :: bool
  rgGeneration :: string

section \<open>Digests and positions\<close>

definition ref_json :: "KnowledgeRef \<Rightarrow> json" where
  "ref_json r = JObject [(''repository'', JString (krRepository r)), (''object'', JString (krObject r))]"

definition step_json :: "TraverseStep \<Rightarrow> json" where
  "step_json s = JObject (text_member ''relationType'' (tsRelationType s) @ text_member ''role'' (tsRole s) @
     text_member ''direction'' (tsDirection s))"

definition query_json :: "TraverseQuery \<Rightarrow> json" where
  "query_json q = JObject ([(''start'', ref_json (tqStart q)), (''step'', step_json (tqStep q))] @
     (if tqMinHops q = 0 then [] else [(''minHops'', JNumber (int_text (tqMinHops q)))]) @
     [(''maxHops'', JNumber (int_text (tqMaxHops q)))])"

definition TraverseQueryDigest :: "(string \<Rightarrow> string) \<Rightarrow> TraverseQuery \<Rightarrow> string" where
  "TraverseQueryDigest sha q = CanonicalDigest sha (query_json q)"

definition RelationQueryDigest :: "(string \<Rightarrow> string) \<Rightarrow> RelationQuery \<Rightarrow> string" where
  "RelationQueryDigest sha q = CanonicalDigest sha (JObject ([(''endpoint'', ref_json (rqEndpoint q))] @
     text_member ''relationType'' (rqRelationType q) @ text_member ''role'' (rqRole q) @
     text_member ''direction'' (rqDirection q)))"

definition TraversePositionKey :: "string \<Rightarrow> string \<Rightarrow> string" where
  "TraversePositionKey repository object = repository @ [CHR 0x1F] @ object"

definition ref_order :: "KnowledgeRef \<Rightarrow> string \<times> string" where
  "ref_order r = (krRepository r, krObject r)"

definition edge_order :: "EdgeCoordinate \<Rightarrow> string \<times> string" where
  "edge_order e = (ecRepository e, ecObjectID e)"

definition frontier_order :: "TraverseFrontierEntry \<Rightarrow> string \<times> string \<times> int" where
  "frontier_order e = (tfRepository e, tfObject e, tfDepth e)"

definition boundary_order :: "TraverseBoundary \<Rightarrow> string \<times> string \<times> string" where
  "boundary_order b = (tbRepository b, tbObjectID b, tbReason b)"

definition sortBoundaries :: "TraverseBoundary list \<Rightarrow> TraverseBoundary list" where
  "sortBoundaries = sort_key boundary_order"

text \<open>The insertion sorts of \<open>normalize\<close>.\<close>

definition position_normalize :: "TraversePosition \<Rightarrow> TraversePosition" where
  "position_normalize p = p\<lparr>poFrontier := sort_key frontier_order (poFrontier p),
     poVisited := sort_key ref_order (poVisited p), poEdges := sort_key edge_order (poEdges p),
     poBoundary := sortBoundaries (poBoundary p)\<rparr>"

definition zero_position :: TraversePosition where
  "zero_position = \<lparr>poDepth = 0, poFrontier = [], poVisited = [], poEdges = [], poBoundary = [], poClaims = [], poPositions = []\<rparr>"

record traverse_lib =
  tlToken :: token_lib
  tlMarshal :: "TraversePosition \<Rightarrow> string option"
  tlUnmarshal :: "string \<Rightarrow> TraversePosition option"

abbreviation tl_sha :: "traverse_lib \<Rightarrow> string \<Rightarrow> string" where
  "tl_sha lib \<equiv> tkSha (tlToken lib)"

definition EncodeTraversePosition :: "traverse_lib \<Rightarrow> TraverseQuery \<Rightarrow> SearchView \<Rightarrow> string \<Rightarrow> TraversePosition \<Rightarrow> string go" where
  "EncodeTraversePosition lib query view identity position =
    (case tlMarshal lib (position_normalize position) of
      None \<Rightarrow> fails ErrUsageInvalid
    | Some raw \<Rightarrow> Inr (EncodeContinuation (tlToken lib)
        \<lparr>ctScope = ''traverse'', ctQuery = TraverseQueryDigest (tl_sha lib) query,
         ctSearchView = SearchViewDigest (tl_sha lib) view, ctProjection = CanonicalDigest (tl_sha lib) (JString identity),
         ctPosition = raw, ctMembers = [], ctCheck = []\<rparr>))"

definition DecodeTraversePosition :: "traverse_lib \<Rightarrow> string \<Rightarrow> TraverseQuery \<Rightarrow> SearchView \<Rightarrow> string \<Rightarrow> TraversePosition go" where
  "DecodeTraversePosition lib token query view identity =
    (if token = [] then Inr zero_position
     else rbind (DecodeContinuation (tlToken lib) token) (\<lambda>state.
       if ctScope state \<noteq> ''traverse'' \<or> ctQuery state \<noteq> TraverseQueryDigest (tl_sha lib) query \<or>
         ctSearchView state \<noteq> SearchViewDigest (tl_sha lib) view \<or>
         ctProjection state \<noteq> CanonicalDigest (tl_sha lib) (JString identity)
       then fails ErrPreconditionFailed
       else (case tlUnmarshal lib (ctPosition state) of
         None \<Rightarrow> fails ErrPreconditionFailed
       | Some position \<Rightarrow> Inr (position_normalize position))))"

definition ValidateTraverseRequest :: "TraverseRequest \<Rightarrow> TraverseRequest go" where
  "ValidateTraverseRequest request =
    (let q = trQuery request in
     if krRepository (tqStart q) = [] \<or> krObject (tqStart q) = [] then fails ErrUsageInvalid
     else if tqMaxHops q < 1 \<or> tqMaxHops q > MaxTraverseHops then fails ErrUsageInvalid
     else if tqMinHops q < 0 \<or> tqMinHops q > tqMaxHops q then fails ErrUsageInvalid
     else if tsDirection (tqStep q) \<noteq> [] \<and> tsDirection (tqStep q) \<noteq> RelationDirected \<and>
       tsDirection (tqStep q) \<noteq> RelationUndirected then fails ErrUsageInvalid
     else if trLimit request < 0 \<or> trLimit request > MaxTraversePageLimit then fails ErrUsageInvalid
     else Inr (request\<lparr>trLimit := (if trLimit request = 0 then DefaultTraversePageLimit else trLimit request)\<rparr>))"

section \<open>One page of the traversal\<close>

record TraverseScope =
  soSnapshots :: "(string, string) gomap"
  soContains :: "string \<Rightarrow> string \<Rightarrow> bool go"
  soIdentity :: string

record ('repo, 'w) traverse_core =
  tcRequire :: "string \<Rightarrow> 'repo go"
  tcRelationsAt :: "'repo \<Rightarrow> string \<Rightarrow> RelationPageRequest \<Rightarrow> 'w \<Rightarrow> RelationPage go \<times> 'w"

text \<open>The variables of \<open>Run\<close>.  The Go maps that are used as sets are lists without repetitions.\<close>

record 'w walk =
  wkVisited :: "KnowledgeRef list"
  wkEdges :: "EdgeCoordinate list"
  wkFrontier :: "TraverseFrontierEntry list"
  wkPositions :: "(string, string) gomap"
  wkBoundary :: "TraverseBoundary list"
  wkClaims :: "string list"
  wkPosition :: TraversePosition
  wkOut :: TraversePage
  wkWorld :: 'w

text \<open>The view of \<open>Run\<close>.\<close>

definition scope_view :: "TraverseScope \<Rightarrow> SearchView" where
  "scope_view scope = \<lparr>svSnapshots = soSnapshots scope, svProjectionRevisions = []\<rparr>"

definition append_claim :: "'w walk \<Rightarrow> string \<Rightarrow> 'w walk" where
  "append_claim w claim =
    (if claim \<in> set (wkClaims w) then w
     else w\<lparr>wkClaims := wkClaims w @ [claim],
       wkPosition := (wkPosition w)\<lparr>poClaims := poClaims (wkPosition w) @ [claim]\<rparr>,
       wkOut := (wkOut w)\<lparr>tpClaims := tpClaims (wkOut w) @ [claim]\<rparr>\<rparr>)"

definition budget_claim :: string where
  "budget_claim = ''traversal stopped: traverse edge budget exhausted''"

definition page_done :: "traverse_lib \<Rightarrow> TraverseRequest \<Rightarrow> TraverseScope \<Rightarrow> 'w walk \<Rightarrow> TraversePage go" where
  "page_done lib request scope w =
    (let position = (wkPosition w)\<lparr>poFrontier := wkFrontier w, poVisited := sort_key ref_order (wkVisited w),
           poEdges := sort_key edge_order (wkEdges w), poBoundary := sortBoundaries (wkBoundary w),
           poPositions := wkPositions w\<rparr> in
     rbind (EncodeTraversePosition lib (trQuery request) (scope_view scope) (soIdentity scope) position) (\<lambda>token.
       Inr ((wkOut w)\<lparr>tpBoundary := sortBoundaries (tpBoundary (wkOut w)), tpContinuation := token\<rparr>)))"

definition traverse_finish :: "'w walk \<Rightarrow> TraversePage" where
  "traverse_finish w = (wkOut w)\<lparr>tpExhausted := True, tpBoundary := sortBoundaries (tpBoundary (wkOut w))\<rparr>"

text \<open>The endpoints of a relation, seen from the node \<open>self\<close> at \<open>depth\<close>.\<close>

definition visit_endpoint :: "TraverseScope \<Rightarrow> int \<Rightarrow> KnowledgeRef \<Rightarrow> int \<Rightarrow> KnowledgeRef \<Rightarrow> 'w walk \<Rightarrow> 'w walk go" where
  "visit_endpoint scope minHops self depth ref w =
    (if ref = self then Inr w
     else rbind (soContains scope (krRepository ref) (krObject ref)) (\<lambda>allowed.
       if \<not> allowed then
         (let b = \<lparr>tbRepository = krRepository ref, tbObjectID = krObject ref, tbReason = BoundaryOutsideScope\<rparr> in
          if b \<in> set (wkBoundary w) then Inr w
          else Inr (w\<lparr>wkBoundary := wkBoundary w @ [b],
            wkPosition := (wkPosition w)\<lparr>poBoundary := poBoundary (wkPosition w) @ [b]\<rparr>,
            wkOut := (wkOut w)\<lparr>tpBoundary := tpBoundary (wkOut w) @ [b]\<rparr>\<rparr>))
       else if ref \<in> set (wkVisited w) then Inr w
       else Inr (w\<lparr>wkVisited := wkVisited w @ [ref],
         wkFrontier := wkFrontier w @ [\<lparr>tfRepository = krRepository ref, tfObject = krObject ref, tfDepth = depth + 1\<rparr>],
         wkOut := (if depth + 1 \<ge> minHops
           then (wkOut w)\<lparr>tpNodes := tpNodes (wkOut w) @
             [\<lparr>tnRepository = krRepository ref, tnObjectID = krObject ref, tnDepth = depth + 1\<rparr>]\<rparr>
           else wkOut w)\<rparr>)))"

fun visit_endpoints :: "TraverseScope \<Rightarrow> int \<Rightarrow> KnowledgeRef \<Rightarrow> int \<Rightarrow> RelationEndpoint list \<Rightarrow> 'w walk \<Rightarrow> 'w walk go" where
  "visit_endpoints scope minHops self depth [] w = Inr w"
| "visit_endpoints scope minHops self depth (e # es) w =
    rbind (visit_endpoint scope minHops self depth (reObjectRef e) w) (visit_endpoints scope minHops self depth es)"

definition hit_edge :: "RelationHit \<Rightarrow> EdgeCoordinate" where
  "hit_edge h = \<lparr>ecRepository = rhRepository h, ecObjectID = rhObjectID h\<rparr>"

definition take_edge :: "int \<Rightarrow> RelationHit \<Rightarrow> 'w walk \<Rightarrow> 'w walk" where
  "take_edge depth h w = w\<lparr>wkEdges := wkEdges w @ [hit_edge h],
     wkOut := (wkOut w)\<lparr>tpEdges := tpEdges (wkOut w) @ [\<lparr>teRepository = rhRepository h, teCommit = rhCommit h,
       teObjectID = rhObjectID h, teRelation = rhRelation h, teDepth = depth\<rparr>]\<rparr>\<rparr>"

text \<open>The hits of a lane page; the flag is \<open>limitHit\<close>.\<close>

fun visit_hits :: "TraverseScope \<Rightarrow> TraverseRequest \<Rightarrow> KnowledgeRef \<Rightarrow> int \<Rightarrow> RelationHit list \<Rightarrow> 'w walk \<Rightarrow> (bool \<times> 'w walk) go" where
  "visit_hits scope request self depth [] w = Inr (False, w)"
| "visit_hits scope request self depth (h # hs) w =
    (if hit_edge h \<in> set (wkEdges w) then visit_hits scope request self depth hs w
     else rbind (visit_endpoints scope (tqMinHops (trQuery request)) self depth (rlEndpoints (rhRelation h)) (take_edge depth h w)) (\<lambda>w'.
       if int (length (tpNodes (wkOut w'))) \<ge> trLimit request then Inr (True, w')
       else visit_hits scope request self depth hs w'))"

definition relation_request :: "TraverseRequest \<Rightarrow> KnowledgeRef \<Rightarrow> string \<Rightarrow> RelationPageRequest" where
  "relation_request request self continuation =
    (let step = tqStep (trQuery request) in
     \<lparr>rpQuery = \<lparr>rqEndpoint = self, rqRelationType = tsRelationType step, rqRole = tsRole step, rqDirection = tsDirection step\<rparr>,
      rpLimit = DefaultTraversePageLimit, rpContinuation = continuation\<rparr>)"

definition entry_ref :: "TraverseFrontierEntry \<Rightarrow> KnowledgeRef" where
  "entry_ref entry = \<lparr>krRepository = tfRepository entry, krObject = tfObject entry\<rparr>"

definition entry_key :: "TraverseFrontierEntry \<Rightarrow> string" where
  "entry_key entry = TraversePositionKey (tfRepository entry) (tfObject entry)"

text \<open>One page of the lane of a node.  A result is the end of the lane (\<open>Inl\<close>, \<open>break\<close>) or of \<open>Run\<close> (\<open>Inr\<close>).\<close>

definition lane_step :: "traverse_lib \<Rightarrow> ('repo, 'w) traverse_core \<Rightarrow> TraverseRequest \<Rightarrow> TraverseScope \<Rightarrow> 'repo \<Rightarrow> string \<Rightarrow>
    TraverseFrontierEntry \<Rightarrow> string \<times> 'w walk \<Rightarrow> (string \<times> 'w walk) + ('w walk + TraversePage go)" where
  "lane_step lib core request scope repo commit entry s =
    (case s of (lane, w) \<Rightarrow>
      (case tcRelationsAt core repo commit (relation_request request (entry_ref entry) lane) (wkWorld w) of (answer, world) \<Rightarrow>
      (case answer of
        Inl e \<Rightarrow> Inr (Inr (Inl e))
      | Inr page \<Rightarrow>
      (case visit_hits scope request (entry_ref entry) (tfDepth entry) (rgHits page) (w\<lparr>wkWorld := world\<rparr>) of
        Inl e \<Rightarrow> Inr (Inr (Inl e))
      | Inr (limitHit, w1) \<Rightarrow>
      (let w2 = foldl append_claim w1 (rgClaims page) in
       if limitHit then
         Inr (Inr (page_done lib request scope (w2\<lparr>wkFrontier := entry # wkFrontier w2,
           wkPositions := (if lane = [] then AList.delete (entry_key entry) (wkPositions w2)
             else AList.update (entry_key entry) lane (wkPositions w2))\<rparr>)))
       else if length (wkEdges w2) \<ge> MaxTraverseEdges then
         (let w3 = append_claim w2 budget_claim in
          Inr (Inr (page_done lib request scope
            (if rgExhausted page then w3\<lparr>wkPositions := AList.delete (entry_key entry) (wkPositions w3)\<rparr>
             else w3\<lparr>wkPositions := AList.update (entry_key entry) (rgContinuation page) (wkPositions w3),
               wkFrontier := entry # wkFrontier w3\<rparr>))))
       else if rgExhausted page then
         Inr (Inl (w2\<lparr>wkPositions := AList.delete (entry_key entry) (wkPositions w2)\<rparr>))
       else if rgContinuation page = lane then
         (if length (rgClaims page) > 0
          then Inr (Inr (page_done lib request scope (w2\<lparr>wkFrontier := entry # wkFrontier w2\<rparr>)))
          else Inr (Inr (fails ErrPreconditionFailed)))
       else Inl (rgContinuation page,
         w2\<lparr>wkPositions := AList.update (entry_key entry) (rgContinuation page) (wkPositions w2)\<rparr>))))))"

definition lane_loop :: "traverse_lib \<Rightarrow> ('repo, 'w) traverse_core \<Rightarrow> TraverseRequest \<Rightarrow> TraverseScope \<Rightarrow> 'repo \<Rightarrow> string \<Rightarrow>
    TraverseFrontierEntry \<Rightarrow> 'w walk \<Rightarrow> ('w walk + TraversePage go) option" where
  "lane_loop lib core request scope repo commit entry w =
    go_loop (\<lambda>s. Some (lane_step lib core request scope repo commit entry s))
      ((case map_of (wkPositions w) (entry_key entry) of None \<Rightarrow> [] | Some c \<Rightarrow> c), w)"

definition frontier_step :: "traverse_lib \<Rightarrow> ('repo, 'w) traverse_core \<Rightarrow> TraverseRequest \<Rightarrow> TraverseScope \<Rightarrow> 'w walk \<Rightarrow>
    ('w walk + TraversePage go) option" where
  "frontier_step lib core request scope w =
    (case wkFrontier w of
      [] \<Rightarrow> Some (Inr (Inr (traverse_finish w)))
    | entry # rest \<Rightarrow>
        if int (length (tpNodes (wkOut w))) \<ge> trLimit request then Some (Inr (page_done lib request scope w))
        else if length (wkEdges w) \<ge> MaxTraverseEdges then
          Some (Inr (page_done lib request scope (append_claim w budget_claim)))
        else if tfDepth entry \<ge> tqMaxHops (trQuery request) then Some (Inr (Inr (traverse_finish w)))
        else (case map_of (soSnapshots scope) (tfRepository entry) of
          None \<Rightarrow> Some (Inr (fails ErrPreconditionFailed))
        | Some commit \<Rightarrow>
            (case tcRequire core (tfRepository entry) of
              Inl e \<Rightarrow> Some (Inr (Inl e))
            | Inr repo \<Rightarrow> lane_loop lib core request scope repo commit entry (w\<lparr>wkFrontier := rest\<rparr>))))"

definition start_walk :: "SearchView \<Rightarrow> TraversePosition \<Rightarrow> 'w \<Rightarrow> 'w walk" where
  "start_walk view position world =
    \<lparr>wkVisited = dedup (poVisited position), wkEdges = dedup (poEdges position), wkFrontier = poFrontier position,
     wkPositions = poPositions position, wkBoundary = dedup (poBoundary position), wkClaims = dedup (poClaims position),
     wkPosition = position,
     wkOut = \<lparr>tpSearchView = view, tpNodes = [], tpEdges = [], tpBoundary = [], tpClaims = [], tpContinuation = [],
       tpExhausted = False\<rparr>, wkWorld = world\<rparr>"

definition enter_start :: "TraverseScope \<Rightarrow> KnowledgeRef \<Rightarrow> 'w walk \<Rightarrow> 'w walk go" where
  "enter_start scope start w =
    (if wkFrontier w = [] \<and> wkVisited w = [] then
       rbind (soContains scope (krRepository start) (krObject start)) (\<lambda>allowed.
         if \<not> allowed then fails ErrKnowledgeRefUnresolved
         else Inr (w\<lparr>wkVisited := [start],
           wkFrontier := [\<lparr>tfRepository = krRepository start, tfObject = krObject start, tfDepth = 0\<rparr>]\<rparr>))
     else Inr w)"

text \<open>\<open>core\<close> and \<open>contains\<close> are \<open>None\<close> when the services or the scope function are nil.\<close>

definition traverse_Run :: "traverse_lib \<Rightarrow> ('repo, 'w) traverse_core option \<Rightarrow> TraverseRequest \<Rightarrow> TraverseScope option \<Rightarrow> 'w \<Rightarrow>
    TraversePage go option" where
  "traverse_Run lib core request scope world =
    (case core of
      None \<Rightarrow> Some (fails ErrCapabilityUnsatisfied)
    | Some core \<Rightarrow>
    (case scope of
      None \<Rightarrow> Some (fails ErrUsageInvalid)
    | Some scope \<Rightarrow>
        if length (soSnapshots scope) = 0 then Some (fails ErrUsageInvalid)
        else (case rbind (DecodeTraversePosition lib (trContinuation request) (trQuery request) (scope_view scope) (soIdentity scope)) (\<lambda>position.
            enter_start scope (tqStart (trQuery request)) (start_walk (scope_view scope) position world)) of
            Inl e \<Rightarrow> Some (Inl e)
          | Inr w \<Rightarrow> go_loop (frontier_step lib core request scope) w)))"

text \<open>The executor of one repository: its scope is the repository at one commit.\<close>

definition repository_scope :: "string \<Rightarrow> string \<Rightarrow> TraverseScope" where
  "repository_scope repository commit = \<lparr>soSnapshots = [(repository, commit)],
     soContains = (\<lambda>rid _. Inr (rid = repository)), soIdentity = ''repository:'' @ commit\<rparr>"

definition RepoTraverse_Execute :: "traverse_lib \<Rightarrow> ('repo, 'w) traverse_core option \<Rightarrow> TraverseRequest \<Rightarrow> string \<Rightarrow> string \<Rightarrow> 'w \<Rightarrow>
    TraversePage go option" where
  "RepoTraverse_Execute lib core request repository commit world =
    (if core = None then Some (fails ErrCapabilityUnsatisfied)
     else if repository = [] \<or> commit = [] then Some (fails ErrUsageInvalid)
     else (case ValidateTraverseRequest request of
       Inl e \<Rightarrow> Some (Inl e)
     | Inr request \<Rightarrow> traverse_Run lib core request (Some (repository_scope repository commit)) world))"

end
