(* ===== verification/TraverseRules.thy ===== *)
theory TraverseRules
  imports Traverse
begin

text \<open>
  What a traversal promises: it returns, its pages are disjoint and stay inside the scope, and an exhausted
  traversal is the closure of the relations.
\<close>

section \<open>What the steps change\<close>

text \<open>An endpoint is the node itself or known, a new boundary, or a new node.\<close>

definition boundary_of :: "KnowledgeRef \<Rightarrow> TraverseBoundary" where
  "boundary_of ref = \<lparr>tbRepository = krRepository ref, tbObjectID = krObject ref, tbReason = BoundaryOutsideScope\<rparr>"

definition node_of :: "KnowledgeRef \<Rightarrow> int \<Rightarrow> TraverseNode" where
  "node_of ref depth = \<lparr>tnRepository = krRepository ref, tnObjectID = krObject ref, tnDepth = depth\<rparr>"

definition entry_of :: "KnowledgeRef \<Rightarrow> int \<Rightarrow> TraverseFrontierEntry" where
  "entry_of ref depth = \<lparr>tfRepository = krRepository ref, tfObject = krObject ref, tfDepth = depth\<rparr>"

lemma visit_endpoint_cases:
  assumes "visit_endpoint scope minHops self depth ref w = Inr w'"
  obtains (same) "w' = w" "ref = self \<or> ref \<in> set (wkVisited w) \<or> soContains scope (krRepository ref) (krObject ref) = Inr False"
  | (boundary) "soContains scope (krRepository ref) (krObject ref) = Inr False" "boundary_of ref \<notin> set (wkBoundary w)"
      "w' = w\<lparr>wkBoundary := wkBoundary w @ [boundary_of ref],
            wkPosition := (wkPosition w)\<lparr>poBoundary := poBoundary (wkPosition w) @ [boundary_of ref]\<rparr>,
            wkOut := (wkOut w)\<lparr>tpBoundary := tpBoundary (wkOut w) @ [boundary_of ref]\<rparr>\<rparr>"
  | (visit) "soContains scope (krRepository ref) (krObject ref) = Inr True" "ref \<notin> set (wkVisited w)" "ref \<noteq> self"
      "w' = w\<lparr>wkVisited := wkVisited w @ [ref], wkFrontier := wkFrontier w @ [entry_of ref (depth + 1)],
         wkOut := (if depth + 1 \<ge> minHops then (wkOut w)\<lparr>tpNodes := tpNodes (wkOut w) @ [node_of ref (depth + 1)]\<rparr>
           else wkOut w)\<rparr>"
proof (cases "ref = self")
  case True
  then show thesis using assms same by (simp add: visit_endpoint_def)
next
  case False
  then obtain allowed where a: "soContains scope (krRepository ref) (krObject ref) = Inr allowed"
    using assms by (auto simp: visit_endpoint_def rbind_Inr_iff)
  show thesis
  proof (cases allowed)
    case True
    show thesis
    proof (cases "ref \<in> set (wkVisited w)")
      case True
      then show thesis using assms a False \<open>allowed\<close> same by (simp add: visit_endpoint_def)
    next
      case new: False
      show thesis
        by (rule visit) (use assms a False \<open>allowed\<close> new in
            \<open>simp_all add: visit_endpoint_def entry_of_def node_of_def eq_commute [of _ w']\<close>)
    qed
  next
    case no: False
    show thesis
    proof (cases "boundary_of ref \<in> set (wkBoundary w)")
      case True
      then have "w' = w" using assms a False no by (simp add: visit_endpoint_def boundary_of_def)
      then show thesis using a no same by simp
    next
      case new: False
      show thesis
        by (rule boundary) (use assms a False no new in
            \<open>simp_all add: visit_endpoint_def boundary_of_def Let_def eq_commute [of _ w']\<close>)
    qed
  qed
qed

lemma visit_endpoint_edges:
  "visit_endpoint scope minHops self depth ref w = Inr w' \<Longrightarrow> wkEdges w' = wkEdges w"
  by (erule visit_endpoint_cases) simp_all

lemma visit_endpoints_edges:
  "visit_endpoints scope minHops self depth es w = Inr w' \<Longrightarrow> wkEdges w' = wkEdges w"
  by (induction es arbitrary: w) (auto simp: rbind_Inr_iff dest: visit_endpoint_edges)

lemma append_claim_fields [simp]:
  "wkEdges (append_claim w c) = wkEdges w" "wkFrontier (append_claim w c) = wkFrontier w"
  "wkVisited (append_claim w c) = wkVisited w" "wkBoundary (append_claim w c) = wkBoundary w"
  "wkPositions (append_claim w c) = wkPositions w" "wkWorld (append_claim w c) = wkWorld w"
  "tpNodes (wkOut (append_claim w c)) = tpNodes (wkOut w)" "tpEdges (wkOut (append_claim w c)) = tpEdges (wkOut w)"
  "tpBoundary (wkOut (append_claim w c)) = tpBoundary (wkOut w)"
  "tpSearchView (wkOut (append_claim w c)) = tpSearchView (wkOut w)"
  "tpExhausted (wkOut (append_claim w c)) = tpExhausted (wkOut w)"
  by (simp_all add: append_claim_def)

lemma append_claims_fields [simp]:
  "wkEdges (foldl append_claim w cs) = wkEdges w" "wkFrontier (foldl append_claim w cs) = wkFrontier w"
  "wkVisited (foldl append_claim w cs) = wkVisited w" "wkBoundary (foldl append_claim w cs) = wkBoundary w"
  "wkPositions (foldl append_claim w cs) = wkPositions w" "wkWorld (foldl append_claim w cs) = wkWorld w"
  "tpNodes (wkOut (foldl append_claim w cs)) = tpNodes (wkOut w)"
  "tpEdges (wkOut (foldl append_claim w cs)) = tpEdges (wkOut w)"
  "tpBoundary (wkOut (foldl append_claim w cs)) = tpBoundary (wkOut w)"
  "tpSearchView (wkOut (foldl append_claim w cs)) = tpSearchView (wkOut w)"
  "tpExhausted (wkOut (foldl append_claim w cs)) = tpExhausted (wkOut w)"
  by (induction cs arbitrary: w) simp_all

text \<open>A walk that takes no edge leaves the frontier alone.\<close>

definition advances :: "'w walk \<Rightarrow> 'w walk \<Rightarrow> bool" where
  "advances w w' = (length (wkEdges w) \<le> length (wkEdges w') \<and>
     (length (wkEdges w') = length (wkEdges w) \<longrightarrow> wkFrontier w' = wkFrontier w))"

lemma advances_refl: "advances w w"
  by (simp add: advances_def)

lemma advances_trans: "advances a b \<Longrightarrow> advances b c \<Longrightarrow> advances a c"
  by (auto simp: advances_def)

lemma visit_hits_advances:
  "visit_hits scope request self depth hs w = Inr (b, w') \<Longrightarrow> advances w w'"
proof (induction hs arbitrary: w)
  case Nil
  then show ?case by (simp add: advances_refl)
next
  case (Cons h hs)
  show ?case
  proof (cases "hit_edge h \<in> set (wkEdges w)")
    case True
    then show ?thesis using Cons by simp
  next
    case False
    then obtain w1 where w1: "visit_endpoints scope (tqMinHops (trQuery request)) self depth
        (rlEndpoints (rhRelation h)) (take_edge depth h w) = Inr w1"
      and rest: "w' = w1 \<or> visit_hits scope request self depth hs w1 = Inr (b, w')"
      using Cons.prems by (auto simp: rbind_Inr_iff split: if_splits)
    have "wkEdges w1 = wkEdges w @ [hit_edge h]" using visit_endpoints_edges [OF w1] by (simp add: take_edge_def)
    then have "advances w w1" by (simp add: advances_def)
    then show ?thesis using rest Cons.IH advances_trans by blast
  qed
qed

lemma advances_out:
  "advances (w\<lparr>wkWorld := world\<rparr>) w' \<Longrightarrow> advances w (foldl append_claim w' cs)"
  "advances (w\<lparr>wkWorld := world\<rparr>) w' \<Longrightarrow> advances w ((foldl append_claim w' cs)\<lparr>wkPositions := ps\<rparr>)"
  by (simp_all add: advances_def)

lemma lane_step_page:
  assumes "lane_step lib core request scope repo commit entry (lane, w) = Inl (lane', w')"
  obtains page world where
    "tcRelationsAt core repo commit (relation_request request (entry_ref entry) lane) (wkWorld w) = (Inr page, world)"
    "\<not> rgExhausted page" "rgContinuation page \<noteq> lane" "lane' = rgContinuation page" "advances w w'"
proof -
  obtain answer world where a: "tcRelationsAt core repo commit (relation_request request (entry_ref entry) lane) (wkWorld w)
      = (answer, world)" by fastforce
  obtain page where p: "answer = Inr page" using assms by (cases answer) (simp_all add: lane_step_def a)
  obtain b w1 where v: "visit_hits scope request (entry_ref entry) (tfDepth entry) (rgHits page) (w\<lparr>wkWorld := world\<rparr>) = Inr (b, w1)"
    using assms by (cases "visit_hits scope request (entry_ref entry) (tfDepth entry) (rgHits page) (w\<lparr>wkWorld := world\<rparr>)")
      (auto simp: lane_step_def a p)
  have *: "\<not> rgExhausted page \<and> rgContinuation page \<noteq> lane \<and> lane' = rgContinuation page \<and>
      (\<exists>ps. w' = (foldl append_claim w1 (rgClaims page))\<lparr>wkPositions := ps\<rparr>)"
    using assms by (auto simp: lane_step_def a p v Let_def split: if_splits)
  then have "advances w w'" using advances_out(2) [OF visit_hits_advances [OF v]] by auto
  then show thesis using that a p * by blast
qed

lemma lane_step_end:
  assumes "lane_step lib core request scope repo commit entry (lane, w) = Inr (Inl w')"
  shows "advances w w'"
proof -
  obtain answer world where a: "tcRelationsAt core repo commit (relation_request request (entry_ref entry) lane) (wkWorld w)
      = (answer, world)" by fastforce
  obtain page where p: "answer = Inr page" using assms by (cases answer) (simp_all add: lane_step_def a)
  obtain b w1 where v: "visit_hits scope request (entry_ref entry) (tfDepth entry) (rgHits page) (w\<lparr>wkWorld := world\<rparr>) = Inr (b, w1)"
    using assms by (cases "visit_hits scope request (entry_ref entry) (tfDepth entry) (rgHits page) (w\<lparr>wkWorld := world\<rparr>)")
      (auto simp: lane_step_def a p)
  have "\<exists>ps. w' = (foldl append_claim w1 (rgClaims page))\<lparr>wkPositions := ps\<rparr>"
    using assms by (auto simp: lane_step_def a p v Let_def split: if_splits)
  then show ?thesis using advances_out(2) [OF visit_hits_advances [OF v]] by auto
qed

section \<open>Termination\<close>

text \<open>The continuations of every lane decrease a rank: the documented behaviour of an advancing lane.\<close>

definition lane_advances :: "('repo, 'w) traverse_core \<Rightarrow> ('repo \<Rightarrow> string \<Rightarrow> RelationQuery \<Rightarrow> string \<Rightarrow> nat) \<Rightarrow> bool" where
  "lane_advances core rank = (\<forall>repo commit q w page w'. tcRelationsAt core repo commit q w = (Inr page, w') \<longrightarrow>
     \<not> rgExhausted page \<longrightarrow> rgContinuation page \<noteq> rpContinuation q \<longrightarrow>
     rank repo commit (rpQuery q) (rgContinuation page) < rank repo commit (rpQuery q) (rpContinuation q))"

lemma lane_advancesD:
  "lane_advances core rank \<Longrightarrow> tcRelationsAt core repo commit q w = (Inr page, w') \<Longrightarrow> \<not> rgExhausted page \<Longrightarrow>
   rgContinuation page \<noteq> rpContinuation q \<Longrightarrow>
   rank repo commit (rpQuery q) (rgContinuation page) < rank repo commit (rpQuery q) (rpContinuation q)"
  unfolding lane_advances_def by blast

lemma lane_loop_returns:
  assumes "lane_advances core rank"
  shows "\<exists>r. lane_loop lib core request scope repo commit entry w = Some r"
  unfolding lane_loop_def
proof (rule go_loop_returns [where I = "\<lambda>_. True" and
      R = "measure (\<lambda>s. rank repo commit (rpQuery (relation_request request (entry_ref entry) [])) (fst s))"])
  fix s :: "string \<times> 'b walk"
  obtain lane v where s: "s = (lane, v)" by fastforce
  have "rank repo commit (rpQuery (relation_request request (entry_ref entry) [])) lane' <
      rank repo commit (rpQuery (relation_request request (entry_ref entry) [])) lane"
    if step: "lane_step lib core request scope repo commit entry (lane, v) = Inl (lane', v')" for lane' v'
  proof -
    from lane_step_page [OF step] obtain page world where
      a: "tcRelationsAt core repo commit (relation_request request (entry_ref entry) lane) (wkWorld v) = (Inr page, world)"
      "\<not> rgExhausted page" "rgContinuation page \<noteq> lane" "lane' = rgContinuation page" by blast
    have c: "rpContinuation (relation_request request (entry_ref entry) l) = l"
      "rpQuery (relation_request request (entry_ref entry) l) = rpQuery (relation_request request (entry_ref entry) [])" for l
      by (simp_all add: relation_request_def Let_def)
    show ?thesis using lane_advancesD [OF assms a(1,2)] a(3,4) c(1) [of lane] c(2) [of lane] by simp
  qed
  then show "\<exists>x. Some (lane_step lib core request scope repo commit entry s) = Some x \<and>
      (case x of Inl s' \<Rightarrow> True \<and> (s', s) \<in> measure (\<lambda>s. rank repo commit (rpQuery (relation_request request (entry_ref entry) [])) (fst s))
        | Inr _ \<Rightarrow> True)"
    by (auto simp: s split: sum.splits)
qed simp_all

lemma lane_loop_advances:
  assumes "lane_loop lib core request scope repo commit entry w = Some (Inl w')"
  shows "advances w w'"
proof -
  have "\<forall>v. r = Inl v \<longrightarrow> advances w v" if "lane_loop lib core request scope repo commit entry w = Some r" for r
  proof (rule go_loop_invariant [OF that [unfolded lane_loop_def], where I = "\<lambda>s. advances w (snd s)"])
    fix s s' assume "advances w (snd s)" "Some (lane_step lib core request scope repo commit entry s) = Some (Inl s')"
    then show "advances w (snd s')"
      by (cases s; cases s') (auto elim!: lane_step_page intro: advances_trans)
  next
    fix s r assume "advances w (snd s)" "Some (lane_step lib core request scope repo commit entry s) = Some (Inr r)"
    then show "\<forall>v. r = Inl v \<longrightarrow> advances w v"
      by (cases s) (auto dest!: lane_step_end intro: advances_trans)
  qed (simp add: advances_refl)
  then show ?thesis using assms by blast
qed

lemma frontier_step_continues:
  assumes "frontier_step lib core request scope w = Some (Inl w')"
  obtains entry rest repo commit where "wkFrontier w = entry # rest" "length (wkEdges w) < MaxTraverseEdges"
    "tfDepth entry < tqMaxHops (trQuery request)" "map_of (soSnapshots scope) (tfRepository entry) = Some commit"
    "lane_loop lib core request scope repo commit entry (w\<lparr>wkFrontier := rest\<rparr>) = Some (Inl w')"
    "int (length (tpNodes (wkOut w))) < trLimit request"
  using assms by (auto simp: frontier_step_def split: list.splits if_splits option.splits sum.splits)

lemma frontier_loop_returns:
  assumes "lane_advances core rank"
  shows "\<exists>r. go_loop (frontier_step lib core request scope) w = Some r"
proof (rule go_loop_returns [where I = "\<lambda>_. True" and
      R = "(\<lambda>w. MaxTraverseEdges - length (wkEdges w)) <*mlex*> measure (\<lambda>w. length (wkFrontier w))"])
  fix w
  have "\<exists>x. frontier_step lib core request scope w = Some x"
    using lane_loop_returns [OF assms] by (auto simp: frontier_step_def split: list.splits option.splits sum.splits)
  moreover have "(w', w) \<in> (\<lambda>w. MaxTraverseEdges - length (wkEdges w)) <*mlex*> measure (\<lambda>w. length (wkFrontier w))"
    if "frontier_step lib core request scope w = Some (Inl w')" for w'
    using that
  proof (rule frontier_step_continues)
    fix entry rest repo commit
    assume f: "wkFrontier w = entry # rest" and n: "length (wkEdges w) < MaxTraverseEdges"
      and l: "lane_loop lib core request scope repo commit entry (w\<lparr>wkFrontier := rest\<rparr>) = Some (Inl w')"
    have a: "advances (w\<lparr>wkFrontier := rest\<rparr>) w'" using lane_loop_advances [OF l] .
    show ?thesis
    proof (cases "length (wkEdges w') = length (wkEdges w)")
      case True
      then show ?thesis using a f by (simp add: mlex_iff advances_def)
    next
      case False
      then have "length (wkEdges w) < length (wkEdges w')" using a by (simp add: advances_def)
      then have "MaxTraverseEdges - length (wkEdges w') < MaxTraverseEdges - length (wkEdges w)" using n by linarith
      then show ?thesis by (simp add: mlex_iff)
    qed
  qed
  ultimately show "\<exists>x. frontier_step lib core request scope w = Some x \<and> (case x of
      Inl s' \<Rightarrow> True \<and> (s', w) \<in> (\<lambda>w. MaxTraverseEdges - length (wkEdges w)) <*mlex*> measure (\<lambda>w. length (wkFrontier w))
    | Inr _ \<Rightarrow> True)"
    by (auto split: sum.splits)
qed (simp_all add: wf_mlex)

text \<open>Every page of a traversal over advancing lanes returns, whatever the lanes answer.\<close>

lemma traverse_returns:
  assumes "\<And>c. core = Some c \<Longrightarrow> lane_advances c rank"
  shows "\<exists>r. traverse_Run lib core request scope world = Some r"
  using assms frontier_loop_returns
  by (auto simp: traverse_Run_def Let_def split: option.splits sum.splits)

section \<open>Pages\<close>

definition node_ref :: "TraverseNode \<Rightarrow> KnowledgeRef" where
  "node_ref n = \<lparr>krRepository = tnRepository n, krObject = tnObjectID n\<rparr>"

definition edge_coordinate :: "TraverseEdge \<Rightarrow> EdgeCoordinate" where
  "edge_coordinate e = \<lparr>ecRepository = teRepository e, ecObjectID = teObjectID e\<rparr>"

definition in_traverse_scope :: "TraverseScope \<Rightarrow> KnowledgeRef \<Rightarrow> bool" where
  "in_traverse_scope scope ref = (soContains scope (krRepository ref) (krObject ref) = Inr True)"

text \<open>The page so far, against the sets the walk started with.\<close>

definition page_sound :: "TraverseScope \<Rightarrow> TraverseQuery \<Rightarrow> KnowledgeRef list \<Rightarrow> EdgeCoordinate list \<Rightarrow> TraverseBoundary list \<Rightarrow>
    KnowledgeRef list \<Rightarrow> EdgeCoordinate list \<Rightarrow> TraverseBoundary list \<Rightarrow> TraversePage \<Rightarrow> bool" where
  "page_sound scope q V0 E0 B0 V E B out =
    (E = E0 @ map edge_coordinate (tpEdges out) \<and> distinct E \<and>
     B = B0 @ tpBoundary out \<and> distinct B \<and>
     distinct V \<and> (\<exists>vs. V = V0 @ vs \<and> subseq (map node_ref (tpNodes out)) vs) \<and>
     (\<forall>n \<in> set (tpNodes out). in_traverse_scope scope (node_ref n) \<and> tqMinHops q \<le> tnDepth n \<and> tnDepth n \<le> tqMaxHops q) \<and>
     (\<forall>b \<in> set (tpBoundary out). tbReason b = BoundaryOutsideScope \<and> soContains scope (tbRepository b) (tbObjectID b) = Inr False))"

abbreviation walk_sound :: "TraverseScope \<Rightarrow> TraverseQuery \<Rightarrow> KnowledgeRef list \<Rightarrow> EdgeCoordinate list \<Rightarrow> TraverseBoundary list \<Rightarrow>
    'w walk \<Rightarrow> bool" where
  "walk_sound scope q V0 E0 B0 w \<equiv> page_sound scope q V0 E0 B0 (wkVisited w) (wkEdges w) (wkBoundary w) (wkOut w)"

lemma node_ref_of [simp]: "node_ref (node_of ref d) = ref" "tnDepth (node_of ref d) = d"
  by (simp_all add: node_ref_def node_of_def)

lemma boundary_of_fields [simp]: "tbReason (boundary_of ref) = BoundaryOutsideScope"
  "tbRepository (boundary_of ref) = krRepository ref" "tbObjectID (boundary_of ref) = krObject ref"
  by (simp_all add: boundary_of_def)

lemma page_sound_boundary:
  assumes "page_sound scope q V0 E0 B0 V E B out" "b \<notin> set B" "tbReason b = BoundaryOutsideScope"
    "soContains scope (tbRepository b) (tbObjectID b) = Inr False"
  shows "page_sound scope q V0 E0 B0 V E (B @ [b]) (out\<lparr>tpBoundary := tpBoundary out @ [b]\<rparr>)"
  using assms by (auto simp: page_sound_def disjoint_iff; blast)

lemma page_sound_visit:
  assumes s: "page_sound scope q V0 E0 B0 V E B out" and n: "ref \<notin> set V" "in_traverse_scope scope ref" "d \<le> tqMaxHops q"
  shows "page_sound scope q V0 E0 B0 (V @ [ref]) E B
    (if d \<ge> tqMinHops q then out\<lparr>tpNodes := tpNodes out @ [node_of ref d]\<rparr> else out)"
proof -
  obtain vs where vs: "V = V0 @ vs" "subseq (map node_ref (tpNodes out)) vs" using s by (auto simp: page_sound_def)
  have "V @ [ref] = V0 @ (vs @ [ref])" "subseq (map node_ref (tpNodes out) @ [ref]) (vs @ [ref])"
    "subseq (map node_ref (tpNodes out)) (vs @ [ref])"
    using vs by (simp_all add: list_emb_append_mono list_emb_prefix)
  then show ?thesis using s n by (auto simp: page_sound_def disjoint_iff; blast)
qed

lemma page_sound_edge:
  assumes "page_sound scope q V0 E0 B0 V E B out" "edge_coordinate e \<notin> set E"
  shows "page_sound scope q V0 E0 B0 V (E @ [edge_coordinate e]) B (out\<lparr>tpEdges := tpEdges out @ [e]\<rparr>)"
  using assms by (auto simp: page_sound_def disjoint_iff; blast)

lemma page_sound_claims:
  "page_sound scope q V0 E0 B0 V E B out \<Longrightarrow> page_sound scope q V0 E0 B0 V E B (out\<lparr>tpClaims := cs\<rparr>)"
  by (auto simp: page_sound_def disjoint_iff; blast)

lemma visit_endpoint_sound:
  assumes "visit_endpoint scope (tqMinHops q) self depth ref w = Inr w'" "walk_sound scope q V0 E0 B0 w" "depth < tqMaxHops q"
  shows "walk_sound scope q V0 E0 B0 w'"
  using assms(1)
proof (cases rule: visit_endpoint_cases)
  case same
  then show ?thesis using assms(2) by simp
next
  case boundary
  then show ?thesis using assms(2) by (simp add: page_sound_boundary)
next
  case visit
  have "page_sound scope q V0 E0 B0 (wkVisited w @ [ref]) (wkEdges w) (wkBoundary w)
      (if depth + 1 \<ge> tqMinHops q then (wkOut w)\<lparr>tpNodes := tpNodes (wkOut w) @ [node_of ref (depth + 1)]\<rparr> else wkOut w)"
    using assms(2,3) visit(1,2) by (intro page_sound_visit) (auto simp: in_traverse_scope_def)
  then show ?thesis using visit(4) by (simp del: if_split)
qed

lemma visit_endpoints_sound:
  "visit_endpoints scope (tqMinHops q) self depth es w = Inr w' \<Longrightarrow> walk_sound scope q V0 E0 B0 w \<Longrightarrow>
   depth < tqMaxHops q \<Longrightarrow> walk_sound scope q V0 E0 B0 w'"
  by (induction es arbitrary: w) (auto simp: rbind_Inr_iff dest: visit_endpoint_sound)

lemma take_edge_sound:
  assumes "walk_sound scope q V0 E0 B0 w" "hit_edge h \<notin> set (wkEdges w)"
  shows "walk_sound scope q V0 E0 B0 (take_edge depth h w)"
proof -
  have "hit_edge h = edge_coordinate \<lparr>teRepository = rhRepository h, teCommit = rhCommit h, teObjectID = rhObjectID h,
      teRelation = rhRelation h, teDepth = depth\<rparr>" by (simp add: hit_edge_def edge_coordinate_def)
  then show ?thesis using assms by (simp add: take_edge_def page_sound_edge)
qed

lemma visit_hits_sound:
  "visit_hits scope request self depth hs w = Inr (b, w') \<Longrightarrow> walk_sound scope (trQuery request) V0 E0 B0 w \<Longrightarrow>
   depth < tqMaxHops (trQuery request) \<Longrightarrow> walk_sound scope (trQuery request) V0 E0 B0 w'"
proof (induction hs arbitrary: w)
  case (Cons h hs)
  show ?case
  proof (cases "hit_edge h \<in> set (wkEdges w)")
    case True
    then show ?thesis using Cons by simp
  next
    case False
    then obtain w1 where w1: "visit_endpoints scope (tqMinHops (trQuery request)) self depth
        (rlEndpoints (rhRelation h)) (take_edge depth h w) = Inr w1"
      and rest: "w' = w1 \<or> visit_hits scope request self depth hs w1 = Inr (b, w')"
      using Cons.prems by (auto simp: rbind_Inr_iff split: if_splits)
    have "walk_sound scope (trQuery request) V0 E0 B0 w1"
      using visit_endpoints_sound [OF w1] take_edge_sound [OF Cons.prems(2) False] Cons.prems(3) by blast
    then show ?thesis using rest Cons.IH Cons.prems(3) by blast
  qed
qed simp

lemma append_claim_sound:
  "page_sound scope q V0 E0 B0 V E B (wkOut w) \<Longrightarrow> page_sound scope q V0 E0 B0 V E B (wkOut (append_claim w c))"
  by (simp add: append_claim_def page_sound_claims)

lemma append_claims_sound:
  "page_sound scope q V0 E0 B0 V E B (wkOut w) \<Longrightarrow> page_sound scope q V0 E0 B0 V E B (wkOut (foldl append_claim w cs))"
  by (induction cs arbitrary: w) (simp_all add: append_claim_sound)

text \<open>A page is made from a sound walk: by \<open>pageDone\<close> or at the end of the traversal.\<close>

definition made_from :: "traverse_lib \<Rightarrow> TraverseRequest \<Rightarrow> TraverseScope \<Rightarrow> KnowledgeRef list \<Rightarrow> EdgeCoordinate list \<Rightarrow>
    TraverseBoundary list \<Rightarrow> 'w walk \<Rightarrow> TraversePage go \<Rightarrow> bool" where
  "made_from lib request scope V0 E0 B0 w r = (walk_sound scope (trQuery request) V0 E0 B0 w \<and>
     (r = page_done lib request scope w \<or> r = Inr (traverse_finish w)))"

definition result_sound :: "'w itself \<Rightarrow> traverse_lib \<Rightarrow> TraverseRequest \<Rightarrow> TraverseScope \<Rightarrow> KnowledgeRef list \<Rightarrow> EdgeCoordinate list \<Rightarrow>
    TraverseBoundary list \<Rightarrow> TraversePage go \<Rightarrow> bool" where
  "result_sound _ lib request scope V0 E0 B0 r = (ok r \<longrightarrow> (\<exists>w :: 'w walk. made_from lib request scope V0 E0 B0 w r))"

lemma result_sound_done:
  "walk_sound scope (trQuery request) V0 E0 B0 (w :: 'w walk) \<Longrightarrow>
   result_sound TYPE('w) lib request scope V0 E0 B0 (page_done lib request scope w)"
  "walk_sound scope (trQuery request) V0 E0 B0 w \<Longrightarrow>
   result_sound TYPE('w) lib request scope V0 E0 B0 (Inr (traverse_finish w))"
  by (auto simp: result_sound_def made_from_def)

lemma result_sound_error [simp]: "result_sound TYPE('w) lib request scope V0 E0 B0 (Inl e)"
  by (simp add: result_sound_def)

lemma lane_step_sound:
  fixes w :: "'w walk"
  assumes s: "walk_sound scope (trQuery request) V0 E0 B0 w" and d: "tfDepth entry < tqMaxHops (trQuery request)"
  shows "case lane_step lib core request scope repo commit entry (lane, w) of
      Inl (_, w') \<Rightarrow> walk_sound scope (trQuery request) V0 E0 B0 w'
    | Inr (Inl w') \<Rightarrow> walk_sound scope (trQuery request) V0 E0 B0 w'
    | Inr (Inr r) \<Rightarrow> result_sound TYPE('w) lib request scope V0 E0 B0 r"
proof -
  obtain answer world where a: "tcRelationsAt core repo commit (relation_request request (entry_ref entry) lane) (wkWorld w)
      = (answer, world)" by fastforce
  show ?thesis
  proof (cases "\<exists>page b w1. answer = Inr page \<and>
      visit_hits scope request (entry_ref entry) (tfDepth entry) (rgHits page) (w\<lparr>wkWorld := world\<rparr>) = Inr (b, w1)")
    case False
    then show ?thesis by (auto simp: lane_step_def a split: sum.splits)
  next
    case True
    then obtain page b w1 where p: "answer = Inr page"
      and v: "visit_hits scope request (entry_ref entry) (tfDepth entry) (rgHits page) (w\<lparr>wkWorld := world\<rparr>) = Inr (b, w1)"
      by blast
    have w1: "walk_sound scope (trQuery request) V0 E0 B0 w1" using visit_hits_sound [OF v] s d by simp
    have out: "page_sound scope (trQuery request) V0 E0 B0 (wkVisited w1) (wkEdges w1) (wkBoundary w1)
        (wkOut (foldl append_claim w1 cs))"
      "page_sound scope (trQuery request) V0 E0 B0 (wkVisited w1) (wkEdges w1) (wkBoundary w1)
        (wkOut (append_claim (foldl append_claim w1 cs) c))" for cs c
      using w1 by (simp_all add: append_claim_sound append_claims_sound)
    show ?thesis using out by (simp add: lane_step_def a p v Let_def result_sound_done)
  qed
qed

lemma lane_loop_sound:
  fixes w :: "'w walk"
  assumes run: "lane_loop lib core request scope repo commit entry w = Some r"
    and s: "walk_sound scope (trQuery request) V0 E0 B0 w" and d: "tfDepth entry < tqMaxHops (trQuery request)"
  shows "case r of Inl w' \<Rightarrow> walk_sound scope (trQuery request) V0 E0 B0 w' | Inr r \<Rightarrow> result_sound TYPE('w) lib request scope V0 E0 B0 r"
proof (rule go_loop_invariant [OF run [unfolded lane_loop_def], where I = "\<lambda>s. walk_sound scope (trQuery request) V0 E0 B0 (snd s)"])
  fix s s' assume "walk_sound scope (trQuery request) V0 E0 B0 (snd s)"
    "Some (lane_step lib core request scope repo commit entry s) = Some (Inl s')"
  then show "walk_sound scope (trQuery request) V0 E0 B0 (snd s')"
    using lane_step_sound [OF _ d, where w = "snd s" and lane = "fst s" and core = core and repo = repo and commit = commit
          and scope = scope and lib = lib and ?V0.0 = V0 and ?E0.0 = E0 and ?B0.0 = B0] by (cases s') simp
next
  fix s r assume "walk_sound scope (trQuery request) V0 E0 B0 (snd s)"
    "Some (lane_step lib core request scope repo commit entry s) = Some (Inr r)"
  then show "case r of Inl w' \<Rightarrow> walk_sound scope (trQuery request) V0 E0 B0 w' | Inr r \<Rightarrow> result_sound TYPE('w) lib request scope V0 E0 B0 r"
    using lane_step_sound [OF _ d, where w = "snd s" and lane = "fst s" and core = core and repo = repo and commit = commit
          and scope = scope and lib = lib and ?V0.0 = V0 and ?E0.0 = E0 and ?B0.0 = B0] by simp
qed (simp add: s)

lemma frontier_step_sound:
  fixes w :: "'w walk"
  assumes run: "frontier_step lib core request scope w = Some r" and s: "walk_sound scope (trQuery request) V0 E0 B0 w"
  shows "case r of Inl w' \<Rightarrow> walk_sound scope (trQuery request) V0 E0 B0 w' | Inr r \<Rightarrow> result_sound TYPE('w) lib request scope V0 E0 B0 r"
proof (cases "\<exists>entry rest repo commit. tfDepth entry < tqMaxHops (trQuery request) \<and>
    lane_loop lib core request scope repo commit entry (w\<lparr>wkFrontier := rest\<rparr>) = Some r")
  case True
  then obtain entry rest repo commit where d: "tfDepth entry < tqMaxHops (trQuery request)"
    and l: "lane_loop lib core request scope repo commit entry (w\<lparr>wkFrontier := rest\<rparr>) = Some r" by blast
  have "walk_sound scope (trQuery request) V0 E0 B0 (w\<lparr>wkFrontier := rest\<rparr>)" using s by simp
  from lane_loop_sound [OF l this d] show ?thesis .
next
  case False
  have c: "walk_sound scope (trQuery request) V0 E0 B0 (append_claim w budget_claim)"
    using s by (simp add: append_claim_sound)
  show ?thesis using run False result_sound_done [OF s] result_sound_done(1) [OF c]
    by (auto simp: frontier_step_def not_less split: list.splits if_splits option.splits sum.splits)
qed

lemma frontier_loop_sound:
  fixes w :: "'w walk"
  assumes run: "go_loop (frontier_step lib core request scope) w = Some r" and s: "walk_sound scope (trQuery request) V0 E0 B0 w"
  shows "result_sound TYPE('w) lib request scope V0 E0 B0 r"
proof (rule go_loop_invariant [OF run, where I = "\<lambda>w. walk_sound scope (trQuery request) V0 E0 B0 w"])
  fix w w' assume "walk_sound scope (trQuery request) V0 E0 B0 w" "frontier_step lib core request scope w = Some (Inl w')"
  then show "walk_sound scope (trQuery request) V0 E0 B0 w'" using frontier_step_sound by fastforce
next
  fix w r assume "walk_sound scope (trQuery request) V0 E0 B0 w" "frontier_step lib core request scope w = Some (Inr r)"
  then show "result_sound TYPE('w) lib request scope V0 E0 B0 r" using frontier_step_sound by fastforce
qed (rule s)

section \<open>Tokens\<close>

definition traverse_state :: "traverse_lib \<Rightarrow> TraverseQuery \<Rightarrow> SearchView \<Rightarrow> string \<Rightarrow> string \<Rightarrow> ContinuationState" where
  "traverse_state lib query view identity raw =
    (let s = \<lparr>ctScope = ''traverse'', ctQuery = TraverseQueryDigest (tl_sha lib) query,
         ctSearchView = SearchViewDigest (tl_sha lib) view, ctProjection = CanonicalDigest (tl_sha lib) (JString identity),
         ctPosition = raw, ctMembers = [], ctCheck = []\<rparr> in s\<lparr>ctCheck := continuation_check (tlToken lib) s\<rparr>)"

text \<open>The coding of the tokens of one traversal loses nothing.\<close>

definition traverse_lib_ok :: "traverse_lib \<Rightarrow> TraverseQuery \<Rightarrow> SearchView \<Rightarrow> string \<Rightarrow> bool" where
  "traverse_lib_ok lib query view identity =
    ((\<forall>raw. let s = traverse_state lib query view identity raw in
        ctCheck s \<noteq> [] \<and> tkEncode (tlToken lib) s \<noteq> [] \<and> tkDecode (tlToken lib) (tkEncode (tlToken lib) s) = Some s) \<and>
     (\<forall>p raw. tlMarshal lib p = Some raw \<longrightarrow> tlUnmarshal lib raw = Some p))"

lemma position_normalize_idem [simp]: "position_normalize (position_normalize p) = position_normalize p"
  by (simp add: position_normalize_def sortBoundaries_def sort_key_id_if_sorted)

lemma traverse_token_decodes:
  assumes "traverse_lib_ok lib query view identity" and e: "EncodeTraversePosition lib query view identity p = Inr token"
  shows "token \<noteq> []" "DecodeTraversePosition lib token query view identity = Inr (position_normalize p)"
proof -
  obtain raw where raw: "tlMarshal lib (position_normalize p) = Some raw"
    and token: "token = tkEncode (tlToken lib) (traverse_state lib query view identity raw)"
    using e by (auto simp: EncodeTraversePosition_def EncodeContinuation_def traverse_state_def split: option.splits)
  let ?s = "traverse_state lib query view identity raw"
  have d: "token \<noteq> []" "tkDecode (tlToken lib) token = Some ?s" "tlUnmarshal lib raw = Some (position_normalize p)"
    using assms(1) raw by (auto simp: traverse_lib_ok_def token Let_def)
  have c: "ctCheck ?s \<noteq> []" "continuation_check (tlToken lib) ?s = ctCheck ?s" "ctScope ?s = ''traverse''"
    "ctQuery ?s = TraverseQueryDigest (tl_sha lib) query" "ctSearchView ?s = SearchViewDigest (tl_sha lib) view"
    "ctProjection ?s = CanonicalDigest (tl_sha lib) (JString identity)" "ctPosition ?s = raw"
    using assms(1) by (simp_all add: traverse_lib_ok_def traverse_state_def continuation_check_def Let_def)
  show "token \<noteq> []" by (fact d(1))
  show "DecodeTraversePosition lib token query view identity = Inr (position_normalize p)"
    using d c by (simp add: DecodeTraversePosition_def DecodeContinuation_def)
qed

section \<open>The pages of a run\<close>

definition final_position :: "'w walk \<Rightarrow> TraversePosition" where
  "final_position w = (wkPosition w)\<lparr>poFrontier := wkFrontier w, poVisited := sort_key ref_order (wkVisited w),
     poEdges := sort_key edge_order (wkEdges w), poBoundary := sortBoundaries (wkBoundary w), poPositions := wkPositions w\<rparr>"

lemma page_done_page:
  assumes "page_done lib request scope w = Inr page"
  shows "EncodeTraversePosition lib (trQuery request) (scope_view scope) (soIdentity scope) (final_position w) =
      Inr (tpContinuation page)"
    "tpNodes page = tpNodes (wkOut w)" "tpEdges page = tpEdges (wkOut w)" "set (tpBoundary page) = set (tpBoundary (wkOut w))"
    "length (tpBoundary page) = length (tpBoundary (wkOut w))"
  using assms by (auto simp: page_done_def final_position_def Let_def rbind_Inr_iff sortBoundaries_def)

lemma page_sound_sorted:
  assumes "page_sound scope q V0 E0 B0 V E B out" "tpNodes page = tpNodes out" "tpEdges page = tpEdges out"
    "set (tpBoundary page) = set (tpBoundary out)" "length (tpBoundary page) = length (tpBoundary out)"
  shows "distinct (map node_ref (tpNodes page))" "set (map node_ref (tpNodes page)) \<subseteq> set V - set V0"
    "E = E0 @ map edge_coordinate (tpEdges page)" "distinct E" "distinct (tpBoundary page)"
    "set B = set B0 \<union> set (tpBoundary page)" "set B0 \<inter> set (tpBoundary page) = {}"
    "\<forall>n \<in> set (tpNodes page). in_traverse_scope scope (node_ref n) \<and> tqMinHops q \<le> tnDepth n \<and> tnDepth n \<le> tqMaxHops q"
    "\<forall>b \<in> set (tpBoundary page). tbReason b = BoundaryOutsideScope \<and> soContains scope (tbRepository b) (tbObjectID b) = Inr False"
    "set V0 \<subseteq> set V"
proof -
  obtain vs where vs: "V = V0 @ vs" "distinct V" "subseq (map node_ref (tpNodes page)) vs"
    using assms(1,2) by (auto simp: page_sound_def)
  show "distinct (map node_ref (tpNodes page))" using vs by (auto dest: subseq_distinct)
  show "set (map node_ref (tpNodes page)) \<subseteq> set V - set V0" using vs subseq_set [OF vs(3)] by auto
  show "set V0 \<subseteq> set V" using vs(1) by simp
  have "distinct (tpBoundary out)" using assms(1) by (auto simp: page_sound_def)
  then show "distinct (tpBoundary page)" using assms(4,5) card_distinct distinct_card by metis
qed (use assms in \<open>(auto simp: page_sound_def disjoint_iff; blast)+\<close>)

definition initial_visited :: "KnowledgeRef \<Rightarrow> TraversePosition \<Rightarrow> KnowledgeRef list" where
  "initial_visited start position =
    (if poFrontier position = [] \<and> poVisited position = [] then [start] else dedup (poVisited position))"

lemma start_walk_sound:
  assumes "enter_start scope start (start_walk view position world) = Inr w"
  shows "walk_sound scope q (initial_visited start position) (dedup (poEdges position)) (dedup (poBoundary position)) w"
proof -
  have n: "dedup xs = [] \<longleftrightarrow> xs = []" for xs :: "KnowledgeRef list" by (metis set_dedup set_empty)
  show ?thesis
    using assms by (auto simp: enter_start_def start_walk_def initial_visited_def page_sound_def rbind_Inr_iff n split: if_splits)
qed

lemma traverse_Run_sound:
  fixes world :: 'w
  assumes run: "traverse_Run lib (Some core) request (Some scope) world = Some (Inr page)"
    and pos: "DecodeTraversePosition lib (trContinuation request) (trQuery request) (scope_view scope) (soIdentity scope) = Inr position"
  obtains w :: "'w walk" where
    "walk_sound scope (trQuery request) (initial_visited (tqStart (trQuery request)) position) (dedup (poEdges position))
       (dedup (poBoundary position)) w"
    "page_done lib request scope w = Inr page \<or> page = traverse_finish w"
proof -
  obtain w0 where w0: "enter_start scope (tqStart (trQuery request)) (start_walk (scope_view scope) position world) = Inr w0"
    and l: "go_loop (frontier_step lib core request scope) w0 = Some (Inr page)"
    using run pos by (auto simp: traverse_Run_def split: if_splits sum.splits)
  from frontier_loop_sound [OF l start_walk_sound [OF w0]] show thesis
    using that by (auto simp: result_sound_def made_from_def)
qed

text \<open>The pages of a caller that follows the continuations until a page is exhausted.  Every request has its own lanes,
  limit and budget.\<close>

fun traverse_pages :: "traverse_lib \<Rightarrow> TraverseScope \<Rightarrow> TraverseQuery \<Rightarrow> string \<Rightarrow> (('repo, 'w) traverse_core \<times> int \<times> 'w) list \<Rightarrow>
    TraversePage list" where
  "traverse_pages lib scope query token [] = []"
| "traverse_pages lib scope query token ((core, limit, world) # runs) =
    (case traverse_Run lib (Some core) \<lparr>trQuery = query, trLimit = limit, trContinuation = token\<rparr> (Some scope) world of
      Some (Inr page) \<Rightarrow> page # (if tpExhausted page then [] else traverse_pages lib scope query (tpContinuation page) runs)
    | _ \<Rightarrow> [])"

abbreviation page_nodes :: "TraversePage list \<Rightarrow> KnowledgeRef list" where
  "page_nodes pages \<equiv> concat (map (\<lambda>p. map node_ref (tpNodes p)) pages)"

abbreviation page_edges :: "TraversePage list \<Rightarrow> EdgeCoordinate list" where
  "page_edges pages \<equiv> concat (map (\<lambda>p. map edge_coordinate (tpEdges p)) pages)"

abbreviation page_boundaries :: "TraversePage list \<Rightarrow> TraverseBoundary list" where
  "page_boundaries pages \<equiv> concat (map tpBoundary pages)"

definition pages_disjoint :: "KnowledgeRef set \<Rightarrow> EdgeCoordinate set \<Rightarrow> TraverseBoundary set \<Rightarrow> TraversePage list \<Rightarrow> bool" where
  "pages_disjoint V E B pages =
    (distinct (page_nodes pages) \<and> set (page_nodes pages) \<inter> V = {} \<and>
     distinct (page_edges pages) \<and> set (page_edges pages) \<inter> E = {} \<and>
     distinct (page_boundaries pages) \<and> set (page_boundaries pages) \<inter> B = {})"

lemma pages_disjoint_Cons:
  assumes "pages_disjoint V' E' B' pages" "V \<union> set (map node_ref (tpNodes page)) \<subseteq> V'"
    "E \<union> set (map edge_coordinate (tpEdges page)) \<subseteq> E'" "B \<union> set (tpBoundary page) \<subseteq> B'"
    "distinct (map node_ref (tpNodes page))" "set (map node_ref (tpNodes page)) \<inter> V = {}"
    "distinct (map edge_coordinate (tpEdges page))" "set (map edge_coordinate (tpEdges page)) \<inter> E = {}"
    "distinct (tpBoundary page)" "set (tpBoundary page) \<inter> B = {}"
  shows "pages_disjoint V E B (page # pages)"
proof -
  have "distinct (xs @ ys)" "set (xs @ ys) \<inter> S = {}"
    if "distinct xs" "set xs \<inter> S = {}" "distinct ys" "set ys \<inter> S' = {}" "S \<union> set xs \<subseteq> S'" for xs ys :: "'x list" and S S'
    using that by auto
  note * = this
  show ?thesis using assms *[of "map node_ref (tpNodes page)" V "page_nodes pages" V']
      *[of "map edge_coordinate (tpEdges page)" E "page_edges pages" E'] *[of "tpBoundary page" B "page_boundaries pages" B']
    unfolding pages_disjoint_def by simp
qed

definition page_in_contract :: "TraverseScope \<Rightarrow> TraverseQuery \<Rightarrow> TraversePage \<Rightarrow> bool" where
  "page_in_contract scope q page =
    ((\<forall>n \<in> set (tpNodes page). in_traverse_scope scope (node_ref n) \<and> tqMinHops q \<le> tnDepth n \<and> tnDepth n \<le> tqMaxHops q) \<and>
     (\<forall>b \<in> set (tpBoundary page). tbReason b = BoundaryOutsideScope \<and> soContains scope (tbRepository b) (tbObjectID b) = Inr False) \<and>
     (\<not> tpExhausted page \<longrightarrow> tpContinuation page \<noteq> []))"

lemma traverse_pages_sound:
  assumes lib: "traverse_lib_ok lib query (scope_view scope) (soIdentity scope)"
  shows "DecodeTraversePosition lib token query (scope_view scope) (soIdentity scope) = Inr position \<Longrightarrow>
    pages_disjoint (set (initial_visited (tqStart query) position)) (set (poEdges position)) (set (poBoundary position))
      (traverse_pages lib scope query token runs) \<and>
    (\<forall>page \<in> set (traverse_pages lib scope query token runs). page_in_contract scope query page)"
proof (induction runs arbitrary: token position)
  case Nil
  then show ?case by (simp add: pages_disjoint_def)
next
  case (Cons x runs)
  obtain core limit world where x: "x = (core, limit, world)" by (cases x)
  let ?req = "\<lparr>trQuery = query, trLimit = limit, trContinuation = token\<rparr>"
  show ?case
  proof (cases "\<exists>page. traverse_Run lib (Some core) ?req (Some scope) world = Some (Inr page)")
    case False
    then show ?thesis by (auto simp: x pages_disjoint_def split: option.splits sum.splits)
  next
    case True
    then obtain page where run: "traverse_Run lib (Some core) ?req (Some scope) world = Some (Inr page)" by blast
    let ?V = "initial_visited (tqStart query) position"
    obtain w :: "'b walk" where w: "walk_sound scope query ?V (dedup (poEdges position)) (dedup (poBoundary position)) w"
      and made: "page_done lib ?req scope w = Inr page \<or> page = traverse_finish w"
      using traverse_Run_sound [OF run, of position] Cons.prems by auto
    have same: "tpNodes page = tpNodes (wkOut w)" "tpEdges page = tpEdges (wkOut w)"
      "set (tpBoundary page) = set (tpBoundary (wkOut w))" "length (tpBoundary page) = length (tpBoundary (wkOut w))"
      using made page_done_page [of lib ?req scope w page] by (auto simp: traverse_finish_def sortBoundaries_def)
    note sound = page_sound_sorted [OF w same]
    have edges: "distinct (map edge_coordinate (tpEdges page))" "set (map edge_coordinate (tpEdges page)) \<inter> set (poEdges position) = {}"
      using sound(3,4) by (metis distinct_append, metis Int_commute distinct_append set_dedup)
    show ?thesis
    proof (cases "tpExhausted page")
      case True
      then show ?thesis using run sound edges
        by (auto simp: x pages_disjoint_def page_in_contract_def)
    next
      case False
      then have "page_done lib ?req scope w = Inr page" using made by (auto simp: traverse_finish_def)
      from page_done_page(1) [OF this] have enc: "EncodeTraversePosition lib query (scope_view scope) (soIdentity scope)
          (final_position w) = Inr (tpContinuation page)" by simp
      note token = traverse_token_decodes [OF lib enc]
      let ?p = "position_normalize (final_position w)"
      have p: "set (poVisited ?p) = set (wkVisited w)" "set (poEdges ?p) = set (wkEdges w)" "set (poBoundary ?p) = set (wkBoundary w)"
        by (simp_all add: position_normalize_def final_position_def sortBoundaries_def)
      have V: "set (wkVisited w) \<subseteq> set (initial_visited (tqStart query) ?p)" using p(1) by (auto simp: initial_visited_def)
      note ih = Cons.IH [OF token(2)]
      have "pages_disjoint (set ?V) (set (poEdges position)) (set (poBoundary position))
          (page # traverse_pages lib scope query (tpContinuation page) runs)"
      proof (rule pages_disjoint_Cons [OF conjunct1 [OF ih]])
        show "set (poEdges position) \<union> set (map edge_coordinate (tpEdges page)) \<subseteq> set (poEdges ?p)" using sound(3) p(2) by auto
      qed (use sound edges V p in auto)
      then show ?thesis using run False sound token(1) ih by (auto simp: x page_in_contract_def)
    qed
  qed
qed

end
