(* ===== verification/TraverseClosure.thy ===== *)
theory TraverseClosure
  imports TraverseRules
begin

text \<open>
  An exhausted traversal is a breadth-first closure: the page of a run that starts fresh and ends exhausted holds
  exactly the objects within \<open>maxHops\<close> hops, each with its least number of hops, and exactly the relations of the
  objects that were expanded.
\<close>

section \<open>The reference\<close>

text \<open>\<open>rest repo commit query lane\<close> are the hits a lane serves from a continuation on.\<close>

type_synonym 'repo lane_hits = "'repo \<Rightarrow> string \<Rightarrow> RelationQuery \<Rightarrow> string \<Rightarrow> RelationHit list"

definition lane_serves :: "('repo, 'w) traverse_core \<Rightarrow> 'repo lane_hits \<Rightarrow> bool" where
  "lane_serves core rest = (\<forall>repo commit q w page w'. tcRelationsAt core repo commit q w = (Inr page, w') \<longrightarrow>
     rest repo commit (rpQuery q) (rpContinuation q) =
       rgHits page @ (if rgExhausted page then [] else rest repo commit (rpQuery q) (rgContinuation page)))"

definition node_hits :: "('repo, 'w) traverse_core \<Rightarrow> 'repo lane_hits \<Rightarrow> TraverseScope \<Rightarrow> TraverseQuery \<Rightarrow> KnowledgeRef \<Rightarrow> RelationHit list" where
  "node_hits core rest scope q self =
    (case (map_of (soSnapshots scope) (krRepository self), tcRequire core (krRepository self)) of
      (Some commit, Inr repo) \<Rightarrow> rest repo commit
        \<lparr>rqEndpoint = self, rqRelationType = tsRelationType (tqStep q), rqRole = tsRole (tqStep q), rqDirection = tsDirection (tqStep q)\<rparr> []
    | _ \<Rightarrow> [])"

definition hit_refs :: "RelationHit \<Rightarrow> KnowledgeRef list" where
  "hit_refs h = map reObjectRef (rlEndpoints (rhRelation h))"

text \<open>The hits of a relation name the same endpoints wherever they are found.\<close>

definition hits_coherent :: "(KnowledgeRef \<Rightarrow> RelationHit list) \<Rightarrow> bool" where
  "hits_coherent hits = (\<forall>a b. \<forall>h \<in> set (hits a). \<forall>g \<in> set (hits b). hit_edge h = hit_edge g \<longrightarrow> set (hit_refs h) = set (hit_refs g))"

definition neighbours :: "(KnowledgeRef \<Rightarrow> RelationHit list) \<Rightarrow> TraverseScope \<Rightarrow> KnowledgeRef \<Rightarrow> KnowledgeRef list" where
  "neighbours hits scope self = filter (in_traverse_scope scope) (concat (map hit_refs (hits self)))"

fun within_hops :: "(KnowledgeRef \<Rightarrow> RelationHit list) \<Rightarrow> TraverseScope \<Rightarrow> KnowledgeRef \<Rightarrow> nat \<Rightarrow> KnowledgeRef set" where
  "within_hops hits scope start 0 = {start}"
| "within_hops hits scope start (Suc n) =
    within_hops hits scope start n \<union> \<Union> ((\<lambda>r. set (neighbours hits scope r)) ` within_hops hits scope start n)"

lemma within_hops_mono: "m \<le> n \<Longrightarrow> within_hops hits scope start m \<subseteq> within_hops hits scope start n"
  by (induction rule: dec_induct) auto

section \<open>The invariant\<close>

type_synonym found = "(KnowledgeRef \<times> nat) list"

definition frontier_of :: "found \<Rightarrow> TraverseFrontierEntry list" where
  "frontier_of fd = map (\<lambda>(r, d). entry_of r (int d)) fd"

definition nodes_of :: "int \<Rightarrow> found \<Rightarrow> TraverseNode list" where
  "nodes_of minHops fd = map (\<lambda>(r, d). node_of r (int d)) (filter (\<lambda>(r, d). minHops \<le> int d) fd)"

text \<open>\<open>fd\<close> lists the objects found so far with their depths; from position \<open>m\<close> on it is the frontier.\<close>

definition bfs :: "(nat \<Rightarrow> KnowledgeRef set) \<Rightarrow> KnowledgeRef \<Rightarrow> int \<Rightarrow> nat \<Rightarrow> found \<Rightarrow> 'w walk \<Rightarrow> bool" where
  "bfs W start minHops m fd w =
    (wkVisited w = map fst fd \<and> distinct (map fst fd) \<and> fd \<noteq> [] \<and> hd fd = (start, 0) \<and> sorted (map snd fd) \<and> m \<le> length fd \<and>
     wkFrontier w = frontier_of (drop m fd) \<and> tpNodes (wkOut w) = nodes_of minHops (tl fd) \<and>
     (\<forall>x \<in> set fd. fst x \<in> W (snd x)) \<and> \<not> tpExhausted (wkOut w))"

text \<open>The edges taken: their endpoints are found, and they come from found objects.\<close>

definition edges_closed :: "(KnowledgeRef \<Rightarrow> RelationHit list) \<Rightarrow> TraverseScope \<Rightarrow> nat \<Rightarrow> found \<Rightarrow> EdgeCoordinate list \<Rightarrow> bool" where
  "edges_closed hits scope maxHops fd E =
    ((\<forall>a. \<forall>h \<in> set (hits a). hit_edge h \<in> set E \<longrightarrow> (\<forall>r \<in> set (hit_refs h). in_traverse_scope scope r \<longrightarrow> r \<in> fst ` set fd)) \<and>
     (\<forall>c \<in> set E. \<exists>a d. (a, d) \<in> set fd \<and> d < maxHops \<and> c \<in> hit_edge ` set (hits a)))"

definition deep_at_most :: "nat \<Rightarrow> found \<Rightarrow> bool" where
  "deep_at_most d fd = (\<forall>x \<in> set fd. snd x \<le> d)"

lemma bfs_out:
  assumes "bfs W start minHops m fd w" "wkVisited w' = wkVisited w" "wkFrontier w' = wkFrontier w"
    "tpNodes (wkOut w') = tpNodes (wkOut w)" "tpExhausted (wkOut w') = tpExhausted (wkOut w)"
  shows "bfs W start minHops m fd w'"
  using assms by (simp add: bfs_def)

lemma sorted_snoc_bound: "sorted xs \<Longrightarrow> \<forall>x \<in> set xs. x \<le> y \<Longrightarrow> sorted (xs @ [y])"
  by (simp add: sorted_append)

lemma visit_endpoint_bfs:
  assumes visit: "visit_endpoint scope minHops self (int d) ref w = Inr w'"
    and b: "bfs W start minHops m fd w" and deep: "deep_at_most (Suc d) fd" and self: "self \<in> fst ` set fd"
    and near: "in_traverse_scope scope ref \<Longrightarrow> ref \<in> W (Suc d)"
  obtains fd' where "prefix fd fd'" "bfs W start minHops m fd' w'" "deep_at_most (Suc d) fd'"
    "in_traverse_scope scope ref \<longrightarrow> ref \<in> fst ` set fd'"
  using visit
proof (cases rule: visit_endpoint_cases)
  case same
  have "ref \<in> fst ` set fd" if "in_traverse_scope scope ref"
    using same(2) that b self by (auto simp: in_traverse_scope_def bfs_def)
  then show thesis using that [of fd] b deep same(1) by simp
next
  case boundary
  have "\<not> in_traverse_scope scope ref" using boundary(1) by (simp add: in_traverse_scope_def)
  moreover have "bfs W start minHops m fd w'" by (rule bfs_out [OF b]) (simp_all add: boundary(3))
  ultimately show thesis using that [of fd] deep by simp
next
  case visit
  let ?fd = "fd @ [(ref, Suc d)]"
  have "ref \<in> W (Suc d)" using near visit(1) by (simp add: in_traverse_scope_def)
  moreover have "sorted (map snd ?fd)" using b deep by (auto simp: bfs_def deep_at_most_def sorted_append)
  moreover have "nodes_of minHops (tl ?fd) = nodes_of minHops (tl fd) @ (if int d + 1 \<ge> minHops then [node_of ref (int d + 1)] else [])"
    using b by (auto simp: bfs_def nodes_of_def tl_append add.commute split: list.splits)
  moreover have "frontier_of (drop m ?fd) = frontier_of (drop m fd) @ [entry_of ref (int d + 1)]"
    using b by (simp add: bfs_def frontier_of_def add.commute)
  ultimately have "bfs W start minHops m ?fd w'"
    using b visit(2) by (auto simp: bfs_def visit(4))
  then show thesis using that [of ?fd] deep by (auto simp: deep_at_most_def)
qed

lemma visit_endpoints_bfs:
  assumes "visit_endpoints scope minHops self (int d) es w = Inr w'"
    and "bfs W start minHops m fd w" "deep_at_most (Suc d) fd" "self \<in> fst ` set fd"
    and "\<And>e. e \<in> set es \<Longrightarrow> in_traverse_scope scope (reObjectRef e) \<Longrightarrow> reObjectRef e \<in> W (Suc d)"
  shows "\<exists>fd'. prefix fd fd' \<and> bfs W start minHops m fd' w' \<and> deep_at_most (Suc d) fd' \<and>
    (\<forall>e \<in> set es. in_traverse_scope scope (reObjectRef e) \<longrightarrow> reObjectRef e \<in> fst ` set fd')"
  using assms
proof (induction es arbitrary: w fd)
  case Nil
  then show ?case by auto
next
  case (Cons e es)
  obtain w1 where w1: "visit_endpoint scope minHops self (int d) (reObjectRef e) w = Inr w1"
    and w': "visit_endpoints scope minHops self (int d) es w1 = Inr w'"
    using Cons.prems(1) by (auto simp: rbind_Inr_iff)
  have near: "in_traverse_scope scope (reObjectRef e) \<Longrightarrow> reObjectRef e \<in> W (Suc d)" using Cons.prems(5) by simp
  obtain fd1 where fd1: "prefix fd fd1" "bfs W start minHops m fd1 w1" "deep_at_most (Suc d) fd1"
    "in_traverse_scope scope (reObjectRef e) \<longrightarrow> reObjectRef e \<in> fst ` set fd1"
    by (rule visit_endpoint_bfs [OF w1 Cons.prems(2-4) near]) blast+
  have "self \<in> fst ` set fd1" using Cons.prems(4) set_mono_prefix [OF fd1(1)] by blast
  then obtain fd2 where fd2: "prefix fd1 fd2" "bfs W start minHops m fd2 w'" "deep_at_most (Suc d) fd2"
    "\<forall>e \<in> set es. in_traverse_scope scope (reObjectRef e) \<longrightarrow> reObjectRef e \<in> fst ` set fd2"
    using Cons.IH [OF w' fd1(2,3)] Cons.prems(5) by auto
  have "in_traverse_scope scope (reObjectRef e) \<longrightarrow> reObjectRef e \<in> fst ` set fd2"
    using fd1(4) set_mono_prefix [OF fd2(1)] by blast
  then show ?case using fd2 prefix_order.trans [OF fd1(1) fd2(1)] by auto
qed

lemma edges_closed_more: "edges_closed hits scope n fd E \<Longrightarrow> prefix fd fd' \<Longrightarrow> edges_closed hits scope n fd' E"
  unfolding edges_closed_def by (meson image_mono set_mono_prefix subsetD)

lemma edges_closed_take:
  assumes c: "edges_closed hits scope n fd E" and coherent: "hits_coherent hits" and h: "h \<in> set (hits a)"
    and refs: "\<forall>r \<in> set (hit_refs h). in_traverse_scope scope r \<longrightarrow> r \<in> fst ` set fd" and a: "(a, d) \<in> set fd" "d < n"
  shows "edges_closed hits scope n fd (E @ [hit_edge h])"
proof -
  have "\<forall>r \<in> set (hit_refs g). in_traverse_scope scope r \<longrightarrow> r \<in> fst ` set fd"
    if "g \<in> set (hits b)" "hit_edge g = hit_edge h" for b g
    using coherent h refs that unfolding hits_coherent_def by (metis (no_types))
  moreover have "\<exists>a d. (a, d) \<in> set fd \<and> d < n \<and> hit_edge h \<in> hit_edge ` set (hits a)" using a h by blast
  ultimately show ?thesis using c unfolding edges_closed_def by auto
qed

lemma visit_hits_bfs:
  assumes "visit_hits scope request self (int d) hs w = Inr (False, w')"
    and "bfs W start (tqMinHops (trQuery request)) m fd w" "deep_at_most (Suc d) fd" "(self, d) \<in> set fd" "d < n"
    and "edges_closed hits scope n fd (wkEdges w)" and coherent: "hits_coherent hits" and "set hs \<subseteq> set (hits self)"
    and near: "\<And>r. r \<in> set (neighbours hits scope self) \<Longrightarrow> r \<in> W (Suc d)"
  shows "\<exists>fd'. prefix fd fd' \<and> bfs W start (tqMinHops (trQuery request)) m fd' w' \<and> deep_at_most (Suc d) fd' \<and>
    edges_closed hits scope n fd' (wkEdges w') \<and> set (wkEdges w) \<union> hit_edge ` set hs \<subseteq> set (wkEdges w')"
  using assms(1-6,8)
proof (induction hs arbitrary: w fd)
  case Nil
  then show ?case by auto
next
  case (Cons h hs)
  show ?case
  proof (cases "hit_edge h \<in> set (wkEdges w)")
    case True
    then obtain fd' where "prefix fd fd'" "bfs W start (tqMinHops (trQuery request)) m fd' w'" "deep_at_most (Suc d) fd'"
      "edges_closed hits scope n fd' (wkEdges w')" "set (wkEdges w) \<union> hit_edge ` set hs \<subseteq> set (wkEdges w')"
      using Cons.IH [of w fd] Cons.prems by auto
    then show ?thesis using True by auto
  next
    case False
    then obtain w1 where w1: "visit_endpoints scope (tqMinHops (trQuery request)) self (int d)
        (rlEndpoints (rhRelation h)) (take_edge (int d) h w) = Inr w1"
      and rest: "visit_hits scope request self (int d) hs w1 = Inr (False, w')"
      using Cons.prems(1) by (auto simp: rbind_Inr_iff split: if_splits)
    have h: "h \<in> set (hits self)" using Cons.prems(7) by simp
    have b: "bfs W start (tqMinHops (trQuery request)) m fd (take_edge (int d) h w)"
      by (rule bfs_out [OF Cons.prems(2)]) (simp_all add: take_edge_def)
    have "self \<in> fst ` set fd" using Cons.prems(4) by force
    moreover have "reObjectRef e \<in> W (Suc d)" if "e \<in> set (rlEndpoints (rhRelation h))" "in_traverse_scope scope (reObjectRef e)" for e
      using near [of "reObjectRef e"] h that by (auto simp: neighbours_def hit_refs_def)
    ultimately obtain fd1 where fd1: "prefix fd fd1" "bfs W start (tqMinHops (trQuery request)) m fd1 w1" "deep_at_most (Suc d) fd1"
      "\<forall>e \<in> set (rlEndpoints (rhRelation h)). in_traverse_scope scope (reObjectRef e) \<longrightarrow> reObjectRef e \<in> fst ` set fd1"
      using visit_endpoints_bfs [OF w1 b Cons.prems(3)] by blast
    have E: "wkEdges w1 = wkEdges w @ [hit_edge h]" using visit_endpoints_edges [OF w1] by (simp add: take_edge_def)
    have s: "(self, d) \<in> set fd1" using Cons.prems(4) set_mono_prefix [OF fd1(1)] by blast
    have refs: "\<forall>r \<in> set (hit_refs h). in_traverse_scope scope r \<longrightarrow> r \<in> fst ` set fd1" using fd1(4) by (auto simp: hit_refs_def)
    have ec: "edges_closed hits scope n fd1 (wkEdges w1)"
      unfolding E by (rule edges_closed_take [OF edges_closed_more [OF Cons.prems(6) fd1(1)] coherent h refs s Cons.prems(5)])
    have "set hs \<subseteq> set (hits self)" using Cons.prems(7) by simp
    from Cons.IH [OF rest fd1(2,3) s Cons.prems(5) ec this] obtain fd2 where
      fd2: "prefix fd1 fd2" "bfs W start (tqMinHops (trQuery request)) m fd2 w'" "deep_at_most (Suc d) fd2"
      "edges_closed hits scope n fd2 (wkEdges w')" "set (wkEdges w1) \<union> hit_edge ` set hs \<subseteq> set (wkEdges w')" by blast
    then show ?thesis using prefix_order.trans [OF fd1(1) fd2(1)] E by auto
  qed
qed

section \<open>Lanes\<close>

definition frame :: "'w walk \<Rightarrow> (string, string) gomap \<times> bool" where
  "frame w = (wkPositions w, tpExhausted (wkOut w))"

lemma visit_endpoints_frame: "visit_endpoints scope minHops self depth es w = Inr w' \<Longrightarrow> frame w' = frame w"
proof (induction es arbitrary: w)
  case (Cons e es)
  have "frame w1 = frame w" if "visit_endpoint scope minHops self depth (reObjectRef e) w = Inr w1" for w1
    using that by (rule visit_endpoint_cases) (simp_all add: frame_def)
  then show ?case using Cons by (auto simp: rbind_Inr_iff)
qed simp

lemma visit_hits_frame: "visit_hits scope request self depth hs w = Inr (b, w') \<Longrightarrow> frame w' = frame w"
proof (induction hs arbitrary: w)
  case (Cons h hs)
  have t: "frame (take_edge depth h w) = frame w" by (simp add: frame_def take_edge_def)
  show ?case
  proof (cases "hit_edge h \<in> set (wkEdges w)")
    case True
    then show ?thesis using Cons by simp
  next
    case False
    then obtain w1 where w1: "visit_endpoints scope (tqMinHops (trQuery request)) self depth
        (rlEndpoints (rhRelation h)) (take_edge depth h w) = Inr w1"
      and rest: "w' = w1 \<or> visit_hits scope request self depth hs w1 = Inr (b, w')"
      using Cons.prems by (auto simp: rbind_Inr_iff split: if_splits)
    show ?thesis using rest Cons.IH visit_endpoints_frame [OF w1] t by metis
  qed
qed simp

lemma page_done_exhausted: "page_done lib request scope w = Inr page \<Longrightarrow> tpExhausted page = tpExhausted (wkOut w)"
  by (auto simp: page_done_def Let_def rbind_Inr_iff)

lemma lane_step_outcomes:
  obtains (error) e where "lane_step lib core request scope repo commit entry (lane, w) = Inr (Inr (Inl e))"
  | (page) page world b w1 where
    "tcRelationsAt core repo commit (relation_request request (entry_ref entry) lane) (wkWorld w) = (Inr page, world)"
    "visit_hits scope request (entry_ref entry) (tfDepth entry) (rgHits page) (w\<lparr>wkWorld := world\<rparr>) = Inr (b, w1)"
proof (cases "tcRelationsAt core repo commit (relation_request request (entry_ref entry) lane) (wkWorld w)")
  case (Pair answer world)
  show thesis
  proof (cases answer)
    case (Inl e)
    then show thesis using error Pair by (simp add: lane_step_def)
  next
    case (Inr p)
    then show thesis using page error Pair
      by (cases "visit_hits scope request (entry_ref entry) (tfDepth entry) (rgHits p) (w\<lparr>wkWorld := world\<rparr>)")
        (auto simp: lane_step_def)
  qed
qed

lemma lane_step_next:
  assumes "lane_step lib core request scope repo commit entry (lane, w) = Inl (lane', w')"
  obtains page world w1 where
    "tcRelationsAt core repo commit (relation_request request (entry_ref entry) lane) (wkWorld w) = (Inr page, world)"
    "visit_hits scope request (entry_ref entry) (tfDepth entry) (rgHits page) (w\<lparr>wkWorld := world\<rparr>) = Inr (False, w1)"
    "\<not> rgExhausted page" "lane' = rgContinuation page"
    "w' = (foldl append_claim w1 (rgClaims page))\<lparr>wkPositions := AList.update (entry_key entry) lane' (wkPositions w1)\<rparr>"
proof (cases rule: lane_step_outcomes [of lib core request scope repo commit entry lane w])
  case (page page world b w1)
  then show thesis using assms that [of page world w1] by (cases b) (auto simp: lane_step_def Let_def split: if_splits)
qed (use assms in simp)

lemma lane_step_break:
  assumes "lane_step lib core request scope repo commit entry (lane, w) = Inr (Inl w')"
  obtains page world w1 where
    "tcRelationsAt core repo commit (relation_request request (entry_ref entry) lane) (wkWorld w) = (Inr page, world)"
    "visit_hits scope request (entry_ref entry) (tfDepth entry) (rgHits page) (w\<lparr>wkWorld := world\<rparr>) = Inr (False, w1)"
    "rgExhausted page"
    "w' = (foldl append_claim w1 (rgClaims page))\<lparr>wkPositions := AList.delete (entry_key entry) (wkPositions w1)\<rparr>"
proof (cases rule: lane_step_outcomes [of lib core request scope repo commit entry lane w])
  case (page page world b w1)
  then show thesis using assms that [of page world w1] by (cases b) (auto simp: lane_step_def Let_def split: if_splits)
qed (use assms in simp)

lemma lane_step_stops:
  assumes "lane_step lib core request scope repo commit entry (lane, w) = Inr (Inr (Inr out))" and "\<not> tpExhausted (wkOut w)"
  shows "\<not> tpExhausted out"
proof (cases rule: lane_step_outcomes [of lib core request scope repo commit entry lane w])
  case (page page world b w1)
  have "\<not> tpExhausted (wkOut w1)" using visit_hits_frame [OF page(2)] assms(2) by (simp add: frame_def)
  moreover have "tpExhausted out = tpExhausted (wkOut w1)"
    using assms(1) page by (cases b) (auto simp: lane_step_def Let_def dest!: page_done_exhausted split: if_splits)
  ultimately show ?thesis by simp
qed (use assms in simp)

text \<open>A node at depth \<open>d\<close> is being expanded.\<close>

definition expanding :: "(KnowledgeRef \<Rightarrow> RelationHit list) \<Rightarrow> TraverseScope \<Rightarrow> TraverseRequest \<Rightarrow> nat \<Rightarrow> nat \<Rightarrow> nat \<Rightarrow> found \<Rightarrow> 'w walk \<Rightarrow> bool" where
  "expanding hits scope request n m d fd w =
    (bfs (within_hops hits scope (tqStart (trQuery request))) (tqStart (trQuery request)) (tqMinHops (trQuery request)) m fd w \<and>
     deep_at_most (Suc d) fd \<and> edges_closed hits scope n fd (wkEdges w))"

lemma expanding_out:
  assumes "expanding hits scope request n m d fd w" "wkVisited w' = wkVisited w" "wkFrontier w' = wkFrontier w"
    "tpNodes (wkOut w') = tpNodes (wkOut w)" "tpExhausted (wkOut w') = tpExhausted (wkOut w)" "wkEdges w' = wkEdges w"
  shows "expanding hits scope request n m d fd w'"
  using assms bfs_out unfolding expanding_def by metis

lemma near_hops:
  "(self, d) \<in> set fd \<Longrightarrow> bfs (within_hops hits scope start) start minHops m fd w \<Longrightarrow> r \<in> set (neighbours hits scope self) \<Longrightarrow>
   r \<in> within_hops hits scope start (Suc d)"
  by (force simp: bfs_def)

lemma visit_page_expanding:
  assumes v: "visit_hits scope request self (int d) hs (w\<lparr>wkWorld := world\<rparr>) = Inr (False, w1)"
    and e: "expanding hits scope request n m d fd w" and self: "(self, d) \<in> set fd" "d < n"
    and coherent: "hits_coherent hits" and hs: "set hs \<subseteq> set (hits self)"
  shows "\<exists>fd'. prefix fd fd' \<and> expanding hits scope request n m d fd' ((foldl append_claim w1 cs)\<lparr>wkPositions := ps\<rparr>) \<and>
    set (wkEdges w) \<union> hit_edge ` set hs \<subseteq> set (wkEdges w1)"
proof -
  have e': "expanding hits scope request n m d fd (w\<lparr>wkWorld := world\<rparr>)" by (rule expanding_out [OF e]) simp_all
  let ?W = "within_hops hits scope (tqStart (trQuery request))"
  have near: "r \<in> ?W (Suc d)" if "r \<in> set (neighbours hits scope self)" for r
    using near_hops [OF self(1) _ that] e unfolding expanding_def by blast
  obtain fd' where fd': "prefix fd fd'" "expanding hits scope request n m d fd' w1"
    "set (wkEdges w) \<union> hit_edge ` set hs \<subseteq> set (wkEdges w1)"
    using visit_hits_bfs [where W = ?W and fd = fd and m = m and start = "tqStart (trQuery request)", OF v _ _ self _ coherent hs near] e'
    unfolding expanding_def by auto
  have "expanding hits scope request n m d fd' ((foldl append_claim w1 cs)\<lparr>wkPositions := ps\<rparr>)"
    by (rule expanding_out [OF fd'(2)]) simp_all
  then show ?thesis using fd'(1,3) by blast
qed

definition lane_invariant :: "(KnowledgeRef \<Rightarrow> RelationHit list) \<Rightarrow> (string \<Rightarrow> RelationHit list) \<Rightarrow> TraverseScope \<Rightarrow> TraverseRequest \<Rightarrow>
    TraverseFrontierEntry \<Rightarrow> nat \<Rightarrow> nat \<Rightarrow> nat \<Rightarrow> found \<Rightarrow> EdgeCoordinate list \<Rightarrow> string \<times> 'w walk \<Rightarrow> bool" where
  "lane_invariant hits rest scope request entry n m d fd E0 s = (case s of (lane, v) \<Rightarrow>
     set E0 \<subseteq> set (wkEdges v) \<and>
     (\<exists>fd'. prefix fd fd' \<and> expanding hits scope request n m d fd' v) \<and>
     set (rest lane) \<subseteq> set (hits (entry_ref entry)) \<and>
     (\<forall>h \<in> set (hits (entry_ref entry)). h \<in> set (rest lane) \<or> hit_edge h \<in> set (wkEdges v)) \<and>
     (\<forall>k. k \<noteq> entry_key entry \<longrightarrow> map_of (wkPositions v) k = None))"

definition lane_result :: "(KnowledgeRef \<Rightarrow> RelationHit list) \<Rightarrow> TraverseScope \<Rightarrow> TraverseRequest \<Rightarrow>
    TraverseFrontierEntry \<Rightarrow> nat \<Rightarrow> nat \<Rightarrow> nat \<Rightarrow> found \<Rightarrow> EdgeCoordinate list \<Rightarrow> 'w walk + TraversePage go \<Rightarrow> bool" where
  "lane_result hits scope request entry n m d fd E0 r = (case r of
      Inl v \<Rightarrow> set E0 \<subseteq> set (wkEdges v) \<and> (\<exists>fd'. prefix fd fd' \<and> expanding hits scope request n m d fd' v) \<and>
        hit_edge ` set (hits (entry_ref entry)) \<subseteq> set (wkEdges v) \<and> (\<forall>k. map_of (wkPositions v) k = None)
    | Inr out \<Rightarrow> \<forall>page. out = Inr page \<longrightarrow> \<not> tpExhausted page)"

lemma lane_step_closure:
  assumes serves: "lane_serves core rest" and coherent: "hits_coherent hits"
    and entry: "(entry_ref entry, d) \<in> set fd" "tfDepth entry = int d" "d < n"
    and inv: "lane_invariant hits (rest repo commit (rpQuery (relation_request request (entry_ref entry) []))) scope request entry n m d fd E0 (lane, w)"
  shows "case lane_step lib core request scope repo commit entry (lane, w) of
      Inl s \<Rightarrow> lane_invariant hits (rest repo commit (rpQuery (relation_request request (entry_ref entry) []))) scope request entry n m d fd E0 s
    | Inr r \<Rightarrow> lane_result hits scope request entry n m d fd E0 r"
proof -
  let ?rest = "rest repo commit (rpQuery (relation_request request (entry_ref entry) []))"
  have E0: "set E0 \<subseteq> set (wkEdges w)" using inv by (simp add: lane_invariant_def)
  obtain fd1 where fd1: "prefix fd fd1" "expanding hits scope request n m d fd1 w" and sub: "set (?rest lane) \<subseteq> set (hits (entry_ref entry))"
    and all: "\<And>h. h \<in> set (hits (entry_ref entry)) \<Longrightarrow> h \<in> set (?rest lane) \<or> hit_edge h \<in> set (wkEdges w)"
    and pos: "\<And>k. k \<noteq> entry_key entry \<Longrightarrow> map_of (wkPositions w) k = None"
    using inv by (auto simp: lane_invariant_def)
  have self: "(entry_ref entry, d) \<in> set fd1" using entry(1) set_mono_prefix [OF fd1(1)] by blast
  have served: "?rest lane = rgHits page @ (if rgExhausted page then [] else ?rest (rgContinuation page))"
    if "tcRelationsAt core repo commit (relation_request request (entry_ref entry) lane) w0 = (Inr page, world)" for page w0 world
  proof -
    have "rpContinuation (relation_request request (entry_ref entry) lane) = lane"
      "rpQuery (relation_request request (entry_ref entry) lane) = rpQuery (relation_request request (entry_ref entry) [])"
      by (simp_all add: relation_request_def Let_def)
    then show ?thesis using serves that unfolding lane_serves_def by metis
  qed
  have visited: "(\<exists>fd'. prefix fd fd' \<and> expanding hits scope request n m d fd' ((foldl append_claim w1 cs)\<lparr>wkPositions := ps\<rparr>)) \<and>
      set (wkEdges w) \<union> hit_edge ` set (rgHits page) \<subseteq> set (wkEdges w1) \<and> wkPositions w1 = wkPositions w"
    if a: "tcRelationsAt core repo commit (relation_request request (entry_ref entry) lane) (wkWorld w) = (Inr page, world)"
      and v: "visit_hits scope request (entry_ref entry) (tfDepth entry) (rgHits page) (w\<lparr>wkWorld := world\<rparr>) = Inr (False, w1)"
    for page world w1 cs ps
  proof -
    have "set (rgHits page) \<subseteq> set (hits (entry_ref entry))" using sub served [OF a] by auto
    from visit_page_expanding [OF v [unfolded entry(2)] fd1(2) self entry(3) coherent this, where cs = cs and ps = ps]
    obtain fd2 where "prefix fd1 fd2" "expanding hits scope request n m d fd2 ((foldl append_claim w1 cs)\<lparr>wkPositions := ps\<rparr>)"
      "set (wkEdges w) \<union> hit_edge ` set (rgHits page) \<subseteq> set (wkEdges w1)" by blast
    then show ?thesis using prefix_order.trans [OF fd1(1)] visit_hits_frame [OF v] by (auto simp: frame_def)
  qed
  show ?thesis
  proof (cases "lane_step lib core request scope repo commit entry (lane, w)")
    case (Inl s)
    obtain lane' w' where s: "s = (lane', w')" by fastforce
    from lane_step_next [OF Inl [unfolded s]] obtain page world w1 where
      a: "tcRelationsAt core repo commit (relation_request request (entry_ref entry) lane) (wkWorld w) = (Inr page, world)"
      and v: "visit_hits scope request (entry_ref entry) (tfDepth entry) (rgHits page) (w\<lparr>wkWorld := world\<rparr>) = Inr (False, w1)"
      and n: "\<not> rgExhausted page" "lane' = rgContinuation page"
      "w' = (foldl append_claim w1 (rgClaims page))\<lparr>wkPositions := AList.update (entry_key entry) lane' (wkPositions w1)\<rparr>" by blast
    have "?rest lane = rgHits page @ ?rest lane'" using served [OF a] n by simp
    moreover have "h \<in> set (?rest lane') \<or> hit_edge h \<in> set (wkEdges w1)" if "h \<in> set (hits (entry_ref entry))" for h
      using all [OF that] calculation visited [OF a v] by (auto simp: subset_iff)
    ultimately show ?thesis using Inl visited [OF a v] sub pos subset_trans [OF E0, of "set (wkEdges w1)"]
      by (auto simp: lane_invariant_def s n(3) map_simps)
  next
    case (Inr r)
    show ?thesis
    proof (cases r)
      case (Inl w')
      from lane_step_break [OF Inr [unfolded Inl]] obtain page world w1 where
        a: "tcRelationsAt core repo commit (relation_request request (entry_ref entry) lane) (wkWorld w) = (Inr page, world)"
        and v: "visit_hits scope request (entry_ref entry) (tfDepth entry) (rgHits page) (w\<lparr>wkWorld := world\<rparr>) = Inr (False, w1)"
        and n: "rgExhausted page"
        "w' = (foldl append_claim w1 (rgClaims page))\<lparr>wkPositions := AList.delete (entry_key entry) (wkPositions w1)\<rparr>" by blast
      have "?rest lane = rgHits page" using served [OF a] n by simp
      then have "hit_edge h \<in> set (wkEdges w1)" if "h \<in> set (hits (entry_ref entry))" for h
        using all [OF that] visited [OF a v] by (auto simp: subset_iff)
      then show ?thesis using Inr Inl visited [OF a v] pos subset_trans [OF E0, of "set (wkEdges w1)"]
        by (auto simp: lane_result_def n(2) map_simps)
    next
      case out: (Inr out)
      have "\<not> tpExhausted (wkOut w)" using fd1(2) by (simp add: expanding_def bfs_def)
      then show ?thesis using Inr out lane_step_stops by (fastforce simp: lane_result_def)
    qed
  qed
qed

lemma lane_loop_closure:
  assumes serves: "lane_serves core rest" and coherent: "hits_coherent hits"
    and entry: "(entry_ref entry, d) \<in> set fd" "tfDepth entry = int d" "d < n"
    and hits: "hits (entry_ref entry) = rest repo commit (rpQuery (relation_request request (entry_ref entry) [])) []"
    and e: "expanding hits scope request n m d fd w" and pos: "\<And>k. map_of (wkPositions w) k = None"
    and run: "lane_loop lib core request scope repo commit entry w = Some r"
  shows "lane_result hits scope request entry n m d fd (wkEdges w) r"
proof -
  let ?rest = "rest repo commit (rpQuery (relation_request request (entry_ref entry) []))"
  show ?thesis
  proof (rule go_loop_invariant [OF run [unfolded lane_loop_def],
      where I = "lane_invariant hits ?rest scope request entry n m d fd (wkEdges w)"])
    show "lane_invariant hits ?rest scope request entry n m d fd (wkEdges w)
        (case map_of (wkPositions w) (entry_key entry) of None \<Rightarrow> [] | Some c \<Rightarrow> c, w)"
      using e pos hits by (auto simp: lane_invariant_def)
  next
    fix s s' assume "lane_invariant hits ?rest scope request entry n m d fd (wkEdges w) s"
      "Some (lane_step lib core request scope repo commit entry s) = Some (Inl s')"
    then show "lane_invariant hits ?rest scope request entry n m d fd (wkEdges w) s'"
      using lane_step_closure [OF serves coherent entry, of repo commit request scope m "wkEdges w" "fst s" "snd s" lib] by simp
  next
    fix s r assume "lane_invariant hits ?rest scope request entry n m d fd (wkEdges w) s"
      "Some (lane_step lib core request scope repo commit entry s) = Some (Inr r)"
    then show "lane_result hits scope request entry n m d fd (wkEdges w) r"
      using lane_step_closure [OF serves coherent entry, of repo commit request scope m "wkEdges w" "fst s" "snd s" lib] by simp
  qed
qed

section \<open>The frontier\<close>

definition expanded :: "(KnowledgeRef \<Rightarrow> RelationHit list) \<Rightarrow> TraverseScope \<Rightarrow> nat \<Rightarrow> found \<Rightarrow> EdgeCoordinate list \<Rightarrow> KnowledgeRef \<times> nat \<Rightarrow> bool" where
  "expanded hits scope n fd E x = (snd x < n \<and> hit_edge ` set (hits (fst x)) \<subseteq> set E \<and>
     (\<forall>r \<in> set (neighbours hits scope (fst x)). \<exists>y \<in> set fd. fst y = r \<and> snd y \<le> Suc (snd x)))"

definition closing :: "(KnowledgeRef \<Rightarrow> RelationHit list) \<Rightarrow> TraverseScope \<Rightarrow> TraverseRequest \<Rightarrow> nat \<Rightarrow> nat \<Rightarrow> found \<Rightarrow> 'w walk \<Rightarrow> bool" where
  "closing hits scope request n k fd w =
    (bfs (within_hops hits scope (tqStart (trQuery request))) (tqStart (trQuery request)) (tqMinHops (trQuery request)) k fd w \<and>
     edges_closed hits scope n fd (wkEdges w) \<and> deep_at_most n fd \<and> (k < length fd \<longrightarrow> deep_at_most (Suc (snd (fd ! k))) fd) \<and>
     (\<forall>i < k. expanded hits scope n fd (wkEdges w) (fd ! i)) \<and> (\<forall>key. map_of (wkPositions w) key = None))"

lemma expanded_more:
  "expanded hits scope n fd E x \<Longrightarrow> prefix fd fd' \<Longrightarrow> set E \<subseteq> set E' \<Longrightarrow> expanded hits scope n fd' E' x"
  unfolding expanded_def by (meson set_mono_prefix subset_trans subsetD)

lemma nth_prefix: "prefix xs ys \<Longrightarrow> i < length xs \<Longrightarrow> ys ! i = xs ! i"
  by (auto simp: prefix_def nth_append)

lemma expanding_closing:
  assumes e: "expanding hits scope request n (Suc k) d fd' w'" and c: "closing hits scope request n k fd w"
    and p: "prefix fd fd'" "set (wkEdges w) \<subseteq> set (wkEdges w')" and k: "k < length fd" "fd ! k = (r, d)" "d < n"
    and hits: "hit_edge ` set (hits r) \<subseteq> set (wkEdges w')" and pos: "\<forall>key. map_of (wkPositions w') key = None"
  shows "closing hits scope request n (Suc k) fd' w'"
proof -
  have k': "fd' ! k = (r, d)" "k < length fd'" using nth_prefix [OF p(1) k(1)] k prefix_length_le [OF p(1)] by auto
  have deep: "deep_at_most (Suc d) fd'" and ec: "edges_closed hits scope n fd' (wkEdges w')"
    and s: "sorted (map snd fd')" using e by (auto simp: expanding_def bfs_def)
  have "\<exists>y \<in> set fd'. fst y = s \<and> snd y \<le> Suc d" if s: "s \<in> set (neighbours hits scope r)" for s
  proof -
    obtain h where h: "h \<in> set (hits r)" "s \<in> set (hit_refs h)" "in_traverse_scope scope s" using s by (auto simp: neighbours_def)
    then have "hit_edge h \<in> set (wkEdges w')" using hits by blast
    then have "s \<in> fst ` set fd'" using ec h unfolding edges_closed_def by blast
    then show ?thesis using deep unfolding deep_at_most_def by blast
  qed
  then have "expanded hits scope n fd' (wkEdges w') (fd' ! k)" using hits k(3) by (simp add: expanded_def k')
  moreover have "expanded hits scope n fd' (wkEdges w') (fd' ! i)" if "i < k" for i
    proof -
    have "expanded hits scope n fd (wkEdges w) (fd ! i)" using c that by (simp add: closing_def)
    from expanded_more [OF this p] show ?thesis using nth_prefix [OF p(1), of i] that k(1) by simp
  qed
  ultimately have "\<forall>i < Suc k. expanded hits scope n fd' (wkEdges w') (fd' ! i)" by (auto simp: less_Suc_eq)
  moreover have "deep_at_most (Suc (snd (fd' ! Suc k))) fd'" if l: "Suc k < length fd'"
  proof -
    have "snd (fd' ! k) \<le> snd (fd' ! Suc k)" using sorted_nth_mono [OF s, of k "Suc k"] l by simp
    then show ?thesis using deep k' by (auto simp: deep_at_most_def)
  qed
  moreover have "deep_at_most n fd'" using deep k(3) by (auto simp: deep_at_most_def)
  ultimately show ?thesis using e pos by (simp add: closing_def expanding_def)
qed

lemma frontier_of_drop:
  assumes "frontier_of (drop k fd) = entry # es"
  obtains r d where "k < length fd" "fd ! k = (r, d)" "entry = entry_of r (int d)" "es = frontier_of (drop (Suc k) fd)"
proof -
  have k: "k < length fd" using assms by (cases "k < length fd") (simp_all add: frontier_of_def)
  obtain r d where x: "fd ! k = (r, d)" by fastforce
  show thesis using that [of r d] assms k x by (simp add: frontier_of_def Cons_nth_drop_Suc [symmetric])
qed

lemma entry_ref_of [simp]: "entry_ref (entry_of r d) = r" "tfDepth (entry_of r d) = d" "tfRepository (entry_of r d) = krRepository r"
  by (simp_all add: entry_ref_def entry_of_def)

lemma bfs_pop:
  "bfs W start minHops k fd w \<Longrightarrow> k < length fd \<Longrightarrow> bfs W start minHops (Suc k) fd (w\<lparr>wkFrontier := frontier_of (drop (Suc k) fd)\<rparr>)"
  by (simp add: bfs_def)

lemma expand_entry:
  assumes serves: "lane_serves core rest"
    and coherent: "hits_coherent (node_hits core rest scope (trQuery request))"
    and c: "closing (node_hits core rest scope (trQuery request)) scope request n k fd w"
    and k: "k < length fd" "fd ! k = (r, d)" and d: "d < n"
    and at: "map_of (soSnapshots scope) (krRepository r) = Some commit" and repo: "tcRequire core (krRepository r) = Inr repo"
    and run: "lane_loop lib core request scope repo commit (entry_of r (int d)) (w\<lparr>wkFrontier := frontier_of (drop (Suc k) fd)\<rparr>) = Some res"
  shows "lane_result (node_hits core rest scope (trQuery request)) scope request (entry_of r (int d)) n (Suc k) d fd (wkEdges w) res"
proof -
  let ?hits = "node_hits core rest scope (trQuery request)" and ?w = "w\<lparr>wkFrontier := frontier_of (drop (Suc k) fd)\<rparr>"
  have b: "bfs (within_hops ?hits scope (tqStart (trQuery request))) (tqStart (trQuery request)) (tqMinHops (trQuery request)) k fd w"
    using c by (simp add: closing_def)
  have e: "expanding ?hits scope request n (Suc k) d fd ?w"
    using bfs_pop [OF b k(1)] c k by (simp add: expanding_def closing_def)
  have x: "(entry_ref (entry_of r (int d)), d) \<in> set fd" using k nth_mem by force
  have h: "?hits (entry_ref (entry_of r (int d))) =
      rest repo commit (rpQuery (relation_request request (entry_ref (entry_of r (int d))) [])) []"
    using at repo by (simp add: node_hits_def relation_request_def Let_def)
  have p: "map_of (wkPositions ?w) key = None" for key using c by (simp add: closing_def)
  show ?thesis using lane_loop_closure [OF serves coherent x _ d h e p run] by simp
qed

lemma frontier_step_next:
  assumes serves: "lane_serves core rest"
    and coherent: "hits_coherent (node_hits core rest scope (trQuery request))" and n: "tqMaxHops (trQuery request) = int n"
    and c: "closing (node_hits core rest scope (trQuery request)) scope request n k fd w"
    and step: "frontier_step lib core request scope w = Some (Inl w')"
  shows "\<exists>fd'. closing (node_hits core rest scope (trQuery request)) scope request n (Suc k) fd' w'"
proof -
  let ?hits = "node_hits core rest scope (trQuery request)"
  obtain entry es repo commit where f: "wkFrontier w = entry # es" and depth: "tfDepth entry < tqMaxHops (trQuery request)"
    and at: "map_of (soSnapshots scope) (tfRepository entry) = Some commit"
    and l: "lane_loop lib core request scope repo commit entry (w\<lparr>wkFrontier := es\<rparr>) = Some (Inl w')"
    and repo: "tcRequire core (tfRepository entry) = Inr repo"
    using step by (auto simp: frontier_step_def split: list.splits if_splits option.splits sum.splits)
  have b: "bfs (within_hops ?hits scope (tqStart (trQuery request))) (tqStart (trQuery request)) (tqMinHops (trQuery request)) k fd w"
    using c by (simp add: closing_def)
  then have "frontier_of (drop k fd) = entry # es" using f by (simp add: bfs_def)
  then obtain r d where k: "k < length fd" "fd ! k = (r, d)" and entry: "entry = entry_of r (int d)"
    and es: "es = frontier_of (drop (Suc k) fd)" by (rule frontier_of_drop)
  have d: "d < n" using depth n entry by simp
  have l': "lane_loop lib core request scope repo commit (entry_of r (int d)) (w\<lparr>wkFrontier := frontier_of (drop (Suc k) fd)\<rparr>) = Some (Inl w')"
    using l by (simp add: entry es)
  from expand_entry [OF serves coherent c k d _ _ l'] have "lane_result ?hits scope request (entry_of r (int d)) n (Suc k) d fd (wkEdges w) (Inl w')"
    using at repo entry by simp
  then obtain fd' where "prefix fd fd'" "expanding ?hits scope request n (Suc k) d fd' w'" "set (wkEdges w) \<subseteq> set (wkEdges w')"
    "hit_edge ` set (?hits r) \<subseteq> set (wkEdges w')" "\<forall>key. map_of (wkPositions w') key = None"
    by (auto simp: lane_result_def)
  then show ?thesis using expanding_closing [OF _ c _ _ k d] by blast
qed

lemma frontier_step_stops:
  assumes serves: "lane_serves core rest"
    and coherent: "hits_coherent (node_hits core rest scope (trQuery request))" and n: "tqMaxHops (trQuery request) = int n"
    and c: "closing (node_hits core rest scope (trQuery request)) scope request n k fd w"
    and step: "frontier_step lib core request scope w = Some (Inr (Inr page))" and ex: "tpExhausted page"
  shows "page = traverse_finish w \<and> (k = length fd \<or> n \<le> snd (fd ! k))"
proof -
  let ?hits = "node_hits core rest scope (trQuery request)"
  have not_done: "page_done lib request scope w' \<noteq> Inr page" if "\<not> tpExhausted (wkOut w')" for w' :: "'b walk"
    using page_done_exhausted [of lib request scope w' page] that ex by auto
  have b: "bfs (within_hops ?hits scope (tqStart (trQuery request))) (tqStart (trQuery request)) (tqMinHops (trQuery request)) k fd w"
    using c by (simp add: closing_def)
  then have open_page: "\<not> tpExhausted (wkOut w)" and fr: "wkFrontier w = frontier_of (drop k fd)" and kl: "k \<le> length fd"
    by (simp_all add: bfs_def)
  show ?thesis
  proof (cases "wkFrontier w")
    case Nil
    then have "k = length fd" using fr kl by (simp add: frontier_of_def)
    then show ?thesis using step Nil by (simp add: frontier_step_def)
  next
    case (Cons entry es)
    then obtain r d where k: "k < length fd" "fd ! k = (r, d)" and entry: "entry = entry_of r (int d)"
      and es: "es = frontier_of (drop (Suc k) fd)" using fr frontier_of_drop by metis
    show ?thesis
    proof (cases "int d \<ge> tqMaxHops (trQuery request)")
      case True
      then show ?thesis using step Cons n k entry open_page not_done by (auto simp: frontier_step_def split: if_splits)
    next
      case False
      obtain repo commit where at: "map_of (soSnapshots scope) (tfRepository entry) = Some commit"
        and repo: "tcRequire core (tfRepository entry) = Inr repo"
        and l: "lane_loop lib core request scope repo commit entry (w\<lparr>wkFrontier := es\<rparr>) = Some (Inr (Inr page))"
        using step Cons False entry not_done open_page
        by (auto simp: frontier_step_def split: if_splits option.splits sum.splits)
      have d: "d < n" using False n by simp
      have l': "lane_loop lib core request scope repo commit (entry_of r (int d)) (w\<lparr>wkFrontier := frontier_of (drop (Suc k) fd)\<rparr>) =
          Some (Inr (Inr page))" using l by (simp add: entry es)
      from expand_entry [OF serves coherent c k d _ _ l']
      have "lane_result ?hits scope request (entry_of r (int d)) n (Suc k) d fd (wkEdges w)
          (Inr (Inr page) :: 'b walk + TraversePage go)" using at repo entry by simp
      then show ?thesis using ex by (simp add: lane_result_def)
    qed
  qed
qed

section \<open>The closure\<close>

lemma closing_complete:
  assumes c: "closing hits scope request n k fd w" and stop: "k = length fd \<or> n \<le> snd (fd ! k)"
    and r: "r \<in> within_hops hits scope (tqStart (trQuery request)) j" and j: "j \<le> n"
  shows "\<exists>x \<in> set fd. fst x = r \<and> snd x \<le> j"
  using r j
proof (induction j arbitrary: r)
  case 0
  have "(tqStart (trQuery request), 0) \<in> set fd" using c unfolding closing_def bfs_def by (metis hd_in_set)
  then show ?case using 0 by force
next
  case (Suc j)
  show ?case
  proof (cases "r \<in> within_hops hits scope (tqStart (trQuery request)) j")
    case True
    then show ?thesis using Suc.IH [OF True] Suc.prems(2) by fastforce
  next
    case False
    then obtain p where p: "p \<in> within_hops hits scope (tqStart (trQuery request)) j" and r: "r \<in> set (neighbours hits scope p)"
      using Suc.prems(1) by auto
    obtain x where x: "x \<in> set fd" "fst x = p" "snd x \<le> j" using Suc.IH [OF p] Suc.prems(2) by auto
    then obtain i where i: "i < length fd" "fd ! i = x" by (auto simp: in_set_conv_nth)
    have "i < k"
    proof (rule ccontr)
      assume "\<not> i < k"
      then have "n \<le> snd (fd ! k)" and "k \<le> i" using stop i by auto
      moreover have "snd (fd ! k) \<le> snd (fd ! i)"
        using c i \<open>k \<le> i\<close> sorted_nth_mono [of "map snd fd" k i] by (simp add: closing_def bfs_def)
      ultimately show False using x(3) Suc.prems(2) i(2) by simp
    qed
    then have "expanded hits scope n fd (wkEdges w) x" using c i(2) by (auto simp: closing_def)
    then show ?thesis using r x by (force simp: expanded_def)
  qed
qed

lemma closing_processed:
  assumes c: "closing hits scope request n k fd w" and stop: "k = length fd \<or> n \<le> snd (fd ! k)"
    and x: "x \<in> set fd" "snd x < n"
  shows "expanded hits scope n fd (wkEdges w) x"
proof -
  obtain i where i: "i < length fd" "fd ! i = x" using x by (auto simp: in_set_conv_nth)
  have "snd (fd ! k) \<le> snd (fd ! i)" if "k \<le> i"
    using c i that sorted_nth_mono [of "map snd fd" k i] by (simp add: closing_def bfs_def)
  then have "i < k" using stop i x(2) by (metis not_le order_trans leD)
  then show ?thesis using c i(2) by (auto simp: closing_def)
qed

lemma closing_depths:
  assumes c: "closing hits scope request n k fd w" and stop: "k = length fd \<or> n \<le> snd (fd ! k)"
  defines "W \<equiv> within_hops hits scope (tqStart (trQuery request))"
  shows "(r, d) \<in> set (tl fd) \<longleftrightarrow> 0 < d \<and> d \<le> n \<and> r \<in> W d \<and> r \<notin> W (d - 1)"
proof -
  let ?start = "tqStart (trQuery request)"
  have fd: "fd = (?start, 0) # tl fd" using c unfolding closing_def bfs_def by (metis list.collapse)
  have dist: "distinct (map fst fd)" and in_W: "\<And>x. x \<in> set fd \<Longrightarrow> fst x \<in> W (snd x)" and deep: "deep_at_most n fd"
    using c by (auto simp: closing_def bfs_def W_def)
  have unique: "d = d'" if "(r, d) \<in> set fd" "(r, d') \<in> set fd" for r d d'
    using dist that by (metis eq_key_imp_eq_value)
  have not_start: "r \<noteq> ?start" if "(r, d) \<in> set (tl fd)" for r d
  proof -
    have "?start \<notin> fst ` set (tl fd)" using dist by (subst (asm) fd) simp
    then show ?thesis using that by force
  qed
  show ?thesis
  proof
    assume m: "(r, d) \<in> set (tl fd)"
    then have f: "(r, d) \<in> set fd" using fd by (metis list.set_intros(2))
    have r: "r \<in> W d" and n: "d \<le> n" using in_W [OF f] deep f by (auto simp: deep_at_most_def)
    have d: "0 < d"
    proof (rule ccontr)
      assume "\<not> 0 < d"
      then have "r = ?start" using r by (simp add: W_def)
      then show False using not_start m by blast
    qed
    have "r \<notin> W (d - 1)"
    proof
      assume a: "r \<in> W (d - 1)"
      have "d - 1 \<le> n" using n by linarith
      then obtain x where "x \<in> set fd" "fst x = r" "snd x \<le> d - 1"
        using closing_complete [OF c stop a [unfolded W_def]] by blast
      then show False using unique [OF f, of "snd x"] d by auto
    qed
    then show "0 < d \<and> d \<le> n \<and> r \<in> W d \<and> r \<notin> W (d - 1)" using d n r by simp
  next
    assume a: "0 < d \<and> d \<le> n \<and> r \<in> W d \<and> r \<notin> W (d - 1)"
    then obtain x where x: "x \<in> set fd" "fst x = r" "snd x \<le> d"
      using closing_complete [OF c stop, of r d] by (auto simp: W_def)
    have "\<not> snd x \<le> d - 1"
      using in_W [OF x(1)] x(2) a within_hops_mono [of "snd x" "d - 1" hits scope ?start] by (auto simp: W_def)
    then have "snd x = d" using x(3) by simp
    moreover have "r \<noteq> ?start" using a within_hops_mono [of 0 "d - 1" hits scope ?start] by (auto simp: W_def)
    ultimately show "(r, d) \<in> set (tl fd)" using x fd by (metis prod.collapse set_ConsD fst_conv)
  qed
qed

lemma start_walk_closing:
  assumes "enter_start scope (tqStart (trQuery request)) (start_walk view zero_position world) = Inr w"
  shows "closing hits scope request n 0 [(tqStart (trQuery request), 0)] w"
proof -
  have "entry_of start 0 = \<lparr>tfRepository = krRepository start, tfObject = krObject start, tfDepth = 0\<rparr>" for start
    by (simp add: entry_of_def)
  then show ?thesis using assms
    by (auto simp: enter_start_def start_walk_def zero_position_def rbind_Inr_iff dedup_def closing_def bfs_def edges_closed_def
        deep_at_most_def frontier_of_def nodes_of_def split: if_splits)
qed

lemma exhausted_run:
  fixes world :: 'w
  assumes serves: "lane_serves core rest"
    and coherent: "hits_coherent (node_hits core rest scope (trQuery request))" and n: "tqMaxHops (trQuery request) = int n"
    and fresh: "trContinuation request = []"
    and run: "traverse_Run lib (Some core) request (Some scope) world = Some (Inr page)" and ex: "tpExhausted page"
  obtains k fd and w :: "'w walk" where "closing (node_hits core rest scope (trQuery request)) scope request n k fd w"
    "k = length fd \<or> n \<le> snd (fd ! k)" "page = traverse_finish w"
    "wkEdges w = map edge_coordinate (tpEdges page)"
proof -
  let ?hits = "node_hits core rest scope (trQuery request)" and ?start = "tqStart (trQuery request)"
  obtain w0 where w0: "enter_start scope ?start (start_walk (scope_view scope) zero_position world) = Inr w0"
    and l: "go_loop (frontier_step lib core request scope) w0 = Some (Inr page)"
    using run fresh by (auto simp: traverse_Run_def DecodeTraversePosition_def split: if_splits sum.splits)
  let ?sound = "\<lambda>w :: 'w walk. walk_sound scope (trQuery request) (initial_visited ?start zero_position) [] [] w"
  have s0: "?sound w0" using start_walk_sound [OF w0] by (simp add: zero_position_def dedup_def)
  let ?I = "\<lambda>w. ?sound w \<and> (\<exists>k fd. closing ?hits scope request n k fd w)"
  let ?Q = "\<lambda>k fd (w :: 'w walk) out. closing ?hits scope request n k fd w \<and> (k = length fd \<or> n \<le> snd (fd ! k)) \<and> out = traverse_finish w \<and>
     wkEdges w = map edge_coordinate (tpEdges out)"
  have "\<forall>out. (Inr page :: TraversePage go) = Inr out \<longrightarrow> tpExhausted out \<longrightarrow> (\<exists>k fd w. ?Q k fd w out)"
  proof (rule go_loop_invariant [OF l, where I = ?I])
    show "?I w0" using s0 start_walk_closing [OF w0] by blast
  next
    fix w w' assume i: "?I w" and step: "frontier_step lib core request scope w = Some (Inl w')"
    obtain k fd where c: "closing ?hits scope request n k fd w" using i by blast
    show "?I w'" using frontier_step_sound [OF step conjunct1 [OF i]] frontier_step_next [OF serves coherent n c step] by auto
  next
    fix w r assume i: "?I w" and step: "frontier_step lib core request scope w = Some (Inr r)"
    show "\<forall>out. r = Inr out \<longrightarrow> tpExhausted out \<longrightarrow> (\<exists>k fd w. ?Q k fd w out)"
    proof (intro allI impI)
      fix out assume out: "r = Inr out" "tpExhausted out"
      obtain k fd where c: "closing ?hits scope request n k fd w" using i by blast
      have f: "out = traverse_finish w \<and> (k = length fd \<or> n \<le> snd (fd ! k))"
        by (rule frontier_step_stops [OF serves coherent n c]) (use step out in simp_all)
      moreover have "wkEdges w = map edge_coordinate (tpEdges out)"
        using i f by (simp add: page_sound_def traverse_finish_def)
      ultimately show "\<exists>k fd w. ?Q k fd w out" using c by blast
    qed
  qed
  from this [THEN spec, of page] ex show thesis using that by blast
qed

text \<open>A traversal in one exhausted page is the breadth-first closure.\<close>

lemma traverse_is_closure:
  fixes world :: 'w
  assumes serves: "lane_serves core rest"
    and coherent: "hits_coherent (node_hits core rest scope (trQuery request))"
    and n: "tqMaxHops (trQuery request) = int n" "0 < n"
    and fresh: "trContinuation request = []"
    and run: "traverse_Run lib (Some core) request (Some scope) world = Some (Inr page)" and ex: "tpExhausted page"
  defines "hits \<equiv> node_hits core rest scope (trQuery request)"
  defines "W \<equiv> within_hops hits scope (tqStart (trQuery request))"
  shows "set (tpNodes page) = {node_of r (int d) | r d. tqMinHops (trQuery request) \<le> int d \<and> 0 < d \<and> d \<le> n \<and> r \<in> W d \<and> r \<notin> W (d - 1)} \<and>
    set (map edge_coordinate (tpEdges page)) = (\<Union>r \<in> W (n - 1). hit_edge ` set (hits r))"
proof -
  obtain k fd and w :: "'w walk" where c: "closing hits scope request n k fd w" and stop: "k = length fd \<or> n \<le> snd (fd ! k)"
    and page: "page = traverse_finish w" and E: "wkEdges w = map edge_coordinate (tpEdges page)"
    by (rule exhausted_run [OF serves coherent n(1) fresh run ex, folded hits_def])
  have "tpNodes page = nodes_of (tqMinHops (trQuery request)) (tl fd)"
    using c by (simp add: page traverse_finish_def closing_def bfs_def)
  then have nodes: "set (tpNodes page) = {node_of r (int d) | r d. tqMinHops (trQuery request) \<le> int d \<and> (r, d) \<in> set (tl fd)}"
    by (auto simp: nodes_of_def)
  have taken: "hit_edge h \<in> set (wkEdges w)" if r: "r \<in> W (n - 1)" and h: "h \<in> set (hits r)" for r h
  proof -
    have "n - 1 \<le> n" by simp
    then obtain x where x: "x \<in> set fd" "fst x = r" "snd x \<le> n - 1"
      using closing_complete [OF c stop r [unfolded W_def]] by blast
    then have "snd x < n" using n(2) by simp
    from closing_processed [OF c stop x(1) this] show ?thesis using x(2) h by (auto simp: expanded_def)
  qed
  have source: "\<exists>r \<in> W (n - 1). e \<in> hit_edge ` set (hits r)" if e: "e \<in> set (wkEdges w)" for e
  proof -
    have "edges_closed hits scope n fd (wkEdges w)" using c by (simp add: closing_def)
    then obtain a d where a: "(a, d) \<in> set fd" "d < n" "e \<in> hit_edge ` set (hits a)"
      using e unfolding edges_closed_def by blast
    then have "a \<in> W d" using c by (force simp: closing_def bfs_def W_def)
    then have "a \<in> W (n - 1)" using within_hops_mono [of d "n - 1"] a(2) unfolding W_def by fastforce
    then show ?thesis using a(3) by blast
  qed
  have "set (wkEdges w) = (\<Union>r \<in> W (n - 1). hit_edge ` set (hits r))"
  proof (intro equalityI subsetI)
    fix e assume "e \<in> set (wkEdges w)"
    then show "e \<in> (\<Union>r \<in> W (n - 1). hit_edge ` set (hits r))" unfolding UN_iff by (rule source)
  next
    fix e assume "e \<in> (\<Union>r \<in> W (n - 1). hit_edge ` set (hits r))"
    then show "e \<in> set (wkEdges w)" by (elim UN_E imageE) (simp add: taken)
  qed
  then show ?thesis by (simp only: nodes closing_depths [OF c stop, folded W_def] E [symmetric] simp_thms)
qed

end
