(* ===== verification/TraverseRuns.thy ===== *)
theory TraverseRuns
  imports TraverseClosure
begin

text \<open>
  The guarantees of a traversal as the code documents them, a small graph on which they are run, and the two
  ways in which a resumed traversal departs from its documentation.
\<close>

section \<open>A graph\<close>

text \<open>The edges are s-y, s-z, y-a and z-b; the lane of s has two pages.\<close>

definition demo_ref :: "string \<Rightarrow> KnowledgeRef" where
  "demo_ref object = \<lparr>krRepository = ''r'', krObject = object\<rparr>"

definition demo_hit :: "string \<Rightarrow> string \<Rightarrow> string \<Rightarrow> RelationHit" where
  "demo_hit rid a b = \<lparr>rhKnowledgeRef = demo_ref rid, rhRepository = ''r'', rhCommit = ''c'', rhObjectID = rid, rhMatchedRoles = [],
     rhRelation = \<lparr>rlRelationID = rid, rlRelationType = ''t'', rlDirection = RelationUndirected,
       rlEndpoints = [\<lparr>reRole = ''x'', reObjectRef = demo_ref a\<rparr>, \<lparr>reRole = ''x'', reObjectRef = demo_ref b\<rparr>],
       rlAttributes = None, rlValidity = None\<rparr>, rhEvidence = []\<rparr>"

definition demo_rest :: "string lane_hits" where
  "demo_rest repo commit q lane =
    (if rqEndpoint q = demo_ref ''s'' then
       (if lane = [] then [demo_hit ''1'' ''s'' ''y'', demo_hit ''2'' ''s'' ''z''] else [demo_hit ''2'' ''s'' ''z''])
     else if rqEndpoint q = demo_ref ''y'' then [demo_hit ''1'' ''s'' ''y'', demo_hit ''3'' ''y'' ''a'']
     else if rqEndpoint q = demo_ref ''z'' then [demo_hit ''2'' ''s'' ''z'', demo_hit ''4'' ''z'' ''b'']
     else if rqEndpoint q = demo_ref ''a'' then [demo_hit ''3'' ''y'' ''a'']
     else if rqEndpoint q = demo_ref ''b'' then [demo_hit ''4'' ''z'' ''b'']
     else [])"

definition demo_page :: "RelationHit list \<Rightarrow> string \<Rightarrow> RelationPage" where
  "demo_page hits continuation = \<lparr>rgSearchView = \<lparr>svSnapshots = [], svProjectionRevisions = []\<rparr>, rgHits = hits, rgClaims = [],
     rgContinuation = continuation, rgExhausted = (continuation = []), rgGeneration = []\<rparr>"

definition demo_core :: "(string, unit) traverse_core" where
  "demo_core = \<lparr>tcRequire = Inr, tcRelationsAt = (\<lambda>repo commit q w.
     (Inr (if rqEndpoint (rpQuery q) = demo_ref ''s'' \<and> rpContinuation q = [] then demo_page [demo_hit ''1'' ''s'' ''y''] ''p''
       else demo_page (demo_rest repo commit (rpQuery q) (rpContinuation q)) []), w))\<rparr>"

definition demo_query :: TraverseQuery where
  "demo_query = \<lparr>tqStart = demo_ref ''s'', tqStep = \<lparr>tsRelationType = [], tsRole = [], tsDirection = []\<rparr>, tqMinHops = 0, tqMaxHops = 2\<rparr>"

definition demo_scope :: TraverseScope where
  "demo_scope = repository_scope ''r'' ''c''"

definition demo_position :: TraversePosition where
  "demo_position = \<lparr>poDepth = 0, poFrontier = [\<lparr>tfRepository = ''r'', tfObject = ''a'', tfDepth = 2\<rparr>,
       \<lparr>tfRepository = ''r'', tfObject = ''y'', tfDepth = 1\<rparr>, \<lparr>tfRepository = ''r'', tfObject = ''z'', tfDepth = 1\<rparr>],
     poVisited = [demo_ref ''a'', demo_ref ''s'', demo_ref ''y'', demo_ref ''z''],
     poEdges = [\<lparr>ecRepository = ''r'', ecObjectID = ''1''\<rparr>, \<lparr>ecRepository = ''r'', ecObjectID = ''2''\<rparr>, \<lparr>ecRepository = ''r'', ecObjectID = ''3''\<rparr>],
     poBoundary = [], poClaims = [], poPositions = []\<rparr>"

text \<open>A coding of the tokens of this traversal.\<close>

definition demo_tokens :: token_lib where
  "demo_tokens = \<lparr>tkSha = (\<lambda>_. ''d''), tkEncode = (\<lambda>s. CHR ''t'' # ctPosition s),
     tkDecode = (\<lambda>t. Some \<lparr>ctScope = ''traverse'', ctQuery = ''d'', ctSearchView = ''d'', ctProjection = ''d'',
       ctPosition = tl t, ctMembers = [], ctCheck = ''d''\<rparr>)\<rparr>"

definition demo_lib :: traverse_lib where
  "demo_lib = \<lparr>tlToken = demo_tokens, tlMarshal = (\<lambda>p. if p = demo_position then Some ''m'' else None),
     tlUnmarshal = (\<lambda>_. Some demo_position)\<rparr>"

lemma demo_lib_ok: "traverse_lib_ok demo_lib query view identity"
  by (simp add: traverse_lib_ok_def traverse_state_def demo_lib_def demo_tokens_def Let_def TraverseQueryDigest_def
      SearchViewDigest_def CanonicalDigest_def continuation_check_def)

lemma demo_serves: "lane_serves demo_core demo_rest"
  by (auto simp: lane_serves_def demo_core_def demo_page_def demo_rest_def)

lemma demo_advances: "lane_advances demo_core (\<lambda>_ _ _ c. if c = [] then 1 else 0)"
  by (auto simp: lane_advances_def demo_core_def demo_page_def split: if_splits)

definition demo_hits :: "RelationHit list" where
  "demo_hits = [demo_hit ''1'' ''s'' ''y'', demo_hit ''2'' ''s'' ''z'', demo_hit ''3'' ''y'' ''a'', demo_hit ''4'' ''z'' ''b'']"

lemma demo_hits_determined:
  "\<forall>h \<in> set demo_hits. \<forall>g \<in> set demo_hits. hit_edge h = hit_edge g \<longrightarrow> set (hit_refs h) = set (hit_refs g)"
  by (simp add: demo_hits_def hit_edge_def demo_hit_def)

lemma demo_rest_hits: "set (demo_rest repo commit q lane) \<subseteq> set demo_hits"
  unfolding demo_rest_def demo_hits_def by (auto split: if_splits)

lemma demo_coherent: "hits_coherent (node_hits demo_core demo_rest demo_scope demo_query)"
proof -
  have "set (node_hits demo_core demo_rest demo_scope demo_query r) \<subseteq> set demo_hits" for r
    using subsetD [OF demo_rest_hits] by (auto simp: node_hits_def split: option.splits sum.splits)
  then show ?thesis using demo_hits_determined unfolding hits_coherent_def by blast
qed

definition demo_request :: "int \<Rightarrow> string \<Rightarrow> TraverseRequest" where
  "demo_request limit token = \<lparr>trQuery = demo_query, trLimit = limit, trContinuation = token\<rparr>"

lemma demo_paged:
  "map (\<lambda>p. (map (\<lambda>n. (tnObjectID n, tnDepth n)) (tpNodes p), tpExhausted p))
     (traverse_pages demo_lib demo_scope demo_query [] [(demo_core, 3, ()), (demo_core, 100, ())]) =
   [([(''y'', 1), (''z'', 1), (''a'', 2)], False), ([], True)]"
  by code_simp

section \<open>Guarantees\<close>

text \<open>C35. A page of a traversal always returns when the continuations of every relation lane decrease a rank, whatever
  the lanes, the scope and the token hold.\<close>
theorem traverse_terminates:
  assumes "\<And>c. core = Some c \<Longrightarrow> lane_advances c rank"
  shows "\<exists>r. traverse_Run lib core request scope world = Some r"
  using assms by (rule traverse_returns)

theorem traverse_terminates_witness:
  "\<exists>r. traverse_Run demo_lib (Some demo_core) (demo_request 100 []) (Some demo_scope) () = Some r"
  by (rule traverse_terminates [where rank = "\<lambda>_ _ _ c. if c = [] then 1 else 0"]) (simp add: demo_advances)

text \<open>C36. The pages a caller gets by following the continuations, each with lanes, a limit and a budget of its own, are
  disjoint: no node, relation or boundary appears twice, the start is never a node; every node is in the scope and
  within the hop bounds, every boundary is outside the scope, and an unfinished page carries a continuation.\<close>
theorem pages_are_disjoint:
  fixes runs :: "(('repo, 'w) traverse_core \<times> int \<times> 'w) list"
  assumes "traverse_lib_ok lib query (scope_view scope) (soIdentity scope)"
  shows "pages_disjoint {tqStart query} {} {} (traverse_pages lib scope query [] runs) \<and>
    (\<forall>page \<in> set (traverse_pages lib scope query [] runs). page_in_contract scope query page)"
proof -
  have "DecodeTraversePosition lib [] query (scope_view scope) (soIdentity scope) = Inr zero_position"
    by (simp add: DecodeTraversePosition_def)
  from traverse_pages_sound [OF assms this, of runs] show ?thesis by (simp add: initial_visited_def zero_position_def)
qed

theorem pages_are_disjoint_witness:
  "length (traverse_pages demo_lib demo_scope demo_query [] [(demo_core, 3, ()), (demo_core, 100, ())]) = 2 \<and>
   pages_disjoint {demo_ref ''s''} {} {} (traverse_pages demo_lib demo_scope demo_query [] [(demo_core, 3, ()), (demo_core, 100, ())])"
proof -
  have "tqStart demo_query = demo_ref ''s''" by (simp add: demo_query_def)
  moreover have "length (traverse_pages demo_lib demo_scope demo_query [] [(demo_core, 3, ()), (demo_core, 100, ())]) = 2"
    using arg_cong [OF demo_paged, of length] by simp
  ultimately show ?thesis
    using pages_are_disjoint [OF demo_lib_ok, of demo_query demo_scope "[(demo_core, 3, ()), (demo_core, 100, ())]"] by simp
qed

text \<open>C37. A traversal that starts fresh and ends exhausted in one page is the breadth-first closure of the relations: its
  nodes are exactly the objects within the hop bounds, each with its least number of hops, and its edges are exactly the
  relations of the objects less than \<open>maxHops\<close> hops away.\<close>
theorem exhausted_page_is_closure:
  assumes "lane_serves core rest"
    and "hits_coherent (node_hits core rest scope (trQuery request))"
    and "tqMaxHops (trQuery request) = int n" and "0 < n" and "trContinuation request = []"
    and "traverse_Run lib (Some core) request (Some scope) world = Some (Inr page)" and "tpExhausted page"
  shows "set (tpNodes page) =
      {node_of r (int d) | r d. tqMinHops (trQuery request) \<le> int d \<and> 0 < d \<and> d \<le> n \<and>
         r \<in> within_hops (node_hits core rest scope (trQuery request)) scope (tqStart (trQuery request)) d \<and>
         r \<notin> within_hops (node_hits core rest scope (trQuery request)) scope (tqStart (trQuery request)) (d - 1)} \<and>
    set (map edge_coordinate (tpEdges page)) =
      (\<Union>r \<in> within_hops (node_hits core rest scope (trQuery request)) scope (tqStart (trQuery request)) (n - 1).
         hit_edge ` set (node_hits core rest scope (trQuery request) r))"
  by (rule traverse_is_closure [OF assms])

definition demo_full :: TraversePage where
  "demo_full = \<lparr>tpSearchView = scope_view demo_scope,
     tpNodes = [node_of (demo_ref ''y'') 1, node_of (demo_ref ''z'') 1, node_of (demo_ref ''a'') 2, node_of (demo_ref ''b'') 2],
     tpEdges = map (\<lambda>(d, h). \<lparr>teRepository = ''r'', teCommit = ''c'', teObjectID = rhObjectID h, teRelation = rhRelation h, teDepth = d\<rparr>)
       [(0, demo_hit ''1'' ''s'' ''y''), (0, demo_hit ''2'' ''s'' ''z''), (1, demo_hit ''3'' ''y'' ''a''), (1, demo_hit ''4'' ''z'' ''b'')],
     tpBoundary = [], tpClaims = [], tpContinuation = [], tpExhausted = True\<rparr>"

lemma demo_run: "traverse_Run demo_lib (Some demo_core) (demo_request 100 []) (Some demo_scope) () = Some (Inr demo_full)"
  by code_simp

theorem exhausted_page_is_closure_witness:
  "traverse_Run demo_lib (Some demo_core) (demo_request 100 []) (Some demo_scope) () = Some (Inr demo_full) \<and>
   tnDepth (tpNodes demo_full ! 3) = 2 \<and>
   set (tpNodes demo_full) =
      {node_of r (int d) | r d. 0 \<le> int d \<and> 0 < d \<and> d \<le> 2 \<and>
         r \<in> within_hops (node_hits demo_core demo_rest demo_scope demo_query) demo_scope (demo_ref ''s'') d \<and>
         r \<notin> within_hops (node_hits demo_core demo_rest demo_scope demo_query) demo_scope (demo_ref ''s'') (d - 1)}"
proof -
  have q: "trQuery (demo_request 100 []) = demo_query" "trContinuation (demo_request 100 []) = []"
    "tqStart demo_query = demo_ref ''s''" "tqMinHops demo_query = 0" "tqMaxHops demo_query = int 2" "tpExhausted demo_full"
    by (simp_all add: demo_request_def demo_query_def demo_full_def)
  have "tnDepth (tpNodes demo_full ! 3) = 2" by (simp add: demo_full_def)
  then show ?thesis
    using exhausted_page_is_closure [OF demo_serves _ _ _ q(2) demo_run q(6), of 2] demo_run demo_coherent q by simp
qed

section \<open>Two departures\<close>

text \<open>A page that stops at its limit saves the frontier sorted by name, so a resumed traversal meets an object at the hop
  ceiling first and ends exhausted: the object b is on no page, although an unpaged traversal finds it.\<close>

lemma resumed_traversal_loses_nodes:
  "demo_ref ''b'' \<in> set (map node_ref (tpNodes demo_full)) \<and>
   demo_ref ''b'' \<notin> set (page_nodes (traverse_pages demo_lib demo_scope demo_query [] [(demo_core, 3, ()), (demo_core, 100, ())])) \<and>
   tpExhausted (last (traverse_pages demo_lib demo_scope demo_query [] [(demo_core, 3, ()), (demo_core, 100, ())]))"
  by code_simp

text \<open>Once the edge budget is spent every further page is empty and unfinished, and does not even say why.\<close>

lemma spent_budget_stalls:
  assumes "DecodeTraversePosition lib (trContinuation request) (trQuery request) (scope_view scope) (soIdentity scope) = Inr position"
    and "soSnapshots scope \<noteq> []" "poFrontier position \<noteq> []" "MaxTraverseEdges \<le> length (dedup (poEdges position))"
    and "budget_claim \<in> set (poClaims position)" "0 < trLimit request"
    and "traverse_Run lib (Some core) request (Some scope) world = Some (Inr page)"
  shows "tpNodes page = [] \<and> tpEdges page = [] \<and> tpClaims page = [] \<and> \<not> tpExhausted page"
proof -
  let ?w = "start_walk (scope_view scope) position world"
  have "traverse_Run lib (Some core) request (Some scope) world = go_loop (frontier_step lib core request scope) ?w"
    using assms(1-3) by (simp add: traverse_Run_def enter_start_def start_walk_def)
  moreover have "frontier_step lib core request scope ?w = Some (Inr (page_done lib request scope ?w))"
    using assms(3-6) by (cases "poFrontier position") (simp_all add: frontier_step_def start_walk_def append_claim_def)
  ultimately have "page_done lib request scope ?w = Inr page" using assms(7) by (simp add: go_loop_unfold)
  then show ?thesis by (auto simp: page_done_def Let_def rbind_Inr_iff start_walk_def)
qed

end
