(* ===== verification/RepoReader.thy ===== *)
theory RepoReader
  imports TreeCommit
begin

text \<open>
  Reading knowledge out of the files of a snapshot, \<open>src/knowledge/reader/repository_service.go\<close>,
  \<open>address_paths.go\<close> and \<open>citation.go\<close>: the units of an object are found through its locator, read, checked and assembled.

  A repository is the record of what its store can do at fixed commits; the optional capabilities (a unit locator of its
  own, directories, history, changed paths) are present or not.
\<close>

section \<open>The repository\<close>

record reader_lib =
  rlLocators :: locator_lib
  rlCodec :: codec_lib

abbreviation rl_sha :: "reader_lib \<Rightarrow> string \<Rightarrow> string" where
  "rl_sha lib \<equiv> llSha (rlLocators lib)"

record tree_repository =
  rpID :: string
  rpOrigin :: "string option"
  rpRead :: tree_reader
  rpLocator :: "(string \<Rightarrow> string \<Rightarrow> string list go) option"
  rpDirectory :: "(DirectoryRequest \<Rightarrow> DirectoryPage go) option"
  rpHistory :: "(string \<Rightarrow> int \<Rightarrow> string list go) option"
  rpChanges :: "(string \<Rightarrow> string \<Rightarrow> string list go) option"

definition StoreDigest :: "reader_lib \<Rightarrow> tree_repository \<Rightarrow> string" where
  "StoreDigest lib r =
    (case rpOrigin r of
      None \<Rightarrow> []
    | Some origin \<Rightarrow>
        (let coordinate = TrimSpace origin in
         if coordinate \<noteq> [] then CanonicalDigest (rl_sha lib) (JObject [(''repository'', JString (rpID r)), (''origin'', JString coordinate)])
         else []))"

definition locatorLayoutComplete :: "tree_reader \<Rightarrow> string \<Rightarrow> bool" where
  "locatorLayoutComplete read commit = (read LocatorCompletePath commit = Inr LocatorCompleteBody)"

section \<open>The locator of a tree\<close>

definition locator_load :: "reader_lib \<Rightarrow> tree_reader \<Rightarrow> string \<Rightarrow> LocatorManifest go" where
  "locator_load lib read commit =
    (case read LocatorManifestPath commit of
      Inl e \<Rightarrow>
        if CodeOf (Some e) = Some ErrKnowledgeRefUnresolved
        then Inr \<lparr>lmObjects = [], lmSchemas = [], lmBindingSchemas = [], lmReferrers = []\<rparr> else Inl e
    | Inr raw \<Rightarrow> (case DecodeLocatorManifest (rlLocators lib) raw of Inl _ \<Rightarrow> fails ErrPreconditionFailed | Inr m \<Rightarrow> Inr m))"

definition locator_SchemaObjectIDs :: "reader_lib \<Rightarrow> tree_reader \<Rightarrow> string \<Rightarrow> string list go" where
  "locator_SchemaObjectIDs lib read commit =
    (if locatorLayoutComplete read commit then
       (case read LocatorSchemaIndexPath commit of
         Inl e \<Rightarrow> if CodeOf (Some e) = Some ErrKnowledgeRefUnresolved then Inr [] else Inl e
       | Inr raw \<Rightarrow> (case DecodeSchemaIndex (rlLocators lib) raw of Inl _ \<Rightarrow> fails ErrPreconditionFailed | Inr ids \<Rightarrow> Inr ids))
     else rbind (locator_load lib read commit) (\<lambda>m. Inr (lmSchemas m)))"

definition locator_BindingSchemaObjectIDs :: "reader_lib \<Rightarrow> tree_reader \<Rightarrow> string \<Rightarrow> string list go" where
  "locator_BindingSchemaObjectIDs lib read commit = rbind (locator_load lib read commit) (\<lambda>m. Inr (lmBindingSchemas m))"

definition locator_SchemaReferrerAddresses :: "reader_lib \<Rightarrow> tree_reader \<Rightarrow> string \<Rightarrow> string \<Rightarrow> Address list go" where
  "locator_SchemaReferrerAddresses lib read schema commit =
    rbind (locator_load lib read commit) (\<lambda>m. Inr (case map_of (lmReferrers m) schema of None \<Rightarrow> [] | Some as \<Rightarrow> as))"

definition locate_units :: "reader_lib \<Rightarrow> tree_repository \<Rightarrow> string \<Rightarrow> string \<Rightarrow> string list go" where
  "locate_units lib r objectID commit =
    (case rpLocator r of
      Some locate \<Rightarrow> locate objectID commit
    | None \<Rightarrow> ReadObjectLocator (rlLocators lib) (rpRead r) objectID commit)"

section \<open>Units\<close>

text \<open>The README of the repository belongs to its object although no locator lists it.\<close>

definition add_readme :: "reader_lib \<Rightarrow> tree_repository \<Rightarrow> string \<Rightarrow> (string, string list) gomap \<Rightarrow> (string, string list) gomap go" where
  "add_readme lib r commit paths =
    (case rpRead r RepositoryReadmePath commit of
      Inl e \<Rightarrow> if CodeOf (Some e) \<noteq> Some ErrKnowledgeRefUnresolved then Inl e else Inr paths
    | Inr raw \<Rightarrow>
        (case Unit_Parse (rlCodec lib) raw of
          None \<Rightarrow> Inr paths
        | Some u \<Rightarrow>
            (case map_of paths (unObjectID u) of
              None \<Rightarrow> Inr paths
            | Some ps \<Rightarrow>
                if RepositoryReadmePath \<in> set ps then Inr paths
                else Inr (AList.update (unObjectID u) (ps @ [RepositoryReadmePath]) paths))))"

definition objectUnitPathsMany :: "reader_lib \<Rightarrow> tree_repository \<Rightarrow> string list \<Rightarrow> string \<Rightarrow> (string, string list) gomap go" where
  "objectUnitPathsMany lib r objectIDs commit =
    (if length objectIDs = 0 then Inr []
     else rbind (collect (\<lambda>objectID. rbind (locate_units lib r objectID commit) (\<lambda>ps. Inr (objectID, ps))) objectIDs) (\<lambda>entries.
       add_readme lib r commit (foldl (\<lambda>m (k, ps). AList.update k ps m) [] entries)))"

definition paths_of :: "(string, string list) gomap \<Rightarrow> string \<Rightarrow> string list" where
  "paths_of m objectID = (case map_of m objectID of None \<Rightarrow> [] | Some ps \<Rightarrow> ps)"

definition ObjectUnitPaths :: "reader_lib \<Rightarrow> tree_repository \<Rightarrow> string \<Rightarrow> string \<Rightarrow> string list go" where
  "ObjectUnitPaths lib r objectID commit =
    rbind (objectUnitPathsMany lib r [objectID] commit) (\<lambda>paths. Inr (paths_of paths objectID))"

fun read_at_paths :: "reader_lib \<Rightarrow> tree_reader \<Rightarrow> string \<Rightarrow> string \<Rightarrow> string list \<Rightarrow> UnitTree \<Rightarrow> UnitTree go" where
  "read_at_paths lib read objectID commit [] idx = Inr idx"
| "read_at_paths lib read objectID commit (path # paths) idx =
    (if \<not> KnowledgePath path then fails ErrPreconditionFailed
     else rbind (read path commit) (\<lambda>content.
       case Unit_Parse (rlCodec lib) content of
         None \<Rightarrow> fails ErrPreconditionFailed
       | Some u \<Rightarrow>
           if unObjectID u \<noteq> objectID then fails ErrPreconditionFailed
           else rbind (Ingest (rl_sha lib) (Some u) path idx) (read_at_paths lib read objectID commit paths)))"

definition readObjectUnitsAtPaths :: "reader_lib \<Rightarrow> tree_reader \<Rightarrow> string list \<Rightarrow> string \<Rightarrow> string \<Rightarrow> FileUnit list go" where
  "readObjectUnitsAtPaths lib read paths objectID commit =
    rbind (read_at_paths lib read objectID commit paths NewTree) (\<lambda>idx. Inr (ObjectUnits idx objectID))"

definition objectUnits :: "reader_lib \<Rightarrow> tree_repository \<Rightarrow> string \<Rightarrow> string \<Rightarrow> FileUnit list go" where
  "objectUnits lib r objectID commit =
    rbind (objectUnitPathsMany lib r [objectID] commit) (\<lambda>paths.
      readObjectUnitsAtPaths lib (rpRead r) (paths_of paths objectID) objectID commit)"

definition assembleKnowledgeValue :: "reader_lib \<Rightarrow> string \<Rightarrow> string \<Rightarrow> string \<Rightarrow> FileUnit list \<Rightarrow> KnowledgeValue go" where
  "assembleKnowledgeValue lib repository objectID commit us =
    AssembleKnowledgeValue (rl_sha lib) repository objectID commit (map Unit.truncate us)"

section \<open>Reads\<close>

text \<open>The values of the objects that exist, given where their units are.\<close>

fun read_located :: "reader_lib \<Rightarrow> tree_repository \<Rightarrow> string \<Rightarrow> (string \<Rightarrow> string list) \<Rightarrow> string list \<Rightarrow> (string, KnowledgeValue) gomap go" where
  "read_located lib r commit paths [] = Inr []"
| "read_located lib r commit paths (objectID # ids) =
    rbind (readObjectUnitsAtPaths lib (rpRead r) (paths objectID) objectID commit) (\<lambda>us.
      if length us = 0 then read_located lib r commit paths ids
      else rbind (assembleKnowledgeValue lib (rpID r) objectID commit us) (\<lambda>v.
        rbind (read_located lib r commit paths ids) (\<lambda>m. Inr ((objectID, v) # m))))"

definition wanted_ids :: "string list \<Rightarrow> string list" where
  "wanted_ids objectIDs = dedup (filter (\<lambda>objectID. objectID \<noteq> []) objectIDs)"

definition ReadMany :: "reader_lib \<Rightarrow> tree_repository \<Rightarrow> string list \<Rightarrow> string \<Rightarrow> (string, KnowledgeValue) gomap go" where
  "ReadMany lib r objectIDs commit =
    (let ids = wanted_ids objectIDs in
     rbind (objectUnitPathsMany lib r ids commit) (\<lambda>paths. read_located lib r commit (paths_of paths) ids))"

definition ReadManyAtPaths :: "reader_lib \<Rightarrow> tree_repository \<Rightarrow> string list \<Rightarrow> string \<Rightarrow> (string, string list) gomap \<Rightarrow>
    (string, KnowledgeValue) gomap go" where
  "ReadManyAtPaths lib r objectIDs commit given =
    (let ids = wanted_ids objectIDs in
     rbind (objectUnitPathsMany lib r ids commit) (\<lambda>located.
       read_located lib r commit (\<lambda>k. if length (paths_of given k) = 0 then paths_of located k else paths_of given k) ids))"

definition tree_Read :: "reader_lib \<Rightarrow> tree_repository \<Rightarrow> string \<Rightarrow> string \<Rightarrow> KnowledgeValue go" where
  "tree_Read lib r objectID commit =
    rbind (ReadMany lib r [objectID] commit) (\<lambda>values.
      case map_of values objectID of Some v \<Rightarrow> Inr v | None \<Rightarrow> fails ErrKnowledgeRefUnresolved)"

definition unit_at :: "FileUnit list \<Rightarrow> Address \<Rightarrow> FileUnit option" where
  "unit_at us address = find (\<lambda>u. AddressKey (unAddress u) = AddressKey address) us"

definition unit_value :: "reader_lib \<Rightarrow> string \<Rightarrow> string \<Rightarrow> Address \<Rightarrow> FileUnit \<Rightarrow> KnowledgeValue" where
  "unit_value lib repository commit address u =
    \<lparr>kvKnowledgeRef = \<lparr>krRepository = repository, krObject = adObject address\<rparr>, kvRepository = repository, kvCommit = commit,
      kvAddress = unAddress u, kvValue = unValue u, kvProvenance = unProvenance u, kvUnits = [],
      kvDeclarations = [DeclarationOf (rl_sha lib) u]\<rparr>"

definition unit_resolution :: "reader_lib \<Rightarrow> string \<Rightarrow> string \<Rightarrow> Address \<Rightarrow> FileUnit \<Rightarrow> Resolution" where
  "unit_resolution lib repository commit address u =
    \<lparr>rsRepository = repository, rsCommit = commit, rsObjectID = adObject address, rsAddress = unAddress u,
      rsPathHint = (if unPathHint u = [] then fuPath u else unPathHint u), rsDigest = unDigest u,
      rsDeclarationDigest = DeclarationDigest (rl_sha lib) (unSchemaRef u) (unValueSource u), rsSchemaRef = unSchemaRef u,
      rsValueSource = unValueSource u, rsStatus = StatusResolved\<rparr>"

definition tree_ReadAddress :: "reader_lib \<Rightarrow> tree_repository \<Rightarrow> Address \<Rightarrow> string \<Rightarrow> KnowledgeValue go" where
  "tree_ReadAddress lib r address commit =
    rbind (AssertWritable address) (\<lambda>_.
    rbind (objectUnits lib r (adObject address) commit) (\<lambda>us.
      case unit_at us address of
        None \<Rightarrow> fails ErrKnowledgeRefUnresolved
      | Some u \<Rightarrow> Inr (unit_value lib (rpID r) commit address u)))"

definition tree_ResolveAddress :: "reader_lib \<Rightarrow> tree_repository \<Rightarrow> Address \<Rightarrow> string \<Rightarrow> Resolution go" where
  "tree_ResolveAddress lib r address commit =
    rbind (AssertWritable address) (\<lambda>_.
    rbind (objectUnits lib r (adObject address) commit) (\<lambda>us.
      case unit_at us address of
        None \<Rightarrow> Inr \<lparr>rsRepository = rpID r, rsCommit = commit, rsObjectID = adObject address, rsAddress = address,
          rsPathHint = [], rsDigest = [], rsDeclarationDigest = [], rsSchemaRef = [], rsValueSource = None,
          rsStatus = StatusUnresolved\<rparr>
      | Some u \<Rightarrow> Inr (unit_resolution lib (rpID r) commit address u)))"

record ProvenanceTrace =
  ptRepository :: string
  ptCommit :: string
  ptObjectID :: string
  ptChain :: "ProvenanceEnvelope list"

definition tree_GetProvenance :: "reader_lib \<Rightarrow> tree_repository \<Rightarrow> string \<Rightarrow> string \<Rightarrow> ProvenanceTrace go" where
  "tree_GetProvenance lib r objectID commit =
    rbind (objectUnits lib r objectID commit) (\<lambda>us.
      if length us = 0 then fails ErrKnowledgeRefUnresolved
      else Inr \<lparr>ptRepository = rpID r, ptCommit = commit, ptObjectID = objectID,
        ptChain = List.map_filter unProvenance (sort_key unit_key us)\<rparr>)"

text \<open>Reads of one unit within given paths, \<open>address_paths.go\<close>.\<close>

definition addressAtPaths :: "reader_lib \<Rightarrow> tree_repository \<Rightarrow> Address \<Rightarrow> string \<Rightarrow> string list \<Rightarrow> FileUnit go" where
  "addressAtPaths lib r address commit paths =
    rbind (AssertWritable address) (\<lambda>_.
    rbind (readObjectUnitsAtPaths lib (rpRead r) paths (adObject address) commit) (\<lambda>us.
      case unit_at us address of None \<Rightarrow> fails ErrKnowledgeRefUnresolved | Some u \<Rightarrow> Inr u))"

definition ReadAddressAtPaths :: "reader_lib \<Rightarrow> tree_repository \<Rightarrow> Address \<Rightarrow> string \<Rightarrow> string list \<Rightarrow> KnowledgeValue go" where
  "ReadAddressAtPaths lib r address commit paths =
    rbind (addressAtPaths lib r address commit paths) (\<lambda>u. Inr (unit_value lib (rpID r) commit address u))"

definition ResolveAddressAtPaths :: "reader_lib \<Rightarrow> tree_repository \<Rightarrow> Address \<Rightarrow> string \<Rightarrow> string list \<Rightarrow> Resolution go" where
  "ResolveAddressAtPaths lib r address commit paths =
    rbind (addressAtPaths lib r address commit paths) (\<lambda>u. Inr (unit_resolution lib (rpID r) commit address u))"

section \<open>Identities\<close>

record ObjectIDPage =
  opgObjectIDs :: "string list"
  opgContinuation :: string
  opgExhausted :: bool

definition readmeObjectID :: "reader_lib \<Rightarrow> tree_repository \<Rightarrow> string \<Rightarrow> string option go" where
  "readmeObjectID lib r commit =
    (case rpRead r RepositoryReadmePath commit of
      Inl e \<Rightarrow> if CodeOf (Some e) = Some ErrKnowledgeRefUnresolved then Inr None else Inl e
    | Inr raw \<Rightarrow>
        (case Unit_Parse (rlCodec lib) raw of
          None \<Rightarrow> Inr None
        | Some u \<Rightarrow> Inr (if IsReadmeAddress (unAddress u) (unSchemaRef u) then Some (unObjectID u) else None)))"

definition mergeReadmeObjectID :: "reader_lib \<Rightarrow> tree_repository \<Rightarrow> ObjectIDPage \<Rightarrow> string \<Rightarrow> ObjectIDPage go" where
  "mergeReadmeObjectID lib r page commit =
    rbind (readmeObjectID lib r commit) (\<lambda>found.
      case found of
        None \<Rightarrow> Inr page
      | Some objectID \<Rightarrow>
          if objectID \<in> set (opgObjectIDs page) then Inr page
          else rbind (ReadObjectLocator (rlLocators lib) (rpRead r) objectID commit) (\<lambda>located.
            if length located > 0 \<or> \<not> opgExhausted page then Inr page
            else Inr (page\<lparr>opgObjectIDs := opgObjectIDs page @ [objectID]\<rparr>)))"

fun locator_entries :: "reader_lib \<Rightarrow> tree_repository \<Rightarrow> string \<Rightarrow> DirectoryEntry list \<Rightarrow> string list go" where
  "locator_entries lib r commit [] = Inr []"
| "locator_entries lib r commit (entry # entries) =
    (if deKind entry \<noteq> ''file'' then fails ErrPreconditionFailed
     else rbind (rpRead r (LocatorObjectDirectory @ ''/'' @ deName entry) commit) (\<lambda>raw.
       case DecodeObjectLocatorEntry (rlLocators lib) raw of
         Inl _ \<Rightarrow> fails ErrPreconditionFailed
       | Inr oe \<Rightarrow> rbind (locator_entries lib r commit entries) (\<lambda>ids. Inr (oeObjectID oe # ids))))"

text \<open>A page of the identities of the manifest, in order and after the continuation.\<close>

definition manifest_page :: "string list \<Rightarrow> int \<Rightarrow> string \<Rightarrow> ObjectIDPage" where
  "manifest_page ids limit continuation =
    (let start = length (takeWhile (\<lambda>k. k \<le> continuation) ids); end = min (start + nat limit) (length ids);
         page_ids = take (end - start) (drop start ids); exhausted = (end = length ids) in
     \<lparr>opgObjectIDs = page_ids,
       opgContinuation = (if \<not> exhausted \<and> length page_ids > 0 then last page_ids else []), opgExhausted = exhausted\<rparr>)"

definition directory_ids :: "reader_lib \<Rightarrow> tree_repository \<Rightarrow> (DirectoryRequest \<Rightarrow> DirectoryPage go) \<Rightarrow> string \<Rightarrow> int \<Rightarrow> string \<Rightarrow> ObjectIDPage go" where
  "directory_ids lib r directory commit limit continuation =
    (case directory \<lparr>drCommit = commit, drDirectory = LocatorObjectDirectory, drLimit = (if limit > 500 then 500 else limit),
         drContinuation = continuation\<rparr> of
      Inl e \<Rightarrow>
        if continuation = [] \<and> CodeOf (Some e) = Some ErrKnowledgeRefUnresolved
        then mergeReadmeObjectID lib r \<lparr>opgObjectIDs = [], opgContinuation = [], opgExhausted = True\<rparr> commit else Inl e
    | Inr dp \<Rightarrow> rbind (locator_entries lib r commit (dpEntries dp)) (\<lambda>ids.
        mergeReadmeObjectID lib r \<lparr>opgObjectIDs = ids, opgContinuation = dpContinuation dp, opgExhausted = dpExhausted dp\<rparr> commit))"

definition ObjectIDsPage :: "reader_lib \<Rightarrow> tree_repository \<Rightarrow> string \<Rightarrow> int \<Rightarrow> string \<Rightarrow> ObjectIDPage go" where
  "ObjectIDsPage lib r commit limit continuation =
    (if limit \<le> 0 then fails ErrUsageInvalid
     else (case (rpDirectory r, locatorLayoutComplete (rpRead r) commit) of
       (Some directory, True) \<Rightarrow> directory_ids lib r directory commit limit continuation
     | _ \<Rightarrow> rbind (locator_load lib (rpRead r) commit) (\<lambda>m.
         mergeReadmeObjectID lib r (manifest_page (sort (map fst (lmObjects m))) limit continuation) commit)))"

section \<open>Citations\<close>

record ProvenanceSummary =
  psActorRef :: string
  psSourceRefs :: "string list"
  psOriginKind :: string

record GroundingCitation =
  gcKnowledgeRef :: KnowledgeRef
  gcPinnedRef :: string
  gcDigest :: string
  gcProvenanceSummary :: "ProvenanceSummary option"

definition NewGroundingCitation :: "(string \<Rightarrow> string) \<Rightarrow> KnowledgeValue \<Rightarrow> GroundingCitation" where
  "NewGroundingCitation sha v =
    \<lparr>gcKnowledgeRef = kvKnowledgeRef v, gcPinnedRef = FormatPinnedRef (kvRepository v) (kvCommit v) (adObject (kvAddress v)),
     gcDigest = CanonicalDigest sha (kvValue v),
     gcProvenanceSummary = map_option (\<lambda>p. \<lparr>psActorRef = pvActorRef p, psSourceRefs = pvSourceRefs p, psOriginKind = pvOriginKind p\<rparr>)
       (kvProvenance v)\<rparr>"

end
