(* ===== verification/RepoHistory.thy ===== *)
theory RepoHistory
  imports RepoReader
begin

text \<open>
  The history of an object, \<open>src/knowledge/reader/repository_history.go\<close>: its log over the commits of a branch, differences,
  changed objects, and the resolution of an object, which needs the history to tell a removed object from one
  that never existed.
\<close>

section \<open>The log\<close>

record ObjectRevision =
  orCommit :: string
  orStatus :: string
  orDigest :: string
  orDeclarationDigest :: string

text \<open>The revision at a commit, \<open>None\<close> where the object is absent, and the key it is compared by.\<close>

definition revision_at :: "reader_lib \<Rightarrow> tree_repository \<Rightarrow> string \<Rightarrow> string \<Rightarrow> FileUnit list \<Rightarrow> ObjectRevision go" where
  "revision_at lib r objectID commit us =
    (if length us = 0 then Inr \<lparr>orCommit = commit, orStatus = StatusRemoved, orDigest = [], orDeclarationDigest = []\<rparr>
     else rbind (assembleKnowledgeValue lib (rpID r) objectID commit us) (\<lambda>v.
       Inr \<lparr>orCommit = commit, orStatus = StatusResolved, orDigest = CanonicalDigest (rl_sha lib) (kvValue v),
         orDeclarationDigest = TreeDeclarationDigest (rl_sha lib) us\<rparr>))"

definition revision_key :: "ObjectRevision \<Rightarrow> string" where
  "revision_key rv =
    (if orStatus rv = StatusRemoved then StatusRemoved
     else orStatus rv @ '':'' @ orDigest rv @ '':'' @ orDeclarationDigest rv)"

text \<open>\<open>skipping\<close> and \<open>out\<close>; the flag says that the page is full.\<close>

definition appendRevision :: "int \<Rightarrow> string \<Rightarrow> ObjectRevision \<Rightarrow> bool \<times> ObjectRevision list \<Rightarrow> bool \<times> bool \<times> ObjectRevision list" where
  "appendRevision limit after rv s =
    (case s of (skipping, out) \<Rightarrow>
      if skipping then (False, orCommit rv \<noteq> after, out)
      else (int (length (out @ [rv])) \<ge> limit, False, out @ [rv]))"

definition append_introducing :: "int \<Rightarrow> string \<Rightarrow> ObjectRevision option \<Rightarrow> bool \<times> ObjectRevision list \<Rightarrow> bool \<times> bool \<times> ObjectRevision list" where
  "append_introducing limit after introducing s =
    (case introducing of None \<Rightarrow> (False, s) | Some rv \<Rightarrow> appendRevision limit after rv s)"

text \<open>The commits from the newest, each with the units of the object and whether an older commit has it.\<close>

fun log_loop :: "reader_lib \<Rightarrow> tree_repository \<Rightarrow> string \<Rightarrow> int \<Rightarrow> string \<Rightarrow> (string \<times> FileUnit list \<times> bool) list \<Rightarrow> string \<Rightarrow>
    ObjectRevision option \<Rightarrow> bool \<times> ObjectRevision list \<Rightarrow> ObjectRevision list go" where
  "log_loop lib r objectID limit after [] previous introducing s =
    (if int (length (snd s)) < limit then Inr (snd (snd (append_introducing limit after introducing s))) else Inr (snd s))"
| "log_loop lib r objectID limit after ((candidate, us, older) # rest) previous introducing s =
    (if length us = 0 \<and> \<not> older then Inr (snd (snd (append_introducing limit after introducing s)))
     else rbind (revision_at lib r objectID candidate us) (\<lambda>rv.
       if revision_key rv = previous then log_loop lib r objectID limit after rest previous (Some rv) s
       else (case append_introducing limit after introducing s of (full, s') \<Rightarrow>
         if full then Inr (snd s')
         else log_loop lib r objectID limit after rest (revision_key rv) (Some rv) s')))"

fun older_has :: "(string \<times> FileUnit list) list \<Rightarrow> (string \<times> FileUnit list \<times> bool) list" where
  "older_has [] = []"
| "older_has ((c, us) # rest) = (c, us, list_ex (\<lambda>(_, vs). length vs > 0) rest) # older_has rest"

definition HistoryLimit :: int where "HistoryLimit = 10000"

definition tree_Log :: "reader_lib \<Rightarrow> tree_repository \<Rightarrow> string \<Rightarrow> string \<Rightarrow> int \<Rightarrow> string \<Rightarrow> ObjectRevision list go" where
  "tree_Log lib r objectID commit limit after =
    (case rpHistory r of
      None \<Rightarrow> fails ErrCapabilityUnsatisfied
    | Some history \<Rightarrow>
        rbind (history commit HistoryLimit) (\<lambda>commits.
        rbind (collect (\<lambda>c. rbind (objectUnits lib r objectID c) (\<lambda>us. Inr (c, us))) (rev commits)) (\<lambda>found.
          log_loop lib r objectID (PageSize limit) after (older_has (rev found)) [] None (after \<noteq> [], []))))"

section \<open>Differences and changes\<close>

record ObjectDiff =
  odObjectID :: string
  odFromCommit :: string
  odToCommit :: string
  odFrom :: "KnowledgeValue option"
  odTo :: "KnowledgeValue option"

definition diff_read :: "KnowledgeValue go \<Rightarrow> KnowledgeValue option go" where
  "diff_read value =
    (case value of Inl e \<Rightarrow> if CodeOf (Some e) = Some ErrKnowledgeRefUnresolved then Inr None else Inl e | Inr v \<Rightarrow> Inr (Some v))"

definition tree_Diff :: "reader_lib \<Rightarrow> tree_repository \<Rightarrow> string \<Rightarrow> string \<Rightarrow> string \<Rightarrow> ObjectDiff go" where
  "tree_Diff lib r objectID from_commit to_commit =
    rbind (diff_read (tree_Read lib r objectID from_commit)) (\<lambda>left.
    rbind (diff_read (tree_Read lib r objectID to_commit)) (\<lambda>right.
      Inr \<lparr>odObjectID = objectID, odFromCommit = from_commit, odToCommit = to_commit, odFrom = left, odTo = right\<rparr>))"

record ChangedObject =
  coObjectID :: string
  coFromPaths :: "string list"
  coToPaths :: "string list"

definition parseKnowledgeObjectAt :: "reader_lib \<Rightarrow> tree_repository \<Rightarrow> string \<Rightarrow> string \<Rightarrow> string option" where
  "parseKnowledgeObjectAt lib r path commit =
    (case rpRead r path commit of
      Inl _ \<Rightarrow> None
    | Inr content \<Rightarrow> map_option unObjectID (Unit_Parse (rlCodec lib) content))"

definition paths_at :: "reader_lib \<Rightarrow> tree_repository \<Rightarrow> string list \<Rightarrow> string \<Rightarrow> string \<Rightarrow> string list" where
  "paths_at lib r paths commit objectID = filter (\<lambda>path. parseKnowledgeObjectAt lib r path commit = Some objectID) paths"

definition FastChangedObjects :: "reader_lib \<Rightarrow> tree_repository \<Rightarrow> string \<Rightarrow> string \<Rightarrow> ChangedObject list go" where
  "FastChangedObjects lib r from_commit to_commit =
    (case rpChanges r of
      None \<Rightarrow> fails ErrCapabilityUnsatisfied
    | Some changes \<Rightarrow>
        rbind (changes from_commit to_commit) (\<lambda>all_paths.
          (let paths = filter KnowledgePath all_paths;
               seen = dedup (concat (map (\<lambda>path. List.map_filter (parseKnowledgeObjectAt lib r path) [from_commit, to_commit]) paths)) in
           Inr (map (\<lambda>objectID. \<lparr>coObjectID = objectID, coFromPaths = paths_at lib r paths from_commit objectID,
             coToPaths = paths_at lib r paths to_commit objectID\<rparr>) (sort seen)))))"

definition FastChangedObjectIDs :: "reader_lib \<Rightarrow> tree_repository \<Rightarrow> string \<Rightarrow> string \<Rightarrow> string list go" where
  "FastChangedObjectIDs lib r from_commit to_commit =
    rbind (FastChangedObjects lib r from_commit to_commit) (\<lambda>changes. Inr (map coObjectID changes))"

section \<open>Resolution\<close>

fun existed_before :: "reader_lib \<Rightarrow> tree_repository \<Rightarrow> string \<Rightarrow> string \<Rightarrow> string list \<Rightarrow> string go" where
  "existed_before lib r objectID commit [] = Inr StatusUnresolved"
| "existed_before lib r objectID commit (prior # commits) =
    (if prior = commit then existed_before lib r objectID commit commits
     else rbind (objectUnits lib r objectID prior) (\<lambda>us.
       if length us > 0 then Inr StatusRemoved else existed_before lib r objectID commit commits))"

definition missingStatus :: "reader_lib \<Rightarrow> tree_repository \<Rightarrow> string \<Rightarrow> string \<Rightarrow> string go" where
  "missingStatus lib r objectID commit =
    (case rpHistory r of
      None \<Rightarrow> Inr StatusUnresolved
    | Some history \<Rightarrow> rbind (history commit HistoryLimit) (\<lambda>commits. existed_before lib r objectID commit commits))"

definition tree_Resolve :: "reader_lib \<Rightarrow> tree_repository \<Rightarrow> string \<Rightarrow> string \<Rightarrow> Resolution go" where
  "tree_Resolve lib r objectID commit =
    rbind (objectUnits lib r objectID commit) (\<lambda>us.
      if length us = 0 then
        rbind (missingStatus lib r objectID commit) (\<lambda>status.
          Inr \<lparr>rsRepository = rpID r, rsCommit = commit, rsObjectID = objectID,
            rsAddress = \<lparr>adKind = KindEntity, adObject = objectID, adAspect = [], adMember = []\<rparr>, rsPathHint = [], rsDigest = [],
            rsDeclarationDigest = [], rsSchemaRef = [], rsValueSource = None, rsStatus = status\<rparr>)
      else rbind (assembleKnowledgeValue lib (rpID r) objectID commit us) (\<lambda>v.
        Inr \<lparr>rsRepository = rpID r, rsCommit = commit, rsObjectID = objectID,
          rsAddress = (case us of [u] \<Rightarrow> if adKind (unAddress u) = KindRelation then unAddress u else kvAddress v | _ \<Rightarrow> kvAddress v),
          rsPathHint = EntityPathHint us objectID, rsDigest = CanonicalDigest (rl_sha lib) (kvValue v),
          rsDeclarationDigest = TreeDeclarationDigest (rl_sha lib) us,
          rsSchemaRef = (case us of [u] \<Rightarrow> unSchemaRef u | _ \<Rightarrow> []),
          rsValueSource = (case us of [u] \<Rightarrow> unValueSource u | _ \<Rightarrow> None), rsStatus = StatusResolved\<rparr>))"

section \<open>What the log shows\<close>

text \<open>Of the commits in which the object keeps its state, the oldest introduced it.\<close>

fun introducing_of :: "ObjectRevision list \<Rightarrow> ObjectRevision list" where
  "introducing_of [] = []"
| "introducing_of [x] = [x]"
| "introducing_of (x # y # zs) =
    (if revision_key x = revision_key y then introducing_of (y # zs) else x # introducing_of (y # zs))"

text \<open>The revisions of an object from the newest commit down to the first that has it.\<close>

definition object_revisions :: "reader_lib \<Rightarrow> tree_repository \<Rightarrow> string \<Rightarrow> string list \<Rightarrow> ObjectRevision list go" where
  "object_revisions lib r objectID commits =
    rbind (collect (\<lambda>c. rbind (objectUnits lib r objectID c) (\<lambda>us. Inr (c, us))) (rev commits)) (\<lambda>found.
      collect (\<lambda>(c, us, older). revision_at lib r objectID c us)
        (takeWhile (\<lambda>(c, us, older). length us > 0 \<or> older) (older_has (rev found))))"

definition revisions_after :: "string \<Rightarrow> ObjectRevision list \<Rightarrow> ObjectRevision list" where
  "revisions_after after rvs = (if after = [] then rvs else tl (dropWhile (\<lambda>rv. orCommit rv \<noteq> after) rvs))"

definition unskipped :: "bool \<Rightarrow> string \<Rightarrow> ObjectRevision list \<Rightarrow> ObjectRevision list" where
  "unskipped skipping after rvs = (if skipping then tl (dropWhile (\<lambda>rv. orCommit rv \<noteq> after) rvs) else rvs)"

lemma revision_key_nonempty: "revision_at lib r objectID c us = Inr rv \<Longrightarrow> revision_key rv \<noteq> []"
  by (auto simp: revision_at_def revision_key_def StatusRemoved_def StatusResolved_def rbind_Inr_iff split: if_splits)

lemma append_last:
  assumes "length out < n"
  shows "snd (snd (append_introducing (int n) after introducing (skipping, out))) =
    take n (out @ unskipped skipping after (case introducing of None \<Rightarrow> [] | Some i \<Rightarrow> [i]))"
  using assms by (auto simp: append_introducing_def appendRevision_def unskipped_def split: option.splits)

lemma log_loop_spec:
  assumes "collect (\<lambda>(c, us, older). revision_at lib r objectID c us)
      (takeWhile (\<lambda>(c, us, older). length us > 0 \<or> older) entries) = Inr rvs"
    and "length out < n" and "case introducing of None \<Rightarrow> previous = [] | Some i \<Rightarrow> revision_key i = previous"
  shows "log_loop lib r objectID (int n) after entries previous introducing (skipping, out) =
    Inr (take n (out @ unskipped skipping after (introducing_of (case introducing of None \<Rightarrow> rvs | Some i \<Rightarrow> i # rvs))))"
  using assms
proof (induction entries arbitrary: rvs previous introducing skipping out)
  case Nil
  then show ?case using append_last [OF Nil.prems(2), of after introducing skipping] by (auto split: option.splits)
next
  case (Cons e entries)
  obtain c us older where e: "e = (c, us, older)" by (cases e)
  show ?case
  proof (cases "length us = 0 \<and> \<not> older")
    case True
    then have "rvs = []" using Cons.prems(1) by (simp add: e)
    then show ?thesis using True append_last [OF Cons.prems(2), of after introducing skipping] by (auto simp: e split: option.splits)
  next
    case False
    then obtain rv rest where rv: "revision_at lib r objectID c us = Inr rv" and rvs: "rvs = rv # rest"
      and rest: "collect (\<lambda>(c, us, older). revision_at lib r objectID c us)
        (takeWhile (\<lambda>(c, us, older). length us > 0 \<or> older) entries) = Inr rest"
      using Cons.prems(1) by (auto simp: e rbind_Inr_iff)
    note key = revision_key_nonempty [OF rv]
    show ?thesis
    proof (cases introducing)
      case None
      then have "revision_key rv \<noteq> previous" using Cons.prems(3) key by simp
      then show ?thesis using False rv None rvs Cons.IH [OF rest Cons.prems(2), where introducing = "Some rv" and previous = "revision_key rv" and skipping = skipping]
        by (auto simp: e append_introducing_def)
    next
      case (Some i)
      show ?thesis
      proof (cases "revision_key rv = previous")
        case True
        then show ?thesis using False rv Some rvs Cons.prems(3) Cons.IH [OF rest Cons.prems(2), where introducing = "Some rv" and previous = previous and skipping = skipping]
          by (auto simp: e)
      next
        case new: False
        then have intro: "introducing_of (i # rv # rest) = i # introducing_of (rv # rest)" using Cons.prems(3) Some by simp
        show ?thesis
        proof (cases skipping)
          case True
          then show ?thesis using False rv Some rvs new intro
              Cons.IH [OF rest Cons.prems(2), where introducing = "Some rv" and previous = "revision_key rv" and skipping = "orCommit i \<noteq> after"]
            by (auto simp: e append_introducing_def appendRevision_def unskipped_def)
        next
          case no_skip: False
          show ?thesis
          proof (cases "length (out @ [i]) < n")
            case True
            then show ?thesis using False rv Some rvs new intro no_skip
                Cons.IH [OF rest True, where introducing = "Some rv" and previous = "revision_key rv" and skipping = False]
              by (auto simp: e append_introducing_def appendRevision_def unskipped_def)
          next
            case full: False
            then have "n = Suc (length out)" using Cons.prems(2) by simp
            then show ?thesis using False rv Some rvs new intro no_skip
              by (auto simp: e append_introducing_def appendRevision_def unskipped_def)
          qed
        qed
      qed
    qed
  qed
qed

definition log_page :: "int \<Rightarrow> nat" where
  "log_page limit = nat (PageSize limit)"

lemma tree_Log_spec:
  assumes "rpHistory r = Some history" "history commit HistoryLimit = Inr commits"
    and "object_revisions lib r objectID commits = Inr rvs"
  shows "tree_Log lib r objectID commit limit after =
    Inr (take (log_page limit) (revisions_after after (introducing_of rvs)))"
proof -
  obtain found where found: "collect (\<lambda>c. rbind (objectUnits lib r objectID c) (\<lambda>us. Inr (c, us))) (rev commits) = Inr found"
    and rvs: "collect (\<lambda>(c, us, older). revision_at lib r objectID c us)
        (takeWhile (\<lambda>(c, us, older). length us > 0 \<or> older) (older_has (rev found))) = Inr rvs"
    using assms(3) by (auto simp: object_revisions_def rbind_Inr_iff)
  have n: "PageSize limit = int (log_page limit)" "0 < log_page limit"
    by (simp_all add: log_page_def PageSize_def DefaultObjectLogLimit_def)
  show ?thesis
    using log_loop_spec [OF rvs, where out = "[]" and n = "log_page limit" and introducing = None and previous = "[]" and
      after = after and skipping = "after \<noteq> []"] n assms(1,2) found
    by (simp add: tree_Log_def unskipped_def revisions_after_def)
qed

lemma introducing_of_subset: "set (introducing_of rvs) \<subseteq> set rvs"
  by (induction rvs rule: introducing_of.induct) auto

lemma introducing_of_commits: "subseq (map orCommit (introducing_of rvs)) (map orCommit rvs)"
  by (induction rvs rule: introducing_of.induct) auto

lemma revision_commit: "revision_at lib r objectID c us = Inr rv \<Longrightarrow> orCommit rv = c"
  by (auto simp: revision_at_def rbind_Inr_iff split: if_splits)

lemma older_has_commits: "map fst (older_has es) = map fst es"
  by (induction es rule: older_has.induct) auto

lemma collect_map:
  assumes "collect f xs = Inr ys" "\<And>x y. x \<in> set xs \<Longrightarrow> f x = Inr y \<Longrightarrow> g y = h x"
  shows "map g ys = map h xs"
  using assms by (induction xs arbitrary: ys) (auto simp: rbind_Inr_iff)

lemma object_revisions_commits:
  assumes "object_revisions lib r objectID commits = Inr rvs"
  shows "\<exists>n. map orCommit rvs = take n commits"
proof -
  obtain found where f: "collect (\<lambda>c. rbind (objectUnits lib r objectID c) (\<lambda>us. Inr (c, us))) (rev commits) = Inr found"
    and rvs: "collect (\<lambda>(c, us, older). revision_at lib r objectID c us)
        (takeWhile (\<lambda>(c, us, older). length us > 0 \<or> older) (older_has (rev found))) = Inr rvs"
    using assms by (auto simp: object_revisions_def rbind_Inr_iff)
  have "map fst found = map (\<lambda>c. c) (rev commits)"
    by (rule collect_map [OF f]) (auto simp: rbind_Inr_iff)
  then have "map fst (older_has (rev found)) = commits" by (simp add: older_has_commits rev_map [symmetric])
  moreover have "map orCommit rvs = map fst (takeWhile (\<lambda>(c, us, older). length us > 0 \<or> older) (older_has (rev found)))"
    by (rule collect_map [OF rvs]) (auto dest: revision_commit)
  ultimately show ?thesis by (metis takeWhile_eq_take take_map)
qed

lemma dropWhile_nth:
  "distinct (map f xs) \<Longrightarrow> k < length xs \<Longrightarrow> dropWhile (\<lambda>x. f x \<noteq> f (xs ! k)) xs = drop k xs"
proof (induction xs arbitrary: k)
  case (Cons x xs)
  then show ?case by (cases k) force+
qed simp


definition demo_reader_lib :: reader_lib where
  "demo_reader_lib = \<lparr>rlLocators = demo_locators, rlCodec = demo_json_lib\<rparr>"

definition demo_body :: "json \<Rightarrow> string" where
  "demo_body v =
    (case SerializeWithSource demo_json_lib (aspect_at ''x'' ''a'') [] ''schema/p'' None None v of Inr t \<Rightarrow> t | Inl _ \<Rightarrow> [])"

definition demo_commits :: "string list" where
  "demo_commits = [''c4'', ''c3'', ''c2'', ''c1'', ''c0'']"

text \<open>The object is introduced in the second commit, changed in the third, changed back in the fourth and kept in the fifth.\<close>

definition demo_repository :: tree_repository where
  "demo_repository = \<lparr>rpID = ''r'', rpOrigin = None,
    rpRead = (\<lambda>path commit. if path = ''x/a.md'' \<and> commit = ''c2'' then Inr (demo_body JNull)
      else if path = ''x/a.md'' \<and> commit \<noteq> ''c0'' then Inr (demo_body (JBool True)) else fails ErrKnowledgeRefUnresolved),
    rpLocator = Some (\<lambda>objectID commit. Inr (if objectID = ''x'' \<and> commit \<noteq> ''c0'' then [''x/a.md''] else [])), rpDirectory = None,
    rpHistory = Some (\<lambda>commit limit. Inr demo_commits), rpChanges = None\<rparr>"


end
