(* ===== verification/Serving.thy ===== *)
theory Serving
  imports RepoHistory DatasetDef
begin

text \<open>
  Reading a published dataset, \<open>src/knowledge/reader/serving.go\<close>, \<open>dataset_repository.go\<close> and \<open>hydration.go\<close>: the consumer
  reads at the commits of a pin and only within its file list.  The repositories are tree repositories; the
  hydrator, a cache of the application, is a parameter that is present or not.
\<close>

section \<open>The file list\<close>

record KnowledgeSetPin =
  pnSetID :: string
  pnRevision :: int
  pnRepositories :: "(string, string) gomap"
  pnItems :: "DatasetItem list"

definition servingItemCovers :: "DatasetItem \<Rightarrow> string \<Rightarrow> bool" where
  "servingItemCovers item given_path =
    (let path = trim_slashes given_path in
     if itKind item = ''file'' then path = trim_slashes (itFile item)
     else if itKind item = ''prefix'' then
       (let pre = trim_slashes (itPrefix item) in if pre = [] then True else path = pre \<or> HasPrefix path (pre @ ''/''))
     else False)"

definition datasetPathAllowed :: "DatasetItem list \<Rightarrow> string \<Rightarrow> string \<Rightarrow> bool" where
  "datasetPathAllowed items repository path = list_ex (\<lambda>item. itRepository item = repository \<and> servingItemCovers item path) items"

definition datasetPathsAllowed :: "DatasetItem list \<Rightarrow> string \<Rightarrow> string list \<Rightarrow> bool" where
  "datasetPathsAllowed items repository paths = (list_all (datasetPathAllowed items repository) paths \<and> length paths > 0)"

definition datasetHasRepository :: "DatasetItem list \<Rightarrow> string \<Rightarrow> bool" where
  "datasetHasRepository items repository = list_ex (\<lambda>item. itRepository item = repository) items"

definition datasetRestrictsRepository :: "DatasetItem list \<Rightarrow> string \<Rightarrow> bool" where
  "datasetRestrictsRepository items repository =
    (datasetHasRepository items repository \<and>
     \<not> list_ex (\<lambda>item. itRepository item = repository \<and> itKind item = ''prefix'' \<and> trim_slashes (itPrefix item) = []) items)"

definition WholeRepositoryItems :: "(string, string) gomap \<Rightarrow> DatasetItem list" where
  "WholeRepositoryItems repos = map (\<lambda>k. \<lparr>itTarget = k, itRepository = k,
     itCommit = (case map_of repos k of None \<Rightarrow> [] | Some c \<Rightarrow> c), itKind = ''prefix'', itPrefix = [], itFile = []\<rparr>) (sort (map fst repos))"

definition item_published :: "(string, string) gomap \<Rightarrow> DatasetItem \<Rightarrow> bool" where
  "item_published repos item = (itCommit item \<noteq> [] \<and>
     (case map_of repos (itRepository item) of None \<Rightarrow> [] | Some c \<Rightarrow> c) = itCommit item \<and> itKind item \<in> {''prefix'', ''file''})"

section \<open>The view of one repository\<close>

record dataset_repository =
  dsRepo :: tree_repository
  dsPin :: KnowledgeSetPin
  dsCommit :: string

definition objectInDataset :: "reader_lib \<Rightarrow> KnowledgeSetPin \<Rightarrow> string \<Rightarrow> string \<Rightarrow> tree_repository \<Rightarrow> string \<Rightarrow> bool go" where
  "objectInDataset lib pin repositoryID commit repo objectID =
    (if length (pnItems pin) = 0 \<or> \<not> datasetHasRepository (pnItems pin) repositoryID then Inr False
     else if \<not> datasetRestrictsRepository (pnItems pin) repositoryID then Inr True
     else (case ObjectUnitPaths lib repo objectID commit of
       Inl e \<Rightarrow> if CodeOf (Some e) = Some ErrKnowledgeRefUnresolved then Inr False else Inl e
     | Inr paths \<Rightarrow> Inr (datasetPathsAllowed (pnItems pin) repositoryID paths)))"

definition ds_check :: "reader_lib \<Rightarrow> dataset_repository \<Rightarrow> string \<Rightarrow> string \<Rightarrow> unit go" where
  "ds_check lib r objectID commit =
    (if commit \<noteq> dsCommit r then fails ErrKnowledgeRefUnresolved
     else rbind (objectInDataset lib (dsPin r) (rpID (dsRepo r)) commit (dsRepo r) objectID) (\<lambda>allowed.
       if \<not> allowed then fails ErrKnowledgeRefUnresolved else Inr ()))"

definition ds_Read :: "reader_lib \<Rightarrow> dataset_repository \<Rightarrow> string \<Rightarrow> string \<Rightarrow> KnowledgeValue go" where
  "ds_Read lib r objectID commit = rbind (ds_check lib r objectID commit) (\<lambda>_. tree_Read lib (dsRepo r) objectID commit)"

definition ds_addressPaths :: "reader_lib \<Rightarrow> dataset_repository \<Rightarrow> string \<Rightarrow> string \<Rightarrow> string list go" where
  "ds_addressPaths lib r objectID commit =
    (if commit \<noteq> dsCommit r then fails ErrKnowledgeRefUnresolved
     else rbind (ObjectUnitPaths lib (dsRepo r) objectID commit) (\<lambda>paths.
       (let allowed = filter (datasetPathAllowed (pnItems (dsPin r)) (rpID (dsRepo r))) paths in
        if length allowed = 0 then fails ErrKnowledgeRefUnresolved else Inr allowed)))"

text \<open>A unit of an object that is not wholly published is read within the published paths only.\<close>

definition ds_ReadAddress :: "reader_lib \<Rightarrow> dataset_repository \<Rightarrow> Address \<Rightarrow> string \<Rightarrow> KnowledgeValue go" where
  "ds_ReadAddress lib r address commit =
    (case ds_check lib r (adObject address) commit of
      Inl e \<Rightarrow>
        if CodeOf (Some e) \<noteq> Some ErrKnowledgeRefUnresolved then Inl e
        else rbind (ds_addressPaths lib r (adObject address) commit) (ReadAddressAtPaths lib (dsRepo r) address commit)
    | Inr _ \<Rightarrow> tree_ReadAddress lib (dsRepo r) address commit)"

definition ds_ResolveAddress :: "reader_lib \<Rightarrow> dataset_repository \<Rightarrow> Address \<Rightarrow> string \<Rightarrow> Resolution go" where
  "ds_ResolveAddress lib r address commit =
    (case ds_check lib r (adObject address) commit of
      Inl e \<Rightarrow>
        if CodeOf (Some e) \<noteq> Some ErrKnowledgeRefUnresolved then Inl e
        else rbind (ds_addressPaths lib r (adObject address) commit) (ResolveAddressAtPaths lib (dsRepo r) address commit)
    | Inr _ \<Rightarrow> tree_ResolveAddress lib (dsRepo r) address commit)"

definition ds_Resolve :: "reader_lib \<Rightarrow> dataset_repository \<Rightarrow> string \<Rightarrow> string \<Rightarrow> Resolution go" where
  "ds_Resolve lib r objectID commit = rbind (ds_check lib r objectID commit) (\<lambda>_. tree_Resolve lib (dsRepo r) objectID commit)"

definition ds_GetProvenance :: "reader_lib \<Rightarrow> dataset_repository \<Rightarrow> string \<Rightarrow> string \<Rightarrow> ProvenanceTrace go" where
  "ds_GetProvenance lib r objectID commit =
    rbind (ds_check lib r objectID commit) (\<lambda>_. tree_GetProvenance lib (dsRepo r) objectID commit)"

definition ds_Log :: "reader_lib \<Rightarrow> dataset_repository \<Rightarrow> string \<Rightarrow> string \<Rightarrow> int \<Rightarrow> string \<Rightarrow> ObjectRevision list go" where
  "ds_Log lib r objectID commit limit after =
    rbind (ds_check lib r objectID commit) (\<lambda>_.
      if datasetRestrictsRepository (pnItems (dsPin r)) (rpID (dsRepo r)) then fails ErrCapabilityUnsatisfied
      else tree_Log lib (dsRepo r) objectID commit limit after)"

definition ds_Diff :: "reader_lib \<Rightarrow> dataset_repository \<Rightarrow> string \<Rightarrow> string \<Rightarrow> string \<Rightarrow> ObjectDiff go" where
  "ds_Diff lib r objectID from_commit to_commit =
    rbind (ds_check lib r objectID from_commit) (\<lambda>_.
    rbind (ds_check lib r objectID to_commit) (\<lambda>_. tree_Diff lib (dsRepo r) objectID from_commit to_commit))"

fun filter_ids :: "reader_lib \<Rightarrow> dataset_repository \<Rightarrow> string \<Rightarrow> string list \<Rightarrow> string list go" where
  "filter_ids lib r commit [] = Inr []"
| "filter_ids lib r commit (k # ids) =
    rbind (objectInDataset lib (dsPin r) (rpID (dsRepo r)) commit (dsRepo r) k) (\<lambda>allowed.
    rbind (filter_ids lib r commit ids) (\<lambda>rest. Inr (if allowed then k # rest else rest)))"

definition ds_filterIDs :: "reader_lib \<Rightarrow> dataset_repository \<Rightarrow> string list \<Rightarrow> string \<Rightarrow> string list go" where
  "ds_filterIDs lib r ids commit = (if commit \<noteq> dsCommit r then fails ErrKnowledgeRefUnresolved else filter_ids lib r commit ids)"

definition ds_SchemaObjectIDs :: "reader_lib \<Rightarrow> dataset_repository \<Rightarrow> string \<Rightarrow> string list go" where
  "ds_SchemaObjectIDs lib r commit =
    rbind (locator_SchemaObjectIDs lib (rpRead (dsRepo r)) commit) (\<lambda>ids. ds_filterIDs lib r ids commit)"

definition ds_ReadMany :: "reader_lib \<Rightarrow> dataset_repository \<Rightarrow> string list \<Rightarrow> string \<Rightarrow> (string, KnowledgeValue) gomap go" where
  "ds_ReadMany lib r ids commit = rbind (ds_filterIDs lib r ids commit) (\<lambda>allowed. ReadMany lib (dsRepo r) allowed commit)"

section \<open>Hydration\<close>

record hydrator =
  hyReadMany :: "dataset_repository \<Rightarrow> string \<Rightarrow> string list \<Rightarrow> (string, KnowledgeValue) gomap go"
  hyReadAddress :: "dataset_repository \<Rightarrow> string \<Rightarrow> Address \<Rightarrow> KnowledgeValue go"

definition readHydrated :: "reader_lib \<Rightarrow> hydrator option \<Rightarrow> dataset_repository \<Rightarrow> string \<Rightarrow> string \<Rightarrow> KnowledgeValue go" where
  "readHydrated lib hydrate r objectID commit =
    (case hydrate of
      None \<Rightarrow> ds_Read lib r objectID commit
    | Some h \<Rightarrow>
        rbind (hyReadMany h r commit [objectID]) (\<lambda>values.
          case map_of values objectID of
            None \<Rightarrow> fails ErrKnowledgeRefUnresolved
          | Some v \<Rightarrow> rbind (ValidateHydratedObject (rpID (dsRepo r)) commit objectID v) (\<lambda>_. Inr v)))"

definition readAddressHydrated :: "reader_lib \<Rightarrow> hydrator option \<Rightarrow> dataset_repository \<Rightarrow> Address \<Rightarrow> string \<Rightarrow> KnowledgeValue go" where
  "readAddressHydrated lib hydrate r address commit =
    (case hydrate of
      None \<Rightarrow> ds_ReadAddress lib r address commit
    | Some h \<Rightarrow>
        rbind (hyReadAddress h r commit address) (\<lambda>v.
        rbind (ValidateHydratedAddress (rpID (dsRepo r)) commit address v) (\<lambda>_. Inr v)))"

section \<open>The consumer face\<close>

record serving =
  svgLookup :: "string \<Rightarrow> tree_repository go"
  svgPin :: KnowledgeSetPin
  svgHydrator :: "hydrator option"

record FederatedValue =
  fvKnowledgeRef :: KnowledgeRef
  fvRepository :: string
  fvCommit :: string
  fvObjectID :: string
  fvAddress :: Address
  fvValue :: json
  fvProvenance :: "ProvenanceEnvelope option"
  fvUnits :: "Address list"
  fvDeclarations :: "UnitDeclaration list"

definition federatedOf :: "string \<Rightarrow> string \<Rightarrow> string \<Rightarrow> KnowledgeValue \<Rightarrow> json \<Rightarrow> FederatedValue" where
  "federatedOf repositoryID commit objectID src assembled =
    \<lparr>fvKnowledgeRef = \<lparr>krRepository = repositoryID, krObject = objectID\<rparr>, fvRepository = repositoryID, fvCommit = commit,
     fvObjectID = objectID,
     fvAddress = (if adObject (kvAddress src) = [] then \<lparr>adKind = KindEntity, adObject = objectID, adAspect = [], adMember = []\<rparr>
       else kvAddress src),
     fvValue = assembled, fvProvenance = kvProvenance src, fvUnits = kvUnits src, fvDeclarations = kvDeclarations src\<rparr>"

definition serving_Open :: "(string \<Rightarrow> tree_repository go) \<Rightarrow> KnowledgeSetPin \<Rightarrow> serving" where
  "serving_Open mounted pin = \<lparr>svgLookup = mounted,
     svgPin = pin\<lparr>pnItems := filter (item_published (pnRepositories pin)) (pnItems pin)\<rparr>, svgHydrator = None\<rparr>"

definition serving_Contains :: "reader_lib \<Rightarrow> serving \<Rightarrow> string \<Rightarrow> string \<Rightarrow> bool go" where
  "serving_Contains lib s repositoryID objectID =
    (case map_of (pnRepositories (svgPin s)) repositoryID of
      None \<Rightarrow> Inr False
    | Some commit \<Rightarrow> rbind (svgLookup s repositoryID) (\<lambda>repo. objectInDataset lib (svgPin s) repositoryID commit repo objectID))"

definition serving_Member :: "serving \<Rightarrow> string \<Rightarrow> dataset_repository go" where
  "serving_Member s k =
    (case map_of (pnRepositories (svgPin s)) k of
      None \<Rightarrow> fails ErrKnowledgeRefUnresolved
    | Some commit \<Rightarrow> rbind (svgLookup s k) (\<lambda>repo. Inr \<lparr>dsRepo = repo, dsPin = svgPin s, dsCommit = commit\<rparr>))"

text \<open>\<open>eachRepository\<close> and \<open>eachObject\<close>: the callback yields a value, nothing, or an error that ends the loop.\<close>

fun each_member :: "serving \<Rightarrow> (string \<Rightarrow> string \<Rightarrow> dataset_repository \<Rightarrow> 'a option go) \<Rightarrow> string list \<Rightarrow> 'a list go" where
  "each_member s f [] = Inr []"
| "each_member s f (k # ids) =
    rbind (serving_Member s k) (\<lambda>repo.
    rbind (f k (dsCommit repo) repo) (\<lambda>found.
    rbind (each_member s f ids) (\<lambda>rest. Inr (case found of None \<Rightarrow> rest | Some v \<Rightarrow> v # rest))))"

definition eachRepository :: "serving \<Rightarrow> (string \<Rightarrow> string \<Rightarrow> dataset_repository \<Rightarrow> 'a option go) \<Rightarrow> 'a list go" where
  "eachRepository s f = each_member s f (sort (map fst (pnRepositories (svgPin s))))"

definition eachObject :: "reader_lib \<Rightarrow> serving \<Rightarrow> string \<Rightarrow> (string \<Rightarrow> string \<Rightarrow> dataset_repository \<Rightarrow> 'a option go) \<Rightarrow> 'a list go" where
  "eachObject lib s objectID f = eachRepository s (\<lambda>k commit repo.
     rbind (objectInDataset lib (svgPin s) k commit (dsRepo repo) objectID) (\<lambda>allowed.
       if \<not> allowed then Inr None else f k commit repo))"

text \<open>A missing object is nothing, any other error ends the read.\<close>

definition present :: "'a go \<Rightarrow> 'a option go" where
  "present r = (case r of Inl e \<Rightarrow> if CodeOf (Some e) = Some ErrKnowledgeRefUnresolved then Inr None else Inl e | Inr v \<Rightarrow> Inr (Some v))"

definition serving_Read :: "reader_lib \<Rightarrow> serving \<Rightarrow> string \<Rightarrow> AspectSelector option \<Rightarrow> FederatedValue list go" where
  "serving_Read lib s objectID selector =
    eachObject lib s objectID (\<lambda>k commit repo.
      rbind (present (readHydrated lib (svgHydrator s) repo objectID commit)) (\<lambda>found.
        Inr (map_option (\<lambda>v. federatedOf k commit objectID v
          (case selector of None \<Rightarrow> kvValue v | Some _ \<Rightarrow> SelectAspects (kvValue v) (kvUnits v) selector)) found)))"

definition serving_ReadAddress :: "reader_lib \<Rightarrow> serving \<Rightarrow> Address \<Rightarrow> FederatedValue list go" where
  "serving_ReadAddress lib s address =
    eachRepository s (\<lambda>k commit repo.
      rbind (objectInDataset lib (svgPin s) k commit (dsRepo repo) (adObject address)) (\<lambda>whole.
      rbind (present (if whole then readAddressHydrated lib (svgHydrator s) repo address commit
          else ds_ReadAddress lib repo address commit)) (\<lambda>found.
        Inr (map_option (\<lambda>v. federatedOf k commit (adObject address) v (kvValue v)) found))))"

definition absent_status :: "string \<Rightarrow> bool" where
  "absent_status status = (status = StatusUnresolved \<or> status = StatusRemoved)"

definition serving_Resolve :: "reader_lib \<Rightarrow> serving \<Rightarrow> string \<Rightarrow> Resolution list go" where
  "serving_Resolve lib s objectID =
    eachObject lib s objectID (\<lambda>k commit repo.
      rbind (ds_Resolve lib repo objectID commit) (\<lambda>resolution.
        Inr (if absent_status (rsStatus resolution) then None else Some resolution)))"

definition serving_ResolveAddress :: "reader_lib \<Rightarrow> serving \<Rightarrow> Address \<Rightarrow> Resolution list go" where
  "serving_ResolveAddress lib s address =
    eachRepository s (\<lambda>k commit repo.
      rbind (present (ds_ResolveAddress lib repo address commit)) (\<lambda>found.
        Inr (case found of None \<Rightarrow> None
          | Some resolution \<Rightarrow> if absent_status (rsStatus resolution) then None else Some resolution)))"

definition serving_GetProvenance :: "reader_lib \<Rightarrow> serving \<Rightarrow> string \<Rightarrow> ProvenanceTrace list go" where
  "serving_GetProvenance lib s objectID =
    eachObject lib s objectID (\<lambda>k commit repo. present (ds_GetProvenance lib repo objectID commit))"

record ObjectLog =
  olRepository :: string
  olObjectID :: string
  olCommit :: string
  olRevisions :: "ObjectRevision list"

definition serving_Log :: "reader_lib \<Rightarrow> serving \<Rightarrow> string \<Rightarrow> int \<Rightarrow> ObjectLog list go" where
  "serving_Log lib s objectID limit =
    eachObject lib s objectID (\<lambda>k commit repo.
      rbind (present (ds_Log lib repo objectID commit limit [])) (\<lambda>found.
        Inr (case found of None \<Rightarrow> None
          | Some revs \<Rightarrow> if length revs = 0 then None
              else Some \<lparr>olRepository = k, olObjectID = objectID, olCommit = commit, olRevisions = revs\<rparr>)))"

end
