(* ===== verification/ServingScope.thy ===== *)
theory ServingScope
  imports Serving
begin

text \<open>
  What a consumer of a dataset can see.  Two repositories that agree on the files of the pin, on the locators and on the
  README give the same answers: nothing outside the published file list reaches the consumer.
\<close>

section \<open>The catalog and the reader grant the same paths\<close>

lemma reader_grants_catalog_paths: "datasetPathAllowed items repository path = DatasetPathAllowed items repository path"
  by (simp add: datasetPathAllowed_def DatasetPathAllowed_iff list_ex_iff servingItemCovers_def datasetItemCovers_def
      DatasetItemFile_def DatasetItemPrefix_def Let_def)

section \<open>Agreement\<close>

definition visible :: "reader_lib \<Rightarrow> DatasetItem list \<Rightarrow> string \<Rightarrow> string \<Rightarrow> bool" where
  "visible lib items repository path =
    (path \<in> {RepositoryReadmePath, LocatorCompletePath, LocatorManifestPath} \<or>
     (\<exists>k. path = ObjectLocatorPath (rlLocators lib) k) \<or> datasetPathAllowed items repository path)"

definition agree_at :: "reader_lib \<Rightarrow> DatasetItem list \<Rightarrow> string \<Rightarrow> string \<Rightarrow> tree_repository \<Rightarrow> tree_repository \<Rightarrow> bool" where
  "agree_at lib items repository commit r1 r2 =
    (rpID r1 = repository \<and> rpID r2 = repository \<and> rpLocator r1 = rpLocator r2 \<and>
     (\<forall>path. visible lib items repository path \<longrightarrow> rpRead r1 path commit = rpRead r2 path commit))"

lemma locate_agree:
  "agree_at lib items k commit r1 r2 \<Longrightarrow> locate_units lib r1 objectID commit = locate_units lib r2 objectID commit"
proof -
  assume a: "agree_at lib items k commit r1 r2"
  then have same: "rpRead r1 path commit = rpRead r2 path commit" if "visible lib items k path" for path
    using that by (simp add: agree_at_def)
  have files: "rpRead r1 (ObjectLocatorPath (rlLocators lib) objectID) commit = rpRead r2 (ObjectLocatorPath (rlLocators lib) objectID) commit"
    "rpRead r1 LocatorCompletePath commit = rpRead r2 LocatorCompletePath commit"
    "rpRead r1 LocatorManifestPath commit = rpRead r2 LocatorManifestPath commit"
    by (rule same, auto simp: visible_def)+
  have "rpLocator r1 = rpLocator r2" using a by (simp add: agree_at_def)
  then show ?thesis unfolding locate_units_def ReadObjectLocator_def files by simp
qed

lemma paths_agree:
  assumes "agree_at lib items k commit r1 r2"
  shows "objectUnitPathsMany lib r1 ids commit = objectUnitPathsMany lib r2 ids commit"
proof -
  have "rpRead r1 RepositoryReadmePath commit = rpRead r2 RepositoryReadmePath commit"
    using assms by (simp add: agree_at_def visible_def)
  then have "add_readme lib r1 commit m = add_readme lib r2 commit m" for m by (simp add: add_readme_def)
  then show ?thesis using locate_agree [OF assms] by (simp add: objectUnitPathsMany_def)
qed

lemma read_at_paths_agree:
  "\<forall>p \<in> set paths. rpRead r1 p commit = rpRead r2 p commit \<Longrightarrow>
   read_at_paths lib (rpRead r1) objectID commit paths idx = read_at_paths lib (rpRead r2) objectID commit paths idx"
  by (induction paths arbitrary: idx) (auto simp: rbind_def split: sum.splits option.splits)

lemma units_at_paths_agree:
  "\<forall>p \<in> set paths. rpRead r1 p commit = rpRead r2 p commit \<Longrightarrow>
   readObjectUnitsAtPaths lib (rpRead r1) paths objectID commit = readObjectUnitsAtPaths lib (rpRead r2) paths objectID commit"
proof -
  assume a: "\<forall>p \<in> set paths. rpRead r1 p commit = rpRead r2 p commit"
  show ?thesis by (simp add: readObjectUnitsAtPaths_def read_at_paths_agree [OF a])
qed

lemma wanted_single: "wanted_ids [k] = (if k = [] then [] else [k])"
  by (simp add: wanted_ids_def dedup_def)

lemma tree_Read_units:
  "tree_Read lib r objectID commit =
    (if objectID = [] then fails ErrKnowledgeRefUnresolved
     else rbind (objectUnits lib r objectID commit) (\<lambda>us.
       if length us = 0 then fails ErrKnowledgeRefUnresolved else assembleKnowledgeValue lib (rpID r) objectID commit us))"
proof (cases "objectID = []")
  case True
  then show ?thesis by (simp add: tree_Read_def ReadMany_def wanted_single objectUnitPathsMany_def)
next
  case False
  then have "tree_Read lib r objectID commit = rbind (rbind (objectUnits lib r objectID commit) (\<lambda>us.
      if length us = 0 then Inr [] else rbind (assembleKnowledgeValue lib (rpID r) objectID commit us) (\<lambda>v. Inr [(objectID, v)])))
      (\<lambda>values. case map_of values objectID of Some v \<Rightarrow> Inr v | None \<Rightarrow> fails ErrKnowledgeRefUnresolved)"
    by (simp add: tree_Read_def ReadMany_def wanted_single objectUnits_def rbind_def split: sum.splits)
  then show ?thesis using False
    by (cases "objectUnits lib r objectID commit")
      (auto simp: rbind_def split: sum.splits)
qed

definition unit_paths_agree :: "reader_lib \<Rightarrow> string \<Rightarrow> string \<Rightarrow> tree_repository \<Rightarrow> tree_repository \<Rightarrow> bool" where
  "unit_paths_agree lib objectID commit r1 r2 =
    (\<forall>paths. ObjectUnitPaths lib r1 objectID commit = Inr paths \<longrightarrow> (\<forall>p \<in> set paths. rpRead r1 p commit = rpRead r2 p commit))"

lemma objectUnits_agree:
  assumes "agree_at lib items k commit r1 r2" "unit_paths_agree lib objectID commit r1 r2"
  shows "objectUnits lib r1 objectID commit = objectUnits lib r2 objectID commit"
proof (cases "objectUnitPathsMany lib r1 [objectID] commit")
  case (Inl e)
  then show ?thesis using paths_agree [OF assms(1)] by (simp add: objectUnits_def)
next
  case (Inr m)
  have "\<forall>p \<in> set (paths_of m objectID). rpRead r1 p commit = rpRead r2 p commit"
    using assms(2) Inr by (simp add: unit_paths_agree_def ObjectUnitPaths_def)
  from units_at_paths_agree [OF this] show ?thesis
    using Inr paths_agree [OF assms(1), of "[objectID]"] by (simp add: objectUnits_def)
qed

lemma tree_Read_agree:
  assumes "agree_at lib items k commit r1 r2" "unit_paths_agree lib objectID commit r1 r2"
  shows "tree_Read lib r1 objectID commit = tree_Read lib r2 objectID commit"
proof -
  have "rpID r1 = rpID r2" using assms(1) by (simp add: agree_at_def)
  then show ?thesis using objectUnits_agree [OF assms] by (simp add: tree_Read_units cong: if_cong)
qed

text \<open>The units of an object that is in the dataset are on published paths.\<close>

lemma objectInDataset_agree:
  assumes "agree_at lib (pnItems pin) k commit r1 r2"
  shows "objectInDataset lib pin k commit r1 objectID = objectInDataset lib pin k commit r2 objectID"
  using paths_agree [OF assms] by (simp add: objectInDataset_def ObjectUnitPaths_def)

lemma unrestricted_allows:
  "datasetHasRepository items k \<Longrightarrow> \<not> datasetRestrictsRepository items k \<Longrightarrow> datasetPathAllowed items k path"
  by (force simp: datasetRestrictsRepository_def datasetPathAllowed_def list_ex_iff servingItemCovers_def Let_def)

lemma in_dataset_paths:
  assumes "agree_at lib (pnItems pin) k commit r1 r2" "objectInDataset lib pin k commit r1 objectID = Inr True"
  shows "unit_paths_agree lib objectID commit r1 r2"
proof -
  have "datasetPathAllowed (pnItems pin) k p" if "ObjectUnitPaths lib r1 objectID commit = Inr paths" "p \<in> set paths" for paths p
  proof (cases "datasetRestrictsRepository (pnItems pin) k")
    case True
    then have "datasetPathsAllowed (pnItems pin) k paths" using assms(2) that(1)
      by (auto simp: objectInDataset_def split: if_splits)
    then show ?thesis using that(2) by (auto simp: datasetPathsAllowed_def list_all_iff)
  next
    case False
    then show ?thesis using assms(2) unrestricted_allows by (auto simp: objectInDataset_def split: if_splits)
  qed
  then show ?thesis using assms(1) by (auto simp: unit_paths_agree_def agree_at_def visible_def)
qed

section \<open>The views agree\<close>

lemma ds_check_agree:
  assumes "agree_at lib (pnItems pin) k commit r1 r2"
  shows "ds_check lib \<lparr>dsRepo = r1, dsPin = pin, dsCommit = commit\<rparr> objectID commit =
    ds_check lib \<lparr>dsRepo = r2, dsPin = pin, dsCommit = commit\<rparr> objectID commit"
  using objectInDataset_agree [OF assms] assms by (simp add: ds_check_def agree_at_def)

lemma ds_check_allows:
  assumes "agree_at lib (pnItems pin) k commit r1 r2"
    and "ds_check lib \<lparr>dsRepo = r1, dsPin = pin, dsCommit = commit\<rparr> objectID commit = Inr u"
  shows "unit_paths_agree lib objectID commit r1 r2"
  using in_dataset_paths [OF assms(1)] assms by (auto simp: ds_check_def agree_at_def rbind_Inr_iff split: if_splits)

lemma ds_Read_agree:
  assumes a: "agree_at lib (pnItems pin) k commit r1 r2"
  shows "ds_Read lib \<lparr>dsRepo = r1, dsPin = pin, dsCommit = commit\<rparr> objectID commit =
    ds_Read lib \<lparr>dsRepo = r2, dsPin = pin, dsCommit = commit\<rparr> objectID commit"
  using ds_check_agree [OF a] ds_check_allows [OF a] tree_Read_agree [OF a]
  by (cases "ds_check lib \<lparr>dsRepo = r1, dsPin = pin, dsCommit = commit\<rparr> objectID commit") (auto simp: ds_Read_def)

lemma ds_GetProvenance_agree:
  assumes a: "agree_at lib (pnItems pin) k commit r1 r2"
  shows "ds_GetProvenance lib \<lparr>dsRepo = r1, dsPin = pin, dsCommit = commit\<rparr> objectID commit =
    ds_GetProvenance lib \<lparr>dsRepo = r2, dsPin = pin, dsCommit = commit\<rparr> objectID commit"
proof (cases "ds_check lib \<lparr>dsRepo = r1, dsPin = pin, dsCommit = commit\<rparr> objectID commit")
  case (Inl e)
  then show ?thesis using ds_check_agree [OF a] by (simp add: ds_GetProvenance_def)
next
  case (Inr u)
  have "objectUnits lib r1 objectID commit = objectUnits lib r2 objectID commit" "rpID r1 = rpID r2"
    using objectUnits_agree [OF a ds_check_allows [OF a Inr]] a by (simp_all add: agree_at_def)
  then show ?thesis using Inr ds_check_agree [OF a] by (simp add: ds_GetProvenance_def tree_GetProvenance_def cong: if_cong)
qed

lemma addressAtPaths_agree:
  assumes a: "agree_at lib (pnItems pin) k commit r1 r2"
    and "\<forall>p \<in> set paths. datasetPathAllowed (pnItems pin) k p"
  shows "addressAtPaths lib r1 address commit paths = addressAtPaths lib r2 address commit paths"
proof -
  have "\<forall>p \<in> set paths. rpRead r1 p commit = rpRead r2 p commit" using assms by (auto simp: agree_at_def visible_def)
  from units_at_paths_agree [OF this] show ?thesis by (simp add: addressAtPaths_def)
qed

lemma ds_addressPaths_agree:
  assumes a: "agree_at lib (pnItems pin) k commit r1 r2"
  shows "ds_addressPaths lib \<lparr>dsRepo = r1, dsPin = pin, dsCommit = commit\<rparr> objectID commit =
    ds_addressPaths lib \<lparr>dsRepo = r2, dsPin = pin, dsCommit = commit\<rparr> objectID commit"
    "ds_addressPaths lib \<lparr>dsRepo = r1, dsPin = pin, dsCommit = commit\<rparr> objectID commit = Inr paths \<Longrightarrow>
     \<forall>p \<in> set paths. datasetPathAllowed (pnItems pin) k p"
  using paths_agree [OF a] a
  by (auto simp: ds_addressPaths_def ObjectUnitPaths_def agree_at_def Let_def rbind_Inr_iff split: if_splits)

lemma tree_address_agree:
  assumes a: "agree_at lib (pnItems pin) k commit r1 r2" "unit_paths_agree lib (adObject address) commit r1 r2"
  shows "tree_ReadAddress lib r1 address commit = tree_ReadAddress lib r2 address commit"
    "tree_ResolveAddress lib r1 address commit = tree_ResolveAddress lib r2 address commit"
proof -
  have n: "rpID r1 = rpID r2" using a(1) by (simp add: agree_at_def)
  show "tree_ReadAddress lib r1 address commit = tree_ReadAddress lib r2 address commit"
    "tree_ResolveAddress lib r1 address commit = tree_ResolveAddress lib r2 address commit"
    unfolding tree_ReadAddress_def tree_ResolveAddress_def n objectUnits_agree [OF a] by (rule refl)+
qed

lemma ds_address_agree:
  assumes a: "agree_at lib (pnItems pin) k commit r1 r2"
  shows "ds_ReadAddress lib \<lparr>dsRepo = r1, dsPin = pin, dsCommit = commit\<rparr> address commit =
      ds_ReadAddress lib \<lparr>dsRepo = r2, dsPin = pin, dsCommit = commit\<rparr> address commit"
    "ds_ResolveAddress lib \<lparr>dsRepo = r1, dsPin = pin, dsCommit = commit\<rparr> address commit =
      ds_ResolveAddress lib \<lparr>dsRepo = r2, dsPin = pin, dsCommit = commit\<rparr> address commit"
proof -
  let ?v1 = "\<lparr>dsRepo = r1, dsPin = pin, dsCommit = commit\<rparr>" and ?v2 = "\<lparr>dsRepo = r2, dsPin = pin, dsCommit = commit\<rparr>"
  have n: "rpID r1 = rpID r2" using a by (simp add: agree_at_def)
  have scoped: "rbind (ds_addressPaths lib ?v1 (adObject address) commit) (ReadAddressAtPaths lib r1 address commit) =
      rbind (ds_addressPaths lib ?v2 (adObject address) commit) (ReadAddressAtPaths lib r2 address commit) \<and>
    rbind (ds_addressPaths lib ?v1 (adObject address) commit) (ResolveAddressAtPaths lib r1 address commit) =
      rbind (ds_addressPaths lib ?v2 (adObject address) commit) (ResolveAddressAtPaths lib r2 address commit)"
  proof (cases "ds_addressPaths lib ?v1 (adObject address) commit")
    case (Inl e)
    then show ?thesis using ds_addressPaths_agree(1) [OF a, of "adObject address"] by simp
  next
    case (Inr paths)
    have "addressAtPaths lib r1 address commit paths = addressAtPaths lib r2 address commit paths"
      using addressAtPaths_agree [OF a ds_addressPaths_agree(2) [OF a Inr]] .
    then show ?thesis using Inr ds_addressPaths_agree(1) [OF a, of "adObject address"] n
      by (simp add: ReadAddressAtPaths_def ResolveAddressAtPaths_def)
  qed
  have "ds_ReadAddress lib ?v1 address commit = ds_ReadAddress lib ?v2 address commit \<and>
    ds_ResolveAddress lib ?v1 address commit = ds_ResolveAddress lib ?v2 address commit"
  proof (cases "ds_check lib ?v1 (adObject address) commit")
    case (Inl e)
    then show ?thesis using ds_check_agree [OF a, of "adObject address"] scoped by (simp add: ds_ReadAddress_def ds_ResolveAddress_def)
  next
    case (Inr u)
    then show ?thesis using ds_check_agree [OF a, of "adObject address"] tree_address_agree [OF a ds_check_allows [OF a Inr]]
      by (simp add: ds_ReadAddress_def ds_ResolveAddress_def)
  qed
  then show "ds_ReadAddress lib ?v1 address commit = ds_ReadAddress lib ?v2 address commit"
    "ds_ResolveAddress lib ?v1 address commit = ds_ResolveAddress lib ?v2 address commit" by simp_all
qed

section \<open>The consumer face agrees\<close>

definition serving_agrees :: "reader_lib \<Rightarrow> serving \<Rightarrow> serving \<Rightarrow> bool" where
  "serving_agrees lib s1 s2 =
    (svgPin s1 = svgPin s2 \<and> svgHydrator s1 = None \<and> svgHydrator s2 = None \<and>
     (\<forall>k commit. map_of (pnRepositories (svgPin s1)) k = Some commit \<longrightarrow>
       (case svgLookup s1 k of
         Inl e \<Rightarrow> svgLookup s2 k = Inl e
       | Inr r1 \<Rightarrow> (case svgLookup s2 k of Inl _ \<Rightarrow> False | Inr r2 \<Rightarrow> agree_at lib (pnItems (svgPin s1)) k commit r1 r2))))"

lemma Lookup_agrees:
  assumes "serving_agrees lib s1 s2" "map_of (pnRepositories (svgPin s1)) k = Some commit"
  obtains (failed) e where "svgLookup s1 k = Inl e" "svgLookup s2 k = Inl e"
  | (mounted) r1 r2 where "agree_at lib (pnItems (svgPin s1)) k commit r1 r2" "svgLookup s1 k = Inr r1" "svgLookup s2 k = Inr r2"
proof -
  have both: "case svgLookup s1 k of Inl e \<Rightarrow> svgLookup s2 k = Inl e
      | Inr r1 \<Rightarrow> (case svgLookup s2 k of Inl _ \<Rightarrow> False | Inr r2 \<Rightarrow> agree_at lib (pnItems (svgPin s1)) k commit r1 r2)"
    using assms by (simp add: serving_agrees_def)
  then show thesis using failed mounted by (auto split: sum.splits)
qed

lemma Member_agrees:
  assumes "serving_agrees lib s1 s2"
  obtains (failed) e where "serving_Member s1 k = Inl e" "serving_Member s2 k = Inl e"
  | (mounted) r1 r2 commit where "agree_at lib (pnItems (svgPin s1)) k commit r1 r2"
      "serving_Member s1 k = Inr \<lparr>dsRepo = r1, dsPin = svgPin s1, dsCommit = commit\<rparr>"
      "serving_Member s2 k = Inr \<lparr>dsRepo = r2, dsPin = svgPin s1, dsCommit = commit\<rparr>"
proof (cases "map_of (pnRepositories (svgPin s1)) k")
  case None
  then show ?thesis using assms failed by (auto simp: serving_agrees_def serving_Member_def)
next
  case (Some commit)
  have pin: "svgPin s2 = svgPin s1" using assms by (simp add: serving_agrees_def)
  from assms Some show ?thesis
    by (cases rule: Lookup_agrees) (use Some pin failed mounted in \<open>simp_all add: serving_Member_def\<close>)
qed

lemma each_member_agree:
  assumes a: "serving_agrees lib s1 s2"
    and same: "\<And>k commit r1 r2. agree_at lib (pnItems (svgPin s1)) k commit r1 r2 \<Longrightarrow>
      f1 k commit \<lparr>dsRepo = r1, dsPin = svgPin s1, dsCommit = commit\<rparr> = f2 k commit \<lparr>dsRepo = r2, dsPin = svgPin s1, dsCommit = commit\<rparr>"
  shows "each_member s1 f1 ids = each_member s2 f2 ids"
proof (induction ids)
  case (Cons k ids)
  from a show ?case
  proof (cases rule: Member_agrees [where k = k])
    case (failed e)
    then show ?thesis by simp
  next
    case (mounted r1 r2 commit)
    then show ?thesis using same [OF mounted(1)] Cons.IH by simp
  qed
qed simp

lemma eachRepository_agree:
  assumes a: "serving_agrees lib s1 s2"
    and same: "\<And>k commit r1 r2. agree_at lib (pnItems (svgPin s1)) k commit r1 r2 \<Longrightarrow>
      f1 k commit \<lparr>dsRepo = r1, dsPin = svgPin s1, dsCommit = commit\<rparr> = f2 k commit \<lparr>dsRepo = r2, dsPin = svgPin s1, dsCommit = commit\<rparr>"
  shows "eachRepository s1 f1 = eachRepository s2 f2"
proof -
  have "each_member s1 f1 ids = each_member s2 f2 ids" for ids by (rule each_member_agree [OF a]) (rule same)
  then show ?thesis using a by (simp add: eachRepository_def serving_agrees_def)
qed

lemma eachObject_agree:
  assumes a: "serving_agrees lib s1 s2"
    and same: "\<And>k commit r1 r2. agree_at lib (pnItems (svgPin s1)) k commit r1 r2 \<Longrightarrow>
      f1 k commit \<lparr>dsRepo = r1, dsPin = svgPin s1, dsCommit = commit\<rparr> = f2 k commit \<lparr>dsRepo = r2, dsPin = svgPin s1, dsCommit = commit\<rparr>"
  shows "eachObject lib s1 objectID f1 = eachObject lib s2 objectID f2"
  unfolding eachObject_def
proof (rule eachRepository_agree [OF a])
  fix k commit r1 r2 assume r: "agree_at lib (pnItems (svgPin s1)) k commit r1 r2"
  have "svgPin s2 = svgPin s1" using a by (simp add: serving_agrees_def)
  then show "rbind (objectInDataset lib (svgPin s1) k commit (dsRepo \<lparr>dsRepo = r1, dsPin = svgPin s1, dsCommit = commit\<rparr>) objectID)
      (\<lambda>allowed. if \<not> allowed then Inr None else f1 k commit \<lparr>dsRepo = r1, dsPin = svgPin s1, dsCommit = commit\<rparr>) =
    rbind (objectInDataset lib (svgPin s2) k commit (dsRepo \<lparr>dsRepo = r2, dsPin = svgPin s1, dsCommit = commit\<rparr>) objectID)
      (\<lambda>allowed. if \<not> allowed then Inr None else f2 k commit \<lparr>dsRepo = r2, dsPin = svgPin s1, dsCommit = commit\<rparr>)"
    using objectInDataset_agree [OF r, of objectID] same [OF r] by (simp cong: if_cong)
qed

lemma Contains_agree:
  assumes a: "serving_agrees lib s1 s2"
  shows "serving_Contains lib s1 k objectID = serving_Contains lib s2 k objectID"
proof (cases "map_of (pnRepositories (svgPin s1)) k")
  case None
  then show ?thesis using a by (simp add: serving_agrees_def serving_Contains_def)
next
  case (Some commit)
  have pin: "svgPin s2 = svgPin s1" using a by (simp add: serving_agrees_def)
  from a Some show ?thesis
    by (cases rule: Lookup_agrees) (use Some pin objectInDataset_agree in \<open>simp_all add: serving_Contains_def\<close>)
qed


definition confined_lib :: reader_lib where
  "confined_lib = \<lparr>rlLocators = demo_locators\<lparr>llSha := \<lambda>_. ''d''\<rparr>, rlCodec = demo_json_lib\<rparr>"

definition secret_repository :: "string \<Rightarrow> tree_repository" where
  "secret_repository content = \<lparr>rpID = ''r'', rpOrigin = None,
    rpRead = (\<lambda>path commit. if path = ''docs/a.md'' then Inr (demo_body (JBool True))
      else if path = ''secret/b.md'' then Inr content else fails ErrKnowledgeRefUnresolved),
    rpLocator = Some (\<lambda>objectID commit. Inr (if objectID = ''x'' then [''docs/a.md''] else [''secret/b.md''])),
    rpDirectory = None, rpHistory = None, rpChanges = None\<rparr>"

definition keeping_secret :: "string \<Rightarrow> serving" where
  "keeping_secret content =
    serving_Open (\<lambda>k. Inr (secret_repository content))
    \<lparr>pnSetID = ''s'', pnRevision = 1, pnRepositories = [(''r'', ''c1'')], pnItems = [\<lparr>itTarget = [], itRepository = ''r'',
      itCommit = ''c1'', itKind = ''prefix'', itPrefix = ''docs'', itFile = []\<rparr>]\<rparr>"


end
