(* ===== verification/Hooks.thy ===== *)
theory Hooks
  imports Gate Decimal
begin

text \<open>
  Outbound hooks, \<open>src/hook\<close>: the bindings of a home, the synchronous pre hooks, the post hooks with their
  outbox of undelivered events, and the commands that administer hooks and gates (\<open>src/invocation/verbs_policy.go\<close>,
  \<open>home_hookrun.go\<close>).

  Every call that leaves the process (a script, an HTTP request, a file operation) is an effect of the environment: it is
  done, partly done or not done, and it returns, with or without an error, or the process dies in it.
\<close>

section \<open>Bindings\<close>

definition PhasePre :: string where "PhasePre = ''pre''"
definition PhasePost :: string where "PhasePost = ''post''"

definition mutatingOn :: "string list" where
  "mutatingOn = [''writer.commit'', ''governance.proposal.create'', ''governance.preview.create'', ''governance.validate'',
    ''governance.validation.record'', ''governance.merge'', ''dataset.manage'', ''catalog.repositories.manage'', ''catalog.manage'']"

record HookBinding =
  hbID :: string
  hbOn :: string
  hbPhase :: string
  hbRepo :: string
  hbCatalog :: string
  hbRun :: string
  hbURL :: string

record HookEvent =
  hvAction :: string
  hvPhase :: string
  hvAs :: string
  hvRepo :: string
  hvCatalog :: string
  hvCommandID :: string
  hvReceipt :: string
  hvNewCommit :: string
  hvSetID :: string
  hvDisposition :: string

definition CanHook :: "string \<Rightarrow> bool" where
  "CanHook on = (on \<in> set mutatingOn)"

definition hook_ValidateOn :: "string \<Rightarrow> unit go" where
  "hook_ValidateOn on =
    (if on = [] then fails ErrUsageInvalid else if \<not> CanHook on then fails ErrUsageInvalid else Inr ())"

definition ValidateHookBinding :: "HookBinding \<Rightarrow> unit go" where
  "ValidateHookBinding b =
    rbind (hook_ValidateOn (hbOn b)) (\<lambda>_.
      if hbPhase b \<noteq> PhasePre \<and> hbPhase b \<noteq> PhasePost then fails ErrUsageInvalid
      else if hbRun b = [] \<and> hbURL b = [] then fails ErrUsageInvalid
      else if hbRun b \<noteq> [] \<and> hbURL b \<noteq> [] then fails ErrUsageInvalid
      else if hbPhase b = PhasePre \<and> hbURL b \<noteq> [] then fails ErrUsageInvalid else Inr ())"

definition hook_Match :: "HookBinding list \<Rightarrow> string \<Rightarrow> string \<Rightarrow> string \<Rightarrow> string \<Rightarrow> HookBinding list" where
  "hook_Match bindings on phase repo catalog =
    filter (\<lambda>b. \<not> (hbOn b \<noteq> on \<or> hbPhase b \<noteq> phase) \<and> \<not> (hbRepo b \<noteq> [] \<and> hbRepo b \<noteq> repo) \<and>
      \<not> (hbCatalog b \<noteq> [] \<and> hbCatalog b \<noteq> catalog)) bindings"

section \<open>Administration\<close>

definition hook_NextID :: "HookBinding list \<Rightarrow> string" where
  "hook_NextID bindings = ''hk_'' @ itoa (length bindings + 1)"

definition gate_NextID :: "GateRule list \<Rightarrow> string" where
  "gate_NextID rules = ''gt_'' @ itoa (length rules + 1)"

definition DropByID :: "('a \<Rightarrow> string) \<Rightarrow> 'a list \<Rightarrow> string \<Rightarrow> 'a list \<times> bool" where
  "DropByID idOf items i = (filter (\<lambda>item. idOf item \<noteq> i) items, list_ex (\<lambda>item. idOf item = i) items)"

text \<open>The commands over the stored list; \<open>None\<close> leaves the file unchanged.\<close>

definition VerbHookAdd :: "HookBinding \<Rightarrow> HookBinding list \<Rightarrow> (HookBinding \<times> HookBinding list) go" where
  "VerbHookAdd b bindings =
    rbind (ValidateHookBinding b) (\<lambda>_. (let b' = b\<lparr>hbID := hook_NextID bindings\<rparr> in Inr (b', bindings @ [b'])))"

definition VerbHookRm :: "string \<Rightarrow> HookBinding list \<Rightarrow> HookBinding list go" where
  "VerbHookRm i bindings = (case DropByID hbID bindings i of (kept, found) \<Rightarrow> if \<not> found then Inl Bare else Inr kept)"

definition VerbGateAdd :: "GateRule \<Rightarrow> string \<Rightarrow> GateRule list \<Rightarrow> (GateRule \<times> GateRule list) go" where
  "VerbGateAdd rule require rules =
    rbind (ValidateOn (ruleOn rule)) (\<lambda>_.
    (let names = ParseRequire require in
     rbind (ValidateRequire names) (\<lambda>_.
       if ruleOn rule = OnMerge \<and> ruleRepo rule = [] then fails ErrUsageInvalid
       else (let rule' = rule\<lparr>ruleRequire := names, ruleID := gate_NextID rules\<rparr> in Inr (rule', rules @ [rule'])))))"

definition VerbGateRm :: "string \<Rightarrow> GateRule list \<Rightarrow> GateRule list go" where
  "VerbGateRm i rules = (case DropByID ruleID rules i of (kept, found) \<Rightarrow> if \<not> found then Inl Bare else Inr kept)"

section \<open>The environment\<close>

datatype extent = Nothing_done | Partly_done | All_done

text \<open>\<open>None\<close> for a call in which the process dies, otherwise the error it returns.\<close>

record effect =
  efExtent :: extent
  efReturn :: "go_error option option"

record hook_env =
  heEffect :: "nat \<Rightarrow> effect"
  heNow :: "nat \<Rightarrow> string"
  heParse :: "string \<Rightarrow> int option"
  heModTime :: int

record OutboxItem =
  oiBinding :: HookBinding
  oiEvent :: HookEvent
  oiError :: "go_error option"
  oiQueuedAt :: string

text \<open>A line that was written in part cannot be decoded.\<close>

datatype outbox_line = Line OutboxItem | Torn

text \<open>\<open>hhDelivered\<close> records the deliveries that were acknowledged, \<open>hhClock\<close> counts the effects.\<close>

record hook_home =
  hhFile :: "HookBinding list go"
  hhOutbox :: "outbox_line list option"
  hhClock :: nat
  hhDelivered :: "(HookBinding \<times> HookEvent) list"

definition effect_at :: "hook_env \<Rightarrow> hook_home \<Rightarrow> effect" where
  "effect_at env s = heEffect env (hhClock s)"

definition tick :: "hook_home \<Rightarrow> hook_home" where
  "tick s = s\<lparr>hhClock := Suc (hhClock s)\<rparr>"

section \<open>Delivery and the outbox\<close>

definition deliver :: "hook_env \<Rightarrow> HookBinding \<Rightarrow> HookEvent \<Rightarrow> hook_home \<Rightarrow> go_error option option \<times> hook_home" where
  "deliver env b event s =
    (if hbRun b = [] \<and> hbURL b = [] then (Some (Some (Fail ErrUsageInvalid)), s)
     else (case efReturn (effect_at env s) of
       None \<Rightarrow> (None, tick s)
     | Some None \<Rightarrow> (Some None, (tick s)\<lparr>hhDelivered := (b, event) # hhDelivered s\<rparr>)
     | Some (Some e) \<Rightarrow> (Some (Some e), tick s)))"

definition withOutboxLock :: "hook_env \<Rightarrow> (hook_home \<Rightarrow> go_error option option \<times> hook_home) \<Rightarrow> hook_home \<Rightarrow>
    go_error option option \<times> hook_home" where
  "withOutboxLock env action s =
    (case efReturn (effect_at env s) of
      None \<Rightarrow> (None, tick s)
    | Some None \<Rightarrow> action (tick s)
    | Some (Some e) \<Rightarrow> (Some (Some e), tick s))"

text \<open>What is appended behind a torn line continues that line.\<close>

definition append_line :: "outbox_line \<Rightarrow> outbox_line list \<Rightarrow> outbox_line list" where
  "append_line l ls = (if ls \<noteq> [] \<and> last ls = Torn then ls else ls @ [l])"

definition appendOutbox :: "hook_env \<Rightarrow> HookBinding \<Rightarrow> HookEvent \<Rightarrow> go_error option \<Rightarrow> hook_home \<Rightarrow> go_error option option \<times> hook_home" where
  "appendOutbox env b event err s =
    (let item = \<lparr>oiBinding = b, oiEvent = event, oiError = err, oiQueuedAt = heNow env (hhClock s)\<rparr>;
         ls = (case hhOutbox s of None \<Rightarrow> [] | Some ls \<Rightarrow> ls) in
     (efReturn (effect_at env s),
      (case efExtent (effect_at env s) of
        Nothing_done \<Rightarrow> tick s
      | Partly_done \<Rightarrow> (tick s)\<lparr>hhOutbox := Some (append_line Torn ls)\<rparr>
      | All_done \<Rightarrow> (tick s)\<lparr>hhOutbox := Some (append_line (Line item) ls)\<rparr>)))"

definition AppendOutbox :: "hook_env \<Rightarrow> HookBinding \<Rightarrow> HookEvent \<Rightarrow> go_error option \<Rightarrow> hook_home \<Rightarrow> go_error option option \<times> hook_home" where
  "AppendOutbox env b event err s = withOutboxLock env (appendOutbox env b event err) s"

text \<open>The lines in order; \<open>Inl\<close> is the return out of the loop, \<open>Inr\<close> the items that remain.\<close>

fun flush_lines :: "hook_env \<Rightarrow> outbox_line list \<Rightarrow> OutboxItem list \<Rightarrow> hook_home \<Rightarrow>
    (go_error option option + OutboxItem list) \<times> hook_home" where
  "flush_lines env [] remaining s = (Inr remaining, s)"
| "flush_lines env (Torn # ls) remaining s = (Inl (Some (Some Bare)), s)"
| "flush_lines env (Line item # ls) remaining s =
    (case deliver env (oiBinding item) (oiEvent item) s of
      (None, s') \<Rightarrow> (Inl None, s')
    | (Some None, s') \<Rightarrow> flush_lines env ls remaining s'
    | (Some (Some e), s') \<Rightarrow> flush_lines env ls (remaining @ [item\<lparr>oiError := Some e\<rparr>]) s')"

text \<open>\<open>os.Remove\<close> and \<open>replaceOutbox\<close>: the rename is done or not, whatever is returned.\<close>

definition replace_file :: "hook_env \<Rightarrow> outbox_line list option \<Rightarrow> hook_home \<Rightarrow> go_error option option \<times> hook_home" where
  "replace_file env contents s =
    (efReturn (effect_at env s),
     if efExtent (effect_at env s) = All_done then (tick s)\<lparr>hhOutbox := contents\<rparr> else tick s)"

definition replaceOutbox :: "hook_env \<Rightarrow> OutboxItem list \<Rightarrow> hook_home \<Rightarrow> go_error option option \<times> hook_home" where
  "replaceOutbox env items s = replace_file env (Some (map Line items)) s"

definition flushOutbox :: "hook_env \<Rightarrow> hook_home \<Rightarrow> go_error option option \<times> hook_home" where
  "flushOutbox env s =
    (case hhOutbox s of
      None \<Rightarrow> (Some None, s)
    | Some ls \<Rightarrow>
        (case efReturn (effect_at env s) of
          None \<Rightarrow> (None, tick s)
        | Some (Some e) \<Rightarrow> (Some (Some e), tick s)
        | Some None \<Rightarrow>
            if ls = [] then (Some None, tick s)
            else (case flush_lines env ls [] (tick s) of
              (Inl r, s') \<Rightarrow> (r, s')
            | (Inr remaining, s') \<Rightarrow>
                if length remaining = 0 then replace_file env None s' else replaceOutbox env remaining s')))"

definition FlushOutbox :: "hook_env \<Rightarrow> hook_home \<Rightarrow> go_error option option \<times> hook_home" where
  "FlushOutbox env s = withOutboxLock env (flushOutbox env) s"

record OutboxStats =
  osPending :: nat
  osOldestPendingAt :: int

text \<open>The zero time is 0.\<close>

fun inspect_lines :: "hook_env \<Rightarrow> outbox_line list \<Rightarrow> OutboxStats \<Rightarrow> go_error option \<times> OutboxStats" where
  "inspect_lines env [] stats = (None, stats)"
| "inspect_lines env (Torn # ls) stats = (Some Bare, stats)"
| "inspect_lines env (Line item # ls) stats =
    (let queued = (case heParse env (oiQueuedAt item) of None \<Rightarrow> heModTime env | Some t \<Rightarrow> t) in
     inspect_lines env ls \<lparr>osPending = Suc (osPending stats),
       osOldestPendingAt = (if osOldestPendingAt stats = 0 \<or> queued < osOldestPendingAt stats then queued else osOldestPendingAt stats)\<rparr>)"

definition InspectOutbox :: "hook_env \<Rightarrow> hook_home \<Rightarrow> go_error option \<times> OutboxStats" where
  "InspectOutbox env s =
    (case hhOutbox s of
      None \<Rightarrow> (None, \<lparr>osPending = 0, osOldestPendingAt = 0\<rparr>)
    | Some ls \<Rightarrow> inspect_lines env ls \<lparr>osPending = 0, osOldestPendingAt = 0\<rparr>)"

section \<open>Dispatch\<close>

text \<open>The result is \<open>None\<close> when the process dies, otherwise the errors that are joined.\<close>

fun dispatch_loop :: "hook_env \<Rightarrow> string \<Rightarrow> HookEvent \<Rightarrow> HookBinding list \<Rightarrow> go_error list \<Rightarrow> hook_home \<Rightarrow>
    go_error list option \<times> hook_home" where
  "dispatch_loop env phase event [] errs s = (Some errs, s)"
| "dispatch_loop env phase event (b # bs) errs s =
    (case deliver env b event s of
      (None, s') \<Rightarrow> (None, s')
    | (Some None, s') \<Rightarrow> dispatch_loop env phase event bs errs s'
    | (Some (Some e), s') \<Rightarrow>
        if phase = PhasePre then (Some [e], s')
        else (case AppendOutbox env b event (Some e) s' of
          (None, s'') \<Rightarrow> (None, s'')
        | (Some None, s'') \<Rightarrow> dispatch_loop env phase event bs errs s''
        | (Some (Some e2), s'') \<Rightarrow> dispatch_loop env phase event bs (errs @ [e2]) s''))"

definition Dispatch :: "hook_env \<Rightarrow> string \<Rightarrow> HookEvent \<Rightarrow> hook_home \<Rightarrow> go_error list option \<times> hook_home" where
  "Dispatch env phase given_event s =
    (case hhFile s of
      Inl e \<Rightarrow> (Some [e], s)
    | Inr bindings \<Rightarrow>
        (let event = given_event\<lparr>hvPhase := phase\<rparr> in
         case (if phase = PhasePost then FlushOutbox env s else (Some None, s)) of
           (None, s') \<Rightarrow> (None, s')
         | (Some flushed, s') \<Rightarrow>
             dispatch_loop env phase event (hook_Match bindings (hvAction event) phase (hvRepo event) (hvCatalog event))
               (case flushed of None \<Rightarrow> [] | Some e \<Rightarrow> [e]) s'))"

text \<open>A command between its hooks; \<open>run\<close> is the command on its own state, \<open>fill\<close> completes the event with its result.\<close>

definition WithHooks :: "hook_env \<Rightarrow> bool \<Rightarrow> string \<Rightarrow> HookEvent \<Rightarrow> ('w \<Rightarrow> 'a go \<times> 'w) \<Rightarrow> ('a \<Rightarrow> HookEvent \<Rightarrow> HookEvent) \<Rightarrow>
    'w \<Rightarrow> hook_home \<Rightarrow> 'a go option \<times> 'w \<times> hook_home" where
  "WithHooks env replayed command event run fill w s =
    (if \<not> CanHook command \<or> replayed then (case run w of (r, w') \<Rightarrow> (Some r, w', s))
     else (case Dispatch env PhasePre event s of
       (None, s') \<Rightarrow> (None, w, s')
     | (Some (e # es), s') \<Rightarrow> (Some (Inl e), w, s')
     | (Some [], s') \<Rightarrow>
         (case run w of
           (Inl e, w') \<Rightarrow> (Some (Inl e), w', s')
         | (Inr result, w') \<Rightarrow>
             (case Dispatch env PhasePost (fill result event) s' of
               (None, s'') \<Rightarrow> (None, w', s'')
             | (Some errs, s'') \<Rightarrow> (Some (Inr result), w', s'')))))"

end
