(* ===== verification/HookRules.thy ===== *)
theory HookRules
  imports Hooks
begin

text \<open>
  Post hooks are delivered at least once: an event whose dispatch succeeded is delivered or stays in the outbox, whatever
  fails and wherever the process dies.  The administration of hooks and gates, which reuses identifiers.
\<close>

section \<open>What is secured\<close>

definition pairs_of :: "outbox_line list \<Rightarrow> (HookBinding \<times> HookEvent) set" where
  "pairs_of ls = {(oiBinding item, oiEvent item) | item. Line item \<in> set ls}"

definition outbox_lines :: "hook_home \<Rightarrow> outbox_line list" where
  "outbox_lines s = (case hhOutbox s of None \<Rightarrow> [] | Some ls \<Rightarrow> ls)"

definition secured :: "hook_home \<Rightarrow> (HookBinding \<times> HookEvent) set" where
  "secured s = set (hhDelivered s) \<union> pairs_of (outbox_lines s)"

text \<open>A call that returns no error is done, and no write is cut in the middle.\<close>

definition reliable :: "hook_env \<Rightarrow> bool" where
  "reliable env =
    (\<forall>n. (efReturn (heEffect env n) = Some None \<longrightarrow> efExtent (heEffect env n) = All_done) \<and> efExtent (heEffect env n) \<noteq> Partly_done)"

definition whole :: "hook_home \<Rightarrow> bool" where
  "whole s = (Torn \<notin> set (outbox_lines s))"

lemma pairs_of_simps [simp]:
  "pairs_of [] = {}" "pairs_of (Torn # ls) = pairs_of ls"
  "pairs_of (Line item # ls) = insert (oiBinding item, oiEvent item) (pairs_of ls)"
  "pairs_of (xs @ ys) = pairs_of xs \<union> pairs_of ys"
  by (auto simp: pairs_of_def)

lemma pairs_of_map: "pairs_of (map Line items) = (\<lambda>item. (oiBinding item, oiEvent item)) ` set items"
  by (auto simp: pairs_of_def)

lemma tick_simps [simp]:
  "hhFile (tick s) = hhFile s" "hhOutbox (tick s) = hhOutbox s" "hhDelivered (tick s) = hhDelivered s" "hhClock (tick s) = Suc (hhClock s)"
  by (simp_all add: tick_def)

lemma outbox_lines_tick [simp]: "outbox_lines (tick s) = outbox_lines s"
  by (simp add: outbox_lines_def)

text \<open>What every operation preserves.\<close>

definition saves :: "hook_home \<Rightarrow> hook_home \<Rightarrow> bool" where
  "saves s s' = (secured s \<subseteq> secured s' \<and> (whole s \<longrightarrow> whole s') \<and> hhFile s' = hhFile s)"

lemma saves_refl [simp]: "saves s s"
  by (simp add: saves_def)

lemma saves_trans: "saves s t \<Longrightarrow> saves t u \<Longrightarrow> saves s u"
  by (auto simp: saves_def)

lemma saves_tick [simp]: "saves s (tick s)"
  by (simp add: saves_def secured_def whole_def)

section \<open>Each operation\<close>

lemma deliver_outbox:
  assumes "deliver env b event s = (r, s')"
  shows "hhOutbox s' = hhOutbox s \<and> hhFile s' = hhFile s \<and> set (hhDelivered s) \<subseteq> set (hhDelivered s') \<and>
    (r = Some None \<longrightarrow> (b, event) \<in> set (hhDelivered s'))"
  using assms by (auto simp: deliver_def split: if_splits option.splits)

lemma deliver_keeps:
  assumes "deliver env b event s = (r, s')"
  shows "saves s s'" and "r = Some None \<Longrightarrow> (b, event) \<in> secured s'"
  using deliver_outbox [OF assms] by (auto simp: saves_def secured_def whole_def outbox_lines_def)

lemma lock_keeps:
  assumes "withOutboxLock env action s = (r, s')"
    and "\<And>t r t'. action t = (r, t') \<Longrightarrow> saves t t'"
  shows "saves s s'"
  using assms saves_trans [OF saves_tick] by (auto simp: withOutboxLock_def split: option.splits)

lemma appendOutbox_keeps:
  assumes "reliable env" "appendOutbox env b event err s = (r, s')"
  shows "saves s s'"
proof -
  have "efExtent (effect_at env s) \<noteq> Partly_done" using assms(1) by (simp add: reliable_def effect_at_def)
  then show ?thesis using assms(2)
    by (cases "efExtent (effect_at env s)")
      (auto simp: appendOutbox_def saves_def secured_def whole_def outbox_lines_def append_line_def Let_def split: option.splits if_splits)
qed

lemma appendOutbox_secures:
  assumes "reliable env" "whole s" "appendOutbox env b event err s = (Some None, s')"
  shows "(b, event) \<in> secured s'"
proof -
  have r: "efReturn (effect_at env s) = Some None" using assms(3) by (simp add: appendOutbox_def Let_def)
  then have "efExtent (effect_at env s) = All_done" using assms(1) by (simp add: reliable_def effect_at_def)
  moreover have "last (outbox_lines s) \<noteq> Torn \<or> outbox_lines s = []" using assms(2) by (metis last_in_set whole_def)
  ultimately show ?thesis using assms(3)
    by (auto simp: appendOutbox_def secured_def outbox_lines_def append_line_def Let_def split: option.splits if_splits)
qed

lemma AppendOutbox_keeps:
  assumes "reliable env" "AppendOutbox env b event err s = (r, s')"
  shows "saves s s'" and "whole s \<Longrightarrow> r = Some None \<Longrightarrow> (b, event) \<in> secured s'"
proof -
  show "saves s s'" using lock_keeps [OF assms(2) [unfolded AppendOutbox_def] appendOutbox_keeps [OF assms(1)]] .
next
  assume w: "whole s" "r = Some None"
  then have "appendOutbox env b event err (tick s) = (Some None, s')"
    using assms(2) by (auto simp: AppendOutbox_def withOutboxLock_def split: option.splits)
  moreover have "whole (tick s)" using w(1) by (simp add: whole_def)
  ultimately show "(b, event) \<in> secured s'" using appendOutbox_secures [OF assms(1)] by blast
qed

lemma flush_lines_keeps:
  assumes "flush_lines env ls remaining s = (r, s')"
  shows "hhOutbox s' = hhOutbox s \<and> hhFile s' = hhFile s \<and> set (hhDelivered s) \<subseteq> set (hhDelivered s') \<and>
    (\<forall>items. r = Inr items \<longrightarrow> pairs_of ls \<union> pairs_of (map Line remaining) \<subseteq> set (hhDelivered s') \<union> pairs_of (map Line items))"
  using assms
proof (induction env ls remaining s rule: flush_lines.induct)
  case (3 env item ls remaining s)
  obtain d t where d: "deliver env (oiBinding item) (oiEvent item) s = (d, t)" by (cases "deliver env (oiBinding item) (oiEvent item) s")
  note one = deliver_outbox [OF d]
  show ?case
  proof (cases d)
    case None
    then show ?thesis using 3(3) d one by auto
  next
    case (Some e)
    show ?thesis
    proof (cases e)
      case None
      then show ?thesis using 3(1) [OF d [symmetric] Some [unfolded None]] 3(3) d one Some by (auto simp: pairs_of_map)
    next
      case err: (Some e')
      then show ?thesis using 3(2) [OF d [symmetric] Some [unfolded err] refl] 3(3) d one Some by (auto simp: pairs_of_map)
    qed
  qed
qed auto

lemma flushOutbox_keeps:
  assumes "flushOutbox env s = (r, s')"
  shows "saves s s'"
proof (cases "hhOutbox s")
  case None
  then show ?thesis using assms by (simp add: flushOutbox_def)
next
  case (Some ls)
  show ?thesis
  proof (cases "efReturn (effect_at env s) = Some None \<and> ls \<noteq> []")
    case False
    then have "s' = tick s" using assms Some by (auto simp: flushOutbox_def split: option.splits if_splits)
    then show ?thesis by simp
  next
    case True
    obtain q t where q: "flush_lines env ls [] (tick s) = (q, t)" by (cases "flush_lines env ls [] (tick s)")
    note all = flush_lines_keeps [OF q]
    then have kept: "saves s t" by (auto simp: saves_def secured_def whole_def outbox_lines_def)
    show ?thesis
    proof (cases q)
      case (Inl e)
      then show ?thesis using assms Some True q kept by (simp add: flushOutbox_def)
    next
      case (Inr items)
      then have run: "(r, s') = (if length items = 0 then replace_file env None t else replaceOutbox env items t)"
        using assms Some True q by (simp add: flushOutbox_def)
      have pairs: "pairs_of ls \<subseteq> set (hhDelivered t) \<union> pairs_of (map Line items)" "set (hhDelivered s) \<subseteq> set (hhDelivered t)"
        using all Inr by auto
      have bindings: "hhFile t = hhFile s" using all by simp
      consider "s' = tick t" | "s' = (tick t)\<lparr>hhOutbox := None\<rparr>" "items = []" | "s' = (tick t)\<lparr>hhOutbox := Some (map Line items)\<rparr>"
        using run by (auto simp: replace_file_def replaceOutbox_def split: if_splits)
      then show ?thesis
      proof cases
        case 1
        then show ?thesis using saves_trans [OF kept saves_tick] by simp
      next
        case 2
        then show ?thesis using pairs bindings Some by (auto simp: saves_def secured_def whole_def outbox_lines_def)
      next
        case 3
        then show ?thesis using pairs bindings Some by (auto simp: saves_def secured_def whole_def outbox_lines_def)
      qed
    qed
  qed
qed

lemma FlushOutbox_keeps:
  assumes "FlushOutbox env s = (r, s')"
  shows "saves s s'"
  using lock_keeps [OF assms [unfolded FlushOutbox_def] flushOutbox_keeps] .

section \<open>Dispatch\<close>

lemma dispatch_loop_keeps:
  assumes "reliable env" "dispatch_loop env phase event bs errs s = (r, s')"
  shows "saves s s' \<and>
    (r = Some [] \<longrightarrow> errs = [] \<and> (phase \<noteq> PhasePre \<longrightarrow> whole s \<longrightarrow> (\<forall>b \<in> set bs. (b, event) \<in> secured s')))"
  using assms(2)
proof (induction bs arbitrary: errs s)
  case (Cons b bs)
  obtain d t where d: "deliver env b event s = (d, t)" by (cases "deliver env b event s")
  note one = deliver_keeps [OF d]
  show ?case
  proof (cases d)
    case None
    then show ?thesis using Cons.prems d one(1) by auto
  next
    case (Some failure)
    show ?thesis
    proof (cases failure)
      case None
      then have "dispatch_loop env phase event bs errs t = (r, s')" using Cons.prems d Some by simp
      from Cons.IH [OF this] show ?thesis using one Some None saves_trans [OF one(1)] by (auto simp: saves_def)
    next
      case err: (Some e)
      show ?thesis
      proof (cases "phase = PhasePre")
        case True
        then show ?thesis using Cons.prems d Some err one(1) by auto
      next
        case post: False
        obtain q u where q: "AppendOutbox env b event (Some e) t = (q, u)" by (cases "AppendOutbox env b event (Some e) t")
        note stored = AppendOutbox_keeps [OF assms(1) q]
        note both = saves_trans [OF one(1) stored(1)]
        show ?thesis
        proof (cases q)
          case None
          then show ?thesis using Cons.prems d Some err post q both by auto
        next
          case q': (Some more)
          obtain errs' where loop: "dispatch_loop env phase event bs errs' u = (r, s')" and e: "errs' = [] \<Longrightarrow> more = None \<and> errs = []"
            using Cons.prems d Some err post q q' by (cases more) auto
          show ?thesis using Cons.IH [OF loop] e stored(2) q' both saves_trans [OF both] one(1) by (auto simp: saves_def)
        qed
      qed
    qed
  qed
qed auto

definition matched :: "hook_home \<Rightarrow> string \<Rightarrow> HookEvent \<Rightarrow> (HookBinding \<times> HookEvent) set" where
  "matched s phase event =
    (case hhFile s of Inl _ \<Rightarrow> {}
     | Inr bindings \<Rightarrow> (\<lambda>b. (b, event\<lparr>hvPhase := phase\<rparr>)) `
         set (hook_Match bindings (hvAction event) phase (hvRepo event) (hvCatalog event)))"

lemma Dispatch_keeps:
  assumes "reliable env" "Dispatch env phase event s = (r, s')"
  shows "saves s s'" and "phase = PhasePost \<Longrightarrow> r = Some [] \<Longrightarrow> whole s \<Longrightarrow> matched s phase event \<subseteq> secured s'"
proof -
  have "saves s s' \<and> (phase = PhasePost \<longrightarrow> r = Some [] \<longrightarrow> whole s \<longrightarrow> matched s phase event \<subseteq> secured s')"
  proof (cases "hhFile s")
    case (Inl e)
    then show ?thesis using assms(2) by (auto simp: Dispatch_def matched_def)
  next
    case (Inr bindings)
    let ?e = "event\<lparr>hvPhase := phase\<rparr>"
    obtain q t where q: "(if phase = PhasePost then FlushOutbox env s else (Some None, s)) = (q, t)"
      by (cases "if phase = PhasePost then FlushOutbox env s else (Some None, s)")
    have flushed: "saves s t" using q FlushOutbox_keeps by (auto split: if_splits)
    show ?thesis
    proof (cases q)
      case None
      then show ?thesis using assms(2) Inr q flushed by (auto simp: Dispatch_def Let_def)
    next
      case (Some f)
      let ?errs = "case f of None \<Rightarrow> [] | Some e \<Rightarrow> [e]"
      have "dispatch_loop env phase ?e (hook_Match bindings (hvAction event) phase (hvRepo event) (hvCatalog event)) ?errs t = (r, s')"
        using assms(2) Inr q Some by (simp add: Dispatch_def Let_def)
      from dispatch_loop_keeps [OF assms(1) this] show ?thesis
        using saves_trans [OF flushed] flushed Inr by (auto simp: matched_def saves_def PhasePost_def PhasePre_def)
    qed
  qed
  then show "saves s s'" "phase = PhasePost \<Longrightarrow> r = Some [] \<Longrightarrow> whole s \<Longrightarrow> matched s phase event \<subseteq> secured s'"
    by simp_all
qed

section \<open>Histories\<close>

text \<open>The events a home has accepted: those whose post dispatch returned without an error.\<close>

inductive hook_reach :: "hook_env \<Rightarrow> hook_home \<Rightarrow> (HookBinding \<times> HookEvent) set \<Rightarrow> bool" for env where
  empty: "hhOutbox s = None \<Longrightarrow> hook_reach env s {}"
| post: "hook_reach env s A \<Longrightarrow> Dispatch env PhasePost event s = (Some [], s') \<Longrightarrow> hook_reach env s' (A \<union> matched s PhasePost event)"
| dispatch: "hook_reach env s A \<Longrightarrow> Dispatch env phase event s = (r, s') \<Longrightarrow> hook_reach env s' A"
| flush: "hook_reach env s A \<Longrightarrow> FlushOutbox env s = (r, s') \<Longrightarrow> hook_reach env s' A"
| administer: "hook_reach env s A \<Longrightarrow> hook_reach env (s\<lparr>hhFile := bindings\<rparr>) A"

lemma reach_secured:
  assumes "reliable env" "hook_reach env s A"
  shows "whole s \<and> A \<subseteq> secured s"
  using assms(2)
proof induction
  case (post s A event s')
  then show ?case using Dispatch_keeps [OF assms(1) post.hyps(2)] by (auto simp: saves_def)
next
  case (dispatch s A phase event r s')
  then show ?case using Dispatch_keeps(1) [OF assms(1) dispatch.hyps(2)] by (auto simp: saves_def)
next
  case (flush s A r s')
  then show ?case using FlushOutbox_keeps [OF flush.hyps(2)] by (auto simp: saves_def)
qed (auto simp: whole_def outbox_lines_def secured_def)

section \<open>Progress\<close>

definition deliverable :: "hook_home \<Rightarrow> bool" where
  "deliverable s = (\<forall>(b, event) \<in> pairs_of (outbox_lines s). hbRun b \<noteq> [] \<or> hbURL b \<noteq> [])"

definition calls_succeed :: "hook_env \<Rightarrow> nat \<Rightarrow> bool" where
  "calls_succeed env n = (\<forall>k \<ge> n. efReturn (heEffect env k) = Some None)"

lemma flush_lines_succeeds:
  assumes "calls_succeed env (hhClock s)" "Torn \<notin> set ls" "\<forall>(b, event) \<in> pairs_of ls. hbRun b \<noteq> [] \<or> hbURL b \<noteq> []"
  shows "\<exists>s'. flush_lines env ls [] s = (Inr [], s') \<and> hhClock s \<le> hhClock s'"
  using assms
proof (induction ls arbitrary: s)
  case (Cons l ls)
  obtain item where l: "l = Line item" using Cons.prems(2) by (cases l) auto
  have "deliver env (oiBinding item) (oiEvent item) s =
      (Some None, (tick s)\<lparr>hhDelivered := (oiBinding item, oiEvent item) # hhDelivered s\<rparr>)"
    using Cons.prems(1,3) l by (auto simp: deliver_def effect_at_def calls_succeed_def)
  moreover have "calls_succeed env (Suc (hhClock s))" using Cons.prems(1) by (simp add: calls_succeed_def)
  ultimately show ?case
    using Cons.IH [of "(tick s)\<lparr>hhDelivered := (oiBinding item, oiEvent item) # hhDelivered s\<rparr>"] Cons.prems(2,3) l by auto
qed simp

lemma flush_delivers:
  assumes "reliable env" "whole s" "deliverable s" "calls_succeed env (hhClock s)"
  shows "secured s \<subseteq> set (hhDelivered (snd (FlushOutbox env s)))"
proof -
  have c: "efReturn (effect_at env t) = Some None" if "hhClock s \<le> hhClock t" for t
    using assms(4) that by (simp add: calls_succeed_def effect_at_def)
  have lock: "FlushOutbox env s = flushOutbox env (tick s)" using c [of s] by (simp add: FlushOutbox_def withOutboxLock_def)
  show ?thesis
  proof (cases "outbox_lines s = []")
    case True
    then show ?thesis unfolding lock using c [of "tick s"]
      by (auto simp: secured_def flushOutbox_def outbox_lines_def split: option.splits)
  next
    case False
    then obtain ls where ls: "hhOutbox s = Some ls" "ls \<noteq> []" "outbox_lines s = ls" by (auto simp: outbox_lines_def split: option.splits)
    have "calls_succeed env (hhClock (tick (tick s)))" using assms(4) by (simp add: calls_succeed_def)
    then obtain t where t: "flush_lines env ls [] (tick (tick s)) = (Inr [], t)" "hhClock (tick (tick s)) \<le> hhClock t"
      using flush_lines_succeeds assms(2,3) ls(3) unfolding whole_def deliverable_def by blast
    have "snd (FlushOutbox env s) = snd (replace_file env None t)"
      unfolding lock using ls t c [of "tick s"] by (simp add: flushOutbox_def)
    moreover have "hhDelivered (snd (replace_file env None t)) = hhDelivered t" by (simp add: replace_file_def)
    ultimately show ?thesis using flush_lines_keeps [OF t(1)] ls(3) by (auto simp: secured_def)
  qed
qed


definition demo_env :: hook_env where
  "demo_env = \<lparr>heEffect = (\<lambda>n. if n = 1 then \<lparr>efExtent = Nothing_done, efReturn = Some (Some (Fail ErrTemporaryUnavailable))\<rparr>
      else if n = 6 then \<lparr>efExtent = Nothing_done, efReturn = None\<rparr> else \<lparr>efExtent = All_done, efReturn = Some None\<rparr>),
    heNow = (\<lambda>n. []), heParse = (\<lambda>s. None), heModTime = 0\<rparr>"

definition demo_hook :: HookBinding where
  "demo_hook = \<lparr>hbID = ''hk_1'', hbOn = ''writer.commit'', hbPhase = ''post'', hbRepo = [], hbCatalog = [], hbRun = [],
    hbURL = ''http://h''\<rparr>"

definition demo_event :: HookEvent where
  "demo_event = \<lparr>hvAction = ''writer.commit'', hvPhase = ''post'', hvAs = [], hvRepo = ''r'', hvCatalog = [], hvCommandID = ''c'',
    hvReceipt = [], hvNewCommit = [], hvSetID = [], hvDisposition = []\<rparr>"

definition demo_home :: hook_home where
  "demo_home = \<lparr>hhFile = Inr [demo_hook], hhOutbox = None, hhClock = 0, hhDelivered = []\<rparr>"


section \<open>What the code does not promise\<close>

text \<open>A write that was cut in the middle blocks the outbox: no flush gets past the broken line or changes the file, every flush
  delivers the items before it again, and an event that is appended without an error is lost in that line.\<close>

lemma flush_lines_torn: "Torn \<in> set ls \<Longrightarrow> flush_lines env ls remaining s = (r, s') \<Longrightarrow> \<exists>e. r = Inl e"
  by (induction env ls remaining s arbitrary: r s' rule: flush_lines.induct) (auto split: prod.splits option.splits)

lemma torn_line_blocks_outbox:
  assumes "hhOutbox s = Some (ls @ [Torn])"
  shows "hhOutbox (snd (FlushOutbox env s)) = Some (ls @ [Torn])"
    and "hhOutbox (snd (AppendOutbox env b event err s)) = Some (ls @ [Torn])"
proof -
  have "hhOutbox (snd (flushOutbox env (tick s))) = Some (ls @ [Torn])"
  proof (cases "flush_lines env (ls @ [Torn]) [] (tick (tick s))")
    case (Pair r t)
    obtain e where "r = Inl e" using flush_lines_torn [OF _ Pair] by auto
    then show ?thesis using Pair assms flush_lines_keeps [OF Pair] by (auto simp: flushOutbox_def split: option.splits)
  qed
  then show "hhOutbox (snd (FlushOutbox env s)) = Some (ls @ [Torn])"
    using assms by (auto simp: FlushOutbox_def withOutboxLock_def split: option.splits)
  show "hhOutbox (snd (AppendOutbox env b event err s)) = Some (ls @ [Torn])"
    using assms by (auto simp: AppendOutbox_def withOutboxLock_def appendOutbox_def append_line_def Let_def split: option.splits extent.splits)
qed

text \<open>Identifiers are the length of the list: after a removal the next gate gets the identifier of another one, and removing it
  removes both.\<close>

definition demo_gate :: "string \<Rightarrow> GateRule" where
  "demo_gate repo = \<lparr>ruleID = [], ruleOn = OnMerge, ruleRepo = repo, ruleCatalog = [], ruleRequire = []\<rparr>"

definition add_gate :: "string \<Rightarrow> GateRule list \<Rightarrow> GateRule list go" where
  "add_gate repo rules = rbind (VerbGateAdd (demo_gate repo) RequireValidate rules) (\<lambda>(rule, rules'). Inr rules')"

lemma removed_gate_reuses_id:
  "rbind (add_gate ''a'' []) (\<lambda>g1. rbind (add_gate ''b'' g1) (\<lambda>g2. rbind (VerbGateRm ''gt_1'' g2) (add_gate ''c''))) =
     Inr [(demo_gate ''b'')\<lparr>ruleRequire := [RequireValidate], ruleID := ''gt_2''\<rparr>,
       (demo_gate ''c'')\<lparr>ruleRequire := [RequireValidate], ruleID := ''gt_2''\<rparr>]"
  "VerbGateRm ''gt_2'' [(demo_gate ''b'')\<lparr>ruleRequire := [RequireValidate], ruleID := ''gt_2''\<rparr>,
       (demo_gate ''c'')\<lparr>ruleRequire := [RequireValidate], ruleID := ''gt_2''\<rparr>] = Inr []"
  by code_simp+

section \<open>Commands\<close>

text \<open>A pre hook that fails stops the command: its state is untouched and nobody is notified afterwards.\<close>

lemma pre_hook_denies:
  assumes "CanHook command" "\<not> replayed" "Dispatch env PhasePre event s = (Some (e # es), s')"
  shows "WithHooks env replayed command event run fill w s = (Some (Inl e), w, s')"
  using assms by (simp add: WithHooks_def)

text \<open>A post hook never changes the result of a command.\<close>

lemma post_hook_keeps_result:
  assumes "WithHooks env replayed command event run fill w s = (Some (Inr result), w', s')"
  shows "run w = (Inr result, w')"
  using assms by (auto simp: WithHooks_def split: if_splits prod.splits option.splits list.splits sum.splits)

end
